(* ===== verification/Prelude.thy ===== *)
theory Prelude
  imports Complex_Main "HOL-Library.Monad_Syntax" "HOL-Library.Word" "HOL-Library.Signed_Division"
begin

text \<open>
  Shared vocabulary of the development: outcomes of C++ code that may abort, the pieces of the
  C++ standard library that several components call (\<open>std::find\<close>, \<open>std::search\<close>,
  \<open>std::copy\<close> into a vector, \<open>vector::resize\<close>), the byte representation of integers on
  the little-endian host the project targets, and the generic list lemmas the component proofs use.

  An operation that can stop the process (a failed \<open>assert\<close>, \<open>LOG_FATAL\<close>, an uncaught
  exception, or undefined behaviour such as a read outside an array) returns an \<open>option\<close>:
  \<open>None\<close> is "the process did not continue normally".
\<close>

named_theorems outcome_simps \<open>equations for running code that may abort\<close>
named_theorems list_ops \<open>length and content of the list forms of std:: algorithms\<close>

subsection \<open>Outcomes\<close>

type_synonym 'a outcome = "'a option"

definition assert_that :: "bool \<Rightarrow> unit outcome" where
  "assert_that b = (if b then Some () else None)"

lemma assert_that_True [simp, outcome_simps]: "b \<Longrightarrow> assert_that b = Some ()"
  by (simp add: assert_that_def)

lemma assert_that_False [simp]: "\<not> b \<Longrightarrow> assert_that b = None"
  by (simp add: assert_that_def)

lemma assert_that_bind_Some [simp, outcome_simps]:
  "(assert_that b \<bind> f = Some x) \<longleftrightarrow> b \<and> f () = Some x"
  by (auto simp: assert_that_def)

lemma assert_that_eq_Some [simp]: "(assert_that b = Some u) \<longleftrightarrow> b"
  by (simp add: assert_that_def)

lemma assert_that_bind_None [simp]:
  "(assert_that b \<bind> f = None) \<longleftrightarrow> (b \<longrightarrow> f () = None)"
  by (auto simp: assert_that_def)

text \<open>A loop \<open>for (x : xs) body\<close> whose body may abort.\<close>

fun for_each :: "('x \<Rightarrow> 's \<Rightarrow> 's outcome) \<Rightarrow> 'x list \<Rightarrow> 's \<Rightarrow> 's outcome" where
  "for_each body [] s = Some s"
| "for_each body (x # xs) s = body x s \<bind> for_each body xs"

lemma for_each_fun: "for_each body [] = Some" "for_each body (x # xs) = (\<lambda>s. body x s \<bind> for_each body xs)"
  by auto

lemma for_each_append:
  "for_each body (xs @ ys) s = for_each body xs s \<bind> for_each body ys"
  by (induction xs arbitrary: s) (auto split: bind_splits)

lemma for_each_invariant:
  assumes "\<And>x s s'. x \<in> set xs \<Longrightarrow> I s \<Longrightarrow> body x s = Some s' \<Longrightarrow> I s'"
    and "I s" and "for_each body xs s = Some s'"
  shows "I s'"
  using assms
proof (induction xs arbitrary: s)
  case Nil
  then show ?case by simp
next
  case (Cons x xs)
  from Cons.prems(3) obtain t where t: "body x s = Some t" and rest: "for_each body xs t = Some s'"
    by (auto simp: Option.bind_eq_Some_conv)
  from Cons.prems(1,2) t have "I t" by auto
  with Cons.IH Cons.prems(1) rest show ?case by (meson list.set_intros(2))
qed

lemma for_each_total:
  assumes "\<And>x s. x \<in> set xs \<Longrightarrow> I s \<Longrightarrow> \<exists>s'. body x s = Some s' \<and> I s'"
    and "I s"
  shows "\<exists>s'. for_each body xs s = Some s' \<and> I s'"
  using assms
proof (induction xs arbitrary: s)
  case Nil
  then show ?case by simp
next
  case (Cons x xs)
  from Cons.prems obtain t where t: "body x s = Some t" "I t" by auto
  with Cons.IH[of t] Cons.prems(1) show ?case by auto
qed

text \<open>
  Functional refinement of a component whose operations may abort: every operation aborts exactly
  when its specification does, and its result stands for the result of the specification.
\<close>

locale outcome_refinement =
  fixes step :: "'op \<Rightarrow> 's \<Rightarrow> 's outcome" and spec :: "'op \<Rightarrow> 'a \<Rightarrow> 'a outcome"
    and inv :: "'s \<Rightarrow> bool" and abs :: "'s \<Rightarrow> 'a"
  assumes refines: "inv s \<Longrightarrow> map_option abs (step op s) = spec op (abs s)"
    and keeps: "inv s \<Longrightarrow> step op s = Some s' \<Longrightarrow> inv s'"
begin

lemma run_refines: "inv s \<Longrightarrow> map_option abs (for_each step ops s) = for_each spec ops (abs s)"
proof (induction ops arbitrary: s)
  case (Cons op ops)
  note r = refines[OF Cons.prems, of op]
  show ?case
  proof (cases "step op s")
    case None
    then show ?thesis using r by simp
  next
    case (Some t)
    then have "spec op (abs s) = Some (abs t)" using r by simp
    with Cons.IH[OF keeps[OF Cons.prems Some]] Some show ?thesis by simp
  qed
qed simp

lemma run_keeps: "inv s \<Longrightarrow> for_each step ops s = Some s' \<Longrightarrow> inv s'"
  by (rule for_each_invariant[where xs = ops and body = step and I = inv]) (auto intro: keeps)

end

subsection \<open>Standard algorithms on character ranges\<close>

text \<open>\<open>std::find(first, last, c)\<close> as the distance from \<open>first\<close>; \<open>last\<close> when absent.\<close>

fun std_find :: "'a \<Rightarrow> 'a list \<Rightarrow> nat" where
  "std_find c [] = 0"
| "std_find c (x # xs) = (if x = c then 0 else Suc (std_find c xs))"

text \<open>\<open>std::search(first, last, pat)\<close> as the distance from \<open>first\<close>; \<open>last\<close> when absent.\<close>

fun std_search :: "'a list \<Rightarrow> 'a list \<Rightarrow> nat" where
  "std_search pat [] = 0"
| "std_search pat (x # xs) =
     (if take (length pat) (x # xs) = pat then 0 else Suc (std_search pat xs))"

lemma std_find_le [simp]: "std_find c xs \<le> length xs"
  by (induction xs) auto

lemma std_find_less_iff: "std_find c xs < length xs \<longleftrightarrow> c \<in> set xs"
  by (induction xs) auto

lemma std_find_nth: "std_find c xs < length xs \<Longrightarrow> xs ! std_find c xs = c"
  by (induction xs) auto

lemma std_find_take_notin: "c \<notin> set (take (std_find c xs) xs)"
  by (induction xs) auto

lemma std_find_append_notin [simp]: "c \<notin> set xs \<Longrightarrow> std_find c (xs @ c # ys) = length xs"
  by (induction xs) auto

lemma std_find_notin [simp]: "c \<notin> set xs \<Longrightarrow> std_find c xs = length xs"
  by (induction xs) auto

lemma std_search_le [simp]: "std_search pat xs \<le> length xs"
  by (induction xs) auto

lemma std_search_match:
  "std_search pat xs < length xs \<Longrightarrow> take (length pat) (drop (std_search pat xs) xs) = pat"
  by (induction xs) (auto split: if_splits)

lemma std_search_match_len:
  "std_search pat xs < length xs \<Longrightarrow> std_search pat xs + length pat \<le> length xs"
  using std_search_match[of pat xs] by (metis add.commute length_drop length_take
      le_diff_conv2 min.cobounded1 min_def order_less_imp_le nat_le_linear)

lemma std_search_first:
  "i < std_search pat xs \<Longrightarrow> take (length pat) (drop i xs) \<noteq> pat"
proof (induction xs arbitrary: i)
  case Nil
  then show ?case by simp
next
  case (Cons x xs)
  then show ?case by (cases i) (auto split: if_splits)
qed

subsection \<open>Vectors of characters\<close>

text \<open>\<open>vector<char>::resize(n)\<close>: truncation, or extension by value-initialised elements.\<close>

definition vector_resize :: "nat \<Rightarrow> 'a \<Rightarrow> 'a list \<Rightarrow> 'a list" where
  "vector_resize n z xs = take n xs @ replicate (n - length xs) z"

text \<open>\<open>std::copy\<close> / \<open>memcpy\<close> of \<open>ys\<close> to offset \<open>i\<close> of the array \<open>xs\<close>.\<close>

definition write_at :: "nat \<Rightarrow> 'a list \<Rightarrow> 'a list \<Rightarrow> 'a list" where
  "write_at i ys xs = take i xs @ ys @ drop (i + length ys) xs"

text \<open>The range \<open>[i, i + n)\<close> of an array.\<close>

definition segment :: "nat \<Rightarrow> nat \<Rightarrow> 'a list \<Rightarrow> 'a list" where
  "segment i n xs = take n (drop i xs)"

lemma length_vector_resize [simp, list_ops]: "length (vector_resize n z xs) = n"
  by (simp add: vector_resize_def min_def)

lemma length_write_at [simp, list_ops]:
  "i + length ys \<le> length xs \<Longrightarrow> length (write_at i ys xs) = length xs"
  by (simp add: write_at_def)

lemma length_segment [simp, list_ops]: "length (segment i n xs) = min n (length xs - i)"
  by (simp add: segment_def min.commute)

lemma segment_write_at_same:
  "i + length ys \<le> length xs \<Longrightarrow> segment i (length ys) (write_at i ys xs) = ys"
  by (simp add: segment_def write_at_def)

lemma segment_write_at_before:
  "i + n \<le> j \<Longrightarrow> j \<le> length xs \<Longrightarrow> segment i n (write_at j ys xs) = segment i n xs"
  by (simp add: segment_def write_at_def drop_take)

lemma segment_split: "segment i (m + n) xs = segment i m xs @ segment (i + m) n xs"
  by (simp add: segment_def take_add add.commute)

lemma segment_resize:
  "i + n \<le> length xs \<Longrightarrow> length xs \<le> m \<Longrightarrow> segment i n (vector_resize m z xs) = segment i n xs"
  by (simp add: segment_def vector_resize_def)

lemma take_segment: "m \<le> n \<Longrightarrow> take m (segment i n xs) = segment i m xs"
  by (simp add: segment_def)

lemma drop_segment: "drop m (segment i n xs) = segment (i + m) (n - m) xs"
  by (simp add: segment_def drop_take add.commute)

lemma segment_segment: "j + m \<le> n \<Longrightarrow> segment j m (segment i n xs) = segment (i + j) m xs"
  by (simp add: segment_def drop_take add.commute min_def)

lemma segment_zero [simp]: "segment i 0 xs = []"
  by (simp add: segment_def)

subsection \<open>Object representation of integers on the host\<close>

text \<open>
  The host is little-endian: the object representation of an unsigned value of \<open>n\<close> bytes lists
  the least significant byte first. \<open>htobe64\<close> and its kin reverse the bytes of the value.
\<close>

fun le_bytes :: "nat \<Rightarrow> nat \<Rightarrow> char list" where
  "le_bytes 0 v = []"
| "le_bytes (Suc n) v = char_of (v mod 256) # le_bytes n (v div 256)"

fun le_value :: "char list \<Rightarrow> nat" where
  "le_value [] = 0"
| "le_value (c # cs) = of_char c + 256 * le_value cs"

definition byte_swap :: "nat \<Rightarrow> nat \<Rightarrow> nat" where
  "byte_swap n v = le_value (rev (le_bytes n v))"

lemma length_le_bytes [simp]: "length (le_bytes n v) = n"
  by (induction n arbitrary: v) auto

lemma of_char_less_256: "(of_char c :: nat) < 256"
  by (metis of_char_mod_256 mod_less_divisor zero_less_numeral)

lemma digit_bound: "a < 256 \<Longrightarrow> b < y \<Longrightarrow> a + 256 * b < 256 * (y :: nat)"
  by arith

lemma le_value_bound: "le_value cs < 256 ^ length cs"
proof (induction cs)
  case (Cons c cs)
  from of_char_less_256 Cons.IH have "of_char c + 256 * le_value cs < 256 * 256 ^ length cs"
    by (rule digit_bound)
  then show ?case by simp
qed simp

lemma le_value_le_bytes: "le_value (le_bytes n v) = v mod 256 ^ n"
proof (induction n arbitrary: v)
  case (Suc n)
  have "v mod (256 * 256 ^ n) = v mod 256 + 256 * (v div 256 mod 256 ^ n)"
    by (simp add: mod_mult2_eq)
  with Suc show ?case by simp
qed simp

lemma le_bytes_le_value: "length cs = n \<Longrightarrow> le_bytes n (le_value cs) = cs"
proof (induction cs arbitrary: n)
  case (Cons c cs)
  have "(of_char c :: nat) < 256" by (rule of_char_less_256)
  with Cons show ?case by auto
qed simp

lemma byte_swap_bytes: "le_bytes n (byte_swap n v) = rev (le_bytes n v)"
  by (simp add: byte_swap_def le_bytes_le_value)

lemma byte_swap_bound: "byte_swap n v < 256 ^ n"
  using le_value_bound[of "rev (le_bytes n v)"] by (simp add: byte_swap_def)

lemma byte_swap_twice: "byte_swap n (byte_swap n v) = v mod 256 ^ n"
  by (simp add: byte_swap_def le_bytes_le_value le_value_le_bytes)

subsection \<open>Machine words\<close>

text \<open>\<open>static_cast<int>\<close> of a size: the low 32 bits, read as a signed number.\<close>

definition static_cast_int :: "nat \<Rightarrow> int" where
  "static_cast_int n = sint (word_of_nat n :: 32 word)"

lemma static_cast_int_small [simp]: "n < 2 ^ 31 \<Longrightarrow> static_cast_int n = int n"
  by (simp add: static_cast_int_def signed_of_nat signed_take_bit_int_eq_self)

lemma static_cast_int_negative:
  assumes "2 ^ 31 \<le> n" and "n < 2 ^ 32"
  shows "static_cast_int n = int n - 2 ^ 32"
proof -
  have "(word_of_nat n :: 32 word) = word_of_int (int n - 2 ^ 32)" by simp
  then have "static_cast_int n = sint (word_of_int (int n - 2 ^ 32) :: 32 word)"
    by (simp only: static_cast_int_def)
  also have "\<dots> = signed_take_bit 31 (int n - 2 ^ 32)" by (subst signed_of_int) simp
  also have "\<dots> = int n - 2 ^ 32" using assms by (intro signed_take_bit_int_eq_self) simp_all
  finally show ?thesis .
qed

subsection \<open>Decimal output\<close>

text \<open>
  What \<open>printf\<close> and \<open>std::ostream\<close> print for integers: \<open>"%d"\<close>, and its forms with a
  minimal width padded by zeros after the sign (\<open>"%0wd"\<close>) or by blanks (\<open>"%wd"\<close>). A call of
  \<open>snprintf\<close> with a buffer of \<open>n\<close> bytes keeps the first \<open>n - 1\<close> characters.
\<close>

definition digit_char :: "nat \<Rightarrow> char" where
  "digit_char d = char_of (48 + d)"

fun dec_nat :: "nat \<Rightarrow> string" where
  "dec_nat n = (if n < 10 then [digit_char n] else dec_nat (n div 10) @ [digit_char (n mod 10)])"

declare dec_nat.simps [simp del]

definition dec_int :: "int \<Rightarrow> string" where
  "dec_int i = (if i < 0 then CHR ''-'' # dec_nat (nat (- i)) else dec_nat (nat i))"

definition fmt_zero :: "nat \<Rightarrow> int \<Rightarrow> string" where
  "fmt_zero w i = (let ds = dec_nat (nat \<bar>i\<bar>) in
     if i < 0 then CHR ''-'' # replicate (w - 1 - length ds) (CHR ''0'') @ ds
     else replicate (w - length ds) (CHR ''0'') @ ds)"

definition fmt_blank :: "nat \<Rightarrow> int \<Rightarrow> string" where
  "fmt_blank w i = replicate (w - length (dec_int i)) (CHR '' '') @ dec_int i"

definition snprintf_buf :: "nat \<Rightarrow> string \<Rightarrow> string" where
  "snprintf_buf n s = take (n - 1) s"

fun dec_value :: "string \<Rightarrow> nat \<Rightarrow> nat" where
  "dec_value [] acc = acc"
| "dec_value (c # cs) acc = dec_value cs (10 * acc + (of_char c - 48))"

lemma dec_value_append: "dec_value (xs @ ys) acc = dec_value ys (dec_value xs acc)"
  by (induction xs arbitrary: acc) auto

lemma of_digit_char [simp]: "d < 10 \<Longrightarrow> of_char (digit_char d) = 48 + d"
  by (simp add: digit_char_def)

lemma digit_char_eq_iff: "d < 10 \<Longrightarrow> e < 10 \<Longrightarrow> digit_char d = digit_char e \<longleftrightarrow> d = e"
  by (metis add_left_cancel of_digit_char)

lemma dec_value_dec_nat [simp]: "dec_value (dec_nat n) 0 = n"
proof (induction n rule: dec_nat.induct)
  case (1 n)
  then show ?case by (subst dec_nat.simps) (auto simp: dec_value_append)
qed

lemma dec_nat_inject [simp]: "dec_nat m = dec_nat n \<longleftrightarrow> m = n"
  by (metis dec_value_dec_nat)

lemma dec_nat_digits: "c \<in> set (dec_nat n) \<Longrightarrow> \<exists>d < 10. c = digit_char d"
proof (induction n rule: dec_nat.induct)
  case (1 n)
  then show ?case
    by (subst (asm) (2) dec_nat.simps) (auto split: if_splits intro: exI[of _ "n mod 10"])
qed

lemma dec_nat_not_Nil [simp]: "dec_nat n \<noteq> []"
  by (subst dec_nat.simps) simp

lemma length_dec_nat_le: "n < 10 ^ k \<Longrightarrow> 0 < k \<Longrightarrow> length (dec_nat n) \<le> k"
proof (induction k arbitrary: n)
  case (Suc k)
  show ?case
  proof (cases "n < 10")
    case True
    then show ?thesis by (subst dec_nat.simps) simp
  next
    case False
    then have "k \<noteq> 0" using Suc.prems by (cases k) auto
    moreover have "n div 10 < 10 ^ k" using Suc.prems by (simp add: less_mult_imp_div_less mult.commute)
    ultimately have "length (dec_nat (n div 10)) \<le> k" using Suc.IH by simp
    with False show ?thesis by (subst dec_nat.simps) simp
  qed
qed simp

end
