(* ===== verification/Buffer.thy ===== *)
theory Buffer
  imports Prelude
begin

text \<open>
  The byte buffer of \<^verbatim>\<open>src/dc/net/buffer.h\<close> and \<^verbatim>\<open>src/dc/net/buffer.cc\<close>, with the
  byte-order helpers of \<^verbatim>\<open>src/dc/net/endian.h\<close>. A \<open>const char*\<close> into the buffer is its
  offset from \<open>begin()\<close>. A \<open>size_t\<close> that is an index into the vector or the length of
  data in memory is a natural number: both stay below \<open>2 ^ 63\<close>, and \<open>makeSpace_sums_fit\<close>
  shows that the sums the code forms of them fit 64 bits. A \<open>size_t\<close> the caller chooses
  freely, the \<open>len\<close> of \<open>ensureWritableBytes\<close> and the \<open>reserve\<close> of \<open>shrink\<close>, is a 64-bit word, and
  the sums with it wrap around.
  Every \<open>assert\<close> is an \<open>assert_that\<close>; a read of memory outside the vector is an abort.
\<close>

subsection \<open>State\<close>

record buffer =
  m_buffers :: "char list"
  m_readerIndex :: nat
  m_writerIndex :: nat

definition kCheapPrepend :: nat where
  "kCheapPrepend = 8"

definition kInitialSize :: nat where
  "kInitialSize = 1024"

definition kCRLF :: "char list" where
  "kCRLF = [CHR 0x0D, CHR 0x0A]"

definition Buffer_new :: "nat \<Rightarrow> buffer" where
  "Buffer_new initialSize =
     \<lparr>m_buffers = replicate (kCheapPrepend + initialSize) (CHR 0x00),
      m_readerIndex = kCheapPrepend, m_writerIndex = kCheapPrepend\<rparr>"

definition Buffer_swap :: "buffer \<Rightarrow> buffer \<Rightarrow> buffer \<times> buffer" where
  "Buffer_swap b rhs =
     (b\<lparr>m_buffers := m_buffers rhs, m_readerIndex := m_readerIndex rhs,
        m_writerIndex := m_writerIndex rhs\<rparr>,
      rhs\<lparr>m_buffers := m_buffers b, m_readerIndex := m_readerIndex b,
        m_writerIndex := m_writerIndex b\<rparr>)"

subsection \<open>Sizes, positions and searches\<close>

definition Buffer_readableBytes :: "buffer \<Rightarrow> nat" where
  "Buffer_readableBytes b = m_writerIndex b - m_readerIndex b"

definition Buffer_writableBytes :: "buffer \<Rightarrow> nat" where
  "Buffer_writableBytes b = length (m_buffers b) - m_writerIndex b"

definition Buffer_prependableBytes :: "buffer \<Rightarrow> nat" where
  "Buffer_prependableBytes b = m_readerIndex b"

definition Buffer_peek :: "buffer \<Rightarrow> nat" where
  "Buffer_peek b = m_readerIndex b"

definition Buffer_beginWrite :: "buffer \<Rightarrow> nat" where
  "Buffer_beginWrite b = m_writerIndex b"

text \<open>The bytes of the range \<open>[start, beginWrite())\<close>, and the readable bytes.\<close>

definition Buffer_range :: "buffer \<Rightarrow> nat \<Rightarrow> char list" where
  "Buffer_range b start = segment start (Buffer_beginWrite b - start) (m_buffers b)"

definition Buffer_content :: "buffer \<Rightarrow> char list" where
  "Buffer_content b = Buffer_range b (Buffer_peek b)"

definition Buffer_findCRLF :: "buffer \<Rightarrow> nat option" where
  "Buffer_findCRLF b =
     (let crlf = Buffer_peek b + std_search kCRLF (Buffer_range b (Buffer_peek b))
      in if crlf = Buffer_beginWrite b then None else Some crlf)"

definition Buffer_findCRLF_from :: "buffer \<Rightarrow> nat \<Rightarrow> nat option outcome" where
  "Buffer_findCRLF_from b start = do {
     assert_that (Buffer_peek b \<le> start);
     assert_that (start \<le> Buffer_beginWrite b);
     let crlf = start + std_search kCRLF (Buffer_range b start);
     Some (if crlf = Buffer_beginWrite b then None else Some crlf)
   }"

definition memchr :: "char list \<Rightarrow> char \<Rightarrow> nat option" where
  "memchr xs c = (if std_find c xs < length xs then Some (std_find c xs) else None)"

definition Buffer_findEOL :: "buffer \<Rightarrow> nat option" where
  "Buffer_findEOL b =
     map_option (\<lambda>i. Buffer_peek b + i)
       (memchr (segment (Buffer_peek b) (Buffer_readableBytes b) (m_buffers b)) (CHR 0x0A))"

definition Buffer_findEOL_from :: "buffer \<Rightarrow> nat \<Rightarrow> nat option outcome" where
  "Buffer_findEOL_from b start = do {
     assert_that (Buffer_peek b \<le> start);
     assert_that (start \<le> Buffer_beginWrite b);
     Some (map_option (\<lambda>i. start + i) (memchr (Buffer_range b start) (CHR 0x0A)))
   }"

subsection \<open>Retrieving\<close>

definition Buffer_retrieveAll :: "buffer \<Rightarrow> buffer" where
  "Buffer_retrieveAll b = b\<lparr>m_readerIndex := kCheapPrepend, m_writerIndex := kCheapPrepend\<rparr>"

definition Buffer_retrieve :: "nat \<Rightarrow> buffer \<Rightarrow> buffer outcome" where
  "Buffer_retrieve len b = do {
     assert_that (len \<le> Buffer_readableBytes b);
     Some (if len < Buffer_readableBytes b
           then b\<lparr>m_readerIndex := m_readerIndex b + len\<rparr>
           else Buffer_retrieveAll b)
   }"

definition Buffer_retrieveUntil :: "nat \<Rightarrow> buffer \<Rightarrow> buffer outcome" where
  "Buffer_retrieveUntil endp b = do {
     assert_that (Buffer_peek b \<le> endp);
     assert_that (endp \<le> Buffer_beginWrite b);
     Buffer_retrieve (endp - Buffer_peek b) b
   }"

definition Buffer_retrieveInt64 :: "buffer \<Rightarrow> buffer outcome" where
  "Buffer_retrieveInt64 b = Buffer_retrieve 8 b"

definition Buffer_retrieveInt32 :: "buffer \<Rightarrow> buffer outcome" where
  "Buffer_retrieveInt32 b = Buffer_retrieve 4 b"

definition Buffer_retrieveInt16 :: "buffer \<Rightarrow> buffer outcome" where
  "Buffer_retrieveInt16 b = Buffer_retrieve 2 b"

definition Buffer_retrieveInt8 :: "buffer \<Rightarrow> buffer outcome" where
  "Buffer_retrieveInt8 b = Buffer_retrieve 1 b"

definition Buffer_retrieveAsString :: "nat \<Rightarrow> buffer \<Rightarrow> (char list \<times> buffer) outcome" where
  "Buffer_retrieveAsString len b = do {
     assert_that (len \<le> Buffer_readableBytes b);
     let result = segment (Buffer_peek b) len (m_buffers b);
     b' \<leftarrow> Buffer_retrieve len b;
     Some (result, b')
   }"

definition Buffer_retrieveAllAsString :: "buffer \<Rightarrow> (char list \<times> buffer) outcome" where
  "Buffer_retrieveAllAsString b = Buffer_retrieveAsString (Buffer_readableBytes b) b"

subsection \<open>Appending, prepending, reshaping\<close>

text \<open>
  \<open>makeSpace\<close> and \<open>ensureWritableBytes\<close> as \<open>append\<close> calls them, with the length of data that
  is in memory; the definitions on 64-bit words follow below.
\<close>

definition Buffer_makeSpace :: "nat \<Rightarrow> buffer \<Rightarrow> buffer outcome" where
  "Buffer_makeSpace len b =
     (if Buffer_writableBytes b + Buffer_prependableBytes b < len + kCheapPrepend
      then Some (b\<lparr>m_buffers := vector_resize (m_writerIndex b + len) (CHR 0x00) (m_buffers b)\<rparr>)
      else do {
        assert_that (kCheapPrepend < m_readerIndex b);
        let readable = Buffer_readableBytes b;
        let b1 = b\<lparr>m_buffers := write_at kCheapPrepend
                     (segment (m_readerIndex b) readable (m_buffers b)) (m_buffers b)\<rparr>;
        let b2 = b1\<lparr>m_readerIndex := kCheapPrepend\<rparr>;
        let b3 = b2\<lparr>m_writerIndex := m_readerIndex b2 + readable\<rparr>;
        assert_that (readable = Buffer_readableBytes b3);
        Some b3
      })"

definition Buffer_ensureWritableBytes :: "nat \<Rightarrow> buffer \<Rightarrow> buffer outcome" where
  "Buffer_ensureWritableBytes len b = do {
     b' \<leftarrow> (if Buffer_writableBytes b < len then Buffer_makeSpace len b else Some b);
     assert_that (Buffer_writableBytes b' \<ge> len);
     Some b'
   }"

text \<open>
  The same two functions for any \<open>size_t\<close>: every sum and difference is one of 64-bit words, and
  \<open>resize\<close> throws \<open>length_error\<close> above \<open>max_size()\<close>, which is \<open>2 ^ 63 - 1\<close> for a vector of
  \<open>char\<close>. A copy from outside the vector is undefined.
\<close>

type_synonym size_t = "64 word"

definition vector_max_size :: nat where
  "vector_max_size = 2 ^ 63 - 1"

definition Buffer_writableBytes_sz :: "buffer \<Rightarrow> size_t" where
  "Buffer_writableBytes_sz b = word_of_nat (length (m_buffers b)) - word_of_nat (m_writerIndex b)"

definition Buffer_makeSpace_sz :: "size_t \<Rightarrow> buffer \<Rightarrow> buffer outcome" where
  "Buffer_makeSpace_sz len b =
     (if Buffer_writableBytes_sz b + word_of_nat (Buffer_prependableBytes b)
           < len + word_of_nat kCheapPrepend
      then do {
        let n = unat (word_of_nat (m_writerIndex b) + len);
        assert_that (n \<le> vector_max_size);
        Some (b\<lparr>m_buffers := vector_resize n (CHR 0x00) (m_buffers b)\<rparr>)
      }
      else do {
        assert_that (kCheapPrepend < m_readerIndex b);
        let readable = Buffer_readableBytes b;
        assert_that (m_readerIndex b + readable \<le> length (m_buffers b));
        let b1 = b\<lparr>m_buffers := write_at kCheapPrepend
                     (segment (m_readerIndex b) readable (m_buffers b)) (m_buffers b)\<rparr>;
        let b2 = b1\<lparr>m_readerIndex := kCheapPrepend\<rparr>;
        let b3 = b2\<lparr>m_writerIndex := m_readerIndex b2 + readable\<rparr>;
        assert_that (readable = Buffer_readableBytes b3);
        Some b3
      })"

definition Buffer_ensureWritableBytes_sz :: "size_t \<Rightarrow> buffer \<Rightarrow> buffer outcome" where
  "Buffer_ensureWritableBytes_sz len b = do {
     b' \<leftarrow> (if Buffer_writableBytes_sz b < len then Buffer_makeSpace_sz len b else Some b);
     assert_that (len \<le> Buffer_writableBytes_sz b');
     Some b'
   }"

definition Buffer_hasWritten :: "nat \<Rightarrow> buffer \<Rightarrow> buffer outcome" where
  "Buffer_hasWritten len b = do {
     assert_that (len \<le> Buffer_writableBytes b);
     Some (b\<lparr>m_writerIndex := m_writerIndex b + len\<rparr>)
   }"

definition Buffer_unwrite :: "nat \<Rightarrow> buffer \<Rightarrow> buffer outcome" where
  "Buffer_unwrite len b = do {
     assert_that (len \<le> Buffer_readableBytes b);
     Some (b\<lparr>m_writerIndex := m_writerIndex b - len\<rparr>)
   }"

definition Buffer_append :: "char list \<Rightarrow> buffer \<Rightarrow> buffer outcome" where
  "Buffer_append data b = do {
     b1 \<leftarrow> Buffer_ensureWritableBytes (length data) b;
     let b2 = b1\<lparr>m_buffers := write_at (Buffer_beginWrite b1) data (m_buffers b1)\<rparr>;
     Buffer_hasWritten (length data) b2
   }"

definition Buffer_prepend :: "char list \<Rightarrow> buffer \<Rightarrow> buffer outcome" where
  "Buffer_prepend data b = do {
     assert_that (length data \<le> Buffer_prependableBytes b);
     let b1 = b\<lparr>m_readerIndex := m_readerIndex b - length data\<rparr>;
     Some (b1\<lparr>m_buffers := write_at (m_readerIndex b1) data (m_buffers b1)\<rparr>)
   }"

text \<open>
  \<open>StringPiece\<close> keeps its length in an \<open>int\<close>: the cast keeps the low 32 bits, read as signed.
  A negative length becomes a \<open>size_t\<close> above \<open>2 ^ 63\<close> when it is passed on to
  \<open>append(const char*, size_t)\<close>: \<open>resize\<close> throws, or an assertion fails, or the copy runs far
  outside the data.
\<close>

definition Buffer_append_piece :: "char list \<Rightarrow> buffer \<Rightarrow> buffer outcome" where
  "Buffer_append_piece str b = do {
     let len = static_cast_int (length str);
     assert_that (0 \<le> len);
     Buffer_append (take (nat len) str) b
   }"

definition Buffer_toStringPiece :: "buffer \<Rightarrow> nat \<times> int" where
  "Buffer_toStringPiece b = (Buffer_peek b, static_cast_int (Buffer_readableBytes b))"

definition Buffer_shrink :: "size_t \<Rightarrow> buffer \<Rightarrow> buffer outcome" where
  "Buffer_shrink reserve b = do {
     other1 \<leftarrow> Buffer_ensureWritableBytes_sz (word_of_nat (Buffer_readableBytes b) + reserve)
                (Buffer_new kInitialSize);
     let (ptr, len) = Buffer_toStringPiece b;
     assert_that (0 \<le> len);
     other2 \<leftarrow> Buffer_append (segment ptr (nat len) (m_buffers b)) other1;
     Some (fst (Buffer_swap b other2))
   }"

subsection \<open>Reading from a descriptor\<close>

text \<open>
  The system call \<open>readv\<close> is a parameter: from the lengths of the I/O vector it gives an error
  number or the bytes received, which the kernel stores into the vector's parts in order.
\<close>

datatype read_result = ReadError int | ReadData "char list"

definition extrabuf_size :: nat where
  "extrabuf_size = 65536"

definition Buffer_readFd_iov :: "buffer \<Rightarrow> nat list" where
  "Buffer_readFd_iov b =
     (let writable = Buffer_writableBytes b
      in if writable < extrabuf_size then [writable, extrabuf_size] else [writable])"

definition Buffer_readFd ::
  "(nat list \<Rightarrow> read_result) \<Rightarrow> buffer \<Rightarrow> (int \<times> int option \<times> buffer) outcome" where
  "Buffer_readFd readv b =
     (let writable = Buffer_writableBytes b
      in case readv (Buffer_readFd_iov b) of
           ReadError err \<Rightarrow> Some (-1, Some err, b)
         | ReadData data \<Rightarrow>
             (let n = length data;
                  b1 = b\<lparr>m_buffers :=
                         write_at (m_writerIndex b) (take writable data) (m_buffers b)\<rparr>;
                  extrabuf = drop writable data
              in if n \<le> writable
                 then Some (int n, None, b1\<lparr>m_writerIndex := m_writerIndex b1 + n\<rparr>)
                 else do {
                   let b2 = b1\<lparr>m_writerIndex := length (m_buffers b1)\<rparr>;
                   b3 \<leftarrow> Buffer_append (take (n - writable) extrabuf) b2;
                   Some (int n, None, b3)
                 }))"

subsection \<open>Integers in network byte order\<close>

definition hostToNetwork64 :: "64 word \<Rightarrow> 64 word" where
  "hostToNetwork64 host64 = word_of_nat (byte_swap 8 (unat host64))"

definition hostToNetwork32 :: "32 word \<Rightarrow> 32 word" where
  "hostToNetwork32 host32 = word_of_nat (byte_swap 4 (unat host32))"

definition hostToNetwork16 :: "16 word \<Rightarrow> 16 word" where
  "hostToNetwork16 host16 = word_of_nat (byte_swap 2 (unat host16))"

definition networkToHost64 :: "64 word \<Rightarrow> 64 word" where
  "networkToHost64 net64 = word_of_nat (byte_swap 8 (unat net64))"

definition networkToHost32 :: "32 word \<Rightarrow> 32 word" where
  "networkToHost32 net32 = word_of_nat (byte_swap 4 (unat net32))"

definition networkToHost16 :: "16 word \<Rightarrow> 16 word" where
  "networkToHost16 net16 = word_of_nat (byte_swap 2 (unat net16))"

definition Buffer_appendInt64 :: "64 word \<Rightarrow> buffer \<Rightarrow> buffer outcome" where
  "Buffer_appendInt64 x b = Buffer_append (le_bytes 8 (unat (hostToNetwork64 x))) b"

definition Buffer_appendInt32 :: "32 word \<Rightarrow> buffer \<Rightarrow> buffer outcome" where
  "Buffer_appendInt32 x b = Buffer_append (le_bytes 4 (unat (hostToNetwork32 x))) b"

definition Buffer_appendInt16 :: "16 word \<Rightarrow> buffer \<Rightarrow> buffer outcome" where
  "Buffer_appendInt16 x b = Buffer_append (le_bytes 2 (unat (hostToNetwork16 x))) b"

definition Buffer_appendInt8 :: "8 word \<Rightarrow> buffer \<Rightarrow> buffer outcome" where
  "Buffer_appendInt8 x b = Buffer_append (le_bytes 1 (unat x)) b"

definition Buffer_prependInt64 :: "64 word \<Rightarrow> buffer \<Rightarrow> buffer outcome" where
  "Buffer_prependInt64 x b = Buffer_prepend (le_bytes 8 (unat (hostToNetwork64 x))) b"

definition Buffer_prependInt32 :: "32 word \<Rightarrow> buffer \<Rightarrow> buffer outcome" where
  "Buffer_prependInt32 x b = Buffer_prepend (le_bytes 4 (unat (hostToNetwork32 x))) b"

definition Buffer_prependInt16 :: "16 word \<Rightarrow> buffer \<Rightarrow> buffer outcome" where
  "Buffer_prependInt16 x b = Buffer_prepend (le_bytes 2 (unat (hostToNetwork16 x))) b"

text \<open>\<open>memcpy\<close> of \<open>n\<close> bytes from \<open>peek()\<close>: outside the vector it is undefined behaviour.\<close>

definition Buffer_memcpy :: "buffer \<Rightarrow> nat \<Rightarrow> char list outcome" where
  "Buffer_memcpy b n = do {
     assert_that (Buffer_peek b + n \<le> length (m_buffers b));
     Some (segment (Buffer_peek b) n (m_buffers b))
   }"

definition Buffer_peekInt64 :: "buffer \<Rightarrow> 64 word outcome" where
  "Buffer_peekInt64 b = do {
     assert_that (Buffer_readableBytes b \<ge> 8);
     bytes \<leftarrow> Buffer_memcpy b 8;
     let be64 = (word_of_nat (le_value bytes) :: 64 word);
     Some (networkToHost64 be64)
   }"

definition Buffer_peekInt32 :: "buffer \<Rightarrow> 32 word outcome" where
  "Buffer_peekInt32 b = do {
     assert_that (Buffer_readableBytes b \<ge> 4);
     bytes \<leftarrow> Buffer_memcpy b 4;
     let be32 = (word_of_nat (le_value bytes) :: 32 word);
     Some (networkToHost32 be32)
   }"

text \<open>
  \<open>peekInt16\<close> declares \<open>be16\<close> as an \<open>int32_t\<close>, so \<open>sizeof be16\<close> copies four bytes;
  the call of \<open>networkToHost16\<close> then keeps the low 16 bits.
\<close>

definition Buffer_peekInt16 :: "buffer \<Rightarrow> 16 word outcome" where
  "Buffer_peekInt16 b = do {
     assert_that (Buffer_readableBytes b \<ge> 2);
     bytes \<leftarrow> Buffer_memcpy b 4;
     let be16 = (word_of_nat (le_value bytes) :: 32 word);
     Some (networkToHost16 (ucast be16))
   }"

definition Buffer_peekInt8 :: "buffer \<Rightarrow> 8 word outcome" where
  "Buffer_peekInt8 b = do {
     assert_that (Buffer_readableBytes b \<ge> 1);
     bytes \<leftarrow> Buffer_memcpy b 1;
     Some (word_of_nat (le_value bytes))
   }"

definition Buffer_readInt64 :: "buffer \<Rightarrow> (64 word \<times> buffer) outcome" where
  "Buffer_readInt64 b = do {
     result \<leftarrow> Buffer_peekInt64 b;
     b' \<leftarrow> Buffer_retrieveInt64 b;
     Some (result, b')
   }"

definition Buffer_readInt32 :: "buffer \<Rightarrow> (32 word \<times> buffer) outcome" where
  "Buffer_readInt32 b = do {
     result \<leftarrow> Buffer_peekInt32 b;
     b' \<leftarrow> Buffer_retrieveInt32 b;
     Some (result, b')
   }"

definition Buffer_readInt16 :: "buffer \<Rightarrow> (16 word \<times> buffer) outcome" where
  "Buffer_readInt16 b = do {
     result \<leftarrow> Buffer_peekInt16 b;
     b' \<leftarrow> Buffer_retrieveInt16 b;
     Some (result, b')
   }"

text \<open>\<open>readInt8\<close> returns an \<open>int32_t\<close>: the \<open>int8_t\<close> is sign-extended.\<close>

definition Buffer_readInt8 :: "buffer \<Rightarrow> (int \<times> buffer) outcome" where
  "Buffer_readInt8 b = do {
     result \<leftarrow> Buffer_peekInt8 b;
     b' \<leftarrow> Buffer_retrieveInt8 b;
     Some (sint result, b')
   }"

subsection \<open>The class invariant and the interface of a byte queue\<close>

text \<open>The picture above the class in \<^verbatim>\<open>buffer.h\<close>: \<open>0 <= readerIndex <= writerIndex <= size\<close>.\<close>

definition Buffer_inv :: "buffer \<Rightarrow> bool" where
  "Buffer_inv b \<longleftrightarrow> m_readerIndex b \<le> m_writerIndex b \<and> m_writerIndex b \<le> length (m_buffers b)
     \<and> kCheapPrepend \<le> length (m_buffers b)"

text \<open>
  Sequences of the mutating operations, and the abstract buffer they implement: a list of bytes
  extended and consumed at both ends.
\<close>

datatype buffer_op =
    OpAppend "char list" | OpPrepend "char list" | OpEnsureWritable size_t
  | OpRetrieve nat | OpRetrieveAll | OpUnwrite nat

fun Buffer_step :: "buffer_op \<Rightarrow> buffer \<Rightarrow> buffer outcome" where
  "Buffer_step (OpAppend xs) b = Buffer_append xs b"
| "Buffer_step (OpPrepend xs) b = Buffer_prepend xs b"
| "Buffer_step (OpEnsureWritable n) b = Buffer_ensureWritableBytes_sz n b"
| "Buffer_step (OpRetrieve n) b = Buffer_retrieve n b"
| "Buffer_step OpRetrieveAll b = Some (Buffer_retrieveAll b)"
| "Buffer_step (OpUnwrite n) b = Buffer_unwrite n b"

text \<open>The bytes an operation may add to the vector.\<close>

fun op_size :: "buffer_op \<Rightarrow> nat" where
  "op_size (OpAppend xs) = length xs"
| "op_size (OpEnsureWritable n) = unat n"
| "op_size _ = 0"

fun Bytes_step :: "buffer_op \<Rightarrow> char list \<Rightarrow> char list" where
  "Bytes_step (OpAppend xs) c = c @ xs"
| "Bytes_step (OpPrepend xs) c = xs @ c"
| "Bytes_step (OpEnsureWritable n) c = c"
| "Bytes_step (OpRetrieve n) c = drop n c"
| "Bytes_step OpRetrieveAll c = []"
| "Bytes_step (OpUnwrite n) c = take (length c - n) c"

text \<open>
  What clients of the buffer rely on: appending extends the readable bytes at the end,
  retrieving removes them at the front, and neither aborts within the stated bounds.
\<close>

locale byte_queue =
  fixes invar :: "'b \<Rightarrow> bool"
    and content :: "'b \<Rightarrow> 'c list"
    and app :: "'c list \<Rightarrow> 'b \<Rightarrow> 'b option"
    and ret :: "nat \<Rightarrow> 'b \<Rightarrow> 'b option"
  assumes app_spec: "invar b \<Longrightarrow> \<exists>b'. app xs b = Some b' \<and> invar b' \<and> content b' = content b @ xs"
    and ret_spec: "invar b \<Longrightarrow> n \<le> length (content b) \<Longrightarrow>
        \<exists>b'. ret n b = Some b' \<and> invar b' \<and> content b' = drop n (content b)"
    and ret_over: "invar b \<Longrightarrow> length (content b) < n \<Longrightarrow> ret n b = None"
begin

text \<open>A writer that appends several pieces in order appends their concatenation.\<close>

lemma app_all:
  "invar b \<Longrightarrow> \<exists>b'. for_each app xss b = Some b' \<and> invar b' \<and> content b' = content b @ concat xss"
proof (induction xss arbitrary: b)
  case Nil
  then show ?case by simp
next
  case (Cons xs xss)
  from app_spec[OF Cons.prems] obtain b1
    where b1: "app xs b = Some b1" "invar b1" "content b1 = content b @ xs" by blast
  from Cons.IH[OF b1(2)] b1 show ?case by auto
qed

text \<open>First in, first out: what was there before an append is what the next retrieve removes.\<close>

lemma fifo:
  assumes "invar b"
  shows "\<exists>b1 b2. app xs b = Some b1 \<and> ret (length (content b)) b1 = Some b2
           \<and> invar b2 \<and> content b2 = xs"
proof -
  from app_spec[OF assms] obtain b1
    where b1: "app xs b = Some b1" "invar b1" "content b1 = content b @ xs" by blast
  then have "length (content b) \<le> length (content b1)" by simp
  from ret_spec[OF b1(2) this] b1 show ?thesis by auto
qed

end

subsection \<open>Basic facts\<close>

lemmas buffer_defs = Buffer_readableBytes_def Buffer_writableBytes_def Buffer_prependableBytes_def
  Buffer_peek_def Buffer_beginWrite_def

lemma Buffer_content_segment:
  "Buffer_content b = segment (m_readerIndex b) (m_writerIndex b - m_readerIndex b) (m_buffers b)"
  by (simp add: Buffer_content_def Buffer_range_def buffer_defs)

lemma length_Buffer_content: "Buffer_inv b \<Longrightarrow> length (Buffer_content b) = Buffer_readableBytes b"
  by (auto simp: Buffer_content_segment Buffer_inv_def buffer_defs)

lemma Buffer_inv_new [simp]: "Buffer_inv (Buffer_new n)"
  by (simp add: Buffer_inv_def Buffer_new_def)

lemma Buffer_content_new [simp]: "Buffer_content (Buffer_new n) = []"
  by (simp add: Buffer_content_segment Buffer_new_def)

lemma Buffer_inv_retrieveAll: "Buffer_inv b \<Longrightarrow> Buffer_inv (Buffer_retrieveAll b)"
  by (simp add: Buffer_inv_def Buffer_retrieveAll_def)

lemma Buffer_content_retrieveAll [simp]: "Buffer_content (Buffer_retrieveAll b) = []"
  by (simp add: Buffer_content_segment Buffer_retrieveAll_def)

lemma Buffer_retrieve_spec:
  assumes inv: "Buffer_inv b" and n: "n \<le> length (Buffer_content b)"
  shows "\<exists>b'. Buffer_retrieve n b = Some b' \<and> Buffer_inv b'
           \<and> Buffer_content b' = drop n (Buffer_content b)"
proof -
  have le: "n \<le> Buffer_readableBytes b" using n length_Buffer_content[OF inv] by simp
  show ?thesis
  proof (cases "n < Buffer_readableBytes b")
    case True
    then have "Buffer_inv (b\<lparr>m_readerIndex := m_readerIndex b + n\<rparr>)"
      using inv by (simp add: Buffer_inv_def buffer_defs)
    moreover have "Buffer_content (b\<lparr>m_readerIndex := m_readerIndex b + n\<rparr>)
        = drop n (Buffer_content b)"
      by (simp add: Buffer_content_segment drop_segment)
    ultimately show ?thesis using True by (simp add: Buffer_retrieve_def)
  next
    case False
    then have "n = length (Buffer_content b)" using le length_Buffer_content[OF inv] by simp
    then show ?thesis using False le Buffer_inv_retrieveAll[OF inv]
      by (simp add: Buffer_retrieve_def)
  qed
qed

lemma Buffer_retrieve_over:
  "Buffer_inv b \<Longrightarrow> length (Buffer_content b) < n \<Longrightarrow> Buffer_retrieve n b = None"
  by (simp add: Buffer_retrieve_def length_Buffer_content)

lemma Buffer_makeSpace_spec:
  assumes inv: "Buffer_inv b" and need: "Buffer_writableBytes b < len"
  shows "\<exists>b'. Buffer_makeSpace len b = Some b' \<and> Buffer_inv b'
           \<and> Buffer_content b' = Buffer_content b \<and> len \<le> Buffer_writableBytes b'"
proof (cases "Buffer_writableBytes b + Buffer_prependableBytes b < len + kCheapPrepend")
  case True
  then show ?thesis using inv need
    by (auto simp: Buffer_makeSpace_def Buffer_inv_def buffer_defs Buffer_content_segment
        intro!: segment_resize)
next
  case False
  let ?r = "m_readerIndex b" and ?n = "Buffer_readableBytes b" and ?xs = "m_buffers b"
  have r: "kCheapPrepend < ?r" using False need by (simp add: buffer_defs)
  have bounds: "?r + ?n \<le> length ?xs" using inv by (simp add: Buffer_inv_def buffer_defs)
  have len_copy: "length (segment ?r ?n ?xs) = ?n" using bounds by simp
  have fits: "kCheapPrepend + ?n \<le> length ?xs" using r bounds by simp
  let ?b3 = "b\<lparr>m_buffers := write_at kCheapPrepend (segment ?r ?n ?xs) ?xs,
       m_readerIndex := kCheapPrepend, m_writerIndex := kCheapPrepend + ?n\<rparr>"
  have "Buffer_makeSpace len b = Some ?b3"
    using False r by (simp add: Buffer_makeSpace_def Let_def Buffer_readableBytes_def)
  moreover have "Buffer_inv ?b3"
    using fits len_copy by (simp add: Buffer_inv_def)
  moreover have "Buffer_content ?b3 = Buffer_content b"
  proof -
    have "Buffer_content ?b3 = segment kCheapPrepend (length (segment ?r ?n ?xs))
            (write_at kCheapPrepend (segment ?r ?n ?xs) ?xs)"
      by (simp only: len_copy) (simp add: Buffer_content_segment)
    also have "\<dots> = segment ?r ?n ?xs"
      by (rule segment_write_at_same) (use fits len_copy in simp)
    finally show ?thesis by (simp add: Buffer_content_segment Buffer_readableBytes_def)
  qed
  moreover have "len \<le> Buffer_writableBytes ?b3"
    using False fits len_copy inv by (simp add: buffer_defs Buffer_inv_def)
  ultimately show ?thesis by blast
qed

lemma Buffer_ensureWritableBytes_spec:
  assumes inv: "Buffer_inv b"
  shows "\<exists>b'. Buffer_ensureWritableBytes len b = Some b' \<and> Buffer_inv b'
           \<and> Buffer_content b' = Buffer_content b \<and> len \<le> Buffer_writableBytes b'"
proof (cases "Buffer_writableBytes b < len")
  case True
  from Buffer_makeSpace_spec[OF inv True] True show ?thesis
    by (auto simp: Buffer_ensureWritableBytes_def)
next
  case False
  with inv show ?thesis by (simp add: Buffer_ensureWritableBytes_def)
qed

text \<open>
  On 64-bit words the two functions do the same, as long as the vector and the request together
  stay below the \<open>2 ^ 63\<close> bytes a vector can hold.
\<close>

lemma unat64_small: "n < 2 ^ 64 \<Longrightarrow> unat (word_of_nat n :: size_t) = n"
  by (simp add: unat_of_nat take_bit_nat_eq_self)

lemma Buffer_writableBytes_sz_small:
  assumes "Buffer_inv b" and "length (m_buffers b) < 2 ^ 63"
  shows "unat (Buffer_writableBytes_sz b) = Buffer_writableBytes b"
proof -
  have "Buffer_writableBytes_sz b = word_of_nat (Buffer_writableBytes b)"
    using assms by (simp add: Buffer_writableBytes_sz_def buffer_defs Buffer_inv_def of_nat_diff)
  then show ?thesis using assms by (simp add: unat64_small buffer_defs)
qed

lemma unat64_add:
  fixes x y :: size_t
  assumes "unat x + unat y < 2 ^ 64"
  shows "unat (x + y) = unat x + unat y"
  using assms by (simp add: unat_plus_if_size word_size)

lemma Buffer_makeSpace_sz_same:
  assumes inv: "Buffer_inv b" and fits: "length (m_buffers b) + unat len < 2 ^ 63"
  shows "Buffer_makeSpace_sz len b = Buffer_makeSpace (unat len) b"
proof -
  note w = Buffer_writableBytes_sz_small[OF inv]
  have le: "m_readerIndex b \<le> m_writerIndex b" "m_writerIndex b \<le> length (m_buffers b)"
    using inv by (auto simp: Buffer_inv_def)
  have lhs: "unat (Buffer_writableBytes_sz b + word_of_nat (Buffer_prependableBytes b))
      = Buffer_writableBytes b + Buffer_prependableBytes b"
    using fits le w by (subst unat64_add) (simp_all add: unat64_small buffer_defs)
  have rhs: "unat (len + word_of_nat kCheapPrepend) = unat len + kCheapPrepend"
    using fits by (subst unat64_add) (simp_all add: unat64_small kCheapPrepend_def)
  have sum: "unat (word_of_nat (m_writerIndex b) + len) = m_writerIndex b + unat len"
    using fits le by (subst unat64_add) (simp_all add: unat64_small)
  show ?thesis
    using fits le
    by (simp add: Buffer_makeSpace_sz_def Buffer_makeSpace_def word_less_nat_alt lhs rhs sum
        vector_max_size_def Buffer_readableBytes_def)
qed

lemma Buffer_makeSpace_grows:
  assumes "Buffer_inv b" and "Buffer_makeSpace len b = Some b'"
  shows "length (m_buffers b') \<le> length (m_buffers b) + len"
  using assms
  by (auto simp: Buffer_makeSpace_def Buffer_inv_def buffer_defs Let_def split: if_splits)

lemma Buffer_ensureWritableBytes_grows:
  assumes "Buffer_inv b" and "Buffer_ensureWritableBytes len b = Some b'"
  shows "length (m_buffers b') \<le> length (m_buffers b) + len"
  using assms
  by (auto simp: Buffer_ensureWritableBytes_def Option.bind_eq_Some_conv
      dest: Buffer_makeSpace_grows split: if_splits)

lemma Buffer_ensureWritableBytes_sz_same:
  assumes inv: "Buffer_inv b" and fits: "length (m_buffers b) + unat len < 2 ^ 63"
  shows "Buffer_ensureWritableBytes_sz len b = Buffer_ensureWritableBytes (unat len) b"
proof (cases "Buffer_writableBytes b < unat len")
  case True
  from Buffer_makeSpace_spec[OF inv True] obtain b'
    where b': "Buffer_makeSpace (unat len) b = Some b'" "Buffer_inv b'"
      "unat len \<le> Buffer_writableBytes b'" by blast
  have "length (m_buffers b') < 2 ^ 63" using Buffer_makeSpace_grows[OF inv b'(1)] fits by simp
  from Buffer_writableBytes_sz_small[OF b'(2) this] b' True fits show ?thesis
    by (simp add: Buffer_ensureWritableBytes_sz_def Buffer_ensureWritableBytes_def
        Buffer_makeSpace_sz_same[OF inv fits] Buffer_writableBytes_sz_small[OF inv]
        word_less_nat_alt word_le_nat_alt)
next
  case False
  with fits show ?thesis
    by (simp add: Buffer_ensureWritableBytes_sz_def Buffer_ensureWritableBytes_def
        Buffer_writableBytes_sz_small[OF inv] word_less_nat_alt word_le_nat_alt)
qed

lemma Buffer_ensureWritableBytes_sz_spec:
  assumes inv: "Buffer_inv b" and fits: "length (m_buffers b) + unat len < 2 ^ 63"
  shows "\<exists>b'. Buffer_ensureWritableBytes_sz len b = Some b' \<and> Buffer_inv b'
           \<and> Buffer_content b' = Buffer_content b \<and> unat len \<le> Buffer_writableBytes b'"
  unfolding Buffer_ensureWritableBytes_sz_same[OF inv fits]
  by (rule Buffer_ensureWritableBytes_spec[OF inv])

text \<open>
  Beyond that bound the sum \<open>m_writerIndex + len\<close> wraps and the vector is made smaller. The
  assertion, which subtracts on words too, does not notice: the writer index ends outside the
  vector.
\<close>

lemma Buffer_ensureWritableBytes_wraps:
  "let b = \<lparr>m_buffers = replicate 1032 (CHR 0x41), m_readerIndex = 8, m_writerIndex = 108\<rparr>
   in Buffer_inv b \<and>
      (case Buffer_ensureWritableBytes_sz (- 50) b of
         None \<Rightarrow> False
       | Some b' \<Rightarrow> length (m_buffers b') = 58 \<and> m_writerIndex b' = 108 \<and> \<not> Buffer_inv b')"
  by (simp add: Buffer_ensureWritableBytes_sz_def Buffer_makeSpace_sz_def Buffer_writableBytes_sz_def
      Buffer_inv_def buffer_defs kCheapPrepend_def vector_max_size_def)

lemma Buffer_content_write:
  assumes "Buffer_inv b" and "length xs \<le> Buffer_writableBytes b"
  defines "b' \<equiv> b\<lparr>m_buffers := write_at (m_writerIndex b) xs (m_buffers b),
             m_writerIndex := m_writerIndex b + length xs\<rparr>"
  shows "Buffer_inv b'" and "Buffer_content b' = Buffer_content b @ xs"
proof -
  have fits: "m_writerIndex b + length xs \<le> length (m_buffers b)"
    and le: "m_readerIndex b \<le> m_writerIndex b" "m_writerIndex b \<le> length (m_buffers b)"
    using assms(1,2) by (auto simp: Buffer_inv_def buffer_defs)
  show "Buffer_inv b'" using fits le assms(1) by (simp add: b'_def Buffer_inv_def)
  let ?xs = "write_at (m_writerIndex b) xs (m_buffers b)"
    and ?n = "m_writerIndex b - m_readerIndex b"
  have "Buffer_content b' = segment (m_readerIndex b) (?n + length xs) ?xs"
    using le by (simp add: b'_def Buffer_content_segment)
  also have "\<dots> = segment (m_readerIndex b) ?n ?xs @ segment (m_writerIndex b) (length xs) ?xs"
    using le segment_split[of "m_readerIndex b" ?n "length xs" ?xs] by simp
  also have "\<dots> = Buffer_content b @ xs"
    using le fits by (simp add: segment_write_at_before segment_write_at_same Buffer_content_segment)
  finally show "Buffer_content b' = Buffer_content b @ xs" .
qed

lemma Buffer_append_spec:
  assumes inv: "Buffer_inv b"
  shows "\<exists>b'. Buffer_append xs b = Some b' \<and> Buffer_inv b'
           \<and> Buffer_content b' = Buffer_content b @ xs"
proof -
  from Buffer_ensureWritableBytes_spec[OF inv, of "length xs"] obtain b1
    where b1: "Buffer_ensureWritableBytes (length xs) b = Some b1" "Buffer_inv b1"
      "Buffer_content b1 = Buffer_content b" "length xs \<le> Buffer_writableBytes b1" by blast
  have w: "m_writerIndex b1 + length xs \<le> length (m_buffers b1)"
    using b1(2,4) by (auto simp: Buffer_inv_def buffer_defs)
  from Buffer_content_write[OF b1(2,4)] b1 w show ?thesis
    by (simp add: Buffer_append_def Buffer_hasWritten_def Let_def buffer_defs)
qed

interpretation buffer_queue: byte_queue Buffer_inv Buffer_content Buffer_append Buffer_retrieve
  by unfold_locales (auto intro: Buffer_append_spec Buffer_retrieve_spec Buffer_retrieve_over)

subsection \<open>Integers in the buffer\<close>

lemma Buffer_memcpy_content:
  assumes "Buffer_inv b" and "n \<le> Buffer_readableBytes b"
  shows "Buffer_memcpy b n = Some (take n (Buffer_content b))"
proof -
  have "m_readerIndex b + n \<le> length (m_buffers b)"
    using assms by (auto simp: Buffer_inv_def buffer_defs)
  then show ?thesis
    using assms(2) by (simp add: Buffer_memcpy_def Buffer_content_segment take_segment buffer_defs)
qed

lemma swap_unat64: "unat (hostToNetwork64 x) = byte_swap 8 (unat x)"
  and swap_unat32: "unat (hostToNetwork32 y) = byte_swap 4 (unat y)"
  and swap_unat16: "unat (hostToNetwork16 z) = byte_swap 2 (unat z)"
  using byte_swap_bound[of 8 "unat x"] byte_swap_bound[of 4 "unat y"] byte_swap_bound[of 2 "unat z"]
  by (simp_all add: hostToNetwork64_def hostToNetwork32_def hostToNetwork16_def unat_of_nat
      take_bit_eq_mod)

lemma unswap64: "networkToHost64 (word_of_nat (byte_swap 8 (unat x))) = x"
  and unswap32: "networkToHost32 (word_of_nat (byte_swap 4 (unat y))) = y"
  and unswap16: "networkToHost16 (word_of_nat (byte_swap 2 (unat z))) = z"
  using byte_swap_bound[of 8 "unat x"] byte_swap_bound[of 4 "unat y"] byte_swap_bound[of 2 "unat z"]
    unsigned_less[of x, where 'a = nat] unsigned_less[of y, where 'a = nat]
    unsigned_less[of z, where 'a = nat]
  by (simp_all add: networkToHost64_def networkToHost32_def networkToHost16_def unat_of_nat
      take_bit_eq_mod byte_swap_twice)

lemmas wire_bytes = swap_unat64 swap_unat32 swap_unat16 byte_swap_bytes

lemma Buffer_starts_with_readable:
  assumes "Buffer_inv b" and "Buffer_content b = xs @ rest" and "length xs = n"
  shows "n \<le> Buffer_readableBytes b" and "take n (Buffer_content b) = xs"
  using assms length_Buffer_content[OF assms(1)] by auto

lemma Buffer_retrieve_prefix:
  assumes "Buffer_inv b" and "Buffer_content b = xs @ rest" and "length xs = n"
  shows "\<exists>b'. Buffer_retrieve n b = Some b' \<and> Buffer_inv b' \<and> Buffer_content b' = rest"
  using buffer_queue.ret_spec[OF assms(1), of n] assms by auto

lemma Buffer_readInt64_front:
  assumes "Buffer_inv b" and "Buffer_content b = rev (le_bytes 8 (unat x)) @ rest"
  shows "\<exists>b'. Buffer_readInt64 b = Some (x, b') \<and> Buffer_inv b' \<and> Buffer_content b' = rest"
proof -
  note front = Buffer_starts_with_readable[OF assms, of 8]
  have "Buffer_peekInt64 b = Some x"
    using front Buffer_memcpy_content[OF assms(1), of 8]
    by (simp add: Buffer_peekInt64_def byte_swap_def[symmetric] unswap64)
  with Buffer_retrieve_prefix[OF assms, of 8] show ?thesis
    by (auto simp: Buffer_readInt64_def Buffer_retrieveInt64_def)
qed

lemma Buffer_readInt32_front:
  assumes "Buffer_inv b" and "Buffer_content b = rev (le_bytes 4 (unat x)) @ rest"
  shows "\<exists>b'. Buffer_readInt32 b = Some (x, b') \<and> Buffer_inv b' \<and> Buffer_content b' = rest"
proof -
  note front = Buffer_starts_with_readable[OF assms, of 4]
  have "Buffer_peekInt32 b = Some x"
    using front Buffer_memcpy_content[OF assms(1), of 4]
    by (simp add: Buffer_peekInt32_def byte_swap_def[symmetric] unswap32)
  with Buffer_retrieve_prefix[OF assms, of 4] show ?thesis
    by (auto simp: Buffer_readInt32_def Buffer_retrieveInt32_def)
qed

lemma Buffer_prepend_spec:
  assumes inv: "Buffer_inv b" and room: "length xs \<le> Buffer_prependableBytes b"
  shows "\<exists>b'. Buffer_prepend xs b = Some b' \<and> Buffer_inv b'
           \<and> Buffer_content b' = xs @ Buffer_content b"
proof -
  let ?i = "m_readerIndex b - length xs" and ?n = "m_writerIndex b - m_readerIndex b"
  let ?ys = "write_at ?i xs (m_buffers b)"
  have le: "length xs \<le> m_readerIndex b" "m_readerIndex b \<le> m_writerIndex b"
    "m_writerIndex b \<le> length (m_buffers b)" "kCheapPrepend \<le> length (m_buffers b)"
    using inv room by (auto simp: Buffer_inv_def buffer_defs)
  have "segment ?i (length xs + ?n) ?ys = segment ?i (length xs) ?ys
      @ segment (m_readerIndex b) ?n ?ys"
    using le segment_split[of ?i "length xs" ?n ?ys] by simp
  also have "segment ?i (length xs) ?ys = xs"
    by (rule segment_write_at_same) (use le in simp)
  also have "segment (m_readerIndex b) ?n ?ys = segment (m_readerIndex b) ?n (m_buffers b)"
    using le by (simp add: segment_def write_at_def)
  finally have "segment ?i (m_writerIndex b - ?i) ?ys = xs @ Buffer_content b"
    using le by (simp add: Buffer_content_segment add.commute)
  then show ?thesis
    using le by (simp add: Buffer_prepend_def buffer_defs Buffer_inv_def Buffer_content_segment Let_def)
qed

subsection \<open>Sequences of operations, reshaping, searching\<close>

lemma Buffer_unwrite_content:
  assumes "Buffer_inv b" and "Buffer_unwrite n b = Some b'"
  shows "Buffer_inv b'" and "Buffer_content b' = take (length (Buffer_content b) - n) (Buffer_content b)"
  using assms
  by (auto simp: Buffer_unwrite_def Buffer_inv_def buffer_defs Buffer_content_segment take_segment
      add.commute)

lemma Buffer_append_grows:
  assumes inv: "Buffer_inv b" and app: "Buffer_append xs b = Some b'"
  shows "length (m_buffers b') \<le> length (m_buffers b) + length xs"
proof -
  from Buffer_ensureWritableBytes_spec[OF inv, of "length xs"] obtain b1
    where b1: "Buffer_ensureWritableBytes (length xs) b = Some b1" "Buffer_inv b1"
      "length xs \<le> Buffer_writableBytes b1" by blast
  have "m_writerIndex b1 + length xs \<le> length (m_buffers b1)"
    using b1(2,3) by (auto simp: Buffer_inv_def buffer_defs)
  with app b1 have "length (m_buffers b') = length (m_buffers b1)"
    by (auto simp: Buffer_append_def Buffer_hasWritten_def Let_def buffer_defs)
  with Buffer_ensureWritableBytes_grows[OF inv b1(1)] show ?thesis by simp
qed

lemma Buffer_step_grows:
  assumes inv: "Buffer_inv b" and fits: "length (m_buffers b) + op_size x < 2 ^ 63"
    and step: "Buffer_step x b = Some b'"
  shows "length (m_buffers b') \<le> length (m_buffers b) + op_size x"
proof (cases x)
  case (OpAppend xs)
  with Buffer_append_grows[OF inv] step show ?thesis by simp
next
  case (OpPrepend xs)
  with step inv show ?thesis
    by (auto simp: Buffer_prepend_def Let_def Buffer_prependableBytes_def Buffer_inv_def)
next
  case (OpEnsureWritable n)
  with step fits Buffer_ensureWritableBytes_sz_same[OF inv] Buffer_ensureWritableBytes_grows[OF inv]
  show ?thesis by simp
qed (use step in \<open>auto simp: Buffer_retrieve_def Buffer_retrieveAll_def Buffer_unwrite_def\<close>)

lemma Buffer_step_refines:
  assumes inv: "Buffer_inv b" and fits: "length (m_buffers b) + op_size x < 2 ^ 63"
    and step: "Buffer_step x b = Some b'"
  shows "Buffer_inv b' \<and> Buffer_content b' = Bytes_step x (Buffer_content b)"
proof (cases x)
  case (OpAppend xs)
  with buffer_queue.app_spec[OF inv, of xs] step show ?thesis by auto
next
  case (OpPrepend xs)
  with step have "length xs \<le> Buffer_prependableBytes b" by (simp add: Buffer_prepend_def)
  from Buffer_prepend_spec[OF inv this] OpPrepend step show ?thesis by auto
next
  case (OpEnsureWritable n)
  with fits have "length (m_buffers b) + unat n < 2 ^ 63" by simp
  from Buffer_ensureWritableBytes_sz_spec[OF inv this] OpEnsureWritable step show ?thesis by auto
next
  case (OpRetrieve n)
  with step have "n \<le> length (Buffer_content b)"
    by (simp add: Buffer_retrieve_def length_Buffer_content[OF inv])
  from buffer_queue.ret_spec[OF inv this] OpRetrieve step show ?thesis by auto
next
  case OpRetrieveAll
  with step show ?thesis by (auto simp: Buffer_inv_retrieveAll[OF inv])
next
  case (OpUnwrite n)
  with Buffer_unwrite_content[OF inv, of n b'] step show ?thesis by simp
qed

lemma Buffer_append_piece_small:
  "length str < 2 ^ 31 \<Longrightarrow> Buffer_append_piece str b = Buffer_append str b"
  by (simp add: Buffer_append_piece_def )

text \<open>A text of between \<open>2 ^ 31\<close> and \<open>2 ^ 32 - 1\<close> bytes, a body of 3 GiB for example, stops the process.\<close>

lemma Buffer_append_piece_long:
  assumes "2 ^ 31 \<le> length str" and "length str < 2 ^ 32"
  shows "Buffer_append_piece str b = None"
  using static_cast_int_negative[OF assms] assms
  by (simp add: Buffer_append_piece_def assert_that_def)

lemma Buffer_toStringPiece_small:
  assumes "Buffer_readableBytes b < 2 ^ 31"
  shows "Buffer_toStringPiece b = (m_readerIndex b, int (Buffer_readableBytes b))"
  using assms
  by (simp add: Buffer_toStringPiece_def Buffer_peek_def )

lemma Buffer_swap_exchanges [simp]: "Buffer_swap b rhs = (rhs, b)"
  by (simp add: Buffer_swap_def)

lemma Buffer_append_in_place:
  assumes inv: "Buffer_inv b" and room: "length xs \<le> Buffer_writableBytes b"
    and app: "Buffer_append xs b = Some b'"
  shows "Buffer_writableBytes b' = Buffer_writableBytes b - length xs"
proof -
  have "m_writerIndex b + length xs \<le> length (m_buffers b)"
    using inv room by (auto simp: Buffer_inv_def buffer_defs)
  with room app show ?thesis
    by (auto simp: Buffer_append_def Buffer_ensureWritableBytes_def Buffer_hasWritten_def Let_def
        buffer_defs)
qed

text \<open>
  With a vector of fewer than \<open>2 ^ 63\<close> bytes and a request below \<open>2 ^ 63\<close>, the sums
  \<open>makeSpace\<close> and \<open>readFd\<close> form in \<open>size_t\<close> do not wrap.
\<close>

lemma makeSpace_sums_fit:
  assumes "Buffer_inv b" and "length (m_buffers b) < 2 ^ 63" and "len < 2 ^ 63"
  shows "Buffer_writableBytes b + Buffer_prependableBytes b < 2 ^ 64"
    and "len + kCheapPrepend < 2 ^ 64" and "m_writerIndex b + len < 2 ^ 64"
  using assms by (auto simp: Buffer_inv_def buffer_defs kCheapPrepend_def)

subsection \<open>Properties\<close>

text \<open>C1: \<open>append\<close> never aborts on a well-formed buffer: whichever way \<open>makeSpace\<close> finds room
  (growing the vector or moving the readable bytes to the front), no assertion fails, the class
  invariant is kept and the readable bytes are the old ones followed by the appended data.\<close>

theorem Buffer_append_correct:
  assumes "Buffer_inv b"
  shows "\<exists>b'. Buffer_append data b = Some b' \<and> Buffer_inv b'
           \<and> Buffer_content b' = Buffer_content b @ data"
  by (rule buffer_queue.app_spec[OF assms])

theorem Buffer_append_correct_witness:
  "\<exists>b'. Buffer_append ''hello'' (Buffer_new 4) = Some b' \<and> Buffer_inv b'
      \<and> Buffer_content b' = Buffer_content (Buffer_new 4) @ ''hello''"
  by (rule Buffer_append_correct) simp

text \<open>\<open>retrieve\<close> takes bytes from the front: for \<open>len <= readableBytes()\<close> it succeeds and
  leaves the rest, and for a larger \<open>len\<close> its assertion stops the process.\<close>

theorem Buffer_retrieve_correct:
  assumes "Buffer_inv b"
  shows "if len \<le> Buffer_readableBytes b
         then (\<exists>b'. Buffer_retrieve len b = Some b' \<and> Buffer_inv b'
                  \<and> Buffer_content b' = drop len (Buffer_content b))
         else Buffer_retrieve len b = None"
  using buffer_queue.ret_spec[OF assms, of len] buffer_queue.ret_over[OF assms, of len]
  by (simp add: length_Buffer_content[OF assms])

theorem Buffer_retrieve_correct_witness:
  "if (5::nat) \<le> Buffer_readableBytes (Buffer_new 4)
   then (\<exists>b'. Buffer_retrieve 5 (Buffer_new 4) = Some b' \<and> Buffer_inv b'
            \<and> Buffer_content b' = drop 5 (Buffer_content (Buffer_new 4)))
   else Buffer_retrieve 5 (Buffer_new 4) = None"
  by (rule Buffer_retrieve_correct) simp

lemma le_value_take: "le_value cs mod 256 ^ n = le_value (take n cs)"
proof (induction cs arbitrary: n)
  case (Cons c cs)
  show ?case
  proof (cases n)
    case (Suc m)
    have "(of_char c :: nat) < 256" by (rule of_char_less_256)
    then have "(of_char c + 256 * le_value cs) mod (256 * 256 ^ m)
        = of_char c + 256 * (le_value cs mod 256 ^ m)"
      by (simp add: mod_mult2_eq)
    with Suc Cons.IH show ?thesis by simp
  qed simp
qed simp

lemma ucast_le_value:
  "ucast (word_of_nat (le_value cs) :: 32 word) = (word_of_nat (le_value (take 2 cs)) :: 16 word)"
proof -
  have "ucast (word_of_nat (le_value cs) :: 32 word) = (word_of_nat (le_value cs mod 256 ^ 2) :: 16 word)"
    by (simp add: word_unat_eq_iff unat_of_nat take_bit_eq_mod unsigned_ucast_eq mod_mod_cancel)
  then show ?thesis by (simp only: le_value_take)
qed

lemma Buffer_int64_roundtrip:
  assumes "Buffer_inv b"
  shows "\<exists>b1 b2 b3. Buffer_appendInt64 x b = Some b1
           \<and> Buffer_content b1 = Buffer_content b @ rev (le_bytes 8 (unat x))
           \<and> Buffer_retrieve (Buffer_readableBytes b) b1 = Some b2
           \<and> Buffer_readInt64 b2 = Some (x, b3) \<and> Buffer_inv b3 \<and> Buffer_content b3 = []"
proof -
  let ?w = "rev (le_bytes 8 (unat x))"
  from buffer_queue.fifo[OF assms, of ?w] obtain b1 b2
    where b: "Buffer_append ?w b = Some b1" "Buffer_retrieve (length (Buffer_content b)) b1 = Some b2"
      "Buffer_inv b2" "Buffer_content b2 = ?w" by blast
  with Buffer_readInt64_front[of b2 x "[]"] buffer_queue.app_spec[OF assms, of ?w]
  show ?thesis
    by (auto simp: Buffer_appendInt64_def wire_bytes length_Buffer_content[OF assms])
qed

lemma Buffer_int32_roundtrip:
  assumes "Buffer_inv b"
  shows "\<exists>b1 b2 b3. Buffer_appendInt32 y b = Some b1
           \<and> Buffer_content b1 = Buffer_content b @ rev (le_bytes 4 (unat y))
           \<and> Buffer_retrieve (Buffer_readableBytes b) b1 = Some b2
           \<and> Buffer_readInt32 b2 = Some (y, b3) \<and> Buffer_inv b3 \<and> Buffer_content b3 = []"
proof -
  let ?w = "rev (le_bytes 4 (unat y))"
  from buffer_queue.fifo[OF assms, of ?w] obtain b1 b2
    where b: "Buffer_append ?w b = Some b1" "Buffer_retrieve (length (Buffer_content b)) b1 = Some b2"
      "Buffer_inv b2" "Buffer_content b2 = ?w" by blast
  with Buffer_readInt32_front[of b2 y "[]"] buffer_queue.app_spec[OF assms, of ?w]
  show ?thesis
    by (auto simp: Buffer_appendInt32_def wire_bytes length_Buffer_content[OF assms])
qed

text \<open>C35: integers travel in network byte order and come back unchanged: \<open>appendInt64\<close> /
  \<open>appendInt32\<close> append the value's bytes with the most significant first, and \<open>readInt64\<close> /
  \<open>readInt32\<close> on a buffer that starts with such bytes return the value and consume exactly
  them, so a value written after some bytes is read back once those bytes are consumed.\<close>

theorem Buffer_int_roundtrip:
  assumes "Buffer_inv b"
  shows "(\<exists>b1 b2 b3. Buffer_appendInt64 x b = Some b1
           \<and> Buffer_content b1 = Buffer_content b @ rev (le_bytes 8 (unat x))
           \<and> Buffer_retrieve (Buffer_readableBytes b) b1 = Some b2
           \<and> Buffer_readInt64 b2 = Some (x, b3) \<and> Buffer_inv b3 \<and> Buffer_content b3 = [])
       \<and> (\<exists>b1 b2 b3. Buffer_appendInt32 y b = Some b1
           \<and> Buffer_content b1 = Buffer_content b @ rev (le_bytes 4 (unat y))
           \<and> Buffer_retrieve (Buffer_readableBytes b) b1 = Some b2
           \<and> Buffer_readInt32 b2 = Some (y, b3) \<and> Buffer_inv b3 \<and> Buffer_content b3 = [])"
  using Buffer_int64_roundtrip[OF assms] Buffer_int32_roundtrip[OF assms] by blast

theorem Buffer_int_roundtrip_witness:
  "\<exists>b1 b2 b3. Buffer_appendInt64 258 (Buffer_new 4) = Some b1
      \<and> Buffer_content b1 = Buffer_content (Buffer_new 4) @ rev (le_bytes 8 (unat (258::64 word)))
      \<and> Buffer_retrieve (Buffer_readableBytes (Buffer_new 4)) b1 = Some b2
      \<and> Buffer_readInt64 b2 = Some (258, b3) \<and> Buffer_inv b3 \<and> Buffer_content b3 = []"
  using Buffer_int_roundtrip[OF Buffer_inv_new, of 258 4 0] by (rule conjunct1)

text \<open>\<open>peekInt16\<close> checks for two readable bytes but copies four, because its local variable
  is an \<open>int32_t\<close>. On a buffer whose two readable bytes are the last two of the vector the read
  runs past the end (undefined behaviour) although its assertion holds; where two more bytes of
  the vector follow, the value read is the one \<open>appendInt16\<close> wrote.\<close>

theorem Buffer_peekInt16_overread:
  assumes "Buffer_inv b" and "Buffer_content b = rev (le_bytes 2 (unat z)) @ rest"
  shows "Buffer_peekInt16 b = (if m_readerIndex b + 4 \<le> length (m_buffers b) then Some z else None)"
proof (cases "m_readerIndex b + 4 \<le> length (m_buffers b)")
  case False
  then show ?thesis by (simp add: Buffer_peekInt16_def Buffer_memcpy_def buffer_defs)
next
  case True
  let ?bs = "segment (m_readerIndex b) 4 (m_buffers b)"
  note front = Buffer_starts_with_readable[OF assms, of 2]
  have "take 2 ?bs = take 2 (Buffer_content b)"
    using front(1) by (simp add: Buffer_content_segment take_segment buffer_defs)
  with front(2) have two: "take 2 ?bs = rev (le_bytes 2 (unat z))" by simp
  have "ucast (word_of_nat (le_value ?bs) :: 32 word) = (word_of_nat (byte_swap 2 (unat z)) :: 16 word)"
    by (simp only: ucast_le_value two byte_swap_def)
  with True front(1) show ?thesis
    by (simp add: Buffer_peekInt16_def Buffer_memcpy_def buffer_defs unswap16)
qed

theorem Buffer_peekInt16_overread_witness:
  "Buffer_inv (\<lparr>m_buffers = replicate 8 (CHR 0x00) @ rev (le_bytes 2 (unat (258 :: 16 word))),
      m_readerIndex = 8, m_writerIndex = 10\<rparr>)
   \<and> Buffer_peekInt16 (\<lparr>m_buffers = replicate 8 (CHR 0x00) @ rev (le_bytes 2 (unat (258 :: 16 word))),
         m_readerIndex = 8, m_writerIndex = 10\<rparr>) = None"
proof -
  let ?w = "rev (le_bytes 2 (unat (258 :: 16 word)))"
  let ?b = "\<lparr>m_buffers = replicate 8 (CHR 0x00) @ ?w, m_readerIndex = 8, m_writerIndex = 10\<rparr>"
  have inv: "Buffer_inv ?b" by (simp add: Buffer_inv_def kCheapPrepend_def)
  have "Buffer_content ?b = ?w @ []" by (simp add: Buffer_content_segment segment_def)
  from Buffer_peekInt16_overread[OF inv this] inv show ?thesis by simp
qed

text \<open>C3: the buffer implements a list of bytes: along every sequence of appends, prepends,
  space reservations, retrieves and unwrites that does not abort, the invariant
  \<open>readerIndex <= writerIndex <= size\<close> holds and the readable bytes are those the same
  operations give on a plain list, whatever growing and moving happens inside the vector.
  The vector together with all bytes appended and reserved stays below the \<open>2 ^ 63\<close> bytes a
  vector can hold; a larger reservation wraps around in \<open>size_t\<close> and breaks the invariant
  (\<open>Buffer_ensureWritableBytes_wraps\<close>).\<close>

theorem Buffer_run_refines:
  assumes "Buffer_inv b" and "length (m_buffers b) + sum_list (map op_size ops) < 2 ^ 63"
    and "for_each Buffer_step ops b = Some b'"
  shows "Buffer_inv b' \<and> Buffer_content b' = fold Bytes_step ops (Buffer_content b)"
  using assms
proof (induction ops arbitrary: b)
  case (Cons x ops)
  from Cons.prems(3) obtain b1 where b1: "Buffer_step x b = Some b1"
    and rest: "for_each Buffer_step ops b1 = Some b'"
    by (auto simp: Option.bind_eq_Some_conv)
  have fits: "length (m_buffers b) + op_size x < 2 ^ 63" using Cons.prems(2) by simp
  have "length (m_buffers b1) + sum_list (map op_size ops) < 2 ^ 63"
    using Buffer_step_grows[OF Cons.prems(1) fits b1] Cons.prems(2) by simp
  with Buffer_step_refines[OF Cons.prems(1) fits b1] Cons.IH[OF _ _ rest] show ?case by simp
qed simp

theorem Buffer_run_refines_witness:
  "\<exists>b'. for_each Buffer_step [OpAppend ''abc'', OpEnsureWritable 100, OpRetrieve 1] (Buffer_new 1)
           = Some b' \<and> Buffer_inv b' \<and> Buffer_content b' = ''bc''"
proof -
  let ?b = "Buffer_new 1"
  have small: "length (m_buffers ?b) = 9" by (simp add: Buffer_new_def kCheapPrepend_def)
  from buffer_queue.app_spec[OF Buffer_inv_new, of "''abc''" 1] obtain b1
    where b1: "Buffer_append ''abc'' ?b = Some b1" "Buffer_inv b1" "Buffer_content b1 = ''abc''"
    by auto
  have "length (m_buffers b1) + unat (100 :: size_t) < 2 ^ 63"
    using Buffer_append_grows[OF Buffer_inv_new b1(1)] small by simp
  from Buffer_ensureWritableBytes_sz_spec[OF b1(2) this] b1(3) obtain b2
    where b2: "Buffer_ensureWritableBytes_sz 100 b1 = Some b2" "Buffer_inv b2"
      "Buffer_content b2 = ''abc''" by auto
  from buffer_queue.ret_spec[OF b2(2), of 1] b1 b2 obtain b3 where
    run: "for_each Buffer_step [OpAppend ''abc'', OpEnsureWritable 100, OpRetrieve 1] ?b = Some b3"
    by auto
  from Buffer_run_refines[OF Buffer_inv_new _ this] run small show ?thesis by simp
qed

lemma Buffer_readFd_data:
  assumes inv: "Buffer_inv b" and data: "readv (Buffer_readFd_iov b) = ReadData data"
  shows "\<exists>b'. Buffer_readFd readv b = Some (int (length data), None, b')
    \<and> Buffer_inv b' \<and> Buffer_content b' = Buffer_content b @ data"
proof -
  let ?w = "Buffer_writableBytes b"
  have len: "length (take ?w data) \<le> ?w" by simp
  note wr = Buffer_content_write[OF inv len]
  show ?thesis
  proof (cases "length data \<le> ?w")
    case True
    with wr data show ?thesis by (simp add: Buffer_readFd_def Let_def)
  next
    case False
    let ?b2 = "b\<lparr>m_buffers := write_at (m_writerIndex b) (take ?w data) (m_buffers b),
                 m_writerIndex := m_writerIndex b + length (take ?w data)\<rparr>"
    have "m_writerIndex b + ?w = length (m_buffers b)"
      using inv by (auto simp: Buffer_inv_def buffer_defs)
    with False have b2: "b\<lparr>m_buffers := write_at (m_writerIndex b) (take ?w data) (m_buffers b),
        m_writerIndex := length (write_at (m_writerIndex b) (take ?w data) (m_buffers b))\<rparr> = ?b2"
      by simp
    from buffer_queue.app_spec[OF wr(1), of "drop ?w data"] wr(2) False data b2
    show ?thesis by (auto simp: Buffer_readFd_def Let_def)
  qed
qed

text \<open>C17: \<open>readFd\<close> loses nothing: an error of \<open>readv\<close> leaves the buffer alone and is reported
  with its \<open>errno\<close>; otherwise the readable bytes grow by exactly the bytes received, also when
  they overflow into the stack buffer, and the count is returned. One call asks for at most
  128 KiB - 1 bytes, unless the buffer alone has more writable room.\<close>

theorem Buffer_readFd_correct:
  assumes inv: "Buffer_inv b"
  shows "sum_list (Buffer_readFd_iov b) \<le> max (Buffer_writableBytes b) (128 * 1024 - 1) \<and>
    (case readv (Buffer_readFd_iov b) of
       ReadError err \<Rightarrow> Buffer_readFd readv b = Some (-1, Some err, b)
     | ReadData data \<Rightarrow> (\<exists>b'. Buffer_readFd readv b = Some (int (length data), None, b')
          \<and> Buffer_inv b' \<and> Buffer_content b' = Buffer_content b @ data))"
proof -
  have "sum_list (Buffer_readFd_iov b) \<le> max (Buffer_writableBytes b) (128 * 1024 - 1)"
    by (auto simp: Buffer_readFd_iov_def extrabuf_size_def Let_def)
  with Buffer_readFd_data[OF inv, of readv] show ?thesis
    by (auto simp: Buffer_readFd_def Let_def split: read_result.split)
qed

theorem Buffer_readFd_correct_witness:
  "\<exists>b'. Buffer_readFd (\<lambda>iov. ReadData ''abcdef'') (Buffer_new 4) = Some (6, None, b')
      \<and> Buffer_inv b' \<and> Buffer_content b' = Buffer_content (Buffer_new 4) @ ''abcdef''"
  using Buffer_readFd_correct[OF Buffer_inv_new, of 4 "\<lambda>iov. ReadData ''abcdef''"] by simp

text \<open>\<open>findCRLF\<close> finds the first line end: a result points at a CR LF that lies wholly in the
  readable bytes with none before it, and \<open>nullptr\<close> means that they contain no CR LF.\<close>

theorem Buffer_findCRLF_correct:
  assumes inv: "Buffer_inv b"
  shows "case Buffer_findCRLF b of
      None \<Rightarrow> \<forall>i. i + 2 \<le> Buffer_readableBytes b \<longrightarrow> segment i 2 (Buffer_content b) \<noteq> kCRLF
    | Some p \<Rightarrow> Buffer_peek b \<le> p \<and> p + 2 \<le> Buffer_beginWrite b
        \<and> segment (p - Buffer_peek b) 2 (Buffer_content b) = kCRLF
        \<and> (\<forall>i < p - Buffer_peek b. segment i 2 (Buffer_content b) \<noteq> kCRLF)"
proof -
  let ?c = "Buffer_content b"
  let ?k = "std_search kCRLF ?c"
  have len: "length ?c = Buffer_readableBytes b" by (rule length_Buffer_content[OF inv])
  have two: "length kCRLF = 2" by (simp add: kCRLF_def)
  have ends: "Buffer_peek b + Buffer_readableBytes b = Buffer_beginWrite b"
    using inv by (auto simp: Buffer_inv_def buffer_defs)
  have find: "Buffer_findCRLF b = (if ?k = length ?c then None else Some (Buffer_peek b + ?k))"
    using ends len by (auto simp: Buffer_findCRLF_def Let_def Buffer_content_def)
  have first: "segment i 2 ?c \<noteq> kCRLF" if "i < ?k" for i
    using std_search_first[OF that] two by (simp add: segment_def)
  show ?thesis
  proof (cases "?k = length ?c")
    case True
    have "segment i 2 ?c \<noteq> kCRLF" if "i + 2 \<le> Buffer_readableBytes b" for i
      using first[of i] that True len by simp
    then show ?thesis using True find by simp
  next
    case False
    then have "?k < length ?c" using std_search_le[of kCRLF ?c] by linarith
    with std_search_match[OF this] std_search_match_len[OF this] two False find first len ends
    show ?thesis by (simp add: segment_def)
  qed
qed

theorem Buffer_findCRLF_correct_witness:
  "case Buffer_append ''a'' (Buffer_new 4) \<bind> Buffer_append kCRLF of
     None \<Rightarrow> False
   | Some b \<Rightarrow> Buffer_inv b \<and> Buffer_findCRLF b = Some (Buffer_peek b + 1)
       \<and> segment 1 2 (Buffer_content b) = kCRLF"
proof -
  let ?b = "the (Buffer_append ''a'' (Buffer_new 4) \<bind> Buffer_append kCRLF)"
  have run: "Buffer_append ''a'' (Buffer_new 4) \<bind> Buffer_append kCRLF = Some ?b" by code_simp
  have inv: "Buffer_inv ?b" by code_simp
  have found: "Buffer_findCRLF ?b = Some (Buffer_peek ?b + 1)" by code_simp
  from Buffer_findCRLF_correct[OF inv] found have "segment 1 2 (Buffer_content ?b) = kCRLF" by simp
  with inv found show ?thesis by (subst run) simp
qed

text \<open>\<open>shrink\<close> keeps the data: for fewer than \<open>2 ^ 31\<close> readable bytes (the length passes
  through the \<open>int\<close> of a \<open>StringPiece\<close>) the new vector holds the same readable bytes and at
  least \<open>reserve\<close> writable ones, when \<open>reserve\<close> is below \<open>2 ^ 62\<close>.\<close>

theorem Buffer_shrink_correct:
  assumes inv: "Buffer_inv b" and small: "Buffer_readableBytes b < 2 ^ 31"
    and res: "unat reserve < 2 ^ 62"
  shows "\<exists>b'. Buffer_shrink reserve b = Some b' \<and> Buffer_inv b'
           \<and> Buffer_content b' = Buffer_content b \<and> unat reserve \<le> Buffer_writableBytes b'"
proof -
  let ?n = "Buffer_readableBytes b" and ?r = "unat reserve"
  have sum: "unat (word_of_nat ?n + reserve) = ?n + ?r"
    using small res by (subst unat64_add) (simp_all add: unat64_small)
  have same: "Buffer_ensureWritableBytes_sz (word_of_nat ?n + reserve) (Buffer_new kInitialSize)
      = Buffer_ensureWritableBytes (?n + ?r) (Buffer_new kInitialSize)"
    using small res
    by (subst Buffer_ensureWritableBytes_sz_same[OF Buffer_inv_new])
      (simp_all add: sum Buffer_new_def kCheapPrepend_def kInitialSize_def)
  from Buffer_ensureWritableBytes_spec[OF Buffer_inv_new, of "?n + ?r" kInitialSize]
  obtain o1 where o1: "Buffer_ensureWritableBytes (?n + ?r) (Buffer_new kInitialSize) = Some o1"
    "Buffer_inv o1" "Buffer_content o1 = []" "?n + ?r \<le> Buffer_writableBytes o1" by auto
  have data: "segment (m_readerIndex b) ?n (m_buffers b) = Buffer_content b"
    by (simp add: Buffer_content_segment Buffer_readableBytes_def)
  from buffer_queue.app_spec[OF o1(2), of "Buffer_content b"] o1(3) obtain o2
    where o2: "Buffer_append (Buffer_content b) o1 = Some o2" "Buffer_inv o2"
      "Buffer_content o2 = Buffer_content b" by auto
  have room: "length (Buffer_content b) \<le> Buffer_writableBytes o1"
    using o1(4) length_Buffer_content[OF inv] by simp
  have "?r \<le> Buffer_writableBytes o2"
    using Buffer_append_in_place[OF o1(2) room o2(1)] o1(4) length_Buffer_content[OF inv] by simp
  with o1(1) o2 data Buffer_toStringPiece_small[OF small] same show ?thesis
    by (simp add: Buffer_shrink_def)
qed

theorem Buffer_shrink_correct_witness:
  "\<exists>b'. Buffer_shrink 10 (Buffer_new 4) = Some b' \<and> Buffer_inv b'
      \<and> Buffer_content b' = Buffer_content (Buffer_new 4) \<and> unat (10 :: size_t) \<le> Buffer_writableBytes b'"
  by (rule Buffer_shrink_correct) (simp, simp_all add: Buffer_readableBytes_def Buffer_new_def)

end
