(* ===== verification/Timestamp.thy ===== *)
theory Timestamp
  imports Prelude
begin

text \<open>
  \<open>dc::Timestamp\<close> (\<open>base/timeStamp.h\<close>, \<open>base/timeStamp.cc\<close>): microseconds since the epoch,
  its order, arithmetic and text forms. The 64-bit count is an \<open>int\<close>: overflow of the signed
  type is undefined in C++ and the operations do not guard against it.

  A \<open>double\<close> is modelled by the rational number it denotes; the rounding of the product
  \<open>seconds * 1000000\<close> to a \<open>double\<close> is the argument \<open>rnd\<close> of \<open>addTime\<close>.
\<close>

subsection \<open>The value and its order\<close>

datatype timestamp = Timestamp (microSecondsSinceEpoch: int)

definition kMicroSecondsPerSecond :: int where
  "kMicroSecondsPerSecond = 1000 * 1000"

instantiation timestamp :: linorder
begin
definition less_timestamp :: "timestamp \<Rightarrow> timestamp \<Rightarrow> bool" where
  "less_timestamp lhs rhs = (microSecondsSinceEpoch lhs < microSecondsSinceEpoch rhs)"
definition less_eq_timestamp :: "timestamp \<Rightarrow> timestamp \<Rightarrow> bool" where
  "less_eq_timestamp lhs rhs = (\<not> microSecondsSinceEpoch rhs < microSecondsSinceEpoch lhs)"
instance
  by standard (auto simp: less_timestamp_def less_eq_timestamp_def timestamp.expand)
end

definition Timestamp_less :: "timestamp \<Rightarrow> timestamp \<Rightarrow> bool" where
  "Timestamp_less lhs rhs = (microSecondsSinceEpoch lhs < microSecondsSinceEpoch rhs)"

definition Timestamp_eq :: "timestamp \<Rightarrow> timestamp \<Rightarrow> bool" where
  "Timestamp_eq lhs rhs = (microSecondsSinceEpoch lhs = microSecondsSinceEpoch rhs)"

lemma Timestamp_less_iff [simp]: "Timestamp_less s t \<longleftrightarrow> s < t"
  by (simp add: Timestamp_less_def less_timestamp_def)

lemma Timestamp_eq_iff [simp]: "Timestamp_eq s t \<longleftrightarrow> s = t"
  by (metis Timestamp_eq_def timestamp.expand)

subsection \<open>Construction and conversion\<close>

definition Timestamp_invalid :: timestamp where
  "Timestamp_invalid = Timestamp 0"

definition Timestamp_swap :: "timestamp \<Rightarrow> timestamp \<Rightarrow> timestamp \<times> timestamp" where
  "Timestamp_swap this that = (that, this)"

definition Timestamp_valid :: "timestamp \<Rightarrow> bool" where
  "Timestamp_valid t = (0 < microSecondsSinceEpoch t)"

definition secondsSinceEpoch :: "timestamp \<Rightarrow> int" where
  "secondsSinceEpoch t = microSecondsSinceEpoch t sdiv kMicroSecondsPerSecond"

definition Timestamp_fromUnixTime :: "int \<Rightarrow> timestamp" where
  "Timestamp_fromUnixTime t = Timestamp (t * kMicroSecondsPerSecond + 0)"

definition Timestamp_fromUnixTime2 :: "int \<Rightarrow> int \<Rightarrow> timestamp" where
  "Timestamp_fromUnixTime2 t microseconds = Timestamp (t * kMicroSecondsPerSecond + microseconds)"

text \<open>\<open>now\<close> with the \<open>timeval\<close> that \<open>gettimeofday\<close> stores.\<close>

definition Timestamp_now :: "int \<times> int \<Rightarrow> timestamp" where
  "Timestamp_now tv = (case tv of (tv_sec, tv_usec) \<Rightarrow>
     Timestamp (tv_sec * kMicroSecondsPerSecond + tv_usec))"

definition timeDifference :: "timestamp \<Rightarrow> timestamp \<Rightarrow> rat" where
  "timeDifference high low =
     of_int (microSecondsSinceEpoch high - microSecondsSinceEpoch low) / of_int kMicroSecondsPerSecond"

text \<open>\<open>static_cast<int64_t>\<close> of a \<open>double\<close>: truncation toward zero.\<close>

definition trunc_int64 :: "rat \<Rightarrow> int" where
  "trunc_int64 x = (if x < 0 then \<lceil>x\<rceil> else \<lfloor>x\<rfloor>)"

definition addTime :: "(rat \<Rightarrow> rat) \<Rightarrow> timestamp \<Rightarrow> rat \<Rightarrow> timestamp" where
  "addTime rnd t seconds =
     Timestamp (microSecondsSinceEpoch t + trunc_int64 (rnd (seconds * of_int kMicroSecondsPerSecond)))"

definition Timestamp_toString :: "timestamp \<Rightarrow> string" where
  "Timestamp_toString t =
     (let seconds = microSecondsSinceEpoch t sdiv kMicroSecondsPerSecond;
          microseconds = microSecondsSinceEpoch t smod kMicroSecondsPerSecond
      in snprintf_buf 32 (dec_int seconds @ ''.'' @ fmt_zero 6 microseconds))"

text \<open>The broken-down time \<open>struct tm\<close>; \<open>gmtime_r\<close> is an argument of \<open>toFormattedString\<close>.\<close>

record libc_tm =
  tm_sec :: int
  tm_min :: int
  tm_hour :: int
  tm_mday :: int
  tm_mon :: int
  tm_year :: int

definition Timestamp_toFormattedString :: "(int \<Rightarrow> libc_tm) \<Rightarrow> bool \<Rightarrow> timestamp \<Rightarrow> string" where
  "Timestamp_toFormattedString gmtime_r showMicroseconds t =
     (let seconds = microSecondsSinceEpoch t sdiv kMicroSecondsPerSecond;
          tm_time = gmtime_r seconds;
          date_part = fmt_blank 4 (tm_year tm_time + 1900) @ fmt_zero 2 (tm_mon tm_time + 1)
             @ fmt_zero 2 (tm_mday tm_time);
          time_part = fmt_zero 2 (tm_hour tm_time) @ '':'' @ fmt_zero 2 (tm_min tm_time) @ '':''
             @ fmt_zero 2 (tm_sec tm_time)
      in if showMicroseconds
         then let microseconds = microSecondsSinceEpoch t smod kMicroSecondsPerSecond
              in snprintf_buf 64 (date_part @ '' '' @ time_part @ ''.'' @ fmt_zero 6 microseconds)
         else snprintf_buf 64 (date_part @ '' '' @ time_part))"

subsection \<open>Properties\<close>

lemma trunc_int64_of_int [simp]: "trunc_int64 (of_int k) = k"
  by (simp add: trunc_int64_def)

lemma addTime_exact:
  assumes "rnd (seconds * of_int kMicroSecondsPerSecond) = of_int k"
  shows "addTime rnd t seconds = Timestamp (microSecondsSinceEpoch t + k)"
  using assms by (simp add: addTime_def)

lemma addTime_timeDifference:
  assumes "rnd (timeDifference high low * of_int kMicroSecondsPerSecond)
             = timeDifference high low * of_int kMicroSecondsPerSecond"
  shows "addTime rnd low (timeDifference high low) = high"
proof -
  have "timeDifference high low * of_int kMicroSecondsPerSecond
          = of_int (microSecondsSinceEpoch high - microSecondsSinceEpoch low)"
    by (simp add: timeDifference_def kMicroSecondsPerSecond_def)
  with assms have "addTime rnd low (timeDifference high low)
      = Timestamp (microSecondsSinceEpoch low
          + (microSecondsSinceEpoch high - microSecondsSinceEpoch low))"
    by (intro addTime_exact) simp
  then show ?thesis by simp
qed

lemma addTime_mono:
  assumes "0 \<le> rnd (seconds * of_int kMicroSecondsPerSecond)"
  shows "t \<le> addTime rnd t seconds"
  using assms by (auto simp: addTime_def less_eq_timestamp_def trunc_int64_def)

end
