(* ===== verification/Channel.thy ===== *)
theory Channel
  imports Timestamp
begin

unbundle bit_operations_syntax

text \<open>
  \<open>dc::net::Channel\<close> (\<open>net/channel.h\<close>, \<open>net/channel.cc\<close>): the object that carries one file
  descriptor, the events it asks for, the events the poller reported and its callbacks. This
  theory has the data and the operations that touch nothing but the object; the operations that go
  through the owning loop (\<open>update\<close>, \<open>remove\<close>, \<open>handleEvent\<close>) are in the theory of the loop.

  A \<open>std::function\<close> member is an \<open>option\<close> of a callback value of type \<open>'cb\<close>; what calling one
  does is an argument of the operations that call it. A pointer to a loop is the address of the
  loop with its constant thread id.
\<close>

subsection \<open>Event masks\<close>

definition POLLIN :: "32 word" where "POLLIN = 0x001"
definition POLLPRI :: "32 word" where "POLLPRI = 0x002"
definition POLLOUT :: "32 word" where "POLLOUT = 0x004"
definition POLLERR :: "32 word" where "POLLERR = 0x008"
definition POLLHUP :: "32 word" where "POLLHUP = 0x010"
definition POLLNVAL :: "32 word" where "POLLNVAL = 0x020"
definition POLLRDHUP :: "32 word" where "POLLRDHUP = 0x2000"

definition kNoneEvent :: "32 word" where "kNoneEvent = 0"
definition kReadEvent :: "32 word" where "kReadEvent = POLLIN OR POLLPRI"
definition kWriteEvent :: "32 word" where "kWriteEvent = POLLOUT"

lemmas event_masks = POLLIN_def POLLPRI_def POLLOUT_def POLLERR_def POLLHUP_def POLLNVAL_def
  POLLRDHUP_def kNoneEvent_def kReadEvent_def kWriteEvent_def

text \<open>The test \<open>if (ev & bits)\<close>.\<close>

definition has_event :: "32 word \<Rightarrow> 32 word \<Rightarrow> bool" where
  "has_event ev bits = (ev AND bits \<noteq> 0)"

subsection \<open>The object\<close>

record loop_ref =
  loop_addr :: nat
  loop_threadId :: int

record 'cb channel =
  ch_loop :: loop_ref
  ch_fd :: int
  ch_events :: "32 word"
  ch_revents :: "32 word"
  ch_index :: int
  is_loghup :: bool
  m_tie :: "nat option"
  is_tied :: bool
  ch_eventHandling :: bool
  is_addedToLoop :: bool
  m_readCallback :: "'cb option"
  m_writeCallback :: "'cb option"
  m_closeCallback :: "'cb option"
  m_errorCallback :: "'cb option"

type_synonym 'cb chans = "nat \<Rightarrow> 'cb channel"

definition Channel_new :: "loop_ref \<Rightarrow> int \<Rightarrow> 'cb channel" where
  "Channel_new loop fd = \<lparr>ch_loop = loop, ch_fd = fd, ch_events = 0, ch_revents = 0, ch_index = -1,
     is_loghup = True, m_tie = None, is_tied = False, ch_eventHandling = False, is_addedToLoop = False,
     m_readCallback = None, m_writeCallback = None, m_closeCallback = None, m_errorCallback = None\<rparr>"

definition Channel_setReadCallback :: "'cb \<Rightarrow> 'cb channel \<Rightarrow> 'cb channel" where
  "Channel_setReadCallback cb c = c\<lparr>m_readCallback := Some cb\<rparr>"

definition Channel_setWriteCallback :: "'cb \<Rightarrow> 'cb channel \<Rightarrow> 'cb channel" where
  "Channel_setWriteCallback cb c = c\<lparr>m_writeCallback := Some cb\<rparr>"

definition Channel_setErrorCallback :: "'cb \<Rightarrow> 'cb channel \<Rightarrow> 'cb channel" where
  "Channel_setErrorCallback cb c = c\<lparr>m_errorCallback := Some cb\<rparr>"

definition Channel_setCloseCallback :: "'cb \<Rightarrow> 'cb channel \<Rightarrow> 'cb channel" where
  "Channel_setCloseCallback cb c = c\<lparr>m_closeCallback := Some cb\<rparr>"

definition Channel_tie :: "nat \<Rightarrow> 'cb channel \<Rightarrow> 'cb channel" where
  "Channel_tie obj c = c\<lparr>m_tie := Some obj, is_tied := True\<rparr>"

definition Channel_set_revents :: "32 word \<Rightarrow> 'cb channel \<Rightarrow> 'cb channel" where
  "Channel_set_revents revt c = c\<lparr>ch_revents := revt\<rparr>"

definition Channel_set_index :: "int \<Rightarrow> 'cb channel \<Rightarrow> 'cb channel" where
  "Channel_set_index idx c = c\<lparr>ch_index := idx\<rparr>"

definition Channel_doNotLogHup :: "'cb channel \<Rightarrow> 'cb channel" where
  "Channel_doNotLogHup c = c\<lparr>is_loghup := False\<rparr>"

definition Channel_isNoneEvent :: "'cb channel \<Rightarrow> bool" where
  "Channel_isNoneEvent c = (ch_events c = kNoneEvent)"

definition Channel_isWriting :: "'cb channel \<Rightarrow> bool" where
  "Channel_isWriting c = has_event (ch_events c) kWriteEvent"

definition Channel_isReading :: "'cb channel \<Rightarrow> bool" where
  "Channel_isReading c = has_event (ch_events c) kReadEvent"

text \<open>The changes of \<open>m_events\<close> that \<open>enableReading\<close> and its siblings make before \<open>update()\<close>.\<close>

definition events_enableReading :: "32 word \<Rightarrow> 32 word" where
  "events_enableReading ev = ev OR kReadEvent"

definition events_disableReading :: "32 word \<Rightarrow> 32 word" where
  "events_disableReading ev = ev AND NOT kReadEvent"

definition events_enableWriting :: "32 word \<Rightarrow> 32 word" where
  "events_enableWriting ev = ev OR kWriteEvent"

definition events_disableWriting :: "32 word \<Rightarrow> 32 word" where
  "events_disableWriting ev = ev AND NOT kWriteEvent"

definition eventsToString_of :: "int \<Rightarrow> 32 word \<Rightarrow> string" where
  "eventsToString_of fd ev = dec_int fd @ '': ''
     @ (if has_event ev POLLIN then ''IN '' else [])
     @ (if has_event ev POLLOUT then ''OUT '' else [])
     @ (if has_event ev POLLPRI then ''PRI '' else [])
     @ (if has_event ev POLLHUP then ''HUP '' else [])
     @ (if has_event ev POLLRDHUP then ''RDHUP '' else [])
     @ (if has_event ev POLLERR then ''ERR '' else [])
     @ (if has_event ev POLLNVAL then ''NVAL '' else [])"

definition Channel_reventsToString :: "'cb channel \<Rightarrow> string" where
  "Channel_reventsToString c = eventsToString_of (ch_fd c) (ch_revents c)"

definition Channel_eventsToString :: "'cb channel \<Rightarrow> string" where
  "Channel_eventsToString c = eventsToString_of (ch_fd c) (ch_events c)"

subsection \<open>The masks a channel can reach\<close>

text \<open>A channel asks for a subset of \<open>kReadEvent | kWriteEvent\<close>, reading as a whole or not at all.\<close>

definition interest_mask :: "32 word \<Rightarrow> bool" where
  "interest_mask ev = (ev \<in> {0, kReadEvent, kWriteEvent, kReadEvent OR kWriteEvent})"

lemma interest_mask_closed [simp, intro]:
  "interest_mask ev \<Longrightarrow> interest_mask (events_enableReading ev)"
  "interest_mask ev \<Longrightarrow> interest_mask (events_disableReading ev)"
  "interest_mask ev \<Longrightarrow> interest_mask (events_enableWriting ev)"
  "interest_mask ev \<Longrightarrow> interest_mask (events_disableWriting ev)"
  by (auto simp: interest_mask_def event_masks events_enableReading_def events_disableReading_def
      events_enableWriting_def events_disableWriting_def)

lemma interest_mask_none [simp, intro]: "interest_mask 0" "interest_mask kNoneEvent"
  by (simp_all add: interest_mask_def kNoneEvent_def)

lemma interest_mask_enabled:
  assumes "interest_mask ev"
  shows "has_event (events_enableReading ev) kReadEvent" "has_event (events_enableWriting ev) kWriteEvent"
    "\<not> has_event (events_disableReading ev) kReadEvent" "\<not> has_event (events_disableWriting ev) kWriteEvent"
    "has_event (events_enableReading ev) kWriteEvent = has_event ev kWriteEvent"
    "has_event (events_enableWriting ev) kReadEvent = has_event ev kReadEvent"
    "has_event (events_disableReading ev) kWriteEvent = has_event ev kWriteEvent"
    "has_event (events_disableWriting ev) kReadEvent = has_event ev kReadEvent"
  using assms
  by (auto simp: interest_mask_def event_masks has_event_def events_enableReading_def
      events_disableReading_def events_enableWriting_def events_disableWriting_def)

lemma interest_mask_zero_iff:
  "interest_mask ev \<Longrightarrow> ev = 0 \<longleftrightarrow> \<not> has_event ev kReadEvent \<and> \<not> has_event ev kWriteEvent"
  by (auto simp: interest_mask_def event_masks has_event_def)

text \<open>The mask survives the \<open>short\<close> of a \<open>pollfd\<close>.\<close>

lemma interest_mask_short:
  "interest_mask ev \<Longrightarrow> scast (scast ev :: 16 word) = ev"
  "interest_mask ev \<Longrightarrow> (scast ev :: 16 word) = 0 \<longleftrightarrow> ev = 0"
  by (auto simp: interest_mask_def event_masks)

end
