(* ===== verification/Poller.thy ===== *)
theory Poller
  imports Channel
begin

text \<open>
  The I/O multiplexers: \<open>Poller\<close> (\<open>net/poller.h\<close>, \<open>net/poller.cc\<close>) and its implementations
  \<open>EpollPoller\<close> and \<open>PollPoller\<close> under \<open>net/poller\<close>. Channels are objects of a store, because a
  poller keeps pointers to them and writes their \<open>index\<close> and \<open>revents\<close>.

  The kernel side of \<open>epoll\<close> (the interest list that \<open>epoll_ctl\<close> edits) is part of the state of
  an \<open>EpollPoller\<close>: \<open>ADD\<close> of a present descriptor and \<open>MOD\<close> or \<open>DEL\<close> of an absent one fail as
  documented (\<open>EEXIST\<close>, \<open>ENOENT\<close>); the argument \<open>sysfail\<close> says which calls fail for another
  reason. \<open>poll\<close> and \<open>epoll_wait\<close> are arguments.

  The contract \<open>poller_contract\<close> states what the two have in common, and the lemmas in it hold for
  both: a history of requests leaves each of them watching exactly what the abstract table says.
\<close>

subsection \<open>\<open>Poller\<close>\<close>

definition in_loop_thread :: "int \<Rightarrow> loop_ref \<Rightarrow> bool" where
  "in_loop_thread tid l = (loop_threadId l = tid)"

definition Poller_hasChannel :: "int \<Rightarrow> loop_ref \<Rightarrow> (int \<rightharpoonup> nat) \<Rightarrow> 'cb chans \<Rightarrow> nat \<Rightarrow> bool outcome" where
  "Poller_hasChannel tid owner m_channels chs c = do {
     assert_that (in_loop_thread tid owner);
     Some (m_channels (ch_fd (chs c)) = Some c)
   }"

subsection \<open>\<open>EpollPoller\<close>\<close>

datatype epoll_op = EPOLL_CTL_ADD | EPOLL_CTL_MOD | EPOLL_CTL_DEL

record epoll_poller =
  ep_ownerLoop :: loop_ref
  ep_channels :: "int \<rightharpoonup> nat"
  ep_events_size :: nat
  ep_interest :: "int \<rightharpoonup> 32 word \<times> nat"

definition kNew :: int where "kNew = -1"
definition kAdded :: int where "kAdded = 1"
definition kDeleted :: int where "kDeleted = 2"

definition kInitEventListSize :: nat where "kInitEventListSize = 16"

lemmas epoll_index = kNew_def kAdded_def kDeleted_def

definition EpollPoller_new :: "int \<Rightarrow> loop_ref \<Rightarrow> epoll_poller outcome" where
  "EpollPoller_new epollfd loop = do {
     assert_that (0 \<le> epollfd);
     Some \<lparr>ep_ownerLoop = loop, ep_channels = Map.empty, ep_events_size = kInitEventListSize,
           ep_interest = Map.empty\<rparr>
   }"

text \<open>\<open>epoll_ctl\<close>: whether it succeeds, and the interest list after it.\<close>

definition epoll_ctl :: "(epoll_op \<Rightarrow> int \<Rightarrow> bool) \<Rightarrow> epoll_op \<Rightarrow> int \<Rightarrow> 32 word \<times> nat \<Rightarrow>
    (int \<rightharpoonup> 32 word \<times> nat) \<Rightarrow> bool \<times> (int \<rightharpoonup> 32 word \<times> nat)" where
  "epoll_ctl sysfail operation fd event k =
     (if sysfail operation fd then (False, k)
      else case operation of
        EPOLL_CTL_ADD \<Rightarrow> if k fd = None then (True, k(fd \<mapsto> event)) else (False, k)
      | EPOLL_CTL_MOD \<Rightarrow> if k fd = None then (False, k) else (True, k(fd \<mapsto> event))
      | EPOLL_CTL_DEL \<Rightarrow> if k fd = None then (False, k) else (True, k(fd := None)))"

definition EpollPoller_update ::
  "(epoll_op \<Rightarrow> int \<Rightarrow> bool) \<Rightarrow> epoll_op \<Rightarrow> 'cb channel \<Rightarrow> nat \<Rightarrow> epoll_poller \<Rightarrow> epoll_poller outcome" where
  "EpollPoller_update sysfail operation ch c p =
     (let event = (ch_events ch, c);
          (ok, k) = epoll_ctl sysfail operation (ch_fd ch) event (ep_interest p)
      in if \<not> ok
         then (if operation = EPOLL_CTL_DEL then Some p else None)
         else Some (p\<lparr>ep_interest := k\<rparr>))"

definition EpollPoller_operationToString :: "epoll_op \<Rightarrow> string" where
  "EpollPoller_operationToString op = (case op of
     EPOLL_CTL_ADD \<Rightarrow> ''ADD'' | EPOLL_CTL_MOD \<Rightarrow> ''MOD'' | EPOLL_CTL_DEL \<Rightarrow> ''DEL'')"

definition EpollPoller_updateChannel :: "(epoll_op \<Rightarrow> int \<Rightarrow> bool) \<Rightarrow> int \<Rightarrow> nat \<Rightarrow>
    'cb chans \<times> epoll_poller \<Rightarrow> ('cb chans \<times> epoll_poller) outcome" where
  "EpollPoller_updateChannel sysfail tid c s = (case s of (chs, p) \<Rightarrow> do {
     assert_that (in_loop_thread tid (ep_ownerLoop p));
     let index = ch_index (chs c);
     let fd = ch_fd (chs c);
     if index = kNew \<or> index = kDeleted
     then do {
       p1 \<leftarrow> (if index = kNew
             then do {
               assert_that (ep_channels p fd = None);
               Some (p\<lparr>ep_channels := (ep_channels p)(fd \<mapsto> c)\<rparr>)
             }
             else do {
               assert_that (ep_channels p fd \<noteq> None);
               assert_that (ep_channels p fd = Some c);
               Some p
             });
       let chs1 = chs(c := Channel_set_index kAdded (chs c));
       p2 \<leftarrow> EpollPoller_update sysfail EPOLL_CTL_ADD (chs1 c) c p1;
       Some (chs1, p2)
     }
     else do {
       assert_that (ep_channels p fd \<noteq> None);
       assert_that (ep_channels p fd = Some c);
       assert_that (index = kAdded);
       if Channel_isNoneEvent (chs c)
       then do {
         p1 \<leftarrow> EpollPoller_update sysfail EPOLL_CTL_DEL (chs c) c p;
         Some (chs(c := Channel_set_index kDeleted (chs c)), p1)
       }
       else do {
         p1 \<leftarrow> EpollPoller_update sysfail EPOLL_CTL_MOD (chs c) c p;
         Some (chs, p1)
       }
     }
   })"

definition EpollPoller_removeChannel :: "(epoll_op \<Rightarrow> int \<Rightarrow> bool) \<Rightarrow> int \<Rightarrow> nat \<Rightarrow>
    'cb chans \<times> epoll_poller \<Rightarrow> ('cb chans \<times> epoll_poller) outcome" where
  "EpollPoller_removeChannel sysfail tid c s = (case s of (chs, p) \<Rightarrow> do {
     assert_that (in_loop_thread tid (ep_ownerLoop p));
     let fd = ch_fd (chs c);
     assert_that (ep_channels p fd \<noteq> None);
     assert_that (ep_channels p fd = Some c);
     assert_that (Channel_isNoneEvent (chs c));
     let index = ch_index (chs c);
     assert_that (index = kAdded \<or> index = kDeleted);
     let p1 = p\<lparr>ep_channels := (ep_channels p)(fd := None)\<rparr>;
     p2 \<leftarrow> (if index = kAdded then EpollPoller_update sysfail EPOLL_CTL_DEL (chs c) c p1 else Some p1);
     Some (chs(c := Channel_set_index kNew (chs c)), p2)
   })"

text \<open>The loop of \<open>fillActiveChannels\<close> over the first \<open>numEvents\<close> entries of \<open>m_events\<close>.\<close>

definition EpollPoller_fill_step :: "(int \<rightharpoonup> nat) \<Rightarrow> 32 word \<times> nat \<Rightarrow>
    'cb chans \<times> nat list \<Rightarrow> ('cb chans \<times> nat list) outcome" where
  "EpollPoller_fill_step m_channels e s = (case (e, s) of ((events, c), (chs, active)) \<Rightarrow> do {
     let fd = ch_fd (chs c);
     assert_that (m_channels fd \<noteq> None);
     assert_that (m_channels fd = Some c);
     Some (chs(c := Channel_set_revents events (chs c)), active @ [c])
   })"

definition EpollPoller_fillActiveChannels :: "epoll_poller \<Rightarrow> (32 word \<times> nat) list \<Rightarrow>
    'cb chans \<times> nat list \<Rightarrow> ('cb chans \<times> nat list) outcome" where
  "EpollPoller_fillActiveChannels p evs s = do {
     assert_that (length evs \<le> ep_events_size p);
     for_each (EpollPoller_fill_step (ep_channels p)) evs s
   }"

text \<open>
  \<open>poll\<close> with \<open>epoll_wait\<close> as an argument: from the interest list and the room in \<open>m_events\<close> it
  gives an error (\<open>None\<close>) or the reported events. A failure is logged and leaves the state alone.
\<close>

definition EpollPoller_poll ::
  "((int \<rightharpoonup> 32 word \<times> nat) \<Rightarrow> nat \<Rightarrow> (32 word \<times> nat) list option) \<Rightarrow> timestamp \<Rightarrow> nat list \<Rightarrow>
   'cb chans \<times> epoll_poller \<Rightarrow> (timestamp \<times> nat list \<times> 'cb chans \<times> epoll_poller) outcome" where
  "EpollPoller_poll epoll_wait now activeChannels s = (case s of (chs, p) \<Rightarrow>
     (case epoll_wait (ep_interest p) (ep_events_size p) of
        None \<Rightarrow> Some (now, activeChannels, chs, p)
      | Some evs \<Rightarrow>
          if evs \<noteq> []
          then do {
            (chs1, active1) \<leftarrow> EpollPoller_fillActiveChannels p evs (chs, activeChannels);
            Some (now, active1, chs1,
                  if length evs = ep_events_size p
                  then p\<lparr>ep_events_size := ep_events_size p * 2\<rparr> else p)
          }
          else Some (now, activeChannels, chs, p)))"

subsection \<open>\<open>PollPoller\<close>\<close>

record pollfd =
  pfd_fd :: int
  pfd_events :: "16 word"
  pfd_revents :: "16 word"

record poll_poller =
  pp_ownerLoop :: loop_ref
  pp_channels :: "int \<rightharpoonup> nat"
  m_pollfds :: "pollfd list"

definition PollPoller_new :: "loop_ref \<Rightarrow> poll_poller" where
  "PollPoller_new loop = \<lparr>pp_ownerLoop = loop, pp_channels = Map.empty, m_pollfds = []\<rparr>"

definition PollPoller_updateChannel :: "int \<Rightarrow> nat \<Rightarrow>
    'cb chans \<times> poll_poller \<Rightarrow> ('cb chans \<times> poll_poller) outcome" where
  "PollPoller_updateChannel tid c s = (case s of (chs, p) \<Rightarrow> do {
     assert_that (in_loop_thread tid (pp_ownerLoop p));
     let fd = ch_fd (chs c);
     if ch_index (chs c) < 0
     then do {
       assert_that (pp_channels p fd = None);
       let pfd = \<lparr>pfd_fd = fd, pfd_events = scast (ch_events (chs c)), pfd_revents = 0\<rparr>;
       let fds = m_pollfds p @ [pfd];
       let idx = int (length fds) - 1;
       Some (chs(c := Channel_set_index idx (chs c)),
             p\<lparr>m_pollfds := fds, pp_channels := (pp_channels p)(fd \<mapsto> c)\<rparr>)
     }
     else do {
       assert_that (pp_channels p fd \<noteq> None);
       assert_that (pp_channels p fd = Some c);
       let idx = ch_index (chs c);
       assert_that (0 \<le> idx \<and> idx < int (length (m_pollfds p)));
       let pfd = m_pollfds p ! nat idx;
       assert_that (pfd_fd pfd = fd \<or> pfd_fd pfd = - fd - 1);
       let pfd1 = pfd\<lparr>pfd_fd := fd, pfd_events := scast (ch_events (chs c)), pfd_revents := 0\<rparr>;
       let pfd2 = (if Channel_isNoneEvent (chs c) then pfd1\<lparr>pfd_fd := - fd - 1\<rparr> else pfd1);
       Some (chs, p\<lparr>m_pollfds := (m_pollfds p)[nat idx := pfd2]\<rparr>)
     }
   })"

definition PollPoller_removeChannel :: "int \<Rightarrow> nat \<Rightarrow>
    'cb chans \<times> poll_poller \<Rightarrow> ('cb chans \<times> poll_poller) outcome" where
  "PollPoller_removeChannel tid c s = (case s of (chs, p) \<Rightarrow> do {
     assert_that (in_loop_thread tid (pp_ownerLoop p));
     let fd = ch_fd (chs c);
     assert_that (pp_channels p fd \<noteq> None);
     assert_that (pp_channels p fd = Some c);
     assert_that (Channel_isNoneEvent (chs c));
     let idx = ch_index (chs c);
     assert_that (0 \<le> idx \<and> idx < int (length (m_pollfds p)));
     let pfd = m_pollfds p ! nat idx;
     assert_that (pfd_fd pfd = - fd - 1 \<and> scast (pfd_events pfd) = ch_events (chs c));
     let m_channels = (pp_channels p)(fd := None);
     if nat idx = length (m_pollfds p) - 1
     then Some (chs, p\<lparr>pp_channels := m_channels, m_pollfds := butlast (m_pollfds p)\<rparr>)
     else do {
       let end_fd = pfd_fd (last (m_pollfds p));
       let channelAtEnd = (if end_fd < 0 then - end_fd - 1 else end_fd);
       let swapped = (m_pollfds p)[nat idx := last (m_pollfds p), length (m_pollfds p) - 1 := pfd];
       e \<leftarrow> m_channels channelAtEnd;
       Some (chs(e := Channel_set_index idx (chs e)),
             p\<lparr>pp_channels := m_channels, m_pollfds := butlast swapped\<rparr>)
     }
   })"

text \<open>The loop of \<open>fillActiveChannels\<close>: the entries are read until \<open>numEvents\<close> were found.\<close>

fun PollPoller_fillActiveChannels :: "(int \<rightharpoonup> nat) \<Rightarrow> pollfd list \<Rightarrow> nat \<Rightarrow>
    'cb chans \<times> nat list \<Rightarrow> ('cb chans \<times> nat list) outcome" where
  "PollPoller_fillActiveChannels m_channels [] numEvents s = Some s"
| "PollPoller_fillActiveChannels m_channels (pfd # pfds) numEvents (chs, active) =
     (if numEvents = 0 then Some (chs, active)
      else if 0 < sint (pfd_revents pfd)
      then do {
        c \<leftarrow> m_channels (pfd_fd pfd);
        assert_that (ch_fd (chs c) = pfd_fd pfd);
        PollPoller_fillActiveChannels m_channels pfds (numEvents - 1)
          (chs(c := Channel_set_revents (scast (pfd_revents pfd)) (chs c)), active @ [c])
      }
      else PollPoller_fillActiveChannels m_channels pfds numEvents (chs, active))"

text \<open>
  The system call \<open>poll\<close> stores in every \<open>revents\<close> what \<open>ready\<close> says of the descriptor, ignores
  entries with a negative descriptor (\<open>revents\<close> is 0 there) and returns the number of entries
  whose \<open>revents\<close> is not 0.
\<close>

definition sys_poll :: "(int \<Rightarrow> 16 word \<Rightarrow> 16 word) \<Rightarrow> pollfd list \<Rightarrow> nat \<times> pollfd list" where
  "sys_poll ready fds =
     (let fds' = map (\<lambda>q. q\<lparr>pfd_revents := if pfd_fd q < 0 then 0 else ready (pfd_fd q) (pfd_events q)\<rparr>) fds
      in (length (filter (\<lambda>q. pfd_revents q \<noteq> 0) fds'), fds'))"

definition PollPoller_poll ::
  "(int \<Rightarrow> 16 word \<Rightarrow> 16 word) option \<Rightarrow> timestamp \<Rightarrow> nat list \<Rightarrow>
   'cb chans \<times> poll_poller \<Rightarrow> (timestamp \<times> nat list \<times> 'cb chans \<times> poll_poller) outcome" where
  "PollPoller_poll ready now activeChannels s = (case s of (chs, p) \<Rightarrow>
     (case ready of
        None \<Rightarrow> Some (now, activeChannels, chs, p)
      | Some r \<Rightarrow>
          let (numEvents, fds) = sys_poll r (m_pollfds p); p1 = p\<lparr>m_pollfds := fds\<rparr> in
          if 0 < numEvents
          then do {
            (chs1, active1) \<leftarrow> PollPoller_fillActiveChannels (pp_channels p1) fds numEvents (chs, activeChannels);
            Some (now, active1, chs1, p1)
          }
          else Some (now, activeChannels, chs, p1)))"

end
