(* ===== verification/PollerContract.thy ===== *)
theory PollerContract
  imports Poller
begin

text \<open>
  The contract of a poller and its two implementations. The abstract state of a poller is a table
  from descriptors to the channel registered for it and the events watched, with the set of
  channels that were ever registered: a channel is registered at most once in its life (the stores
  keep the index of a removed channel), first with some interest, and removed with none.
\<close>

subsection \<open>Requests and the abstract table\<close>

text \<open>
  What a channel asks of its poller: \<open>enableReading\<close> and its siblings store a new \<open>m_events\<close> and
  call \<open>updateChannel\<close>, \<open>remove\<close> calls \<open>removeChannel\<close>.
\<close>

datatype chan_req = Req_events nat "32 word" | Req_remove nat

definition set_events :: "nat \<Rightarrow> 32 word \<Rightarrow> 'cb chans \<Rightarrow> 'cb chans" where
  "set_events c w chs = chs(c := (chs c)\<lparr>ch_events := w\<rparr>)"

definition poller_request :: "(int \<Rightarrow> nat \<Rightarrow> 'cb chans \<times> 'p \<Rightarrow> ('cb chans \<times> 'p) outcome) \<Rightarrow>
    (int \<Rightarrow> nat \<Rightarrow> 'cb chans \<times> 'p \<Rightarrow> ('cb chans \<times> 'p) outcome) \<Rightarrow>
    int \<Rightarrow> chan_req \<Rightarrow> 'cb chans \<times> 'p \<Rightarrow> ('cb chans \<times> 'p) outcome" where
  "poller_request upd rem tid r s = (case r of
     Req_events c w \<Rightarrow> upd tid c (set_events c w (fst s), snd s)
   | Req_remove c \<Rightarrow> rem tid c s)"

type_synonym watch_table = "(int \<rightharpoonup> nat \<times> 32 word) \<times> nat set"

text \<open>One request on the table; \<open>None\<close> when the request breaks the rules of use.\<close>

definition watch_step :: "loop_ref \<Rightarrow> (nat \<Rightarrow> loop_ref \<times> int) \<Rightarrow> chan_req \<Rightarrow> watch_table \<Rightarrow> watch_table outcome" where
  "watch_step owner desc r t = (case t of (tab, used) \<Rightarrow> (case r of
     Req_events c w \<Rightarrow> (let (loop, fd) = desc c in do {
       assert_that (loop = owner \<and> 0 \<le> fd \<and> interest_mask w);
       (case tab fd of
          None \<Rightarrow> do { assert_that (c \<notin> used \<and> w \<noteq> 0); Some (tab(fd \<mapsto> (c, w)), insert c used) }
        | Some (d, w') \<Rightarrow> do { assert_that (d = c); Some (tab(fd \<mapsto> (c, w)), used) })
     })
   | Req_remove c \<Rightarrow> (let (loop, fd) = desc c in do {
       assert_that (loop = owner \<and> tab fd = Some (c, 0));
       Some (tab(fd := None), used)
     })))"

subsection \<open>The contract\<close>

text \<open>Nothing of a channel but its index changed.\<close>

definition only_index :: "'cb chans \<Rightarrow> 'cb chans \<Rightarrow> bool" where
  "only_index chs chs' = (\<forall>c. chs' c = (chs c)\<lparr>ch_index := ch_index (chs' c)\<rparr>)"

text \<open>The fields a poller reads to find its way back to its own entries.\<close>

definition same_place :: "'cb chans \<Rightarrow> 'cb chans \<Rightarrow> bool" where
  "same_place chs chs' =
     (\<forall>c. ch_loop (chs' c) = ch_loop (chs c) \<and> ch_fd (chs' c) = ch_fd (chs c) \<and> ch_index (chs' c) = ch_index (chs c))"

lemma only_index_fields:
  assumes "only_index chs chs'"
  shows "ch_loop (chs' c) = ch_loop (chs c)" "ch_fd (chs' c) = ch_fd (chs c)" "ch_events (chs' c) = ch_events (chs c)"
  using assms unfolding only_index_def by (metis (no_types, lifting) channel.select_convs channel.surjective channel.update_convs)+

lemma only_index_refl [simp]: "only_index chs chs"
  by (simp add: only_index_def)

lemma only_index_set [simp]: "only_index chs (chs(c := Channel_set_index i (chs c)))"
  by (simp add: only_index_def Channel_set_index_def)

lemma same_place_set_events [simp]: "same_place chs (set_events c w chs)"
  by (simp add: same_place_def set_events_def)

locale poller_contract =
  fixes upd :: "int \<Rightarrow> nat \<Rightarrow> 'cb chans \<times> 'p \<Rightarrow> ('cb chans \<times> 'p) outcome"
    and rem :: "int \<Rightarrow> nat \<Rightarrow> 'cb chans \<times> 'p \<Rightarrow> ('cb chans \<times> 'p) outcome"
    and inv :: "'cb chans \<times> 'p \<Rightarrow> bool"
    and owner :: "'p \<Rightarrow> loop_ref"
    and tracked :: "'p \<Rightarrow> int \<rightharpoonup> nat"
    and watched :: "'p \<Rightarrow> int \<Rightarrow> 32 word"
  assumes inv_place: "inv (chs, p) \<Longrightarrow> same_place chs chs' \<Longrightarrow> inv (chs', p)"
    and inv_untracked: "inv (chs, p) \<Longrightarrow> c \<notin> ran (tracked p) \<Longrightarrow> inv (chs(c := ch), p)"
    and tracked_fd: "inv (chs, p) \<Longrightarrow> tracked p fd = Some c \<Longrightarrow> ch_fd (chs c) = fd"
    and upd_law: "inv (chs, p) \<Longrightarrow> in_loop_thread tid (owner p) \<Longrightarrow> ch_loop (chs c) = owner p \<Longrightarrow>
      0 \<le> ch_fd (chs c) \<Longrightarrow> interest_mask (ch_events (chs c)) \<Longrightarrow>
      tracked p (ch_fd (chs c)) = Some c \<or>
        tracked p (ch_fd (chs c)) = None \<and> ch_index (chs c) = -1 \<and> ch_events (chs c) \<noteq> 0 \<Longrightarrow>
      \<exists>chs' p'. upd tid c (chs, p) = Some (chs', p') \<and> inv (chs', p') \<and> owner p' = owner p
        \<and> tracked p' = (tracked p)(ch_fd (chs c) \<mapsto> c)
        \<and> watched p' = (watched p)(ch_fd (chs c) := ch_events (chs c))
        \<and> only_index chs chs' \<and> (\<forall>d. d \<noteq> c \<longrightarrow> chs' d = chs d)"
    and rem_law: "inv (chs, p) \<Longrightarrow> in_loop_thread tid (owner p) \<Longrightarrow> tracked p (ch_fd (chs c)) = Some c \<Longrightarrow>
      ch_events (chs c) = 0 \<Longrightarrow> watched p (ch_fd (chs c)) = 0 \<Longrightarrow>
      \<exists>chs' p'. rem tid c (chs, p) = Some (chs', p') \<and> inv (chs', p') \<and> owner p' = owner p
        \<and> tracked p' = (tracked p)(ch_fd (chs c) := None) \<and> watched p' = watched p
        \<and> only_index chs chs' \<and> (\<forall>d. d \<noteq> c \<longrightarrow> d \<notin> ran (tracked p) \<longrightarrow> chs' d = chs d)"
begin

text \<open>
  The simulation relation: the poller tracks the table, every registered channel has the events
  that are watched for it, and a channel that was never registered still has index \<open>-1\<close>.
\<close>

definition simulates :: "(nat \<Rightarrow> loop_ref \<times> int) \<Rightarrow> 'cb chans \<times> 'p \<Rightarrow> watch_table \<Rightarrow> bool" where
  "simulates desc s t = (case s of (chs, p) \<Rightarrow> case t of (tab, used) \<Rightarrow>
     inv s \<and> (\<forall>c. desc c = (ch_loop (chs c), ch_fd (chs c)))
   \<and> (\<forall>fd. tab fd = map_option (\<lambda>c. (c, watched p fd)) (tracked p fd))
   \<and> (\<forall>fd c w. tab fd = Some (c, w) \<longrightarrow> ch_events (chs c) = w \<and> c \<in> used)
   \<and> (\<forall>c. c \<notin> used \<longrightarrow> ch_index (chs c) = -1))"

lemma sim_events:
  assumes sim: "simulates desc (chs, p) (tab, used)" and tid: "in_loop_thread tid (owner p)"
    and step: "watch_step (owner p) desc (Req_events c w) (tab, used) = Some (tab', used')"
  shows "\<exists>chs' p'. poller_request upd rem tid (Req_events c w) (chs, p) = Some (chs', p')
           \<and> simulates desc (chs', p') (tab', used') \<and> owner p' = owner p"
proof -
  let ?fd = "ch_fd (chs c)"
  let ?chs = "set_events c w chs"
  from sim have inv: "inv (chs, p)" and desc: "\<And>d. desc d = (ch_loop (chs d), ch_fd (chs d))"
    and tab: "\<And>fd. tab fd = map_option (\<lambda>c. (c, watched p fd)) (tracked p fd)"
    and ev: "\<And>fd c w. tab fd = Some (c, w) \<Longrightarrow> ch_events (chs c) = w \<and> c \<in> used"
    and fresh: "\<And>c. c \<notin> used \<Longrightarrow> ch_index (chs c) = -1"
    by (auto simp: simulates_def)
  from step have own: "ch_loop (chs c) = owner p" and nonneg: "0 \<le> ?fd" and bits: "interest_mask w"
    and tab': "tab' = tab(?fd \<mapsto> (c, w))" and used': "used' = insert c used"
    and place: "tracked p ?fd = Some c \<or> tracked p ?fd = None \<and> ch_index (chs c) = -1 \<and> w \<noteq> 0"
    using ev fresh tab[of ?fd]
    by (fastforce simp: watch_step_def desc split: option.splits prod.splits)+
  from inv have "inv (?chs, p)" by (rule inv_place) simp
  from upd_law[OF this tid, of c] own nonneg bits place
  obtain chs' p' where run: "upd tid c (?chs, p) = Some (chs', p')" and inv': "inv (chs', p')"
    and o': "owner p' = owner p" and t': "tracked p' = (tracked p)(?fd \<mapsto> c)"
    and w': "watched p' = (watched p)(?fd := w)" and only: "only_index ?chs chs'"
    and rest: "\<And>d. d \<noteq> c \<Longrightarrow> chs' d = ?chs d"
    by (auto simp: set_events_def)
  have others: "ch_fd (chs' d) = ch_fd (chs d)" "ch_loop (chs' d) = ch_loop (chs d)"
    "ch_events (chs' d) = (if d = c then w else ch_events (chs d))" for d
    using only_index_fields[OF only, of d] by (auto simp: set_events_def)
  have "ch_events (chs' d) = v \<and> d \<in> used'" if "tab' fd = Some (d, v)" for fd d v
    using that ev[of fd d v] tracked_fd[OF inv, of fd d] tab[of fd]
    by (cases "tracked p fd") (auto simp: tab' used' others split: if_splits)
  moreover have "ch_index (chs' d) = -1" if "d \<notin> used'" for d
    using that rest[of d] fresh[of d] by (auto simp: used' set_events_def)
  ultimately have "simulates desc (chs', p') (tab', used')"
    using inv' by (auto simp: simulates_def desc others t' w' tab tab')
  with run o' show ?thesis by (simp add: poller_request_def)
qed

lemma sim_remove:
  assumes sim: "simulates desc (chs, p) (tab, used)" and tid: "in_loop_thread tid (owner p)"
    and step: "watch_step (owner p) desc (Req_remove c) (tab, used) = Some (tab', used')"
  shows "\<exists>chs' p'. poller_request upd rem tid (Req_remove c) (chs, p) = Some (chs', p')
           \<and> simulates desc (chs', p') (tab', used') \<and> owner p' = owner p"
proof -
  let ?fd = "ch_fd (chs c)"
  from sim have inv: "inv (chs, p)" and desc: "\<And>d. desc d = (ch_loop (chs d), ch_fd (chs d))"
    and tab: "\<And>fd. tab fd = map_option (\<lambda>c. (c, watched p fd)) (tracked p fd)"
    and ev: "\<And>fd c w. tab fd = Some (c, w) \<Longrightarrow> ch_events (chs c) = w \<and> c \<in> used"
    and fresh: "\<And>c. c \<notin> used \<Longrightarrow> ch_index (chs c) = -1"
    by (auto simp: simulates_def)
  from step have tc: "tab ?fd = Some (c, 0)" and tab': "tab' = tab(?fd := None)" and used': "used' = used"
    by (auto simp: watch_step_def desc)
  from tc have reg: "tracked p ?fd = Some c" "watched p ?fd = 0" by (auto simp: tab)
  from ev[OF tc] have none: "ch_events (chs c) = 0" "c \<in> used" by auto
  from rem_law[OF inv tid reg(1) none(1) reg(2)]
  obtain chs' p' where run: "rem tid c (chs, p) = Some (chs', p')" and inv': "inv (chs', p')"
    and o': "owner p' = owner p" and t': "tracked p' = (tracked p)(?fd := None)"
    and w': "watched p' = watched p" and only: "only_index chs chs'"
    and rest: "\<And>d. d \<noteq> c \<Longrightarrow> d \<notin> ran (tracked p) \<Longrightarrow> chs' d = chs d"
    by auto
  have "ch_index (chs' d) = -1" if "d \<notin> used'" for d
  proof -
    have "d \<noteq> c" using that none by (auto simp: used')
    moreover have "d \<notin> ran (tracked p)"
    proof
      assume "d \<in> ran (tracked p)"
      then obtain fd where "tracked p fd = Some d" by (auto simp: ran_def)
      then have "tab fd = Some (d, watched p fd)" by (simp add: tab)
      from ev[OF this] that show False by (simp add: used')
    qed
    ultimately show ?thesis using rest[of d] fresh[of d] that by (simp add: used')
  qed
  then have "simulates desc (chs', p') (tab', used')"
    using inv' ev by (auto simp: simulates_def desc only_index_fields[OF only] t' w' tab tab' used')
  with run o' show ?thesis by (simp add: poller_request_def)
qed

text \<open>Any history of requests that keeps the rules of use runs to the end and stays with the table.\<close>

lemma run_requests:
  assumes "simulates desc s t" and "in_loop_thread tid (owner (snd s))"
    and "for_each (watch_step (owner (snd s)) desc) rs t = Some t'"
  shows "\<exists>s'. for_each (poller_request upd rem tid) rs s = Some s' \<and> simulates desc s' t'"
  using assms
proof (induction rs arbitrary: s t)
  case Nil
  then show ?case by auto
next
  case (Cons r rs)
  obtain chs p tab used where st: "s = (chs, p)" "t = (tab, used)" by (metis surj_pair)
  from Cons.prems(3) obtain tab1 used1 where step: "watch_step (owner p) desc r (tab, used) = Some (tab1, used1)"
    and rest: "for_each (watch_step (owner p) desc) rs (tab1, used1) = Some t'"
    by (auto simp: st Option.bind_eq_Some_conv)
  have "\<exists>chs' p'. poller_request upd rem tid r (chs, p) = Some (chs', p')
           \<and> simulates desc (chs', p') (tab1, used1) \<and> owner p' = owner p"
  proof (cases r)
    case (Req_events c w)
    then show ?thesis using sim_events[of desc chs p tab used tid c w] Cons.prems step st by simp
  next
    case (Req_remove c)
    then show ?thesis using sim_remove[of desc chs p tab used tid c] Cons.prems step st by simp
  qed
  then obtain chs' p' where one: "poller_request upd rem tid r (chs, p) = Some (chs', p')"
    "simulates desc (chs', p') (tab1, used1)" "owner p' = owner p" by auto
  from Cons.IH[OF one(2)] one(3) Cons.prems(2) rest
  obtain s' where "for_each (poller_request upd rem tid) rs (chs', p') = Some s'" "simulates desc s' t'"
    by (auto simp: st)
  with one(1) show ?case by (auto simp: st)
qed

end

end
