(* ===== verification/Pollers.thy ===== *)
theory Pollers
  imports PollerContract
begin

text \<open>
  \<open>EpollPoller\<close> and \<open>PollPoller\<close> keep the poller contract, and what follows from it: both watch
  what the channels asked for, they are interchangeable, and \<open>PollPoller::poll\<close> activates exactly
  the ready channels. \<open>Poller::newDefaultPoller\<close> picks one of them.
\<close>

subsection \<open>\<open>EpollPoller\<close>\<close>

definition epoll_watched :: "epoll_poller \<Rightarrow> int \<Rightarrow> 32 word" where
  "epoll_watched p fd = (case ep_interest p fd of None \<Rightarrow> 0 | Some (w, _) \<Rightarrow> w)"

text \<open>
  The map of channels points to the right objects, a channel is in it iff its index is not \<open>kNew\<close>,
  and the kernel's interest list has exactly the channels with index \<open>kAdded\<close>.
\<close>

definition epoll_entry :: "'cb chans \<Rightarrow> int \<Rightarrow> nat option \<Rightarrow> (32 word \<times> nat) option \<Rightarrow> bool" where
  "epoll_entry chs fd ch it = (case ch of
     None \<Rightarrow> it = None
   | Some c \<Rightarrow> ch_fd (chs c) = fd \<and> (case it of
         None \<Rightarrow> ch_index (chs c) = kDeleted
       | Some (w, d) \<Rightarrow> d = c \<and> ch_index (chs c) = kAdded))"

definition EpollPoller_inv :: "'cb chans \<times> epoll_poller \<Rightarrow> bool" where
  "EpollPoller_inv s = (case s of (chs, p) \<Rightarrow> \<forall>fd. epoll_entry chs fd (ep_channels p fd) (ep_interest p fd))"

definition no_sysfail :: "epoll_op \<Rightarrow> int \<Rightarrow> bool" where
  "no_sysfail op fd = False"

lemma EpollPoller_invD: "EpollPoller_inv (chs, p) \<Longrightarrow> epoll_entry chs fd (ep_channels p fd) (ep_interest p fd)"
  by (simp add: EpollPoller_inv_def)

lemma epoll_update_ok [simp]:
  "ep_interest p (ch_fd ch) = None \<Longrightarrow> EpollPoller_update no_sysfail EPOLL_CTL_ADD ch c p
     = Some (p\<lparr>ep_interest := (ep_interest p)(ch_fd ch \<mapsto> (ch_events ch, c))\<rparr>)"
  "ep_interest p (ch_fd ch) = Some e \<Longrightarrow> EpollPoller_update no_sysfail EPOLL_CTL_MOD ch c p
     = Some (p\<lparr>ep_interest := (ep_interest p)(ch_fd ch \<mapsto> (ch_events ch, c))\<rparr>)"
  "ep_interest p (ch_fd ch) = Some e \<Longrightarrow> EpollPoller_update no_sysfail EPOLL_CTL_DEL ch c p
     = Some (p\<lparr>ep_interest := (ep_interest p)(ch_fd ch := None)\<rparr>)"
  by (simp_all add: EpollPoller_update_def epoll_ctl_def no_sysfail_def)

lemma EpollPoller_inv_tracked:
  assumes "EpollPoller_inv (chs, p)" and "ep_channels p (ch_fd (chs c)) = Some c"
  obtains w where "ch_index (chs c) = kAdded" "ep_interest p (ch_fd (chs c)) = Some (w, c)"
  | "ch_index (chs c) = kDeleted" "ep_interest p (ch_fd (chs c)) = None"
  using EpollPoller_invD[OF assms(1), of "ch_fd (chs c)"] assms(2)
  by (auto simp: epoll_entry_def split: option.splits)

lemma EpollPoller_inv_untracked:
  assumes "EpollPoller_inv (chs, p)" and "ep_channels p fd = None"
  shows "ep_interest p fd = None"
  using EpollPoller_invD[OF assms(1), of fd] assms(2) by (simp add: epoll_entry_def)

text \<open>Changing one channel and its own entry keeps the invariant when the new entry is right.\<close>

lemma EpollPoller_inv_set:
  assumes inv: "EpollPoller_inv (chs, p)" and fd: "ch_fd (chs c) = fd"
    and cell: "epoll_entry (chs(c := ch)) fd (ep_channels q fd) (ep_interest q fd)"
    and rest: "\<And>fd'. fd' \<noteq> fd \<Longrightarrow> ep_channels q fd' = ep_channels p fd' \<and> ep_interest q fd' = ep_interest p fd'"
  shows "EpollPoller_inv (chs(c := ch), q)"
proof -
  have "epoll_entry (chs(c := ch)) fd' (ep_channels q fd') (ep_interest q fd')" if "fd' \<noteq> fd" for fd'
    using EpollPoller_invD[OF inv, of fd'] rest[OF that] that fd
    by (auto simp: epoll_entry_def split: option.splits)
  with cell show ?thesis by (auto simp: EpollPoller_inv_def) metis
qed

lemma epoll_entry_place:
  assumes "epoll_entry chs fd ch it" and "same_place chs chs'"
  shows "epoll_entry chs' fd ch it"
  using assms by (cases ch; cases it) (auto simp: epoll_entry_def same_place_def)

lemmas epoll_ops = EpollPoller_updateChannel_def EpollPoller_removeChannel_def Channel_set_index_def
  Channel_isNoneEvent_def kNoneEvent_def epoll_index Let_def

lemma epoll_upd_law:
  assumes inv: "EpollPoller_inv (chs, p)" and tid: "in_loop_thread tid (ep_ownerLoop p)"
    and reg: "ep_channels p (ch_fd (chs c)) = Some c \<or>
      ep_channels p (ch_fd (chs c)) = None \<and> ch_index (chs c) = -1 \<and> ch_events (chs c) \<noteq> 0"
  shows "\<exists>chs' p'. EpollPoller_updateChannel no_sysfail tid c (chs, p) = Some (chs', p')
    \<and> EpollPoller_inv (chs', p') \<and> ep_ownerLoop p' = ep_ownerLoop p
    \<and> ep_channels p' = (ep_channels p)(ch_fd (chs c) \<mapsto> c)
    \<and> epoll_watched p' = (epoll_watched p)(ch_fd (chs c) := ch_events (chs c))
    \<and> only_index chs chs' \<and> (\<forall>d. d \<noteq> c \<longrightarrow> chs' d = chs d)"
proof -
  let ?fd = "ch_fd (chs c)" and ?ev = "ch_events (chs c)"
  let ?run = "EpollPoller_updateChannel no_sysfail tid c (chs, p)"
  let ?ad = "chs(c := Channel_set_index kAdded (chs c))" and ?del = "chs(c := Channel_set_index kDeleted (chs c))"
  let ?p1 = "p\<lparr>ep_channels := (ep_channels p)(?fd \<mapsto> c), ep_interest := (ep_interest p)(?fd \<mapsto> (?ev, c))\<rparr>"
  let ?p2 = "p\<lparr>ep_channels := (ep_channels p)(?fd \<mapsto> c), ep_interest := (ep_interest p)(?fd := None)\<rparr>"
  have inv1: "EpollPoller_inv (?ad, ?p1)" and inv2: "EpollPoller_inv (?del, ?p2)"
    by (rule EpollPoller_inv_set[OF inv refl]; simp add: epoll_entry_def Channel_set_index_def)+
  have w1: "epoll_watched ?p1 = (epoll_watched p)(?fd := ?ev)"
    and w2: "epoll_watched ?p2 = (epoll_watched p)(?fd := 0)"
    by (auto simp: epoll_watched_def)
  have "?run = Some (?ad, ?p1) \<or> ?run = Some (?del, ?p2) \<and> ?ev = 0"
    using reg
  proof (elim disjE conjE)
    assume new: "ep_channels p ?fd = None" "ch_index (chs c) = -1"
    with EpollPoller_inv_untracked[OF inv new(1)] tid show ?thesis
      by (simp add: epoll_ops)
  next
    assume old: "ep_channels p ?fd = Some c"
    then have same: "(ep_channels p)(?fd \<mapsto> c) = ep_channels p" by auto
    from inv old show ?thesis
    proof (cases rule: EpollPoller_inv_tracked)
      case (1 w)
      then have "chs(c := (chs c)\<lparr>ch_index := 1\<rparr>) = chs" by (auto simp: epoll_index)
      with 1 old tid same show ?thesis by (simp add: epoll_ops)
    next
      case 2
      with old tid same show ?thesis by (simp add: epoll_ops)
    qed
  qed
  with inv1 inv2 w1 w2 show ?thesis by auto
qed

lemma epoll_rem_law:
  assumes inv: "EpollPoller_inv (chs, p)" and tid: "in_loop_thread tid (ep_ownerLoop p)"
    and reg: "ep_channels p (ch_fd (chs c)) = Some c" and none: "ch_events (chs c) = 0"
    and unwatched: "epoll_watched p (ch_fd (chs c)) = 0"
  shows "\<exists>chs' p'. EpollPoller_removeChannel no_sysfail tid c (chs, p) = Some (chs', p')
    \<and> EpollPoller_inv (chs', p') \<and> ep_ownerLoop p' = ep_ownerLoop p
    \<and> ep_channels p' = (ep_channels p)(ch_fd (chs c) := None) \<and> epoll_watched p' = epoll_watched p
    \<and> only_index chs chs' \<and> (\<forall>d. d \<noteq> c \<longrightarrow> d \<notin> ran (ep_channels p) \<longrightarrow> chs' d = chs d)"
proof -
  let ?fd = "ch_fd (chs c)"
  let ?new = "chs(c := Channel_set_index kNew (chs c))"
  let ?p1 = "p\<lparr>ep_channels := (ep_channels p)(?fd := None), ep_interest := (ep_interest p)(?fd := None)\<rparr>"
  have inv1: "EpollPoller_inv (?new, ?p1)"
    by (rule EpollPoller_inv_set[OF inv refl]; simp add: epoll_entry_def)
  have w: "epoll_watched ?p1 = epoll_watched p"
    using unwatched by (auto simp: epoll_watched_def split: option.splits)
  have "EpollPoller_removeChannel no_sysfail tid c (chs, p) = Some (?new, ?p1)"
    using inv reg
  proof (cases rule: EpollPoller_inv_tracked)
    case (1 w)
    with reg tid none show ?thesis by (simp add: epoll_ops)
  next
    case 2
    then have "(ep_interest p)(?fd := None) = ep_interest p" by auto
    with 2 reg tid none show ?thesis by (simp add: epoll_ops)
  qed
  with inv1 w show ?thesis by auto
qed

interpretation epoll: poller_contract "EpollPoller_updateChannel no_sysfail" "EpollPoller_removeChannel no_sysfail"
  EpollPoller_inv ep_ownerLoop ep_channels epoll_watched
proof
  fix chs chs' :: "'a chans" and p
  assume "EpollPoller_inv (chs, p)" "same_place chs chs'"
  then show "EpollPoller_inv (chs', p)"
    using epoll_entry_place by (fastforce simp: EpollPoller_inv_def)
next
  fix chs :: "'a chans" and p c ch
  assume inv: "EpollPoller_inv (chs, p)" and c: "c \<notin> ran (ep_channels p)"
  have "epoll_entry (chs(c := ch)) fd (ep_channels p fd) (ep_interest p fd)" for fd
    using EpollPoller_invD[OF inv, of fd] c by (auto simp: epoll_entry_def ran_def split: option.splits)
  then show "EpollPoller_inv (chs(c := ch), p)" by (simp add: EpollPoller_inv_def)
next
  fix chs :: "'a chans" and p fd c
  assume "EpollPoller_inv (chs, p)" "ep_channels p fd = Some c"
  then show "ch_fd (chs c) = fd"
    using EpollPoller_invD[of chs p fd] by (simp add: epoll_entry_def)
qed (rule epoll_upd_law epoll_rem_law; assumption)+

subsection \<open>\<open>PollPoller\<close>\<close>

text \<open>The descriptor an entry stands for: a parked entry has it negated, minus one.\<close>

definition decode_fd :: "int \<Rightarrow> int" where
  "decode_fd x = (if x < 0 then - x - 1 else x)"

definition poll_watched :: "poll_poller \<Rightarrow> int \<Rightarrow> 32 word" where
  "poll_watched p fd = (case find (\<lambda>q. decode_fd (pfd_fd q) = fd) (m_pollfds p) of
     None \<Rightarrow> 0 | Some q \<Rightarrow> if pfd_fd q < 0 then 0 else scast (pfd_events q))"

text \<open>The entry of a channel: parked exactly when no event is wanted.\<close>

definition pfd_of :: "'cb chans \<Rightarrow> nat \<Rightarrow> pollfd \<Rightarrow> bool" where
  "pfd_of chs c q = (decode_fd (pfd_fd q) = ch_fd (chs c)
     \<and> (pfd_fd q < 0 \<longleftrightarrow> pfd_events q = 0))"

definition PollPoller_inv :: "'cb chans \<times> poll_poller \<Rightarrow> bool" where
  "PollPoller_inv s = (case s of (chs, p) \<Rightarrow>
     (\<forall>fd c. pp_channels p fd = Some c \<longrightarrow> ch_fd (chs c) = fd \<and> 0 \<le> fd
        \<and> 0 \<le> ch_index (chs c) \<and> nat (ch_index (chs c)) < length (m_pollfds p)
        \<and> pfd_of chs c (m_pollfds p ! nat (ch_index (chs c))))
   \<and> (\<forall>i < length (m_pollfds p). \<exists>c. pp_channels p (decode_fd (pfd_fd (m_pollfds p ! i))) = Some c
        \<and> ch_index (chs c) = int i))"

lemma PollPoller_invI:
  assumes "\<And>fd c. pp_channels p fd = Some c \<Longrightarrow> ch_fd (chs c) = fd \<and> 0 \<le> fd
        \<and> 0 \<le> ch_index (chs c) \<and> nat (ch_index (chs c)) < length (m_pollfds p)
        \<and> pfd_of chs c (m_pollfds p ! nat (ch_index (chs c)))"
    and "\<And>i. i < length (m_pollfds p) \<Longrightarrow>
        \<exists>c. pp_channels p (decode_fd (pfd_fd (m_pollfds p ! i))) = Some c \<and> ch_index (chs c) = int i"
  shows "PollPoller_inv (chs, p)"
  using assms by (simp add: PollPoller_inv_def)

lemma decode_fd_simps [simp]: "0 \<le> fd \<Longrightarrow> decode_fd fd = fd" "0 \<le> fd \<Longrightarrow> decode_fd (- fd - 1) = fd"
  by (auto simp: decode_fd_def)

lemma decode_fd_cases: "decode_fd x = fd \<Longrightarrow> 0 \<le> fd \<Longrightarrow> x = fd \<or> x = - fd - 1"
  by (auto simp: decode_fd_def split: if_splits)

lemma PollPoller_inv_channel:
  assumes "PollPoller_inv (chs, p)" and "pp_channels p fd = Some c"
  shows "ch_fd (chs c) = fd" "0 \<le> fd" "0 \<le> ch_index (chs c)" "nat (ch_index (chs c)) < length (m_pollfds p)"
    "pfd_of chs c (m_pollfds p ! nat (ch_index (chs c)))"
  using assms by (auto simp: PollPoller_inv_def)

lemma PollPoller_inv_entry:
  assumes "PollPoller_inv (chs, p)" and "i < length (m_pollfds p)"
  obtains c where "pp_channels p (decode_fd (pfd_fd (m_pollfds p ! i))) = Some c" "ch_index (chs c) = int i"
  using assms by (auto simp: PollPoller_inv_def)

text \<open>Entries stand for different descriptors.\<close>

lemma PollPoller_inv_distinct:
  assumes inv: "PollPoller_inv (chs, p)"
  shows "distinct (map (\<lambda>q. decode_fd (pfd_fd q)) (m_pollfds p))"
proof (simp add: distinct_conv_nth, intro allI impI)
  fix i j assume "i < length (m_pollfds p)" "j < length (m_pollfds p)" "i \<noteq> j"
  obtain c where "pp_channels p (decode_fd (pfd_fd (m_pollfds p ! i))) = Some c" "ch_index (chs c) = int i"
    by (rule PollPoller_inv_entry[OF inv \<open>i < _\<close>])
  moreover obtain d where
    "pp_channels p (decode_fd (pfd_fd (m_pollfds p ! j))) = Some d" "ch_index (chs d) = int j"
    by (rule PollPoller_inv_entry[OF inv \<open>j < _\<close>])
  ultimately show "decode_fd (pfd_fd (m_pollfds p ! i)) \<noteq> decode_fd (pfd_fd (m_pollfds p ! j))"
    using \<open>i \<noteq> j\<close> by auto
qed

lemma find_distinct_nth:
  assumes "distinct (map f xs)" and "i < length xs"
  shows "find (\<lambda>x. f x = f (xs ! i)) xs = Some (xs ! i)"
proof -
  have "j = i" if "j < length xs" "f (xs ! j) = f (xs ! i)" for j
    using assms that by (auto simp: distinct_conv_nth)
  with assms(2) have "i < length xs \<and> f (xs ! i) = f (xs ! i) \<and> xs ! i = xs ! i
      \<and> (\<forall>j<i. f (xs ! j) \<noteq> f (xs ! i))"
    by (metis less_irrefl less_trans)
  then show ?thesis unfolding find_Some_iff by blast
qed

lemma poll_watched_channel:
  assumes inv: "PollPoller_inv (chs, p)" and c: "pp_channels p fd = Some c"
  shows "poll_watched p fd = scast (pfd_events (m_pollfds p ! nat (ch_index (chs c))))"
proof -
  let ?i = "nat (ch_index (chs c))"
  note ch = PollPoller_inv_channel[OF inv c]
  from ch(1,5) have "decode_fd (pfd_fd (m_pollfds p ! ?i)) = fd" by (simp add: pfd_of_def)
  with find_distinct_nth[OF PollPoller_inv_distinct[OF inv] ch(4)]
  have "find (\<lambda>q. decode_fd (pfd_fd q) = fd) (m_pollfds p) = Some (m_pollfds p ! ?i)" by simp
  with ch(5) show ?thesis by (auto simp: poll_watched_def pfd_of_def)
qed

lemma poll_watched_none:
  assumes inv: "PollPoller_inv (chs, p)" and none: "pp_channels p fd = None"
  shows "poll_watched p fd = 0"
proof -
  have "decode_fd (pfd_fd (m_pollfds p ! i)) \<noteq> fd" if "i < length (m_pollfds p)" for i
    using PollPoller_inv_entry[OF inv that] none by (metis option.distinct(1))
  then have "find (\<lambda>q. decode_fd (pfd_fd q) = fd) (m_pollfds p) = None"
    by (auto simp: find_None_iff in_set_conv_nth)
  then show ?thesis by (simp add: poll_watched_def)
qed

text \<open>What is watched, from the entries of the channels alone.\<close>

lemma poll_watched_eq:
  assumes "PollPoller_inv (chs, p)"
  shows "poll_watched p = (\<lambda>fd. case pp_channels p fd of None \<Rightarrow> 0
           | Some c \<Rightarrow> scast (pfd_events (m_pollfds p ! nat (ch_index (chs c)))))"
  using poll_watched_channel[OF assms] poll_watched_none[OF assms] by (auto split: option.splits)

text \<open>An index belongs to one channel.\<close>

lemma PollPoller_inv_index:
  assumes inv: "PollPoller_inv (chs, p)" and "pp_channels p fd = Some c" "pp_channels p fd' = Some d"
    and "nat (ch_index (chs d)) = nat (ch_index (chs c))"
  shows "d = c"
  using PollPoller_inv_channel[OF inv assms(2)] PollPoller_inv_channel[OF inv assms(3)] assms(2-4) by (simp add: pfd_of_def)

text \<open>A state with a new entry for one channel, its old one replaced or a fresh one at the end.\<close>

lemma PollPoller_inv_put:
  assumes inv: "PollPoller_inv (chs, p)" and fd: "ch_fd (chs c) = fd" "0 \<le> fd"
    and at: "pp_channels p fd = Some c \<and> i = nat (ch_index (chs c)) \<and> fds = (m_pollfds p)[i := q]
        \<or> pp_channels p fd = None \<and> i = length (m_pollfds p) \<and> fds = m_pollfds p @ [q]"
    and q: "decode_fd (pfd_fd q) = fd" "pfd_fd q < 0 \<longleftrightarrow> pfd_events q = 0"
  shows "PollPoller_inv (chs(c := (chs c)\<lparr>ch_index := int i\<rparr>),
           p\<lparr>m_pollfds := fds, pp_channels := (pp_channels p)(fd \<mapsto> c)\<rparr>)"
    and "poll_watched (p\<lparr>m_pollfds := fds, pp_channels := (pp_channels p)(fd \<mapsto> c)\<rparr>)
           = (poll_watched p)(fd := scast (pfd_events q))"
proof -
  let ?chs = "chs(c := (chs c)\<lparr>ch_index := int i\<rparr>)"
  let ?p = "p\<lparr>m_pollfds := fds, pp_channels := (pp_channels p)(fd \<mapsto> c)\<rparr>"
  have len: "i < length fds" "fds ! i = q" "length (m_pollfds p) \<le> length fds"
    and keep: "j < length (m_pollfds p) \<Longrightarrow> j \<noteq> i \<Longrightarrow> fds ! j = m_pollfds p ! j"
    and back_in: "j < length fds \<Longrightarrow> j \<noteq> i \<Longrightarrow> j < length (m_pollfds p)" for j
    using at PollPoller_inv_channel(4)[OF inv, of fd c] by (auto simp: nth_append)
  have other: "d \<noteq> c \<and> nat (ch_index (chs d)) \<noteq> i" if "pp_channels p fd' = Some d" "fd' \<noteq> fd" for fd' d
  proof -
    note d = PollPoller_inv_channel[OF inv that(1)]
    from d(1) that(2) fd have "d \<noteq> c" by auto
    with at d(4) PollPoller_inv_index[OF inv _ that(1), of fd c] show ?thesis by auto
  qed
  show inv': "PollPoller_inv (?chs, ?p)"
  proof (rule PollPoller_invI, goal_cases)
    case (1 fd' d)
    show ?case
    proof (cases "fd' = fd")
      case True
      with 1 fd len q show ?thesis by (simp add: pfd_of_def)
    next
      case False
      with 1 have d: "pp_channels p fd' = Some d" by simp
      note ch = PollPoller_inv_channel[OF inv d] and o' = other[OF d False]
      have "nat (ch_index (chs d)) < length fds" using ch(4) len(3) by simp
      with ch o' keep[of "nat (ch_index (chs d))"] show ?thesis by (simp add: pfd_of_def)
    qed
  next
    case (2 j)
    show ?case
    proof (cases "j = i")
      case True
      with len q show ?thesis by simp
    next
      case False
      with back_in[of j] 2 have j: "j < length (m_pollfds p)" by simp
      from inv this obtain d where d: "pp_channels p (decode_fd (pfd_fd (m_pollfds p ! j))) = Some d"
        "ch_index (chs d) = int j" by (rule PollPoller_inv_entry)
      from keep[OF j False] have same: "fds ! j = m_pollfds p ! j" .
      have "d \<noteq> c" using PollPoller_inv_channel(1)[OF inv d(1)] fd d at False by auto
      moreover from this d(1) PollPoller_inv_channel(1)[OF inv d(1)] have
        "decode_fd (pfd_fd (m_pollfds p ! j)) \<noteq> fd"
        using at by auto
      ultimately show ?thesis using d same by auto
    qed
  qed
  show "poll_watched ?p = (poll_watched p)(fd := scast (pfd_events q))"
    unfolding poll_watched_eq[OF inv'] poll_watched_eq[OF inv]
    using other keep len PollPoller_inv_channel(4)[OF inv]
    by (auto simp: fun_eq_iff split: option.splits)
qed

lemmas poll_ops = PollPoller_updateChannel_def PollPoller_removeChannel_def Channel_set_index_def
  Channel_isNoneEvent_def kNoneEvent_def Let_def

lemma only_index_put [simp]: "only_index chs (chs(c := (chs c)\<lparr>ch_index := i\<rparr>))"
  by (simp add: only_index_def)

lemma pollfd_update_order:
  "q\<lparr>pfd_fd := a, pfd_events := b, pfd_revents := r\<rparr> = q\<lparr>pfd_events := b, pfd_revents := r, pfd_fd := a\<rparr>"
  by (simp add: pollfd.equality)

lemma scast_16_32_eq_0: "(scast (w :: 16 word) :: 32 word) = 0 \<longleftrightarrow> w = 0"
proof
  assume "(scast w :: 32 word) = 0"
  then have zero: "\<not> bit (scast w :: 32 word) n" for n by simp
  have "\<not> bit w n" if "n < 16" for n
    using zero[of n] that by (simp add: bit_simps min_absorb2)
  then show "w = 0" by (intro bit_word_eqI) simp
qed simp

lemma poll_upd_law:
  assumes inv: "PollPoller_inv (chs, p)" and tid: "in_loop_thread tid (pp_ownerLoop p)"
    and nonneg: "0 \<le> ch_fd (chs c)" and bits: "interest_mask (ch_events (chs c))"
    and reg: "pp_channels p (ch_fd (chs c)) = Some c \<or>
      pp_channels p (ch_fd (chs c)) = None \<and> ch_index (chs c) = -1 \<and> ch_events (chs c) \<noteq> 0"
  shows "\<exists>chs' p'. PollPoller_updateChannel tid c (chs, p) = Some (chs', p')
    \<and> PollPoller_inv (chs', p') \<and> pp_ownerLoop p' = pp_ownerLoop p
    \<and> pp_channels p' = (pp_channels p)(ch_fd (chs c) \<mapsto> c)
    \<and> poll_watched p' = (poll_watched p)(ch_fd (chs c) := ch_events (chs c))
    \<and> only_index chs chs' \<and> (\<forall>d. d \<noteq> c \<longrightarrow> chs' d = chs d)"
proof -
  let ?fd = "ch_fd (chs c)" and ?ev = "ch_events (chs c)"
  note short = interest_mask_short[OF bits]
  from reg obtain i fds q where
    at: "pp_channels p ?fd = Some c \<and> i = nat (ch_index (chs c)) \<and> fds = (m_pollfds p)[i := q]
       \<or> pp_channels p ?fd = None \<and> i = length (m_pollfds p) \<and> fds = m_pollfds p @ [q]"
    and q: "decode_fd (pfd_fd q) = ?fd" "pfd_fd q < 0 \<longleftrightarrow> pfd_events q = 0" "pfd_events q = scast ?ev"
    and run: "PollPoller_updateChannel tid c (chs, p)
      = Some (chs(c := (chs c)\<lparr>ch_index := int i\<rparr>),
              p\<lparr>m_pollfds := fds, pp_channels := (pp_channels p)(?fd \<mapsto> c)\<rparr>)"
  proof (elim disjE conjE, goal_cases)
    case 1
    let ?i = "nat (ch_index (chs c))"
    let ?q = "(m_pollfds p ! ?i)\<lparr>pfd_events := scast ?ev, pfd_revents := 0, pfd_fd := if ?ev = 0 then - ?fd - 1 else ?fd\<rparr>"
    note ch = PollPoller_inv_channel[OF inv 1(2)]
    have entry: "pfd_fd (m_pollfds p ! ?i) = ?fd \<or> pfd_fd (m_pollfds p ! ?i) = - ?fd - 1"
      using ch(5) nonneg by (intro decode_fd_cases) (simp_all add: pfd_of_def)
    have same: "chs(c := (chs c)\<lparr>ch_index := int ?i\<rparr>) = chs" "(pp_channels p)(?fd \<mapsto> c) = pp_channels p"
      using ch(3) 1(2) by auto
    show ?case
      by (rule 1(1)[of ?i "(m_pollfds p)[?i := ?q]" ?q])
        (use ch same entry nonneg short 1(2) tid in \<open>auto simp: poll_ops pollfd_update_order\<close>)
  next
    case 2
    let ?q = "\<lparr>pfd_fd = ?fd, pfd_events = scast ?ev, pfd_revents = 0\<rparr> :: pollfd"
    show ?case
      by (rule 2(1)[of "length (m_pollfds p)" "m_pollfds p @ [?q]" ?q])
        (use nonneg short 2 tid in \<open>auto simp: poll_ops pollfd_update_order\<close>)
  qed
  from PollPoller_inv_put[OF inv refl nonneg at q(1,2)] run q(3) short(1) show ?thesis by auto
qed

text \<open>Removing an entry moves the last one into its place.\<close>

lemma nth_swap_remove:
  assumes "i < length xs" "j < length xs - 1"
  shows "butlast (xs[i := last xs, length xs - 1 := v]) ! j = (if j = i then last xs else xs ! j)"
  using assms by (auto simp: nth_butlast nth_list_update)

text \<open>The channel \<open>z\<close> of the last entry gets the freed index, unless its own entry is the one removed.\<close>

lemma PollPoller_drop_moved:
  assumes inv: "PollPoller_inv (chs, p)" and c: "pp_channels p fd = Some c"
    and moved: "i = length (m_pollfds p) - 1 \<and> chs' = chs
       \<or> i < length (m_pollfds p) - 1 \<and> pp_channels p (decode_fd (pfd_fd (last (m_pollfds p)))) = Some e
         \<and> chs' = chs(e := (chs e)\<lparr>ch_index := int i\<rparr>)"
  obtains z where "last (m_pollfds p) = m_pollfds p ! (length (m_pollfds p) - 1)"
    "pp_channels p (decode_fd (pfd_fd (m_pollfds p ! (length (m_pollfds p) - 1)))) = Some z"
    "ch_index (chs z) = int (length (m_pollfds p) - 1)" "\<And>d. ch_fd (chs' d) = ch_fd (chs d)"
    "\<And>d. ch_index (chs' d) = (if d = z \<and> i \<noteq> length (m_pollfds p) - 1 then int i else ch_index (chs d))"
proof -
  have ne: "m_pollfds p \<noteq> []" using PollPoller_inv_channel(4)[OF inv c] by auto
  then have last: "last (m_pollfds p) = m_pollfds p ! (length (m_pollfds p) - 1)" and n: "length (m_pollfds p) - 1 < length (m_pollfds p)"
    by (simp_all add: last_conv_nth)
  from inv n obtain z where z: "pp_channels p (decode_fd (pfd_fd (m_pollfds p ! (length (m_pollfds p) - 1)))) = Some z"
    "ch_index (chs z) = int (length (m_pollfds p) - 1)" by (rule PollPoller_inv_entry)
  have "chs' = (if i = length (m_pollfds p) - 1 then chs else chs(z := (chs z)\<lparr>ch_index := int i\<rparr>))"
    using moved z(1) last by auto
  then show thesis by (intro that[of z]) (use last z in auto)
qed

lemma PollPoller_drop_entry:
  assumes inv: "PollPoller_inv (chs, p)" and c: "pp_channels p fd = Some c"
    and i: "i = nat (ch_index (chs c))"
    and len: "length fds = length (m_pollfds p) - 1"
    and nth: "\<And>j. j < length fds \<Longrightarrow> fds ! j = (if j = i then last (m_pollfds p) else m_pollfds p ! j)"
    and moved: "i = length (m_pollfds p) - 1 \<and> chs' = chs
       \<or> i < length (m_pollfds p) - 1 \<and> pp_channels p (decode_fd (pfd_fd (last (m_pollfds p)))) = Some e
         \<and> chs' = chs(e := (chs e)\<lparr>ch_index := int i\<rparr>)"
    and d: "pp_channels p fd' = Some d" "fd' \<noteq> fd"
  shows "0 \<le> ch_index (chs' d) \<and> nat (ch_index (chs' d)) < length fds
    \<and> fds ! nat (ch_index (chs' d)) = m_pollfds p ! nat (ch_index (chs d))"
proof -
  let ?n = "length (m_pollfds p) - 1"
  note ch = PollPoller_inv_channel[OF inv c] and chd = PollPoller_inv_channel[OF inv d(1)]
  from inv c moved obtain z where z: "last (m_pollfds p) = m_pollfds p ! ?n" "pp_channels p (decode_fd (pfd_fd (m_pollfds p ! ?n))) = Some z"
    "ch_index (chs z) = int ?n" and idx: "\<And>d. ch_index (chs' d) = (if d = z \<and> i \<noteq> ?n then int i else ch_index (chs d))"
    by (rule PollPoller_drop_moved) blast
  from chd(1) ch(1) d(2) have "d \<noteq> c" by auto
  then have ni: "nat (ch_index (chs d)) \<noteq> i" using PollPoller_inv_index[OF inv c d(1)] i by auto
  show ?thesis
  proof (cases "d = z")
    case True
    with ni z(3) have "i \<noteq> ?n" by auto
    then have "i < length fds" using ch(4) i len by simp
    moreover from this nth[of i] z(1) have "fds ! i = m_pollfds p ! ?n" by simp
    ultimately show ?thesis using True \<open>i \<noteq> ?n\<close> z(3) by (simp add: idx)
  next
    case False
    then have "nat (ch_index (chs d)) \<noteq> ?n" using PollPoller_inv_index[OF inv z(2) d(1)] z(3) by auto
    then have "nat (ch_index (chs d)) < ?n" using chd(4) by linarith
    with False chd(3) ni nth[of "nat (ch_index (chs d))"] len show ?thesis by (simp add: idx)
  qed
qed

lemma PollPoller_inv_drop:
  assumes inv: "PollPoller_inv (chs, p)" and c: "pp_channels p fd = Some c"
    and i: "i = nat (ch_index (chs c))"
    and len: "length fds = length (m_pollfds p) - 1"
    and nth: "\<And>j. j < length fds \<Longrightarrow> fds ! j = (if j = i then last (m_pollfds p) else m_pollfds p ! j)"
    and moved: "i = length (m_pollfds p) - 1 \<and> chs' = chs
       \<or> i < length (m_pollfds p) - 1 \<and> pp_channels p (decode_fd (pfd_fd (last (m_pollfds p)))) = Some e
         \<and> chs' = chs(e := (chs e)\<lparr>ch_index := int i\<rparr>)"
  shows "PollPoller_inv (chs', p\<lparr>pp_channels := (pp_channels p)(fd := None), m_pollfds := fds\<rparr>)"
proof (rule PollPoller_invI, goal_cases)
  let ?n = "length (m_pollfds p) - 1"
  from inv c moved obtain z where z: "last (m_pollfds p) = m_pollfds p ! ?n" "pp_channels p (decode_fd (pfd_fd (m_pollfds p ! ?n))) = Some z"
    "ch_index (chs z) = int ?n" and chfd: "\<And>d. ch_fd (chs' d) = ch_fd (chs d)"
    and idx: "\<And>d. ch_index (chs' d) = (if d = z \<and> i \<noteq> ?n then int i else ch_index (chs d))"
    by (rule PollPoller_drop_moved) blast
  {
    case (1 fd' d)
    then have d: "pp_channels p fd' = Some d" "fd' \<noteq> fd" by (auto split: if_splits)
    with PollPoller_drop_entry[OF assms d] PollPoller_inv_channel[OF inv d(1)] show ?case by (simp add: chfd pfd_of_def)
  next
    case (2 j)
    then have j: "j < ?n" using len by simp
    show ?case
    proof (cases "j = i")
      case True
      with j have "i \<noteq> ?n" by simp
      moreover have "decode_fd (pfd_fd (m_pollfds p ! ?n)) \<noteq> fd"
        using z c \<open>i \<noteq> ?n\<close> i by auto
      ultimately show ?thesis using True 2 nth[of j] z by (auto simp: idx)
    next
      case False
      have "j < length (m_pollfds p)" using j by simp
      from inv this obtain d where d: "pp_channels p (decode_fd (pfd_fd (m_pollfds p ! j))) = Some d"
        "ch_index (chs d) = int j" by (rule PollPoller_inv_entry)
      have "d \<noteq> c" using d(2) False i by auto
      then have "decode_fd (pfd_fd (m_pollfds p ! j)) \<noteq> fd" using d(1) c by auto
      moreover have "d \<noteq> z" using d(2) z(3) j by auto
      ultimately show ?thesis using d 2 False nth[of j] by (auto simp: idx)
    qed
  }
qed

lemma poll_rem_law:
  assumes inv: "PollPoller_inv (chs, p)" and tid: "in_loop_thread tid (pp_ownerLoop p)"
    and reg: "pp_channels p (ch_fd (chs c)) = Some c" and none: "ch_events (chs c) = 0"
    and unwatched: "poll_watched p (ch_fd (chs c)) = 0"
  shows "\<exists>chs' p'. PollPoller_removeChannel tid c (chs, p) = Some (chs', p')
    \<and> PollPoller_inv (chs', p') \<and> pp_ownerLoop p' = pp_ownerLoop p
    \<and> pp_channels p' = (pp_channels p)(ch_fd (chs c) := None) \<and> poll_watched p' = poll_watched p
    \<and> only_index chs chs' \<and> (\<forall>d. d \<noteq> c \<longrightarrow> d \<notin> ran (pp_channels p) \<longrightarrow> chs' d = chs d)"
proof -
  let ?fd = "ch_fd (chs c)" and ?i = "nat (ch_index (chs c))"
  let ?q = "m_pollfds p ! ?i" and ?n = "length (m_pollfds p) - 1"
  note ch = PollPoller_inv_channel[OF inv reg]
  have parked: "pfd_events ?q = 0" "pfd_fd ?q = - ?fd - 1"
    using ch(2,5) unwatched poll_watched_channel[OF inv reg] decode_fd_cases[of "pfd_fd ?q" ?fd]
    by (auto simp: scast_16_32_eq_0 pfd_of_def)
  obtain chs' fds e where run: "PollPoller_removeChannel tid c (chs, p)
        = Some (chs', p\<lparr>pp_channels := (pp_channels p)(?fd := None), m_pollfds := fds\<rparr>)"
    and len: "length fds = ?n"
    and nth: "\<And>j. j < length fds \<Longrightarrow> fds ! j = (if j = ?i then last (m_pollfds p) else m_pollfds p ! j)"
    and moved: "?i = ?n \<and> chs' = chs
       \<or> ?i < ?n \<and> pp_channels p (decode_fd (pfd_fd (last (m_pollfds p)))) = Some e
         \<and> chs' = chs(e := (chs e)\<lparr>ch_index := int ?i\<rparr>)"
  proof (cases "?i = ?n")
    case True
    show ?thesis
      by (rule that[of chs "butlast (m_pollfds p)" 0])
        (use True ch parked tid reg none in \<open>auto simp: poll_ops nth_butlast\<close>)
  next
    case False
    then have i: "?i < ?n" and ne: "m_pollfds p \<noteq> []" using ch(4) by auto
    have "?n < length (m_pollfds p)" using ne by simp
    from inv this obtain e where e: "pp_channels p (decode_fd (pfd_fd (m_pollfds p ! ?n))) = Some e"
      "ch_index (chs e) = int ?n" by (rule PollPoller_inv_entry)
    have at_end: "pp_channels p (decode_fd (pfd_fd (last (m_pollfds p)))) = Some e"
      using e ne by (simp add: last_conv_nth)
    have "decode_fd (pfd_fd (last (m_pollfds p))) \<noteq> ?fd" using at_end reg e(2) i by auto
    with at_end have "((pp_channels p)(?fd := None)) (decode_fd (pfd_fd (last (m_pollfds p)))) = Some e" by simp
    then have run: "PollPoller_removeChannel tid c (chs, p) = Some (chs(e := (chs e)\<lparr>ch_index := int ?i\<rparr>),
        p\<lparr>pp_channels := (pp_channels p)(?fd := None),
          m_pollfds := butlast ((m_pollfds p)[?i := last (m_pollfds p), ?n := ?q])\<rparr>)"
      using ch parked tid reg none False by (simp add: poll_ops decode_fd_def)
    show ?thesis
      by (rule that[OF run, of e]) (use nth_swap_remove[OF ch(4)] i at_end in auto)
  qed
  let ?p = "p\<lparr>pp_channels := (pp_channels p)(?fd := None), m_pollfds := fds\<rparr>"
  note inv' = PollPoller_inv_drop[OF inv reg refl len nth moved]
  have "poll_watched ?p fd = poll_watched p fd" for fd
    using unwatched PollPoller_drop_entry[OF inv reg refl len nth moved, of fd]
    by (cases "pp_channels p fd") (auto simp: poll_watched_eq[OF inv'] poll_watched_eq[OF inv])
  then have "poll_watched ?p = poll_watched p" ..
  moreover have "only_index chs chs'" "\<forall>d. d \<notin> ran (pp_channels p) \<longrightarrow> chs' d = chs d"
    using moved by (auto simp: ran_def)
  ultimately show ?thesis using run inv' by auto
qed

interpretation poll: poller_contract PollPoller_updateChannel PollPoller_removeChannel
  PollPoller_inv pp_ownerLoop pp_channels poll_watched
proof
  fix chs chs' :: "'a chans" and p
  assume inv: "PollPoller_inv (chs, p)" and "same_place chs chs'"
  then have eq: "ch_fd (chs' c) = ch_fd (chs c)" "ch_index (chs' c) = ch_index (chs c)" for c
    by (auto simp: same_place_def)
  from inv show "PollPoller_inv (chs', p)"
    by (simp add: PollPoller_inv_def pfd_of_def eq)
next
  fix chs :: "'a chans" and p c ch
  assume inv: "PollPoller_inv (chs, p)" and c: "c \<notin> ran (pp_channels p)"
  show "PollPoller_inv (chs(c := ch), p)"
  proof (rule PollPoller_invI, goal_cases)
    case (1 fd d)
    then have "d \<noteq> c" using c by (auto simp: ran_def)
    with PollPoller_inv_channel[OF inv 1] show ?case by (simp add: pfd_of_def)
  next
    case (2 i)
    obtain d where d: "pp_channels p (decode_fd (pfd_fd (m_pollfds p ! i))) = Some d" "ch_index (chs d) = int i"
      by (rule PollPoller_inv_entry[OF inv 2])
    then have "d \<noteq> c" using c by (auto simp: ran_def)
    with d show ?case by auto
  qed
next
  fix chs :: "'a chans" and p fd c
  assume "PollPoller_inv (chs, p)" "pp_channels p fd = Some c"
  then show "ch_fd (chs c) = fd" by (rule PollPoller_inv_channel)
qed (rule poll_upd_law poll_rem_law; assumption)+

subsection \<open>The default poller\<close>

text \<open>\<open>newDefaultPoller\<close>: \<open>poll\<close> when the environment has \<open>DC_USE_POLL\<close>, \<open>epoll\<close> otherwise; the
  virtual calls through a \<open>Poller*\<close> reach the implementation that was chosen.\<close>

datatype any_poller = Is_poll poll_poller | Is_epoll epoll_poller

definition Poller_newDefaultPoller :: "bool \<Rightarrow> int \<Rightarrow> loop_ref \<Rightarrow> any_poller outcome" where
  "Poller_newDefaultPoller use_poll epollfd loop =
     (if use_poll then Some (Is_poll (PollPoller_new loop))
      else map_option Is_epoll (EpollPoller_new epollfd loop))"

text \<open>\<open>epoll_ctl\<close> does what it is asked: its failures are in \<open>EpollPoller_update\<close>, for any answer.\<close>

definition Poller_updateChannel :: "int \<Rightarrow> nat \<Rightarrow> 'cb chans \<times> any_poller \<Rightarrow> ('cb chans \<times> any_poller) outcome" where
  "Poller_updateChannel tid c s = (case s of
     (chs, Is_poll p) \<Rightarrow> map_option (map_prod id Is_poll) (PollPoller_updateChannel tid c (chs, p))
   | (chs, Is_epoll p) \<Rightarrow> map_option (map_prod id Is_epoll) (EpollPoller_updateChannel no_sysfail tid c (chs, p)))"

definition Poller_removeChannel :: "int \<Rightarrow> nat \<Rightarrow> 'cb chans \<times> any_poller \<Rightarrow> ('cb chans \<times> any_poller) outcome" where
  "Poller_removeChannel tid c s = (case s of
     (chs, Is_poll p) \<Rightarrow> map_option (map_prod id Is_poll) (PollPoller_removeChannel tid c (chs, p))
   | (chs, Is_epoll p) \<Rightarrow> map_option (map_prod id Is_epoll) (EpollPoller_removeChannel no_sysfail tid c (chs, p)))"

definition Poller_ownerLoop :: "any_poller \<Rightarrow> loop_ref" where
  "Poller_ownerLoop p = (case p of Is_poll q \<Rightarrow> pp_ownerLoop q | Is_epoll q \<Rightarrow> ep_ownerLoop q)"

definition Poller_channels :: "any_poller \<Rightarrow> int \<rightharpoonup> nat" where
  "Poller_channels p = (case p of Is_poll q \<Rightarrow> pp_channels q | Is_epoll q \<Rightarrow> ep_channels q)"

definition Poller_watched :: "any_poller \<Rightarrow> int \<Rightarrow> 32 word" where
  "Poller_watched p = (case p of Is_poll q \<Rightarrow> poll_watched q | Is_epoll q \<Rightarrow> epoll_watched q)"

definition Poller_inv :: "'cb chans \<times> any_poller \<Rightarrow> bool" where
  "Poller_inv s = (case s of (chs, Is_poll p) \<Rightarrow> PollPoller_inv (chs, p)
     | (chs, Is_epoll p) \<Rightarrow> EpollPoller_inv (chs, p))"

lemmas any_poller_defs = Poller_updateChannel_def Poller_removeChannel_def Poller_ownerLoop_def
  Poller_channels_def Poller_watched_def Poller_inv_def

lemma any_upd_law:
  assumes "Poller_inv (chs, p)" and "in_loop_thread tid (Poller_ownerLoop p)"
    and "0 \<le> ch_fd (chs c)" and "interest_mask (ch_events (chs c))"
    and "Poller_channels p (ch_fd (chs c)) = Some c \<or>
      Poller_channels p (ch_fd (chs c)) = None \<and> ch_index (chs c) = -1 \<and> ch_events (chs c) \<noteq> 0"
  shows "\<exists>chs' p'. Poller_updateChannel tid c (chs, p) = Some (chs', p')
    \<and> Poller_inv (chs', p') \<and> Poller_ownerLoop p' = Poller_ownerLoop p
    \<and> Poller_channels p' = (Poller_channels p)(ch_fd (chs c) \<mapsto> c)
    \<and> Poller_watched p' = (Poller_watched p)(ch_fd (chs c) := ch_events (chs c))
    \<and> only_index chs chs' \<and> (\<forall>d. d \<noteq> c \<longrightarrow> chs' d = chs d)"
proof (cases p)
  case (Is_poll q)
  with assms poll_upd_law[of chs q tid c] obtain chs' q' where
    "PollPoller_updateChannel tid c (chs, q) = Some (chs', q')" "PollPoller_inv (chs', q')"
    "pp_ownerLoop q' = pp_ownerLoop q" "pp_channels q' = (pp_channels q)(ch_fd (chs c) \<mapsto> c)"
    "poll_watched q' = (poll_watched q)(ch_fd (chs c) := ch_events (chs c))"
    "only_index chs chs'" "\<forall>d. d \<noteq> c \<longrightarrow> chs' d = chs d"
    by (auto simp: any_poller_defs)
  then show ?thesis using Is_poll by (intro exI[of _ chs'] exI[of _ "Is_poll q'"]) (simp add: any_poller_defs)
next
  case (Is_epoll q)
  with assms epoll_upd_law[of chs q tid c] obtain chs' q' where
    "EpollPoller_updateChannel no_sysfail tid c (chs, q) = Some (chs', q')" "EpollPoller_inv (chs', q')"
    "ep_ownerLoop q' = ep_ownerLoop q" "ep_channels q' = (ep_channels q)(ch_fd (chs c) \<mapsto> c)"
    "epoll_watched q' = (epoll_watched q)(ch_fd (chs c) := ch_events (chs c))"
    "only_index chs chs'" "\<forall>d. d \<noteq> c \<longrightarrow> chs' d = chs d"
    by (auto simp: any_poller_defs)
  then show ?thesis using Is_epoll by (intro exI[of _ chs'] exI[of _ "Is_epoll q'"]) (simp add: any_poller_defs)
qed

lemma any_rem_law:
  assumes "Poller_inv (chs, p)" and "in_loop_thread tid (Poller_ownerLoop p)"
    and "Poller_channels p (ch_fd (chs c)) = Some c" and "ch_events (chs c) = 0"
    and "Poller_watched p (ch_fd (chs c)) = 0"
  shows "\<exists>chs' p'. Poller_removeChannel tid c (chs, p) = Some (chs', p')
    \<and> Poller_inv (chs', p') \<and> Poller_ownerLoop p' = Poller_ownerLoop p
    \<and> Poller_channels p' = (Poller_channels p)(ch_fd (chs c) := None) \<and> Poller_watched p' = Poller_watched p
    \<and> only_index chs chs' \<and> (\<forall>d. d \<noteq> c \<longrightarrow> d \<notin> ran (Poller_channels p) \<longrightarrow> chs' d = chs d)"
proof (cases p)
  case (Is_poll q)
  with assms poll_rem_law[of chs q tid c] obtain chs' q' where
    "PollPoller_removeChannel tid c (chs, q) = Some (chs', q')" "PollPoller_inv (chs', q')"
    "pp_ownerLoop q' = pp_ownerLoop q" "pp_channels q' = (pp_channels q)(ch_fd (chs c) := None)"
    "poll_watched q' = poll_watched q" "only_index chs chs'"
    "\<forall>d. d \<noteq> c \<longrightarrow> d \<notin> ran (pp_channels q) \<longrightarrow> chs' d = chs d"
    by (auto simp: any_poller_defs)
  then show ?thesis using Is_poll by (intro exI[of _ chs'] exI[of _ "Is_poll q'"]) (simp add: any_poller_defs)
next
  case (Is_epoll q)
  with assms epoll_rem_law[of chs q tid c] obtain chs' q' where
    "EpollPoller_removeChannel no_sysfail tid c (chs, q) = Some (chs', q')" "EpollPoller_inv (chs', q')"
    "ep_ownerLoop q' = ep_ownerLoop q" "ep_channels q' = (ep_channels q)(ch_fd (chs c) := None)"
    "epoll_watched q' = epoll_watched q" "only_index chs chs'"
    "\<forall>d. d \<noteq> c \<longrightarrow> d \<notin> ran (ep_channels q) \<longrightarrow> chs' d = chs d"
    by (auto simp: any_poller_defs)
  then show ?thesis using Is_epoll by (intro exI[of _ chs'] exI[of _ "Is_epoll q'"]) (simp add: any_poller_defs)
qed

interpretation any_p: poller_contract Poller_updateChannel Poller_removeChannel
  Poller_inv Poller_ownerLoop Poller_channels Poller_watched
proof
  fix chs chs' :: "'a chans" and p
  assume "Poller_inv (chs, p)" "same_place chs chs'"
  then show "Poller_inv (chs', p)"
    using poll.inv_place epoll.inv_place by (cases p) (auto simp: Poller_inv_def)
next
  fix chs :: "'a chans" and p c ch
  assume "Poller_inv (chs, p)" "c \<notin> ran (Poller_channels p)"
  then show "Poller_inv (chs(c := ch), p)"
    using poll.inv_untracked epoll.inv_untracked
    by (cases p) (fastforce simp: Poller_inv_def Poller_channels_def)+
next
  fix chs :: "'a chans" and p fd c
  assume "Poller_inv (chs, p)" "Poller_channels p fd = Some c"
  then show "ch_fd (chs c) = fd"
    using poll.tracked_fd epoll.tracked_fd
    by (cases p) (fastforce simp: Poller_inv_def Poller_channels_def)+
qed (rule any_upd_law any_rem_law; assumption)+

subsection \<open>\<open>poll\<close> activates the ready channels\<close>

lemma PollPoller_fill_zero [simp]: "PollPoller_fillActiveChannels m_channels fds 0 s = Some s"
  by (cases fds; cases s) auto

lemma PollPoller_poll_run:
  assumes "sys_poll r (m_pollfds p) = (n, fds)"
    and "PollPoller_fillActiveChannels (pp_channels p) fds n (chs, active) = Some (chs', active')"
  shows "PollPoller_poll (Some r) now active (chs, p) = Some (now, active', chs', p\<lparr>m_pollfds := fds\<rparr>)"
  using assms by (cases n) (auto simp: PollPoller_poll_def)

lemma PollPoller_fill_exact:
  assumes "numEvents = length (filter (\<lambda>q. pfd_revents q \<noteq> 0) fds)"
    and "\<And>q. q \<in> set fds \<Longrightarrow> 0 \<le> sint (pfd_revents q)"
    and "\<And>q. q \<in> set fds \<Longrightarrow> pfd_revents q \<noteq> 0 \<Longrightarrow>
           \<exists>c. m_channels (pfd_fd q) = Some c \<and> ch_fd (chs c) = pfd_fd q"
  shows "\<exists>chs'. PollPoller_fillActiveChannels m_channels fds numEvents (chs, active)
      = Some (chs', active @ map (\<lambda>q. the (m_channels (pfd_fd q))) (filter (\<lambda>q. pfd_revents q \<noteq> 0) fds))
    \<and> (\<forall>c. chs' c = (chs c)\<lparr>ch_revents := ch_revents (chs' c)\<rparr>)
    \<and> (distinct (map pfd_fd (filter (\<lambda>q. pfd_revents q \<noteq> 0) fds)) \<longrightarrow>
         (\<forall>q \<in> set fds. pfd_revents q \<noteq> 0 \<longrightarrow>
            ch_revents (chs' (the (m_channels (pfd_fd q)))) = scast (pfd_revents q)))
    \<and> (\<forall>c. (\<forall>q \<in> set fds. pfd_revents q \<noteq> 0 \<longrightarrow> m_channels (pfd_fd q) \<noteq> Some c) \<longrightarrow> chs' c = chs c)"
  using assms
proof (induction fds arbitrary: numEvents chs active)
  case Nil
  then show ?case by simp
next
  case (Cons q fds)
  show ?case
  proof (cases "pfd_revents q = 0")
    case True
    then have "PollPoller_fillActiveChannels m_channels (q # fds) numEvents (chs, active)
        = PollPoller_fillActiveChannels m_channels fds numEvents (chs, active)"
      by (cases numEvents) auto
    with True Cons.prems Cons.IH[of numEvents chs active] show ?thesis by simp
  next
    case False
    with Cons.prems(2)[of q] have pos: "0 < sint (pfd_revents q)"
      by (auto simp: order_less_le signed_eq_0_iff)
    from Cons.prems(3)[of q] False obtain c where c: "m_channels (pfd_fd q) = Some c" "ch_fd (chs c) = pfd_fd q"
      by auto
    let ?chs = "chs(c := Channel_set_revents (scast (pfd_revents q)) (chs c))"
    have "\<exists>c'. m_channels (pfd_fd r) = Some c' \<and> ch_fd (?chs c') = pfd_fd r"
      if "r \<in> set fds" "pfd_revents r \<noteq> 0" for r
      using Cons.prems(3)[of r] that by (auto simp: Channel_set_revents_def)
    note sub = this
    have n1: "numEvents - 1 = length (filter (\<lambda>q. pfd_revents q \<noteq> 0) fds)"
      using Cons.prems(1) False by simp
    have p2: "0 \<le> sint (pfd_revents r)" if "r \<in> set fds" for r using Cons.prems(2) that by simp
    obtain chs' where IH: "PollPoller_fillActiveChannels m_channels fds (numEvents - 1) (?chs, active @ [c])
        = Some (chs', (active @ [c]) @ map (\<lambda>q. the (m_channels (pfd_fd q))) (filter (\<lambda>q. pfd_revents q \<noteq> 0) fds))"
      "\<forall>d. chs' d = (?chs d)\<lparr>ch_revents := ch_revents (chs' d)\<rparr>"
      "distinct (map pfd_fd (filter (\<lambda>q. pfd_revents q \<noteq> 0) fds)) \<longrightarrow> (\<forall>r \<in> set fds. pfd_revents r \<noteq> 0 \<longrightarrow>
            ch_revents (chs' (the (m_channels (pfd_fd r)))) = scast (pfd_revents r))"
      "\<forall>d. (\<forall>r \<in> set fds. pfd_revents r \<noteq> 0 \<longrightarrow> m_channels (pfd_fd r) \<noteq> Some d) \<longrightarrow> chs' d = ?chs d"
      by (rule exE[OF Cons.IH[where chs = ?chs and active = "active @ [c]" and numEvents = "numEvents - 1"]],
          rule n1, erule p2, erule (1) sub, elim conjE, rule that)
    have own: "ch_revents (chs' c) = scast (pfd_revents q)"
      if "distinct (map pfd_fd (filter (\<lambda>q. pfd_revents q \<noteq> 0) (q # fds)))"
    proof -
      have "m_channels (pfd_fd r) \<noteq> Some c" if "r \<in> set fds" "pfd_revents r \<noteq> 0" for r
        using that Cons.prems(3)[of r] c \<open>distinct _\<close> False by (auto simp: image_iff)
      with IH(4) have "chs' c = ?chs c" by blast
      then show ?thesis by (simp add: Channel_set_revents_def)
    qed
    show ?thesis
    proof (intro exI[of _ chs'] conjI allI impI ballI, goal_cases)
      case 1
      then show ?case using IH(1) False c pos Cons.prems(1) by simp
    next
      case (2 d)
      then show ?case using IH(2)[rule_format, of d] by (cases "d = c") (auto simp: Channel_set_revents_def)
    next
      case (3 r)
      then show ?case using own IH(3) c False by auto
    next
      case (4 d)
      then have "d \<noteq> c" using c False by auto
      then show ?case using IH(4)[rule_format, of d] 4 by auto
    qed
  qed
qed

subsection \<open>Properties\<close>


text \<open>Every entry stands for a registered channel.\<close>

lemma PollPoller_inv_member:
  assumes inv: "PollPoller_inv (chs, p)" and q: "q \<in> set (m_pollfds p)"
  shows "\<exists>c. pp_channels p (decode_fd (pfd_fd q)) = Some c \<and> ch_fd (chs c) = decode_fd (pfd_fd q)"
proof -
  from q obtain i where i: "i < length (m_pollfds p)" "m_pollfds p ! i = q" by (auto simp: in_set_conv_nth)
  obtain c where "pp_channels p (decode_fd (pfd_fd (m_pollfds p ! i))) = Some c"
    by (rule PollPoller_inv_entry[OF inv i(1)])
  with PollPoller_inv_channel(1)[OF inv this] i(2) show ?thesis by auto
qed

text \<open>What \<open>poll\<close> stores into an entry, and the entries with events.\<close>

definition polled :: "(int \<Rightarrow> 16 word \<Rightarrow> 16 word) \<Rightarrow> pollfd \<Rightarrow> pollfd" where
  "polled ready q = q\<lparr>pfd_revents := if pfd_fd q < 0 then 0 else ready (pfd_fd q) (pfd_events q)\<rparr>"

lemma polled_hits:
  "filter (\<lambda>q. pfd_revents q \<noteq> 0) (map (polled ready) fds)
     = map (polled ready) (filter (\<lambda>q. 0 \<le> pfd_fd q \<and> ready (pfd_fd q) (pfd_events q) \<noteq> 0) fds)"
  by (induction fds) (auto simp: polled_def)

lemma polled_inv: "PollPoller_inv (chs, p) \<Longrightarrow> PollPoller_inv (chs, p\<lparr>m_pollfds := map (polled ready) (m_pollfds p)\<rparr>)"
  by (simp add: PollPoller_inv_def pfd_of_def polled_def)

lemma sys_poll_polled:
  "sys_poll ready fds = (length (filter (\<lambda>q. pfd_revents q \<noteq> 0) (map (polled ready) fds)), map (polled ready) fds)"
  unfolding polled_def by (simp only: sys_poll_def Let_def)


definition demo_chans :: "nat chans" where
  "demo_chans c = Channel_new \<lparr>loop_addr = 1, loop_threadId = 7\<rparr> (int c + 3)"



lemma distinct_map_finer:
  assumes "distinct (map f xs)" and finer: "\<And>x y. g x = g y \<Longrightarrow> f x = f y"
  shows "distinct (map g xs)"
proof -
  from assms(1) have "distinct xs" and inj: "inj_on f (set xs)" by (simp_all add: distinct_map)
  have "inj_on g (set xs)" by (rule inj_onI) (rule inj_onD[OF inj finer])
  with \<open>distinct xs\<close> show ?thesis by (simp add: distinct_map)
qed

text \<open>C31: \<open>PollPoller::poll\<close> activates exactly the ready channels. In a consistent state, for any
  readiness of the descriptors (as non-negative \<open>short\<close> masks), it returns without a failing
  assertion; the channels appended to \<open>activeChannels\<close> are those of the entries that are not parked
  and have events, in the order of the entries, each gets the reported \<open>revents\<close>, and the state
  stays consistent.\<close>

theorem PollPoller_poll_exact:
  assumes inv: "PollPoller_inv (chs, p)" and nonneg: "\<And>fd ev. 0 \<le> sint (ready fd ev)"
  shows "\<exists>chs' p' hits. PollPoller_poll (Some ready) now active (chs, p)
            = Some (now, active @ map (\<lambda>q. the (pp_channels p (pfd_fd q))) hits, chs', p')
    \<and> hits = filter (\<lambda>q. 0 \<le> pfd_fd q \<and> ready (pfd_fd q) (pfd_events q) \<noteq> 0) (m_pollfds p)
    \<and> (\<forall>q \<in> set hits. ch_revents (chs' (the (pp_channels p (pfd_fd q)))) = scast (ready (pfd_fd q) (pfd_events q)))
    \<and> PollPoller_inv (chs', p')"
proof -
  let ?fds = "map (polled ready) (m_pollfds p)" and ?chan = "\<lambda>q. the (pp_channels p (pfd_fd q))"
  let ?hits = "filter (\<lambda>q. 0 \<le> pfd_fd q \<and> ready (pfd_fd q) (pfd_events q) \<noteq> 0) (m_pollfds p)"
  have "distinct (map pfd_fd ?fds)"
    by (rule distinct_map_finer[where f = "\<lambda>q. decode_fd (pfd_fd q)"])
      (use PollPoller_inv_distinct[OF inv] in \<open>simp_all add: o_def polled_def\<close>)
  then have dist: "distinct (map pfd_fd (filter (\<lambda>q. pfd_revents q \<noteq> 0) ?fds))"
    by (rule distinct_map_filter)
  have found: "\<exists>c. pp_channels p (pfd_fd q) = Some c \<and> ch_fd (chs c) = pfd_fd q"
    if q: "q \<in> set ?fds" "pfd_revents q \<noteq> 0" for q
  proof -
    from q obtain r where "r \<in> set (m_pollfds p)" "q = polled ready r" by auto
    with PollPoller_inv_member[OF inv, of r] q(2) show ?thesis by (auto simp: polled_def decode_fd_def split: if_splits)
  qed
  have sgn: "0 \<le> sint (pfd_revents q)" if "q \<in> set ?fds" for q
    using that nonneg by (auto simp: polled_def)
  obtain chs' where
    fill: "PollPoller_fillActiveChannels (pp_channels p) ?fds (length (filter (\<lambda>q. pfd_revents q \<noteq> 0) ?fds)) (chs, active)
      = Some (chs', active @ map ?chan (filter (\<lambda>q. pfd_revents q \<noteq> 0) ?fds))"
    and keep: "\<And>c. chs' c = (chs c)\<lparr>ch_revents := ch_revents (chs' c)\<rparr>"
    and rev: "\<And>q. q \<in> set ?fds \<Longrightarrow> pfd_revents q \<noteq> 0 \<Longrightarrow> ch_revents (chs' (?chan q)) = scast (pfd_revents q)"
    by (rule exE[OF PollPoller_fill_exact[where chs = chs and active = active and fds = ?fds
            and m_channels = "pp_channels p"]], rule refl, erule sgn, erule (1) found)
      (use dist that in blast)
  have fields: "ch_fd (chs' c) = ch_fd (chs c)" "ch_index (chs' c) = ch_index (chs c)" "ch_loop (chs' c) = ch_loop (chs c)" for c
    by (subst keep, simp)+
  have inv': "PollPoller_inv (chs', p\<lparr>m_pollfds := ?fds\<rparr>)"
    using polled_inv[OF inv] by (rule poll.inv_place) (simp add: same_place_def fields)
  have "map ?chan (filter (\<lambda>q. pfd_revents q \<noteq> 0) ?fds) = map ?chan ?hits" unfolding polled_hits by (simp add: polled_def)
  with PollPoller_poll_run[OF sys_poll_polled fill, of now]
  have run: "PollPoller_poll (Some ready) now active (chs, p) = Some (now, active @ map ?chan ?hits, chs', p\<lparr>m_pollfds := ?fds\<rparr>)" by simp
  have "ch_revents (chs' (?chan q)) = scast (ready (pfd_fd q) (pfd_events q))" if q: "q \<in> set ?hits" for q
  proof -
    from q have "polled ready q \<in> set ?fds" unfolding set_map by (intro imageI) simp
    from rev[OF this] q show ?thesis by (auto simp: polled_def)
  qed
  with run inv' show ?thesis by blast
qed

definition demo_poll :: "nat chans \<times> poll_poller" where
  "demo_poll = (\<lambda>c. (demo_chans c)\<lparr>ch_index := int c\<rparr>,
     \<lparr>pp_ownerLoop = \<lparr>loop_addr = 1, loop_threadId = 7\<rparr>, pp_channels = [3 \<mapsto> 0, 4 \<mapsto> 1],
      m_pollfds = [\<lparr>pfd_fd = 3, pfd_events = 3, pfd_revents = 0\<rparr>, \<lparr>pfd_fd = -5, pfd_events = 0, pfd_revents = 0\<rparr>]\<rparr>)"

theorem PollPoller_poll_exact_witness:
  "\<exists>chs' p'. PollPoller_poll (Some (\<lambda>fd ev. 1)) (Timestamp 0) [] demo_poll
      = Some (Timestamp 0, [0], chs', p') \<and> ch_revents (chs' 0) = 1 \<and> PollPoller_inv (chs', p')"
proof -
  have inv: "PollPoller_inv demo_poll"
    by (auto simp: demo_poll_def demo_chans_def Channel_new_def PollPoller_inv_def pfd_of_def
        decode_fd_def less_Suc_eq split: if_splits)
  from PollPoller_poll_exact[of "fst demo_poll" "snd demo_poll" "\<lambda>fd ev. 1" "Timestamp 0" "[]"] inv
  show ?thesis by (auto simp: demo_poll_def)
qed

end
