(* ===== verification/EventLoop.thy ===== *)
theory EventLoop
  imports Pollers
begin

text \<open>
  \<open>dc::net::EventLoop\<close> (\<open>net/eventLoop.h\<close>, \<open>net/eventLoop.cc\<close>) and the operations of \<open>Channel\<close>
  that go through it. The state of a loop has the store of channels and its poller; the counter of
  the \<open>eventfd\<close> behind \<open>m_wakeupFd\<close> is part of it. A functor or callback is a value of type
  \<open>'cb\<close>; the argument \<open>run\<close> says what calling it does to the loop (with the receive time for a
  read callback), and it may abort. The record is extensible, so that owners of channels can add
  their own state.

  The loop among other threads is in \<open>EventLoopProps\<close>: a step relation in which other threads queue
  functors and quit (the store and the wake-up are two steps) while the loop thread enters \<open>loop()\<close>,
  tests \<open>is_quit\<close>, polls, handles events and calls pending functors.
\<close>

subsection \<open>State\<close>

record 'cb reactor =
  r_loop :: loop_ref
  is_looping :: bool
  is_quit :: bool
  el_eventHandling :: bool
  is_callingPendingFunctors :: bool
  m_iteration :: int
  m_pollReturnTime :: timestamp
  m_poller :: any_poller
  r_chans :: "'cb chans"
  m_wakeupFd :: int
  m_wakeupChannel :: nat
  m_activeChannels :: "nat list"
  m_currentActiveChannel :: "nat option"
  m_pendingFunctors :: "'cb list"
  wakeup_count :: nat

definition chan_upd :: "nat \<Rightarrow> ('cb channel \<Rightarrow> 'cb channel) \<Rightarrow> ('cb, 'z) reactor_scheme \<Rightarrow> ('cb, 'z) reactor_scheme" where
  "chan_upd c f r = r\<lparr>r_chans := (r_chans r)(c := f (r_chans r c))\<rparr>"

subsection \<open>Threads and wake-ups\<close>

definition EventLoop_isInLoopThread :: "int \<Rightarrow> ('cb, 'z) reactor_scheme \<Rightarrow> bool" where
  "EventLoop_isInLoopThread tid r = (loop_threadId (r_loop r) = tid)"

definition EventLoop_assertInLoopThread :: "int \<Rightarrow> ('cb, 'z) reactor_scheme \<Rightarrow> unit outcome" where
  "EventLoop_assertInLoopThread tid r = (if \<not> EventLoop_isInLoopThread tid r then None else Some ())"

text \<open>A write of 1 to a non-blocking \<open>eventfd\<close>; at the largest value it fails with \<open>EAGAIN\<close>, which
  \<open>wakeup\<close> logs.\<close>

definition eventfd_max :: nat where "eventfd_max = 0xfffffffffffffffe"

definition EventLoop_wakeup :: "('cb, 'z) reactor_scheme \<Rightarrow> ('cb, 'z) reactor_scheme" where
  "EventLoop_wakeup r = (if wakeup_count r + 1 \<le> eventfd_max
     then r\<lparr>wakeup_count := wakeup_count r + 1\<rparr> else r)"

text \<open>A read takes the whole count; of a count of 0 it fails with \<open>EAGAIN\<close>, which is logged.\<close>

definition EventLoop_handleRead :: "('cb, 'z) reactor_scheme \<Rightarrow> ('cb, 'z) reactor_scheme" where
  "EventLoop_handleRead r = r\<lparr>wakeup_count := 0\<rparr>"

definition EventLoop_quit :: "int \<Rightarrow> ('cb, 'z) reactor_scheme \<Rightarrow> ('cb, 'z) reactor_scheme" where
  "EventLoop_quit tid r = (let r1 = r\<lparr>is_quit := True\<rparr> in
     if \<not> EventLoop_isInLoopThread tid r1 then EventLoop_wakeup r1 else r1)"

text \<open>The part of \<open>queueInLoop\<close> under the mutex, and the whole.\<close>

definition queue_push :: "'cb \<Rightarrow> ('cb, 'z) reactor_scheme \<Rightarrow> ('cb, 'z) reactor_scheme" where
  "queue_push cb r = r\<lparr>m_pendingFunctors := m_pendingFunctors r @ [cb]\<rparr>"

definition EventLoop_queueInLoop :: "int \<Rightarrow> 'cb \<Rightarrow> ('cb, 'z) reactor_scheme \<Rightarrow> ('cb, 'z) reactor_scheme" where
  "EventLoop_queueInLoop tid cb r = (let r1 = queue_push cb r in
     if \<not> EventLoop_isInLoopThread tid r1 \<or> is_callingPendingFunctors r1 then EventLoop_wakeup r1 else r1)"

definition EventLoop_runInLoop :: "('cb \<Rightarrow> ('cb, 'z) reactor_scheme \<Rightarrow> ('cb, 'z) reactor_scheme outcome) \<Rightarrow>
    int \<Rightarrow> 'cb \<Rightarrow> ('cb, 'z) reactor_scheme \<Rightarrow> ('cb, 'z) reactor_scheme outcome" where
  "EventLoop_runInLoop run tid cb r =
     (if EventLoop_isInLoopThread tid r then run cb r else Some (EventLoop_queueInLoop tid cb r))"

definition EventLoop_queueSize :: "('cb, 'z) reactor_scheme \<Rightarrow> nat" where
  "EventLoop_queueSize r = length (m_pendingFunctors r)"

text \<open>\<open>doPendingFunctors\<close>: set the flag and swap the list out under the mutex, call, reset the flag.\<close>

definition pending_begin :: "('cb, 'z) reactor_scheme \<Rightarrow> ('cb, 'z) reactor_scheme" where
  "pending_begin r = r\<lparr>is_callingPendingFunctors := True, m_pendingFunctors := []\<rparr>"

definition pending_end :: "('cb, 'z) reactor_scheme \<Rightarrow> ('cb, 'z) reactor_scheme" where
  "pending_end r = r\<lparr>is_callingPendingFunctors := False\<rparr>"

definition EventLoop_doPendingFunctors :: "('cb \<Rightarrow> ('cb, 'z) reactor_scheme \<Rightarrow> ('cb, 'z) reactor_scheme outcome) \<Rightarrow>
    ('cb, 'z) reactor_scheme \<Rightarrow> ('cb, 'z) reactor_scheme outcome" where
  "EventLoop_doPendingFunctors run r = do {
     let functors = m_pendingFunctors r;
     r3 \<leftarrow> for_each run functors (pending_begin r);
     Some (pending_end r3)
   }"

subsection \<open>Channels through the loop\<close>

definition EventLoop_updateChannel :: "int \<Rightarrow> nat \<Rightarrow> ('cb, 'z) reactor_scheme \<Rightarrow> ('cb, 'z) reactor_scheme outcome" where
  "EventLoop_updateChannel tid c r = do {
     assert_that (ch_loop (r_chans r c) = r_loop r);
     EventLoop_assertInLoopThread tid r;
     (chs, p) \<leftarrow> Poller_updateChannel tid c (r_chans r, m_poller r);
     Some (r\<lparr>r_chans := chs, m_poller := p\<rparr>)
   }"

definition EventLoop_removeChannel :: "int \<Rightarrow> nat \<Rightarrow> ('cb, 'z) reactor_scheme \<Rightarrow> ('cb, 'z) reactor_scheme outcome" where
  "EventLoop_removeChannel tid c r = do {
     assert_that (ch_loop (r_chans r c) = r_loop r);
     EventLoop_assertInLoopThread tid r;
     (if el_eventHandling r
      then assert_that (m_currentActiveChannel r = Some c \<or> c \<notin> set (m_activeChannels r))
      else Some ());
     (chs, p) \<leftarrow> Poller_removeChannel tid c (r_chans r, m_poller r);
     Some (r\<lparr>r_chans := chs, m_poller := p\<rparr>)
   }"

definition EventLoop_hasChannel :: "int \<Rightarrow> nat \<Rightarrow> ('cb, 'z) reactor_scheme \<Rightarrow> bool outcome" where
  "EventLoop_hasChannel tid c r = do {
     assert_that (ch_loop (r_chans r c) = r_loop r);
     EventLoop_assertInLoopThread tid r;
     Poller_hasChannel tid (Poller_ownerLoop (m_poller r)) (Poller_channels (m_poller r)) (r_chans r) c
   }"

definition Channel_update :: "int \<Rightarrow> nat \<Rightarrow> ('cb, 'z) reactor_scheme \<Rightarrow> ('cb, 'z) reactor_scheme outcome" where
  "Channel_update tid c r = EventLoop_updateChannel tid c (chan_upd c (is_addedToLoop_update (\<lambda>_. True)) r)"

definition Channel_remove :: "int \<Rightarrow> nat \<Rightarrow> ('cb, 'z) reactor_scheme \<Rightarrow> ('cb, 'z) reactor_scheme outcome" where
  "Channel_remove tid c r = do {
     assert_that (Channel_isNoneEvent (r_chans r c));
     EventLoop_removeChannel tid c (chan_upd c (is_addedToLoop_update (\<lambda>_. False)) r)
   }"

definition Channel_enableReading :: "int \<Rightarrow> nat \<Rightarrow> ('cb, 'z) reactor_scheme \<Rightarrow> ('cb, 'z) reactor_scheme outcome" where
  "Channel_enableReading tid c r = Channel_update tid c (chan_upd c (ch_events_update events_enableReading) r)"

definition Channel_disableReading :: "int \<Rightarrow> nat \<Rightarrow> ('cb, 'z) reactor_scheme \<Rightarrow> ('cb, 'z) reactor_scheme outcome" where
  "Channel_disableReading tid c r = Channel_update tid c (chan_upd c (ch_events_update events_disableReading) r)"

definition Channel_enableWriting :: "int \<Rightarrow> nat \<Rightarrow> ('cb, 'z) reactor_scheme \<Rightarrow> ('cb, 'z) reactor_scheme outcome" where
  "Channel_enableWriting tid c r = Channel_update tid c (chan_upd c (ch_events_update events_enableWriting) r)"

definition Channel_disableWriting :: "int \<Rightarrow> nat \<Rightarrow> ('cb, 'z) reactor_scheme \<Rightarrow> ('cb, 'z) reactor_scheme outcome" where
  "Channel_disableWriting tid c r = Channel_update tid c (chan_upd c (ch_events_update events_disableWriting) r)"

definition Channel_disableAll :: "int \<Rightarrow> nat \<Rightarrow> ('cb, 'z) reactor_scheme \<Rightarrow> ('cb, 'z) reactor_scheme outcome" where
  "Channel_disableAll tid c r = Channel_update tid c (chan_upd c (ch_events_update (\<lambda>_. kNoneEvent)) r)"

text \<open>The assertions of the destructor.\<close>

definition Channel_destroy :: "int \<Rightarrow> nat \<Rightarrow> ('cb, 'z) reactor_scheme \<Rightarrow> unit outcome" where
  "Channel_destroy tid c r = do {
     assert_that (\<not> ch_eventHandling (r_chans r c));
     assert_that (\<not> is_addedToLoop (r_chans r c));
     if EventLoop_isInLoopThread tid r
     then do { has \<leftarrow> EventLoop_hasChannel tid c r; assert_that (\<not> has) }
     else Some ()
   }"

subsection \<open>Event dispatch\<close>

text \<open>\<open>if (cb) cb(...)\<close> for a callback member.\<close>

definition call_if_set :: "('cb \<Rightarrow> timestamp option \<Rightarrow> 'r \<Rightarrow> 'r outcome) \<Rightarrow> timestamp option \<Rightarrow> 'cb option \<Rightarrow> 'r \<Rightarrow> 'r outcome" where
  "call_if_set run t cb r = (case cb of None \<Rightarrow> Some r | Some f \<Rightarrow> run f t r)"

definition Channel_handleEventWithGuard ::
  "('cb \<Rightarrow> timestamp option \<Rightarrow> ('cb, 'z) reactor_scheme \<Rightarrow> ('cb, 'z) reactor_scheme outcome) \<Rightarrow>
   timestamp \<Rightarrow> nat \<Rightarrow> ('cb, 'z) reactor_scheme \<Rightarrow> ('cb, 'z) reactor_scheme outcome" where
  "Channel_handleEventWithGuard run receiveTime c r = do {
     let r = chan_upd c (ch_eventHandling_update (\<lambda>_. True)) r;
     r \<leftarrow> (if has_event (ch_revents (r_chans r c)) POLLHUP \<and> \<not> has_event (ch_revents (r_chans r c)) POLLIN
           then call_if_set run None (m_closeCallback (r_chans r c)) r else Some r);
     r \<leftarrow> (if has_event (ch_revents (r_chans r c)) (POLLERR OR POLLNVAL)
           then call_if_set run None (m_errorCallback (r_chans r c)) r else Some r);
     r \<leftarrow> (if has_event (ch_events (r_chans r c)) (POLLIN OR POLLPRI OR POLLRDHUP)
           then call_if_set run (Some receiveTime) (m_readCallback (r_chans r c)) r else Some r);
     r \<leftarrow> (if has_event (ch_events (r_chans r c)) POLLOUT
           then call_if_set run None (m_writeCallback (r_chans r c)) r else Some r);
     Some (chan_upd c (ch_eventHandling_update (\<lambda>_. False)) r)
   }"

text \<open>\<open>alive\<close> says whether the object that \<open>m_tie\<close> refers to still exists.\<close>

definition Channel_handleEvent ::
  "(nat \<Rightarrow> ('cb, 'z) reactor_scheme \<Rightarrow> bool) \<Rightarrow>
   ('cb \<Rightarrow> timestamp option \<Rightarrow> ('cb, 'z) reactor_scheme \<Rightarrow> ('cb, 'z) reactor_scheme outcome) \<Rightarrow>
   timestamp \<Rightarrow> nat \<Rightarrow> ('cb, 'z) reactor_scheme \<Rightarrow> ('cb, 'z) reactor_scheme outcome" where
  "Channel_handleEvent alive run receiveTime c r =
     (if is_tied (r_chans r c)
      then (case m_tie (r_chans r c) of
              None \<Rightarrow> Some r
            | Some obj \<Rightarrow> if alive obj r then Channel_handleEventWithGuard run receiveTime c r else Some r)
      else Channel_handleEventWithGuard run receiveTime c r)"

subsection \<open>The loop\<close>

text \<open>What the kernel answers to one call of \<open>Poller::poll\<close>.\<close>

record poll_answer =
  pa_now :: timestamp
  pa_epoll_wait :: "(int \<rightharpoonup> 32 word \<times> nat) \<Rightarrow> nat \<Rightarrow> (32 word \<times> nat) list option"
  pa_ready :: "(int \<Rightarrow> 16 word \<Rightarrow> 16 word) option"

definition Poller_poll :: "poll_answer \<Rightarrow> nat list \<Rightarrow> 'cb chans \<times> any_poller \<Rightarrow>
    (timestamp \<times> nat list \<times> 'cb chans \<times> any_poller) outcome" where
  "Poller_poll ans active s = (case s of
     (chs, Is_poll p) \<Rightarrow> map_option (map_prod id (map_prod id (map_prod id Is_poll)))
        (PollPoller_poll (pa_ready ans) (pa_now ans) active (chs, p))
   | (chs, Is_epoll p) \<Rightarrow> map_option (map_prod id (map_prod id (map_prod id Is_epoll)))
        (EpollPoller_poll (pa_epoll_wait ans) (pa_now ans) active (chs, p)))"

definition kPollTimeMs :: int where "kPollTimeMs = 10000"

text \<open>One turn of the \<open>while\<close> loop.\<close>

definition EventLoop_turn ::
  "(nat \<Rightarrow> ('cb, 'z) reactor_scheme \<Rightarrow> bool) \<Rightarrow>
   ('cb \<Rightarrow> timestamp option \<Rightarrow> ('cb, 'z) reactor_scheme \<Rightarrow> ('cb, 'z) reactor_scheme outcome) \<Rightarrow>
   poll_answer \<Rightarrow> ('cb, 'z) reactor_scheme \<Rightarrow> ('cb, 'z) reactor_scheme outcome" where
  "EventLoop_turn alive run ans r = do {
     (now, active, chs, p) \<leftarrow> Poller_poll ans [] (r_chans r, m_poller r);
     let r = r\<lparr>m_activeChannels := active, m_pollReturnTime := now, r_chans := chs, m_poller := p,
               m_iteration := m_iteration r + 1, el_eventHandling := True\<rparr>;
     r \<leftarrow> for_each (\<lambda>c r. Channel_handleEvent alive run (m_pollReturnTime r) c
                              (r\<lparr>m_currentActiveChannel := Some c\<rparr>)) active r;
     let r = r\<lparr>m_currentActiveChannel := None, el_eventHandling := False\<rparr>;
     EventLoop_doPendingFunctors (\<lambda>f. run f None) r
   }"

text \<open>
  The loop over a list of kernel answers, one per turn: \<open>Inl\<close> when the answers ran out with the
  loop still running, \<open>Inr\<close> when \<open>loop()\<close> has returned.
\<close>

fun EventLoop_turns ::
  "(nat \<Rightarrow> ('cb, 'z) reactor_scheme \<Rightarrow> bool) \<Rightarrow>
   ('cb \<Rightarrow> timestamp option \<Rightarrow> ('cb, 'z) reactor_scheme \<Rightarrow> ('cb, 'z) reactor_scheme outcome) \<Rightarrow>
   poll_answer list \<Rightarrow> ('cb, 'z) reactor_scheme \<Rightarrow>
   (('cb, 'z) reactor_scheme + ('cb, 'z) reactor_scheme) outcome" where
  "EventLoop_turns alive run answers r =
     (if is_quit r then Some (Inr (r\<lparr>is_looping := False\<rparr>))
      else case answers of [] \<Rightarrow> Some (Inl r)
        | ans # rest \<Rightarrow> EventLoop_turn alive run ans r \<bind> EventLoop_turns alive run rest)"

declare EventLoop_turns.simps [simp del]

definition EventLoop_loop where
  "EventLoop_loop alive run tid answers r = do {
     assert_that (\<not> is_looping r);
     EventLoop_assertInLoopThread tid r;
     EventLoop_turns alive run answers (r\<lparr>is_looping := True, is_quit := False\<rparr>)
   }"

text \<open>
  The constructor: \<open>t_loop\<close> is the thread-local loop of this thread, \<open>evtfd\<close> the result of
  \<open>eventfd\<close>, \<open>wc\<close> the address of the wake-up channel and \<open>read_cb\<close> the bound \<open>handleRead\<close>.
\<close>

definition createEventfd :: "int \<Rightarrow> int outcome" where
  "createEventfd evtfd = (if evtfd < 0 then None else Some evtfd)"

definition EventLoop_new :: "loop_ref option \<Rightarrow> bool \<Rightarrow> int \<Rightarrow> int \<Rightarrow> nat \<Rightarrow> 'cb \<Rightarrow> 'cb chans \<Rightarrow> loop_ref \<Rightarrow> 'cb reactor outcome" where
  "EventLoop_new t_loop use_poll epollfd evtfd wc read_cb chs this = do {
     p \<leftarrow> Poller_newDefaultPoller use_poll epollfd this;
     fd \<leftarrow> createEventfd evtfd;
     assert_that (t_loop = None);
     let r = \<lparr>r_loop = this, is_looping = False, is_quit = False, el_eventHandling = False,
              is_callingPendingFunctors = False, m_iteration = 0, m_pollReturnTime = Timestamp_invalid,
              m_poller = p, r_chans = chs(wc := Channel_setReadCallback read_cb (Channel_new this fd)),
              m_wakeupFd = fd, m_wakeupChannel = wc, m_activeChannels = [], m_currentActiveChannel = None,
              m_pendingFunctors = [], wakeup_count = 0\<rparr>;
     Channel_enableReading (loop_threadId this) wc r
   }"

definition EventLoop_destroy :: "int \<Rightarrow> ('cb, 'z) reactor_scheme \<Rightarrow> ('cb, 'z) reactor_scheme outcome" where
  "EventLoop_destroy tid r = do {
     r \<leftarrow> Channel_disableAll tid (m_wakeupChannel r) r;
     Channel_remove tid (m_wakeupChannel r) r
   }"

end
