(* ===== verification/EventLoopProps.thy ===== *)
theory EventLoopProps
  imports EventLoop
begin

text \<open>
  Properties of the loop: the interest of every channel is what the poller watches, event dispatch,
  and the hand-over of functors between threads while \<open>loop()\<close> is entered and left (no wake-up is
  lost, every functor runs once, in the order of the queue).
\<close>

subsection \<open>Channels and the poller stay in step\<close>

definition reactor_ok :: "int \<Rightarrow> ('cb, 'z) reactor_scheme \<Rightarrow> bool" where
  "reactor_ok tid r =
     (Poller_inv (r_chans r, m_poller r) \<and> Poller_ownerLoop (m_poller r) = r_loop r \<and> loop_threadId (r_loop r) = tid
    \<and> (\<forall>fd c. Poller_channels (m_poller r) fd = Some c \<longrightarrow> Poller_watched (m_poller r) fd = ch_events (r_chans r c)))"

definition chan_registered :: "nat \<Rightarrow> ('cb, 'z) reactor_scheme \<Rightarrow> bool" where
  "chan_registered c r = (Poller_channels (m_poller r) (ch_fd (r_chans r c)) = Some c)"

definition chan_fresh :: "nat \<Rightarrow> ('cb, 'z) reactor_scheme \<Rightarrow> bool" where
  "chan_fresh c r = (Poller_channels (m_poller r) (ch_fd (r_chans r c)) = None \<and> ch_index (r_chans r c) = -1)"

text \<open>A channel of this loop with a valid descriptor and mask.\<close>

definition chan_of_loop :: "nat \<Rightarrow> ('cb, 'z) reactor_scheme \<Rightarrow> bool" where
  "chan_of_loop c r = (ch_loop (r_chans r c) = r_loop r \<and> 0 \<le> ch_fd (r_chans r c)
     \<and> interest_mask (ch_events (r_chans r c)))"

lemma chan_upd_simps [simp]:
  "r_chans (chan_upd c f r) = (r_chans r)(c := f (r_chans r c))"
  "m_poller (chan_upd c f r) = m_poller r" "r_loop (chan_upd c f r) = r_loop r"
  "m_activeChannels (chan_upd c f r) = m_activeChannels r"
  "m_currentActiveChannel (chan_upd c f r) = m_currentActiveChannel r"
  "el_eventHandling (chan_upd c f r) = el_eventHandling r"
  "m_pendingFunctors (chan_upd c f r) = m_pendingFunctors r"
  by (simp_all add: chan_upd_def)

lemma chan_upd_eq: "chan_upd c f r = r\<lparr>r_chans := (r_chans r)(c := f (r_chans r c))\<rparr>"
  by (simp add: chan_upd_def)

lemma ch_events_update_app: "ch_events_update f x = x\<lparr>ch_events := f (ch_events x)\<rparr>"
  by (simp add: channel.equality)

text \<open>
  The effect of storing new events and updating: the channel is registered, the poller watches
  the new events for its descriptor and the old ones for all others, and no field of a channel but
  the events, the index and the registration flag of this one changes.
\<close>

lemma Channel_update_events:
  assumes ok: "reactor_ok tid r" and c: "chan_of_loop c r" and bits: "interest_mask (f (ch_events (r_chans r c)))"
    and reg: "chan_registered c r \<or> chan_fresh c r \<and> f (ch_events (r_chans r c)) \<noteq> 0"
  shows "\<exists>r'. Channel_update tid c (chan_upd c (ch_events_update f) r) = Some r' \<and> reactor_ok tid r'
    \<and> chan_registered c r' \<and> chan_of_loop c r'
    \<and> Poller_channels (m_poller r') = (Poller_channels (m_poller r))(ch_fd (r_chans r c) \<mapsto> c)
    \<and> Poller_watched (m_poller r')
        = (Poller_watched (m_poller r))(ch_fd (r_chans r c) := f (ch_events (r_chans r c)))
    \<and> (\<exists>i chs p. chs c = (r_chans r c)\<lparr>ch_events := f (ch_events (r_chans r c)), ch_index := i, is_addedToLoop := True\<rparr>
        \<and> (\<forall>d. d \<noteq> c \<longrightarrow> chs d = r_chans r d) \<and> r' = r\<lparr>r_chans := chs, m_poller := p\<rparr>)"
proof -
  let ?ev = "f (ch_events (r_chans r c))" and ?fd = "ch_fd (r_chans r c)"
  let ?chs = "(r_chans r)(c := (r_chans r c)\<lparr>ch_events := ?ev, is_addedToLoop := True\<rparr>)"
  let ?p = "m_poller r"
  have inv: "Poller_inv (?chs, ?p)"
    using ok by (auto simp: reactor_ok_def same_place_def intro!: any_p.inv_place[where chs = "r_chans r"])
  have same: "chan_upd c (is_addedToLoop_update (\<lambda>_. True)) (chan_upd c (ch_events_update f) r)
      = r\<lparr>r_chans := ?chs\<rparr>"
    by (simp add: chan_upd_eq ch_events_update_app[of f])
  have "\<exists>chs' p'. Poller_updateChannel tid c (?chs, ?p) = Some (chs', p') \<and> Poller_inv (chs', p')
      \<and> Poller_ownerLoop p' = Poller_ownerLoop ?p
      \<and> Poller_channels p' = (Poller_channels ?p)(ch_fd (?chs c) \<mapsto> c)
      \<and> Poller_watched p' = (Poller_watched ?p)(ch_fd (?chs c) := ch_events (?chs c))
      \<and> only_index ?chs chs' \<and> (\<forall>d. d \<noteq> c \<longrightarrow> chs' d = ?chs d)"
    using ok c bits reg
    by (intro any_p.upd_law[OF inv])
      (auto simp: reactor_ok_def chan_of_loop_def chan_registered_def chan_fresh_def in_loop_thread_def)
  then obtain chs' p' where run: "Poller_updateChannel tid c (?chs, ?p) = Some (chs', p')"
    and inv': "Poller_inv (chs', p')" and own: "Poller_ownerLoop p' = Poller_ownerLoop ?p"
    and trk: "Poller_channels p' = (Poller_channels ?p)(?fd \<mapsto> c)"
    and wat: "Poller_watched p' = (Poller_watched ?p)(?fd := ?ev)"
    and only: "only_index ?chs chs'" and rest: "\<forall>d. d \<noteq> c \<longrightarrow> chs' d = r_chans r d"
    by auto
  let ?r = "r\<lparr>r_chans := chs', m_poller := p'\<rparr>"
  have ch: "chs' c = (r_chans r c)\<lparr>ch_events := ?ev, ch_index := ch_index (chs' c), is_addedToLoop := True\<rparr>"
    using only unfolding only_index_def by (metis fun_upd_same channel.update_convs(5) channel.surjective
        channel.update_convs(10) channel.update_convs(3))
  have step: "Channel_update tid c (chan_upd c (ch_events_update f) r) = Some ?r"
    using run ok c
    by (simp add: Channel_update_def same EventLoop_updateChannel_def EventLoop_assertInLoopThread_def
        EventLoop_isInLoopThread_def reactor_ok_def chan_of_loop_def)
  have fields: "ch_fd (chs' c) = ?fd" "ch_events (chs' c) = ?ev" "ch_loop (chs' c) = ch_loop (r_chans r c)"
    by (subst ch, simp)+
  have "Poller_watched p' fd = ch_events (chs' d)" if d: "Poller_channels p' fd = Some d" for fd d
  proof (cases "fd = ?fd")
    case True
    with d have "d = c" by (simp add: trk)
    then show ?thesis using fields(2) True by (simp add: wat)
  next
    case False
    with d have "Poller_channels ?p fd = Some d" by (simp add: trk)
    with ok any_p.tracked_fd have "ch_fd (r_chans r d) = fd" "Poller_watched ?p fd = ch_events (r_chans r d)"
      by (auto simp: reactor_ok_def)
    with False rest show ?thesis by (cases "d = c") (auto simp: wat)
  qed
  then have "reactor_ok tid ?r"
    using ok inv' own by (simp add: reactor_ok_def)
  moreover have "chan_registered c ?r" "chan_of_loop c ?r"
    using c bits by (simp_all add: chan_registered_def chan_of_loop_def trk fields)
  moreover have "\<exists>i chs p. chs c = (r_chans r c)\<lparr>ch_events := ?ev, ch_index := i, is_addedToLoop := True\<rparr>
        \<and> (\<forall>d. d \<noteq> c \<longrightarrow> chs d = r_chans r d) \<and> ?r = r\<lparr>r_chans := chs, m_poller := p\<rparr>"
    using ch rest by blast
  ultimately show ?thesis using step trk wat by (intro exI[of _ ?r]) simp
qed

lemma Channel_remove_effect:
  assumes ok: "reactor_ok tid r" and c: "chan_of_loop c r" and reg: "chan_registered c r"
    and none: "ch_events (r_chans r c) = 0"
    and idle: "el_eventHandling r \<Longrightarrow> m_currentActiveChannel r = Some c \<or> c \<notin> set (m_activeChannels r)"
  shows "\<exists>r'. Channel_remove tid c r = Some r' \<and> reactor_ok tid r'
    \<and> Poller_channels (m_poller r') = (Poller_channels (m_poller r))(ch_fd (r_chans r c) := None)
    \<and> Poller_watched (m_poller r') = Poller_watched (m_poller r)
    \<and> (\<exists>chs p. only_index ((r_chans r)(c := (r_chans r c)\<lparr>is_addedToLoop := False\<rparr>)) chs
         \<and> r' = r\<lparr>r_chans := chs, m_poller := p\<rparr>)"
proof -
  let ?fd = "ch_fd (r_chans r c)" and ?p = "m_poller r"
  let ?chs = "(r_chans r)(c := (r_chans r c)\<lparr>is_addedToLoop := False\<rparr>)"
  have inv: "Poller_inv (?chs, ?p)"
    using ok by (auto simp: reactor_ok_def same_place_def intro!: any_p.inv_place[where chs = "r_chans r"])
  have watched: "Poller_watched ?p ?fd = 0"
    using ok reg none by (auto simp: reactor_ok_def chan_registered_def)
  have "\<exists>chs' p'. Poller_removeChannel tid c (?chs, ?p) = Some (chs', p') \<and> Poller_inv (chs', p')
      \<and> Poller_ownerLoop p' = Poller_ownerLoop ?p
      \<and> Poller_channels p' = (Poller_channels ?p)(ch_fd (?chs c) := None) \<and> Poller_watched p' = Poller_watched ?p
      \<and> only_index ?chs chs' \<and> (\<forall>d. d \<noteq> c \<longrightarrow> d \<notin> ran (Poller_channels ?p) \<longrightarrow> chs' d = ?chs d)"
    using ok reg none watched
    by (intro any_p.rem_law[OF inv]) (auto simp: reactor_ok_def chan_registered_def in_loop_thread_def)
  then obtain chs' p' where run: "Poller_removeChannel tid c (?chs, ?p) = Some (chs', p')"
    and inv': "Poller_inv (chs', p')" and own: "Poller_ownerLoop p' = Poller_ownerLoop ?p"
    and trk: "Poller_channels p' = (Poller_channels ?p)(?fd := None)"
    and wat: "Poller_watched p' = Poller_watched ?p" and only: "only_index ?chs chs'"
    by auto
  let ?r = "r\<lparr>r_chans := chs', m_poller := p'\<rparr>"
  have "Channel_remove tid c r = Some ?r"
    using run ok c none idle
    by (auto simp: Channel_remove_def Channel_isNoneEvent_def kNoneEvent_def EventLoop_removeChannel_def
        EventLoop_assertInLoopThread_def EventLoop_isInLoopThread_def reactor_ok_def chan_of_loop_def chan_upd_eq)
  moreover have "reactor_ok tid ?r"
    using ok inv' own only_index_fields(3)[OF only]
    by (auto simp: reactor_ok_def trk wat split: if_splits)
  ultimately show ?thesis using trk wat only by (intro exI[of _ ?r]) auto
qed

text \<open>The five operations on the interest of a channel.\<close>

datatype interest_op = Enable_reading | Disable_reading | Enable_writing | Disable_writing | Disable_all

definition Channel_op :: "interest_op \<Rightarrow> int \<Rightarrow> nat \<Rightarrow> ('cb, 'z) reactor_scheme \<Rightarrow> ('cb, 'z) reactor_scheme outcome" where
  "Channel_op op = (case op of
     Enable_reading \<Rightarrow> Channel_enableReading | Disable_reading \<Rightarrow> Channel_disableReading
   | Enable_writing \<Rightarrow> Channel_enableWriting | Disable_writing \<Rightarrow> Channel_disableWriting
   | Disable_all \<Rightarrow> Channel_disableAll)"

text \<open>What the operation means: whether reading and writing are wanted after it.\<close>

definition wants_after :: "interest_op \<Rightarrow> bool \<times> bool \<Rightarrow> bool \<times> bool" where
  "wants_after op w = (case op of
     Enable_reading \<Rightarrow> (True, snd w) | Disable_reading \<Rightarrow> (False, snd w)
   | Enable_writing \<Rightarrow> (fst w, True) | Disable_writing \<Rightarrow> (fst w, False)
   | Disable_all \<Rightarrow> (False, False))"

definition wants :: "32 word \<Rightarrow> bool \<times> bool" where
  "wants ev = (has_event ev kReadEvent, has_event ev kWriteEvent)"

lemma Channel_op_update:
  obtains f where "\<And>tid c (r :: ('cb, 'z) reactor_scheme).
      Channel_op op tid c r = Channel_update tid c (chan_upd c (ch_events_update f) r)"
    "\<And>ev. interest_mask ev \<Longrightarrow> interest_mask (f ev) \<and> wants (f ev) = wants_after op (wants ev)"
proof (cases op)
  case Enable_reading
  show ?thesis
    by (rule that[of events_enableReading])
      (auto simp: Enable_reading Channel_op_def Channel_enableReading_def wants_def wants_after_def interest_mask_enabled)
next
  case Disable_reading
  show ?thesis
    by (rule that[of events_disableReading])
      (auto simp: Disable_reading Channel_op_def Channel_disableReading_def wants_def wants_after_def interest_mask_enabled)
next
  case Enable_writing
  show ?thesis
    by (rule that[of events_enableWriting])
      (auto simp: Enable_writing Channel_op_def Channel_enableWriting_def wants_def wants_after_def interest_mask_enabled)
next
  case Disable_writing
  show ?thesis
    by (rule that[of events_disableWriting])
      (auto simp: Disable_writing Channel_op_def Channel_disableWriting_def wants_def wants_after_def interest_mask_enabled)
next
  case Disable_all
  show ?thesis
    by (rule that[of "\<lambda>_. kNoneEvent"])
      (auto simp: Disable_all Channel_op_def Channel_disableAll_def wants_def wants_after_def has_event_def kNoneEvent_def)
qed

text \<open>C13: What a channel wants is what the poller watches. In a consistent loop, on the loop thread,
  each of \<open>enableReading\<close>, \<open>disableReading\<close>, \<open>enableWriting\<close>, \<open>disableWriting\<close> and \<open>disableAll\<close> of a
  channel of the loop that is registered (or is new and wants something afterwards) runs without a
  failing assertion under either poller, changes the wanted directions as its name says, leaves the
  poller watching exactly these events for the descriptor and the old ones for every other
  descriptor, and keeps the loop consistent.\<close>

theorem Channel_interest_watched:
  assumes ok: "reactor_ok tid r" and c: "chan_of_loop c r"
    and reg: "chan_registered c r
      \<or> chan_fresh c r \<and> wants_after op (wants (ch_events (r_chans r c))) \<noteq> (False, False)"
  shows "\<exists>r'. Channel_op op tid c r = Some r' \<and> reactor_ok tid r' \<and> chan_registered c r' \<and> chan_of_loop c r'
    \<and> wants (ch_events (r_chans r' c)) = wants_after op (wants (ch_events (r_chans r c)))
    \<and> Poller_watched (m_poller r')
        = (Poller_watched (m_poller r))(ch_fd (r_chans r c) := ch_events (r_chans r' c))"
proof -
  obtain f where f: "Channel_op op tid c r = Channel_update tid c (chan_upd c (ch_events_update f) r)"
    and ev: "\<And>ev. interest_mask ev \<Longrightarrow> interest_mask (f ev) \<and> wants (f ev) = wants_after op (wants ev)"
    by (rule Channel_op_update[of op]) blast
  let ?ev = "f (ch_events (r_chans r c))"
  from c ev have bits: "interest_mask ?ev" and w: "wants ?ev = wants_after op (wants (ch_events (r_chans r c)))"
    by (auto simp: chan_of_loop_def)
  have "wants ?ev \<noteq> (False, False) \<Longrightarrow> ?ev \<noteq> 0" by (auto simp: wants_def has_event_def)
  with reg w have "chan_registered c r \<or> chan_fresh c r \<and> ?ev \<noteq> 0" by auto
  from Channel_update_events[where f = f, OF ok c bits this] obtain r' where
    "Channel_op op tid c r = Some r'" "reactor_ok tid r'" "chan_registered c r'" "chan_of_loop c r'"
    "Poller_watched (m_poller r') = (Poller_watched (m_poller r))(ch_fd (r_chans r c) := ?ev)"
    "ch_events (r_chans r' c) = ?ev"
    unfolding f by auto
  with w show ?thesis by auto
qed

lemma newDefaultPoller_ok:
  assumes "0 \<le> epollfd"
  shows "\<exists>p. Poller_newDefaultPoller use_poll epollfd this = Some p \<and> Poller_channels p = Map.empty \<and> Poller_ownerLoop p = this
    \<and> (\<forall>x :: 'cb chans. Poller_inv (x, p))"
  using assms by (cases use_poll)
    (auto simp: Poller_newDefaultPoller_def PollPoller_new_def EpollPoller_new_def any_poller_defs
      PollPoller_inv_def EpollPoller_inv_def epoll_entry_def)

text \<open>A new loop is consistent and listens to its wake-up descriptor.\<close>

lemma EventLoop_new_ok:
  assumes fds: "0 \<le> epollfd" "0 \<le> evtfd"
  shows "\<exists>r. EventLoop_new None use_poll epollfd evtfd wc cb chs this = Some r
    \<and> reactor_ok (loop_threadId this) r \<and> chan_registered wc r \<and> chan_of_loop wc r
    \<and> wants (ch_events (r_chans r wc)) = (True, False) \<and> ch_fd (r_chans r wc) = evtfd
    \<and> m_wakeupChannel r = wc \<and> m_pendingFunctors r = [] \<and> \<not> is_callingPendingFunctors r
    \<and> \<not> is_looping r"
proof -
  let ?chs = "chs(wc := Channel_setReadCallback cb (Channel_new this evtfd))"
  obtain p where p: "Poller_newDefaultPoller use_poll epollfd this = Some p"
    and empty: "Poller_channels p = Map.empty" "Poller_ownerLoop p = this" "\<And>x :: 'a chans. Poller_inv (x, p)"
    using newDefaultPoller_ok[OF fds(1), of use_poll this] by auto
  define r where "r = \<lparr>r_loop = this, is_looping = False, is_quit = False, el_eventHandling = False,
              is_callingPendingFunctors = False, m_iteration = 0, m_pollReturnTime = Timestamp_invalid,
              m_poller = p, r_chans = ?chs,
              m_wakeupFd = evtfd, m_wakeupChannel = wc, m_activeChannels = [], m_currentActiveChannel = None,
              m_pendingFunctors = [], wakeup_count = 0\<rparr>"
  have new: "EventLoop_new None use_poll epollfd evtfd wc cb chs this = Channel_enableReading (loop_threadId this) wc r"
    using fds p by (simp add: EventLoop_new_def createEventfd_def r_def)
  have ok: "reactor_ok (loop_threadId this) r" and c: "chan_of_loop wc r" and fresh: "chan_fresh wc r"
    using empty fds
    by (simp_all add: reactor_ok_def chan_of_loop_def chan_fresh_def r_def Channel_setReadCallback_def Channel_new_def)
  have ev: "ch_events (r_chans r wc) = 0" by (simp add: r_def Channel_setReadCallback_def Channel_new_def)
  have m: "interest_mask (events_enableReading (ch_events (r_chans r wc)))"
    using c by (simp add: chan_of_loop_def)
  have nz: "events_enableReading (ch_events (r_chans r wc)) \<noteq> 0"
    by (simp add: ev events_enableReading_def event_masks)
  from Channel_update_events[where f = events_enableReading, OF ok c m] fresh nz obtain r' where
    "Channel_enableReading (loop_threadId this) wc r = Some r'" "reactor_ok (loop_threadId this) r'"
    "chan_registered wc r'" "chan_of_loop wc r'" "ch_events (r_chans r' wc) = events_enableReading 0"
    "ch_fd (r_chans r' wc) = ch_fd (r_chans r wc)" "m_wakeupChannel r' = m_wakeupChannel r"
    "m_pendingFunctors r' = m_pendingFunctors r" "is_callingPendingFunctors r' = is_callingPendingFunctors r"
    "is_looping r' = is_looping r"
    unfolding Channel_enableReading_def by (auto simp: ev)
  then show ?thesis
    by (simp add: new wants_def interest_mask_enabled r_def Channel_setReadCallback_def Channel_new_def)
      (simp add: has_event_def)
qed

definition demo_reactor :: "nat reactor" where
  "demo_reactor = the (EventLoop_new None False 5 6 0 99 (\<lambda>c. Channel_new \<lparr>loop_addr = 1, loop_threadId = 7\<rparr> (int c + 20))
     \<lparr>loop_addr = 1, loop_threadId = 7\<rparr>)"

lemma demo_reactor_ok:
  "reactor_ok 7 demo_reactor" "chan_registered 0 demo_reactor" "chan_of_loop 0 demo_reactor"
  "wants (ch_events (r_chans demo_reactor 0)) = (True, False)" "ch_fd (r_chans demo_reactor 0) = 6"
  using EventLoop_new_ok[of 5 6 False 0 "99 :: nat" "\<lambda>c. Channel_new \<lparr>loop_addr = 1, loop_threadId = 7\<rparr> (int c + 20)"
      "\<lparr>loop_addr = 1, loop_threadId = 7\<rparr>"]
  by (auto simp: demo_reactor_def)

lemma demo_reactor_idle: "m_pendingFunctors demo_reactor = []" "\<not> is_callingPendingFunctors demo_reactor"
  "\<not> is_looping demo_reactor"
  using EventLoop_new_ok[of 5 6 False 0 "99 :: nat" "\<lambda>c. Channel_new \<lparr>loop_addr = 1, loop_threadId = 7\<rparr> (int c + 20)"
      "\<lparr>loop_addr = 1, loop_threadId = 7\<rparr>"]
  by (auto simp: demo_reactor_def)

theorem Channel_interest_watched_witness:
  "\<exists>r'. Channel_op Enable_writing 7 0 demo_reactor = Some r' \<and> reactor_ok 7 r'
    \<and> wants (ch_events (r_chans r' 0)) = (True, True) \<and> Poller_watched (m_poller r') 6 = ch_events (r_chans r' 0)"
  using Channel_interest_watched[OF demo_reactor_ok(1,3) disjI1[OF demo_reactor_ok(2)], of Enable_writing]
  by (auto simp: demo_reactor_ok wants_after_def)

subsection \<open>Dispatch\<close>

text \<open>A run of callbacks that only records what is called, and with which time.\<close>

record 'cb traced_reactor = "'cb reactor" +
  calls :: "('cb \<times> timestamp option) list"

definition trace_run :: "'cb \<Rightarrow> timestamp option \<Rightarrow> 'cb traced_reactor \<Rightarrow> 'cb traced_reactor outcome" where
  "trace_run cb t r = Some (r\<lparr>calls := calls r @ [(cb, t)]\<rparr>)"

text \<open>The calls \<open>handleEventWithGuard\<close> makes, as a function of the two masks.\<close>

definition dispatched :: "timestamp \<Rightarrow> 'cb channel \<Rightarrow> ('cb \<times> timestamp option) list" where
  "dispatched t ch =
     (let set = (\<lambda>cb arg. case cb of None \<Rightarrow> [] | Some f \<Rightarrow> [(f, arg)]) in
       (if has_event (ch_revents ch) POLLHUP \<and> \<not> has_event (ch_revents ch) POLLIN then set (m_closeCallback ch) None else [])
     @ (if has_event (ch_revents ch) (POLLERR OR POLLNVAL) then set (m_errorCallback ch) None else [])
     @ (if has_event (ch_events ch) (POLLIN OR POLLPRI OR POLLRDHUP) then set (m_readCallback ch) (Some t) else [])
     @ (if has_event (ch_events ch) POLLOUT then set (m_writeCallback ch) None else []))"

lemma call_if_set_trace:
  "call_if_set trace_run t cb r = Some (r\<lparr>calls := calls r @ (case cb of None \<Rightarrow> [] | Some f \<Rightarrow> [(f, t)])\<rparr>)"
  by (simp add: call_if_set_def trace_run_def split: option.splits)

lemma Channel_handleEventWithGuard_calls:
  "\<exists>r'. Channel_handleEventWithGuard trace_run t c r = Some r' \<and> calls r' = calls r @ dispatched t (r_chans r c)"
  by (auto simp: Channel_handleEventWithGuard_def call_if_set_trace chan_upd_def dispatched_def)

text \<open>Dispatch of reading and writing follows the events a channel asked for, not the events that
  happened: two channels that differ only in reported events without hang-up or error make the same
  calls. So a channel registered for both directions has its write callback called when only input
  arrived, and the other way round.\<close>

theorem Channel_dispatch_ignores_revents:
  assumes "ch_revents ch AND (POLLHUP OR POLLERR OR POLLNVAL) = 0" and "revt AND (POLLHUP OR POLLERR OR POLLNVAL) = 0"
    and "r_chans r c = ch" and "r_chans s c = ch\<lparr>ch_revents := revt\<rparr>" and "calls r = calls s"
  shows "map_option calls (Channel_handleEventWithGuard trace_run t c r)
       = map_option calls (Channel_handleEventWithGuard trace_run t c s)"
proof -
  have none: "\<not> has_event w POLLHUP" "\<not> has_event w (POLLERR OR POLLNVAL)"
    if "w AND (POLLHUP OR POLLERR OR POLLNVAL) = 0" for w
    using that by (auto simp: has_event_def bit.conj_disj_distrib or_eq_0_iff)
  obtain r' s' where "Channel_handleEventWithGuard trace_run t c r = Some r'"
    "calls r' = calls r @ dispatched t (r_chans r c)"
    "Channel_handleEventWithGuard trace_run t c s = Some s'"
    "calls s' = calls s @ dispatched t (r_chans s c)"
    using Channel_handleEventWithGuard_calls by metis
  with assms none[OF assms(1)] none[OF assms(2)] show ?thesis by (simp add: dispatched_def)
qed

definition demo_rw :: "nat channel" where
  "demo_rw = (Channel_new \<lparr>loop_addr = 1, loop_threadId = 7\<rparr> 9)\<lparr>ch_events := kReadEvent OR kWriteEvent,
     m_readCallback := Some 1, m_writeCallback := Some 2\<rparr>"

theorem Channel_dispatch_ignores_revents_witness:
  "map_option calls (Channel_handleEventWithGuard trace_run (Timestamp 5) 0
      (reactor.extend (demo_reactor\<lparr>r_chans := \<lambda>_. demo_rw\<lparr>ch_revents := POLLIN\<rparr>\<rparr>) \<lparr>calls = []\<rparr>))
   = map_option calls (Channel_handleEventWithGuard trace_run (Timestamp 5) 0
      (reactor.extend (demo_reactor\<lparr>r_chans := \<lambda>_. demo_rw\<lparr>ch_revents := POLLOUT\<rparr>\<rparr>) \<lparr>calls = []\<rparr>))"
  by (rule Channel_dispatch_ignores_revents[where ch = "demo_rw\<lparr>ch_revents := POLLIN\<rparr>" and revt = POLLOUT])
    (simp_all add: event_masks reactor.extend_def)

subsection \<open>The loop and other threads\<close>

text \<open>
  Where the loop thread is: outside \<open>loop()\<close> (before it is called, or after it has returned), at the
  test of the \<open>while\<close>, in \<open>poll\<close>, handling the active channels, or in \<open>doPendingFunctors\<close> with the
  functors it has still to call. \<open>sys_waking\<close> counts the other threads that have pushed a functor or
  set \<open>is_quit\<close> and have not written to the \<open>eventfd\<close> yet; \<open>sys_early\<close> counts the pending functors
  that were there at the start or that the loop thread queued outside \<open>loop()\<close>, for which
  \<open>queueInLoop\<close> writes nothing; \<open>sys_queued\<close> and \<open>sys_called\<close> are the histories of pushes and of
  calls. \<open>poll\<close> may return at any time: an event came, or its timeout has passed.
\<close>

datatype 'cb loop_pc = Outside | Testing | Polling | Handling | Calling "'cb list"

record 'cb loop_system =
  sys_loop :: "'cb reactor"
  sys_pc :: "'cb loop_pc"
  sys_waking :: nat
  sys_early :: nat
  sys_queued :: "'cb list"
  sys_called :: "'cb list"

text \<open>The loop thread runs user code: outside \<open>loop()\<close>, in a callback of a channel, in a functor.\<close>

definition in_user_code :: "'cb loop_pc \<Rightarrow> bool" where
  "in_user_code pc = (case pc of Testing \<Rightarrow> False | Polling \<Rightarrow> False | _ \<Rightarrow> True)"

inductive loop_step :: "'cb loop_system \<Rightarrow> 'cb loop_system \<Rightarrow> bool" where
  enter_loop: "sys_pc s = Outside \<Longrightarrow> \<not> is_looping (sys_loop s) \<Longrightarrow>
    loop_step s (s\<lparr>sys_loop := (sys_loop s)\<lparr>is_looping := True, is_quit := False\<rparr>, sys_pc := Testing\<rparr>)"
| leave_loop: "sys_pc s = Testing \<Longrightarrow> is_quit (sys_loop s) \<Longrightarrow>
    loop_step s (s\<lparr>sys_loop := (sys_loop s)\<lparr>is_looping := False\<rparr>, sys_pc := Outside\<rparr>)"
| call_poll: "sys_pc s = Testing \<Longrightarrow> \<not> is_quit (sys_loop s) \<Longrightarrow> loop_step s (s\<lparr>sys_pc := Polling\<rparr>)"
| poll_returns: "sys_pc s = Polling \<Longrightarrow> loop_step s (s\<lparr>sys_pc := Handling\<rparr>)"
| handle_read: "sys_pc s = Handling \<Longrightarrow> loop_step s (s\<lparr>sys_loop := EventLoop_handleRead (sys_loop s)\<rparr>)"
| queue_from_loop: "in_user_code (sys_pc s) \<Longrightarrow> tid = loop_threadId (r_loop (sys_loop s)) \<Longrightarrow>
    loop_step s (s\<lparr>sys_loop := EventLoop_queueInLoop tid f (sys_loop s), sys_queued := sys_queued s @ [f],
                   sys_early := (if sys_pc s = Outside then sys_early s + 1 else sys_early s)\<rparr>)"
| quit_from_loop: "in_user_code (sys_pc s) \<Longrightarrow> tid = loop_threadId (r_loop (sys_loop s)) \<Longrightarrow>
    loop_step s (s\<lparr>sys_loop := EventLoop_quit tid (sys_loop s)\<rparr>)"
| swap_pending: "sys_pc s = Handling \<Longrightarrow>
    loop_step s (s\<lparr>sys_loop := pending_begin (sys_loop s),
                   sys_pc := Calling (m_pendingFunctors (sys_loop s)), sys_early := 0\<rparr>)"
| call_functor: "sys_pc s = Calling (f # fs) \<Longrightarrow>
    loop_step s (s\<lparr>sys_pc := Calling fs, sys_called := sys_called s @ [f]\<rparr>)"
| finish_pending: "sys_pc s = Calling [] \<Longrightarrow>
    loop_step s (s\<lparr>sys_loop := pending_end (sys_loop s), sys_pc := Testing\<rparr>)"
| other_push: "loop_step s (s\<lparr>sys_loop := queue_push f (sys_loop s), sys_waking := sys_waking s + 1,
                   sys_queued := sys_queued s @ [f]\<rparr>)"
| other_quit: "loop_step s (s\<lparr>sys_loop := (sys_loop s)\<lparr>is_quit := True\<rparr>, sys_waking := sys_waking s + 1\<rparr>)"
| other_wakeup: "0 < sys_waking s \<Longrightarrow>
    loop_step s (s\<lparr>sys_loop := EventLoop_wakeup (sys_loop s), sys_waking := sys_waking s - 1\<rparr>)"

text \<open>The loop thread has a loop object and has not called \<open>loop()\<close> yet.\<close>

definition loop_initial :: "'cb reactor \<Rightarrow> 'cb loop_system" where
  "loop_initial r = \<lparr>sys_loop = r, sys_pc = Outside, sys_waking = 0, sys_early = length (m_pendingFunctors r),
     sys_queued = m_pendingFunctors r, sys_called = []\<rparr>"

definition loop_reach :: "'cb reactor \<Rightarrow> 'cb loop_system \<Rightarrow> bool" where
  "loop_reach r s = loop_step\<^sup>*\<^sup>* (loop_initial r) s"

text \<open>For another thread \<open>queueInLoop\<close> and \<open>quit\<close> are the store followed by the wake-up.\<close>

lemma other_thread_calls:
  assumes "tid \<noteq> loop_threadId (r_loop r)"
  shows "EventLoop_queueInLoop tid f r = EventLoop_wakeup (queue_push f r)"
    and "EventLoop_quit tid r = EventLoop_wakeup (r\<lparr>is_quit := True\<rparr>)"
  using assms by (simp_all add: EventLoop_queueInLoop_def EventLoop_quit_def EventLoop_isInLoopThread_def queue_push_def Let_def)

definition loop_calling :: "'cb loop_system \<Rightarrow> 'cb list" where
  "loop_calling s = (case sys_pc s of Calling fs \<Rightarrow> fs | _ \<Rightarrow> [])"

text \<open>The \<open>eventfd\<close> is readable, or some thread is about to write to it.\<close>

definition wakeup_coming :: "'cb loop_system \<Rightarrow> bool" where
  "wakeup_coming s \<longleftrightarrow> 0 < wakeup_count (sys_loop s) \<or> 0 < sys_waking s"

text \<open>
  The invariant: outside the handling phase, functors that are pending and not early have a wake-up on the
  way; so has a call of \<open>quit\<close> that found the loop in \<open>poll\<close>; the flags tell the phase, and the
  histories agree.
\<close>

definition loop_inv :: "'cb loop_system \<Rightarrow> bool" where
  "loop_inv s =
     ((sys_pc s \<noteq> Handling \<longrightarrow> sys_early s < length (m_pendingFunctors (sys_loop s)) \<longrightarrow> wakeup_coming s)
    \<and> (sys_pc s = Polling \<longrightarrow> is_quit (sys_loop s) \<longrightarrow> wakeup_coming s)
    \<and> (is_callingPendingFunctors (sys_loop s) \<longleftrightarrow> (\<exists>fs. sys_pc s = Calling fs))
    \<and> (is_looping (sys_loop s) \<longleftrightarrow> sys_pc s \<noteq> Outside)
    \<and> sys_queued s = sys_called s @ loop_calling s @ m_pendingFunctors (sys_loop s))"

lemma pending_facts [simp]:
  "m_pendingFunctors (pending_begin r) = []" "is_callingPendingFunctors (pending_begin r)"
  "m_pendingFunctors (pending_end r) = m_pendingFunctors r" "\<not> is_callingPendingFunctors (pending_end r)"
  "wakeup_count (pending_end r) = wakeup_count r" "wakeup_count (pending_begin r) = wakeup_count r"
  "r_loop (pending_begin r) = r_loop r" "r_loop (pending_end r) = r_loop r"
  "is_quit (pending_begin r) = is_quit r" "is_quit (pending_end r) = is_quit r"
  "is_looping (pending_begin r) = is_looping r" "is_looping (pending_end r) = is_looping r"
  by (simp_all add: pending_begin_def pending_end_def)

lemma wakeup_facts [simp]:
  "0 < wakeup_count (EventLoop_wakeup r)" "m_pendingFunctors (EventLoop_wakeup r) = m_pendingFunctors r"
  "is_callingPendingFunctors (EventLoop_wakeup r) = is_callingPendingFunctors r" "r_loop (EventLoop_wakeup r) = r_loop r"
  "is_quit (EventLoop_wakeup r) = is_quit r" "is_looping (EventLoop_wakeup r) = is_looping r"
  "m_pendingFunctors (EventLoop_handleRead r) = m_pendingFunctors r"
  "is_callingPendingFunctors (EventLoop_handleRead r) = is_callingPendingFunctors r"
  "is_quit (EventLoop_handleRead r) = is_quit r" "is_looping (EventLoop_handleRead r) = is_looping r"
  "m_pendingFunctors (queue_push f r) = m_pendingFunctors r @ [f]"
  "is_callingPendingFunctors (queue_push f r) = is_callingPendingFunctors r"
  "is_quit (queue_push f r) = is_quit r" "is_looping (queue_push f r) = is_looping r"
  "wakeup_count (queue_push f r) = wakeup_count r" "r_loop (queue_push f r) = r_loop r"
  by (auto simp: EventLoop_wakeup_def EventLoop_handleRead_def queue_push_def eventfd_max_def)

lemma loop_inv_step: "loop_step s s' \<Longrightarrow> loop_inv s \<Longrightarrow> loop_inv s'"
proof (induction rule: loop_step.induct)
  case (queue_from_loop s tid f)
  then show ?case
    by (cases "sys_pc s")
      (auto simp: loop_inv_def loop_calling_def wakeup_coming_def in_user_code_def EventLoop_queueInLoop_def
        EventLoop_isInLoopThread_def Let_def)
next
  case (quit_from_loop s tid)
  then show ?case
    by (cases "sys_pc s")
      (auto simp: loop_inv_def loop_calling_def wakeup_coming_def in_user_code_def EventLoop_quit_def
        EventLoop_isInLoopThread_def Let_def)
qed (auto simp: loop_inv_def loop_calling_def wakeup_coming_def split: loop_pc.splits)

lemma loop_inv_reach:
  assumes "\<not> is_callingPendingFunctors r" and "\<not> is_looping r" and "loop_reach r s"
  shows "loop_inv s"
  using assms(3) unfolding loop_reach_def
proof (induction rule: rtranclp_induct)
  case base
  then show ?case using assms(1,2) by (auto simp: loop_initial_def loop_inv_def loop_calling_def)
next
  case (step s s')
  then show ?case using loop_inv_step by blast
qed

text \<open>C7: No wake-up is lost. Start with a loop object whose \<open>loop()\<close> has not been called, and interleave
  the loop thread, which may call \<open>loop()\<close> again and again, with threads that call \<open>queueInLoop\<close> and
  \<open>quit\<close>, the store and the wake-up being two steps. Whenever the loop is in \<open>poll\<close> and more functors
  are pending than were at the start or the loop thread itself queued outside \<open>loop()\<close>, or \<open>is_quit\<close> is set, the \<open>eventfd\<close>
  is readable or some thread is still to write to it: \<open>poll\<close> does not block on work handed over or on
  a request to stop. Functors the loop thread queues outside \<open>loop()\<close> are the exception: no wake-up
  is written for them (\<open>early_functor_waits\<close>).\<close>

theorem EventLoop_no_lost_wakeup:
  assumes "loop_reach r s" and "\<not> is_callingPendingFunctors r" and "\<not> is_looping r" and "sys_pc s = Polling"
    and "sys_early s < length (m_pendingFunctors (sys_loop s)) \<or> is_quit (sys_loop s)"
  shows "0 < wakeup_count (sys_loop s) \<or> 0 < sys_waking s"
  using loop_inv_reach[OF assms(2,3,1)] assms(4,5) by (auto simp: loop_inv_def wakeup_coming_def)

text \<open>
  The loop thread queues a functor, calls \<open>loop()\<close> and is in \<open>poll\<close>, with the functor pending, the
  \<open>eventfd\<close> at 0 and nobody to write to it: the functor waits for an event or for the timeout.
\<close>

lemma early_functor_waits:
  assumes "\<not> is_callingPendingFunctors r" and "\<not> is_looping r" and "wakeup_count r = 0"
  shows "\<exists>s. loop_reach r s \<and> sys_pc s = Polling \<and> m_pendingFunctors (sys_loop s) = m_pendingFunctors r @ [f]
    \<and> \<not> wakeup_coming s"
proof -
  let ?tid = "loop_threadId (r_loop r)"
  have push: "EventLoop_queueInLoop ?tid f r = queue_push f r"
    using assms(1) by (simp add: EventLoop_queueInLoop_def EventLoop_isInLoopThread_def)
  let ?s0 = "loop_initial r"
  let ?s1 = "?s0\<lparr>sys_loop := queue_push f r, sys_queued := sys_queued ?s0 @ [f], sys_early := sys_early ?s0 + 1\<rparr>"
  let ?s2 = "?s1\<lparr>sys_loop := (sys_loop ?s1)\<lparr>is_looping := True, is_quit := False\<rparr>, sys_pc := Testing\<rparr>"
  let ?s3 = "?s2\<lparr>sys_pc := Polling\<rparr>"
  have "loop_step ?s0 ?s1"
    using queue_from_loop[of ?s0 ?tid f] push by (simp add: loop_initial_def in_user_code_def)
  moreover have "loop_step ?s1 ?s2" by (rule enter_loop) (simp_all add: loop_initial_def assms)
  moreover have "loop_step ?s2 ?s3" by (rule call_poll) simp_all
  ultimately have "loop_reach r ?s3" by (simp add: loop_reach_def)
  then show ?thesis
    using assms by (intro exI[of _ ?s3]) (simp add: wakeup_coming_def loop_initial_def)
qed

text \<open>Runs of the loop thread by itself.\<close>

lemma calls_all:
  "sys_pc u = Calling fs \<Longrightarrow> \<exists>t. loop_step\<^sup>*\<^sup>* u t \<and> sys_pc t = Calling [] \<and> sys_loop t = sys_loop u
      \<and> sys_queued t = sys_queued u \<and> sys_called t = sys_called u @ fs"
proof (induction fs arbitrary: u)
  case (Cons f fs)
  let ?v = "u\<lparr>sys_pc := Calling fs, sys_called := sys_called u @ [f]\<rparr>"
  have "loop_step u ?v" using Cons.prems by (rule call_functor)
  moreover obtain t where "loop_step\<^sup>*\<^sup>* ?v t" "sys_pc t = Calling []" "sys_loop t = sys_loop ?v"
    "sys_queued t = sys_queued ?v" "sys_called t = sys_called ?v @ fs"
    using Cons.IH[of ?v] by auto
  ultimately show ?case by (intro exI[of _ t]) (auto intro: converse_rtranclp_into_rtranclp)
qed auto

lemma handling_calls_all:
  assumes h: "sys_pc u = Handling" and i: "loop_inv u"
  shows "\<exists>t. loop_step\<^sup>*\<^sup>* u t \<and> sys_queued t = sys_queued u \<and> sys_called t = sys_queued u"
proof -
  have st: "loop_step u (u\<lparr>sys_loop := pending_begin (sys_loop u),
                 sys_pc := Calling (m_pendingFunctors (sys_loop u)), sys_early := 0\<rparr>)" (is "loop_step u ?v")
    using h by (rule swap_pending)
  obtain t where "loop_step\<^sup>*\<^sup>* ?v t" "sys_queued t = sys_queued ?v"
    "sys_called t = sys_called ?v @ m_pendingFunctors (sys_loop u)"
    using calls_all[of ?v "m_pendingFunctors (sys_loop u)"] by auto
  with st h i show ?thesis
    by (intro exI[of _ t]) (auto simp: loop_inv_def loop_calling_def intro: converse_rtranclp_into_rtranclp)
qed

lemma polling_calls_all:
  assumes p: "sys_pc u = Polling" and i: "loop_inv u"
  shows "\<exists>t. loop_step\<^sup>*\<^sup>* u t \<and> sys_queued t = sys_queued u \<and> sys_called t = sys_queued u"
proof -
  have st: "loop_step u (u\<lparr>sys_pc := Handling\<rparr>)" using p by (rule poll_returns)
  from handling_calls_all[OF _ loop_inv_step[OF st i]] st show ?thesis
    by (auto intro: converse_rtranclp_into_rtranclp)
qed

lemma testing_calls_all:
  assumes p: "sys_pc u = Testing" and q: "\<not> is_quit (sys_loop u)" and i: "loop_inv u"
  shows "\<exists>t. loop_step\<^sup>*\<^sup>* u t \<and> sys_queued t = sys_queued u \<and> sys_called t = sys_queued u"
proof -
  have st: "loop_step u (u\<lparr>sys_pc := Polling\<rparr>)" using p q by (rule call_poll)
  from polling_calls_all[OF _ loop_inv_step[OF st i]] st show ?thesis
    by (auto intro: converse_rtranclp_into_rtranclp)
qed

lemma calling_calls_all:
  assumes p: "sys_pc u = Calling fs" and q: "\<not> is_quit (sys_loop u)" and i: "loop_inv u"
  shows "\<exists>t. loop_step\<^sup>*\<^sup>* u t \<and> sys_queued t = sys_queued u \<and> sys_called t = sys_queued u"
proof -
  from calls_all[OF p] obtain t where
    t: "loop_step\<^sup>*\<^sup>* u t" "sys_pc t = Calling []" "sys_loop t = sys_loop u" "sys_queued t = sys_queued u" by auto
  have st: "loop_step t (t\<lparr>sys_loop := pending_end (sys_loop t), sys_pc := Testing\<rparr>)" (is "loop_step t ?v")
    using t(2) by (rule finish_pending)
  have "loop_inv t" using t(1) i by (induction rule: rtranclp_induct) (auto dest: loop_inv_step)
  with st testing_calls_all[of ?v] loop_inv_step[OF st] q t(3) obtain w where
    "loop_step\<^sup>*\<^sup>* ?v w" "sys_queued w = sys_queued t" "sys_called w = sys_queued t" by auto
  with t st show ?thesis by (intro exI[of _ w]) (auto intro: rtranclp_trans converse_rtranclp_into_rtranclp)
qed

text \<open>C8: Functors run once each, in the order in which they were queued. Start with a loop object whose
  \<open>loop()\<close> has not been called: in every reachable state the functors called so far, those being called
  and those pending are the functors queued. While \<open>loop()\<close> runs, with \<open>is_quit\<close> not set or with the
  turn that polls and handles events under way, the loop thread can go on by itself until all functors
  queued so far have been called. After \<open>quit\<close> the loop finishes its turn and returns: functors queued
  later stay pending, and are called only when \<open>loop()\<close> is called again.\<close>

theorem EventLoop_functors_fifo:
  assumes "loop_reach r s" and "\<not> is_callingPendingFunctors r" and "\<not> is_looping r"
  shows "sys_queued s = sys_called s @ loop_calling s @ m_pendingFunctors (sys_loop s)
    \<and> (sys_pc s \<noteq> Outside \<and> \<not> is_quit (sys_loop s) \<or> sys_pc s = Polling \<or> sys_pc s = Handling \<longrightarrow>
         (\<exists>s'. loop_step\<^sup>*\<^sup>* s s' \<and> sys_queued s' = sys_queued s \<and> sys_called s' = sys_queued s))
    \<and> (sys_pc s = Testing \<and> is_quit (sys_loop s) \<longrightarrow>
         (\<exists>s'. loop_step s s' \<and> sys_pc s' = Outside \<and> sys_called s' = sys_called s
            \<and> m_pendingFunctors (sys_loop s') = m_pendingFunctors (sys_loop s)))"
proof -
  have inv: "loop_inv s" by (rule loop_inv_reach[OF assms(2,3,1)])
  have "\<exists>s'. loop_step s s' \<and> sys_pc s' = Outside \<and> sys_called s' = sys_called s
      \<and> m_pendingFunctors (sys_loop s') = m_pendingFunctors (sys_loop s)"
    if "sys_pc s = Testing" "is_quit (sys_loop s)"
    by (rule exI, rule conjI, rule leave_loop[OF that]) simp
  moreover have "\<exists>t. loop_step\<^sup>*\<^sup>* s t \<and> sys_queued t = sys_queued s \<and> sys_called t = sys_queued s"
    if "sys_pc s \<noteq> Outside \<and> \<not> is_quit (sys_loop s) \<or> sys_pc s = Polling \<or> sys_pc s = Handling"
    using that calling_calls_all[OF _ _ inv] testing_calls_all[OF _ _ inv] polling_calls_all[OF _ inv] handling_calls_all[OF _ inv]
    by (cases "sys_pc s") auto
  ultimately show ?thesis using inv by (auto simp: loop_inv_def)
qed

text \<open>A loop in \<open>poll\<close>, to which another thread has just pushed a functor.\<close>

definition demo_pushed :: "nat loop_system" where
  "demo_pushed = \<lparr>sys_loop = queue_push 5 (demo_reactor\<lparr>is_looping := True, is_quit := False\<rparr>), sys_pc = Polling,
     sys_waking = 1, sys_early = 0, sys_queued = [5], sys_called = []\<rparr>"

lemma demo_reach: "loop_reach demo_reactor demo_pushed"
proof -
  let ?s0 = "loop_initial demo_reactor"
  let ?s1 = "?s0\<lparr>sys_loop := (sys_loop ?s0)\<lparr>is_looping := True, is_quit := False\<rparr>, sys_pc := Testing\<rparr>"
  let ?s2 = "?s1\<lparr>sys_pc := Polling\<rparr>"
  have "loop_step ?s0 ?s1" by (rule enter_loop) (simp_all add: loop_initial_def demo_reactor_idle)
  moreover have "loop_step ?s1 ?s2" by (rule call_poll) simp_all
  moreover have "loop_step ?s2 demo_pushed"
    using other_push[of ?s2 5] demo_reactor_idle(1) by (simp add: demo_pushed_def loop_initial_def)
  ultimately show ?thesis by (simp add: loop_reach_def)
qed

theorem EventLoop_no_lost_wakeup_witness:
  "0 < wakeup_count (sys_loop demo_pushed) \<or> 0 < sys_waking demo_pushed"
  by (rule EventLoop_no_lost_wakeup[OF demo_reach demo_reactor_idle(2,3)]) (simp_all add: demo_pushed_def)

theorem EventLoop_functors_fifo_witness:
  "sys_queued demo_pushed = sys_called demo_pushed @ loop_calling demo_pushed @ m_pendingFunctors (sys_loop demo_pushed)
   \<and> (\<exists>s'. loop_step\<^sup>*\<^sup>* demo_pushed s' \<and> sys_queued s' = sys_queued demo_pushed \<and> sys_called s' = sys_queued demo_pushed)"
  using EventLoop_functors_fifo[OF demo_reach demo_reactor_idle(2,3)] by (simp add: demo_pushed_def)

end
