(* ===== verification/TcpConnection.thy ===== *)
theory TcpConnection
  imports Buffer EventLoopProps
begin

text \<open>
  \<open>dc::net::TcpConnection\<close> (\<open>net/tcpConnection.h\<close>, \<open>net/tcpConnection.cc\<close>): one connection on its
  loop. The state extends the state of the loop with the members of the connection and with what the
  socket has seen: the bytes accepted by \<open>write\<close> and whether the write half was shut down.

  A functor or callback that the class binds is a constructor of \<open>conn_cb\<close>. The user's callbacks
  that are called at once (\<open>m_connectionCallback\<close>, \<open>m_messageCallback\<close>, \<open>m_closeCallback\<close>) are the
  argument \<open>user\<close>, which may change the state or abort; the write-complete and high-water-mark
  callbacks are only ever queued. The result of the system calls \<open>write\<close> and \<open>readv\<close> is an argument.
\<close>

subsection \<open>State\<close>

datatype conn_state = kDisconnected | kConnecting | kConnected | kDisconnecting

datatype conn_cb =
    Cb_wakeup
  | Cb_handleRead | Cb_handleWrite | Cb_handleClose | Cb_handleError
  | Cb_writeComplete | Cb_highWaterMark nat
  | Cb_sendInLoop string | Cb_shutdownInLoop | Cb_forceCloseInLoop
  | Cb_startReadInLoop | Cb_stopReadInLoop

record conn = "conn_cb reactor" +
  cn_name :: string
  cn_state :: conn_state
  cn_reading :: bool
  cn_channel :: nat
  cn_highWaterMark :: nat
  cn_hasWriteComplete :: bool
  cn_hasHighWaterMark :: bool
  cn_inputBuffer :: buffer
  cn_outputBuffer :: buffer
  sock_sent :: "char list"
  sock_shutdown :: bool
  cn_delayedClose :: "rat list"

datatype user_event = On_connection | On_message timestamp | On_close

type_synonym user_code = "user_event \<Rightarrow> conn \<Rightarrow> conn outcome"

text \<open>
  The outcome of a call of \<open>write\<close>: an error with its \<open>errno\<close>, or success with room for a number
  of bytes. As documented, \<open>write\<close> takes at most the bytes offered.
\<close>

datatype write_result = Room nat | Write_error int

definition write_count :: "write_result \<Rightarrow> char list \<Rightarrow> nat" where
  "write_count res data = (case res of Room n \<Rightarrow> min n (length data) | Write_error _ \<Rightarrow> 0)"

definition write_succeeds :: "write_result \<Rightarrow> bool" where
  "write_succeeds res = (case res of Room _ \<Rightarrow> True | Write_error _ \<Rightarrow> False)"

definition EWOULDBLOCK :: int where "EWOULDBLOCK = 11"
definition EPIPE :: int where "EPIPE = 32"
definition ECONNRESET :: int where "ECONNRESET = 104"

text \<open>\<open>sockets::write\<close> of \<open>data\<close>: what the socket has taken is added to its history.\<close>

definition sockets_write :: "write_result \<Rightarrow> char list \<Rightarrow> conn \<Rightarrow> conn" where
  "sockets_write res data s = s\<lparr>sock_sent := sock_sent s @ take (write_count res data) data\<rparr>"

definition TcpConnection_connected :: "conn \<Rightarrow> bool" where
  "TcpConnection_connected s = (cn_state s = kConnected)"

definition TcpConnection_disconnected :: "conn \<Rightarrow> bool" where
  "TcpConnection_disconnected s = (cn_state s = kDisconnected)"

definition TcpConnection_setState :: "conn_state \<Rightarrow> conn \<Rightarrow> conn" where
  "TcpConnection_setState st s = s\<lparr>cn_state := st\<rparr>"

definition TcpConnection_isWriting :: "conn \<Rightarrow> bool" where
  "TcpConnection_isWriting s = Channel_isWriting (r_chans s (cn_channel s))"

definition TcpConnection_isReading :: "conn \<Rightarrow> bool" where
  "TcpConnection_isReading s = cn_reading s"

text \<open>The constructor, for a channel at address \<open>c\<close> on the loop \<open>r\<close>.\<close>

definition TcpConnection_new :: "string \<Rightarrow> int \<Rightarrow> nat \<Rightarrow> conn_cb reactor \<Rightarrow> conn" where
  "TcpConnection_new nameArg sockfd c r =
     (let ch = Channel_setErrorCallback Cb_handleError (Channel_setCloseCallback Cb_handleClose
                 (Channel_setWriteCallback Cb_handleWrite (Channel_setReadCallback Cb_handleRead
                   (Channel_new (r_loop r) sockfd))))
      in reactor.extend (chan_upd c (\<lambda>_. ch) r)
        \<lparr>cn_name = nameArg, cn_state = kConnecting, cn_reading = False, cn_channel = c,
         cn_highWaterMark = 64 * 1024 * 1024, cn_hasWriteComplete = False, cn_hasHighWaterMark = False,
         cn_inputBuffer = Buffer_new kInitialSize, cn_outputBuffer = Buffer_new kInitialSize,
         sock_sent = [], sock_shutdown = False, cn_delayedClose = []\<rparr>)"

text \<open>The assertion of the destructor.\<close>

definition TcpConnection_destroy :: "conn \<Rightarrow> unit outcome" where
  "TcpConnection_destroy s = assert_that (cn_state s = kDisconnected)"

definition TcpConnection_stateToString :: "conn \<Rightarrow> string" where
  "TcpConnection_stateToString s = (case cn_state s of
     kDisconnected \<Rightarrow> ''kDisconncted'' | kConnecting \<Rightarrow> ''kConnecting''
   | kConnected \<Rightarrow> ''kConnected'' | kDisconnecting \<Rightarrow> ''kDisconnecting'')"

definition defaultMessageCallback :: "conn \<Rightarrow> conn" where
  "defaultMessageCallback s = s\<lparr>cn_inputBuffer := Buffer_retrieveAll (cn_inputBuffer s)\<rparr>"

definition TcpConnection_setWriteCompleteCallback :: "conn \<Rightarrow> conn" where
  "TcpConnection_setWriteCompleteCallback s = s\<lparr>cn_hasWriteComplete := True\<rparr>"

definition TcpConnection_setHighWaterMarkCallback :: "nat \<Rightarrow> conn \<Rightarrow> conn" where
  "TcpConnection_setHighWaterMarkCallback mark s = s\<lparr>cn_hasHighWaterMark := True, cn_highWaterMark := mark\<rparr>"

subsection \<open>Sending\<close>

text \<open>
  \<open>sendInLoop(const void*, size_t)\<close>. \<open>res\<close> is the outcome of the direct \<open>write\<close>, which is only
  called when nothing is queued.
\<close>

definition TcpConnection_sendInLoop :: "int \<Rightarrow> write_result \<Rightarrow> char list \<Rightarrow> conn \<Rightarrow> conn outcome" where
  "TcpConnection_sendInLoop tid res data s = do {
     EventLoop_assertInLoopThread tid s;
     if cn_state s = kDisconnected then Some s
     else do {
       let direct = \<not> TcpConnection_isWriting s \<and> Buffer_readableBytes (cn_outputBuffer s) = 0;
       let s1 = (if direct then sockets_write res data s else s);
       let nwrote = (if direct then write_count res data else 0);
       let remaining = length data - nwrote;
       let s2 = (if direct \<and> write_succeeds res \<and> remaining = 0 \<and> cn_hasWriteComplete s1
                 then EventLoop_queueInLoop tid Cb_writeComplete s1 else s1);
       let faultError = (direct \<and> (res = Write_error EPIPE \<or> res = Write_error ECONNRESET));
       assert_that (remaining \<le> length data);
       if \<not> faultError \<and> 0 < remaining
       then do {
         let oldlen = Buffer_readableBytes (cn_outputBuffer s2);
         let s3 = (if cn_highWaterMark s2 \<le> oldlen + remaining \<and> oldlen < cn_highWaterMark s2
                      \<and> cn_hasHighWaterMark s2
                   then EventLoop_queueInLoop tid (Cb_highWaterMark (oldlen + remaining)) s2 else s2);
         b \<leftarrow> Buffer_append (drop nwrote data) (cn_outputBuffer s3);
         let s4 = s3\<lparr>cn_outputBuffer := b\<rparr>;
         if \<not> TcpConnection_isWriting s4 then Channel_enableWriting tid (cn_channel s4) s4 else Some s4
       }
       else Some s2
     }
   }"

text \<open>\<open>send(StringPiece)\<close>, \<open>send(const void*, int)\<close> and \<open>send(string&&)\<close>: at once on the loop
  thread, queued with a copy of the message on another. The length of a \<open>StringPiece\<close> is an \<open>int\<close>, so
  the messages of these overloads are shorter than \<open>2 ^ 31\<close> bytes.\<close>

definition TcpConnection_send :: "int \<Rightarrow> write_result \<Rightarrow> char list \<Rightarrow> conn \<Rightarrow> conn outcome" where
  "TcpConnection_send tid res message s =
     (if cn_state s = kConnected
      then (if EventLoop_isInLoopThread tid s
            then TcpConnection_sendInLoop tid res message s
            else EventLoop_runInLoop (\<lambda>_. TcpConnection_sendInLoop tid res message) tid (Cb_sendInLoop message) s)
      else Some s)"

text \<open>\<open>send(Buffer*)\<close>, which also returns the emptied buffer.\<close>

definition TcpConnection_sendBuffer :: "int \<Rightarrow> write_result \<Rightarrow> buffer \<Rightarrow> conn \<Rightarrow> (buffer \<times> conn) outcome" where
  "TcpConnection_sendBuffer tid res buf s =
     (if cn_state s = kConnected
      then (if EventLoop_isInLoopThread tid s
            then do {
              s1 \<leftarrow> TcpConnection_sendInLoop tid res (Buffer_content buf) s;
              Some (Buffer_retrieveAll buf, s1)
            }
            else do {
              (msg, buf1) \<leftarrow> Buffer_retrieveAllAsString buf;
              s1 \<leftarrow> EventLoop_runInLoop (\<lambda>_. TcpConnection_sendInLoop tid res msg) tid (Cb_sendInLoop msg) s;
              Some (buf1, s1)
            })
      else Some (buf, s))"

subsection \<open>Closing\<close>

definition TcpConnection_shutdownInLoop :: "int \<Rightarrow> conn \<Rightarrow> conn outcome" where
  "TcpConnection_shutdownInLoop tid s = do {
     EventLoop_assertInLoopThread tid s;
     if \<not> TcpConnection_isWriting s then Some (s\<lparr>sock_shutdown := True\<rparr>) else Some s
   }"

definition TcpConnection_shutdown :: "int \<Rightarrow> conn \<Rightarrow> conn outcome" where
  "TcpConnection_shutdown tid s =
     (if cn_state s = kConnected
      then EventLoop_runInLoop (\<lambda>_. TcpConnection_shutdownInLoop tid) tid Cb_shutdownInLoop
             (TcpConnection_setState kDisconnecting s)
      else Some s)"

definition TcpConnection_forceClose :: "int \<Rightarrow> conn \<Rightarrow> conn" where
  "TcpConnection_forceClose tid s =
     (if cn_state s = kConnected \<or> cn_state s = kDisconnecting
      then EventLoop_queueInLoop tid Cb_forceCloseInLoop (TcpConnection_setState kDisconnecting s)
      else s)"

definition TcpConnection_forceCloseWithDelay :: "rat \<Rightarrow> conn \<Rightarrow> conn" where
  "TcpConnection_forceCloseWithDelay seconds s =
     (if cn_state s = kConnected \<or> cn_state s = kDisconnecting
      then (TcpConnection_setState kDisconnecting s)\<lparr>cn_delayedClose := cn_delayedClose s @ [seconds]\<rparr>
      else s)"

definition TcpConnection_handleClose :: "user_code \<Rightarrow> int \<Rightarrow> conn \<Rightarrow> conn outcome" where
  "TcpConnection_handleClose user tid s = do {
     EventLoop_assertInLoopThread tid s;
     assert_that (cn_state s = kConnected \<or> cn_state s = kDisconnecting);
     s \<leftarrow> Channel_disableAll tid (cn_channel s) (TcpConnection_setState kDisconnected s);
     s \<leftarrow> user On_connection s;
     user On_close s
   }"

definition TcpConnection_forceCloseInLoop :: "user_code \<Rightarrow> int \<Rightarrow> conn \<Rightarrow> conn outcome" where
  "TcpConnection_forceCloseInLoop user tid s = do {
     EventLoop_assertInLoopThread tid s;
     if cn_state s = kConnected \<or> cn_state s = kDisconnecting
     then TcpConnection_handleClose user tid s else Some s
   }"

subsection \<open>Reading\<close>

definition TcpConnection_startReadInLoop :: "int \<Rightarrow> conn \<Rightarrow> conn outcome" where
  "TcpConnection_startReadInLoop tid s = do {
     EventLoop_assertInLoopThread tid s;
     if \<not> cn_reading s \<or> \<not> Channel_isReading (r_chans s (cn_channel s))
     then do {
       s \<leftarrow> Channel_enableReading tid (cn_channel s) s;
       Some (s\<lparr>cn_reading := True\<rparr>)
     }
     else Some s
   }"

definition TcpConnection_startRead :: "int \<Rightarrow> conn \<Rightarrow> conn outcome" where
  "TcpConnection_startRead tid = EventLoop_runInLoop (\<lambda>_. TcpConnection_startReadInLoop tid) tid Cb_startReadInLoop"

definition TcpConnection_stopReadInLoop :: "int \<Rightarrow> conn \<Rightarrow> conn outcome" where
  "TcpConnection_stopReadInLoop tid s = do {
     EventLoop_assertInLoopThread tid s;
     if cn_reading s \<or> Channel_isReading (r_chans s (cn_channel s))
     then do {
       s \<leftarrow> Channel_disableReading tid (cn_channel s) s;
       Some (s\<lparr>cn_reading := False\<rparr>)
     }
     else Some s
   }"

definition TcpConnection_stopRead :: "int \<Rightarrow> conn \<Rightarrow> conn outcome" where
  "TcpConnection_stopRead tid = EventLoop_runInLoop (\<lambda>_. TcpConnection_stopReadInLoop tid) tid Cb_stopReadInLoop"

text \<open>\<open>self\<close> is the identity of the object the channel is tied to.\<close>

definition TcpConnection_connectEstablished :: "user_code \<Rightarrow> nat \<Rightarrow> int \<Rightarrow> conn \<Rightarrow> conn outcome" where
  "TcpConnection_connectEstablished user self tid s = do {
     EventLoop_assertInLoopThread tid s;
     assert_that (cn_state s = kConnecting);
     let s = chan_upd (cn_channel s) (Channel_tie self) (TcpConnection_setState kConnected s);
     s \<leftarrow> Channel_enableReading tid (cn_channel s) s;
     user On_connection s
   }"

definition TcpConnection_connectDestroyed :: "user_code \<Rightarrow> int \<Rightarrow> conn \<Rightarrow> conn outcome" where
  "TcpConnection_connectDestroyed user tid s = do {
     EventLoop_assertInLoopThread tid s;
     s \<leftarrow> (if cn_state s = kConnected
           then do {
             s \<leftarrow> Channel_disableAll tid (cn_channel s) (TcpConnection_setState kDisconnected s);
             user On_connection s
           }
           else Some s);
     Channel_remove tid (cn_channel s) s
   }"

text \<open>\<open>handleError\<close> only reads and logs \<open>SO_ERROR\<close>.\<close>

definition TcpConnection_handleError :: "conn \<Rightarrow> conn" where
  "TcpConnection_handleError s = s"

definition TcpConnection_handleRead ::
  "user_code \<Rightarrow> (nat list \<Rightarrow> read_result) \<Rightarrow> int \<Rightarrow> timestamp \<Rightarrow> conn \<Rightarrow> conn outcome" where
  "TcpConnection_handleRead user readv tid receiveTime s = do {
     EventLoop_assertInLoopThread tid s;
     (n, saveErrno, b) \<leftarrow> Buffer_readFd readv (cn_inputBuffer s);
     let s = s\<lparr>cn_inputBuffer := b\<rparr>;
     if 0 < n then user (On_message receiveTime) s
     else if n = 0 then TcpConnection_handleClose user tid s
     else Some (TcpConnection_handleError s)
   }"

definition TcpConnection_handleWrite :: "int \<Rightarrow> write_result \<Rightarrow> conn \<Rightarrow> conn outcome" where
  "TcpConnection_handleWrite tid res s = do {
     EventLoop_assertInLoopThread tid s;
     if TcpConnection_isWriting s
     then do {
       let n = write_count res (Buffer_content (cn_outputBuffer s));
       let s = sockets_write res (Buffer_content (cn_outputBuffer s)) s;
       if write_succeeds res \<and> 0 < n
       then do {
         b \<leftarrow> Buffer_retrieve n (cn_outputBuffer s);
         let s = s\<lparr>cn_outputBuffer := b\<rparr>;
         if Buffer_readableBytes b = 0
         then do {
           s \<leftarrow> Channel_disableWriting tid (cn_channel s) s;
           let s = (if cn_hasWriteComplete s then EventLoop_queueInLoop tid Cb_writeComplete s else s);
           if cn_state s = kDisconnecting then TcpConnection_shutdownInLoop tid s else Some s
         }
         else Some s
       }
       else Some s
     }
     else Some s
   }"

end
