(* ===== verification/TcpConnectionProps.thy ===== *)
theory TcpConnectionProps
  imports TcpConnection
begin

text \<open>
  Properties of a connection: the byte stream is kept in order through direct writes and the output
  buffer, a half-close waits for the queued output, and the life cycle of a connection.
\<close>

subsection \<open>The invariant of an established connection\<close>

text \<open>Writing is enabled exactly while output is queued.\<close>

definition conn_ok :: "int \<Rightarrow> conn \<Rightarrow> bool" where
  "conn_ok tid s =
     (reactor_ok tid s \<and> chan_of_loop (cn_channel s) s \<and> chan_registered (cn_channel s) s
    \<and> Buffer_inv (cn_inputBuffer s) \<and> Buffer_inv (cn_outputBuffer s)
    \<and> (TcpConnection_isWriting s \<longleftrightarrow> Buffer_content (cn_outputBuffer s) \<noteq> []))"

definition conn_stream :: "conn \<Rightarrow> char list" where
  "conn_stream s = sock_sent s @ Buffer_content (cn_outputBuffer s)"

lemma queue_frame [simp]:
  fixes s :: "('cb, 'z) reactor_scheme"
  shows "r_chans (EventLoop_queueInLoop tid f s) = r_chans s" "m_poller (EventLoop_queueInLoop tid f s) = m_poller s"
    "r_loop (EventLoop_queueInLoop tid f s) = r_loop s"
  by (simp_all add: EventLoop_queueInLoop_def EventLoop_wakeup_def queue_push_def Let_def)

lemma queue_conn_frame [simp]:
  fixes s :: conn
  shows "cn_state (EventLoop_queueInLoop tid f s) = cn_state s" "cn_channel (EventLoop_queueInLoop tid f s) = cn_channel s"
    "cn_inputBuffer (EventLoop_queueInLoop tid f s) = cn_inputBuffer s"
    "cn_outputBuffer (EventLoop_queueInLoop tid f s) = cn_outputBuffer s"
    "sock_sent (EventLoop_queueInLoop tid f s) = sock_sent s" "sock_shutdown (EventLoop_queueInLoop tid f s) = sock_shutdown s"
    "cn_hasWriteComplete (EventLoop_queueInLoop tid f s) = cn_hasWriteComplete s"
  by (simp_all add: EventLoop_queueInLoop_def EventLoop_wakeup_def queue_push_def Let_def)

text \<open>What the invariant reads of the loop: the channels, the poller and the identity of the loop.\<close>

lemma reactor_view_cong:
  fixes r :: "('cb, 'z) reactor_scheme" and q :: "('cb, 'y) reactor_scheme"
  assumes "r_chans r = r_chans q" "m_poller r = m_poller q" "r_loop r = r_loop q"
  shows "reactor_ok tid r = reactor_ok tid q" "chan_of_loop c r = chan_of_loop c q"
    "chan_registered c r = chan_registered c q"
  using assms by (simp_all add: reactor_ok_def chan_of_loop_def chan_registered_def)

lemma readable_zero_iff: "Buffer_inv b \<Longrightarrow> Buffer_readableBytes b = 0 \<longleftrightarrow> Buffer_content b = []"
  using length_Buffer_content by fastforce

lemma conn_ok_thread: "conn_ok tid s \<Longrightarrow> EventLoop_assertInLoopThread tid s = Some ()"
  by (simp add: conn_ok_def reactor_ok_def EventLoop_assertInLoopThread_def EventLoop_isInLoopThread_def)

text \<open>Switching writing on or off on a connection whose loop part is consistent.\<close>

lemma conn_writing:
  assumes ok: "reactor_ok tid s" "chan_of_loop (cn_channel s) s" "chan_registered (cn_channel s) s"
    and f: "f = events_enableWriting \<and> on = True \<or> f = events_disableWriting \<and> on = False"
  shows "\<exists>chs p. Channel_update tid (cn_channel s) (chan_upd (cn_channel s) (ch_events_update f) s)
        = Some (s\<lparr>r_chans := chs, m_poller := p\<rparr>)
    \<and> reactor_ok tid (s\<lparr>r_chans := chs, m_poller := p\<rparr>)
    \<and> chan_of_loop (cn_channel s) (s\<lparr>r_chans := chs, m_poller := p\<rparr>)
    \<and> chan_registered (cn_channel s) (s\<lparr>r_chans := chs, m_poller := p\<rparr>)
    \<and> (Channel_isWriting (chs (cn_channel s)) \<longleftrightarrow> on)"
proof -
  let ?c = "cn_channel s" and ?ev = "ch_events (r_chans s (cn_channel s))"
  have m: "interest_mask ?ev" using ok(2) by (simp add: chan_of_loop_def)
  then have fm: "interest_mask (f ?ev)" "has_event (f ?ev) kWriteEvent \<longleftrightarrow> on"
    using f interest_mask_enabled[OF m] by auto
  from Channel_update_events[where f = f, OF ok(1,2) fm(1) disjI1[OF ok(3)]] obtain i chs p where
    "Channel_update tid ?c (chan_upd ?c (ch_events_update f) s) = Some (s\<lparr>r_chans := chs, m_poller := p\<rparr>)"
    "reactor_ok tid (s\<lparr>r_chans := chs, m_poller := p\<rparr>)" "chan_registered ?c (s\<lparr>r_chans := chs, m_poller := p\<rparr>)"
    "chan_of_loop ?c (s\<lparr>r_chans := chs, m_poller := p\<rparr>)"
    "chs ?c = (r_chans s ?c)\<lparr>ch_events := f ?ev, ch_index := i, is_addedToLoop := True\<rparr>"
    by blast
  with fm(2) show ?thesis by (intro exI[of _ chs] exI[of _ p]) (simp add: Channel_isWriting_def)
qed

subsection \<open>The output path\<close>

text \<open>A state that differs from \<open>s\<close> only in what the socket was given and in the queued functors.\<close>

definition conn_sent :: "conn \<Rightarrow> char list \<Rightarrow> conn \<Rightarrow> bool" where
  "conn_sent s xs s' =
     (r_chans s' = r_chans s \<and> m_poller s' = m_poller s \<and> r_loop s' = r_loop s \<and> cn_state s' = cn_state s
    \<and> cn_channel s' = cn_channel s \<and> cn_inputBuffer s' = cn_inputBuffer s \<and> cn_outputBuffer s' = cn_outputBuffer s
    \<and> sock_shutdown s' = sock_shutdown s \<and> sock_sent s' = sock_sent s @ xs)"

lemma conn_sent_queue: "conn_sent s xs s' \<Longrightarrow> conn_sent s xs (EventLoop_queueInLoop tid f s')"
  by (simp add: conn_sent_def)

lemma conn_sent_ok: "conn_sent s xs s' \<Longrightarrow> conn_ok tid s \<Longrightarrow> conn_ok tid s'"
  using reactor_view_cong[of s' s] by (simp add: conn_sent_def conn_ok_def TcpConnection_isWriting_def)

text \<open>Writing is switched on, unless it is on already, when there is output to send.\<close>

lemma conn_enable:
  assumes parts: "reactor_ok tid s" "chan_of_loop (cn_channel s) s" "chan_registered (cn_channel s) s"
    and bufs: "Buffer_inv (cn_inputBuffer s)" "Buffer_inv (cn_outputBuffer s)" "Buffer_content (cn_outputBuffer s) \<noteq> []"
  shows "\<exists>s'. (if \<not> TcpConnection_isWriting s then Channel_enableWriting tid (cn_channel s) s else Some s) = Some s'
    \<and> conn_ok tid s' \<and> conn_stream s' = conn_stream s \<and> cn_state s' = cn_state s \<and> sock_shutdown s' = sock_shutdown s
    \<and> cn_inputBuffer s' = cn_inputBuffer s"
proof (cases "TcpConnection_isWriting s")
  case True
  with assms show ?thesis by (simp add: conn_ok_def)
next
  case False
  from conn_writing[OF parts, of events_enableWriting True] obtain chs p where
    upd: "Channel_enableWriting tid (cn_channel s) s = Some (s\<lparr>r_chans := chs, m_poller := p\<rparr>)"
    "reactor_ok tid (s\<lparr>r_chans := chs, m_poller := p\<rparr>)" "chan_of_loop (cn_channel s) (s\<lparr>r_chans := chs, m_poller := p\<rparr>)"
    "chan_registered (cn_channel s) (s\<lparr>r_chans := chs, m_poller := p\<rparr>)" "Channel_isWriting (chs (cn_channel s))"
    unfolding Channel_enableWriting_def by auto
  let ?s' = "s\<lparr>r_chans := chs, m_poller := p\<rparr>"
  have "conn_ok tid ?s'" using upd bufs by (simp add: conn_ok_def TcpConnection_isWriting_def)
  with upd(1) False show ?thesis by (intro exI[of _ ?s']) (simp add: conn_stream_def)
qed

text \<open>What the socket did not take is queued behind what is queued already.\<close>

lemma sendInLoop_rest:
  assumes ok: "conn_ok tid s" and sent: "conn_sent s (take k data) s3" and k: "k < length data"
    and empty: "k \<noteq> 0 \<Longrightarrow> Buffer_content (cn_outputBuffer s) = []"
  shows "\<exists>s'. Buffer_append (drop k data) (cn_outputBuffer s3) \<bind> (\<lambda>b.
         if \<not> TcpConnection_isWriting (s3\<lparr>cn_outputBuffer := b\<rparr>)
         then Channel_enableWriting tid (cn_channel (s3\<lparr>cn_outputBuffer := b\<rparr>)) (s3\<lparr>cn_outputBuffer := b\<rparr>)
         else Some (s3\<lparr>cn_outputBuffer := b\<rparr>)) = Some s' \<and> conn_ok tid s'
    \<and> conn_stream s' = conn_stream s @ data \<and> cn_state s' = cn_state s \<and> sock_shutdown s' = sock_shutdown s
    \<and> cn_inputBuffer s' = cn_inputBuffer s"
proof -
  have ok3: "conn_ok tid s3" using conn_sent_ok[OF sent ok] .
  then have inv: "Buffer_inv (cn_outputBuffer s3)" by (simp add: conn_ok_def)
  from Buffer_append_spec[OF inv, of "drop k data"] obtain b where
    b: "Buffer_append (drop k data) (cn_outputBuffer s3) = Some b" "Buffer_inv b"
    "Buffer_content b = Buffer_content (cn_outputBuffer s3) @ drop k data" by auto
  let ?s4 = "s3\<lparr>cn_outputBuffer := b\<rparr>"
  have stream: "conn_stream ?s4 = conn_stream s @ data"
    using empty b(3) sent by (cases "k = 0") (auto simp: conn_stream_def conn_sent_def)
  have "reactor_ok tid ?s4" "chan_of_loop (cn_channel ?s4) ?s4" "chan_registered (cn_channel ?s4) ?s4"
    "Buffer_inv (cn_inputBuffer ?s4)" "Buffer_inv (cn_outputBuffer ?s4)" "Buffer_content (cn_outputBuffer ?s4) \<noteq> []"
    using ok3 b(2,3) k reactor_view_cong[of ?s4 s3] by (simp_all add: conn_ok_def)
  from conn_enable[OF this] obtain s' where
    "(if \<not> TcpConnection_isWriting ?s4 then Channel_enableWriting tid (cn_channel ?s4) ?s4 else Some ?s4) = Some s'"
    "conn_ok tid s'" "conn_stream s' = conn_stream ?s4" "cn_state s' = cn_state ?s4" "sock_shutdown s' = sock_shutdown ?s4"
    "cn_inputBuffer s' = cn_inputBuffer ?s4" by blast
  then show ?thesis using b(1) stream sent by (intro exI[of _ s']) (simp add: conn_sent_def)
qed

lemma sendInLoop_step:
  assumes ok: "conn_ok tid s" and live: "cn_state s \<noteq> kDisconnected"
    and nofault: "res \<noteq> Write_error EPIPE" "res \<noteq> Write_error ECONNRESET"
  shows "\<exists>s'. TcpConnection_sendInLoop tid res data s = Some s' \<and> conn_ok tid s'
    \<and> conn_stream s' = conn_stream s @ data \<and> cn_state s' = cn_state s \<and> sock_shutdown s' = sock_shutdown s
    \<and> cn_inputBuffer s' = cn_inputBuffer s"
proof -
  let ?direct = "\<not> TcpConnection_isWriting s \<and> Buffer_readableBytes (cn_outputBuffer s) = 0"
  define s1 where "s1 = (if ?direct then sockets_write res data s else s)"
  define k where "k = (if ?direct then write_count res data else 0)"
  define s2 where "s2 = (if ?direct \<and> write_succeeds res \<and> length data - k = 0 \<and> cn_hasWriteComplete s1
                 then EventLoop_queueInLoop tid Cb_writeComplete s1 else s1)"
  define s3 where "s3 = (if cn_highWaterMark s2 \<le> Buffer_readableBytes (cn_outputBuffer s2) + (length data - k)
                      \<and> Buffer_readableBytes (cn_outputBuffer s2) < cn_highWaterMark s2 \<and> cn_hasHighWaterMark s2
                   then EventLoop_queueInLoop tid (Cb_highWaterMark (Buffer_readableBytes (cn_outputBuffer s2) + (length data - k))) s2
                   else s2)"
  have k: "k \<le> length data" by (simp add: k_def write_count_def split: write_result.splits)
  have "conn_sent s (take k data) s1" by (simp add: s1_def k_def sockets_write_def conn_sent_def)
  then have s2: "conn_sent s (take k data) s2" unfolding s2_def using conn_sent_queue by auto
  then have s3: "conn_sent s (take k data) s3" unfolding s3_def using conn_sent_queue by auto
  have empty: "k \<noteq> 0 \<Longrightarrow> Buffer_content (cn_outputBuffer s) = []"
    using readable_zero_iff[of "cn_outputBuffer s"] ok by (auto simp: k_def conn_ok_def split: if_splits)
  have eq: "TcpConnection_sendInLoop tid res data s =
      (if 0 < length data - k
       then Buffer_append (drop k data) (cn_outputBuffer s3) \<bind> (\<lambda>b.
         if \<not> TcpConnection_isWriting (s3\<lparr>cn_outputBuffer := b\<rparr>)
         then Channel_enableWriting tid (cn_channel (s3\<lparr>cn_outputBuffer := b\<rparr>)) (s3\<lparr>cn_outputBuffer := b\<rparr>)
         else Some (s3\<lparr>cn_outputBuffer := b\<rparr>))
       else Some s2)"
    unfolding TcpConnection_sendInLoop_def Let_def s1_def[symmetric] k_def[symmetric] s2_def[symmetric] s3_def[symmetric]
    using live conn_ok_thread[OF ok] nofault k by simp
  show ?thesis
  proof (cases "k < length data")
    case True
    with sendInLoop_rest[OF ok s3 True empty] show ?thesis by (simp add: eq)
  next
    case False
    then have all: "take k data = data" "TcpConnection_sendInLoop tid res data s = Some s2" by (simp_all add: eq)
    have "conn_stream s2 = conn_stream s @ data"
      using all(1) empty s2 by (cases "k = 0") (auto simp: conn_stream_def conn_sent_def)
    with all(2) conn_sent_ok[OF s2 ok] s2 show ?thesis by (auto simp: conn_sent_def)
  qed
qed

text \<open>When all output is written, writing is switched off, the callback is queued and a waiting half-close happens.\<close>

lemma handleWrite_drained:
  assumes parts: "reactor_ok tid s" "chan_of_loop (cn_channel s) s" "chan_registered (cn_channel s) s"
    and bufs: "Buffer_inv (cn_inputBuffer s)" "Buffer_inv (cn_outputBuffer s)" "Buffer_content (cn_outputBuffer s) = []"
  shows "\<exists>s'. Channel_disableWriting tid (cn_channel s) s \<bind> (\<lambda>s.
       let s = (if cn_hasWriteComplete s then EventLoop_queueInLoop tid Cb_writeComplete s else s) in
       if cn_state s = kDisconnecting then TcpConnection_shutdownInLoop tid s else Some s) = Some s'
    \<and> conn_ok tid s' \<and> conn_stream s' = conn_stream s \<and> cn_state s' = cn_state s
    \<and> cn_outputBuffer s' = cn_outputBuffer s \<and> (sock_shutdown s' \<longleftrightarrow> sock_shutdown s \<or> cn_state s = kDisconnecting)"
proof -
  from conn_writing[OF parts, of events_disableWriting False] obtain chs p where
    upd: "Channel_disableWriting tid (cn_channel s) s = Some (s\<lparr>r_chans := chs, m_poller := p\<rparr>)"
    "reactor_ok tid (s\<lparr>r_chans := chs, m_poller := p\<rparr>)" "chan_of_loop (cn_channel s) (s\<lparr>r_chans := chs, m_poller := p\<rparr>)"
    "chan_registered (cn_channel s) (s\<lparr>r_chans := chs, m_poller := p\<rparr>)" "\<not> Channel_isWriting (chs (cn_channel s))"
    unfolding Channel_disableWriting_def by auto
  define s2 where "s2 = s\<lparr>r_chans := chs, m_poller := p\<rparr>"
  define s3 where "s3 = (if cn_hasWriteComplete s2 then EventLoop_queueInLoop tid Cb_writeComplete s2 else s2)"
  have "conn_ok tid s2" using upd bufs by (simp add: s2_def conn_ok_def TcpConnection_isWriting_def)
  moreover have s3: "conn_sent s2 [] s3"
    using conn_sent_queue[of s2 "[]" s2] by (simp add: s3_def) (simp add: conn_sent_def)
  ultimately have ok3: "conn_ok tid s3" using conn_sent_ok by blast
  let ?s4 = "if cn_state s3 = kDisconnecting then s3\<lparr>sock_shutdown := True\<rparr> else s3"
  have off: "\<not> TcpConnection_isWriting s3" using s3 upd(5) by (simp add: conn_sent_def s2_def TcpConnection_isWriting_def)
  have "conn_ok tid ?s4"
    using ok3 reactor_view_cong[of "s3\<lparr>sock_shutdown := True\<rparr>" s3] by (simp add: conn_ok_def TcpConnection_isWriting_def)
  moreover have "Channel_disableWriting tid (cn_channel s) s \<bind> (\<lambda>s.
       let s = (if cn_hasWriteComplete s then EventLoop_queueInLoop tid Cb_writeComplete s else s) in
       if cn_state s = kDisconnecting then TcpConnection_shutdownInLoop tid s else Some s) = Some ?s4"
    using upd(1) conn_ok_thread[OF ok3] off
    by (simp add: s2_def[symmetric] s3_def[symmetric] Let_def TcpConnection_shutdownInLoop_def)
  moreover have "conn_stream ?s4 = conn_stream s" "cn_state ?s4 = cn_state s" "cn_outputBuffer ?s4 = cn_outputBuffer s"
    "sock_shutdown ?s4 \<longleftrightarrow> sock_shutdown s \<or> cn_state s = kDisconnecting"
    using s3 by (simp_all add: conn_sent_def s2_def conn_stream_def)
  ultimately show ?thesis by blast
qed

lemma handleWrite_step:
  assumes ok: "conn_ok tid s"
  shows "\<exists>s'. TcpConnection_handleWrite tid res s = Some s' \<and> conn_ok tid s'
    \<and> conn_stream s' = conn_stream s \<and> cn_state s' = cn_state s
    \<and> (sock_shutdown s' \<longleftrightarrow> sock_shutdown s \<or> cn_state s = kDisconnecting
          \<and> Buffer_content (cn_outputBuffer s) \<noteq> [] \<and> Buffer_content (cn_outputBuffer s') = [])"
proof (cases "TcpConnection_isWriting s \<and> write_succeeds res \<and> 0 < write_count res (Buffer_content (cn_outputBuffer s))")
  let ?out = "Buffer_content (cn_outputBuffer s)" and ?n = "write_count res (Buffer_content (cn_outputBuffer s))"
  have inv: "Buffer_inv (cn_inputBuffer s)" "Buffer_inv (cn_outputBuffer s)" and writing: "TcpConnection_isWriting s \<longleftrightarrow> ?out \<noteq> []"
    using ok by (simp_all add: conn_ok_def)
  note thread = conn_ok_thread[OF ok]
  {
    case False
    then have "take ?n ?out = []" using writing by (auto simp: write_count_def write_succeeds_def split: write_result.splits)
    then have "sockets_write res ?out s = s" by (simp add: sockets_write_def)
    with False thread have "TcpConnection_handleWrite tid res s = Some s"
      by (auto simp: TcpConnection_handleWrite_def Let_def)
    with ok show ?thesis by auto
  next
    case True
    have "?n \<le> length ?out" by (simp add: write_count_def split: write_result.splits)
    from Buffer_retrieve_spec[OF inv(2) this] obtain b where
      b: "Buffer_retrieve ?n (cn_outputBuffer s) = Some b" "Buffer_inv b" "Buffer_content b = drop ?n ?out" by auto
    let ?s1 = "(sockets_write res ?out s)\<lparr>cn_outputBuffer := b\<rparr>"
    have parts: "reactor_ok tid ?s1" "chan_of_loop (cn_channel ?s1) ?s1" "chan_registered (cn_channel ?s1) ?s1"
      "Buffer_inv (cn_inputBuffer ?s1)" "Buffer_inv (cn_outputBuffer ?s1)"
      using ok b(2) reactor_view_cong[of ?s1 s] by (simp_all add: conn_ok_def sockets_write_def)
    have frame: "conn_stream ?s1 = conn_stream s" "cn_state ?s1 = cn_state s" "sock_shutdown ?s1 = sock_shutdown s"
      using b(3) by (simp_all add: conn_stream_def sockets_write_def)
    have eq: "TcpConnection_handleWrite tid res s = (if Buffer_content b = []
        then Channel_disableWriting tid (cn_channel ?s1) ?s1 \<bind> (\<lambda>s.
          let s = (if cn_hasWriteComplete s then EventLoop_queueInLoop tid Cb_writeComplete s else s) in
          if cn_state s = kDisconnecting then TcpConnection_shutdownInLoop tid s else Some s)
        else Some ?s1)"
      using True thread b(1) readable_zero_iff[OF b(2)] by (simp add: TcpConnection_handleWrite_def Let_def sockets_write_def)
    show ?thesis
    proof (cases "Buffer_content b = []")
      case more: False
      have "conn_ok tid ?s1" using parts more True by (simp add: conn_ok_def TcpConnection_isWriting_def sockets_write_def)
      then show ?thesis using eq frame more by (intro exI[of _ ?s1]) simp
    next
      case drained: True
      then have "Buffer_content (cn_outputBuffer ?s1) = []" by simp
      from handleWrite_drained[OF parts this] obtain s' where
        "TcpConnection_handleWrite tid res s = Some s'" "conn_ok tid s'" "conn_stream s' = conn_stream ?s1" "cn_state s' = cn_state ?s1"
        "cn_outputBuffer s' = cn_outputBuffer ?s1" "sock_shutdown s' \<longleftrightarrow> sock_shutdown ?s1 \<or> cn_state ?s1 = kDisconnecting"
        using eq drained by auto
      then show ?thesis using frame drained True writing by (intro exI[of _ s']) simp
    qed
  }
qed

lemma handleWrite_input:
  assumes "TcpConnection_handleWrite tid res s = Some s'"
  shows "cn_inputBuffer s' = cn_inputBuffer s"
  using assms
  by (auto simp: TcpConnection_handleWrite_def TcpConnection_shutdownInLoop_def sockets_write_def Let_def
      Channel_disableWriting_def Channel_update_def EventLoop_updateChannel_def chan_upd_def
      split: bind_splits if_splits)

text \<open>\<open>shutdown\<close> on the loop thread: the half-close happens at once when nothing is queued.\<close>

lemma shutdown_step:
  assumes ok: "conn_ok tid s" and st: "cn_state s = kConnected"
  shows "\<exists>s1. TcpConnection_shutdown tid s = Some s1 \<and> cn_state s1 = kDisconnecting \<and> conn_ok tid s1
    \<and> conn_stream s1 = conn_stream s \<and> cn_inputBuffer s1 = cn_inputBuffer s \<and> cn_outputBuffer s1 = cn_outputBuffer s
    \<and> (sock_shutdown s1 \<longleftrightarrow> sock_shutdown s \<or> Buffer_content (cn_outputBuffer s) = [])"
proof -
  let ?s0 = "TcpConnection_setState kDisconnecting s"
  let ?s1 = "if TcpConnection_isWriting s then ?s0 else ?s0\<lparr>sock_shutdown := True\<rparr>"
  have thread: "EventLoop_isInLoopThread tid ?s0" "EventLoop_assertInLoopThread tid ?s0 = Some ()"
    using ok by (simp_all add: conn_ok_def reactor_ok_def EventLoop_isInLoopThread_def
        EventLoop_assertInLoopThread_def TcpConnection_setState_def)
  have run: "TcpConnection_shutdown tid s = Some ?s1"
    using st thread
    by (simp add: TcpConnection_shutdown_def EventLoop_runInLoop_def TcpConnection_shutdownInLoop_def
        TcpConnection_isWriting_def TcpConnection_setState_def)
  have "conn_ok tid ?s1 \<and> cn_state ?s1 = kDisconnecting \<and> conn_stream ?s1 = conn_stream s
      \<and> cn_inputBuffer ?s1 = cn_inputBuffer s \<and> cn_outputBuffer ?s1 = cn_outputBuffer s
      \<and> (sock_shutdown ?s1 \<longleftrightarrow> sock_shutdown s \<or> Buffer_content (cn_outputBuffer s) = [])"
    using ok reactor_view_cong[of "s\<lparr>cn_state := kDisconnecting\<rparr>" s]
      reactor_view_cong[of "s\<lparr>cn_state := kDisconnecting, sock_shutdown := True\<rparr>" s]
    by (auto simp: conn_ok_def TcpConnection_setState_def TcpConnection_isWriting_def conn_stream_def)
  with run show ?thesis by blast
qed

subsection \<open>Properties\<close>

text \<open>The output side of a connection sees messages to send and reports that the socket is writable.\<close>

datatype conn_io = Io_send "char list" write_result | Io_writable write_result

definition conn_io_step :: "int \<Rightarrow> conn_io \<Rightarrow> conn \<Rightarrow> conn outcome" where
  "conn_io_step tid io s = (case io of
     Io_send data res \<Rightarrow> TcpConnection_sendInLoop tid res data s
   | Io_writable res \<Rightarrow> TcpConnection_handleWrite tid res s)"

definition io_data :: "conn_io \<Rightarrow> char list" where
  "io_data io = (case io of Io_send data _ \<Rightarrow> data | Io_writable _ \<Rightarrow> [])"

definition io_reset :: "conn_io \<Rightarrow> bool" where
  "io_reset io = (case io of Io_send _ res \<Rightarrow> res = Write_error EPIPE \<or> res = Write_error ECONNRESET | _ \<Rightarrow> False)"

lemma conn_io_run:
  assumes "conn_ok tid s" and "cn_state s \<noteq> kDisconnected" and "\<And>io. io \<in> set ios \<Longrightarrow> \<not> io_reset io"
  shows "\<exists>s'. for_each (conn_io_step tid) ios s = Some s' \<and> conn_ok tid s' \<and> cn_state s' = cn_state s
    \<and> conn_stream s' = conn_stream s @ concat (map io_data ios)"
  using assms
proof (induction ios arbitrary: s)
  case Nil
  then show ?case by simp
next
  case (Cons io ios)
  have "\<exists>t. conn_io_step tid io s = Some t \<and> conn_ok tid t \<and> cn_state t = cn_state s
      \<and> conn_stream t = conn_stream s @ io_data io"
    using sendInLoop_step[OF Cons.prems(1,2)] handleWrite_step[OF Cons.prems(1)] Cons.prems(3)[of io]
    by (cases io) (fastforce simp: conn_io_step_def io_data_def io_reset_def)+
  then obtain t where t: "conn_io_step tid io s = Some t" "conn_ok tid t" "cn_state t = cn_state s"
    "conn_stream t = conn_stream s @ io_data io" by blast
  from Cons.IH[OF t(2)] t Cons.prems(2,3) show ?case by auto
qed

text \<open>C2: The byte stream of a connection is exact. On a connection that is not disconnected, for every
  sequence of messages and writable events and every behaviour of \<open>write\<close> short of a reset (full,
  partial and blocked writes, other errors), nothing fails, and the bytes the socket has taken
  followed by the queued output are the old ones followed by the messages in order: nothing is
  lost, repeated or reordered, and writing stays enabled exactly while output is queued.\<close>

theorem TcpConnection_stream_exact:
  assumes "conn_ok tid s" and "cn_state s \<noteq> kDisconnected" and "\<And>io. io \<in> set ios \<Longrightarrow> \<not> io_reset io"
  shows "\<exists>s'. for_each (conn_io_step tid) ios s = Some s'
    \<and> sock_sent s' @ Buffer_content (cn_outputBuffer s')
        = sock_sent s @ Buffer_content (cn_outputBuffer s) @ concat (map io_data ios)
    \<and> (TcpConnection_isWriting s' \<longleftrightarrow> Buffer_content (cn_outputBuffer s') \<noteq> []) \<and> conn_ok tid s'"
  using conn_io_run[OF assms] by (auto simp: conn_stream_def conn_ok_def)

text \<open>C16: A half-close waits for the queued output. After \<open>shutdown()\<close> of a connected connection on
  its loop thread the state is \<open>kDisconnecting\<close>, and along any further writable events the write half
  of the socket is shut down exactly when all the output queued before has been written.\<close>

theorem TcpConnection_shutdown_flushes:
  assumes ok: "conn_ok tid s" and st: "cn_state s = kConnected" and open_half: "\<not> sock_shutdown s"
  shows "\<exists>s1. TcpConnection_shutdown tid s = Some s1 \<and> cn_state s1 = kDisconnecting
    \<and> (\<forall>rs. \<exists>s2. for_each (TcpConnection_handleWrite tid) rs s1 = Some s2
          \<and> (sock_shutdown s2 \<longleftrightarrow> Buffer_content (cn_outputBuffer s2) = [])
          \<and> sock_sent s2 @ Buffer_content (cn_outputBuffer s2) = sock_sent s @ Buffer_content (cn_outputBuffer s))"
proof -
  from shutdown_step[OF ok st] open_half obtain s1 where run: "TcpConnection_shutdown tid s = Some s1"
    and ok1: "conn_ok tid s1" and st1: "cn_state s1 = kDisconnecting" and str1: "conn_stream s1 = conn_stream s"
    and sd1: "sock_shutdown s1 \<longleftrightarrow> Buffer_content (cn_outputBuffer s1) = []" by auto
  have "\<exists>s2. for_each (TcpConnection_handleWrite tid) rs t = Some s2
          \<and> (sock_shutdown s2 \<longleftrightarrow> Buffer_content (cn_outputBuffer s2) = []) \<and> conn_stream s2 = conn_stream s"
    if "conn_ok tid t" "cn_state t = kDisconnecting" "conn_stream t = conn_stream s"
      "sock_shutdown t \<longleftrightarrow> Buffer_content (cn_outputBuffer t) = []" for rs t
    using that
  proof (induction rs arbitrary: t)
    case (Cons r rs)
    from handleWrite_step[OF Cons.prems(1), of r] obtain u where
      u: "TcpConnection_handleWrite tid r t = Some u" "conn_ok tid u" "conn_stream u = conn_stream t"
      "cn_state u = cn_state t"
      "sock_shutdown u \<longleftrightarrow> sock_shutdown t \<or> cn_state t = kDisconnecting
          \<and> Buffer_content (cn_outputBuffer t) \<noteq> [] \<and> Buffer_content (cn_outputBuffer u) = []" by blast
    have "Buffer_content (cn_outputBuffer t) = [] \<Longrightarrow> Buffer_content (cn_outputBuffer u) = []"
      using Cons.prems(1) u(1) conn_ok_thread[OF Cons.prems(1)]
      by (auto simp: conn_ok_def TcpConnection_handleWrite_def)
    with u Cons.prems have "sock_shutdown u \<longleftrightarrow> Buffer_content (cn_outputBuffer u) = []" by auto
    with Cons.IH[of u] u Cons.prems show ?case by auto
  qed auto
  from this[OF ok1 st1 str1 sd1] run st1 show ?thesis by (auto simp: conn_stream_def)
qed

subsection \<open>The life of a connection\<close>

lemma chan_new_ok:
  fixes r :: "('cb, 'z) reactor_scheme"
  assumes ok: "reactor_ok tid r" and c: "c \<notin> ran (Poller_channels (m_poller r))"
    and fd: "Poller_channels (m_poller r) fd = None" "0 \<le> fd"
    and ch: "ch_loop ch = r_loop r" "ch_fd ch = fd" "ch_events ch = 0" "ch_index ch = -1"
  shows "reactor_ok tid (chan_upd c (\<lambda>_. ch) r)" "chan_of_loop c (chan_upd c (\<lambda>_. ch) r)" "chan_fresh c (chan_upd c (\<lambda>_. ch) r)"
proof -
  have "Poller_inv ((r_chans r)(c := ch), m_poller r)"
    using ok c by (auto simp: reactor_ok_def intro: any_p.inv_untracked)
  moreover have "d \<noteq> c" if "Poller_channels (m_poller r) f = Some d" for f d
    using that c by (auto simp: ran_def)
  ultimately show "reactor_ok tid (chan_upd c (\<lambda>_. ch) r)" using ok by (auto simp: reactor_ok_def)
  show "chan_of_loop c (chan_upd c (\<lambda>_. ch) r)" "chan_fresh c (chan_upd c (\<lambda>_. ch) r)"
    using fd ch by (simp_all add: chan_of_loop_def chan_fresh_def)
qed

text \<open>User code that only reads and consumes input.\<close>

definition passive_user :: "user_code \<Rightarrow> bool" where
  "passive_user user = (\<forall>e s. \<exists>b. user e s = Some (s\<lparr>cn_inputBuffer := b\<rparr>) \<and> (Buffer_inv (cn_inputBuffer s) \<longrightarrow> Buffer_inv b))"

lemma passive_userE:
  assumes "passive_user user"
  obtains b where "user e s = Some (s\<lparr>cn_inputBuffer := b\<rparr>)" "Buffer_inv (cn_inputBuffer s) \<Longrightarrow> Buffer_inv b"
  using assms unfolding passive_user_def by blast

lemma conn_established:
  assumes ok: "reactor_ok tid r" and c: "c \<notin> ran (Poller_channels (m_poller r))"
    and fd: "Poller_channels (m_poller r) sockfd = None" "0 \<le> sockfd" and user: "passive_user user"
  shows "\<exists>s. TcpConnection_connectEstablished user self tid (TcpConnection_new nm sockfd c r) = Some s
    \<and> conn_ok tid s \<and> cn_state s = kConnected \<and> cn_channel s = c \<and> conn_stream s = [] \<and> \<not> sock_shutdown s
    \<and> ch_fd (r_chans s c) = sockfd \<and> r_loop s = r_loop r \<and> el_eventHandling s = el_eventHandling r
    \<and> \<not> ch_eventHandling (r_chans s c) \<and> ch_events (r_chans s c) = kReadEvent
    \<and> Poller_channels (m_poller s) = (Poller_channels (m_poller r))(sockfd \<mapsto> c)"
proof -
  define ch where "ch = Channel_tie self (Channel_setErrorCallback Cb_handleError (Channel_setCloseCallback Cb_handleClose
                 (Channel_setWriteCallback Cb_handleWrite (Channel_setReadCallback Cb_handleRead
                   (Channel_new (r_loop r) sockfd)))))"
  define s0 where "s0 = chan_upd c (Channel_tie self) (TcpConnection_setState kConnected (TcpConnection_new nm sockfd c r))"
  have fields: "ch_loop ch = r_loop r" "ch_fd ch = sockfd" "ch_events ch = 0" "ch_index ch = -1" "\<not> ch_eventHandling ch"
    by (simp_all add: ch_def Channel_tie_def Channel_setErrorCallback_def Channel_setCloseCallback_def
        Channel_setWriteCallback_def Channel_setReadCallback_def Channel_new_def)
  have f0: "r_chans s0 = (r_chans r)(c := ch)" "m_poller s0 = m_poller r" "r_loop s0 = r_loop r" "cn_state s0 = kConnected"
    "cn_channel s0 = c" "sock_sent s0 = []" "sock_shutdown s0 = False" "el_eventHandling s0 = el_eventHandling r"
    "cn_inputBuffer s0 = Buffer_new kInitialSize" "cn_outputBuffer s0 = Buffer_new kInitialSize"
    by (simp_all add: s0_def TcpConnection_setState_def TcpConnection_new_def Let_def reactor.extend_def ch_def chan_upd_def)
  note new = chan_new_ok[OF ok c fd fields(1-4)]
  have parts: "reactor_ok tid s0" "chan_of_loop c s0" "chan_fresh c s0"
    using new reactor_view_cong[of s0 "chan_upd c (\<lambda>_. ch) r"] f0 by (simp_all add: chan_fresh_def)
  have ev: "ch_events (r_chans s0 c) = 0" using f0 fields by simp
  have m: "interest_mask (events_enableReading (ch_events (r_chans s0 c)))"
    using parts(2) by (simp add: chan_of_loop_def)
  have nz: "events_enableReading (ch_events (r_chans s0 c)) \<noteq> 0"
    by (simp add: ev events_enableReading_def event_masks)
  from Channel_update_events[where f = events_enableReading, OF parts(1,2) m] parts(3) nz
  obtain i chs p where upd: "Channel_enableReading tid c s0 = Some (s0\<lparr>r_chans := chs, m_poller := p\<rparr>)"
    "reactor_ok tid (s0\<lparr>r_chans := chs, m_poller := p\<rparr>)" "chan_registered c (s0\<lparr>r_chans := chs, m_poller := p\<rparr>)"
    "chan_of_loop c (s0\<lparr>r_chans := chs, m_poller := p\<rparr>)"
    "chs c = (r_chans s0 c)\<lparr>ch_events := events_enableReading (ch_events (r_chans s0 c)), ch_index := i, is_addedToLoop := True\<rparr>"
    "Poller_channels p = (Poller_channels (m_poller s0))(ch_fd (r_chans s0 c) \<mapsto> c)"
    unfolding Channel_enableReading_def by auto
  let ?s1 = "s0\<lparr>r_chans := chs, m_poller := p\<rparr>"
  obtain b where b: "user On_connection ?s1 = Some (?s1\<lparr>cn_inputBuffer := b\<rparr>)" "Buffer_inv b"
    using passive_userE[OF user, of On_connection ?s1] f0 by auto
  let ?s2 = "?s1\<lparr>cn_inputBuffer := b\<rparr>"
  have nw: "\<not> Channel_isWriting (chs c)"
    by (simp add: upd(5) ev Channel_isWriting_def has_event_def events_enableReading_def event_masks)
  have view: "reactor_ok tid ?s2" "chan_of_loop c ?s2" "chan_registered c ?s2"
    using upd(2-4) reactor_view_cong[of ?s2 ?s1] by simp_all
  have "TcpConnection_connectEstablished user self tid (TcpConnection_new nm sockfd c r) = Some ?s2"
  proof -
    have n: "cn_state (TcpConnection_new nm sockfd c r) = kConnecting" "cn_channel (TcpConnection_new nm sockfd c r) = c"
      "r_loop (TcpConnection_new nm sockfd c r) = r_loop r"
      by (simp_all add: TcpConnection_new_def Let_def reactor.extend_def)
    have "EventLoop_assertInLoopThread tid (TcpConnection_new nm sockfd c r) = Some ()"
      using ok n by (simp add: EventLoop_assertInLoopThread_def EventLoop_isInLoopThread_def reactor_ok_def)
    then show ?thesis
      using upd(1) b(1) n by (simp add: TcpConnection_connectEstablished_def s0_def[symmetric] f0)
  qed
  moreover have "conn_ok tid ?s2"
    using view nw b(2) f0 by (simp add: conn_ok_def TcpConnection_isWriting_def)
  ultimately show ?thesis
    using f0 fields upd(5,6) by (intro exI[of _ ?s2]) (simp add: conn_stream_def events_enableReading_def)
qed

lemma conn_close:
  assumes ok: "conn_ok tid s" and st: "cn_state s = kConnected \<or> cn_state s = kDisconnecting" and user: "passive_user user"
  shows "\<exists>s'. TcpConnection_handleClose user tid s = Some s' \<and> cn_state s' = kDisconnected
    \<and> reactor_ok tid s' \<and> chan_of_loop (cn_channel s) s' \<and> chan_registered (cn_channel s) s'
    \<and> ch_events (r_chans s' (cn_channel s)) = 0 \<and> cn_channel s' = cn_channel s \<and> r_loop s' = r_loop s
    \<and> Poller_channels (m_poller s') = Poller_channels (m_poller s) \<and> el_eventHandling s' = el_eventHandling s
    \<and> ch_fd (r_chans s' (cn_channel s)) = ch_fd (r_chans s (cn_channel s))
    \<and> ch_eventHandling (r_chans s' (cn_channel s)) = ch_eventHandling (r_chans s (cn_channel s))"
proof -
  let ?c = "cn_channel s" and ?s0 = "TcpConnection_setState kDisconnected s"
  have f0: "r_chans ?s0 = r_chans s" "m_poller ?s0 = m_poller s" "r_loop ?s0 = r_loop s" "cn_channel ?s0 = ?c"
    "cn_state ?s0 = kDisconnected" "el_eventHandling ?s0 = el_eventHandling s"
    by (simp_all add: TcpConnection_setState_def)
  have parts: "reactor_ok tid ?s0" "chan_of_loop ?c ?s0" "chan_registered ?c ?s0"
    using ok reactor_view_cong[of ?s0 s] f0 by (simp_all add: conn_ok_def)
  from Channel_update_events[where f = "\<lambda>_. kNoneEvent", OF parts(1,2) _ disjI1[OF parts(3)]]
  obtain i chs p where upd: "Channel_disableAll tid ?c ?s0 = Some (?s0\<lparr>r_chans := chs, m_poller := p\<rparr>)"
    "reactor_ok tid (?s0\<lparr>r_chans := chs, m_poller := p\<rparr>)" "chan_registered ?c (?s0\<lparr>r_chans := chs, m_poller := p\<rparr>)"
    "chan_of_loop ?c (?s0\<lparr>r_chans := chs, m_poller := p\<rparr>)"
    "chs ?c = (r_chans s ?c)\<lparr>ch_events := kNoneEvent, ch_index := i, is_addedToLoop := True\<rparr>"
    "Poller_channels p = (Poller_channels (m_poller s))(ch_fd (r_chans s ?c) \<mapsto> ?c)"
    unfolding Channel_disableAll_def f0 by auto
  let ?s1 = "?s0\<lparr>r_chans := chs, m_poller := p\<rparr>"
  obtain b where b: "user On_connection ?s1 = Some (?s1\<lparr>cn_inputBuffer := b\<rparr>)"
    using passive_userE[OF user, of On_connection ?s1] by blast
  obtain b' where b': "user On_close (?s1\<lparr>cn_inputBuffer := b\<rparr>) = Some (?s1\<lparr>cn_inputBuffer := b'\<rparr>)"
    using passive_userE[OF user, of On_close "?s1\<lparr>cn_inputBuffer := b\<rparr>"] by auto
  let ?s2 = "?s1\<lparr>cn_inputBuffer := b'\<rparr>"
  have "TcpConnection_handleClose user tid s = Some ?s2"
    using conn_ok_thread[OF ok] st upd(1) b b' by (simp add: TcpConnection_handleClose_def f0)
  moreover have "reactor_ok tid ?s2" "chan_of_loop ?c ?s2" "chan_registered ?c ?s2"
    using upd(2-4) reactor_view_cong[of ?s2 ?s1] by simp_all
  moreover have "Poller_channels p = Poller_channels (m_poller s)"
    using parts(3) upd(6) by (auto simp: chan_registered_def f0)
  ultimately show ?thesis
    using f0 upd(5) by (intro exI[of _ ?s2]) (simp add: kNoneEvent_def)
qed

text \<open>The life of a connection. On a consistent loop, a new connection for an unused descriptor is
  established, closed and destroyed without a failing assertion, for user code that only consumes
  input: it is \<open>kConnected\<close> and consistent after \<open>connectEstablished\<close>, \<open>kDisconnected\<close> after
  \<open>handleClose\<close> (a second \<open>handleClose\<close> would abort), and \<open>connectDestroyed\<close> leaves the poller with
  the channels it had before, so that the destructors of the connection and its channel pass.\<close>

theorem TcpConnection_lifecycle:
  assumes ok: "reactor_ok tid r" and c: "c \<notin> ran (Poller_channels (m_poller r))"
    and fd: "Poller_channels (m_poller r) sockfd = None" "0 \<le> sockfd" and user: "passive_user user"
    and outside: "\<not> el_eventHandling r"
  shows "\<exists>s1 s2 s3. TcpConnection_connectEstablished user self tid (TcpConnection_new nm sockfd c r) = Some s1
    \<and> conn_ok tid s1 \<and> cn_state s1 = kConnected
    \<and> TcpConnection_handleClose user tid s1 = Some s2 \<and> cn_state s2 = kDisconnected
    \<and> TcpConnection_handleClose user tid s2 = None
    \<and> TcpConnection_connectDestroyed user tid s2 = Some s3
    \<and> Poller_channels (m_poller s3) = Poller_channels (m_poller r)
    \<and> TcpConnection_destroy s3 = Some () \<and> Channel_destroy tid c s3 = Some ()"
proof -
  obtain s1 where s1: "TcpConnection_connectEstablished user self tid (TcpConnection_new nm sockfd c r) = Some s1"
    "conn_ok tid s1" "cn_state s1 = kConnected" "cn_channel s1 = c" "ch_fd (r_chans s1 c) = sockfd"
    "r_loop s1 = r_loop r" "el_eventHandling s1 = el_eventHandling r" "\<not> ch_eventHandling (r_chans s1 c)"
    "Poller_channels (m_poller s1) = (Poller_channels (m_poller r))(sockfd \<mapsto> c)"
    using conn_established[OF ok c fd user] by blast
  obtain s2 where s2: "TcpConnection_handleClose user tid s1 = Some s2" "cn_state s2 = kDisconnected"
    "reactor_ok tid s2" "chan_of_loop c s2" "chan_registered c s2" "ch_events (r_chans s2 c) = 0"
    "cn_channel s2 = c" "Poller_channels (m_poller s2) = Poller_channels (m_poller s1)"
    "el_eventHandling s2 = el_eventHandling s1" "ch_fd (r_chans s2 c) = sockfd" "\<not> ch_eventHandling (r_chans s2 c)"
    using conn_close[OF s1(2) disjI1[OF s1(3)] user] s1(4,5,8) by auto
  have again: "TcpConnection_handleClose user tid s2 = None"
    using s2(2) by (simp add: TcpConnection_handleClose_def split: bind_splits)
  have th: "EventLoop_assertInLoopThread tid s2 = Some ()"
    using s2(3) by (simp add: reactor_ok_def EventLoop_assertInLoopThread_def EventLoop_isInLoopThread_def)
  from Channel_remove_effect[OF s2(3-6)] s2(9) s1(7) outside obtain chs p where
    rem: "Channel_remove tid c s2 = Some (s2\<lparr>r_chans := chs, m_poller := p\<rparr>)"
    "reactor_ok tid (s2\<lparr>r_chans := chs, m_poller := p\<rparr>)"
    "Poller_channels p = (Poller_channels (m_poller s2))(ch_fd (r_chans s2 c) := None)"
    "only_index ((r_chans s2)(c := (r_chans s2 c)\<lparr>is_addedToLoop := False\<rparr>)) chs"
    by auto
  let ?s3 = "s2\<lparr>r_chans := chs, m_poller := p\<rparr>"
  have chc: "chs c = (r_chans s2 c)\<lparr>is_addedToLoop := False, ch_index := ch_index (chs c)\<rparr>"
    using rem(4) unfolding only_index_def by (metis fun_upd_same)
  have des: "TcpConnection_connectDestroyed user tid s2 = Some ?s3"
    using th s2(2,7) rem(1) by (simp add: TcpConnection_connectDestroyed_def)
  have back_to: "Poller_channels p = Poller_channels (m_poller r)"
    using rem(3) s2(8,10) s1(9) fd(1) by auto
  have "\<not> ch_eventHandling (chs c)" "\<not> is_addedToLoop (chs c)" "ch_loop (chs c) = r_loop s2" "ch_fd (chs c) = sockfd"
    using s2(4,10,11) by (subst chc, simp add: chan_of_loop_def)+
  then have "Channel_destroy tid c ?s3 = Some ()"
    using rem(2) back_to fd(1)
    by (simp add: Channel_destroy_def EventLoop_hasChannel_def EventLoop_assertInLoopThread_def
        EventLoop_isInLoopThread_def Poller_hasChannel_def in_loop_thread_def reactor_ok_def)
  moreover have "TcpConnection_destroy ?s3 = Some ()" using s2(2) by (simp add: TcpConnection_destroy_def)
  ultimately show ?thesis using s1 s2 again des back_to
    by (intro exI[of _ s1] exI[of _ s2] exI[of _ ?s3]) simp
qed

text \<open>\<open>connectDestroyed\<close> handles only the states \<open>kConnected\<close> and \<open>kDisconnected\<close>: for a connection
  that is \<open>kDisconnecting\<close> and still wants events (after \<open>shutdown\<close> and before the peer closes), it
  goes straight to \<open>Channel::remove\<close>, whose assertion that no event is wanted stops the process.\<close>

theorem TcpConnection_destroyed_while_disconnecting:
  assumes "cn_state s = kDisconnecting" and "ch_events (r_chans s (cn_channel s)) \<noteq> 0"
  shows "TcpConnection_connectDestroyed user tid s = None"
  using assms
  by (simp add: TcpConnection_connectDestroyed_def Channel_remove_def Channel_isNoneEvent_def kNoneEvent_def
      split: bind_splits)

subsection \<open>A concrete connection\<close>

definition demo_loop :: "conn_cb reactor" where
  "demo_loop = the (EventLoop_new None True 5 6 0 Cb_wakeup (\<lambda>c. Channel_new \<lparr>loop_addr = 1, loop_threadId = 7\<rparr> (int c + 20))
     \<lparr>loop_addr = 1, loop_threadId = 7\<rparr>)"

definition quiet_user :: user_code where
  "quiet_user e s = Some (case e of On_message _ \<Rightarrow> defaultMessageCallback s | _ \<Rightarrow> s)"

definition demo_conn :: conn where
  "demo_conn = the (TcpConnection_connectEstablished quiet_user 1 7 (TcpConnection_new ''c'' 9 2 demo_loop))"

lemma passive_quiet_user [simp]: "passive_user quiet_user"
proof -
  have "\<exists>b. quiet_user e s = Some (s\<lparr>cn_inputBuffer := b\<rparr>) \<and> (Buffer_inv (cn_inputBuffer s) \<longrightarrow> Buffer_inv b)" for e s
    by (cases e) (auto simp: quiet_user_def defaultMessageCallback_def Buffer_inv_retrieveAll
        intro: exI[of _ "cn_inputBuffer s"])
  then show ?thesis by (simp add: passive_user_def)
qed

lemma demo_loop_value:
  "reactor_ok 7 demo_loop" "Poller_channels (m_poller demo_loop) = [6 \<mapsto> 0]" "\<not> el_eventHandling demo_loop"
proof -
  show "reactor_ok 7 demo_loop"
    using EventLoop_new_ok[of 5 6 True 0 Cb_wakeup "\<lambda>c. Channel_new \<lparr>loop_addr = 1, loop_threadId = 7\<rparr> (int c + 20)"
      "\<lparr>loop_addr = 1, loop_threadId = 7\<rparr>"]
    by (auto simp: demo_loop_def)
  show "Poller_channels (m_poller demo_loop) = [6 \<mapsto> 0]" "\<not> el_eventHandling demo_loop"
    by (simp_all add: demo_loop_def EventLoop_new_def Poller_newDefaultPoller_def PollPoller_new_def createEventfd_def
        Channel_setReadCallback_def Channel_new_def Channel_enableReading_def Channel_update_def chan_upd_def
        EventLoop_updateChannel_def EventLoop_assertInLoopThread_def EventLoop_isInLoopThread_def
        Poller_updateChannel_def PollPoller_updateChannel_def in_loop_thread_def Poller_channels_def Let_def)
qed

lemma demo_loop_free: "2 \<notin> ran (Poller_channels (m_poller demo_loop))" "Poller_channels (m_poller demo_loop) 9 = None"
  by (simp_all add: demo_loop_value)

lemma demo_conn_ok: "conn_ok 7 demo_conn" "cn_state demo_conn = kConnected" "\<not> sock_shutdown demo_conn"
  "ch_events (r_chans demo_conn (cn_channel demo_conn)) = kReadEvent"
  using conn_established[OF demo_loop_value(1) demo_loop_free _ passive_quiet_user, of 1 "''c''"]
  by (auto simp: demo_conn_def)

definition demo_ios :: "conn_io list" where
  "demo_ios = [Io_send ''abc'' (Room 1), Io_send ''de'' (Room 9), Io_writable (Room 2)]"

theorem TcpConnection_stream_exact_witness:
  "\<exists>s'. for_each (conn_io_step 7) demo_ios demo_conn = Some s'
    \<and> sock_sent s' @ Buffer_content (cn_outputBuffer s')
        = sock_sent demo_conn @ Buffer_content (cn_outputBuffer demo_conn) @ concat (map io_data demo_ios)
    \<and> (TcpConnection_isWriting s' \<longleftrightarrow> Buffer_content (cn_outputBuffer s') \<noteq> []) \<and> conn_ok 7 s'"
  by (rule TcpConnection_stream_exact[OF demo_conn_ok(1)])
    (auto simp: demo_conn_ok(2) io_reset_def demo_ios_def)

theorem TcpConnection_shutdown_flushes_witness:
  "\<exists>s1 s2. TcpConnection_shutdown 7 demo_conn = Some s1 \<and> cn_state s1 = kDisconnecting
    \<and> for_each (TcpConnection_handleWrite 7) [Room 1] s1 = Some s2
    \<and> (sock_shutdown s2 \<longleftrightarrow> Buffer_content (cn_outputBuffer s2) = [])"
  using TcpConnection_shutdown_flushes[OF demo_conn_ok(1-3)] by fast

theorem TcpConnection_lifecycle_witness:
  "\<exists>s1 s2 s3. TcpConnection_connectEstablished quiet_user 1 7 (TcpConnection_new ''c'' 9 2 demo_loop) = Some s1
    \<and> conn_ok 7 s1 \<and> cn_state s1 = kConnected
    \<and> TcpConnection_handleClose quiet_user 7 s1 = Some s2 \<and> cn_state s2 = kDisconnected
    \<and> TcpConnection_handleClose quiet_user 7 s2 = None
    \<and> TcpConnection_connectDestroyed quiet_user 7 s2 = Some s3
    \<and> Poller_channels (m_poller s3) = Poller_channels (m_poller demo_loop)
    \<and> TcpConnection_destroy s3 = Some () \<and> Channel_destroy 7 2 s3 = Some ()"
  by (rule TcpConnection_lifecycle[OF demo_loop_value(1) demo_loop_free _ passive_quiet_user demo_loop_value(3)]) simp

theorem TcpConnection_destroyed_while_disconnecting_witness:
  "TcpConnection_connectDestroyed quiet_user 7 (TcpConnection_setState kDisconnecting demo_conn) = None"
  by (rule TcpConnection_destroyed_while_disconnecting)
    (simp_all add: TcpConnection_setState_def demo_conn_ok(4) event_masks)

end
