(* ===== verification/Http.thy ===== *)
theory Http
  imports TcpConnectionProps
begin

text \<open>
  The HTTP layer (\<open>net/http\<close>): \<open>HttpRequest\<close>, the incremental parser \<open>HttpContext\<close>,
  \<open>HttpResponse\<close> and the handlers of \<open>HttpServer\<close>. The parser works on the input buffer of a
  connection; the handlers send through the connection. The loop of \<open>parseRequest\<close> is a
  \<open>partial_function\<close>: it returns \<open>None\<close> when an assertion fails and when it never ends.
\<close>

subsection \<open>\<open>HttpRequest\<close>\<close>

datatype http_method = M_kInvalid | M_kGet | M_kPost | M_kDelete | M_kPut | M_kHead

datatype http_version = V_kUnknown | V_kHttp10 | V_kHttp11

record http_request =
  rq_path :: string
  rq_query :: string
  rq_receiveTime :: timestamp
  rq_headers :: "string \<rightharpoonup> string"
  rq_method :: http_method
  rq_version :: http_version

definition HttpRequest_new :: http_request where
  "HttpRequest_new = \<lparr>rq_path = [], rq_query = [], rq_receiveTime = Timestamp_invalid, rq_headers = Map.empty,
     rq_method = M_kInvalid, rq_version = V_kUnknown\<rparr>"

definition HttpRequest_setMethod :: "string \<Rightarrow> http_request \<Rightarrow> (bool \<times> http_request) outcome" where
  "HttpRequest_setMethod m r = do {
     assert_that (rq_method r = M_kInvalid);
     let meth = (if m = ''GET'' then M_kGet else if m = ''POST'' then M_kPost
                 else if m = ''PUT'' then M_kPut else if m = ''DELETE'' then M_kDelete else M_kInvalid);
     Some (meth \<noteq> M_kInvalid, r\<lparr>rq_method := meth\<rparr>)
   }"

definition HttpRequest_methodString :: "http_request \<Rightarrow> string" where
  "HttpRequest_methodString r = (case rq_method r of
     M_kGet \<Rightarrow> ''GET'' | M_kPost \<Rightarrow> ''POST'' | M_kPut \<Rightarrow> ''PUT'' | M_kDelete \<Rightarrow> ''DELETE''
   | M_kHead \<Rightarrow> ''HEAD'' | M_kInvalid \<Rightarrow> ''UNKNOWN'')"

text \<open>\<open>isspace\<close> in the C locale.\<close>

definition is_space :: "char \<Rightarrow> bool" where
  "is_space c = (let n = (of_char c :: nat) in n = 32 \<or> 9 \<le> n \<and> n \<le> 13)"

definition HttpRequest_addHeader :: "string \<Rightarrow> string \<Rightarrow> http_request \<Rightarrow> http_request" where
  "HttpRequest_addHeader field after_colon r =
     (let value = dropWhile is_space after_colon;
          value = rev (dropWhile is_space (rev value))
      in r\<lparr>rq_headers := (rq_headers r)(field \<mapsto> value)\<rparr>)"

definition HttpRequest_getHeader :: "string \<Rightarrow> http_request \<Rightarrow> string" where
  "HttpRequest_getHeader field r = (case rq_headers r field of None \<Rightarrow> [] | Some v \<Rightarrow> v)"

definition HttpRequest_swap :: "http_request \<Rightarrow> http_request \<Rightarrow> http_request \<times> http_request" where
  "HttpRequest_swap this that = (that, this)"

subsection \<open>\<open>HttpContext\<close>\<close>

datatype parser_state = kExpectRequestLine | kExpectHeaders | kExpectBody | kGotAll

record http_context =
  hc_state :: parser_state
  hc_request :: http_request

definition HttpContext_new :: http_context where
  "HttpContext_new = \<lparr>hc_state = kExpectRequestLine, hc_request = HttpRequest_new\<rparr>"

definition HttpContext_gotAll :: "http_context \<Rightarrow> bool" where
  "HttpContext_gotAll c = (hc_state c = kGotAll)"

definition HttpContext_reset :: "http_context \<Rightarrow> http_context" where
  "HttpContext_reset c = c\<lparr>hc_state := kExpectRequestLine, hc_request := HttpRequest_new\<rparr>"

text \<open>\<open>processRequestLine\<close> on the characters of the line.\<close>

definition HttpContext_processRequestLine :: "string \<Rightarrow> http_request \<Rightarrow> (bool \<times> http_request) outcome" where
  "HttpContext_processRequestLine line r =
     (let space = std_find (CHR '' '') line in
      if space \<noteq> length line
      then do {
        (known, r) \<leftarrow> HttpRequest_setMethod (take space line) r;
        if known
        then
          let rest = drop (space + 1) line; space = std_find (CHR '' '') rest in
          if space \<noteq> length rest
          then
            let target = take space rest;
                question = std_find (CHR ''?'') target;
                r = (if question \<noteq> length target
                     then r\<lparr>rq_path := take question target, rq_query := drop question target\<rparr>
                     else r\<lparr>rq_path := target\<rparr>);
                version = drop (space + 1) rest
            in if length version = 8 \<and> take 7 version = ''HTTP/1.''
               then if version ! 7 = CHR ''1'' then Some (True, r\<lparr>rq_version := V_kHttp11\<rparr>)
                    else if version ! 7 = CHR ''0'' then Some (True, r\<lparr>rq_version := V_kHttp10\<rparr>)
                    else Some (False, r)
               else Some (False, r)
          else Some (False, r)
        else Some (False, r)
      }
      else Some (False, r))"

text \<open>The line the parser looks at: from \<open>peek()\<close> to the next CR LF.\<close>

definition Buffer_line :: "nat \<Rightarrow> buffer \<Rightarrow> string" where
  "Buffer_line crlf b = segment (Buffer_peek b) (crlf - Buffer_peek b) (m_buffers b)"

text \<open>One turn of the loop of \<open>parseRequest\<close>: the new \<open>ok\<close> and \<open>hasMore\<close>, the context and the buffer.\<close>

definition HttpContext_turn :: "timestamp \<Rightarrow> bool \<Rightarrow> http_context \<Rightarrow> buffer \<Rightarrow>
    (bool \<times> bool \<times> http_context \<times> buffer) outcome" where
  "HttpContext_turn receiveTime ok c b = (case hc_state c of
     kExpectRequestLine \<Rightarrow> (case Buffer_findCRLF b of
         Some crlf \<Rightarrow> do {
           (ok, r) \<leftarrow> HttpContext_processRequestLine (Buffer_line crlf b) (hc_request c);
           if ok
           then do {
             b \<leftarrow> Buffer_retrieveUntil (crlf + 2) b;
             Some (ok, True, c\<lparr>hc_request := r\<lparr>rq_receiveTime := receiveTime\<rparr>, hc_state := kExpectHeaders\<rparr>, b)
           }
           else Some (ok, False, c\<lparr>hc_request := r\<rparr>, b)
         }
       | None \<Rightarrow> Some (ok, False, c, b))
   | kExpectHeaders \<Rightarrow> (case Buffer_findCRLF b of
         Some crlf \<Rightarrow> (
           let line = Buffer_line crlf b; colon = std_find (CHR '':'') line;
               (more, c) = (if colon \<noteq> length line
                    then (True, c\<lparr>hc_request := HttpRequest_addHeader (take colon line) (drop (colon + 1) line) (hc_request c)\<rparr>)
                    else (False, c\<lparr>hc_state := kGotAll\<rparr>))
           in do { b \<leftarrow> Buffer_retrieveUntil (crlf + 2) b; Some (ok, more, c, b) })
       | None \<Rightarrow> Some (ok, False, c, b))
   | kExpectBody \<Rightarrow> Some (ok, True, c, b)
   | kGotAll \<Rightarrow> Some (ok, True, c, b))"

partial_function (option) parse_loop :: "timestamp \<Rightarrow> bool \<Rightarrow> http_context \<Rightarrow> buffer \<Rightarrow> (bool \<times> http_context \<times> buffer) option" where
  [code]: "parse_loop receiveTime ok c b = do {
     (ok, hasMore, c, b) \<leftarrow> HttpContext_turn receiveTime ok c b;
     if hasMore then parse_loop receiveTime ok c b else Some (ok, c, b)
   }"

definition HttpContext_parseRequest :: "buffer \<Rightarrow> timestamp \<Rightarrow> http_context \<Rightarrow> (bool \<times> http_context \<times> buffer) outcome" where
  "HttpContext_parseRequest buf receiveTime c = parse_loop receiveTime True c buf"

subsection \<open>\<open>HttpResponse\<close>\<close>

datatype http_status = S_kUnknown | S_k200ok | S_k301MovedPermanently | S_k400BadRequest | S_k404NotFound

definition status_code :: "http_status \<Rightarrow> int" where
  "status_code s = (case s of S_kUnknown \<Rightarrow> 0 | S_k200ok \<Rightarrow> 200 | S_k301MovedPermanently \<Rightarrow> 301
     | S_k400BadRequest \<Rightarrow> 400 | S_k404NotFound \<Rightarrow> 404)"

text \<open>A \<open>std::map<string, string>\<close> that is iterated: an association list sorted by key, with the order
  of \<open>std::string\<close> (unsigned characters, lexicographic).\<close>

fun str_less :: "string \<Rightarrow> string \<Rightarrow> bool" where
  "str_less xs [] = False"
| "str_less [] (y # ys) = True"
| "str_less (x # xs) (y # ys) =
     ((of_char x :: nat) < of_char y \<or> of_char x = (of_char y :: nat) \<and> str_less xs ys)"

fun map_assign :: "string \<Rightarrow> string \<Rightarrow> (string \<times> string) list \<Rightarrow> (string \<times> string) list" where
  "map_assign k v [] = [(k, v)]"
| "map_assign k v ((k', v') # m) =
     (if k = k' then (k, v) # m else if str_less k k' then (k, v) # (k', v') # m
      else (k', v') # map_assign k v m)"

record http_response =
  rs_headers :: "(string \<times> string) list"
  rs_statusCode :: http_status
  rs_statusMessage :: string
  rs_closeConnection :: bool
  rs_body :: string

definition HttpResponse_new :: "bool \<Rightarrow> http_response" where
  "HttpResponse_new close = \<lparr>rs_headers = [], rs_statusCode = S_kUnknown, rs_statusMessage = [],
     rs_closeConnection = close, rs_body = []\<rparr>"

definition HttpResponse_setStatusCode :: "http_status \<Rightarrow> http_response \<Rightarrow> http_response" where
  "HttpResponse_setStatusCode code r = r\<lparr>rs_statusCode := code\<rparr>"

definition HttpResponse_setStatusMessage :: "string \<Rightarrow> http_response \<Rightarrow> http_response" where
  "HttpResponse_setStatusMessage message r = r\<lparr>rs_statusMessage := message\<rparr>"

definition HttpResponse_setCloseConnection :: "bool \<Rightarrow> http_response \<Rightarrow> http_response" where
  "HttpResponse_setCloseConnection on r = r\<lparr>rs_closeConnection := on\<rparr>"

definition HttpResponse_addHeader :: "string \<Rightarrow> string \<Rightarrow> http_response \<Rightarrow> http_response" where
  "HttpResponse_addHeader key value r = r\<lparr>rs_headers := map_assign key value (rs_headers r)\<rparr>"

definition HttpResponse_setContentType :: "string \<Rightarrow> http_response \<Rightarrow> http_response" where
  "HttpResponse_setContentType contentType r = HttpResponse_addHeader ''Content-Type'' contentType r"

definition HttpResponse_setBody :: "string \<Rightarrow> http_response \<Rightarrow> http_response" where
  "HttpResponse_setBody body r = r\<lparr>rs_body := body\<rparr>"

text \<open>
  Every piece of the text goes through \<open>append(const StringPiece&)\<close>, whose length is an \<open>int\<close>.
\<close>

definition append_header :: "string \<times> string \<Rightarrow> buffer \<Rightarrow> buffer outcome" where
  "append_header h b = Buffer_append_piece (fst h) b \<bind> Buffer_append_piece '':''
     \<bind> Buffer_append_piece (snd h) \<bind> Buffer_append_piece kCRLF"

definition HttpResponse_appendToBuffer :: "http_response \<Rightarrow> buffer \<Rightarrow> buffer outcome" where
  "HttpResponse_appendToBuffer r b = do {
     b \<leftarrow> Buffer_append_piece (snprintf_buf 32 (''HTTP/1.1 '' @ dec_int (status_code (rs_statusCode r)) @ '' '')) b;
     b \<leftarrow> Buffer_append_piece (rs_statusMessage r) b;
     b \<leftarrow> Buffer_append_piece kCRLF b;
     b \<leftarrow> (if rs_closeConnection r
           then Buffer_append_piece (''Connection: close'' @ kCRLF) b
           else Buffer_append_piece (snprintf_buf 32 (''Content-Length: '' @ dec_int (int (length (rs_body r))) @ kCRLF)) b
                \<bind> Buffer_append_piece (''Connection: Keep-Alive'' @ kCRLF));
     b \<leftarrow> for_each append_header (rs_headers r) b;
     b \<leftarrow> Buffer_append_piece kCRLF b;
     Buffer_append_piece (rs_body r) b
   }"

subsection \<open>\<open>HttpServer\<close>\<close>

type_synonym http_callback = "http_request \<Rightarrow> http_response \<Rightarrow> http_response"

definition defaultHttpCallback :: http_callback where
  "defaultHttpCallback req resp =
     HttpResponse_setCloseConnection True (HttpResponse_setStatusMessage ''Not Found''
       (HttpResponse_setStatusCode S_k404NotFound resp))"

text \<open>The context is stored in the connection when it comes up.\<close>

definition HttpServer_onConnection :: "conn \<Rightarrow> http_context option \<Rightarrow> http_context option" where
  "HttpServer_onConnection s ctx = (if TcpConnection_connected s then Some HttpContext_new else ctx)"

text \<open>\<open>w\<close> is the outcome of the \<open>write\<close> that \<open>send\<close> may call.\<close>

definition HttpServer_onRequest :: "http_callback \<Rightarrow> int \<Rightarrow> write_result \<Rightarrow> http_request \<Rightarrow> conn \<Rightarrow> conn outcome" where
  "HttpServer_onRequest httpCallback tid w req s = do {
     let connection = HttpRequest_getHeader ''Connection'' req;
     let close = (connection = ''close'' \<or> rq_version req = V_kHttp10 \<and> connection \<noteq> ''Keep-Alive'');
     let resp = httpCallback req (HttpResponse_new close);
     buf \<leftarrow> HttpResponse_appendToBuffer resp (Buffer_new kInitialSize);
     (_, s) \<leftarrow> TcpConnection_sendBuffer tid w buf s;
     if rs_closeConnection resp then TcpConnection_shutdown tid s else Some s
   }"

definition HttpServer_onMessage :: "http_callback \<Rightarrow> int \<Rightarrow> write_result \<Rightarrow> write_result \<Rightarrow> timestamp \<Rightarrow>
    http_context \<Rightarrow> conn \<Rightarrow> (http_context \<times> conn) outcome" where
  "HttpServer_onMessage httpCallback tid w1 w2 receiveTime context s = do {
     (ok, context, buf) \<leftarrow> HttpContext_parseRequest (cn_inputBuffer s) receiveTime context;
     let s = s\<lparr>cn_inputBuffer := buf\<rparr>;
     s \<leftarrow> (if \<not> ok
           then TcpConnection_send tid w1 (''HTTP/1.1 400 Bad Request'' @ kCRLF @ kCRLF) s \<bind> TcpConnection_shutdown tid
           else Some s);
     if HttpContext_gotAll context
     then do {
       s \<leftarrow> HttpServer_onRequest httpCallback tid w2 (hc_request context) s;
       Some (HttpContext_reset context, s)
     }
     else Some (context, s)
   }"

end
