(* ===== verification/HttpProps.thy ===== *)
theory HttpProps
  imports Http
begin

text \<open>
  Properties of the HTTP layer: the parser reads back what a client prints, returns whenever it is
  called in a state that expects input (and never otherwise), and what the server does with a bad
  request.
\<close>

subsection \<open>Lines in the buffer\<close>

lemma std_search_crlf: "CHR 0x0D \<notin> set line \<Longrightarrow> std_search kCRLF (line @ kCRLF @ rest) = length line"
  by (induction line) (auto simp: kCRLF_def)

lemma Buffer_findCRLF_search:
  assumes inv: "Buffer_inv b"
  shows "Buffer_findCRLF b = (let k = std_search kCRLF (Buffer_content b) in
           if k = length (Buffer_content b) then None else Some (Buffer_peek b + k))"
proof -
  have "Buffer_peek b + Buffer_readableBytes b = Buffer_beginWrite b"
    using inv by (auto simp: Buffer_inv_def buffer_defs)
  with length_Buffer_content[OF inv] show ?thesis
    by (auto simp: Buffer_findCRLF_def Let_def Buffer_content_def)
qed

lemma Buffer_line_take:
  assumes "Buffer_inv b" and "k \<le> length (Buffer_content b)"
  shows "Buffer_line (Buffer_peek b + k) b = take k (Buffer_content b)"
  using assms length_Buffer_content[OF assms(1)]
  by (simp add: Buffer_line_def Buffer_content_segment take_segment buffer_defs)

text \<open>A search result inside the content: the line, and the buffer after the line.\<close>

lemma Buffer_found_line:
  assumes inv: "Buffer_inv b" and f: "Buffer_findCRLF b = Some p"
  shows "\<exists>line rest b'. Buffer_content b = line @ kCRLF @ rest \<and> Buffer_line p b = line
    \<and> Buffer_retrieveUntil (p + 2) b = Some b' \<and> Buffer_inv b' \<and> Buffer_content b' = rest"
proof -
  let ?c = "Buffer_content b" and ?k = "std_search kCRLF (Buffer_content b)"
  from f have p: "p = Buffer_peek b + ?k" and ne: "?k \<noteq> length ?c"
    by (auto simp: Buffer_findCRLF_search[OF inv] Let_def split: if_splits)
  have k: "?k < length ?c" using ne std_search_le[of kCRLF ?c] by linarith
  have two: "length kCRLF = 2" by (simp add: kCRLF_def)
  have len: "?k + 2 \<le> length ?c" and m: "take 2 (drop ?k ?c) = kCRLF"
    using std_search_match_len[OF k] std_search_match[OF k] two by simp_all
  have split: "?c = take ?k ?c @ kCRLF @ drop (?k + 2) ?c"
    using m by (metis append_take_drop_id drop_drop add.commute)
  from Buffer_retrieve_spec[OF inv len] obtain b' where
    b': "Buffer_retrieve (?k + 2) b = Some b'" "Buffer_inv b'" "Buffer_content b' = drop (?k + 2) ?c" by blast
  have "Buffer_peek b + (?k + 2) \<le> Buffer_beginWrite b"
    using len length_Buffer_content[OF inv] inv by (auto simp: Buffer_inv_def buffer_defs)
  then have "Buffer_retrieveUntil (p + 2) b = Some b'"
    using b'(1) by (simp add: Buffer_retrieveUntil_def p add.assoc)
  moreover have "Buffer_line p b = take ?k ?c" unfolding p using k by (intro Buffer_line_take[OF inv]) simp
  ultimately show ?thesis using split b' by blast
qed

lemma Buffer_first_line:
  assumes inv: "Buffer_inv b" and c: "Buffer_content b = line @ kCRLF @ rest" and cr: "CHR 0x0D \<notin> set line"
  obtains p b' where "Buffer_findCRLF b = Some p" "Buffer_line p b = line"
    "Buffer_retrieveUntil (p + 2) b = Some b'" "Buffer_inv b'" "Buffer_content b' = rest"
proof -
  have k: "std_search kCRLF (Buffer_content b) = length line" unfolding c by (rule std_search_crlf[OF cr])
  then have f: "Buffer_findCRLF b = Some (Buffer_peek b + length line)"
    by (simp add: Buffer_findCRLF_search[OF inv] c kCRLF_def)
  from Buffer_found_line[OF inv f] obtain l r b' where
    l: "Buffer_content b = l @ kCRLF @ r" "Buffer_line (Buffer_peek b + length line) b = l"
    "Buffer_retrieveUntil (Buffer_peek b + length line + 2) b = Some b'" "Buffer_inv b'" "Buffer_content b' = r" by blast
  have "l = line" using Buffer_line_take[OF inv, of "length line"] l(2) by (simp add: c)
  with l c have "r = rest" by simp
  with l f \<open>l = line\<close> that show thesis by blast
qed

subsection \<open>The parser ends\<close>

definition parser_ready :: "http_context \<Rightarrow> bool" where
  "parser_ready c = (hc_state c = kExpectRequestLine \<and> rq_method (hc_request c) = M_kInvalid \<or> hc_state c = kExpectHeaders)"

lemma processRequestLine_total:
  "rq_method r = M_kInvalid \<Longrightarrow> \<exists>ok r'. HttpContext_processRequestLine line r = Some (ok, r')"
proof -
  assume "rq_method r = M_kInvalid"
  then obtain known r1 where "HttpRequest_setMethod (take (std_find (CHR '' '') line) line) r = Some (known, r1)"
    by (simp add: HttpRequest_setMethod_def Let_def)
  then have "HttpContext_processRequestLine line r \<noteq> None"
    by (simp add: HttpContext_processRequestLine_def Let_def ex_bool_eq)
  then show ?thesis by auto
qed

lemma turn_ready:
  assumes inv: "Buffer_inv b" and ready: "parser_ready c"
  shows "\<exists>ok' more c' b'. HttpContext_turn t ok c b = Some (ok', more, c', b') \<and> Buffer_inv b'
    \<and> (more \<longrightarrow> hc_state c' = kExpectHeaders \<and> length (Buffer_content b') < length (Buffer_content b))"
proof (cases "Buffer_findCRLF b")
  case None
  with ready inv show ?thesis by (auto simp: HttpContext_turn_def parser_ready_def)
next
  case (Some p)
  from Buffer_found_line[OF inv Some] obtain line rest b' where
    l: "Buffer_content b = line @ kCRLF @ rest" "Buffer_line p b = line"
    "Buffer_retrieveUntil (p + 2) b = Some b'" "Buffer_inv b'" "Buffer_content b' = rest" by blast
  have less: "length (Buffer_content b') < length (Buffer_content b)" using l by (simp add: kCRLF_def)
  show ?thesis
  proof (cases "hc_state c = kExpectHeaders")
    case True
    then show ?thesis using Some l less by (auto simp: HttpContext_turn_def Let_def)
  next
    case False
    with ready have st: "hc_state c = kExpectRequestLine" "rq_method (hc_request c) = M_kInvalid"
      by (auto simp: parser_ready_def)
    from processRequestLine_total[OF st(2)] obtain ok' r where
      "HttpContext_processRequestLine line (hc_request c) = Some (ok', r)" by blast
    with Some st l less inv show ?thesis by (cases ok') (auto simp: HttpContext_turn_def)
  qed
qed

lemma parse_loop_total:
  assumes "Buffer_inv b" and "parser_ready c"
  shows "\<exists>ok' c' b'. parse_loop t ok c b = Some (ok', c', b') \<and> Buffer_inv b'"
  using assms
proof (induction "length (Buffer_content b)" arbitrary: ok c b rule: less_induct)
  case less
  from turn_ready[OF less.prems, of t ok] obtain ok1 more c1 b1 where
    one: "HttpContext_turn t ok c b = Some (ok1, more, c1, b1)" "Buffer_inv b1"
    "more \<longrightarrow> hc_state c1 = kExpectHeaders \<and> length (Buffer_content b1) < length (Buffer_content b)" by blast
  show ?case
  proof (cases more)
    case True
    with one less.hyps[of b1 c1 ok1] show ?thesis
      by (subst parse_loop.simps) (auto simp: parser_ready_def)
  next
    case False
    with one show ?thesis by (subst parse_loop.simps) auto
  qed
qed

lemma parse_loop_stuck:
  assumes "parse_loop t ok c b = Some y"
  shows "hc_state c = kExpectRequestLine \<or> hc_state c = kExpectHeaders"
  using assms
proof (induction rule: parse_loop.raw_induct[rotated 1, consumes 1, case_names step])
  case (step f t ok c b y)
  have "hc_state c = kExpectBody \<or> hc_state c = kGotAll \<Longrightarrow> f t ok c b = Some y"
    using step(2) by (auto simp: HttpContext_turn_def)
  with step(1)[of t ok c b y] show ?case by (cases "hc_state c") auto
qed

text \<open>C29: \<open>parseRequest\<close> returns for every content of the buffer when the context expects a request
  line (with no method set yet) or headers; and it never returns when it is called in the states
  \<open>kGotAll\<close> or \<open>kExpectBody\<close>, for which its loop has no way out.\<close>

theorem HttpContext_parse_termination:
  assumes "Buffer_inv b"
  shows "(parser_ready c \<longrightarrow> (\<exists>ok c' b'. HttpContext_parseRequest b t c = Some (ok, c', b') \<and> Buffer_inv b'))
    \<and> (hc_state c = kGotAll \<or> hc_state c = kExpectBody \<longrightarrow> HttpContext_parseRequest b t c = None)"
proof -
  have "HttpContext_parseRequest b t c = None" if "hc_state c = kGotAll \<or> hc_state c = kExpectBody"
  proof (rule ccontr)
    assume "HttpContext_parseRequest b t c \<noteq> None"
    then obtain y where "parse_loop t True c b = Some y" by (auto simp: HttpContext_parseRequest_def)
    from parse_loop_stuck[OF this] that show False by auto
  qed
  with parse_loop_total[OF assms] show ?thesis by (auto simp: HttpContext_parseRequest_def)
qed

theorem HttpContext_parse_termination_witness:
  "(\<exists>ok c' b'. HttpContext_parseRequest (Buffer_new 8) (Timestamp 1) HttpContext_new = Some (ok, c', b') \<and> Buffer_inv b')
   \<and> HttpContext_parseRequest (Buffer_new 8) (Timestamp 1) (HttpContext_new\<lparr>hc_state := kGotAll\<rparr>) = None"
  using HttpContext_parse_termination[OF Buffer_inv_new, of HttpContext_new 8 "Timestamp 1"]
    HttpContext_parse_termination[OF Buffer_inv_new, of "HttpContext_new\<lparr>hc_state := kGotAll\<rparr>" 8 "Timestamp 1"]
  by (simp add: parser_ready_def HttpContext_new_def HttpRequest_new_def)

subsection \<open>Parsing what a client prints\<close>

definition header_line :: "string \<times> string \<Rightarrow> string" where
  "header_line h = fst h @ '': '' @ snd h @ kCRLF"

definition request_text :: "string \<Rightarrow> string \<Rightarrow> string \<Rightarrow> char \<Rightarrow> (string \<times> string) list \<Rightarrow> string" where
  "request_text m path query v hs =
     m @ '' '' @ path @ query @ '' HTTP/1.'' @ [v] @ kCRLF @ concat (map header_line hs) @ kCRLF"

text \<open>What may stand in a request: no CR anywhere, no blank in the target, \<open>'?'\<close> only at the start of
  the query, no colon in a field name, no surrounding white space in a value.\<close>

definition good_header :: "string \<times> string \<Rightarrow> bool" where
  "good_header h = (CHR '':'' \<notin> set (fst h) \<and> CHR 0x0D \<notin> set (fst h) \<and> CHR 0x0D \<notin> set (snd h)
     \<and> (snd h = [] \<or> \<not> is_space (hd (snd h)) \<and> \<not> is_space (last (snd h))))"

definition good_target :: "string \<Rightarrow> string \<Rightarrow> bool" where
  "good_target path query = (CHR '' '' \<notin> set path \<and> CHR ''?'' \<notin> set path \<and> CHR 0x0D \<notin> set path
     \<and> (query = [] \<or> hd query = CHR ''?'') \<and> CHR '' '' \<notin> set query \<and> CHR 0x0D \<notin> set query)"

definition method_of :: "string \<Rightarrow> http_method" where
  "method_of m = (if m = ''GET'' then M_kGet else if m = ''POST'' then M_kPost
     else if m = ''PUT'' then M_kPut else if m = ''DELETE'' then M_kDelete else M_kInvalid)"

lemma method_chars:
  assumes "method_of m \<noteq> M_kInvalid"
  shows "CHR '' '' \<notin> set m" "CHR 0x0D \<notin> set m"
  using assms by (auto simp: method_of_def split: if_splits)

lemma processRequestLine_good:
  assumes m: "method_of m \<noteq> M_kInvalid" and target: "good_target path query" and v: "v = CHR ''0'' \<or> v = CHR ''1''"
    and r: "rq_method r = M_kInvalid" "rq_query r = []"
  shows "HttpContext_processRequestLine (m @ '' '' @ path @ query @ '' HTTP/1.'' @ [v]) r
    = Some (True, r\<lparr>rq_method := method_of m, rq_path := path, rq_query := query,
                    rq_version := if v = CHR ''1'' then V_kHttp11 else V_kHttp10\<rparr>)"
proof -
  let ?line = "m @ '' '' @ path @ query @ '' HTTP/1.'' @ [v]"
  have s1: "std_find (CHR '' '') ?line = length m"
    using method_chars[OF m] std_find_append_notin[of "CHR '' ''" m] by simp
  have s2: "std_find (CHR '' '') ((path @ query) @ CHR '' '' # ''HTTP/1.'' @ [v]) = length (path @ query)"
    using target by (intro std_find_append_notin) (auto simp: good_target_def)
  have set: "HttpRequest_setMethod m r = Some (True, r\<lparr>rq_method := method_of m\<rparr>)"
    using r(1) m by (simp add: HttpRequest_setMethod_def method_of_def Let_def)
  have q: "std_find (CHR ''?'') (path @ query) = length path \<and> (query \<noteq> [] \<longrightarrow> True)"
    if "query \<noteq> []"
    using that target std_find_append_notin[of "CHR ''?''" path "tl query"]
    by (cases query) (auto simp: good_target_def)
  have q0: "std_find (CHR ''?'') path = length path" using target by (simp add: good_target_def)
  show ?thesis
  proof (cases "query = []")
    case True
    with s1 s2 set q0 v r show ?thesis
      by (auto simp: HttpContext_processRequestLine_def Let_def)
  next
    case False
    with s1 s2 set q[OF False] v show ?thesis
      by (auto simp: HttpContext_processRequestLine_def Let_def)
  qed
qed

lemma addHeader_good:
  assumes "good_header h"
  shows "HttpRequest_addHeader (fst h) (CHR '' '' # snd h) r = r\<lparr>rq_headers := (rq_headers r)(fst h \<mapsto> snd h)\<rparr>"
proof (cases "snd h = []")
  case True
  then show ?thesis by (simp add: HttpRequest_addHeader_def is_space_def)
next
  case False
  with assms have "dropWhile is_space (snd h) = snd h" "dropWhile is_space (rev (snd h)) = rev (snd h)"
    by (auto simp: good_header_def dropWhile_eq_self_iff hd_rev)
  then show ?thesis by (simp add: HttpRequest_addHeader_def is_space_def)
qed

lemma parse_headers:
  assumes "\<And>h. h \<in> set hs \<Longrightarrow> good_header h" and "Buffer_inv b" and "hc_state c = kExpectHeaders"
    and "Buffer_content b = concat (map header_line hs) @ kCRLF @ rest"
  shows "\<exists>b'. parse_loop t ok c b = Some (ok, \<lparr>hc_state = kGotAll,
       hc_request = (hc_request c)\<lparr>rq_headers := (rq_headers (hc_request c))(map fst hs [\<mapsto>] map snd hs)\<rparr>\<rparr>, b')
    \<and> Buffer_inv b' \<and> Buffer_content b' = rest"
  using assms
proof (induction hs arbitrary: b c)
  case Nil
  have c: "Buffer_content b = [] @ kCRLF @ rest" using Nil.prems(4) by simp
  obtain p b' where "Buffer_findCRLF b = Some p" "Buffer_line p b = []"
    "Buffer_retrieveUntil (p + 2) b = Some b'" "Buffer_inv b'" "Buffer_content b' = rest"
    by (rule Buffer_first_line[OF Nil.prems(2) c]) simp
  with Nil.prems(3) show ?case
    by (subst parse_loop.simps) (simp add: HttpContext_turn_def)
next
  case (Cons h hs)
  have good: "good_header h" using Cons.prems(1) by simp
  let ?line = "fst h @ CHR '':'' # CHR '' '' # snd h"
  have c: "Buffer_content b = ?line @ kCRLF @ (concat (map header_line hs) @ kCRLF @ rest)"
    using Cons.prems(4) by (simp add: header_line_def[of h])
  have cr: "CHR 0x0D \<notin> set ?line" using good by (auto simp: good_header_def)
  obtain p b1 where b1: "Buffer_findCRLF b = Some p" "Buffer_line p b = ?line"
    "Buffer_retrieveUntil (p + 2) b = Some b1" "Buffer_inv b1"
    "Buffer_content b1 = concat (map header_line hs) @ kCRLF @ rest"
    by (rule Buffer_first_line[OF Cons.prems(2) c cr])
  have colon: "std_find (CHR '':'') ?line = length (fst h)"
    using good by (intro std_find_append_notin) (simp add: good_header_def)
  let ?c = "c\<lparr>hc_request := (hc_request c)\<lparr>rq_headers := (rq_headers (hc_request c))(fst h \<mapsto> snd h)\<rparr>\<rparr>"
  have turn: "HttpContext_turn t ok c b = Some (ok, True, ?c, b1)"
    using Cons.prems(3) b1 colon addHeader_good[OF good] by (simp add: HttpContext_turn_def Let_def)
  have "\<exists>b'. parse_loop t ok ?c b1 = Some (ok, \<lparr>hc_state = kGotAll, hc_request = (hc_request ?c)\<lparr>rq_headers :=
       (rq_headers (hc_request ?c))(map fst hs [\<mapsto>] map snd hs)\<rparr>\<rparr>, b') \<and> Buffer_inv b' \<and> Buffer_content b' = rest"
    by (rule Cons.IH) (use Cons.prems(1,3) b1 in simp_all)
  with turn show ?case by (subst parse_loop.simps) simp
qed

lemma parse_print:
  assumes inv: "Buffer_inv b" and content: "Buffer_content b = request_text m path query v hs @ rest"
    and m: "method_of m \<noteq> M_kInvalid" and target: "good_target path query" and v: "v = CHR ''0'' \<or> v = CHR ''1''"
    and hs: "\<forall>h \<in> set hs. good_header h"
  shows "\<exists>b'. HttpContext_parseRequest b t HttpContext_new = Some (True, \<lparr>hc_state = kGotAll, hc_request =
       \<lparr>rq_path = path, rq_query = query, rq_receiveTime = t, rq_headers = map_of (rev hs),
        rq_method = method_of m, rq_version = (if v = CHR ''1'' then V_kHttp11 else V_kHttp10)\<rparr>\<rparr>, b')
    \<and> Buffer_inv b' \<and> Buffer_content b' = rest"
proof -
  let ?line = "m @ '' '' @ path @ query @ '' HTTP/1.'' @ [v]"
  have c: "Buffer_content b = ?line @ kCRLF @ (concat (map header_line hs) @ kCRLF @ rest)"
    using content by (simp add: request_text_def)
  have cr: "CHR 0x0D \<notin> set ?line" using method_chars[OF m] target v by (auto simp: good_target_def)
  obtain p b1 where b1: "Buffer_findCRLF b = Some p" "Buffer_line p b = ?line"
    "Buffer_retrieveUntil (p + 2) b = Some b1" "Buffer_inv b1"
    "Buffer_content b1 = concat (map header_line hs) @ kCRLF @ rest"
    by (rule Buffer_first_line[OF inv c cr])
  let ?r = "HttpRequest_new\<lparr>rq_method := method_of m, rq_path := path, rq_query := query,
                    rq_version := if v = CHR ''1'' then V_kHttp11 else V_kHttp10, rq_receiveTime := t\<rparr>"
  let ?c = "\<lparr>hc_state = kExpectHeaders, hc_request = ?r\<rparr>"
  have line: "HttpContext_processRequestLine ?line HttpRequest_new
      = Some (True, HttpRequest_new\<lparr>rq_method := method_of m, rq_path := path, rq_query := query,
                    rq_version := if v = CHR ''1'' then V_kHttp11 else V_kHttp10\<rparr>)"
    by (rule processRequestLine_good[OF m target v]) (simp_all add: HttpRequest_new_def)
  have turn: "HttpContext_turn t True HttpContext_new b = Some (True, True, ?c, b1)"
    using b1 line by (simp add: HttpContext_turn_def HttpContext_new_def)
  have "\<exists>b'. parse_loop t True ?c b1 = Some (True, \<lparr>hc_state = kGotAll,
       hc_request = (hc_request ?c)\<lparr>rq_headers := (rq_headers (hc_request ?c))(map fst hs [\<mapsto>] map snd hs)\<rparr>\<rparr>, b')
    \<and> Buffer_inv b' \<and> Buffer_content b' = rest"
    by (rule parse_headers[OF _ b1(4) _ b1(5)]) (use hs in simp_all)
  moreover have "Map.empty(map fst hs [\<mapsto>] map snd hs) = map_of (rev hs)"
    by (simp add: map_upds_def rev_map[symmetric] zip_map_fst_snd flip: zip_rev)
  ultimately show ?thesis using turn
    by (subst HttpContext_parseRequest_def, subst parse_loop.simps) (auto simp: HttpRequest_new_def)
qed

text \<open>C14: The parser reads back what a client prints. A buffer that starts with a well-formed request
  (one of the four supported methods, a path, an optional query, HTTP/1.0 or 1.1, any number of
  headers) is parsed to the end by a fresh context: method, path, query, version and receive time
  are those printed, the header map has the printed values (the last one for a repeated field), and
  exactly the bytes after the request stay in the buffer.\<close>

theorem HttpContext_parse_print:
  assumes inv: "Buffer_inv b" and content: "Buffer_content b = request_text m path query v hs @ rest"
    and m: "method_of m \<noteq> M_kInvalid" and target: "good_target path query" and v: "v = CHR ''0'' \<or> v = CHR ''1''"
    and hs: "\<And>h. h \<in> set hs \<Longrightarrow> good_header h"
  shows "\<exists>b'. HttpContext_parseRequest b t HttpContext_new = Some (True, \<lparr>hc_state = kGotAll, hc_request =
       \<lparr>rq_path = path, rq_query = query, rq_receiveTime = t, rq_headers = map_of (rev hs),
        rq_method = method_of m, rq_version = (if v = CHR ''1'' then V_kHttp11 else V_kHttp10)\<rparr>\<rparr>, b')
    \<and> Buffer_inv b' \<and> Buffer_content b' = rest"
  by (rule parse_print[OF inv content m target v]) (use hs in blast)

subsection \<open>Responses\<close>

definition response_text :: "http_response \<Rightarrow> string" where
  "response_text r =
     ''HTTP/1.1 '' @ dec_int (status_code (rs_statusCode r)) @ '' '' @ rs_statusMessage r @ kCRLF
   @ (if rs_closeConnection r then ''Connection: close'' @ kCRLF
      else ''Content-Length: '' @ dec_int (int (length (rs_body r))) @ kCRLF @ ''Connection: Keep-Alive'' @ kCRLF)
   @ concat (map (\<lambda>h. fst h @ '':'' @ snd h @ kCRLF) (rs_headers r)) @ kCRLF @ rs_body r"

lemma status_fits: "snprintf_buf 32 (''HTTP/1.1 '' @ dec_int (status_code st) @ '' '') = ''HTTP/1.1 '' @ dec_int (status_code st) @ '' ''"
proof -
  have "length (dec_int (status_code st)) \<le> 3"
    by (cases st) (auto simp: dec_int_def status_code_def intro!: length_dec_nat_le)
  then show ?thesis by (simp add: snprintf_buf_def)
qed

lemma length_fits:
  assumes "length body < 2 ^ 31"
  shows "snprintf_buf 32 (''Content-Length: '' @ dec_int (int (length body)) @ kCRLF)
       = ''Content-Length: '' @ dec_int (int (length body)) @ kCRLF"
  using length_dec_nat_le[of "length body" 10] assms by (simp add: snprintf_buf_def dec_int_def kCRLF_def)

text \<open>The texts of a response are shorter than \<open>2 ^ 31\<close> bytes, so that they fit a \<open>StringPiece\<close>.\<close>

definition response_fits :: "http_response \<Rightarrow> bool" where
  "response_fits r \<longleftrightarrow> length (rs_statusMessage r) < 2 ^ 31 \<and> length (rs_body r) < 2 ^ 31
     \<and> list_all (\<lambda>h. length (fst h) < 2 ^ 31 \<and> length (snd h) < 2 ^ 31) (rs_headers r)"

text \<open>Pieces that fit are appended in order, as whole texts.\<close>

lemma for_each_append_piece:
  "list_all (\<lambda>xs. length xs < 2 ^ 31) xss
    \<Longrightarrow> for_each Buffer_append_piece xss b = for_each Buffer_append xss b"
proof (induction xss arbitrary: b)
  case (Cons xs xss)
  then show ?case by (cases "Buffer_append xs b") (simp_all add: Buffer_append_piece_small)
qed simp

lemma append_pieces_ok:
  assumes "Buffer_inv b" and "list_all (\<lambda>xs. length xs < 2 ^ 31) xss"
  shows "\<exists>b'. for_each Buffer_append_piece xss b = Some b' \<and> Buffer_inv b'
    \<and> Buffer_content b' = Buffer_content b @ concat xss"
  using buffer_queue.app_all[OF assms(1)] for_each_append_piece[OF assms(2)] by simp

lemma append_header_ok:
  assumes "Buffer_inv b" and "length (fst h) < 2 ^ 31" and "length (snd h) < 2 ^ 31"
  shows "\<exists>b'. append_header h b = Some b' \<and> Buffer_inv b' \<and> Buffer_content b' = Buffer_content b @ fst h @ '':'' @ snd h @ kCRLF"
  using append_pieces_ok[OF assms(1), of "[fst h, '':'', snd h, kCRLF]"] assms(2,3)
  by (simp add: append_header_def for_each_fun Option.bind_assoc kCRLF_def)

lemma append_headers_ok:
  "Buffer_inv b \<Longrightarrow> list_all (\<lambda>h. length (fst h) < 2 ^ 31 \<and> length (snd h) < 2 ^ 31) hs
    \<Longrightarrow> \<exists>b'. for_each append_header hs b = Some b' \<and> Buffer_inv b'
    \<and> Buffer_content b' = Buffer_content b @ concat (map (\<lambda>h. fst h @ '':'' @ snd h @ kCRLF) hs)"
proof (induction hs arbitrary: b)
  case (Cons h hs)
  have small: "length (fst h) < 2 ^ 31" "length (snd h) < 2 ^ 31" using Cons.prems(2) by simp_all
  from append_header_ok[OF Cons.prems(1) small] obtain b1 where
    "append_header h b = Some b1" "Buffer_inv b1" "Buffer_content b1 = Buffer_content b @ fst h @ '':'' @ snd h @ kCRLF" by blast
  with Cons.IH[of b1] Cons.prems(2) show ?case by auto
qed simp

lemma appendToBuffer_ok:
  assumes inv: "Buffer_inv b" and small: "response_fits r"
  shows "\<exists>b'. HttpResponse_appendToBuffer r b = Some b' \<and> Buffer_inv b' \<and> Buffer_content b' = Buffer_content b @ response_text r"
proof -
  let ?code = "''HTTP/1.1 '' @ dec_int (status_code (rs_statusCode r)) @ '' ''"
  let ?len = "''Content-Length: '' @ dec_int (int (length (rs_body r))) @ kCRLF"
  let ?pre = "[?code, rs_statusMessage r, kCRLF] @ (if rs_closeConnection r then [''Connection: close'' @ kCRLF]
      else [?len, ''Connection: Keep-Alive'' @ kCRLF])"
  have fits: "length (rs_body r) < 2 ^ 31" "length (rs_statusMessage r) < 2 ^ 31"
    "list_all (\<lambda>h. length (fst h) < 2 ^ 31 \<and> length (snd h) < 2 ^ 31) (rs_headers r)"
    using small by (simp_all add: response_fits_def)
  have short: "length (snprintf_buf 32 xs) < 2 ^ 31" for xs by (simp add: snprintf_buf_def)
  have "length ?code < 2 ^ 31" "length ?len < 2 ^ 31"
    using short[of ?code] short[of ?len] by (simp_all only: status_fits length_fits[OF fits(1)])
  then have pre: "list_all (\<lambda>xs. length xs < 2 ^ 31) ?pre" using fits(2) by (simp add: kCRLF_def)
  from append_pieces_ok[OF inv pre] obtain b1 where
    b1: "for_each Buffer_append_piece ?pre b = Some b1" "Buffer_inv b1" "Buffer_content b1 = Buffer_content b @ concat ?pre" by blast
  from append_headers_ok[OF b1(2) fits(3)] obtain b2 where
    b2: "for_each append_header (rs_headers r) b1 = Some b2" "Buffer_inv b2"
    "Buffer_content b2 = Buffer_content b1 @ concat (map (\<lambda>h. fst h @ '':'' @ snd h @ kCRLF) (rs_headers r))" by blast
  from append_pieces_ok[OF b2(2), of "[kCRLF, rs_body r]"] fits(1) obtain b3 where
    b3: "for_each Buffer_append_piece [kCRLF, rs_body r] b2 = Some b3" "Buffer_inv b3"
    "Buffer_content b3 = Buffer_content b2 @ concat [kCRLF, rs_body r]" by (auto simp: kCRLF_def)
  have "HttpResponse_appendToBuffer r b = for_each Buffer_append_piece ?pre b \<bind> (\<lambda>b.
      for_each append_header (rs_headers r) b \<bind> for_each Buffer_append_piece [kCRLF, rs_body r])"
    using length_fits[OF fits(1)]
    by (cases "rs_closeConnection r")
      (simp_all add: HttpResponse_appendToBuffer_def status_fits for_each_fun for_each_append Option.bind_assoc
        del: append.simps append_assoc)
  with b1 b2 b3 have "HttpResponse_appendToBuffer r b = Some b3" by simp
  with b1 b2 b3 show ?thesis by (auto simp: response_text_def)
qed

text \<open>A body of 3 GiB stops the process: its length is negative as an \<open>int\<close>.\<close>

lemma appendToBuffer_long_body:
  assumes "2 ^ 31 \<le> length (rs_body r)" and "length (rs_body r) < 2 ^ 32"
  shows "HttpResponse_appendToBuffer r b = None"
  by (simp add: HttpResponse_appendToBuffer_def Buffer_append_piece_long[OF assms] bind_eq_None_conv)

text \<open>\<open>appendToBuffer\<close> appends exactly the text of the response: status line, \<open>Connection\<close> header with
  the length of the body for a kept connection, the other headers, an empty line and the body, when
  these texts are shorter than \<open>2 ^ 31\<close> bytes; the 32-byte format buffers cut nothing off.\<close>

theorem HttpResponse_print_exact:
  assumes "Buffer_inv b" and "response_fits r"
  shows "\<exists>b'. HttpResponse_appendToBuffer r b = Some b' \<and> Buffer_inv b'
    \<and> Buffer_content b' = Buffer_content b @ response_text r"
  by (rule appendToBuffer_ok[OF assms])

theorem HttpResponse_print_exact_witness:
  "\<exists>b'. HttpResponse_appendToBuffer (HttpResponse_setBody ''hi'' (HttpResponse_new False)) (Buffer_new 16) = Some b'
    \<and> Buffer_inv b' \<and> Buffer_content b' = Buffer_content (Buffer_new 16)
        @ response_text (HttpResponse_setBody ''hi'' (HttpResponse_new False))"
  by (rule HttpResponse_print_exact) (simp_all add: HttpResponse_setBody_def HttpResponse_new_def response_fits_def)

subsection \<open>The server\<close>

lemma Buffer_append_nothing: "Buffer_inv b \<Longrightarrow> Buffer_append [] b = Some b"
  by (simp add: Buffer_append_def Buffer_ensureWritableBytes_def Buffer_hasWritten_def write_at_def)

lemma conn_ok_input:
  assumes "conn_ok tid s" and "Buffer_inv b"
  shows "conn_ok tid (s\<lparr>cn_inputBuffer := b\<rparr>)"
  using assms reactor_view_cong[of "s\<lparr>cn_inputBuffer := b\<rparr>" s] by (simp add: conn_ok_def TcpConnection_isWriting_def)

lemma conn_in_loop: "conn_ok tid s \<Longrightarrow> EventLoop_isInLoopThread tid s"
  by (simp add: conn_ok_def reactor_ok_def EventLoop_isInLoopThread_def)

definition no_reset :: "write_result \<Rightarrow> bool" where
  "no_reset w = (w \<noteq> Write_error EPIPE \<and> w \<noteq> Write_error ECONNRESET)"

lemma onRequest_ok:
  assumes ok: "conn_ok tid s" and st: "cn_state s = kConnected" and w: "no_reset w"
    and close: "close = (HttpRequest_getHeader ''Connection'' req = ''close''
        \<or> rq_version req = V_kHttp10 \<and> HttpRequest_getHeader ''Connection'' req \<noteq> ''Keep-Alive'')"
    and resp: "resp = cb req (HttpResponse_new close)" and small: "response_fits resp"
  shows "\<exists>s'. HttpServer_onRequest cb tid w req s = Some s' \<and> conn_ok tid s'
    \<and> conn_stream s' = conn_stream s @ response_text resp \<and> cn_inputBuffer s' = cn_inputBuffer s
    \<and> cn_state s' = (if rs_closeConnection resp then kDisconnecting else kConnected)"
proof -
  from appendToBuffer_ok[OF Buffer_inv_new small, of kInitialSize] obtain buf where
    buf: "HttpResponse_appendToBuffer resp (Buffer_new kInitialSize) = Some buf" "Buffer_inv buf"
    "Buffer_content buf = response_text resp" by auto
  from sendInLoop_step[OF ok, of w "Buffer_content buf"] st w obtain s1 where
    s1: "TcpConnection_sendInLoop tid w (Buffer_content buf) s = Some s1" "conn_ok tid s1"
    "conn_stream s1 = conn_stream s @ response_text resp" "cn_state s1 = kConnected"
    "cn_inputBuffer s1 = cn_inputBuffer s" by (auto simp: no_reset_def buf(3))
  have send: "TcpConnection_sendBuffer tid w buf s = Some (Buffer_retrieveAll buf, s1)"
    using st conn_in_loop[OF ok] s1(1) by (simp add: TcpConnection_sendBuffer_def)
  have run: "HttpServer_onRequest cb tid w req s
      = (if rs_closeConnection resp then TcpConnection_shutdown tid s1 else Some s1)"
    using buf(1) send by (simp add: HttpServer_onRequest_def resp close)
  show ?thesis
  proof (cases "rs_closeConnection resp")
    case True
    from shutdown_step[OF s1(2,4)] obtain s2 where "TcpConnection_shutdown tid s1 = Some s2"
      "cn_state s2 = kDisconnecting" "conn_ok tid s2" "conn_stream s2 = conn_stream s1" "cn_inputBuffer s2 = cn_inputBuffer s1"
      by blast
    with True run s1 show ?thesis by auto
  next
    case False
    with run s1 show ?thesis by auto
  qed
qed

text \<open>C33: A bad request is answered and the connection is half-closed: when the first line of the input
  is not a valid request line, \<open>onMessage\<close> on a fresh context sends exactly the 400 response and the
  connection is \<open>kDisconnecting\<close>. But the line is neither consumed nor is the context reset: when the
  method was recognised, the next message on the connection stops the process at the assertion of
  \<open>setMethod\<close>, whatever it brings.\<close>

theorem HttpServer_bad_request:
  assumes ok: "conn_ok tid s" and st: "cn_state s = kConnected" and w: "no_reset w1"
    and input: "Buffer_content (cn_inputBuffer s) = line @ kCRLF @ rest" and cr: "CHR 0x0D \<notin> set line"
    and bad: "HttpContext_processRequestLine line HttpRequest_new = Some (False, r)"
  shows "\<exists>ctx s'. HttpServer_onMessage cb tid w1 w2 t HttpContext_new s = Some (ctx, s')
    \<and> conn_stream s' = conn_stream s @ ''HTTP/1.1 400 Bad Request'' @ kCRLF @ kCRLF
    \<and> cn_state s' = kDisconnecting \<and> cn_inputBuffer s' = cn_inputBuffer s
    \<and> (rq_method r \<noteq> M_kInvalid \<longrightarrow> (\<forall>more b2 t2 s2. Buffer_append more (cn_inputBuffer s') = Some b2 \<longrightarrow>
          HttpServer_onMessage cb tid w1 w2 t2 ctx (s2\<lparr>cn_inputBuffer := b2\<rparr>) = None))"
proof -
  let ?c = "HttpContext_new\<lparr>hc_request := r\<rparr>" and ?b = "cn_inputBuffer s"
  have inv: "Buffer_inv ?b" using ok by (simp add: conn_ok_def)
  obtain p b1 where b1: "Buffer_findCRLF ?b = Some p" "Buffer_line p ?b = line"
    by (rule Buffer_first_line[OF inv input cr])
  have parse: "HttpContext_parseRequest ?b t HttpContext_new = Some (False, ?c, ?b)"
    using b1 bad
    by (subst HttpContext_parseRequest_def, subst parse_loop.simps)
      (simp add: HttpContext_turn_def HttpContext_new_def)
  let ?msg = "''HTTP/1.1 400 Bad Request'' @ kCRLF @ kCRLF"
  from sendInLoop_step[OF ok, of w1 ?msg] st w obtain s1 where
    s1: "TcpConnection_sendInLoop tid w1 ?msg s = Some s1" "conn_ok tid s1"
    "conn_stream s1 = conn_stream s @ ?msg" "cn_state s1 = kConnected" "cn_inputBuffer s1 = ?b"
    by (auto simp: no_reset_def)
  have send: "TcpConnection_send tid w1 ?msg s = Some s1"
    using st conn_in_loop[OF ok] s1(1) by (simp add: TcpConnection_send_def)
  from shutdown_step[OF s1(2,4)] obtain s' where s': "TcpConnection_shutdown tid s1 = Some s'"
    "cn_state s' = kDisconnecting" "conn_stream s' = conn_stream s1" "cn_inputBuffer s' = cn_inputBuffer s1"
    by blast
  have same: "s\<lparr>cn_inputBuffer := ?b\<rparr> = s" by simp
  have run: "HttpServer_onMessage cb tid w1 w2 t HttpContext_new s = Some (?c, s')"
    using parse send s'(1)
    by (simp add: HttpServer_onMessage_def same HttpContext_gotAll_def HttpContext_new_def del: append.simps)
  have again: "HttpServer_onMessage cb tid w1 w2 t2 ?c (s2\<lparr>cn_inputBuffer := b2\<rparr>) = None"
    if m: "rq_method r \<noteq> M_kInvalid" and app: "Buffer_append more (cn_inputBuffer s') = Some b2" for more b2 t2 s2
  proof -
    from Buffer_append_spec[OF inv, of more] app s'(4) s1(5) have b2: "Buffer_inv b2"
      "Buffer_content b2 = line @ kCRLF @ (rest @ more)" by (auto simp: input)
    obtain p' b3 where "Buffer_findCRLF b2 = Some p'" "Buffer_line p' b2 = line"
      by (rule Buffer_first_line[OF b2 cr])
    moreover have "std_find (CHR '' '') line \<noteq> length line"
      using bad m by (auto simp: HttpContext_processRequestLine_def HttpRequest_new_def Let_def)
    then have "HttpContext_processRequestLine line r = None"
      using m by (simp add: HttpContext_processRequestLine_def HttpRequest_setMethod_def Let_def)
    ultimately have "HttpContext_parseRequest b2 t2 ?c = None"
      by (subst HttpContext_parseRequest_def, subst parse_loop.simps)
        (simp add: HttpContext_turn_def HttpContext_new_def)
    then show ?thesis by (simp add: HttpServer_onMessage_def)
  qed
  have str: "conn_stream s' = conn_stream s @ ?msg" using s'(3) s1(3) by (simp only:)
  have inp: "cn_inputBuffer s' = ?b" using s'(4) s1(5) by (simp only:)
  show ?thesis
    by (intro exI conjI impI allI, rule run, rule str, rule s'(2), rule inp, erule again, assumption)
qed

text \<open>C9: A request is served. When the input of a connected connection starts with a well-formed
  request, \<open>onMessage\<close> with a fresh context calls the user's callback on exactly this request, appends
  the text of its response to the byte stream of the connection, resets the context, leaves the bytes
  after the request in the input buffer, and half-closes the connection exactly when the response
  says so; a callback that leaves the flag alone closes for \<open>Connection: close\<close> and for HTTP/1.0
  without \<open>Keep-Alive\<close>. The status message, the header texts and the body of the response are
  shorter than \<open>2 ^ 31\<close> bytes (\<open>response_fits\<close>).\<close>

theorem HttpServer_serves_request:
  assumes ok: "conn_ok tid s" and st: "cn_state s = kConnected" and w: "no_reset w2"
    and input: "Buffer_content (cn_inputBuffer s) = request_text m path query v hs @ rest"
    and m: "method_of m \<noteq> M_kInvalid" and target: "good_target path query" and v: "v = CHR ''0'' \<or> v = CHR ''1''"
    and hs: "\<forall>h \<in> set hs. good_header h"
    and req: "req = \<lparr>rq_path = path, rq_query = query, rq_receiveTime = t, rq_headers = map_of (rev hs),
        rq_method = method_of m, rq_version = (if v = CHR ''1'' then V_kHttp11 else V_kHttp10)\<rparr>"
    and close: "close = (HttpRequest_getHeader ''Connection'' req = ''close''
        \<or> v = CHR ''0'' \<and> HttpRequest_getHeader ''Connection'' req \<noteq> ''Keep-Alive'')"
    and resp: "resp = cb req (HttpResponse_new close)" and small: "response_fits resp"
  shows "\<exists>s'. HttpServer_onMessage cb tid w1 w2 t HttpContext_new s = Some (HttpContext_new, s') \<and> conn_ok tid s'
    \<and> conn_stream s' = conn_stream s @ response_text resp \<and> Buffer_content (cn_inputBuffer s') = rest
    \<and> cn_state s' = (if rs_closeConnection resp then kDisconnecting else kConnected)"
proof -
  have inv: "Buffer_inv (cn_inputBuffer s)" using ok by (simp add: conn_ok_def)
  from parse_print[OF inv input m target v hs, of t] obtain b where
    b: "HttpContext_parseRequest (cn_inputBuffer s) t HttpContext_new = Some (True, \<lparr>hc_state = kGotAll, hc_request = req\<rparr>, b)"
    "Buffer_inv b" "Buffer_content b = rest" unfolding req by blast
  let ?s = "s\<lparr>cn_inputBuffer := b\<rparr>"
  have cl: "close = (HttpRequest_getHeader ''Connection'' req = ''close''
        \<or> rq_version req = V_kHttp10 \<and> HttpRequest_getHeader ''Connection'' req \<noteq> ''Keep-Alive'')"
    using v by (auto simp: close req)
  have "cn_state ?s = kConnected" "conn_stream ?s = conn_stream s" using st by (simp_all add: conn_stream_def)
  with onRequest_ok[where cb = cb, OF conn_ok_input[OF ok b(2)] _ w cl resp small] obtain s' where
    s': "HttpServer_onRequest cb tid w2 req ?s = Some s'" "conn_ok tid s'"
    "conn_stream s' = conn_stream s @ response_text resp" "cn_inputBuffer s' = b"
    "cn_state s' = (if rs_closeConnection resp then kDisconnecting else kConnected)" by auto
  have "HttpServer_onMessage cb tid w1 w2 t HttpContext_new s = Some (HttpContext_new, s')"
    using b(1) s'(1)
    by (simp add: HttpServer_onMessage_def HttpContext_gotAll_def HttpContext_reset_def HttpContext_new_def)
  with s' b(3) show ?thesis by blast
qed

subsection \<open>Concrete messages\<close>

definition demo_get :: string where
  "demo_get = request_text ''GET'' ''/a'' ''?q'' (CHR ''1'') [(''Host'', ''h''), (''Connection'', ''close'')]"

lemma demo_get_good:
  "method_of ''GET'' \<noteq> M_kInvalid" "good_target ''/a'' ''?q''"
  "\<forall>h \<in> set [(''Host'', ''h''), (''Connection'', ''close'')]. good_header h"
  by (simp_all add: method_of_def good_target_def good_header_def is_space_def)

text \<open>The connection of the earlier example with \<open>input\<close> received.\<close>

definition demo_received :: "string \<Rightarrow> conn" where
  "demo_received input = demo_conn\<lparr>cn_inputBuffer := the (Buffer_append input (Buffer_new kInitialSize))\<rparr>"

lemma demo_received_ok:
  "conn_ok 7 (demo_received input)" "cn_state (demo_received input) = kConnected"
  "Buffer_content (cn_inputBuffer (demo_received input)) = input"
  using Buffer_append_spec[OF Buffer_inv_new, of input kInitialSize] conn_ok_input[OF demo_conn_ok(1)] demo_conn_ok(2)
  by (auto simp: demo_received_def)

theorem HttpContext_parse_print_witness:
  "\<exists>b'. HttpContext_parseRequest (cn_inputBuffer (demo_received (demo_get @ ''xy''))) (Timestamp 3) HttpContext_new
      = Some (True, \<lparr>hc_state = kGotAll, hc_request =
       \<lparr>rq_path = ''/a'', rq_query = ''?q'', rq_receiveTime = Timestamp 3,
        rq_headers = map_of (rev [(''Host'', ''h''), (''Connection'', ''close'')]),
        rq_method = method_of ''GET'', rq_version = V_kHttp11\<rparr>\<rparr>, b')
    \<and> Buffer_inv b' \<and> Buffer_content b' = ''xy''"
proof -
  have inv: "Buffer_inv (cn_inputBuffer (demo_received (demo_get @ ''xy'')))"
    using demo_received_ok(1) by (simp add: conn_ok_def)
  have c: "Buffer_content (cn_inputBuffer (demo_received (demo_get @ ''xy''))) = request_text ''GET'' ''/a'' ''?q'' (CHR ''1'')
      [(''Host'', ''h''), (''Connection'', ''close'')] @ ''xy''"
    unfolding demo_received_ok(3) demo_get_def ..
  show ?thesis
    using HttpContext_parse_print[OF inv c demo_get_good(1,2) _ demo_get_good(3)[rule_format], of "Timestamp 3"]
    by simp
qed

theorem HttpServer_bad_request_witness:
  "\<exists>ctx s'. HttpServer_onMessage defaultHttpCallback 7 (Room 100) (Room 100) (Timestamp 3) HttpContext_new
        (demo_received (''GET / HTTP/2.0'' @ kCRLF)) = Some (ctx, s')
    \<and> conn_stream s' = conn_stream (demo_received (''GET / HTTP/2.0'' @ kCRLF)) @ ''HTTP/1.1 400 Bad Request'' @ kCRLF @ kCRLF
    \<and> cn_state s' = kDisconnecting
    \<and> HttpServer_onMessage defaultHttpCallback 7 (Room 100) (Room 100) (Timestamp 4) ctx s' = None"
proof -
  let ?s = "demo_received (''GET / HTTP/2.0'' @ kCRLF)"
  have input: "Buffer_content (cn_inputBuffer ?s) = ''GET / HTTP/2.0'' @ kCRLF @ []"
    unfolding demo_received_ok(3) by simp
  have bad: "HttpContext_processRequestLine ''GET / HTTP/2.0'' HttpRequest_new
      = Some (False, HttpRequest_new\<lparr>rq_method := M_kGet, rq_path := ''/''\<rparr>)"
    by (simp add: HttpContext_processRequestLine_def HttpRequest_setMethod_def HttpRequest_new_def)
  from HttpServer_bad_request[OF demo_received_ok(1,2) _ input _ bad, of "Room 100" defaultHttpCallback "Room 100" "Timestamp 3"]
  obtain ctx s' where r: "HttpServer_onMessage defaultHttpCallback 7 (Room 100) (Room 100) (Timestamp 3) HttpContext_new ?s = Some (ctx, s')"
    "conn_stream s' = conn_stream ?s @ ''HTTP/1.1 400 Bad Request'' @ kCRLF @ kCRLF" "cn_state s' = kDisconnecting"
    "cn_inputBuffer s' = cn_inputBuffer ?s"
    "\<And>more b2 t2 s2. Buffer_append more (cn_inputBuffer s') = Some b2 \<Longrightarrow>
          HttpServer_onMessage defaultHttpCallback 7 (Room 100) (Room 100) t2 ctx (s2\<lparr>cn_inputBuffer := b2\<rparr>) = None"
    by (auto simp: no_reset_def)
  have "Buffer_inv (cn_inputBuffer s')" using demo_received_ok(1) r(4) by (simp add: conn_ok_def)
  from Buffer_append_nothing[OF this] have "Buffer_append [] (cn_inputBuffer s') = Some (cn_inputBuffer s')" .
  from r(5)[OF this, of "Timestamp 4" s'] r(1-3) show ?thesis by auto
qed

theorem HttpServer_serves_request_witness:
  "\<exists>s'. HttpServer_onMessage defaultHttpCallback 7 (Room 9) (Room 9) (Timestamp 3) HttpContext_new (demo_received demo_get)
        = Some (HttpContext_new, s') \<and> conn_ok 7 s' \<and> cn_state s' = kDisconnecting"
proof -
  have input: "Buffer_content (cn_inputBuffer (demo_received demo_get))
      = request_text ''GET'' ''/a'' ''?q'' (CHR ''1'') [(''Host'', ''h''), (''Connection'', ''close'')] @ []"
    unfolding demo_received_ok(3) demo_get_def by simp
  show ?thesis
    using HttpServer_serves_request[where cb = defaultHttpCallback and t = "Timestamp 3" and ?w1.0 = "Room 9" and ?w2.0 = "Room 9",
        OF demo_received_ok(1,2) _ input demo_get_good(1,2) _ demo_get_good(3) refl refl refl]
    by (auto simp: no_reset_def defaultHttpCallback_def HttpResponse_setCloseConnection_def
        HttpResponse_setStatusMessage_def HttpResponse_setStatusCode_def HttpResponse_new_def response_fits_def)
qed

end
