(* ===== verification/ConnectionLife.thy ===== *)
theory ConnectionLife
  imports TcpConnectionProps
begin

text \<open>
  The life of a connection, abstractly: what a \<open>TcpServer\<close> or a \<open>TcpClient\<close> relies on when it asks
  the loop of a connection to call \<open>connectEstablished\<close>, \<open>connectDestroyed\<close> and so on. The abstract
  state is the state of the connection, whether its channel wants events and whether the poller
  knows it; the definitions of \<open>TcpConnection\<close> on a whole loop refine the abstract operations, with
  the same calls aborting.
\<close>

subsection \<open>The abstract life\<close>

record conn_life =
  lf_state :: conn_state
  lf_interested :: bool
  lf_registered :: bool

definition life_new :: conn_life where
  "life_new = \<lparr>lf_state = kConnecting, lf_interested = False, lf_registered = False\<rparr>"

definition life_open :: "conn_life \<Rightarrow> bool" where
  "life_open l = (lf_state l = kConnected \<or> lf_state l = kDisconnecting)"

definition life_established :: "conn_life \<Rightarrow> conn_life outcome" where
  "life_established l = do {
     assert_that (lf_state l = kConnecting);
     Some \<lparr>lf_state = kConnected, lf_interested = True, lf_registered = True\<rparr>
   }"

definition life_shutdown :: "conn_life \<Rightarrow> conn_life" where
  "life_shutdown l = (if lf_state l = kConnected then l\<lparr>lf_state := kDisconnecting\<rparr> else l)"

definition life_forceClose :: "conn_life \<Rightarrow> conn_life" where
  "life_forceClose l = (if life_open l then l\<lparr>lf_state := kDisconnecting\<rparr> else l)"

definition life_handleClose :: "conn_life \<Rightarrow> conn_life outcome" where
  "life_handleClose l = do {
     assert_that (life_open l);
     Some \<lparr>lf_state = kDisconnected, lf_interested = False, lf_registered = True\<rparr>
   }"

definition life_destroyed :: "conn_life \<Rightarrow> conn_life outcome" where
  "life_destroyed l = do {
     let l1 = (if lf_state l = kConnected
               then \<lparr>lf_state = kDisconnected, lf_interested = False, lf_registered = True\<rparr> else l);
     assert_that (\<not> lf_interested l1 \<and> lf_registered l1);
     Some (l1\<lparr>lf_registered := False\<rparr>)
   }"

text \<open>
  What \<open>shutdown\<close> and \<open>forceClose\<close> do after their test of the state. The test and the \<open>setState\<close> are
  two accesses without a lock: on the thread of the loop nothing comes between them, which gives
  the two definitions above; on another thread \<open>handleClose\<close> may.
\<close>

definition life_setDisconnecting :: "conn_life \<Rightarrow> conn_life" where
  "life_setDisconnecting l = l\<lparr>lf_state := kDisconnecting\<rparr>"

lemmas life_defs = life_new_def life_open_def life_established_def life_shutdown_def life_forceClose_def
  life_handleClose_def life_destroyed_def

lemma life_test_then_set:
  "life_shutdown l = (if lf_state l = kConnected then life_setDisconnecting l else l)"
  "life_forceClose l = (if life_open l then life_setDisconnecting l else l)"
  by (simp_all add: life_shutdown_def life_forceClose_def life_setDisconnecting_def)

text \<open>
  The race: another thread finds an established connection open, the loop closes it, and then the
  other thread sets the state. \<open>connectDestroyed\<close> still passes, but leaves a state in which the
  assertion \<open>m_state == kDisconnected\<close> of the destructor fails.
\<close>

lemma state_race_breaks_destructor:
  assumes "life_established l0 = Some l" and "life_open l"
  shows "\<exists>l1 l2. life_handleClose l = Some l1 \<and> lf_state l1 = kDisconnected
    \<and> life_destroyed (life_setDisconnecting l1) = Some l2 \<and> lf_state l2 = kDisconnecting"
  using assms by (auto simp: life_defs life_setDisconnecting_def)

text \<open>The calls that decide about the life of a connection.\<close>

datatype life_op = Life_established nat | Life_shutdown | Life_forceClose | Life_handleClose | Life_destroyed

definition life_step :: "life_op \<Rightarrow> conn_life \<Rightarrow> conn_life outcome" where
  "life_step op l = (case op of
     Life_established _ \<Rightarrow> life_established l | Life_shutdown \<Rightarrow> Some (life_shutdown l)
   | Life_forceClose \<Rightarrow> Some (life_forceClose l) | Life_handleClose \<Rightarrow> life_handleClose l
   | Life_destroyed \<Rightarrow> life_destroyed l)"

definition conn_life_step :: "user_code \<Rightarrow> int \<Rightarrow> life_op \<Rightarrow> conn \<Rightarrow> conn outcome" where
  "conn_life_step user tid op s = (case op of
     Life_established self \<Rightarrow> TcpConnection_connectEstablished user self tid s
   | Life_shutdown \<Rightarrow> TcpConnection_shutdown tid s
   | Life_forceClose \<Rightarrow> Some (TcpConnection_forceClose tid s)
   | Life_handleClose \<Rightarrow> TcpConnection_handleClose user tid s
   | Life_destroyed \<Rightarrow> TcpConnection_connectDestroyed user tid s)"

subsection \<open>A connection seen as its life\<close>

definition life_of :: "conn \<Rightarrow> conn_life" where
  "life_of s = \<lparr>lf_state = cn_state s, lf_interested = (ch_events (r_chans s (cn_channel s)) \<noteq> 0),
     lf_registered = chan_registered (cn_channel s) s\<rparr>"

text \<open>
  A connection whose loop is consistent, on a loop that is not in the middle of handling events of
  other channels: before it is established its channel is new, and while it is open its channel is
  registered and wants events.
\<close>

definition life_view :: "int \<Rightarrow> conn \<Rightarrow> bool" where
  "life_view tid s = (let c = cn_channel s in
     reactor_ok tid s \<and> chan_of_loop c s
   \<and> (cn_state s = kConnecting \<longrightarrow> chan_fresh c s \<and> ch_events (r_chans s c) = 0)
   \<and> (cn_state s = kConnected \<or> cn_state s = kDisconnecting \<longrightarrow> chan_registered c s \<and> ch_events (r_chans s c) \<noteq> 0)
   \<and> (el_eventHandling s \<longrightarrow> m_currentActiveChannel s = Some c \<or> c \<notin> set (m_activeChannels s)))"

lemma life_view_thread: "life_view tid s \<Longrightarrow> EventLoop_assertInLoopThread tid s = Some ()"
  by (simp add: life_view_def Let_def reactor_ok_def EventLoop_assertInLoopThread_def EventLoop_isInLoopThread_def)

lemma life_view_cong:
  assumes "r_chans s = r_chans t" "m_poller s = m_poller t" "r_loop s = r_loop t" "cn_channel s = cn_channel t"
    "cn_state s = cn_state t" "el_eventHandling s = el_eventHandling t"
    "m_currentActiveChannel s = m_currentActiveChannel t" "m_activeChannels s = m_activeChannels t"
  shows "life_of s = life_of t" "life_view tid s = life_view tid t"
  using assms reactor_view_cong[OF assms(1-3)]
  by (simp_all add: life_of_def life_view_def Let_def chan_fresh_def)

lemma life_user:
  assumes "passive_user user"
  obtains s' where "user e s = Some s'" "life_of s' = life_of s" "life_view tid s' = life_view tid s"
    "cn_channel s' = cn_channel s" "cn_state s' = cn_state s"
proof -
  obtain b where b: "user e s = Some (s\<lparr>cn_inputBuffer := b\<rparr>)" by (rule passive_userE[OF assms])
  show ?thesis
    by (rule that[OF b]) (simp_all add: life_view_cong[of "s\<lparr>cn_inputBuffer := b\<rparr>" s])
qed

text \<open>Changing what the channel wants, with the state already set to \<open>st\<close>.\<close>

lemma life_update:
  assumes ok: "reactor_ok tid s" "chan_of_loop (cn_channel s) s"
    and idle: "el_eventHandling s \<longrightarrow> m_currentActiveChannel s = Some (cn_channel s) \<or> cn_channel s \<notin> set (m_activeChannels s)"
    and bits: "interest_mask (f (ch_events (r_chans s (cn_channel s))))"
    and reg: "chan_registered (cn_channel s) s
        \<or> chan_fresh (cn_channel s) s \<and> f (ch_events (r_chans s (cn_channel s))) \<noteq> 0"
    and st: "cn_state s = kDisconnected \<or> cn_state s \<noteq> kConnecting \<and> f (ch_events (r_chans s (cn_channel s))) \<noteq> 0"
  obtains s' where
    "Channel_update tid (cn_channel s) (chan_upd (cn_channel s) (ch_events_update f) s) = Some s'"
    "life_of s' = \<lparr>lf_state = cn_state s,
        lf_interested = (f (ch_events (r_chans s (cn_channel s))) \<noteq> 0), lf_registered = True\<rparr>"
    "life_view tid s'" "cn_channel s' = cn_channel s" "cn_state s' = cn_state s" "chan_registered (cn_channel s) s'"
proof -
  from Channel_update_events[where f = f, OF ok bits reg] obtain i chs p where
    u: "Channel_update tid (cn_channel s) (chan_upd (cn_channel s) (ch_events_update f) s)
          = Some (s\<lparr>r_chans := chs, m_poller := p\<rparr>)"
    "reactor_ok tid (s\<lparr>r_chans := chs, m_poller := p\<rparr>)"
    "chan_registered (cn_channel s) (s\<lparr>r_chans := chs, m_poller := p\<rparr>)"
    "chan_of_loop (cn_channel s) (s\<lparr>r_chans := chs, m_poller := p\<rparr>)"
    "chs (cn_channel s) = (r_chans s (cn_channel s))\<lparr>ch_events := f (ch_events (r_chans s (cn_channel s))),
        ch_index := i, is_addedToLoop := True\<rparr>"
    by blast
  let ?t = "s\<lparr>r_chans := chs, m_poller := p\<rparr>"
  have ev: "ch_events (chs (cn_channel s)) = f (ch_events (r_chans s (cn_channel s)))" by (simp add: u(5))
  have "life_view tid ?t"
    using u(2-4) ev idle st unfolding life_view_def Let_def by auto
  moreover have "life_of ?t = \<lparr>lf_state = cn_state s,
        lf_interested = (f (ch_events (r_chans s (cn_channel s))) \<noteq> 0), lf_registered = True\<rparr>"
    using u(3) ev by (simp add: life_of_def)
  ultimately show ?thesis using u(1,3) by (intro that[of ?t]) simp_all
qed

subsection \<open>The operations refine the abstract ones\<close>

lemma established_refines:
  assumes v: "life_view tid s" and user: "passive_user user"
  shows "map_option life_of (TcpConnection_connectEstablished user self tid s) = life_established (life_of s)
    \<and> (\<forall>s'. TcpConnection_connectEstablished user self tid s = Some s' \<longrightarrow> life_view tid s')"
proof (cases "cn_state s = kConnecting")
  case False
  then show ?thesis
    by (auto simp: TcpConnection_connectEstablished_def life_established_def life_of_def split: bind_splits)
next
  case True
  let ?c = "cn_channel s"
  define t where "t = chan_upd ?c (Channel_tie self) (TcpConnection_setState kConnected s)"
  have t: "cn_channel t = ?c" "cn_state t = kConnected" "m_poller t = m_poller s" "r_loop t = r_loop s"
    "el_eventHandling t = el_eventHandling s" "m_currentActiveChannel t = m_currentActiveChannel s"
    "m_activeChannels t = m_activeChannels s" "r_chans t = (r_chans s)(?c := Channel_tie self (r_chans s ?c))"
    by (simp_all add: t_def TcpConnection_setState_def chan_upd_def)
  have tie: "same_place (r_chans s) (r_chans t)" by (simp add: same_place_def t Channel_tie_def)
  have ev: "ch_events (r_chans t d) = ch_events (r_chans s d)" for d by (simp add: t Channel_tie_def)
  have 1: "reactor_ok tid t" "chan_of_loop ?c t" "chan_fresh ?c t"
    using v True any_p.inv_place[OF _ tie]
    by (auto simp: life_view_def Let_def reactor_ok_def ev t(3,4) chan_of_loop_def chan_fresh_def t(8) Channel_tie_def)
  have 2: "events_enableReading (ch_events (r_chans t ?c)) \<noteq> 0"
    using v True by (simp add: ev life_view_def Let_def events_enableReading_def event_masks)
  have 3: "interest_mask (events_enableReading (ch_events (r_chans t (cn_channel t))))"
    using 1(2) by (simp add: chan_of_loop_def t(1))
  have 4: "el_eventHandling t \<longrightarrow> m_currentActiveChannel t = Some (cn_channel t) \<or> cn_channel t \<notin> set (m_activeChannels t)"
    using v by (simp add: t life_view_def Let_def)
  have 5: "chan_registered (cn_channel t) t \<or> chan_fresh (cn_channel t) t \<and> events_enableReading (ch_events (r_chans t (cn_channel t))) \<noteq> 0"
    using 1(3) 2 by (simp add: t(1))
  have 6: "cn_state t = kDisconnected \<or> cn_state t \<noteq> kConnecting \<and> events_enableReading (ch_events (r_chans t (cn_channel t))) \<noteq> 0"
    using 2 by (simp add: t(1,2))
  obtain u where u: "Channel_enableReading tid ?c t = Some u" "life_view tid u"
    "life_of u = \<lparr>lf_state = kConnected, lf_interested = True, lf_registered = True\<rparr>"
    by (rule life_update[where f = events_enableReading, OF 1(1) _ 4 3 5 6]) (use 1(2) 2 in \<open>simp_all add: Channel_enableReading_def t(1,2)\<close>)
  obtain w where w: "user On_connection u = Some w" "life_of w = life_of u" "life_view tid w = life_view tid u"
    by (rule life_user[OF user])
  have "TcpConnection_connectEstablished user self tid s = Some w"
    using True u(1) w(1) life_view_thread[OF v]
    by (simp add: TcpConnection_connectEstablished_def t_def[symmetric] t(1))
  moreover have "life_established (life_of s) = Some (life_of u)"
    using True by (simp add: life_established_def life_of_def[of s] u(3))
  ultimately show ?thesis using w u(2) by simp
qed

text \<open>Setting the state to \<open>kDisconnected\<close> and disabling the channel of an open connection.\<close>

lemma disable_refines:
  assumes v: "life_view tid s" and st: "cn_state s = kConnected \<or> cn_state s = kDisconnecting"
  obtains s' where
    "Channel_disableAll tid (cn_channel s) (TcpConnection_setState kDisconnected s) = Some s'"
    "life_of s' = \<lparr>lf_state = kDisconnected, lf_interested = False, lf_registered = True\<rparr>"
    "life_view tid s'" "cn_channel s' = cn_channel s"
proof -
  let ?t = "TcpConnection_setState kDisconnected s"
  have t: "cn_channel ?t = cn_channel s" "cn_state ?t = kDisconnected" "m_poller ?t = m_poller s" "r_loop ?t = r_loop s"
    "el_eventHandling ?t = el_eventHandling s" "m_currentActiveChannel ?t = m_currentActiveChannel s"
    "m_activeChannels ?t = m_activeChannels s" "r_chans ?t = r_chans s"
    by (simp_all add: TcpConnection_setState_def)
  have ok: "reactor_ok tid ?t" "chan_of_loop (cn_channel ?t) ?t" "chan_registered (cn_channel ?t) ?t"
    using v st reactor_view_cong[OF t(8,3,4)] by (simp_all add: life_view_def Let_def t(1))
  have idle: "el_eventHandling ?t \<longrightarrow> m_currentActiveChannel ?t = Some (cn_channel ?t) \<or> cn_channel ?t \<notin> set (m_activeChannels ?t)"
    using v by (simp add: t life_view_def Let_def)
  show ?thesis
    by (rule life_update[where f = "\<lambda>_. kNoneEvent", OF ok(1,2) idle _ disjI1[OF ok(3)] disjI1[OF t(2)]])
      (simp_all add: that t Channel_disableAll_def kNoneEvent_def)
qed

lemma handleClose_refines:
  assumes v: "life_view tid s" and user: "passive_user user"
  shows "map_option life_of (TcpConnection_handleClose user tid s) = life_handleClose (life_of s)
    \<and> (\<forall>s'. TcpConnection_handleClose user tid s = Some s' \<longrightarrow> life_view tid s')"
proof (cases "cn_state s = kConnected \<or> cn_state s = kDisconnecting")
  case False
  then show ?thesis
    by (auto simp: TcpConnection_handleClose_def life_handleClose_def life_open_def life_of_def split: bind_splits)
next
  case True
  obtain t where t: "Channel_disableAll tid (cn_channel s) (TcpConnection_setState kDisconnected s) = Some t"
    "life_of t = \<lparr>lf_state = kDisconnected, lf_interested = False, lf_registered = True\<rparr>" "life_view tid t"
    by (rule disable_refines[OF v True])
  obtain u where u: "user On_connection t = Some u" "life_of u = life_of t" "life_view tid u = life_view tid t"
    by (rule life_user[OF user])
  obtain w where w: "user On_close u = Some w" "life_of w = life_of u" "life_view tid w = life_view tid u"
    by (rule life_user[OF user])
  have "TcpConnection_handleClose user tid s = Some w"
    using True t(1) u(1) w(1) life_view_thread[OF v] by (simp add: TcpConnection_handleClose_def)
  moreover have "life_handleClose (life_of s) = Some (life_of t)"
    using True by (simp add: life_handleClose_def life_open_def life_of_def[of s] t(2))
  ultimately show ?thesis using t u w by simp
qed

lemma remove_unregistered:
  assumes "\<not> chan_registered c s"
  shows "Channel_remove tid c s = None"
proof -
  have "Poller_removeChannel tid c ((r_chans s)(c := (r_chans s c)\<lparr>is_addedToLoop := False\<rparr>), m_poller s) = None"
    using assms
    by (cases "m_poller s")
      (auto simp: Poller_removeChannel_def chan_registered_def Poller_channels_def EpollPoller_removeChannel_def
        PollPoller_removeChannel_def Let_def split: bind_splits)
  then show ?thesis
    by (auto simp: Channel_remove_def EventLoop_removeChannel_def chan_upd_def split: bind_splits)
qed

lemma remove_refines:
  assumes v: "life_view tid s" and st: "cn_state s = kDisconnected"
    and reg: "chan_registered (cn_channel s) s" "ch_events (r_chans s (cn_channel s)) = 0"
  obtains s' where "Channel_remove tid (cn_channel s) s = Some s'"
    "life_of s' = (life_of s)\<lparr>lf_registered := False\<rparr>" "life_view tid s'"
proof -
  let ?c = "cn_channel s"
  have ok: "reactor_ok tid s" "chan_of_loop ?c s" and idle: "el_eventHandling s \<Longrightarrow>
      m_currentActiveChannel s = Some ?c \<or> ?c \<notin> set (m_activeChannels s)"
    using v by (auto simp: life_view_def Let_def)
  from Channel_remove_effect[OF ok reg idle] obtain chs p where
    r: "Channel_remove tid ?c s = Some (s\<lparr>r_chans := chs, m_poller := p\<rparr>)"
    "reactor_ok tid (s\<lparr>r_chans := chs, m_poller := p\<rparr>)"
    "Poller_channels p = (Poller_channels (m_poller s))(ch_fd (r_chans s ?c) := None)"
    "only_index ((r_chans s)(?c := (r_chans s ?c)\<lparr>is_addedToLoop := False\<rparr>)) chs"
    by auto
  have f: "ch_fd (chs ?c) = ch_fd (r_chans s ?c)" "ch_events (chs ?c) = 0" "ch_loop (chs ?c) = ch_loop (r_chans s ?c)"
    using only_index_fields[OF r(4), of ?c] reg(2) by simp_all
  show ?thesis
  proof (rule that[OF r(1)])
    show "life_of (s\<lparr>r_chans := chs, m_poller := p\<rparr>) = (life_of s)\<lparr>lf_registered := False\<rparr>"
      using reg(2) by (simp add: life_of_def chan_registered_def f r(3))
    show "life_view tid (s\<lparr>r_chans := chs, m_poller := p\<rparr>)"
      using ok(2) idle r(2) st by (auto simp: life_view_def Let_def chan_of_loop_def f)
  qed
qed

lemma destroyed_refines:
  assumes v: "life_view tid s" and user: "passive_user user"
  shows "map_option life_of (TcpConnection_connectDestroyed user tid s) = life_destroyed (life_of s)
    \<and> (\<forall>s'. TcpConnection_connectDestroyed user tid s = Some s' \<longrightarrow> life_view tid s')"
proof (cases "cn_state s = kConnected")
  case True
  obtain t where t: "Channel_disableAll tid (cn_channel s) (TcpConnection_setState kDisconnected s) = Some t"
    "life_of t = \<lparr>lf_state = kDisconnected, lf_interested = False, lf_registered = True\<rparr>" "life_view tid t"
    by (rule disable_refines[OF v disjI1[OF True]])
  obtain u where u: "user On_connection t = Some u" "life_of u = life_of t" "life_view tid u = life_view tid t"
    by (rule life_user[OF user])
  have "cn_state u = kDisconnected" "chan_registered (cn_channel u) u" "ch_events (r_chans u (cn_channel u)) = 0"
    using t(2) u(2) by (simp_all add: life_of_def)
  then obtain w where w: "Channel_remove tid (cn_channel u) u = Some w"
      "life_of w = (life_of u)\<lparr>lf_registered := False\<rparr>" "life_view tid w"
    using remove_refines[of tid u] t(3) u(3) by auto
  have "TcpConnection_connectDestroyed user tid s = Some w"
    using True t(1) u(1) w(1) life_view_thread[OF v] by (simp add: TcpConnection_connectDestroyed_def)
  moreover have "life_destroyed (life_of s) = Some (life_of w)"
    using True by (simp add: life_destroyed_def life_of_def[of s] w(2) u(2) t(2))
  ultimately show ?thesis using w(3) by simp
next
  case False
  have run: "TcpConnection_connectDestroyed user tid s = Channel_remove tid (cn_channel s) s"
    using False life_view_thread[OF v] by (simp add: TcpConnection_connectDestroyed_def)
  show ?thesis
  proof (cases "cn_state s = kDisconnected \<and> chan_registered (cn_channel s) s \<and> ch_events (r_chans s (cn_channel s)) = 0")
    case True
    then obtain w where w: "Channel_remove tid (cn_channel s) s = Some w"
        "life_of w = (life_of s)\<lparr>lf_registered := False\<rparr>" "life_view tid w"
      using remove_refines[OF v] by auto
    then show ?thesis using run True by (simp add: life_destroyed_def life_of_def[of s])
  next
    case None: False
    have fresh: "cn_state s = kConnecting \<Longrightarrow> \<not> chan_registered (cn_channel s) s"
      using v by (simp add: life_view_def Let_def chan_fresh_def chan_registered_def)
    have "cn_state s = kDisconnecting \<Longrightarrow> ch_events (r_chans s (cn_channel s)) \<noteq> 0"
      using v by (simp add: life_view_def Let_def)
    with None fresh False have "\<not> chan_registered (cn_channel s) s \<or> ch_events (r_chans s (cn_channel s)) \<noteq> 0"
      by (cases "cn_state s") auto
    moreover from this have "Channel_remove tid (cn_channel s) s = None"
      using remove_unregistered by (auto simp: Channel_remove_def Channel_isNoneEvent_def kNoneEvent_def)
    ultimately show ?thesis using run False by (auto simp: life_destroyed_def life_of_def)
  qed
qed

lemma shutdown_refines:
  assumes v: "life_view tid s"
  shows "map_option life_of (TcpConnection_shutdown tid s) = Some (life_shutdown (life_of s))
    \<and> (\<forall>s'. TcpConnection_shutdown tid s = Some s' \<longrightarrow> life_view tid s')"
proof (cases "cn_state s = kConnected")
  case True
  let ?t = "s\<lparr>cn_state := kDisconnecting\<rparr>"
  have t: "life_of ?t = (life_of s)\<lparr>lf_state := kDisconnecting\<rparr>" "life_view tid ?t"
    using v True reactor_view_cong[of ?t s] by (simp_all add: life_of_def life_view_def Let_def)
  have in_loop: "EventLoop_isInLoopThread tid ?t" "EventLoop_assertInLoopThread tid ?t = Some ()"
    using life_view_thread[OF t(2)] by (simp_all add: EventLoop_assertInLoopThread_def split: if_splits)
  note same = life_view_cong[of "s\<lparr>cn_state := kDisconnecting, sock_shutdown := True\<rparr>" ?t]
  show ?thesis
    using True t in_loop same
    by (auto simp: TcpConnection_shutdown_def TcpConnection_setState_def EventLoop_runInLoop_def
        TcpConnection_shutdownInLoop_def life_shutdown_def life_of_def[of s])
next
  case False
  then show ?thesis using v by (auto simp: TcpConnection_shutdown_def life_shutdown_def life_of_def)
qed

lemma forceClose_refines:
  assumes v: "life_view tid s"
  shows "life_of (TcpConnection_forceClose tid s) = life_forceClose (life_of s)"
    "life_view tid (TcpConnection_forceClose tid s)"
proof -
  let ?t = "s\<lparr>cn_state := kDisconnecting\<rparr>" and ?u = "TcpConnection_forceClose tid s"
  have "life_of ?u = life_forceClose (life_of s) \<and> life_view tid ?u"
  proof (cases "cn_state s = kConnected \<or> cn_state s = kDisconnecting")
    case True
    have t: "life_of ?t = (life_of s)\<lparr>lf_state := kDisconnecting\<rparr>" "life_view tid ?t"
      using v True reactor_view_cong[of ?t s] by (auto simp: life_of_def life_view_def Let_def)
    have u: "?u = EventLoop_queueInLoop tid Cb_forceCloseInLoop ?t"
      using True by (simp add: TcpConnection_forceClose_def TcpConnection_setState_def)
    have "life_of ?u = life_of ?t" "life_view tid ?u = life_view tid ?t"
      using life_view_cong[of ?u ?t]
      by (simp_all add: u EventLoop_queueInLoop_def EventLoop_wakeup_def queue_push_def Let_def)
    with True t show ?thesis by (simp add: life_forceClose_def life_open_def life_of_def[of s])
  next
    case False
    then show ?thesis using v by (simp add: TcpConnection_forceClose_def life_forceClose_def life_open_def life_of_def)
  qed
  then show "life_of ?u = life_forceClose (life_of s)" "life_view tid ?u" by simp_all
qed

lemma conn_life_step_refines:
  assumes "passive_user user" "life_view tid s"
  shows "map_option life_of (conn_life_step user tid op s) = life_step op (life_of s)"
proof (cases op)
  case (Life_established self)
  then show ?thesis using established_refines[OF assms(2,1)] by (simp add: conn_life_step_def life_step_def)
next
  case Life_shutdown
  then show ?thesis using shutdown_refines[OF assms(2)] by (simp add: conn_life_step_def life_step_def)
next
  case Life_forceClose
  then show ?thesis using forceClose_refines(1)[OF assms(2)] by (simp add: conn_life_step_def life_step_def)
next
  case Life_handleClose
  then show ?thesis using handleClose_refines[OF assms(2,1)] by (simp add: conn_life_step_def life_step_def)
next
  case Life_destroyed
  then show ?thesis using destroyed_refines[OF assms(2,1)] by (simp add: conn_life_step_def life_step_def)
qed

lemma conn_life_step_view:
  assumes "passive_user user" "life_view tid s" "conn_life_step user tid op s = Some s'"
  shows "life_view tid s'"
proof (cases op)
  case (Life_established self)
  then show ?thesis using established_refines[OF assms(2,1), of self] assms(3) by (simp add: conn_life_step_def)
next
  case Life_shutdown
  then show ?thesis using shutdown_refines[OF assms(2)] assms(3) by (simp add: conn_life_step_def)
next
  case Life_forceClose
  then show ?thesis using forceClose_refines(2)[OF assms(2)] assms(3) by (auto simp: conn_life_step_def)
next
  case Life_handleClose
  then show ?thesis using handleClose_refines[OF assms(2,1)] assms(3) by (simp add: conn_life_step_def)
next
  case Life_destroyed
  then show ?thesis using destroyed_refines[OF assms(2,1)] assms(3) by (simp add: conn_life_step_def)
qed

interpretation life: outcome_refinement "conn_life_step user tid" life_step
    "\<lambda>s. passive_user user \<and> life_view tid s" life_of for user tid
  by unfold_locales (auto intro: conn_life_step_refines dest: conn_life_step_view)

lemma life_new_view:
  assumes ok: "reactor_ok tid r" and c: "c \<notin> ran (Poller_channels (m_poller r))"
    and fd: "Poller_channels (m_poller r) sockfd = None" "0 \<le> sockfd" and outside: "\<not> el_eventHandling r"
  shows "life_view tid (TcpConnection_new nm sockfd c r)" "life_of (TcpConnection_new nm sockfd c r) = life_new"
proof -
  define ch where "ch = Channel_setErrorCallback Cb_handleError (Channel_setCloseCallback Cb_handleClose
                 (Channel_setWriteCallback Cb_handleWrite (Channel_setReadCallback Cb_handleRead
                   (Channel_new (r_loop r) sockfd))))"
  let ?s = "TcpConnection_new nm sockfd c r" and ?r = "chan_upd c (\<lambda>_. ch) r"
  have ch: "ch_loop ch = r_loop r" "ch_fd ch = sockfd" "ch_events ch = 0" "ch_index ch = -1"
    by (simp_all add: ch_def Channel_setErrorCallback_def Channel_setCloseCallback_def
        Channel_setWriteCallback_def Channel_setReadCallback_def Channel_new_def)
  have f: "r_chans ?s = r_chans ?r" "m_poller ?s = m_poller ?r" "r_loop ?s = r_loop ?r" "cn_channel ?s = c"
    "cn_state ?s = kConnecting" "el_eventHandling ?s = el_eventHandling r"
    by (simp_all add: TcpConnection_new_def ch_def Let_def reactor.extend_def chan_upd_def)
  note new = chan_new_ok[OF ok c fd ch] and same = reactor_view_cong[OF f(1-3)]
  show "life_view tid ?s"
    using new outside ch(3) by (simp add: life_view_def Let_def same f chan_fresh_def)
  show "life_of ?s = life_new"
    using fd(1) ch(2,3) by (simp add: life_of_def life_new_def f chan_registered_def)
qed

text \<open>C20: \<open>TcpConnection\<close> refines the abstract life cycle. For a new connection on an unused descriptor
  of a consistent loop, and user code that only consumes input, every sequence of \<open>connectEstablished\<close>,
  \<open>shutdown\<close>, \<open>forceClose\<close>, \<open>handleClose\<close> and \<open>connectDestroyed\<close> on the loop thread aborts exactly
  when the abstract life cycle does (establishing twice, closing what is not open, destroying while
  events are wanted or after the channel is gone), and otherwise ends in the state, the interest and
  the registration that the life cycle says.\<close>

theorem TcpConnection_refines_life:
  assumes ok: "reactor_ok tid r" and c: "c \<notin> ran (Poller_channels (m_poller r))"
    and fd: "Poller_channels (m_poller r) sockfd = None" "0 \<le> sockfd" and outside: "\<not> el_eventHandling r"
    and user: "passive_user user"
  shows "map_option life_of (for_each (conn_life_step user tid) ops (TcpConnection_new nm sockfd c r))
    = for_each life_step ops life_new"
proof -
  note new = life_new_view[OF ok c fd outside, of nm]
  show ?thesis using life.run_refines[of user tid "TcpConnection_new nm sockfd c r" ops] new user by simp
qed

theorem TcpConnection_refines_life_witness:
  "map_option life_of (for_each (conn_life_step quiet_user 7) [Life_established 1, Life_shutdown, Life_handleClose, Life_destroyed]
      (TcpConnection_new ''c'' 9 2 demo_loop))
    = Some \<lparr>lf_state = kDisconnected, lf_interested = False, lf_registered = False\<rparr>
  \<and> map_option life_of (for_each (conn_life_step quiet_user 7) [Life_established 1, Life_shutdown, Life_destroyed]
      (TcpConnection_new ''c'' 9 2 demo_loop)) = None"
  using TcpConnection_refines_life[OF demo_loop_value(1) demo_loop_free _ demo_loop_value(3) passive_quiet_user,
      of "[Life_established 1, Life_shutdown, Life_handleClose, Life_destroyed]" "''c''"]
    TcpConnection_refines_life[OF demo_loop_value(1) demo_loop_free _ demo_loop_value(3) passive_quiet_user,
      of "[Life_established 1, Life_shutdown, Life_destroyed]" "''c''"]
  by (simp add: life_step_def life_defs)

end
