(* ===== verification/Atomics.thy ===== *)
theory Atomics
  imports Prelude
begin

text \<open>
  \<open>dc::AtomicIntegerT\<close> (\<open>base/atomic.h\<close>), for every width: each operation is one atomic access and
  returns its result with the new value. Addition wraps around.
\<close>

definition Atomic_get :: "'a::len word \<Rightarrow> 'a word \<times> 'a word" where
  "Atomic_get v = (v, v)"

definition Atomic_getAndAdd :: "'a::len word \<Rightarrow> 'a word \<Rightarrow> 'a word \<times> 'a word" where
  "Atomic_getAndAdd x v = (v, v + x)"

definition Atomic_addAndGet :: "'a::len word \<Rightarrow> 'a word \<Rightarrow> 'a word \<times> 'a word" where
  "Atomic_addAndGet x v = (let (old, v1) = Atomic_getAndAdd x v in (old + x, v1))"

definition Atomic_incrementAndGet :: "'a::len word \<Rightarrow> 'a word \<times> 'a word" where
  "Atomic_incrementAndGet v = Atomic_addAndGet 1 v"

definition Atomic_decrementAndGet :: "'a::len word \<Rightarrow> 'a word \<times> 'a word" where
  "Atomic_decrementAndGet v = Atomic_addAndGet (- 1) v"

definition Atomic_add :: "'a::len word \<Rightarrow> 'a word \<Rightarrow> 'a word" where
  "Atomic_add x v = snd (Atomic_getAndAdd x v)"

definition Atomic_increment :: "'a::len word \<Rightarrow> 'a word" where
  "Atomic_increment v = snd (Atomic_incrementAndGet v)"

definition Atomic_decrement :: "'a::len word \<Rightarrow> 'a word" where
  "Atomic_decrement v = snd (Atomic_decrementAndGet v)"

definition Atomic_getAndSet :: "'a::len word \<Rightarrow> 'a word \<Rightarrow> 'a word \<times> 'a word" where
  "Atomic_getAndSet newValue v = (v, newValue)"

text \<open>Counting from any value meets no value twice before the width is exhausted.\<close>

lemma Atomic_increments_distinct:
  assumes "i < 2 ^ LENGTH('a::len)" "j < 2 ^ LENGTH('a)"
    "(Atomic_increment ^^ i) (v :: 'a word) = (Atomic_increment ^^ j) v"
  shows "i = j"
proof -
  have "(Atomic_increment ^^ k) v = v + word_of_nat k" for k
    by (induction k) (simp_all add: Atomic_increment_def Atomic_incrementAndGet_def Atomic_addAndGet_def Atomic_getAndAdd_def)
  with assms(3) have "word_of_nat i = (word_of_nat j :: 'a word)" by simp
  then show ?thesis using assms(1,2) by (metis of_nat_inverse)
qed

end
