(* ===== verification/Server.thy ===== *)
theory Server
  imports ConnectionLife Atomics "HOL-Library.Char_ord" "HOL-Library.List_Lexorder"
begin

text \<open>
  \<open>dc::net::EventLoopThreadPool\<close> and \<open>dc::net::TcpServer\<close>: a server hands
  every accepted connection to a loop of its pool and keeps a map of the connections by name.

  The loops and their threads run concurrently. The state has, for each loop, the functors that
  \<open>runInLoop\<close> and \<open>queueInLoop\<close> left in its queue (called one by one in queue order, as shown of
  \<open>EventLoop\<close>), and the connection objects made so far, each with the loop it was given and its
  life. A step of the system is one call: an accepted descriptor, a queued functor, a peer that
  closes, or a user who shuts down or closes a connection on the thread of its loop.
\<close>

subsection \<open>\<open>EventLoopThreadPool\<close>\<close>

text \<open>
  \<open>lp_inits\<close> lists the loops the thread-init callback was called on, by the pool or by the threads.
\<close>

record loop_pool =
  lp_baseLoop :: loop_ref
  lp_name :: string
  lp_started :: bool
  lp_numThreads :: int
  lp_next :: int
  lp_threads :: "string list"
  lp_loops :: "loop_ref list"
  lp_inits :: "loop_ref list"

definition EventLoopThreadPool_new :: "loop_ref \<Rightarrow> string \<Rightarrow> loop_pool" where
  "EventLoopThreadPool_new loop nameArg = \<lparr>lp_baseLoop = loop, lp_name = nameArg, lp_started = False,
     lp_numThreads = 0, lp_next = 0, lp_threads = [], lp_loops = [], lp_inits = []\<rparr>"

definition EventLoopThreadPool_setThreadNum :: "int \<Rightarrow> loop_pool \<Rightarrow> loop_pool" where
  "EventLoopThreadPool_setThreadNum n p = p\<lparr>lp_numThreads := n\<rparr>"

text \<open>
  One turn of the loop of \<open>start\<close>: \<open>spawn i\<close> is the loop that \<open>startLoop\<close> of the \<open>i\<close>-th new thread
  returns (its thread has called the callback \<open>cb\<close>, when there is one).
\<close>

definition pool_spawn :: "(nat \<Rightarrow> loop_ref) \<Rightarrow> bool \<Rightarrow> nat \<Rightarrow> loop_pool \<Rightarrow> loop_pool" where
  "pool_spawn spawn cb i p =
     (let buf = snprintf_buf (length (lp_name p) + 32) (lp_name p @ dec_int (int i))
      in p\<lparr>lp_threads := lp_threads p @ [buf], lp_loops := lp_loops p @ [spawn i],
           lp_inits := lp_inits p @ (if cb then [spawn i] else [])\<rparr>)"

definition EventLoopThreadPool_start :: "(nat \<Rightarrow> loop_ref) \<Rightarrow> bool \<Rightarrow> int \<Rightarrow> loop_pool \<Rightarrow> loop_pool outcome" where
  "EventLoopThreadPool_start spawn cb tid p = do {
     assert_that (\<not> lp_started p);
     assert_that (in_loop_thread tid (lp_baseLoop p));
     let p = fold (pool_spawn spawn cb) [0 ..< nat (lp_numThreads p)] (p\<lparr>lp_started := True\<rparr>);
     Some (if lp_numThreads p = 0 \<and> cb then p\<lparr>lp_inits := lp_inits p @ [lp_baseLoop p]\<rparr> else p)
   }"

definition EventLoopThreadPool_getNextLoop :: "int \<Rightarrow> loop_pool \<Rightarrow> (loop_ref \<times> loop_pool) outcome" where
  "EventLoopThreadPool_getNextLoop tid p = do {
     assert_that (in_loop_thread tid (lp_baseLoop p));
     assert_that (lp_started p);
     if lp_loops p \<noteq> []
     then do {
       assert_that (0 \<le> lp_next p \<and> nat (lp_next p) < length (lp_loops p));
       let loop = lp_loops p ! nat (lp_next p);
       let next1 = lp_next p + 1;
       Some (loop, p\<lparr>lp_next := if int (length (lp_loops p)) \<le> next1 then 0 else next1\<rparr>)
     }
     else Some (lp_baseLoop p, p)
   }"

definition EventLoopThreadPool_getLoopForHash :: "int \<Rightarrow> nat \<Rightarrow> loop_pool \<Rightarrow> loop_ref outcome" where
  "EventLoopThreadPool_getLoopForHash tid hashCode p = do {
     assert_that (in_loop_thread tid (lp_baseLoop p));
     Some (if lp_loops p \<noteq> [] then lp_loops p ! (hashCode mod length (lp_loops p)) else lp_baseLoop p)
   }"

definition EventLoopThreadPool_getAllLoops :: "int \<Rightarrow> loop_pool \<Rightarrow> loop_ref list outcome" where
  "EventLoopThreadPool_getAllLoops tid p = do {
     assert_that (in_loop_thread tid (lp_baseLoop p));
     assert_that (lp_started p);
     Some (if lp_loops p = [] then [lp_baseLoop p] else lp_loops p)
   }"

subsection \<open>\<open>TcpServer\<close>\<close>

text \<open>A connection object, by its address (its place in the list of all made so far).\<close>

record server_conn =
  sc_name :: string
  sc_loop :: loop_ref
  sc_fd :: int
  sc_life :: conn_life

datatype server_task =
    Task_listen
  | Task_connectEstablished nat
  | Task_removeConnectionInLoop nat
  | Task_connectDestroyed nat
  | Task_forceCloseInLoop nat

record tcp_server =
  sv_loop :: loop_ref
  sv_ipPort :: string
  sv_name :: string
  sv_listening :: bool
  sv_threadPool :: loop_pool
  sv_started :: "32 word"
  sv_nextConnId :: int
  sv_connections :: "string \<rightharpoonup> nat"
  sv_conns :: "server_conn list"
  sv_queues :: "loop_ref \<Rightarrow> server_task list"

definition TcpServer_new :: "loop_ref \<Rightarrow> string \<Rightarrow> string \<Rightarrow> tcp_server" where
  "TcpServer_new loop ipPort nameArg = \<lparr>sv_loop = loop, sv_ipPort = ipPort, sv_name = nameArg,
     sv_listening = False, sv_threadPool = EventLoopThreadPool_new loop nameArg, sv_started = 0,
     sv_nextConnId = 1, sv_connections = Map.empty, sv_conns = [], sv_queues = (\<lambda>_. [])\<rparr>"

definition TcpServer_setThreadNum :: "int \<Rightarrow> tcp_server \<Rightarrow> tcp_server outcome" where
  "TcpServer_setThreadNum numThreads s = do {
     assert_that (0 \<le> numThreads);
     Some (s\<lparr>sv_threadPool := EventLoopThreadPool_setThreadNum numThreads (sv_threadPool s)\<rparr>)
   }"

text \<open>\<open>queueInLoop\<close> and \<open>runInLoop\<close> of a loop of the system; \<open>exec\<close> is the call of the task.\<close>

definition loop_queue :: "loop_ref \<Rightarrow> server_task \<Rightarrow> tcp_server \<Rightarrow> tcp_server" where
  "loop_queue l task s = s\<lparr>sv_queues := (sv_queues s)(l := sv_queues s l @ [task])\<rparr>"

definition loop_run :: "(tcp_server \<Rightarrow> tcp_server outcome) \<Rightarrow> int \<Rightarrow> loop_ref \<Rightarrow> server_task \<Rightarrow>
    tcp_server \<Rightarrow> tcp_server outcome" where
  "loop_run exec tid l task s = (if in_loop_thread tid l then exec s else Some (loop_queue l task s))"

text \<open>\<open>Acceptor::listen\<close> as the server sees it.\<close>

definition server_listen :: "int \<Rightarrow> tcp_server \<Rightarrow> tcp_server outcome" where
  "server_listen tid s = do {
     assert_that (in_loop_thread tid (sv_loop s));
     Some (s\<lparr>sv_listening := True\<rparr>)
   }"

definition TcpServer_start :: "(nat \<Rightarrow> loop_ref) \<Rightarrow> bool \<Rightarrow> int \<Rightarrow> tcp_server \<Rightarrow> tcp_server outcome" where
  "TcpServer_start spawn cb tid s = do {
     let (old, v) = Atomic_getAndSet 1 (sv_started s);
     let s = s\<lparr>sv_started := v\<rparr>;
     if old = 0
     then do {
       p \<leftarrow> EventLoopThreadPool_start spawn cb tid (sv_threadPool s);
       let s = s\<lparr>sv_threadPool := p\<rparr>;
       assert_that (\<not> sv_listening s);
       loop_run (server_listen tid) tid (sv_loop s) Task_listen s
     }
     else Some s
   }"

text \<open>A call on the connection at address \<open>c\<close>, on the thread of its loop.\<close>

definition conn_call :: "(conn_life \<Rightarrow> conn_life outcome) \<Rightarrow> int \<Rightarrow> nat \<Rightarrow> tcp_server \<Rightarrow> tcp_server outcome" where
  "conn_call f tid c s = do {
     assert_that (c < length (sv_conns s));
     let k = sv_conns s ! c;
     assert_that (in_loop_thread tid (sc_loop k));
     l \<leftarrow> f (sc_life k);
     Some (s\<lparr>sv_conns := (sv_conns s)[c := k\<lparr>sc_life := l\<rparr>]\<rparr>)
   }"

definition TcpServer_newConnection :: "int \<Rightarrow> int \<Rightarrow> tcp_server \<Rightarrow> tcp_server outcome" where
  "TcpServer_newConnection tid sockfd s = do {
     assert_that (in_loop_thread tid (sv_loop s));
     (ioLoop, pool) \<leftarrow> EventLoopThreadPool_getNextLoop tid (sv_threadPool s);
     let buf = snprintf_buf 64 (''-'' @ sv_ipPort s @ dec_int (sv_nextConnId s));
     assert_that (sv_nextConnId s < 2 ^ 31 - 1);
     let connName = sv_name s @ buf;
     let conn = length (sv_conns s);
     let s = s\<lparr>sv_threadPool := pool, sv_nextConnId := sv_nextConnId s + 1,
               sv_conns := sv_conns s @ [\<lparr>sc_name = connName, sc_loop = ioLoop, sc_fd = sockfd, sc_life = life_new\<rparr>],
               sv_connections := (sv_connections s)(connName \<mapsto> conn)\<rparr>;
     loop_run (conn_call life_established tid conn) tid ioLoop (Task_connectEstablished conn) s
   }"

definition TcpServer_removeConnectionInLoop :: "int \<Rightarrow> nat \<Rightarrow> tcp_server \<Rightarrow> tcp_server outcome" where
  "TcpServer_removeConnectionInLoop tid conn s = do {
     assert_that (in_loop_thread tid (sv_loop s));
     assert_that (conn < length (sv_conns s));
     let k = sv_conns s ! conn;
     assert_that (sv_connections s (sc_name k) \<noteq> None);
     let s = s\<lparr>sv_connections := (sv_connections s)(sc_name k := None)\<rparr>;
     Some (loop_queue (sc_loop k) (Task_connectDestroyed conn) s)
   }"

definition TcpServer_removeConnection :: "int \<Rightarrow> nat \<Rightarrow> tcp_server \<Rightarrow> tcp_server outcome" where
  "TcpServer_removeConnection tid conn s =
     loop_run (TcpServer_removeConnectionInLoop tid conn) tid (sv_loop s) (Task_removeConnectionInLoop conn) s"

text \<open>\<open>TcpConnection::handleClose\<close> with the close callback the server has set.\<close>

definition server_handleClose :: "int \<Rightarrow> nat \<Rightarrow> tcp_server \<Rightarrow> tcp_server outcome" where
  "server_handleClose tid conn s = conn_call life_handleClose tid conn s \<bind> TcpServer_removeConnection tid conn"

definition server_forceCloseInLoop :: "int \<Rightarrow> nat \<Rightarrow> tcp_server \<Rightarrow> tcp_server outcome" where
  "server_forceCloseInLoop tid conn s = do {
     assert_that (conn < length (sv_conns s));
     assert_that (in_loop_thread tid (sc_loop (sv_conns s ! conn)));
     if life_open (sc_life (sv_conns s ! conn)) then server_handleClose tid conn s else Some s
   }"

text \<open>
  \<open>shutdown\<close> and \<open>forceClose\<close> on the thread of the connection's loop, where nothing comes between
  their test of the state and the \<open>setState\<close> after it. On another thread \<open>handleClose\<close> may: the
  functions take no lock, and \<^verbatim>\<open>tcpConnection.h\<close> calls \<open>shutdown\<close> not thread safe
  (\<open>state_race_breaks_destructor\<close>).
\<close>

definition server_shutdown :: "nat \<Rightarrow> tcp_server \<Rightarrow> tcp_server" where
  "server_shutdown c s = (let k = sv_conns s ! c in
     s\<lparr>sv_conns := (sv_conns s)[c := k\<lparr>sc_life := life_shutdown (sc_life k)\<rparr>]\<rparr>)"

definition server_forceClose :: "nat \<Rightarrow> tcp_server \<Rightarrow> tcp_server" where
  "server_forceClose c s = (let k = sv_conns s ! c in
     if life_open (sc_life k)
     then loop_queue (sc_loop k) (Task_forceCloseInLoop c)
            (s\<lparr>sv_conns := (sv_conns s)[c := k\<lparr>sc_life := life_forceClose (sc_life k)\<rparr>]\<rparr>)
     else s)"

text \<open>The functor at the head of a queue is called on the thread of the loop.\<close>

definition server_exec :: "int \<Rightarrow> server_task \<Rightarrow> tcp_server \<Rightarrow> tcp_server outcome" where
  "server_exec tid task s = (case task of
     Task_listen \<Rightarrow> server_listen tid s
   | Task_connectEstablished c \<Rightarrow> conn_call life_established tid c s
   | Task_removeConnectionInLoop c \<Rightarrow> TcpServer_removeConnectionInLoop tid c s
   | Task_connectDestroyed c \<Rightarrow> conn_call life_destroyed tid c s
   | Task_forceCloseInLoop c \<Rightarrow> server_forceCloseInLoop tid c s)"

text \<open>
  The destructor: every connection still in the map is destroyed on its loop, in the order of the
  map, that is by name.
\<close>

definition map_items :: "tcp_server \<Rightarrow> nat list" where
  "map_items s = sort_key (\<lambda>c. sc_name (sv_conns s ! c))
     (filter (\<lambda>c. sv_connections s (sc_name (sv_conns s ! c)) = Some c) [0 ..< length (sv_conns s)])"

definition TcpServer_destroy :: "int \<Rightarrow> tcp_server \<Rightarrow> tcp_server outcome" where
  "TcpServer_destroy tid s = do {
     assert_that (in_loop_thread tid (sv_loop s));
     for_each (\<lambda>c s. loop_run (conn_call life_destroyed tid c) tid (sc_loop (sv_conns s ! c))
                       (Task_connectDestroyed c) s) (map_items s) s
   }"

end
