(* ===== verification/HttpSession.thy ===== *)
theory HttpSession
  imports HttpProps Server
begin

text \<open>
  The HTTP server as a whole (\<open>net/http/httpServer.cc\<close>): its constructor, which wires the handlers to a
  \<open>TcpServer\<close>, \<open>start\<close>, and what a connection does with the bytes of a client that arrive in arbitrary
  fragments. The parser is refined to a function on texts, and a session is the sequence of readable and
  writable events of one connection.
\<close>

subsection \<open>The server object\<close>

record http_server =
  hs_server :: tcp_server
  hs_httpCallback :: http_callback

definition HttpServer_new :: "loop_ref \<Rightarrow> string \<Rightarrow> string \<Rightarrow> http_server" where
  "HttpServer_new loop listenAddr nameArg = \<lparr>hs_server = TcpServer_new loop listenAddr nameArg, hs_httpCallback = defaultHttpCallback\<rparr>"

definition HttpServer_setThreadNum :: "int \<Rightarrow> http_server \<Rightarrow> http_server outcome" where
  "HttpServer_setThreadNum numThreads h = do {
     s \<leftarrow> TcpServer_setThreadNum numThreads (hs_server h);
     Some (h\<lparr>hs_server := s\<rparr>)
   }"

definition HttpServer_setHttpCallback :: "http_callback \<Rightarrow> http_server \<Rightarrow> http_server" where
  "HttpServer_setHttpCallback cb h = h\<lparr>hs_httpCallback := cb\<rparr>"

definition HttpServer_start :: "(nat \<Rightarrow> loop_ref) \<Rightarrow> int \<Rightarrow> http_server \<Rightarrow> http_server outcome" where
  "HttpServer_start spawn tid h = do {
     s \<leftarrow> TcpServer_start spawn False tid (hs_server h);
     Some (h\<lparr>hs_server := s\<rparr>)
   }"

text \<open>Starting twice is the same as starting once, and the callback set before is the one that serves.\<close>

lemma HttpServer_start_once:
  assumes "HttpServer_start spawn tid (HttpServer_setHttpCallback cb h) = Some h'"
  shows "HttpServer_start spawn' tid' h' = Some h'" "hs_httpCallback h' = cb"
proof -
  obtain s where s: "TcpServer_start spawn False tid (hs_server h) = Some s" "h' = (HttpServer_setHttpCallback cb h)\<lparr>hs_server := s\<rparr>"
    using assms by (auto simp: HttpServer_start_def HttpServer_setHttpCallback_def split: bind_splits)
  then show "hs_httpCallback h' = cb" by (simp add: HttpServer_setHttpCallback_def)
  have "sv_started s = 1"
    using s(1) by (auto simp: TcpServer_start_def Atomic_getAndSet_def loop_run_def server_listen_def loop_queue_def Let_def
        split: bind_splits if_splits)
  then have "TcpServer_start spawn' False tid' s = Some s" by (simp add: TcpServer_start_def Atomic_getAndSet_def Let_def)
  then show "HttpServer_start spawn' tid' h' = Some h'" using s(2) by (simp add: HttpServer_start_def)
qed

subsection \<open>Events of a connection\<close>

text \<open>
  The handlers bound in the constructor, as the user code of a connection: the context is the
  \<open>std::any\<close> of the connection. \<open>http_handleRead\<close> is \<open>TcpConnection::handleRead\<close> with the message callback in
  place and the new context in the result; see \<open>http_handleRead_is\<close>.
\<close>

definition http_user :: "http_callback \<Rightarrow> int \<Rightarrow> write_result \<Rightarrow> write_result \<Rightarrow> http_context \<Rightarrow> user_code" where
  "http_user cb tid w1 w2 ctx e s = (case e of
     On_message t \<Rightarrow> map_option snd (HttpServer_onMessage cb tid w1 w2 t ctx s)
   | _ \<Rightarrow> Some s)"

definition http_handleRead :: "http_callback \<Rightarrow> int \<Rightarrow> write_result \<Rightarrow> write_result \<Rightarrow> (nat list \<Rightarrow> read_result) \<Rightarrow> timestamp \<Rightarrow>
    http_context \<times> conn \<Rightarrow> (http_context \<times> conn) outcome" where
  "http_handleRead cb tid w1 w2 readv t cs = (case cs of (ctx, s) \<Rightarrow> do {
     EventLoop_assertInLoopThread tid s;
     (n, saveErrno, b) \<leftarrow> Buffer_readFd readv (cn_inputBuffer s);
     let s = s\<lparr>cn_inputBuffer := b\<rparr>;
     if 0 < n then HttpServer_onMessage cb tid w1 w2 t ctx s
     else if n = 0 then map_option (Pair ctx) (TcpConnection_handleClose (http_user cb tid w1 w2 ctx) tid s)
     else Some (ctx, TcpConnection_handleError s)
   })"

lemma http_handleRead_is:
  "map_option snd (http_handleRead cb tid w1 w2 readv t (ctx, s)) = TcpConnection_handleRead (http_user cb tid w1 w2 ctx) readv tid t s"
  by (auto simp: http_handleRead_def TcpConnection_handleRead_def http_user_def option.map_comp o_def option.map_ident
      Let_def split: Option.bind_split)

datatype http_event = Ev_read timestamp string write_result write_result | Ev_write write_result

definition http_event_step :: "http_callback \<Rightarrow> int \<Rightarrow> http_event \<Rightarrow> http_context \<times> conn \<Rightarrow> (http_context \<times> conn) outcome" where
  "http_event_step cb tid e cs = (case e of
     Ev_read t xs w1 w2 \<Rightarrow> http_handleRead cb tid w1 w2 (\<lambda>iov. ReadData xs) t cs
   | Ev_write w \<Rightarrow> map_option (Pair (fst cs)) (TcpConnection_handleWrite tid w (snd cs)))"

subsection \<open>The parser as a function of the text\<close>

definition line_of :: "string \<Rightarrow> (string \<times> string) option" where
  "line_of xs = (let k = std_search kCRLF xs in if k = length xs then None else Some (take k xs, drop (k + 2) xs))"

lemma line_ofD:
  assumes "line_of xs = Some (l, rest)"
  shows "std_search kCRLF xs + 2 \<le> length xs" "l = take (std_search kCRLF xs) xs" "rest = drop (std_search kCRLF xs + 2) xs"
    "std_search kCRLF xs < length xs"
proof -
  show k: "std_search kCRLF xs < length xs"
    using assms std_search_le[of kCRLF xs] by (auto simp: line_of_def Let_def le_less split: if_splits)
  show "std_search kCRLF xs + 2 \<le> length xs" using std_search_match_len[OF k] by (simp add: kCRLF_def)
  show "l = take (std_search kCRLF xs) xs" "rest = drop (std_search kCRLF xs + 2) xs"
    using assms by (auto simp: line_of_def Let_def split: if_splits)
qed

lemma line_of_shorter: "line_of xs = Some (l, rest) \<Longrightarrow> length rest < length xs"
  using line_ofD[of xs l rest] by simp

lemma std_search_append:
  "std_search pat xs < length xs \<Longrightarrow> std_search pat (xs @ ys) = std_search pat xs"
proof (induction xs)
  case (Cons x xs)
  show ?case
  proof (cases "take (length pat) (x # xs) = pat")
    case True
    then have "length pat \<le> length (x # xs)" by (metis length_take min.cobounded1)
    then have "take (length pat) ((x # xs) @ ys) = take (length pat) (x # xs)" by (simp only: take_append) simp
    with True show ?thesis by simp
  next
    case False
    with Cons have l: "std_search pat xs < length xs" "std_search pat (xs @ ys) = std_search pat xs" by simp_all
    have "take (length pat) ((x # xs) @ ys) \<noteq> pat"
    proof
      assume a: "take (length pat) ((x # xs) @ ys) = pat"
      have "length pat \<le> length xs" using std_search_match_len[OF l(1)] by simp
      then have "take (length pat) ((x # xs) @ ys) = take (length pat) (x # xs)" by (simp only: take_append) simp
      with a False show False by simp
    qed
    with False l show ?thesis by simp
  qed
qed simp

lemma line_of_append:
  assumes "line_of xs = Some (l, rest)"
  shows "line_of (xs @ ys) = Some (l, rest @ ys)"
  using line_ofD[OF assms] std_search_append[of kCRLF xs ys] by (simp add: line_of_def Let_def)

function parse_text :: "timestamp \<Rightarrow> bool \<Rightarrow> http_context \<Rightarrow> string \<Rightarrow> (bool \<times> http_context \<times> string) option" where
  "parse_text t ok c xs = (case hc_state c of
     kExpectRequestLine \<Rightarrow> (case line_of xs of
         None \<Rightarrow> Some (ok, c, xs)
       | Some (line, rest) \<Rightarrow> (case HttpContext_processRequestLine line (hc_request c) of
             None \<Rightarrow> None
           | Some (True, r) \<Rightarrow> parse_text t True (c\<lparr>hc_request := r\<lparr>rq_receiveTime := t\<rparr>, hc_state := kExpectHeaders\<rparr>) rest
           | Some (False, r) \<Rightarrow> Some (False, c\<lparr>hc_request := r\<rparr>, xs)))
   | kExpectHeaders \<Rightarrow> (case line_of xs of
         None \<Rightarrow> Some (ok, c, xs)
       | Some (line, rest) \<Rightarrow> (let colon = std_find (CHR '':'') line in
           if colon \<noteq> length line
           then parse_text t ok (c\<lparr>hc_request := HttpRequest_addHeader (take colon line) (drop (colon + 1) line) (hc_request c)\<rparr>) rest
           else Some (ok, c\<lparr>hc_state := kGotAll\<rparr>, rest)))
   | _ \<Rightarrow> None)"
  by pat_completeness auto
termination
  by (relation "measure (\<lambda>(t, ok, c, xs). length xs)") (auto dest: line_of_shorter)

declare parse_text.simps [simp del]

lemma Buffer_line_of:
  assumes inv: "Buffer_inv b"
  shows "case line_of (Buffer_content b) of None \<Rightarrow> Buffer_findCRLF b = None
    | Some (line, rest) \<Rightarrow> \<exists>p b'. Buffer_findCRLF b = Some p \<and> Buffer_line p b = line
        \<and> Buffer_retrieveUntil (p + 2) b = Some b' \<and> Buffer_inv b' \<and> Buffer_content b' = rest"
proof (cases "Buffer_findCRLF b")
  case None
  then show ?thesis by (simp add: Buffer_findCRLF_search[OF inv] line_of_def Let_def split: if_splits)
next
  case (Some p)
  let ?k = "std_search kCRLF (Buffer_content b)"
  have p: "p = Buffer_peek b + ?k" "?k \<noteq> length (Buffer_content b)"
    using Some by (auto simp: Buffer_findCRLF_search[OF inv] Let_def split: if_splits)
  have line: "Buffer_line p b = take ?k (Buffer_content b)" unfolding p(1) by (rule Buffer_line_take[OF inv]) simp
  from Buffer_found_line[OF inv Some] obtain l rest b' where
    l: "Buffer_content b = l @ kCRLF @ rest" "Buffer_line p b = l" "Buffer_retrieveUntil (p + 2) b = Some b'"
    "Buffer_inv b'" "Buffer_content b' = rest" by blast
  have "length l = ?k" unfolding l(2)[symmetric] line using std_search_le[of kCRLF "Buffer_content b"] by simp
  then have "rest = drop (?k + 2) (Buffer_content b)" using l(1) by (simp add: kCRLF_def)
  then have "line_of (Buffer_content b) = Some (l, rest)" using p(2) l(2) line by (simp add: line_of_def)
  then show ?thesis using Some l by auto
qed

definition parsed_as :: "(bool \<times> http_context \<times> string) option \<Rightarrow> (bool \<times> http_context \<times> buffer) option \<Rightarrow> bool" where
  "parsed_as pt pb = (case pt of None \<Rightarrow> pb = None
     | Some (ok, c, rest) \<Rightarrow> \<exists>b. pb = Some (ok, c, b) \<and> Buffer_inv b \<and> Buffer_content b = rest)"

lemma parsed_as_simps [simp]:
  "parsed_as None pb = (pb = None)" "parsed_as (Some (ok, c, rest)) (Some (ok', c', b)) = (ok' = ok \<and> c' = c \<and> Buffer_inv b \<and> Buffer_content b = rest)"
  by (auto simp: parsed_as_def)

text \<open>The loop on the buffer computes the function on its text; what the function leaves undefined does not return.\<close>

lemma parse_loop_text:
  assumes "Buffer_inv b"
  shows "parsed_as (parse_text t ok c (Buffer_content b)) (parse_loop t ok c b)"
  using assms
proof (induction "length (Buffer_content b)" arbitrary: ok c b rule: less_induct)
  case less
  note inv = less.prems and L = Buffer_line_of[OF less.prems]
  have stuck: "parse_loop t ok c b = None" if "hc_state c = kExpectBody \<or> hc_state c = kGotAll"
    using parse_loop_stuck[of t ok c b] that by (cases "parse_loop t ok c b") auto
  show ?case
  proof (cases "line_of (Buffer_content b)")
    case None
    with L have f: "Buffer_findCRLF b = None" by simp
    show ?thesis
    proof (cases "hc_state c")
      case kExpectRequestLine
      then show ?thesis using inv f None by (subst parse_text.simps, subst parse_loop.simps) (simp add: HttpContext_turn_def)
    next
      case kExpectHeaders
      then show ?thesis using inv f None by (subst parse_text.simps, subst parse_loop.simps) (simp add: HttpContext_turn_def)
    qed (use stuck in \<open>simp_all add: parse_text.simps\<close>)
  next
    case (Some lr)
    then obtain line rest where lr: "line_of (Buffer_content b) = Some (line, rest)" by (cases lr) simp
    with L obtain p b1 where b1: "Buffer_findCRLF b = Some p" "Buffer_line p b = line"
      "Buffer_retrieveUntil (p + 2) b = Some b1" "Buffer_inv b1" "Buffer_content b1 = rest" by auto
    have IH: "parsed_as (parse_text t ok1 c1 rest) (parse_loop t ok1 c1 b1)" for ok1 c1
      using less.hyps[of b1 ok1 c1] line_of_shorter[OF lr] b1(4,5) by simp
    show ?thesis
    proof (cases "hc_state c")
      case kExpectRequestLine
      show ?thesis
      proof (cases "HttpContext_processRequestLine line (hc_request c)")
        case None
        then show ?thesis using kExpectRequestLine lr b1
          by (subst parse_text.simps, subst parse_loop.simps) (simp add: HttpContext_turn_def)
      next
        case (Some okr)
        then obtain okl r where r: "HttpContext_processRequestLine line (hc_request c) = Some (okl, r)" by (cases okr) simp
        let ?c = "c\<lparr>hc_request := r\<lparr>rq_receiveTime := t\<rparr>, hc_state := kExpectHeaders\<rparr>"
        have "parse_text t ok c (Buffer_content b) = (if okl then parse_text t True ?c rest else Some (False, c\<lparr>hc_request := r\<rparr>, Buffer_content b))"
          using kExpectRequestLine lr r by (subst parse_text.simps) simp
        moreover have "parse_loop t ok c b = (if okl then parse_loop t True ?c b1 else Some (False, c\<lparr>hc_request := r\<rparr>, b))"
          using kExpectRequestLine b1 r by (subst parse_loop.simps) (simp add: HttpContext_turn_def)
        ultimately show ?thesis using IH[of True ?c] inv by (cases okl) simp_all
      qed
    next
      case kExpectHeaders
      let ?k = "std_find (CHR '':'') line"
      let ?c = "c\<lparr>hc_request := HttpRequest_addHeader (take ?k line) (drop (?k + 1) line) (hc_request c)\<rparr>"
      have "parse_text t ok c (Buffer_content b) = (if ?k \<noteq> length line then parse_text t ok ?c rest else Some (ok, c\<lparr>hc_state := kGotAll\<rparr>, rest))"
        using kExpectHeaders lr by (subst parse_text.simps) (simp add: Let_def)
      moreover have "parse_loop t ok c b = (if ?k \<noteq> length line then parse_loop t ok ?c b1 else Some (ok, c\<lparr>hc_state := kGotAll\<rparr>, b1))"
        using kExpectHeaders b1 by (subst parse_loop.simps) (simp add: HttpContext_turn_def Let_def)
      ultimately show ?thesis using IH[of ok ?c] b1(4,5) by (cases "?k = length line") simp_all
    qed (use stuck in \<open>simp_all add: parse_text.simps\<close>)
  qed
qed

subsection \<open>Fragments\<close>

lemma parse_text_none:
  "line_of xs = None \<Longrightarrow> hc_state c = kExpectRequestLine \<or> hc_state c = kExpectHeaders \<Longrightarrow> parse_text t ok c xs = Some (ok, c, xs)"
  by (auto simp: parse_text.simps)

definition context_line :: "timestamp \<Rightarrow> http_request \<Rightarrow> http_context \<Rightarrow> http_context" where
  "context_line t r c = c\<lparr>hc_request := r\<lparr>rq_receiveTime := t\<rparr>, hc_state := kExpectHeaders\<rparr>"

definition context_header :: "string \<Rightarrow> http_context \<Rightarrow> http_context" where
  "context_header line c = (let k = std_find (CHR '':'') line in
     c\<lparr>hc_request := HttpRequest_addHeader (take k line) (drop (k + 1) line) (hc_request c)\<rparr>)"

lemma context_states [simp]: "hc_state (context_line t r c) = kExpectHeaders" "hc_state (context_header line c) = hc_state c"
  by (simp_all add: context_line_def context_header_def Let_def)

lemma parse_text_line:
  assumes "hc_state c = kExpectRequestLine" "line_of xs = Some (line, rest)"
  shows "parse_text t ok c xs = (case HttpContext_processRequestLine line (hc_request c) of None \<Rightarrow> None
    | Some (True, r) \<Rightarrow> parse_text t True (context_line t r c) rest | Some (False, r) \<Rightarrow> Some (False, c\<lparr>hc_request := r\<rparr>, xs))"
  using assms unfolding context_line_def by (subst parse_text.simps) simp

lemma parse_text_header:
  assumes "hc_state c = kExpectHeaders" "line_of xs = Some (line, rest)"
  shows "parse_text t ok c xs = (if std_find (CHR '':'') line \<noteq> length line then parse_text t ok (context_header line c) rest
    else Some (ok, c\<lparr>hc_state := kGotAll\<rparr>, rest))"
  using assms by (subst parse_text.simps) (simp add: context_header_def Let_def)

text \<open>The receive time is that of the message that completes the request line.\<close>

lemma parse_text_time:
  "hc_state c = kExpectHeaders \<Longrightarrow> parse_text t ok c xs = parse_text t' ok c xs"
proof (induction "length xs" arbitrary: c xs rule: less_induct)
  case less
  show ?case
  proof (cases "line_of xs")
    case None
    then show ?thesis using less.prems by (simp add: parse_text_none)
  next
    case (Some lr)
    then obtain line rest where lr: "line_of xs = Some (line, rest)" by (cases lr) simp
    have "parse_text t ok (context_header line c) rest = parse_text t' ok (context_header line c) rest"
      by (rule less.hyps[OF line_of_shorter[OF lr]]) (simp add: less.prems)
    then show ?thesis by (simp add: parse_text_header[OF less.prems lr])
  qed
qed

text \<open>
  More bytes do not change what was parsed: a finished or bad request stays so, and an unfinished one
  continues as if all bytes had been there from the start.
\<close>

definition parse_more :: "timestamp \<Rightarrow> http_context \<Rightarrow> string \<Rightarrow> string \<Rightarrow> bool \<times> http_context \<times> string \<Rightarrow> bool" where
  "parse_more t c xs ys res = (case res of (ok1, c1, r) \<Rightarrow>
     if ok1 \<and> hc_state c1 \<noteq> kGotAll
     then (\<forall>t2. parse_text t2 True c1 (r @ ys)
       = parse_text (if hc_state c1 = kExpectRequestLine then t2 else t) True c (xs @ ys))
     else parse_text t True c (xs @ ys) = Some (ok1, c1, r @ ys))"

lemma parse_more_headers:
  assumes "hc_state c = kExpectHeaders" "parse_text t True c xs = Some res"
  shows "parse_more t c xs ys res \<and> hc_state (fst (snd res)) \<noteq> kExpectRequestLine \<and> fst res"
  using assms
proof (induction "length xs" arbitrary: c xs rule: less_induct)
  case less
  show ?case
  proof (cases "line_of xs")
    case None
    then have "res = (True, c, xs)" using less.prems by (simp add: parse_text_none)
    then show ?thesis using less.prems(1) parse_text_time[OF less.prems(1)] by (auto simp: parse_more_def)
  next
    case (Some lr)
    then obtain line rest where lr: "line_of xs = Some (line, rest)" by (cases lr) simp
    note one = parse_text_header[OF less.prems(1) lr] and all = parse_text_header[OF less.prems(1) line_of_append[OF lr, of ys]]
    show ?thesis
    proof (cases "std_find (CHR '':'') line = length line")
      case True
      then show ?thesis using one all less.prems(2) by (auto simp: parse_more_def)
    next
      case False
      let ?c = "context_header line c"
      have res: "parse_text t True ?c rest = Some res" using one False less.prems(2) by simp
      have "parse_more t ?c rest ys res \<and> hc_state (fst (snd res)) \<noteq> kExpectRequestLine \<and> fst res"
        by (rule less.hyps[OF line_of_shorter[OF lr] _ res]) (simp add: less.prems(1))
      then show ?thesis using all False by (cases res) (simp add: parse_more_def)
    qed
  qed
qed

lemma parse_more_line:
  assumes st: "hc_state c = kExpectRequestLine" and res: "parse_text t True c xs = Some res"
  shows "parse_more t c xs ys res"
proof (cases "line_of xs")
  case None
  then have "res = (True, c, xs)" using assms by (simp add: parse_text_none)
  then show ?thesis using st by (simp add: parse_more_def)
next
  case (Some lr)
  then obtain line rest where lr: "line_of xs = Some (line, rest)" by (cases lr) simp
  note one = parse_text_line[OF st lr] and all = parse_text_line[OF st line_of_append[OF lr, of ys]]
  from res one obtain ok r where r: "HttpContext_processRequestLine line (hc_request c) = Some (ok, r)"
    by (auto split: option.splits)
  show ?thesis
  proof (cases ok)
    case True
    then have "parse_text t True (context_line t r c) rest = Some res" using one r res by simp
    from parse_more_headers[OF _ this, of ys] show ?thesis using all r True by (cases res) (simp add: parse_more_def)
  next
    case False
    then show ?thesis using one all r res by (auto simp: parse_more_def)
  qed
qed

lemma parse_text_headers_total: "hc_state c = kExpectHeaders \<Longrightarrow> \<exists>res. parse_text t ok c xs = Some res"
proof (induction "length xs" arbitrary: c xs rule: less_induct)
  case less
  show ?case
  proof (cases "line_of xs")
    case None
    then show ?thesis using less.prems by (simp add: parse_text_none)
  next
    case (Some lr)
    then obtain line rest where lr: "line_of xs = Some (line, rest)" by (cases lr) simp
    have "\<exists>res. parse_text t ok (context_header line c) rest = Some res"
      by (rule less.hyps[OF line_of_shorter[OF lr]]) (simp add: less.prems)
    then show ?thesis by (simp add: parse_text_header[OF less.prems lr])
  qed
qed

lemma parse_text_new_total: "\<exists>res. parse_text t True HttpContext_new xs = Some res"
proof (cases "line_of xs")
  case None
  then show ?thesis by (intro exI, rule parse_text_none) (simp_all add: HttpContext_new_def)
next
  case (Some lr)
  then obtain line rest where lr: "line_of xs = Some (line, rest)" by (cases lr) simp
  have st: "hc_state HttpContext_new = kExpectRequestLine" by (simp add: HttpContext_new_def)
  from processRequestLine_total[of "hc_request HttpContext_new" line] obtain ok r where
    "HttpContext_processRequestLine line (hc_request HttpContext_new) = Some (ok, r)"
    by (auto simp: HttpContext_new_def HttpRequest_new_def)
  then show ?thesis using parse_text_headers_total[of "context_line t r HttpContext_new"]
    by (cases ok) (simp_all add: parse_text_line[OF st lr] ex_bool_eq)
qed

subsection \<open>Requests of a client\<close>

record client_request =
  cr_method :: string
  cr_path :: string
  cr_query :: string
  cr_version :: char
  cr_headers :: "(string \<times> string) list"

definition cr_text :: "client_request \<Rightarrow> string" where
  "cr_text q = request_text (cr_method q) (cr_path q) (cr_query q) (cr_version q) (cr_headers q)"

definition cr_good :: "client_request \<Rightarrow> bool" where
  "cr_good q = (method_of (cr_method q) \<noteq> M_kInvalid \<and> good_target (cr_path q) (cr_query q)
     \<and> (cr_version q = CHR ''0'' \<or> cr_version q = CHR ''1'') \<and> list_all good_header (cr_headers q))"

text \<open>The request that the callback should see, received at \<open>t\<close>, and its response.\<close>

definition cr_request :: "client_request \<Rightarrow> timestamp \<Rightarrow> http_request" where
  "cr_request q t = \<lparr>rq_path = cr_path q, rq_query = cr_query q, rq_receiveTime = t, rq_headers = map_of (rev (cr_headers q)),
     rq_method = method_of (cr_method q), rq_version = (if cr_version q = CHR ''1'' then V_kHttp11 else V_kHttp10)\<rparr>"

definition cr_response :: "http_callback \<Rightarrow> client_request \<Rightarrow> timestamp \<Rightarrow> http_response" where
  "cr_response cb q t = (let connection = HttpRequest_getHeader ''Connection'' (cr_request q t) in
     cb (cr_request q t) (HttpResponse_new (connection = ''close'' \<or> cr_version q = CHR ''0'' \<and> connection \<noteq> ''Keep-Alive'')))"

lemma parse_text_good:
  assumes "cr_good q"
  shows "parse_text t True HttpContext_new (cr_text q) = Some (True, \<lparr>hc_state = kGotAll, hc_request = cr_request q t\<rparr>, [])"
proof -
  from Buffer_append_spec[OF Buffer_inv_new, of "cr_text q" kInitialSize] obtain b where
    b: "Buffer_inv b" "Buffer_content b = cr_text q" by auto
  have c: "Buffer_content b = request_text (cr_method q) (cr_path q) (cr_query q) (cr_version q) (cr_headers q) @ []"
    using b(2) by (simp add: cr_text_def)
  from parse_print[OF b(1) c, of t] assms obtain b' where
    "parse_loop t True HttpContext_new b = Some (True, \<lparr>hc_state = kGotAll, hc_request = cr_request q t\<rparr>, b')" "Buffer_content b' = []"
    by (auto simp: cr_good_def list_all_iff cr_request_def HttpContext_parseRequest_def)
  with parse_loop_text[OF b(1), of t True HttpContext_new] show ?thesis
    by (auto simp: parsed_as_def b(2) split: option.splits)
qed

subsection \<open>Events\<close>

fun ev_text :: "http_event \<Rightarrow> string" where
  "ev_text (Ev_read t xs w1 w2) = xs"
| "ev_text (Ev_write w) = []"

fun ev_good :: "http_event \<Rightarrow> bool" where
  "ev_good (Ev_read t xs w1 w2) = (xs \<noteq> [] \<and> no_reset w2)"
| "ev_good (Ev_write w) = True"

fun ev_times :: "http_event list \<Rightarrow> timestamp list" where
  "ev_times [] = []"
| "ev_times (Ev_read t xs w1 w2 # es) = t # ev_times es"
| "ev_times (Ev_write w # es) = ev_times es"

text \<open>A message leaves the parsed text to \<open>onMessage\<close>.\<close>

lemma http_read_parse:
  assumes ok: "conn_ok tid s" and xs: "xs \<noteq> []"
    and parse: "parse_text t True ctx (Buffer_content (cn_inputBuffer s) @ xs) = Some (ok1, c1, r)"
  shows "\<exists>b b1. http_event_step cb tid (Ev_read t xs w1 w2) (ctx, s) = HttpServer_onMessage cb tid w1 w2 t ctx (s\<lparr>cn_inputBuffer := b1\<rparr>)
    \<and> HttpContext_parseRequest b1 t ctx = Some (ok1, c1, b) \<and> Buffer_inv b \<and> Buffer_content b = r"
proof -
  have inv: "Buffer_inv (cn_inputBuffer s)" using ok by (simp add: conn_ok_def)
  from Buffer_readFd_data[OF inv, of "\<lambda>iov. ReadData xs" xs] obtain b1 where
    b1: "Buffer_readFd (\<lambda>iov. ReadData xs) (cn_inputBuffer s) = Some (int (length xs), None, b1)" "Buffer_inv b1"
    "Buffer_content b1 = Buffer_content (cn_inputBuffer s) @ xs" by auto
  have "parsed_as (Some (ok1, c1, r)) (HttpContext_parseRequest b1 t ctx)"
    using parse_loop_text[OF b1(2), of t True ctx] parse by (simp add: b1(3) HttpContext_parseRequest_def)
  then obtain b where "HttpContext_parseRequest b1 t ctx = Some (ok1, c1, b)" "Buffer_inv b" "Buffer_content b = r"
    by (auto simp: parsed_as_def)
  moreover have "http_event_step cb tid (Ev_read t xs w1 w2) (ctx, s) = HttpServer_onMessage cb tid w1 w2 t ctx (s\<lparr>cn_inputBuffer := b1\<rparr>)"
    using b1(1) xs conn_ok_thread[OF ok] by (simp add: http_event_step_def http_handleRead_def)
  ultimately show ?thesis by blast
qed

lemma http_read_more:
  assumes ok: "conn_ok tid s" and st: "cn_state s = kConnected" and xs: "xs \<noteq> []"
    and parse: "parse_text t True ctx (Buffer_content (cn_inputBuffer s) @ xs) = Some (True, c1, r)" "hc_state c1 \<noteq> kGotAll"
  shows "\<exists>s'. http_event_step cb tid (Ev_read t xs w1 w2) (ctx, s) = Some (c1, s') \<and> conn_ok tid s' \<and> cn_state s' = kConnected
    \<and> conn_stream s' = conn_stream s \<and> Buffer_content (cn_inputBuffer s') = r"
proof -
  from http_read_parse[where cb = cb and ?w1.0 = w1 and ?w2.0 = w2, OF ok xs parse(1)] obtain b b1 where
    b: "http_event_step cb tid (Ev_read t xs w1 w2) (ctx, s) = HttpServer_onMessage cb tid w1 w2 t ctx (s\<lparr>cn_inputBuffer := b1\<rparr>)"
    "HttpContext_parseRequest b1 t ctx = Some (True, c1, b)" "Buffer_inv b" "Buffer_content b = r" by blast
  have "http_event_step cb tid (Ev_read t xs w1 w2) (ctx, s) = Some (c1, s\<lparr>cn_inputBuffer := b\<rparr>)"
    using b(1,2) parse(2) by (simp add: HttpServer_onMessage_def HttpContext_gotAll_def)
  with conn_ok_input[OF ok b(3)] st b(4) show ?thesis by (simp add: conn_stream_def)
qed

lemma http_read_done:
  assumes ok: "conn_ok tid s" and st: "cn_state s = kConnected" and xs: "xs \<noteq> []" and w: "no_reset w2" and good: "cr_good q"
    and parse: "parse_text t True ctx (Buffer_content (cn_inputBuffer s) @ xs) = Some (True, \<lparr>hc_state = kGotAll, hc_request = cr_request q t1\<rparr>, r)"
    and small: "response_fits (cr_response cb q t1)"
  shows "\<exists>s'. http_event_step cb tid (Ev_read t xs w1 w2) (ctx, s) = Some (HttpContext_new, s') \<and> conn_ok tid s'
    \<and> cn_state s' = (if rs_closeConnection (cr_response cb q t1) then kDisconnecting else kConnected)
    \<and> conn_stream s' = conn_stream s @ response_text (cr_response cb q t1) \<and> Buffer_content (cn_inputBuffer s') = r"
proof -
  from http_read_parse[where cb = cb and ?w1.0 = w1 and ?w2.0 = w2, OF ok xs parse(1)] obtain b b1 where
    b: "http_event_step cb tid (Ev_read t xs w1 w2) (ctx, s) = HttpServer_onMessage cb tid w1 w2 t ctx (s\<lparr>cn_inputBuffer := b1\<rparr>)"
    "HttpContext_parseRequest b1 t ctx = Some (True, \<lparr>hc_state = kGotAll, hc_request = cr_request q t1\<rparr>, b)"
    "Buffer_inv b" "Buffer_content b = r" by blast
  let ?s = "s\<lparr>cn_inputBuffer := b\<rparr>" and ?req = "cr_request q t1"
  define close where "close = (HttpRequest_getHeader ''Connection'' ?req = ''close''
        \<or> rq_version ?req = V_kHttp10 \<and> HttpRequest_getHeader ''Connection'' ?req \<noteq> ''Keep-Alive'')"
  have resp: "cr_response cb q t1 = cb ?req (HttpResponse_new close)"
  proof -
    have "rq_version ?req = V_kHttp10 \<longleftrightarrow> cr_version q = CHR ''0''" using good by (auto simp: cr_request_def cr_good_def)
    then show ?thesis by (simp add: cr_response_def close_def Let_def)
  qed
  have "cn_state ?s = kConnected" "conn_stream ?s = conn_stream s" using st by (simp_all add: conn_stream_def)
  with onRequest_ok[where cb = cb, OF conn_ok_input[OF ok b(3)] _ w close_def resp small] obtain s' where
    s': "HttpServer_onRequest cb tid w2 ?req ?s = Some s'" "conn_ok tid s'"
    "conn_stream s' = conn_stream s @ response_text (cr_response cb q t1)" "cn_inputBuffer s' = b"
    "cn_state s' = (if rs_closeConnection (cr_response cb q t1) then kDisconnecting else kConnected)" by auto
  have "http_event_step cb tid (Ev_read t xs w1 w2) (ctx, s) = Some (HttpContext_new, s')"
    using b(1,2) s'(1) by (simp add: HttpServer_onMessage_def HttpContext_gotAll_def HttpContext_reset_def HttpContext_new_def)
  with s' b(4) show ?thesis by blast
qed

lemma http_write:
  assumes "conn_ok tid s"
  shows "\<exists>s'. http_event_step cb tid (Ev_write w) (ctx, s) = Some (ctx, s') \<and> conn_ok tid s' \<and> cn_state s' = cn_state s
    \<and> conn_stream s' = conn_stream s \<and> cn_inputBuffer s' = cn_inputBuffer s"
proof -
  from handleWrite_step[OF assms, of w] obtain s' where
    s': "TcpConnection_handleWrite tid w s = Some s'" "conn_ok tid s'" "conn_stream s' = conn_stream s" "cn_state s' = cn_state s" by blast
  with handleWrite_input[OF s'(1)] show ?thesis by (simp add: http_event_step_def)
qed

lemma http_writes:
  assumes "conn_ok tid s" "concat (map ev_text es) = []" "list_all ev_good es"
  shows "\<exists>s'. for_each (http_event_step cb tid) es (ctx, s) = Some (ctx, s') \<and> conn_ok tid s' \<and> cn_state s' = cn_state s
    \<and> conn_stream s' = conn_stream s \<and> cn_inputBuffer s' = cn_inputBuffer s"
  using assms
proof (induction es arbitrary: s)
  case (Cons e es)
  then obtain w where e: "e = Ev_write w" by (cases e) auto
  from http_write[OF Cons.prems(1), of cb w ctx] obtain s1 where
    s1: "http_event_step cb tid e (ctx, s) = Some (ctx, s1)" "conn_ok tid s1" "cn_state s1 = cn_state s"
    "conn_stream s1 = conn_stream s" "cn_inputBuffer s1 = cn_inputBuffer s" unfolding e by blast
  have rest: "concat (map ev_text es) = []" "list_all ev_good es" using Cons.prems by simp_all
  from Cons.IH[OF s1(2) rest] s1 show ?case by (auto simp: e)
qed simp

subsection \<open>One request in fragments\<close>

text \<open>One more fragment: either the request is still incomplete, or this fragment completes it.\<close>

lemma parse_fragment:
  assumes good: "cr_good q" and full: "(p @ xs) @ ys = cr_text q"
    and sofar: "parse_text t0 True HttpContext_new p = Some (True, ctx, rest)" "hc_state ctx \<noteq> kGotAll"
    and tm: "tm = (if hc_state ctx = kExpectRequestLine then t else t0)"
  shows "(\<exists>c1 r. parse_text t True ctx (rest @ xs) = Some (True, c1, r) \<and> hc_state c1 \<noteq> kGotAll
       \<and> parse_text tm True HttpContext_new (p @ xs) = Some (True, c1, r))
    \<or> parse_text t True ctx (rest @ xs) = Some (True, \<lparr>hc_state = kGotAll, hc_request = cr_request q tm\<rparr>, []) \<and> ys = []"
proof -
  have new: "hc_state HttpContext_new = kExpectRequestLine" by (simp add: HttpContext_new_def)
  have now: "parse_text t True ctx (rest @ xs) = parse_text tm True HttpContext_new (p @ xs)"
    using parse_more_line[OF new sofar(1), of xs] sofar(2) by (simp add: parse_more_def tm)
  from parse_text_new_total[of tm "p @ xs"] obtain ok1 c1 r where
    res: "parse_text tm True HttpContext_new (p @ xs) = Some (ok1, c1, r)" by (metis prod_cases3)
  note more = parse_more_line[OF new res, of ys, unfolded parse_more_def prod.case full]
  show ?thesis
  proof (cases "ok1 \<and> hc_state c1 \<noteq> kGotAll")
    case True
    then show ?thesis using now res by simp
  next
    case False
    then have "parse_text tm True HttpContext_new (cr_text q) = Some (ok1, c1, r @ ys)" using more by simp
    then show ?thesis using parse_text_good[OF good, of tm] now res by simp
  qed
qed

lemma http_exchange:
  assumes ok: "conn_ok tid s" "cn_state s = kConnected" and good: "cr_good q" and small: "\<And>t. response_fits (cr_response cb q t)"
    and txts: "p @ concat (map ev_text es) = cr_text q" and evs: "list_all ev_good es"
    and sofar: "parse_text t0 True HttpContext_new p = Some (True, ctx, Buffer_content (cn_inputBuffer s))" "hc_state ctx \<noteq> kGotAll"
  shows "\<exists>s' t. for_each (http_event_step cb tid) es (ctx, s) = Some (HttpContext_new, s') \<and> conn_ok tid s'
    \<and> (t \<in> set (ev_times es) \<or> hc_state ctx \<noteq> kExpectRequestLine \<and> t = t0)
    \<and> cn_state s' = (if rs_closeConnection (cr_response cb q t) then kDisconnecting else kConnected)
    \<and> conn_stream s' = conn_stream s @ response_text (cr_response cb q t) \<and> Buffer_content (cn_inputBuffer s') = []"
  using ok txts evs sofar
proof (induction es arbitrary: s p t0 ctx)
  case Nil
  then show ?case using parse_text_good[OF good, of t0] by auto
next
  case (Cons e es)
  have evs: "list_all ev_good es" using Cons.prems(4) by simp
  show ?case
  proof (cases e)
    case (Ev_write w)
    from http_write[OF Cons.prems(1), of cb w ctx] obtain s1 where
      s1: "http_event_step cb tid e (ctx, s) = Some (ctx, s1)" "conn_ok tid s1" "cn_state s1 = kConnected"
      "conn_stream s1 = conn_stream s" "cn_inputBuffer s1 = cn_inputBuffer s" unfolding Ev_write Cons.prems(2) by blast
    from Cons.IH[OF s1(2,3) _ evs, of p t0 ctx] Cons.prems(3,5,6) s1 show ?thesis by (simp add: Ev_write)
  next
    case (Ev_read t xs w1 w2)
    let ?ys = "concat (map ev_text es)"
    define tm where "tm = (if hc_state ctx = kExpectRequestLine then t else t0)"
    have xs: "xs \<noteq> []" "no_reset w2" using Cons.prems(4) Ev_read by simp_all
    have full: "(p @ xs) @ ?ys = cr_text q" using Cons.prems(3) Ev_read by simp
    from parse_fragment[OF good full Cons.prems(5,6) tm_def] show ?thesis
    proof (elim disjE exE conjE)
      fix c1 r assume step: "parse_text t True ctx (Buffer_content (cn_inputBuffer s) @ xs) = Some (True, c1, r)" "hc_state c1 \<noteq> kGotAll"
        and sofar: "parse_text tm True HttpContext_new (p @ xs) = Some (True, c1, r)"
      from http_read_more[where cb = cb and ?w1.0 = w1 and ?w2.0 = w2, OF Cons.prems(1,2) xs(1) step] obtain s1 where
        s1: "http_event_step cb tid e (ctx, s) = Some (c1, s1)" "conn_ok tid s1" "cn_state s1 = kConnected"
        "conn_stream s1 = conn_stream s" "Buffer_content (cn_inputBuffer s1) = r" unfolding Ev_read by blast
      from Cons.IH[OF s1(2,3) full evs sofar[folded s1(5)] step(2)] obtain s' t1 where
        s': "for_each (http_event_step cb tid) es (c1, s1) = Some (HttpContext_new, s')" "conn_ok tid s'"
        "t1 \<in> set (ev_times es) \<or> hc_state c1 \<noteq> kExpectRequestLine \<and> t1 = tm"
        "cn_state s' = (if rs_closeConnection (cr_response cb q t1) then kDisconnecting else kConnected)"
        "conn_stream s' = conn_stream s1 @ response_text (cr_response cb q t1)" "Buffer_content (cn_inputBuffer s') = []" by blast
      have "t1 \<in> set (ev_times (e # es)) \<or> hc_state ctx \<noteq> kExpectRequestLine \<and> t1 = t0"
        using s'(3) by (auto simp: Ev_read tm_def split: if_splits)
      with s' s1 show ?thesis by (intro exI[of _ s'] exI[of _ t1]) simp
    next
      assume fin: "parse_text t True ctx (Buffer_content (cn_inputBuffer s) @ xs)
          = Some (True, \<lparr>hc_state = kGotAll, hc_request = cr_request q tm\<rparr>, [])" and c1: "?ys = []"
      from http_read_done[where ?w1.0 = w1, OF Cons.prems(1,2) xs good fin small] obtain s1 where
        s1: "http_event_step cb tid e (ctx, s) = Some (HttpContext_new, s1)" "conn_ok tid s1"
        "cn_state s1 = (if rs_closeConnection (cr_response cb q tm) then kDisconnecting else kConnected)"
        "conn_stream s1 = conn_stream s @ response_text (cr_response cb q tm)" "Buffer_content (cn_inputBuffer s1) = []"
        unfolding Ev_read by blast
      from http_writes[OF s1(2) c1 evs, of cb HttpContext_new] obtain s' where
        s': "for_each (http_event_step cb tid) es (HttpContext_new, s1) = Some (HttpContext_new, s')" "conn_ok tid s'"
        "cn_state s' = cn_state s1" "conn_stream s' = conn_stream s1" "cn_inputBuffer s' = cn_inputBuffer s1" by blast
      have "tm \<in> set (ev_times (e # es)) \<or> hc_state ctx \<noteq> kExpectRequestLine \<and> tm = t0" by (simp add: Ev_read tm_def)
      with s' s1 show ?thesis by (intro exI[of _ s'] exI[of _ tm]) simp
    qed
  qed
qed

subsection \<open>Sessions\<close>

definition exchange_good :: "http_callback \<Rightarrow> client_request \<times> http_event list \<Rightarrow> bool" where
  "exchange_good cb x = (cr_good (fst x) \<and> concat (map ev_text (snd x)) = cr_text (fst x) \<and> list_all ev_good (snd x)
     \<and> (\<forall>t. response_fits (cr_response cb (fst x) t)))"

definition exchange_response :: "http_callback \<Rightarrow> client_request \<times> http_event list \<Rightarrow> timestamp \<Rightarrow> http_response" where
  "exchange_response cb x t = cr_response cb (fst x) t"

lemma http_fresh_exchange:
  assumes ok: "conn_ok tid s" "cn_state s = kConnected" and empty: "Buffer_content (cn_inputBuffer s) = []" and good: "exchange_good cb x"
  shows "\<exists>s' t. for_each (http_event_step cb tid) (snd x) (HttpContext_new, s) = Some (HttpContext_new, s') \<and> conn_ok tid s'
    \<and> t \<in> set (ev_times (snd x))
    \<and> cn_state s' = (if rs_closeConnection (exchange_response cb x t) then kDisconnecting else kConnected)
    \<and> conn_stream s' = conn_stream s @ response_text (exchange_response cb x t) \<and> Buffer_content (cn_inputBuffer s') = []"
proof -
  have "line_of [] = None" by (simp add: line_of_def)
  then have start: "parse_text t True HttpContext_new [] = Some (True, HttpContext_new, Buffer_content (cn_inputBuffer s))" for t
    using empty by (simp add: parse_text_none HttpContext_new_def)
  have g: "cr_good (fst x)" "\<And>t. response_fits (cr_response cb (fst x) t)"
    "[] @ concat (map ev_text (snd x)) = cr_text (fst x)" "list_all ev_good (snd x)"
    using good by (simp_all add: exchange_good_def)
  have new: "hc_state HttpContext_new = kExpectRequestLine" by (simp add: HttpContext_new_def)
  from http_exchange[OF ok g start] new show ?thesis by (auto simp: exchange_response_def)
qed

text \<open>C4: An HTTP session. On a connection that has just come up, a client sends any number of well-formed
  requests, the next one after the response to the one before; the bytes of each request arrive in any
  fragments, with writable events in between and any behaviour of \<open>write\<close> short of a reset. Then nothing
  aborts or hangs, the callback is called once for each request, in order, with exactly the request that
  was sent (its receive time is that of one of its messages), the bytes sent and queued grow by the
  responses in this order, no input is left over, and the connection is half-closed exactly when the last
  response says so. The responses before the last keep the connection open, and the status message,
  the header texts and the body of each response are shorter than \<open>2 ^ 31\<close> bytes.\<close>

theorem HttpServer_session:
  assumes ok: "conn_ok tid s" "cn_state s = kConnected" and up: "HttpServer_onConnection s old = Some ctx"
    and empty: "Buffer_content (cn_inputBuffer s) = []" and ne: "xs \<noteq> []" and good: "\<forall>x \<in> set xs. exchange_good cb x"
    and keep: "\<forall>x \<in> set (butlast xs). \<forall>t. \<not> rs_closeConnection (exchange_response cb x t)"
  shows "\<exists>s' ts. for_each (http_event_step cb tid) (concat (map snd xs)) (ctx, s) = Some (HttpContext_new, s') \<and> conn_ok tid s'
    \<and> list_all2 (\<lambda>x t. t \<in> set (ev_times (snd x))) xs ts
    \<and> conn_stream s' = conn_stream s @ concat (map2 (\<lambda>x t. response_text (exchange_response cb x t)) xs ts)
    \<and> Buffer_content (cn_inputBuffer s') = []
    \<and> cn_state s' = (if rs_closeConnection (exchange_response cb (last xs) (last ts)) then kDisconnecting else kConnected)"
proof -
  have ctx: "ctx = HttpContext_new" using up ok(2) by (simp add: HttpServer_onConnection_def TcpConnection_connected_def)
  show ?thesis
    unfolding ctx using ok empty ne good keep
  proof (induction xs arbitrary: s)
    case (Cons x xs)
    have gx: "exchange_good cb x" using Cons.prems(5) by simp
    from http_fresh_exchange[OF Cons.prems(1,2,3) gx] obtain s1 t where
      s1: "for_each (http_event_step cb tid) (snd x) (HttpContext_new, s) = Some (HttpContext_new, s1)" "conn_ok tid s1"
      "t \<in> set (ev_times (snd x))" "cn_state s1 = (if rs_closeConnection (exchange_response cb x t) then kDisconnecting else kConnected)"
      "conn_stream s1 = conn_stream s @ response_text (exchange_response cb x t)" "Buffer_content (cn_inputBuffer s1) = []" by blast
    show ?case
    proof (cases "xs = []")
      case True
      with s1 show ?thesis by (intro exI[of _ s1] exI[of _ "[t]"]) simp
    next
      case False
      have "cn_state s1 = kConnected" using s1(4) Cons.prems(6) False by simp
      from Cons.IH[OF s1(2) this s1(6) False] Cons.prems(5,6) False obtain s' ts where
        s': "for_each (http_event_step cb tid) (concat (map snd xs)) (HttpContext_new, s1) = Some (HttpContext_new, s')" "conn_ok tid s'"
        "list_all2 (\<lambda>x t. t \<in> set (ev_times (snd x))) xs ts"
        "conn_stream s' = conn_stream s1 @ concat (map2 (\<lambda>x t. response_text (exchange_response cb x t)) xs ts)"
        "Buffer_content (cn_inputBuffer s') = []"
        "cn_state s' = (if rs_closeConnection (exchange_response cb (last xs) (last ts)) then kDisconnecting else kConnected)" by auto
      have "ts \<noteq> []" using s'(3) False by (cases ts) auto
      with s' s1 False show ?thesis by (intro exI[of _ s'] exI[of _ "t # ts"]) (simp add: for_each_append)
    qed
  qed simp
qed

text \<open>Two requests, the first in two fragments with a writable event between them.\<close>

definition demo_session :: "(client_request \<times> http_event list) list" where
  "demo_session =
    (let q1 = \<lparr>cr_method = ''GET'', cr_path = ''/'', cr_query = [], cr_version = CHR ''1'', cr_headers = []\<rparr>;
         q2 = \<lparr>cr_method = ''PUT'', cr_path = ''/b'', cr_query = [], cr_version = CHR ''0'', cr_headers = [(''Host'', ''h'')]\<rparr>
     in [(q1, [Ev_read (Timestamp 1) (take 5 (cr_text q1)) (Room 9) (Room 9), Ev_write (Room 3),
               Ev_read (Timestamp 2) (drop 5 (cr_text q1)) (Room 9) (Room 9)]),
         (q2, [Ev_read (Timestamp 3) (cr_text q2) (Room 9) (Room 9)])])"

definition demo_callback :: http_callback where
  "demo_callback req resp = HttpResponse_setBody (rq_path req) (HttpResponse_setStatusCode S_k200ok resp)"

theorem HttpServer_session_witness:
  "\<exists>s' ts. for_each (http_event_step demo_callback 7) (concat (map snd demo_session)) (HttpContext_new, demo_received [])
        = Some (HttpContext_new, s') \<and> conn_ok 7 s'
    \<and> conn_stream s' = conn_stream (demo_received [])
        @ concat (map2 (\<lambda>x t. response_text (exchange_response demo_callback x t)) demo_session ts)"
proof -
  have good: "\<forall>x \<in> set demo_session. exchange_good demo_callback x"
    by (simp add: demo_session_def exchange_good_def cr_good_def method_of_def good_target_def good_header_def is_space_def
        cr_text_def request_text_def no_reset_def cr_response_def demo_callback_def HttpResponse_setBody_def cr_request_def Let_def
        response_fits_def HttpResponse_setStatusCode_def HttpResponse_new_def)
  have keep: "\<forall>x \<in> set (butlast demo_session). \<forall>t. \<not> rs_closeConnection (exchange_response demo_callback x t)"
    by (simp add: demo_session_def exchange_response_def cr_response_def demo_callback_def HttpResponse_setBody_def
        HttpResponse_setStatusCode_def HttpResponse_new_def HttpRequest_getHeader_def cr_request_def Let_def)
  have "HttpServer_onConnection (demo_received []) None = Some HttpContext_new"
    by (simp add: HttpServer_onConnection_def TcpConnection_connected_def demo_received_ok)
  from HttpServer_session[OF demo_received_ok(1,2) this demo_received_ok(3) _ good keep] show ?thesis
    by (auto simp: demo_session_def Let_def)
qed

end
