(* ===== verification/TimerQueue.thy ===== *)
theory TimerQueue
  imports Channel "HOL-Library.Product_Lexorder"
begin

text \<open>
  \<open>Timer\<close>, \<open>TimerId\<close> and \<open>TimerQueue\<close> (\<open>net/timer.h\<close>, \<open>net/timer.cc\<close>, \<open>net/timerId.h\<close>,
  \<open>net/timerQueue.h\<close>, \<open>net/timerQueue.cc\<close>). A \<open>std::set\<close> is the strictly sorted list of its
  elements, ordered like \<open>std::pair\<close> (lexicographically). Timers live in a store: \<open>new\<close> adds one,
  \<open>delete\<close> removes it, and reading through a dangling pointer is an abort.

  The time of day is an argument of the operations that call \<open>Timestamp::now\<close>, and the last value
  given to \<open>timerfd_settime\<close> is part of the state. The functors handed to \<open>EventLoop::runInLoop\<close> from
  another thread are listed in \<open>tq_handed\<close>.
\<close>

subsection \<open>\<open>std::set\<close> as a sorted list\<close>

definition set_insert :: "'a :: linorder \<Rightarrow> 'a list \<Rightarrow> bool \<times> 'a list" where
  "set_insert x xs = (if x \<in> set xs then (False, xs) else (True, insort x xs))"

definition set_erase :: "'a \<Rightarrow> 'a list \<Rightarrow> nat \<times> 'a list" where
  "set_erase x xs = (if x \<in> set xs then (1, remove1 x xs) else (0, xs))"

definition set_lower_bound :: "'a :: linorder \<Rightarrow> 'a list \<Rightarrow> nat" where
  "set_lower_bound x xs = length (takeWhile (\<lambda>y. y < x) xs)"

subsection \<open>\<open>Timer\<close> and \<open>TimerId\<close>\<close>

record 'cb timer =
  t_callback :: 'cb
  m_expiration :: timestamp
  m_interval :: rat
  is_repeat :: bool
  m_sequence :: int

definition Timer_new :: "int \<Rightarrow> 'cb \<Rightarrow> timestamp \<Rightarrow> rat \<Rightarrow> 'cb timer" where
  "Timer_new seq cb when interval =
     \<lparr>t_callback = cb, m_expiration = when, m_interval = interval, is_repeat = (0 < interval), m_sequence = seq\<rparr>"

definition Timer_restart :: "(rat \<Rightarrow> rat) \<Rightarrow> timestamp \<Rightarrow> 'cb timer \<Rightarrow> 'cb timer" where
  "Timer_restart rnd now tm =
     (if is_repeat tm then tm\<lparr>m_expiration := addTime rnd now (m_interval tm)\<rparr>
      else tm\<lparr>m_expiration := Timestamp_invalid\<rparr>)"

record timer_id =
  ti_timer :: nat
  ti_sequence :: int

subsection \<open>State of a queue\<close>

datatype timer_functor = Fn_addTimerInLoop nat | Fn_cancelInLoop timer_id

record 'cb timer_queue =
  tq_loop :: loop_ref
  m_timers :: "(timestamp \<times> nat) list"
  m_activeTimers :: "(nat \<times> int) list"
  is_callingExpiredTimers :: bool
  m_cancelingTimers :: "(nat \<times> int) list"
  tq_store :: "nat \<rightharpoonup> 'cb timer"
  s_numCreated :: int
  tq_armed :: "(int \<times> int) option"
  tq_handed :: "timer_functor list"

definition createTimerfd :: "int \<Rightarrow> int outcome" where
  "createTimerfd timerfd = (if timerfd < 0 then None else Some timerfd)"

text \<open>The \<open>timespec\<close> from now to \<open>when\<close>, at least 100 microseconds.\<close>

definition howMuchTimeFromNow :: "timestamp \<Rightarrow> timestamp \<Rightarrow> int \<times> int" where
  "howMuchTimeFromNow now when =
     (let microseconds = microSecondsSinceEpoch when - microSecondsSinceEpoch now;
          microseconds = (if microseconds < 100 then 100 else microseconds)
      in (microseconds sdiv kMicroSecondsPerSecond, (microseconds smod kMicroSecondsPerSecond) * 1000))"

definition resetTimerfd :: "timestamp \<Rightarrow> timestamp \<Rightarrow> 'cb timer_queue \<Rightarrow> 'cb timer_queue" where
  "resetTimerfd now expiration q = q\<lparr>tq_armed := Some (howMuchTimeFromNow now expiration)\<rparr>"

text \<open>
  \<open>readTimerfd\<close> empties the counter of the descriptor, of which nothing else depends; \<open>n\<close> is what \<open>read\<close>
  returns, and the result the error lines it logs.
\<close>

definition readTimerfd :: "int \<Rightarrow> string list" where
  "readTimerfd n = (if n \<noteq> 8 then [''TimerQueue::handleRead() reads '' @ dec_int n @ '' bytes instead of 8''] else [])"

text \<open>The constructor; the channel it registers for the timer descriptor is in \<open>LoopLife\<close>.\<close>

definition TimerQueue_new :: "int \<Rightarrow> loop_ref \<Rightarrow> 'cb timer_queue outcome" where
  "TimerQueue_new timerfd loop = do {
     fd \<leftarrow> createTimerfd timerfd;
     Some \<lparr>tq_loop = loop, m_timers = [], m_activeTimers = [], is_callingExpiredTimers = False,
           m_cancelingTimers = [], tq_store = Map.empty, s_numCreated = 0, tq_armed = None, tq_handed = []\<rparr>
   }"

subsection \<open>Operations\<close>

definition TimerQueue_insert :: "int \<Rightarrow> nat \<Rightarrow> 'cb timer_queue \<Rightarrow> (bool \<times> 'cb timer_queue) outcome" where
  "TimerQueue_insert tid timer q = do {
     assert_that (loop_threadId (tq_loop q) = tid);
     assert_that (length (m_timers q) = length (m_activeTimers q));
     tm \<leftarrow> tq_store q timer;
     let when = m_expiration tm;
     let earliestChanged = (case m_timers q of [] \<Rightarrow> True | e # _ \<Rightarrow> when < fst e);
     let (fresh1, active) = set_insert (timer, m_sequence tm) (m_activeTimers q);
     assert_that fresh1;
     let (fresh2, timers) = set_insert (when, timer) (m_timers q);
     assert_that fresh2;
     assert_that (length timers = length active);
     Some (earliestChanged, q\<lparr>m_activeTimers := active, m_timers := timers\<rparr>)
   }"

definition TimerQueue_addTimerInLoop :: "int \<Rightarrow> timestamp \<Rightarrow> nat \<Rightarrow> 'cb timer_queue \<Rightarrow> 'cb timer_queue outcome" where
  "TimerQueue_addTimerInLoop tid now timer q = do {
     assert_that (loop_threadId (tq_loop q) = tid);
     (earliestChanged, q) \<leftarrow> TimerQueue_insert tid timer q;
     if earliestChanged
     then do { tm \<leftarrow> tq_store q timer; Some (resetTimerfd now (m_expiration tm) q) }
     else Some q
   }"

text \<open>
  \<open>addTimer\<close>; \<open>addr\<close> is the address \<open>new\<close> returns. Its two statements after \<open>new\<close> are separate steps:
  first the timer is handed to the loop, then its sequence number is read through the pointer. On the
  thread of the loop nothing comes between them; on another thread the loop goes on meanwhile, and
  reading a timer that it has deleted is undefined.
\<close>

definition TimerQueue_addTimer_hand ::
  "int \<Rightarrow> timestamp \<Rightarrow> nat \<Rightarrow> 'cb \<Rightarrow> timestamp \<Rightarrow> rat \<Rightarrow> 'cb timer_queue \<Rightarrow> 'cb timer_queue outcome" where
  "TimerQueue_addTimer_hand tid now addr cb when interval q = do {
     let seq = s_numCreated q + 1;
     let q = q\<lparr>s_numCreated := seq, tq_store := (tq_store q)(addr \<mapsto> Timer_new seq cb when interval)\<rparr>;
     if loop_threadId (tq_loop q) = tid then TimerQueue_addTimerInLoop tid now addr q
     else Some (q\<lparr>tq_handed := tq_handed q @ [Fn_addTimerInLoop addr]\<rparr>)
   }"

definition TimerQueue_addTimer_id :: "nat \<Rightarrow> 'cb timer_queue \<Rightarrow> timer_id outcome" where
  "TimerQueue_addTimer_id addr q = do {
     timer \<leftarrow> tq_store q addr;
     Some \<lparr>ti_timer = addr, ti_sequence = m_sequence timer\<rparr>
   }"

text \<open>Both steps with nothing in between.\<close>

definition TimerQueue_addTimer ::
  "int \<Rightarrow> timestamp \<Rightarrow> nat \<Rightarrow> 'cb \<Rightarrow> timestamp \<Rightarrow> rat \<Rightarrow> 'cb timer_queue \<Rightarrow> (timer_id \<times> 'cb timer_queue) outcome" where
  "TimerQueue_addTimer tid now addr cb when interval q = do {
     q \<leftarrow> TimerQueue_addTimer_hand tid now addr cb when interval q;
     timerId \<leftarrow> TimerQueue_addTimer_id addr q;
     Some (timerId, q)
   }"

definition TimerQueue_cancelInLoop :: "int \<Rightarrow> timer_id \<Rightarrow> 'cb timer_queue \<Rightarrow> 'cb timer_queue outcome" where
  "TimerQueue_cancelInLoop tid timerId q = do {
     assert_that (loop_threadId (tq_loop q) = tid);
     assert_that (length (m_timers q) = length (m_activeTimers q));
     let timer = (ti_timer timerId, ti_sequence timerId);
     q \<leftarrow> (if timer \<in> set (m_activeTimers q)
           then do {
             tm \<leftarrow> tq_store q (fst timer);
             let (n, timers) = set_erase (m_expiration tm, fst timer) (m_timers q);
             assert_that (n = 1);
             Some (q\<lparr>m_timers := timers, tq_store := (tq_store q)(fst timer := None),
                     m_activeTimers := snd (set_erase timer (m_activeTimers q))\<rparr>)
           }
           else if is_callingExpiredTimers q
           then Some (q\<lparr>m_cancelingTimers := snd (set_insert timer (m_cancelingTimers q))\<rparr>)
           else Some q);
     assert_that (length (m_timers q) = length (m_activeTimers q));
     Some q
   }"

definition TimerQueue_cancel :: "int \<Rightarrow> timer_id \<Rightarrow> 'cb timer_queue \<Rightarrow> 'cb timer_queue outcome" where
  "TimerQueue_cancel tid timerId q =
     (if loop_threadId (tq_loop q) = tid then TimerQueue_cancelInLoop tid timerId q
      else Some (q\<lparr>tq_handed := tq_handed q @ [Fn_cancelInLoop timerId]\<rparr>))"

definition UINTPTR_MAX :: nat where "UINTPTR_MAX = 2 ^ 64 - 1"

text \<open>The loop that takes the expired timers out of \<open>m_activeTimers\<close>.\<close>

definition expired_erase :: "timestamp \<times> nat \<Rightarrow> 'cb timer_queue \<Rightarrow> 'cb timer_queue outcome" where
  "expired_erase it q = do {
     tm \<leftarrow> tq_store q (snd it);
     let (n, active) = set_erase (snd it, m_sequence tm) (m_activeTimers q);
     assert_that (n = 1);
     Some (q\<lparr>m_activeTimers := active\<rparr>)
   }"

text \<open>The second disjunct of the assertion reads \<open>*end\<close>, which is undefined at the end of the set.\<close>

definition TimerQueue_getExpired :: "timestamp \<Rightarrow> 'cb timer_queue \<Rightarrow> ((timestamp \<times> nat) list \<times> 'cb timer_queue) outcome" where
  "TimerQueue_getExpired now q = do {
     assert_that (length (m_timers q) = length (m_activeTimers q));
     let sentry = (now, UINTPTR_MAX);
     let last = set_lower_bound sentry (m_timers q);
     assert_that (last \<noteq> 0 \<or> (case drop last (m_timers q) of [] \<Rightarrow> False | e # _ \<Rightarrow> now < fst e));
     let expired = take last (m_timers q);
     let q = q\<lparr>m_timers := drop last (m_timers q)\<rparr>;
     q \<leftarrow> for_each expired_erase expired q;
     assert_that (length (m_timers q) = length (m_activeTimers q));
     Some (expired, q)
   }"

definition reset_one :: "(rat \<Rightarrow> rat) \<Rightarrow> int \<Rightarrow> timestamp \<Rightarrow> timestamp \<times> nat \<Rightarrow> 'cb timer_queue \<Rightarrow> 'cb timer_queue outcome" where
  "reset_one rnd tid now it q = do {
     tm \<leftarrow> tq_store q (snd it);
     if is_repeat tm \<and> (snd it, m_sequence tm) \<notin> set (m_cancelingTimers q)
     then do {
       let q = q\<lparr>tq_store := (tq_store q)(snd it \<mapsto> Timer_restart rnd now tm)\<rparr>;
       (_, q) \<leftarrow> TimerQueue_insert tid (snd it) q;
       Some q
     }
     else Some (q\<lparr>tq_store := (tq_store q)(snd it := None)\<rparr>)
   }"

text \<open>\<open>now'\<close> is the time when \<open>resetTimerfd\<close> reads the clock again.\<close>

definition TimerQueue_reset ::
  "(rat \<Rightarrow> rat) \<Rightarrow> int \<Rightarrow> timestamp \<Rightarrow> timestamp \<Rightarrow> (timestamp \<times> nat) list \<Rightarrow> 'cb timer_queue \<Rightarrow> 'cb timer_queue outcome" where
  "TimerQueue_reset rnd tid now now' expired q = do {
     q \<leftarrow> for_each (reset_one rnd tid now) expired q;
     nextExpire \<leftarrow> (case m_timers q of
         [] \<Rightarrow> Some Timestamp_invalid
       | e # _ \<Rightarrow> map_option m_expiration (tq_store q (snd e)));
     if Timestamp_valid nextExpire then Some (resetTimerfd now' nextExpire q) else Some q
   }"

definition run_timer :: "('cb \<Rightarrow> 'cb timer_queue \<Rightarrow> 'cb timer_queue outcome) \<Rightarrow> timestamp \<times> nat \<Rightarrow>
    'cb timer_queue \<Rightarrow> 'cb timer_queue outcome" where
  "run_timer run it q = do { tm \<leftarrow> tq_store q (snd it); run (t_callback tm) q }"

definition TimerQueue_handleRead ::
  "(rat \<Rightarrow> rat) \<Rightarrow> ('cb \<Rightarrow> 'cb timer_queue \<Rightarrow> 'cb timer_queue outcome) \<Rightarrow> int \<Rightarrow> timestamp \<Rightarrow> timestamp \<Rightarrow>
   'cb timer_queue \<Rightarrow> 'cb timer_queue outcome" where
  "TimerQueue_handleRead rnd run tid now now' q = do {
     assert_that (loop_threadId (tq_loop q) = tid);
     (expired, q) \<leftarrow> TimerQueue_getExpired now q;
     let q = q\<lparr>is_callingExpiredTimers := True, m_cancelingTimers := []\<rparr>;
     q \<leftarrow> for_each (run_timer run) expired q;
     TimerQueue_reset rnd tid now now' expired (q\<lparr>is_callingExpiredTimers := False\<rparr>)
   }"

text \<open>A functor that another thread handed over, called by the loop.\<close>

definition timer_functor_run :: "int \<Rightarrow> timestamp \<Rightarrow> timer_functor \<Rightarrow> 'cb timer_queue \<Rightarrow> 'cb timer_queue outcome" where
  "timer_functor_run tid now f q = (case f of
     Fn_addTimerInLoop timer \<Rightarrow> TimerQueue_addTimerInLoop tid now timer q
   | Fn_cancelInLoop timerId \<Rightarrow> TimerQueue_cancelInLoop tid timerId q)"

text \<open>The destructor deletes the queued timers.\<close>

definition delete_timer :: "timestamp \<times> nat \<Rightarrow> 'cb timer_queue \<Rightarrow> 'cb timer_queue outcome" where
  "delete_timer timer q = do {
     assert_that (tq_store q (snd timer) \<noteq> None);
     Some (q\<lparr>tq_store := (tq_store q)(snd timer := None)\<rparr>)
   }"

definition TimerQueue_destroy :: "'cb timer_queue \<Rightarrow> 'cb timer_queue outcome" where
  "TimerQueue_destroy q = for_each delete_timer (m_timers q) q"

text \<open>The timer calls of \<open>EventLoop\<close>.\<close>

definition EventLoop_runAt where
  "EventLoop_runAt tid now addr time cb q = TimerQueue_addTimer tid now addr cb time 0 q"

definition EventLoop_runAfter where
  "EventLoop_runAfter rnd tid now addr delay cb q = EventLoop_runAt tid now addr (addTime rnd now delay) cb q"

definition EventLoop_runEvery where
  "EventLoop_runEvery rnd tid now addr interval cb q =
     TimerQueue_addTimer tid now addr cb (addTime rnd now interval) interval q"

definition EventLoop_cancel where
  "EventLoop_cancel tid timerId q = TimerQueue_cancel tid timerId q"

end
