(* ===== verification/TimerQueueProps.thy ===== *)
theory TimerQueueProps
  imports TimerQueue
begin

text \<open>
  Properties of the timer queue: the two sets stay in step, adding and cancelling, which timers
  expire, and what a timer event does.
\<close>

definition timer_key :: "(nat \<rightharpoonup> 'cb timer) \<Rightarrow> timestamp \<times> nat \<Rightarrow> nat \<times> int" where
  "timer_key st e = (snd e, m_sequence (the (st (snd e))))"

text \<open>
  \<open>m_timers\<close> is sorted and has every timer once, with its expiration; \<open>m_activeTimers\<close> is the same
  set of timers with their sequence numbers.
\<close>

definition TQ_inv :: "'cb timer_queue \<Rightarrow> bool" where
  "TQ_inv q =
     (sorted (m_timers q) \<and> distinct (map snd (m_timers q))
    \<and> (\<forall>e \<in> set (m_timers q). snd e < UINTPTR_MAX \<and> (\<exists>tm. tq_store q (snd e) = Some tm \<and> m_expiration tm = fst e))
    \<and> distinct (m_activeTimers q) \<and> set (m_activeTimers q) = timer_key (tq_store q) ` set (m_timers q))"

lemma TQ_invD:
  assumes "TQ_inv q"
  shows "sorted (m_timers q)" "distinct (map snd (m_timers q))" "distinct (m_timers q)" "distinct (m_activeTimers q)"
    "set (m_activeTimers q) = timer_key (tq_store q) ` set (m_timers q)"
    "e \<in> set (m_timers q) \<Longrightarrow> snd e < UINTPTR_MAX"
    "e \<in> set (m_timers q) \<Longrightarrow> \<exists>tm. tq_store q (snd e) = Some tm \<and> m_expiration tm = fst e"
  using assms by (auto simp: TQ_inv_def distinct_map)

lemma timer_key_inj:
  assumes "distinct (map snd es)"
  shows "inj_on (timer_key st) (set es)"
  using assms by (auto simp: inj_on_def timer_key_def distinct_map)

lemma TQ_inv_length:
  assumes "TQ_inv q"
  shows "length (m_timers q) = length (m_activeTimers q)"
proof -
  note inv = TQ_invD[OF assms]
  have "card (set (m_activeTimers q)) = card (set (m_timers q))"
    unfolding inv(5) by (rule card_image) (rule timer_key_inj[OF inv(2)])
  with inv(3,4) show ?thesis by (simp add: distinct_card)
qed

lemma timer_key_cong:
  "(\<And>e. e \<in> set es \<Longrightarrow> st (snd e) = st' (snd e)) \<Longrightarrow> timer_key st ` set es = timer_key st' ` set es"
  by (auto simp: timer_key_def image_iff)

lemma insort_map_snd: "distinct (map snd (insort x xs)) \<longleftrightarrow> snd x \<notin> snd ` set xs \<and> distinct (map snd xs)"
  by (induction xs) (auto simp: set_insort_key)

text \<open>A timer that is in the store and not in the queue can be inserted.\<close>

lemma TimerQueue_insert_ok:
  assumes inv: "TQ_inv q" and tid: "loop_threadId (tq_loop q) = tid" and tm: "tq_store q a = Some tm"
    and new: "a \<notin> snd ` set (m_timers q)" and addr: "a < UINTPTR_MAX"
  shows "\<exists>q'. TimerQueue_insert tid a q
        = Some (m_timers q = [] \<or> m_expiration tm < fst (hd (m_timers q)), q')
    \<and> TQ_inv q' \<and> m_timers q' = insort (m_expiration tm, a) (m_timers q)
    \<and> m_activeTimers q' = insort (a, m_sequence tm) (m_activeTimers q)
    \<and> q' = q\<lparr>m_activeTimers := m_activeTimers q', m_timers := m_timers q'\<rparr>"
proof -
  note D = TQ_invD[OF inv]
  let ?e = "(m_expiration tm, a)" and ?k = "(a, m_sequence tm)"
  let ?q = "q\<lparr>m_activeTimers := insort ?k (m_activeTimers q), m_timers := insort ?e (m_timers q)\<rparr>"
  have ne: "?e \<notin> set (m_timers q)" using new by (metis image_eqI snd_conv)
  have nk: "?k \<notin> set (m_activeTimers q)" using new by (auto simp: D(5) timer_key_def image_iff)
  have "TQ_inv ?q"
    using D new tm addr nk
    by (auto simp: TQ_inv_def sorted_insort insort_map_snd distinct_insort set_insort_key timer_key_def)
  moreover have "TimerQueue_insert tid a q = Some (m_timers q = [] \<or> m_expiration tm < fst (hd (m_timers q)), ?q)"
    using tid TQ_inv_length[OF inv] tm ne nk
    by (auto simp: TimerQueue_insert_def set_insert_def length_insort Let_def split: list.splits)
  ultimately show ?thesis by (intro exI[of _ ?q]) simp
qed

subsection \<open>Expiry\<close>

lemma sorted_cut:
  fixes x :: "'a :: linorder"
  assumes "sorted es"
  shows "takeWhile (\<lambda>y. y < x) es = filter (\<lambda>y. y < x) es \<and> dropWhile (\<lambda>y. y < x) es = filter (\<lambda>y. \<not> y < x) es"
  using assms
proof (induction es)
  case (Cons a es)
  have "filter (\<lambda>y. y < x) es = [] \<and> filter (\<lambda>y. \<not> y < x) es = es" if "\<not> a < x"
    using that Cons.prems by (auto simp: filter_empty_conv filter_id_conv)
  then show ?case using Cons by (cases "a < x") auto
qed simp

lemma sorted_split:
  fixes now :: timestamp and es :: "(timestamp \<times> nat) list"
  assumes "sorted es" and "\<And>e. e \<in> set es \<Longrightarrow> snd e < m"
  shows "takeWhile (\<lambda>y. y < (now, m)) es = filter (\<lambda>e. fst e \<le> now) es"
    "dropWhile (\<lambda>y. y < (now, m)) es = filter (\<lambda>e. now < fst e) es"
proof -
  have lt: "e < (now, m) \<longleftrightarrow> fst e \<le> now" if "e \<in> set es" for e
    using assms(2)[OF that] by (cases e) (auto simp: less_prod_def' order_less_le)
  note sorted_cut[OF assms(1), of "(now, m)"]
  moreover have "filter (\<lambda>y. y < (now, m)) es = filter (\<lambda>e. fst e \<le> now) es"
    "filter (\<lambda>y. \<not> y < (now, m)) es = filter (\<lambda>e. now < fst e) es"
    using lt by (auto intro!: filter_cong simp: not_le)
  ultimately show "takeWhile (\<lambda>y. y < (now, m)) es = filter (\<lambda>e. fst e \<le> now) es"
    "dropWhile (\<lambda>y. y < (now, m)) es = filter (\<lambda>e. now < fst e) es" by simp_all
qed

lemma expired_erase_run:
  assumes "distinct (map snd es)" and "\<And>e. e \<in> set es \<Longrightarrow> tq_store q (snd e) \<noteq> None"
    and "timer_key (tq_store q) ` set es \<subseteq> set (m_activeTimers q)" and "distinct (m_activeTimers q)"
  shows "\<exists>act. for_each expired_erase es q = Some (q\<lparr>m_activeTimers := act\<rparr>) \<and> distinct act
    \<and> set act = set (m_activeTimers q) - timer_key (tq_store q) ` set es"
  using assms
proof (induction es arbitrary: q)
  case Nil
  then show ?case by (intro exI[of _ "m_activeTimers q"]) simp
next
  case (Cons e es)
  let ?k = "timer_key (tq_store q) e"
  let ?q = "q\<lparr>m_activeTimers := remove1 ?k (m_activeTimers q)\<rparr>"
  have step: "expired_erase e q = Some ?q"
    using Cons.prems(2)[of e] Cons.prems(3) by (auto simp: expired_erase_def set_erase_def timer_key_def)
  have other: "?k \<notin> timer_key (tq_store q) ` set es"
    using Cons.prems(1) by (auto simp: timer_key_def image_iff)
  have "\<exists>act. for_each expired_erase es ?q = Some (?q\<lparr>m_activeTimers := act\<rparr>) \<and> distinct act
    \<and> set act = set (m_activeTimers ?q) - timer_key (tq_store ?q) ` set es"
    using Cons.prems other by (intro Cons.IH) (auto simp: set_remove1_eq)
  then show ?case using step Cons.prems(4) by (auto simp: set_remove1_eq)
qed

lemma getExpired_ok:
  assumes inv: "TQ_inv q" and ne: "m_timers q \<noteq> []"
  shows "\<exists>act. TimerQueue_getExpired now q = Some (filter (\<lambda>e. fst e \<le> now) (m_timers q),
        q\<lparr>m_timers := filter (\<lambda>e. now < fst e) (m_timers q), m_activeTimers := act\<rparr>)
    \<and> TQ_inv (q\<lparr>m_timers := filter (\<lambda>e. now < fst e) (m_timers q), m_activeTimers := act\<rparr>)"
proof -
  note D = TQ_invD[OF inv]
  let ?due = "filter (\<lambda>e. fst e \<le> now) (m_timers q)" and ?rest = "filter (\<lambda>e. now < fst e) (m_timers q)"
  let ?n = "set_lower_bound (now, UINTPTR_MAX) (m_timers q)"
  note split = sorted_split[OF D(1,6), of now]
  have take: "take ?n (m_timers q) = ?due" and drop: "drop ?n (m_timers q) = ?rest"
    using split takeWhile_eq_take dropWhile_eq_drop unfolding set_lower_bound_def by metis+
  let ?q = "q\<lparr>m_timers := ?rest\<rparr>"
  have stored: "\<exists>tm. tq_store q (snd e) = Some tm" if "e \<in> set (m_timers q)" for e
    using D(7)[OF that] by blast
  have "\<exists>act. for_each expired_erase ?due ?q = Some (?q\<lparr>m_activeTimers := act\<rparr>) \<and> distinct act
    \<and> set act = set (m_activeTimers ?q) - timer_key (tq_store ?q) ` set ?due"
    by (rule expired_erase_run) (use D(2,4,5) stored in \<open>auto simp: distinct_map_filter\<close>)
  then obtain act where act: "for_each expired_erase ?due ?q = Some (?q\<lparr>m_activeTimers := act\<rparr>)" "distinct act"
    "set act = set (m_activeTimers q) - timer_key (tq_store q) ` set ?due" by auto
  have "set (m_timers q) - set ?due = set ?rest" by auto
  with act(3) D(5) inj_on_image_set_diff[OF timer_key_inj[OF D(2)], of "set (m_timers q)" "set ?due" "tq_store q"]
  have "set act = timer_key (tq_store q) ` set ?rest" by simp
  then have inv': "TQ_inv (?q\<lparr>m_activeTimers := act\<rparr>)"
    using D act(2) by (auto simp: TQ_inv_def sorted_wrt_filter distinct_map_filter)
  have first: "?n \<noteq> 0 \<or> (case ?rest of [] \<Rightarrow> False | e # _ \<Rightarrow> now < fst e)"
  proof (cases "?n = 0")
    case True
    then have "?rest = m_timers q" using drop by simp
    moreover from ne obtain e es where es: "m_timers q = e # es" by (cases "m_timers q") auto
    ultimately have "e \<in> set ?rest" by simp
    then have "now < fst e" by simp
    with es show ?thesis by simp
  qed simp
  have "TimerQueue_getExpired now q = Some (?due, ?q\<lparr>m_activeTimers := act\<rparr>)"
    using first act(1) TQ_inv_length[OF inv] TQ_inv_length[OF inv']
    by (simp add: TimerQueue_getExpired_def Let_def take drop)
  with inv' show ?thesis by auto
qed

subsection \<open>A timer event\<close>

text \<open>Where the expired timers go: repeating ones that were not cancelled get a new expiration.\<close>

definition rescheduled :: "(rat \<Rightarrow> rat) \<Rightarrow> timestamp \<Rightarrow> 'cb timer_queue \<Rightarrow> (timestamp \<times> nat) set \<Rightarrow> (timestamp \<times> nat) set" where
  "rescheduled rnd now q due = {(addTime rnd now (m_interval tm), a) | t a tm.
     (t, a) \<in> due \<and> tq_store q a = Some tm \<and> is_repeat tm \<and> (a, m_sequence tm) \<notin> set (m_cancelingTimers q)}"

lemma reset_one_ok:
  assumes inv: "TQ_inv q" and tid: "loop_threadId (tq_loop q) = tid" and tm: "tq_store q a = Some tm"
    and new: "a \<notin> snd ` set (m_timers q)" and addr: "a < UINTPTR_MAX"
  shows "\<exists>q'. reset_one rnd tid now (t, a) q = Some q' \<and> TQ_inv q' \<and> tq_loop q' = tq_loop q
    \<and> m_cancelingTimers q' = m_cancelingTimers q
    \<and> set (m_timers q') = set (m_timers q) \<union> rescheduled rnd now q {(t, a)}
    \<and> (\<forall>b. b \<noteq> a \<longrightarrow> tq_store q' b = tq_store q b)
    \<and> (tq_store q' a = None \<longleftrightarrow> \<not> (is_repeat tm \<and> (a, m_sequence tm) \<notin> set (m_cancelingTimers q)))"
proof (cases "is_repeat tm \<and> (a, m_sequence tm) \<notin> set (m_cancelingTimers q)")
  case True
  let ?tm = "Timer_restart rnd now tm"
  let ?q = "q\<lparr>tq_store := (tq_store q)(a \<mapsto> ?tm)\<rparr>"
  have keep: "tq_store ?q (snd e) = tq_store q (snd e)" if "e \<in> set (m_timers q)" for e
    using new that by auto
  have "timer_key (tq_store ?q) ` set (m_timers q) = timer_key (tq_store q) ` set (m_timers q)"
    by (rule timer_key_cong) (use keep in blast)
  then have inv1: "TQ_inv ?q" using inv keep by (simp add: TQ_inv_def)
  have exp: "m_expiration ?tm = addTime rnd now (m_interval tm)" using True by (simp add: Timer_restart_def)
  have "tq_store ?q a = Some ?tm" by simp
  from TimerQueue_insert_ok[OF inv1 _ this, of tid] tid new addr obtain q' chg where
    q': "TimerQueue_insert tid a ?q = Some (chg, q')" "TQ_inv q'"
    "m_timers q' = insort (m_expiration ?tm, a) (m_timers q)"
    "q' = ?q\<lparr>m_activeTimers := m_activeTimers q', m_timers := m_timers q'\<rparr>" by auto
  have f: "tq_store q' = tq_store ?q" "tq_loop q' = tq_loop q" "m_cancelingTimers q' = m_cancelingTimers q"
    by (subst q'(4), simp)+
  show ?thesis
    using True tm q'(1-3) f exp
    by (intro exI[of _ q']) (auto simp: reset_one_def set_insort_key rescheduled_def)
next
  case False
  let ?q = "q\<lparr>tq_store := (tq_store q)(a := None)\<rparr>"
  have keep: "tq_store ?q (snd e) = tq_store q (snd e)" if "e \<in> set (m_timers q)" for e
    using new that by auto
  have "timer_key (tq_store ?q) ` set (m_timers q) = timer_key (tq_store q) ` set (m_timers q)"
    by (rule timer_key_cong) (use keep in blast)
  then have "TQ_inv ?q" using inv keep by (simp add: TQ_inv_def)
  then show ?thesis using False tm by (intro exI[of _ ?q]) (auto simp: reset_one_def rescheduled_def)
qed

lemma reset_all_ok:
  assumes "TQ_inv q" and "loop_threadId (tq_loop q) = tid" and "distinct (map snd es)"
    and "\<And>e. e \<in> set es \<Longrightarrow> (\<exists>tm. tq_store q (snd e) = Some tm) \<and> snd e \<notin> snd ` set (m_timers q) \<and> snd e < UINTPTR_MAX"
  shows "\<exists>q'. for_each (reset_one rnd tid now) es q = Some q' \<and> TQ_inv q'
    \<and> set (m_timers q') = set (m_timers q) \<union> rescheduled rnd now q (set es)
    \<and> (\<forall>e \<in> set es. \<forall>tm. tq_store q (snd e) = Some tm \<longrightarrow>
          (tq_store q' (snd e) = None \<longleftrightarrow> \<not> (is_repeat tm \<and> (snd e, m_sequence tm) \<notin> set (m_cancelingTimers q))))
    \<and> (\<forall>b. b \<notin> snd ` set es \<longrightarrow> tq_store q' b = tq_store q b)"
  using assms
proof (induction es arbitrary: q)
  case Nil
  then show ?case by (simp add: rescheduled_def)
next
  case (Cons e es)
  obtain t a where e: "e = (t, a)" by fastforce
  from Cons.prems(4)[of e] e obtain tm where tm: "tq_store q a = Some tm"
    and new: "a \<notin> snd ` set (m_timers q)" and addr: "a < UINTPTR_MAX" by auto
  obtain u where u: "reset_one rnd tid now (t, a) q = Some u" "TQ_inv u" "tq_loop u = tq_loop q"
    "m_cancelingTimers u = m_cancelingTimers q"
    "set (m_timers u) = set (m_timers q) \<union> rescheduled rnd now q {(t, a)}"
    "\<forall>b. b \<noteq> a \<longrightarrow> tq_store u b = tq_store q b"
    "tq_store u a = None \<longleftrightarrow> \<not> (is_repeat tm \<and> (a, m_sequence tm) \<notin> set (m_cancelingTimers q))"
    using reset_one_ok[OF Cons.prems(1,2) tm new addr, of rnd now t] by (elim exE conjE) (rule that)
  have na: "snd d \<noteq> a" if "d \<in> set es" for d using that Cons.prems(3) e by auto
  have timers_a: "snd d \<notin> snd ` set (m_timers u)" if "d \<in> set es" for d
    using Cons.prems(4)[of d] that na[OF that] by (auto simp: u(5) rescheduled_def)
  have "\<exists>q'. for_each (reset_one rnd tid now) es u = Some q' \<and> TQ_inv q'
    \<and> set (m_timers q') = set (m_timers u) \<union> rescheduled rnd now u (set es)
    \<and> (\<forall>e \<in> set es. \<forall>tm. tq_store u (snd e) = Some tm \<longrightarrow>
          (tq_store q' (snd e) = None \<longleftrightarrow> \<not> (is_repeat tm \<and> (snd e, m_sequence tm) \<notin> set (m_cancelingTimers u))))
    \<and> (\<forall>b. b \<notin> snd ` set es \<longrightarrow> tq_store q' b = tq_store u b)"
    by (rule Cons.IH) (use u(2,3) Cons.prems(2-4) timers_a na u(6) in auto)
  then obtain q' where q': "for_each (reset_one rnd tid now) es u = Some q'" "TQ_inv q'"
    "set (m_timers q') = set (m_timers u) \<union> rescheduled rnd now u (set es)"
    "\<forall>e \<in> set es. \<forall>tm. tq_store u (snd e) = Some tm \<longrightarrow>
          (tq_store q' (snd e) = None \<longleftrightarrow> \<not> (is_repeat tm \<and> (snd e, m_sequence tm) \<notin> set (m_cancelingTimers u)))"
    "\<forall>b. b \<notin> snd ` set es \<longrightarrow> tq_store q' b = tq_store u b" by blast
  have same: "rescheduled rnd now u (set es) = rescheduled rnd now q (set es)"
    using na u(4,6) by (auto simp: rescheduled_def)
  have "rescheduled rnd now q (set (e # es)) = rescheduled rnd now q {(t, a)} \<union> rescheduled rnd now q (set es)"
    by (auto simp: rescheduled_def e)
  then have timers: "set (m_timers q') = set (m_timers q) \<union> rescheduled rnd now q (set (e # es))"
    using q'(3) u(5) same by auto
  have "a \<notin> snd ` set es" using na by auto
  then have at_a: "tq_store q' a = tq_store u a" using q'(5) by auto
  show ?case
  proof (intro exI[of _ q'] conjI, goal_cases)
    case 4
    show ?case using q'(4) u(4,6,7) na tm at_a e by auto
  next
    case 5
    show ?case using q'(5) u(6) e by auto
  qed (use u(1) q'(1,2) timers e in auto)
qed

lemma run_inert:
  assumes "\<And>cb q. run cb q = Some q" and "\<And>e. e \<in> set es \<Longrightarrow> tq_store q (snd e) \<noteq> None"
  shows "for_each (run_timer run) es q = Some q"
  using assms(2)
proof (induction es)
  case (Cons e es)
  then obtain tm where "tq_store q (snd e) = Some tm" by fastforce
  with Cons show ?case by (simp add: run_timer_def assms(1))
qed simp

text \<open>C18: A timer event. With a consistent queue that is not empty and callbacks that leave the queue
  alone, \<open>handleRead\<close> at time \<open>now\<close> runs without a failing assertion: exactly the timers due at
  \<open>now\<close> leave the queue, in the order of their expiration; the repeating ones are queued again for
  \<open>now\<close> plus their interval, the others are deleted; no other timer changes, the two sets stay in step,
  and the timer descriptor is armed when a valid time is next.\<close>

theorem TimerQueue_handleRead_correct:
  assumes inv: "TQ_inv q" and tid: "loop_threadId (tq_loop q) = tid" and ne: "m_timers q \<noteq> []"
    and inert: "\<And>cb q. run cb q = Some q"
  shows "\<exists>q'. TimerQueue_handleRead rnd run tid now now' q = Some q' \<and> TQ_inv q'
    \<and> set (m_timers q') = {e \<in> set (m_timers q). now < fst e}
        \<union> {(addTime rnd now (m_interval tm), a) | t a tm. (t, a) \<in> set (m_timers q) \<and> t \<le> now
             \<and> tq_store q a = Some tm \<and> is_repeat tm}
    \<and> (\<forall>e \<in> set (m_timers q). fst e \<le> now \<longrightarrow>
          (tq_store q' (snd e) = None \<longleftrightarrow> \<not> is_repeat (the (tq_store q (snd e)))))
    \<and> (m_timers q' \<noteq> [] \<and> Timestamp_valid (fst (hd (m_timers q'))) \<longrightarrow>
          tq_armed q' = Some (howMuchTimeFromNow now' (fst (hd (m_timers q')))))"
proof -
  note D = TQ_invD[OF inv]
  let ?due = "filter (\<lambda>e. fst e \<le> now) (m_timers q)"
  from getExpired_ok[OF inv ne, of now] obtain act where
    ge: "TimerQueue_getExpired now q = Some (?due, q\<lparr>m_timers := filter (\<lambda>e. now < fst e) (m_timers q), m_activeTimers := act\<rparr>)"
    and inv1: "TQ_inv (q\<lparr>m_timers := filter (\<lambda>e. now < fst e) (m_timers q), m_activeTimers := act\<rparr>)" by blast
  define q1 where "q1 = q\<lparr>m_timers := filter (\<lambda>e. now < fst e) (m_timers q), m_activeTimers := act,
      m_cancelingTimers := [], is_callingExpiredTimers := False\<rparr>"
  have stored: "\<exists>tm. tq_store q (snd e) = Some tm" if "e \<in> set (m_timers q)" for e
    using D(7)[OF that] by blast
  have inv_q1: "TQ_inv q1" using inv1 by (simp add: TQ_inv_def q1_def)
  have run: "for_each (run_timer run) ?due (q\<lparr>m_timers := filter (\<lambda>e. now < fst e) (m_timers q),
        m_activeTimers := act, is_callingExpiredTimers := True, m_cancelingTimers := []\<rparr>)
      = Some (q\<lparr>m_timers := filter (\<lambda>e. now < fst e) (m_timers q),
        m_activeTimers := act, is_callingExpiredTimers := True, m_cancelingTimers := []\<rparr>)"
    by (rule run_inert[OF inert]) (use stored in fastforce)
  have away: "snd e \<notin> snd ` set (m_timers q1)" if "e \<in> set ?due" for e
  proof
    assume "snd e \<in> snd ` set (m_timers q1)"
    then obtain d where "d \<in> set (m_timers q)" "now < fst d" "snd d = snd e" by (auto simp: q1_def)
    with that D(2) have "d = e" by (auto simp: distinct_map dest!: inj_onD)
    with \<open>now < fst d\<close> that show False by auto
  qed
  have "\<exists>q'. for_each (reset_one rnd tid now) ?due q1 = Some q' \<and> TQ_inv q'
    \<and> set (m_timers q') = set (m_timers q1) \<union> rescheduled rnd now q1 (set ?due)
    \<and> (\<forall>e \<in> set ?due. \<forall>tm. tq_store q1 (snd e) = Some tm \<longrightarrow>
          (tq_store q' (snd e) = None \<longleftrightarrow> \<not> (is_repeat tm \<and> (snd e, m_sequence tm) \<notin> set (m_cancelingTimers q1))))
    \<and> (\<forall>b. b \<notin> snd ` set ?due \<longrightarrow> tq_store q' b = tq_store q1 b)"
    by (rule reset_all_ok[OF inv_q1]) (use tid D(2,6) stored away in \<open>auto simp: q1_def distinct_map_filter\<close>)
  then obtain q2 where q2: "for_each (reset_one rnd tid now) ?due q1 = Some q2" "TQ_inv q2"
    "set (m_timers q2) = set (m_timers q1) \<union> rescheduled rnd now q1 (set ?due)"
    "\<forall>e \<in> set ?due. \<forall>tm. tq_store q1 (snd e) = Some tm \<longrightarrow>
          (tq_store q2 (snd e) = None \<longleftrightarrow> \<not> (is_repeat tm \<and> (snd e, m_sequence tm) \<notin> set (m_cancelingTimers q1)))"
    by blast
  define next_t where "next_t = (case m_timers q2 of [] \<Rightarrow> Timestamp_invalid | e # _ \<Rightarrow> fst e)"
  have nx: "(case m_timers q2 of [] \<Rightarrow> Some Timestamp_invalid | e # _ \<Rightarrow> map_option m_expiration (tq_store q2 (snd e)))
      = Some next_t"
    using TQ_invD(7)[OF q2(2)] by (cases "m_timers q2") (force simp: next_t_def)+
  let ?q3 = "if Timestamp_valid next_t then resetTimerfd now' next_t q2 else q2"
  have "TimerQueue_handleRead rnd run tid now now' q = Some ?q3"
    using tid ge run q2(1) nx by (simp add: TimerQueue_handleRead_def TimerQueue_reset_def q1_def)
  moreover have "TQ_inv ?q3" using q2(2) by (simp add: TQ_inv_def resetTimerfd_def)
  moreover have "set (m_timers ?q3) = {e \<in> set (m_timers q). now < fst e}
        \<union> {(addTime rnd now (m_interval tm), a) | t a tm. (t, a) \<in> set (m_timers q) \<and> t \<le> now
             \<and> tq_store q a = Some tm \<and> is_repeat tm}"
    using q2(3) by (auto simp: resetTimerfd_def q1_def rescheduled_def)
  moreover have "\<forall>e \<in> set (m_timers q). fst e \<le> now \<longrightarrow>
          (tq_store ?q3 (snd e) = None \<longleftrightarrow> \<not> is_repeat (the (tq_store q (snd e))))"
  proof (intro ballI impI)
    fix e assume e: "e \<in> set (m_timers q)" "fst e \<le> now"
    from stored[OF e(1)] obtain tm where tm: "tq_store q (snd e) = Some tm" by blast
    with q2(4) e have "tq_store q2 (snd e) = None \<longleftrightarrow> \<not> is_repeat tm" by (cases e) (simp add: q1_def)
    with tm show "tq_store ?q3 (snd e) = None \<longleftrightarrow> \<not> is_repeat (the (tq_store q (snd e)))"
      by (simp add: resetTimerfd_def)
  qed
  moreover have "m_timers ?q3 \<noteq> [] \<and> Timestamp_valid (fst (hd (m_timers ?q3))) \<longrightarrow>
          tq_armed ?q3 = Some (howMuchTimeFromNow now' (fst (hd (m_timers ?q3))))"
    by (auto simp: resetTimerfd_def next_t_def split: list.splits)
  ultimately show ?thesis by blast
qed

text \<open>A timer event with an empty queue is undefined: the assertion in \<open>getExpired\<close> then reads the
  element at \<open>end()\<close>. It happens: cancelling the only timer empties the queue and does not disarm the
  timer descriptor, so the descriptor still fires.\<close>

theorem TimerQueue_empty_event_undefined:
  assumes "m_timers q = []"
  shows "TimerQueue_handleRead rnd run tid now now' q = None"
  using assms by (simp add: TimerQueue_handleRead_def TimerQueue_getExpired_def set_lower_bound_def split: bind_splits)

subsection \<open>Adding and cancelling\<close>

lemma remove1_insort_new: "x \<notin> set xs \<Longrightarrow> remove1 x (insort x xs) = xs"
  by (induction xs) auto

text \<open>A store that differs only at an address that is not queued.\<close>

lemma TQ_inv_store:
  assumes "TQ_inv q" and "\<And>e. e \<in> set (m_timers q) \<Longrightarrow> st (snd e) = tq_store q (snd e)"
  shows "TQ_inv (q\<lparr>tq_store := st\<rparr>)"
  using assms timer_key_cong[of "m_timers q" st "tq_store q"] by (simp add: TQ_inv_def)

lemma TQ_inv_other [simp]:
  "TQ_inv (q\<lparr>s_numCreated := n\<rparr>) = TQ_inv q" "TQ_inv (q\<lparr>tq_handed := h\<rparr>) = TQ_inv q"
  "TQ_inv (q\<lparr>tq_armed := ar\<rparr>) = TQ_inv q" "TQ_inv (q\<lparr>m_cancelingTimers := cs\<rparr>) = TQ_inv q"
  "TQ_inv (q\<lparr>is_callingExpiredTimers := b\<rparr>) = TQ_inv q"
  by (simp_all add: TQ_inv_def)

text \<open>What \<open>addTimerInLoop\<close> does with a timer that is in the store and not queued.\<close>

lemma addTimerInLoop_ok:
  assumes inv: "TQ_inv q" and tid: "loop_threadId (tq_loop q) = tid" and tm: "tq_store q a = Some tm"
    and new: "a \<notin> snd ` set (m_timers q)" and addr: "a < UINTPTR_MAX"
  shows "\<exists>q'. TimerQueue_addTimerInLoop tid now a q = Some q' \<and> TQ_inv q'
    \<and> m_timers q' = insort (m_expiration tm, a) (m_timers q)
    \<and> m_activeTimers q' = insort (a, m_sequence tm) (m_activeTimers q)
    \<and> q' = q\<lparr>m_activeTimers := m_activeTimers q', m_timers := m_timers q', tq_armed := tq_armed q'\<rparr>
    \<and> (m_timers q = [] \<or> m_expiration tm < fst (hd (m_timers q)) \<longrightarrow> tq_armed q' = Some (howMuchTimeFromNow now (m_expiration tm)))"
proof -
  from TimerQueue_insert_ok[OF assms] obtain u where
    u: "TimerQueue_insert tid a q = Some (m_timers q = [] \<or> m_expiration tm < fst (hd (m_timers q)), u)" "TQ_inv u"
    "m_timers u = insort (m_expiration tm, a) (m_timers q)" "m_activeTimers u = insort (a, m_sequence tm) (m_activeTimers q)"
    "u = q\<lparr>m_activeTimers := m_activeTimers u, m_timers := m_timers u\<rparr>" by blast
  have st: "tq_store u = tq_store q" by (subst u(5)) simp
  let ?q = "if m_timers q = [] \<or> m_expiration tm < fst (hd (m_timers q)) then resetTimerfd now (m_expiration tm) u else u"
  have "TimerQueue_addTimerInLoop tid now a q = Some ?q"
    using tid u(1) st tm by (auto simp: TimerQueue_addTimerInLoop_def)
  moreover have "?q = q\<lparr>m_activeTimers := m_activeTimers ?q, m_timers := m_timers ?q, tq_armed := tq_armed ?q\<rparr>"
  proof -
    obtain act ts where ueq: "u = q\<lparr>m_activeTimers := act, m_timers := ts\<rparr>" using u(5) by blast
    show ?thesis unfolding ueq by (cases q) (simp add: resetTimerfd_def)
  qed
  ultimately show ?thesis using u(2-4) by (intro exI[of _ ?q]) (simp add: resetTimerfd_def)
qed

lemma TQ_inv_unqueued: "TQ_inv q \<Longrightarrow> tq_store q a = None \<Longrightarrow> a \<notin> snd ` set (m_timers q)"
  using TQ_invD(7) by force

text \<open>\<open>addTimer\<close> on the thread of the loop.\<close>

lemma addTimer_ok:
  assumes inv: "TQ_inv q" and tid: "loop_threadId (tq_loop q) = tid" and addr: "a < UINTPTR_MAX" and new: "tq_store q a = None"
  shows "\<exists>q'. TimerQueue_addTimer tid now a cb when interval q = Some (\<lparr>ti_timer = a, ti_sequence = s_numCreated q + 1\<rparr>, q') \<and> TQ_inv q'
    \<and> m_timers q' = insort (when, a) (m_timers q) \<and> m_activeTimers q' = insort (a, s_numCreated q + 1) (m_activeTimers q)
    \<and> q' = q\<lparr>s_numCreated := s_numCreated q + 1, tq_store := (tq_store q)(a \<mapsto> Timer_new (s_numCreated q + 1) cb when interval),
             m_activeTimers := m_activeTimers q', m_timers := m_timers q', tq_armed := tq_armed q'\<rparr>
    \<and> (m_timers q = [] \<or> when < fst (hd (m_timers q)) \<longrightarrow> tq_armed q' = Some (howMuchTimeFromNow now when))"
proof -
  define tm where "tm = Timer_new (s_numCreated q + 1) cb when interval"
  define q0 where "q0 = q\<lparr>s_numCreated := s_numCreated q + 1, tq_store := (tq_store q)(a \<mapsto> tm)\<rparr>"
  have na: "a \<notin> snd ` set (m_timers q)" using TQ_inv_unqueued[OF inv new] .
  have inv0: "TQ_inv q0" unfolding q0_def using inv na by (intro TQ_inv_store) auto
  have f0: "loop_threadId (tq_loop q0) = tid" "tq_store q0 a = Some tm" "m_timers q0 = m_timers q" "m_activeTimers q0 = m_activeTimers q"
    using tid by (simp_all add: q0_def)
  have "m_expiration tm = when" "m_sequence tm = s_numCreated q + 1" by (simp_all add: tm_def Timer_new_def)
  with addTimerInLoop_ok[OF inv0 f0(1,2), of now] na addr obtain q' where
    "TimerQueue_addTimerInLoop tid now a q0 = Some q'" "TQ_inv q'" "m_timers q' = insort (when, a) (m_timers q)"
    "m_activeTimers q' = insort (a, s_numCreated q + 1) (m_activeTimers q)"
    "q' = q0\<lparr>m_activeTimers := m_activeTimers q', m_timers := m_timers q', tq_armed := tq_armed q'\<rparr>"
    "m_timers q = [] \<or> when < fst (hd (m_timers q)) \<longrightarrow> tq_armed q' = Some (howMuchTimeFromNow now when)"
    by (auto simp: f0)
  moreover have "TimerQueue_addTimer_hand tid now a cb when interval q = TimerQueue_addTimerInLoop tid now a q0"
    using tid by (simp add: TimerQueue_addTimer_hand_def Let_def q0_def tm_def)
  moreover have "TimerQueue_addTimer_id a q' = Some \<lparr>ti_timer = a, ti_sequence = s_numCreated q + 1\<rparr>"
    unfolding TimerQueue_addTimer_id_def by (subst calculation(5)) (simp add: q0_def tm_def Timer_new_def)
  ultimately show ?thesis by (intro exI[of _ q']) (simp add: TimerQueue_addTimer_def q0_def tm_def)
qed

text \<open>C25: Adding and cancelling. On the loop thread \<open>addTimer\<close> of a new timer succeeds, keeps the sets
  in step and queues the timer at its time, and arms the descriptor when it is the earliest;
  cancelling the returned id takes exactly this timer out again and deletes it, and cancelling it
  once more changes nothing.\<close>

theorem TimerQueue_add_cancel:
  assumes inv: "TQ_inv q" and tid: "loop_threadId (tq_loop q) = tid" and addr: "a < UINTPTR_MAX"
    and new: "tq_store q a = None" and idle: "\<not> is_callingExpiredTimers q"
  shows "\<exists>id q1 q2. TimerQueue_addTimer tid now a cb when interval q = Some (id, q1) \<and> TQ_inv q1
    \<and> m_timers q1 = insort (when, a) (m_timers q)
    \<and> (m_timers q = [] \<or> when < fst (hd (m_timers q)) \<longrightarrow> tq_armed q1 = Some (howMuchTimeFromNow now when))
    \<and> TimerQueue_cancel tid id q1 = Some q2 \<and> TQ_inv q2
    \<and> m_timers q2 = m_timers q \<and> m_activeTimers q2 = m_activeTimers q \<and> tq_store q2 = tq_store q
    \<and> TimerQueue_cancel tid id q2 = Some q2"
proof -
  let ?seq = "s_numCreated q + 1" let ?id = "\<lparr>ti_timer = a, ti_sequence = s_numCreated q + 1\<rparr>"
  let ?tm = "Timer_new ?seq cb when interval"
  from addTimer_ok[OF inv tid addr new, of now cb "when" interval] obtain q1 where
    add: "TimerQueue_addTimer tid now a cb when interval q = Some (?id, q1)" and inv_1: "TQ_inv q1"
    and f: "m_timers q1 = insort (when, a) (m_timers q)" "m_activeTimers q1 = insort (a, ?seq) (m_activeTimers q)"
    and q1: "q1 = q\<lparr>s_numCreated := ?seq, tq_store := (tq_store q)(a \<mapsto> ?tm), m_activeTimers := m_activeTimers q1,
             m_timers := m_timers q1, tq_armed := tq_armed q1\<rparr>"
    and armed: "m_timers q = [] \<or> when < fst (hd (m_timers q)) \<longrightarrow> tq_armed q1 = Some (howMuchTimeFromNow now when)"
    by (elim exE conjE) (rule that)
  have f1: "tq_store q1 = (tq_store q)(a \<mapsto> ?tm)" "tq_loop q1 = tq_loop q" "is_callingExpiredTimers q1 = is_callingExpiredTimers q"
    by (subst q1, simp)+
  have na: "a \<notin> snd ` set (m_timers q)" using TQ_inv_unqueued[OF inv new] .
  then have ne: "(when, a) \<notin> set (m_timers q)" and nk: "(a, ?seq) \<notin> set (m_activeTimers q)"
    using TQ_invD(5)[OF inv] by (force simp: timer_key_def)+
  define q2 where "q2 = q1\<lparr>m_timers := m_timers q, m_activeTimers := m_activeTimers q, tq_store := tq_store q\<rparr>"
  have inv_2: "TQ_inv q2" using inv by (simp add: TQ_inv_def q2_def)
  have restore: "(tq_store q)(a := None) = tq_store q" using new by auto
  have cancel1: "TimerQueue_cancel tid ?id q1 = Some q2"
    using tid f f1 ne nk TQ_inv_length[OF inv_1] TQ_inv_length[OF inv] restore
    by (simp add: TimerQueue_cancel_def TimerQueue_cancelInLoop_def set_erase_def set_insort_key
        remove1_insort_new q2_def Let_def Timer_new_def)
  have cancel2: "TimerQueue_cancel tid ?id q2 = Some q2"
    using tid f1 nk idle TQ_inv_length[OF inv]
    by (simp add: TimerQueue_cancel_def TimerQueue_cancelInLoop_def q2_def Let_def)
  from add inv_1 f(1) armed cancel1 inv_2 cancel2 show ?thesis
    by (intro exI[of _ ?id] exI[of _ q1] exI[of _ q2]) (simp add: q2_def)
qed

subsection \<open>A concrete queue\<close>

definition demo_timers :: "nat timer_queue" where
  "demo_timers = \<lparr>tq_loop = \<lparr>loop_addr = 1, loop_threadId = 7\<rparr>, m_timers = [(Timestamp 1000, 8), (Timestamp 5000, 4)],
     m_activeTimers = [(4, 1), (8, 2)], is_callingExpiredTimers = False, m_cancelingTimers = [],
     tq_store = [4 \<mapsto> Timer_new 1 77 (Timestamp 5000) 0, 8 \<mapsto> Timer_new 2 78 (Timestamp 1000) 1],
     s_numCreated = 2, tq_armed = None, tq_handed = []\<rparr>"

lemma demo_timers_inv: "TQ_inv demo_timers"
  by (simp add: TQ_inv_def demo_timers_def Timer_new_def UINTPTR_MAX_def timer_key_def less_eq_prod_def
      less_timestamp_def insert_commute)

theorem TimerQueue_handleRead_correct_witness:
  "\<exists>q'. TimerQueue_handleRead id (\<lambda>cb. Some) 7 (Timestamp 2000) (Timestamp 2100) demo_timers = Some q' \<and> TQ_inv q'
     \<and> set (m_timers q') = {(Timestamp 5000, 4), (Timestamp 1002000, 8)}"
proof -
  have set: "{e \<in> set (m_timers demo_timers). Timestamp 2000 < fst e}
        \<union> {(addTime id (Timestamp 2000) (m_interval tm), a) | t a tm. (t, a) \<in> set (m_timers demo_timers)
             \<and> t \<le> Timestamp 2000 \<and> tq_store demo_timers a = Some tm \<and> is_repeat tm}
      = {(Timestamp 5000, 4), (Timestamp 1002000, 8)}"
    by (auto simp: demo_timers_def Timer_new_def addTime_def trunc_int64_def kMicroSecondsPerSecond_def
        less_timestamp_def less_eq_timestamp_def intro!: exI[of _ "Timestamp 1000"] exI[of _ "8 :: nat"])
  from TimerQueue_handleRead_correct[OF demo_timers_inv, of 7 "\<lambda>cb. Some" id "Timestamp 2000" "Timestamp 2100"]
  obtain q' where "TimerQueue_handleRead id (\<lambda>cb. Some) 7 (Timestamp 2000) (Timestamp 2100) demo_timers = Some q'"
    "TQ_inv q'" "set (m_timers q') = {(Timestamp 5000, 4), (Timestamp 1002000, 8)}"
    unfolding set by (auto simp: demo_timers_def)
  then show ?thesis by blast
qed

theorem TimerQueue_empty_event_undefined_witness:
  "TimerQueue_handleRead id (\<lambda>cb. Some) 7 (Timestamp 1) (Timestamp 2) (demo_timers\<lparr>m_timers := [], m_activeTimers := []\<rparr>) = None"
  by (rule TimerQueue_empty_event_undefined) simp

theorem TimerQueue_add_cancel_witness:
  "\<exists>id q1 q2. TimerQueue_addTimer 7 (Timestamp 10) 16 99 (Timestamp 3000) 0 demo_timers = Some (id, q1) \<and> TQ_inv q1
    \<and> m_timers q1 = insort (Timestamp 3000, 16) (m_timers demo_timers)
    \<and> TimerQueue_cancel 7 id q1 = Some q2 \<and> TQ_inv q2
    \<and> m_timers q2 = m_timers demo_timers \<and> TimerQueue_cancel 7 id q2 = Some q2"
  using TimerQueue_add_cancel[OF demo_timers_inv, of 7 16 "Timestamp 10" 99 "Timestamp 3000" 0]
  by (auto simp: demo_timers_def UINTPTR_MAX_def)

end
