(* ===== verification/TimerHistory.thy ===== *)
theory TimerHistory
  imports TimerQueueProps
begin

text \<open>
  The life of the timers of a queue over any history of calls: timers added and cancelled on the
  thread of the loop and from other threads, functors handed over, and timer events whose callbacks
  add and cancel timers themselves. The store is the heap: every timer in it waits in exactly one
  place, and nothing outside it is ever read or deleted.
\<close>

subsection \<open>Well-formed states\<close>

fun handed_timer :: "timer_functor \<Rightarrow> nat list" where
  "handed_timer (Fn_addTimerInLoop a) = [a]"
| "handed_timer (Fn_cancelInLoop timerId) = []"

text \<open>The timers that are queued, on their way to the loop, or, during a timer event, expired.\<close>

definition timer_places :: "(timestamp \<times> nat) list \<Rightarrow> 'cb timer_queue \<Rightarrow> nat list" where
  "timer_places expired q = map snd (m_timers q) @ concat (map handed_timer (tq_handed q)) @ map snd expired"

definition TQ_wf :: "(timestamp \<times> nat) list \<Rightarrow> 'cb timer_queue \<Rightarrow> bool" where
  "TQ_wf expired q =
     (TQ_inv q \<and> distinct (timer_places expired q) \<and> dom (tq_store q) = set (timer_places expired q)
    \<and> (\<forall>a tm. tq_store q a = Some tm \<longrightarrow> a < UINTPTR_MAX \<and> m_sequence tm \<le> s_numCreated q))"

lemma TQ_wfD:
  assumes "TQ_wf es q"
  shows "TQ_inv q" "distinct (timer_places es q)" "dom (tq_store q) = set (timer_places es q)"
    "tq_store q a = Some tm \<Longrightarrow> a < UINTPTR_MAX" "tq_store q a = Some tm \<Longrightarrow> m_sequence tm \<le> s_numCreated q"
  using assms by (auto simp: TQ_wf_def)

lemma TQ_wf_other [simp]:
  "TQ_wf es (q\<lparr>tq_armed := ar\<rparr>) = TQ_wf es q" "TQ_wf es (q\<lparr>m_cancelingTimers := cs\<rparr>) = TQ_wf es q"
  "TQ_wf es (q\<lparr>is_callingExpiredTimers := b\<rparr>) = TQ_wf es q"
  by (simp_all add: TQ_wf_def timer_places_def)

text \<open>
  \<open>timer_places\<close> counted with multiplicity says how a timer moves: a state is well formed when the
  places are those of a well-formed state with an address gone, come or moved.
\<close>

lemma places_insort:
  "distinct (timer_places es (q\<lparr>m_timers := insort e (m_timers q)\<rparr>)) \<longleftrightarrow>
     snd e \<notin> set (timer_places es q) \<and> distinct (timer_places es q)"
  "set (timer_places es (q\<lparr>m_timers := insort e (m_timers q)\<rparr>)) = insert (snd e) (set (timer_places es q))"
  by (auto simp: timer_places_def insort_map_snd set_insort_key image_iff)

subsection \<open>Calls\<close>

text \<open>
  \<open>addTimer\<close> up to the hand-over of the timer, and \<open>cancel\<close>, from any thread. \<open>new\<close> returns an
  address that is not in use, and ids are those the queue has given out.
\<close>

inductive timer_call :: "int \<Rightarrow> 'cb timer_queue \<Rightarrow> 'cb timer_queue \<Rightarrow> bool" for tid where
  add: "tq_store q a = None \<Longrightarrow> a < UINTPTR_MAX \<Longrightarrow> TimerQueue_addTimer_hand tid now a cb when interval q = Some q'
    \<Longrightarrow> timer_call tid q q'"
| cancel: "ti_sequence timerId \<le> s_numCreated q \<Longrightarrow> TimerQueue_cancel tid timerId q = Some q' \<Longrightarrow> timer_call tid q q'"

lemma addTimer_wf:
  assumes wf: "TQ_wf es q" and new: "tq_store q a = None" "a < UINTPTR_MAX"
  shows "\<exists>q'. TimerQueue_addTimer_hand tid now a cb when interval q = Some q'
    \<and> TimerQueue_addTimer_id a q' = Some \<lparr>ti_timer = a, ti_sequence = s_numCreated q + 1\<rparr>
    \<and> TQ_wf es q' \<and> tq_loop q' = tq_loop q \<and> m_cancelingTimers q' = m_cancelingTimers q \<and> s_numCreated q' = s_numCreated q + 1
    \<and> is_callingExpiredTimers q' = is_callingExpiredTimers q
    \<and> set (m_activeTimers q') \<subseteq> insert (a, s_numCreated q + 1) (set (m_activeTimers q))"
proof -
  let ?tm = "Timer_new (s_numCreated q + 1) cb when interval"
  have na: "a \<notin> set (timer_places es q)" using TQ_wfD(3)[OF wf] new by auto
  have seq: "m_sequence ?tm = s_numCreated q + 1" by (simp add: Timer_new_def)
  have old: "m_sequence t \<le> s_numCreated q + 1" if "tq_store q b = Some t" for b t using TQ_wfD(5)[OF wf that] by simp
  show ?thesis
  proof (cases "loop_threadId (tq_loop q) = tid")
    case True
    from addTimer_ok[OF TQ_wfD(1)[OF wf] True new(2,1), of now cb "when" interval] obtain q' where
      q': "TimerQueue_addTimer tid now a cb when interval q = Some (\<lparr>ti_timer = a, ti_sequence = s_numCreated q + 1\<rparr>, q')" "TQ_inv q'"
      "m_timers q' = insort (when, a) (m_timers q)" "m_activeTimers q' = insort (a, s_numCreated q + 1) (m_activeTimers q)"
      "q' = q\<lparr>s_numCreated := s_numCreated q + 1, tq_store := (tq_store q)(a \<mapsto> ?tm),
             m_activeTimers := m_activeTimers q', m_timers := m_timers q', tq_armed := tq_armed q'\<rparr>" by blast
    have f: "s_numCreated q' = s_numCreated q + 1" "tq_store q' = (tq_store q)(a \<mapsto> ?tm)" "tq_handed q' = tq_handed q"
      "tq_loop q' = tq_loop q" "m_cancelingTimers q' = m_cancelingTimers q" "is_callingExpiredTimers q' = is_callingExpiredTimers q"
      by (subst q'(5), simp)+
    have places: "timer_places es q' = timer_places es (q\<lparr>m_timers := insort (when, a) (m_timers q)\<rparr>)"
      by (simp add: timer_places_def f q'(3))
    have "TQ_wf es q'"
      using TQ_wfD(2-4)[OF wf] na q'(2) new(2) seq old
      by (auto simp: TQ_wf_def places places_insort f)
    moreover have "TimerQueue_addTimer_hand tid now a cb when interval q = Some q'"
      "TimerQueue_addTimer_id a q' = Some \<lparr>ti_timer = a, ti_sequence = s_numCreated q + 1\<rparr>"
      using q'(1) by (auto simp: TimerQueue_addTimer_def split: bind_splits)
    ultimately show ?thesis using q'(4) f by (intro exI[of _ q']) (simp add: set_insort_key)
  next
    case False
    let ?q = "q\<lparr>s_numCreated := s_numCreated q + 1, tq_store := (tq_store q)(a \<mapsto> ?tm),
      tq_handed := tq_handed q @ [Fn_addTimerInLoop a]\<rparr>"
    have "TQ_inv (q\<lparr>s_numCreated := s_numCreated q + 1, tq_store := (tq_store q)(a \<mapsto> ?tm)\<rparr>)"
      using TQ_wfD(1)[OF wf] TQ_inv_unqueued[OF TQ_wfD(1)[OF wf] new(1)] by (intro TQ_inv_store) auto
    then have "TQ_inv ?q" by (simp add: TQ_inv_def)
    moreover have "distinct (timer_places es ?q)" "set (timer_places es ?q) = insert a (set (timer_places es q))"
      using TQ_wfD(2)[OF wf] na by (auto simp: timer_places_def)
    ultimately have "TQ_wf es ?q"
      using TQ_wfD(3,4)[OF wf] new(2) seq old by (auto simp: TQ_wf_def)
    with False show ?thesis
      by (intro exI[of _ ?q]) (auto simp: TimerQueue_addTimer_hand_def TimerQueue_addTimer_id_def Let_def Timer_new_def)
  qed
qed

text \<open>Taking a timer out of the queue.\<close>

lemma TQ_inv_erase:
  assumes inv: "TQ_inv q" and e: "(t, a) \<in> set (m_timers q)" and tm: "tq_store q a = Some tm"
  shows "TQ_inv (q\<lparr>m_timers := remove1 (t, a) (m_timers q), tq_store := (tq_store q)(a := None),
    m_activeTimers := remove1 (a, m_sequence tm) (m_activeTimers q)\<rparr>)"
proof -
  note D = TQ_invD[OF inv]
  let ?ts = "remove1 (t, a) (m_timers q)"
  have ts: "set ?ts = set (m_timers q) - {(t, a)}" using D(3) by simp
  have others: "a \<notin> snd ` set ?ts"
    using inj_onD[OF conjunct2[OF D(2)[unfolded distinct_map]], of _ "(t, a)"] e by (auto simp: ts)
  have once: "distinct (map snd ?ts)" using D(2) ts by (auto simp: distinct_map intro: inj_on_subset)
  have "timer_key ((tq_store q)(a := None)) ` set ?ts = timer_key (tq_store q) ` set ?ts"
    by (rule timer_key_cong) (use others in auto)
  also have "\<dots> = timer_key (tq_store q) ` set (m_timers q) - {timer_key (tq_store q) (t, a)}"
    unfolding ts using inj_on_image_set_diff[OF timer_key_inj[OF D(2), of "tq_store q"], of "set (m_timers q)" "{(t, a)}"] e by simp
  finally have keys: "timer_key ((tq_store q)(a := None)) ` set ?ts = set (m_activeTimers q) - {(a, m_sequence tm)}"
    using tm by (simp add: D(5) timer_key_def)
  show ?thesis
    using D(1,3,4,6,7) others keys once by (auto simp: TQ_inv_def sorted_remove1)
qed

lemma places_remove1:
  assumes "distinct (timer_places es q)" "(t, a) \<in> set (m_timers q)"
  shows "distinct (timer_places es (q\<lparr>m_timers := remove1 (t, a) (m_timers q)\<rparr>))"
    "set (timer_places es (q\<lparr>m_timers := remove1 (t, a) (m_timers q)\<rparr>)) = set (timer_places es q) - {a}"
proof -
  obtain xs ys where m: "m_timers q = xs @ (t, a) # ys" "(t, a) \<notin> set xs" using split_list_first[OF assms(2)] by blast
  then have "remove1 (t, a) (m_timers q) = xs @ ys" by (simp add: remove1_append)
  with assms(1) m(1) show "distinct (timer_places es (q\<lparr>m_timers := remove1 (t, a) (m_timers q)\<rparr>))"
    "set (timer_places es (q\<lparr>m_timers := remove1 (t, a) (m_timers q)\<rparr>)) = set (timer_places es q) - {a}"
    by (auto simp: timer_places_def)
qed

lemma active_entry:
  assumes "TQ_inv q" "(a, sq) \<in> set (m_activeTimers q)"
  obtains tm where "tq_store q a = Some tm" "m_sequence tm = sq" "(m_expiration tm, a) \<in> set (m_timers q)"
proof -
  from assms obtain e where e: "e \<in> set (m_timers q)" "snd e = a" "sq = m_sequence (the (tq_store q a))"
    by (auto simp: TQ_invD(5) timer_key_def)
  from TQ_invD(7)[OF assms(1) e(1)] e(2) obtain tm where tm: "tq_store q a = Some tm" "m_expiration tm = fst e" by auto
  show ?thesis by (rule that[OF tm(1)]) (use e tm in \<open>auto simp: prod_eq_iff\<close>)
qed

text \<open>
  \<open>cancelInLoop\<close> takes a queued timer out and deletes it; a timer that is not queued is remembered
  during a timer event and otherwise ignored.
\<close>

lemma cancelInLoop_wf:
  assumes wf: "TQ_wf es q" and tid: "loop_threadId (tq_loop q) = tid"
  shows "\<exists>q'. TimerQueue_cancelInLoop tid timerId q = Some q' \<and> TQ_wf es q'
    \<and> tq_loop q' = tq_loop q \<and> s_numCreated q' = s_numCreated q \<and> is_callingExpiredTimers q' = is_callingExpiredTimers q
    \<and> tq_handed q' = tq_handed q
    \<and> set (m_activeTimers q') = set (m_activeTimers q) - {(ti_timer timerId, ti_sequence timerId)}
    \<and> set (m_cancelingTimers q') = set (m_cancelingTimers q)
        \<union> (if is_callingExpiredTimers q \<and> (ti_timer timerId, ti_sequence timerId) \<notin> set (m_activeTimers q)
           then {(ti_timer timerId, ti_sequence timerId)} else {})"
proof (cases "(ti_timer timerId, ti_sequence timerId) \<in> set (m_activeTimers q)")
  case True
  let ?a = "ti_timer timerId"
  note inv = TQ_wfD(1)[OF wf]
  from active_entry[OF inv True] obtain tm where
    tm: "tq_store q ?a = Some tm" "m_sequence tm = ti_sequence timerId" "(m_expiration tm, ?a) \<in> set (m_timers q)" .
  let ?q = "q\<lparr>m_timers := remove1 (m_expiration tm, ?a) (m_timers q), tq_store := (tq_store q)(?a := None),
    m_activeTimers := remove1 (?a, m_sequence tm) (m_activeTimers q)\<rparr>"
  have inv': "TQ_inv ?q" using TQ_inv_erase[OF inv tm(3,1)] .
  have "timer_places es ?q = timer_places es (q\<lparr>m_timers := remove1 (m_expiration tm, ?a) (m_timers q)\<rparr>)"
    by (simp add: timer_places_def)
  with places_remove1[OF TQ_wfD(2)[OF wf] tm(3)] inv' have "TQ_wf es ?q"
    using TQ_wfD(3-)[OF wf] by (auto simp: TQ_wf_def)
  moreover have "TimerQueue_cancelInLoop tid timerId q = Some ?q"
    using tid True tm TQ_inv_length[OF inv] TQ_inv_length[OF inv']
    by (simp add: TimerQueue_cancelInLoop_def set_erase_def Let_def)
  ultimately show ?thesis using True tm(2) TQ_invD(4)[OF inv] by (intro exI[of _ ?q]) simp
next
  case False
  let ?q = "if is_callingExpiredTimers q
    then q\<lparr>m_cancelingTimers := snd (set_insert (ti_timer timerId, ti_sequence timerId) (m_cancelingTimers q))\<rparr> else q"
  have "TimerQueue_cancelInLoop tid timerId q = Some ?q"
    using tid False TQ_inv_length[OF TQ_wfD(1)[OF wf]] by (simp add: TimerQueue_cancelInLoop_def Let_def)
  then show ?thesis using wf False by (intro exI[of _ ?q]) (auto simp: set_insert_def set_insort_key)
qed

text \<open>No timer cancelled during the event is queued, and only ids given out are remembered.\<close>

definition cancels_ok :: "'cb timer_queue \<Rightarrow> bool" where
  "cancels_ok q = (set (m_cancelingTimers q) \<inter> set (m_activeTimers q) = {} \<and> (\<forall>k \<in> set (m_cancelingTimers q). snd k \<le> s_numCreated q))"

lemma cancels_ok_grow:
  assumes "cancels_ok q" "set (m_cancelingTimers q') = set (m_cancelingTimers q)" "s_numCreated q \<le> s_numCreated q'"
    and "set (m_activeTimers q') \<subseteq> insert k (set (m_activeTimers q))" "k \<notin> set (m_cancelingTimers q)"
  shows "cancels_ok q'"
  using assms unfolding cancels_ok_def by (auto dest: subsetD bspec order.trans)

lemma cancels_ok_fresh: "cancels_ok q \<Longrightarrow> (a, s_numCreated q + 1) \<notin> set (m_cancelingTimers q)"
  by (auto simp: cancels_ok_def dest!: bspec)

lemma timer_call_wf:
  assumes "timer_call tid q q'" and wf: "TQ_wf es q"
  shows "TQ_wf es q' \<and> tq_loop q' = tq_loop q \<and> is_callingExpiredTimers q' = is_callingExpiredTimers q
    \<and> (cancels_ok q \<longrightarrow> cancels_ok q')"
  using assms(1)
proof cases
  case (add a now cb "when" interval)
  then show ?thesis
    using addTimer_wf[OF wf, of a tid now cb "when" interval] cancels_ok_grow[OF _ _ _ _ cancels_ok_fresh[of q a], of q'] by auto
next
  case (cancel timerId)
  show ?thesis
  proof (cases "loop_threadId (tq_loop q) = tid")
    case True
    then show ?thesis
      using cancelInLoop_wf[OF wf True, of timerId] cancel by (auto simp: TimerQueue_cancel_def cancels_ok_def split: if_splits)
  next
    case False
    then have "q' = q\<lparr>tq_handed := tq_handed q @ [Fn_cancelInLoop timerId]\<rparr>" using cancel(2) by (simp add: TimerQueue_cancel_def)
    then show ?thesis using wf by (simp add: TQ_wf_def timer_places_def cancels_ok_def)
  qed
qed

lemma functor_wf:
  assumes wf: "TQ_wf [] q" and tid: "loop_threadId (tq_loop q) = tid" and h: "tq_handed q = f # fs"
  shows "\<exists>q'. timer_functor_run tid now f (q\<lparr>tq_handed := fs\<rparr>) = Some q' \<and> TQ_wf [] q'
    \<and> tq_loop q' = tq_loop q \<and> is_callingExpiredTimers q' = is_callingExpiredTimers q"
proof (cases f)
  case (Fn_addTimerInLoop a)
  let ?q = "q\<lparr>tq_handed := fs\<rparr>"
  have inv: "TQ_inv ?q" using TQ_wfD(1)[OF wf] by simp
  have na: "a \<notin> snd ` set (m_timers ?q)" using TQ_wfD(2)[OF wf] by (auto simp: timer_places_def h Fn_addTimerInLoop)
  have "a \<in> dom (tq_store q)" unfolding TQ_wfD(3)[OF wf] by (simp add: timer_places_def h Fn_addTimerInLoop)
  then obtain tm where tm: "tq_store ?q a = Some tm" by auto
  from addTimerInLoop_ok[OF inv _ tm na, of tid now] tid TQ_wfD(4)[OF wf] tm obtain q' where
    q': "TimerQueue_addTimerInLoop tid now a ?q = Some q'" "TQ_inv q'" "m_timers q' = insort (m_expiration tm, a) (m_timers q)"
    "q' = ?q\<lparr>m_activeTimers := m_activeTimers q', m_timers := m_timers q', tq_armed := tq_armed q'\<rparr>" by auto
  have f: "tq_store q' = tq_store q" "tq_handed q' = fs" "tq_loop q' = tq_loop q" "s_numCreated q' = s_numCreated q"
    "is_callingExpiredTimers q' = is_callingExpiredTimers q"
    by (subst q'(4), simp)+
  have "distinct (timer_places [] q')" "set (timer_places [] q') = set (timer_places [] q)"
    using TQ_wfD(2)[OF wf]
    by (auto simp: timer_places_def f q'(3) h Fn_addTimerInLoop insort_map_snd set_insort_key)
  with q'(2) TQ_wfD(3-)[OF wf] f have "TQ_wf [] q'" by (auto simp: TQ_wf_def)
  with q'(1) f show ?thesis by (simp add: timer_functor_run_def Fn_addTimerInLoop)
next
  case (Fn_cancelInLoop timerId)
  have "TQ_wf [] (q\<lparr>tq_handed := fs\<rparr>)" using wf h by (simp add: TQ_wf_def timer_places_def Fn_cancelInLoop)
  from cancelInLoop_wf[OF this, of tid timerId] tid show ?thesis by (auto simp: timer_functor_run_def Fn_cancelInLoop)
qed

subsection \<open>Timer events\<close>

text \<open>Callbacks return, and what they do to the queue is a sequence of calls, theirs or those of other threads.\<close>

definition callbacks_ok :: "('cb \<Rightarrow> 'cb timer_queue \<Rightarrow> 'cb timer_queue outcome) \<Rightarrow> bool" where
  "callbacks_ok run = (\<forall>cb q es. TQ_wf es q \<longrightarrow> (\<exists>q'. run cb q = Some q' \<and> (\<lambda>q q'. \<exists>tid. timer_call tid q q')\<^sup>*\<^sup>* q q'))"

lemma timer_calls_wf:
  assumes "(\<lambda>q q'. \<exists>tid. timer_call tid q q')\<^sup>*\<^sup>* q q'" and "TQ_wf es q"
  shows "TQ_wf es q' \<and> tq_loop q' = tq_loop q \<and> is_callingExpiredTimers q' = is_callingExpiredTimers q
    \<and> (cancels_ok q \<longrightarrow> cancels_ok q')"
  using assms(1)
proof (induction rule: rtranclp_induct)
  case base
  then show ?case using assms(2) by simp
next
  case (step q' q'')
  then obtain tid where "timer_call tid q' q''" by blast
  with step.IH show ?case using timer_call_wf[of tid q' q'' es] by simp
qed

lemma run_timers_wf:
  assumes run: "callbacks_ok run" and "TQ_wf es q" "cancels_ok q" "set ds \<subseteq> set es"
  shows "\<exists>q'. for_each (run_timer run) ds q = Some q' \<and> TQ_wf es q' \<and> cancels_ok q' \<and> tq_loop q' = tq_loop q"
  using assms(2-)
proof (induction ds arbitrary: q)
  case (Cons d ds)
  have "snd d \<in> dom (tq_store q)" unfolding TQ_wfD(3)[OF Cons.prems(1)] using Cons.prems(3) by (auto simp: timer_places_def)
  then obtain tm where tm: "tq_store q (snd d) = Some tm" by auto
  from run Cons.prems(1) obtain u where u: "run (t_callback tm) q = Some u" "(\<lambda>q q'. \<exists>tid. timer_call tid q q')\<^sup>*\<^sup>* q u"
    unfolding callbacks_ok_def by blast
  note w = timer_calls_wf[OF u(2) Cons.prems(1)]
  have "\<exists>q'. for_each (run_timer run) ds u = Some q' \<and> TQ_wf es q' \<and> cancels_ok q' \<and> tq_loop q' = tq_loop u"
    using Cons.prems w by (intro Cons.IH) auto
  moreover have "run_timer run d q = Some u" using tm u(1) by (simp add: run_timer_def)
  ultimately show ?case using w by simp
qed simp

text \<open>An expired timer is queued again or deleted.\<close>

lemma reset_one_wf:
  assumes wf: "TQ_wf ((t, a) # es) q" and tid: "loop_threadId (tq_loop q) = tid" and ca: "cancels_ok q"
  shows "\<exists>q'. reset_one rnd tid now (t, a) q = Some q' \<and> TQ_wf es q' \<and> cancels_ok q' \<and> tq_loop q' = tq_loop q
    \<and> m_cancelingTimers q' = m_cancelingTimers q \<and> is_callingExpiredTimers q' = is_callingExpiredTimers q"
proof -
  note inv = TQ_wfD(1)[OF wf]
  have "a \<in> dom (tq_store q)" unfolding TQ_wfD(3)[OF wf] by (simp add: timer_places_def)
  then obtain tm where tm: "tq_store q a = Some tm" by auto
  have gone: "a \<notin> set (timer_places es q)" "distinct (timer_places es q)" "dom (tq_store q) = insert a (set (timer_places es q))"
    using TQ_wfD(2,3)[OF wf] by (auto simp: timer_places_def)
  then have na: "a \<notin> snd ` set (m_timers q)" by (simp add: timer_places_def)
  show ?thesis
  proof (cases "is_repeat tm \<and> (a, m_sequence tm) \<notin> set (m_cancelingTimers q)")
    case False
    let ?q = "q\<lparr>tq_store := (tq_store q)(a := None)\<rparr>"
    have "TQ_inv ?q" using inv na by (intro TQ_inv_store) auto
    then have "TQ_wf es ?q" using gone TQ_wfD(4,5)[OF wf] by (auto simp: TQ_wf_def timer_places_def)
    with False tm ca show ?thesis by (intro exI[of _ ?q]) (auto simp: reset_one_def cancels_ok_def)
  next
    case True
    let ?tm = "Timer_restart rnd now tm" let ?q = "q\<lparr>tq_store := (tq_store q)(a \<mapsto> Timer_restart rnd now tm)\<rparr>"
    have inv1: "TQ_inv ?q" using inv na by (intro TQ_inv_store) auto
    have seq: "m_sequence ?tm = m_sequence tm" by (simp add: Timer_restart_def)
    from TimerQueue_insert_ok[OF inv1, of tid a ?tm] tid na TQ_wfD(4)[OF wf tm] obtain q' chg where
      q': "TimerQueue_insert tid a ?q = Some (chg, q')" "TQ_inv q'" "m_timers q' = insort (m_expiration ?tm, a) (m_timers q)"
      "m_activeTimers q' = insort (a, m_sequence tm) (m_activeTimers q)"
      "q' = ?q\<lparr>m_activeTimers := m_activeTimers q', m_timers := m_timers q'\<rparr>" by (auto simp: seq)
    have f: "tq_store q' = (tq_store q)(a \<mapsto> ?tm)" "tq_handed q' = tq_handed q" "tq_loop q' = tq_loop q" "s_numCreated q' = s_numCreated q"
      "is_callingExpiredTimers q' = is_callingExpiredTimers q" "m_cancelingTimers q' = m_cancelingTimers q"
      by (subst q'(5), simp)+
    have "timer_places es q' = timer_places es (q\<lparr>m_timers := insort (m_expiration ?tm, a) (m_timers q)\<rparr>)"
      by (simp add: timer_places_def f q'(3))
    with gone q'(2) TQ_wfD(4,5)[OF wf] tm seq have "TQ_wf es q'"
      by (auto simp: TQ_wf_def places_insort f)
    moreover have "cancels_ok q'"
      by (rule cancels_ok_grow[OF ca, of _ "(a, m_sequence tm)"]) (use True q'(4) f in \<open>auto simp: set_insort_key\<close>)
    ultimately show ?thesis using True tm q'(1) f by (simp add: reset_one_def)
  qed
qed

lemma reset_all_wf:
  assumes "TQ_wf es q" "loop_threadId (tq_loop q) = tid" "cancels_ok q"
  shows "\<exists>q'. for_each (reset_one rnd tid now) es q = Some q' \<and> TQ_wf [] q' \<and> cancels_ok q' \<and> tq_loop q' = tq_loop q
    \<and> m_cancelingTimers q' = m_cancelingTimers q \<and> is_callingExpiredTimers q' = is_callingExpiredTimers q"
  using assms
proof (induction es arbitrary: q)
  case (Cons e es)
  obtain t a where e: "e = (t, a)" by fastforce
  from reset_one_wf[OF Cons.prems[unfolded e], of rnd now] obtain u where
    u: "reset_one rnd tid now e q = Some u" "TQ_wf es u" "cancels_ok u" "tq_loop u = tq_loop q"
      "m_cancelingTimers u = m_cancelingTimers q" "is_callingExpiredTimers u = is_callingExpiredTimers q" by (auto simp: e)
  from Cons.IH[OF u(2) _ u(3)] u Cons.prems(2) show ?case by (auto simp: for_each_fun)
qed simp

lemma getExpired_wf:
  assumes wf: "TQ_wf [] q" and ne: "m_timers q \<noteq> []"
  shows "\<exists>due q1. TimerQueue_getExpired now q = Some (due, q1) \<and> TQ_wf due q1 \<and> tq_loop q1 = tq_loop q"
proof -
  let ?due = "filter (\<lambda>e. fst e \<le> now) (m_timers q)" and ?rest = "filter (\<lambda>e. now < fst e) (m_timers q)"
  from getExpired_ok[OF TQ_wfD(1)[OF wf] ne, of now] obtain act where
    act: "TimerQueue_getExpired now q = Some (?due, q\<lparr>m_timers := ?rest, m_activeTimers := act\<rparr>)"
    "TQ_inv (q\<lparr>m_timers := ?rest, m_activeTimers := act\<rparr>)" by blast
  have inj: "inj_on snd (set (m_timers q))" using TQ_wfD(2)[OF wf] by (simp add: timer_places_def distinct_map)
  have "snd ` set ?rest \<inter> snd ` set ?due = snd ` (set ?rest \<inter> set ?due)"
    by (rule inj_on_image_Int[OF inj, symmetric]) auto
  also have "set ?rest \<inter> set ?due = {}" by auto
  finally have apart: "snd ` set ?rest \<inter> snd ` set ?due = {}" by simp
  have all: "snd ` set (m_timers q) = snd ` set ?rest \<union> snd ` set ?due" unfolding image_Un[symmetric]
    by (rule arg_cong[where f = "image snd"]) auto
  have "distinct (timer_places ?due (q\<lparr>m_timers := ?rest, m_activeTimers := act\<rparr>))"
    "set (timer_places ?due (q\<lparr>m_timers := ?rest, m_activeTimers := act\<rparr>)) = set (timer_places [] q)"
    using TQ_wfD(2)[OF wf] apart all by (auto simp: timer_places_def distinct_map_filter simp del: set_filter)
  with act(2) TQ_wfD(3-)[OF wf] have "TQ_wf ?due (q\<lparr>m_timers := ?rest, m_activeTimers := act\<rparr>)" by (auto simp: TQ_wf_def)
  with act(1) show ?thesis by (intro exI) (auto intro: conjI)
qed

lemma handleRead_wf:
  assumes wf: "TQ_wf [] q" and tid: "loop_threadId (tq_loop q) = tid" and run: "callbacks_ok run" and ne: "m_timers q \<noteq> []"
  shows "\<exists>q'. TimerQueue_handleRead rnd run tid now now' q = Some q' \<and> TQ_wf [] q' \<and> tq_loop q' = tq_loop q
    \<and> \<not> is_callingExpiredTimers q' \<and> set (m_cancelingTimers q') \<inter> set (m_activeTimers q') = {}"
proof -
  from getExpired_wf[OF wf ne, of now] obtain due q1 where
    q1: "TimerQueue_getExpired now q = Some (due, q1)" "TQ_wf due q1" "tq_loop q1 = tq_loop q" by blast
  let ?q1 = "q1\<lparr>is_callingExpiredTimers := True, m_cancelingTimers := []\<rparr>"
  have "TQ_wf due ?q1" "cancels_ok ?q1" using q1(2) by (simp_all add: cancels_ok_def)
  from run_timers_wf[OF run this order.refl] obtain q2 where
    q2: "for_each (run_timer run) due ?q1 = Some q2" "TQ_wf due q2" "cancels_ok q2" "tq_loop q2 = tq_loop q1" by auto
  let ?q2 = "q2\<lparr>is_callingExpiredTimers := False\<rparr>"
  have "TQ_wf due ?q2" "loop_threadId (tq_loop ?q2) = tid" "cancels_ok ?q2" using q1(3) q2 tid by (simp_all add: cancels_ok_def)
  from reset_all_wf[OF this, of rnd now] obtain q3 where
    q3: "for_each (reset_one rnd tid now) due ?q2 = Some q3" "TQ_wf [] q3" "cancels_ok q3" "tq_loop q3 = tq_loop q2"
      "\<not> is_callingExpiredTimers q3" by auto
  obtain next_t where "(case m_timers q3 of [] \<Rightarrow> Some Timestamp_invalid | e # _ \<Rightarrow> map_option m_expiration (tq_store q3 (snd e)))
      = Some next_t"
    using TQ_invD(7)[OF TQ_wfD(1)[OF q3(2)]] by (cases "m_timers q3") force+
  then have "TimerQueue_handleRead rnd run tid now now' q
      = Some (if Timestamp_valid next_t then resetTimerfd now' next_t q3 else q3)"
    using tid q1(1) q2(1) q3(1) by (simp add: TimerQueue_handleRead_def TimerQueue_reset_def)
  then show ?thesis using q1(3) q2(4) q3(2-) by (simp add: resetTimerfd_def cancels_ok_def)
qed

lemma destroy_wf:
  assumes "\<forall>e \<in> set es. tq_store q (snd e) \<noteq> None" "distinct (map snd es)"
  shows "\<exists>q'. for_each delete_timer es q = Some q' \<and> dom (tq_store q') = dom (tq_store q) - snd ` set es"
  using assms
proof (induction es arbitrary: q)
  case (Cons e es)
  let ?q = "q\<lparr>tq_store := (tq_store q)(snd e := None)\<rparr>"
  have "\<exists>q'. for_each delete_timer es ?q = Some q' \<and> dom (tq_store q') = dom (tq_store ?q) - snd ` set es"
    using Cons.prems by (intro Cons.IH) (auto simp: image_iff)
  moreover have "delete_timer e q = Some ?q" using Cons.prems(1) by (simp add: delete_timer_def)
  ultimately show ?case by auto
qed simp

subsection \<open>Histories\<close>

inductive timer_step :: "int \<Rightarrow> 'cb timer_queue \<Rightarrow> 'cb timer_queue \<Rightarrow> bool" for tid where
  call: "timer_call tid' q q' \<Longrightarrow> timer_step tid q q'"
| handed: "tq_handed q = f # fs \<Longrightarrow> timer_functor_run tid now f (q\<lparr>tq_handed := fs\<rparr>) = Some q' \<Longrightarrow> timer_step tid q q'"
| event: "callbacks_ok run \<Longrightarrow> m_timers q \<noteq> [] \<Longrightarrow> TimerQueue_handleRead rnd run tid now now' q = Some q' \<Longrightarrow> timer_step tid q q'"

lemma timer_step_wf:
  assumes "timer_step tid q q'" "TQ_wf [] q \<and> loop_threadId (tq_loop q) = tid \<and> \<not> is_callingExpiredTimers q"
  shows "TQ_wf [] q' \<and> loop_threadId (tq_loop q') = tid \<and> \<not> is_callingExpiredTimers q'"
  using assms(1)
proof cases
  case (call tid')
  then show ?thesis using timer_call_wf assms(2) by metis
next
  case (handed f fs now)
  then show ?thesis using functor_wf[of q tid f fs now] assms(2) by auto
next
  case (event run rnd now now')
  then show ?thesis using handleRead_wf[of q tid run rnd now now'] assms(2) by auto
qed

lemma timer_history_wf:
  assumes "(timer_step (loop_threadId loop))\<^sup>*\<^sup>* q0 q" "TimerQueue_new fd loop = Some q0"
  shows "TQ_wf [] q \<and> loop_threadId (tq_loop q) = loop_threadId loop \<and> \<not> is_callingExpiredTimers q"
  using assms(1)
proof (induction rule: rtranclp_induct)
  case base
  from assms(2) show ?case
    by (auto simp: TimerQueue_new_def createTimerfd_def TQ_wf_def TQ_inv_def timer_places_def split: if_splits)
next
  case (step q q')
  then show ?case using timer_step_wf by blast
qed

subsection \<open>Properties\<close>

text \<open>C11: The timers of a queue. After any history of timers handed over by \<open>addTimer\<close> and of calls of
  \<open>cancel\<close> on any threads, functors called by the loop and timer events with callbacks that add and
  cancel timers, the state is well formed: both sets agree, every allocated timer waits in exactly one
  place, the queue or a functor on its way, and no place refers to a deleted timer. The next hand-over,
  \<open>cancel\<close>, functor or event cannot abort or touch a deleted timer, unless the event finds the queue
  empty; nor can the whole of \<open>addTimer\<close>, which ends by reading the sequence number of the timer, on the
  thread of the loop. (On another thread that read is not covered: the loop may have deleted the timer
  by then, see \<open>TimerQueue_addTimer_races\<close>.) After an event no timer cancelled during it is queued; and
  the destructor deletes everything but the timers whose functor never ran.\<close>

theorem TimerQueue_timers_owned:
  assumes new: "TimerQueue_new fd loop = Some q0" and reach: "(timer_step (loop_threadId loop))\<^sup>*\<^sup>* q0 q"
  shows "TQ_wf [] q
    \<and> (\<forall>tid now a cb when interval. tq_store q a = None \<and> a < UINTPTR_MAX \<longrightarrow>
         TimerQueue_addTimer_hand tid now a cb when interval q \<noteq> None
       \<and> TimerQueue_addTimer (loop_threadId loop) now a cb when interval q \<noteq> None)
    \<and> (\<forall>tid timerId. TimerQueue_cancel tid timerId q \<noteq> None)
    \<and> (\<forall>now f fs. tq_handed q = f # fs \<longrightarrow> timer_functor_run (loop_threadId loop) now f (q\<lparr>tq_handed := fs\<rparr>) \<noteq> None)
    \<and> (\<forall>rnd run now now'. callbacks_ok run \<and> m_timers q \<noteq> [] \<longrightarrow>
         (\<exists>q'. TimerQueue_handleRead rnd run (loop_threadId loop) now now' q = Some q'
            \<and> set (m_cancelingTimers q') \<inter> set (m_activeTimers q') = {}))
    \<and> (\<exists>q'. TimerQueue_destroy q = Some q' \<and> dom (tq_store q') = set (concat (map handed_timer (tq_handed q))))"
proof -
  from timer_history_wf[OF reach new] have wf: "TQ_wf [] q" and tid: "loop_threadId (tq_loop q) = loop_threadId loop" by simp_all
  have "TimerQueue_cancel t timerId q \<noteq> None" for t timerId
    using cancelInLoop_wf[OF wf, of t timerId] by (auto simp: TimerQueue_cancel_def)
  moreover have "\<exists>q'. TimerQueue_destroy q = Some q' \<and> dom (tq_store q') = set (concat (map handed_timer (tq_handed q)))"
  proof -
    have "\<forall>e \<in> set (m_timers q). tq_store q (snd e) \<noteq> None" using TQ_invD(7)[OF TQ_wfD(1)[OF wf]] by force
    note del = destroy_wf[OF this TQ_invD(2)[OF TQ_wfD(1)[OF wf]]]
    have "dom (tq_store q) = snd ` set (m_timers q) \<union> set (concat (map handed_timer (tq_handed q)))"
      "snd ` set (m_timers q) \<inter> set (concat (map handed_timer (tq_handed q))) = {}"
      using TQ_wfD(2,3)[OF wf] by (simp_all add: timer_places_def)
    then have "dom (tq_store q) - snd ` set (m_timers q) = set (concat (map handed_timer (tq_handed q)))" by blast
    with del show ?thesis by (simp only: TimerQueue_destroy_def)
  qed
  moreover have "TimerQueue_addTimer_hand t now a cb when interval q \<noteq> None
      \<and> TimerQueue_addTimer (loop_threadId loop) now a cb when interval q \<noteq> None"
    if "tq_store q a = None" "a < UINTPTR_MAX" for t now a cb "when" interval
    using addTimer_wf[OF wf that, of t now cb "when" interval] addTimer_wf[OF wf that, of "loop_threadId loop" now cb "when" interval]
    by (auto simp: TimerQueue_addTimer_def)
  moreover have "timer_functor_run (loop_threadId loop) now f (q\<lparr>tq_handed := fs\<rparr>) \<noteq> None" if "tq_handed q = f # fs" for now f fs
    using functor_wf[OF wf tid that] by (metis option.distinct(1))
  ultimately show ?thesis using wf handleRead_wf[OF wf tid] by (metis (no_types, lifting))
qed

text \<open>A callback that cancels the timer with a given id.\<close>

definition cancel_run :: "int \<Rightarrow> timer_id \<Rightarrow> 'cb \<Rightarrow> 'cb timer_queue \<Rightarrow> 'cb timer_queue outcome" where
  "cancel_run tid timerId cb q = (if ti_sequence timerId \<le> s_numCreated q then TimerQueue_cancel tid timerId q else Some q)"

lemma cancel_run_ok: "callbacks_ok (cancel_run tid timerId)"
  unfolding callbacks_ok_def
proof (intro allI impI)
  fix cb :: 'cb and q :: "'cb timer_queue" and es
  assume wf: "TQ_wf es q"
  have "\<exists>q'. TimerQueue_cancel tid timerId q = Some q'"
    using cancelInLoop_wf[OF wf, of tid timerId] by (auto simp: TimerQueue_cancel_def)
  then show "\<exists>q'. cancel_run tid timerId cb q = Some q' \<and> (\<lambda>q q'. \<exists>tid. timer_call tid q q')\<^sup>*\<^sup>* q q'"
    by (auto simp: cancel_run_def intro!: r_into_rtranclp intro: timer_call.cancel)
qed

theorem TimerQueue_timers_owned_witness:
  "\<exists>q0 q1 q2. TimerQueue_new 5 \<lparr>loop_addr = 1, loop_threadId = 7\<rparr> = Some (q0 :: nat timer_queue)
     \<and> TimerQueue_addTimer 7 (Timestamp 10) 16 99 (Timestamp 3000) 1 q0 = Some (\<lparr>ti_timer = 16, ti_sequence = 1\<rparr>, q1)
     \<and> TimerQueue_handleRead id (cancel_run 7 \<lparr>ti_timer = 16, ti_sequence = 1\<rparr>) 7 (Timestamp 4000) (Timestamp 4100) q1 = Some q2
     \<and> set (m_cancelingTimers q2) \<inter> set (m_activeTimers q2) = {} \<and> TQ_wf [] q1"
proof -
  let ?loop = "\<lparr>loop_addr = 1, loop_threadId = 7\<rparr>" let ?id = "\<lparr>ti_timer = 16, ti_sequence = 1\<rparr>"
  obtain q0 :: "nat timer_queue" where q0: "TimerQueue_new 5 ?loop = Some q0"
    by (simp add: TimerQueue_new_def createTimerfd_def)
  then have f0: "tq_store q0 = Map.empty" "s_numCreated q0 = 0" "tq_loop q0 = ?loop" "m_timers q0 = []"
    by (auto simp: TimerQueue_new_def createTimerfd_def)
  have wf0: "TQ_wf [] q0" using timer_history_wf[OF rtranclp.rtrancl_refl q0] by simp
  have "TQ_inv q0" "loop_threadId (tq_loop q0) = 7" "(16 :: nat) < UINTPTR_MAX" "tq_store q0 16 = None"
    using TQ_wfD(1)[OF wf0] f0 by (simp_all add: UINTPTR_MAX_def)
  from addTimer_ok[OF this, of "Timestamp 10" 99 "Timestamp 3000" 1] f0 obtain q1 where
    q1: "TimerQueue_addTimer 7 (Timestamp 10) 16 99 (Timestamp 3000) 1 q0 = Some (?id, q1)" "m_timers q1 \<noteq> []" by auto
  then have "TimerQueue_addTimer_hand 7 (Timestamp 10) 16 99 (Timestamp 3000) 1 q0 = Some q1"
    by (auto simp: TimerQueue_addTimer_def split: bind_splits)
  then have "timer_call 7 q0 q1" by (intro timer_call.add) (simp_all add: f0 UINTPTR_MAX_def)
  then have reach: "(timer_step (loop_threadId ?loop))\<^sup>*\<^sup>* q0 q1" by (intro r_into_rtranclp timer_step.call)
  note all = TimerQueue_timers_owned[OF q0 reach]
  have "\<exists>q2. TimerQueue_handleRead id (cancel_run 7 ?id) (loop_threadId ?loop) (Timestamp 4000) (Timestamp 4100) q1 = Some q2
      \<and> set (m_cancelingTimers q2) \<inter> set (m_activeTimers q2) = {}"
    using all cancel_run_ok[of 7 ?id] q1(2) by blast
  with q0 q1 all show ?thesis by auto
qed

text \<open>
  A timer added from another thread is on its way to the loop when the thread of the loop cancels it:
  \<open>cancel\<close> finds no timer and does nothing, and the timer is queued afterwards all the same.
\<close>

lemma TimerQueue_cancel_overtakes:
  assumes wf: "TQ_wf [] q" and idle: "\<not> is_callingExpiredTimers q" "tq_handed q = []" and new: "tq_store q a = None" "a < UINTPTR_MAX"
    and tids: "loop_threadId (tq_loop q) = tid" "other \<noteq> tid"
  shows "\<exists>timerId q1 q2. TimerQueue_addTimer other now a cb when interval q = Some (timerId, q1)
    \<and> TimerQueue_cancel tid timerId q1 = Some q1
    \<and> timer_functor_run tid now (hd (tq_handed q1)) (q1\<lparr>tq_handed := []\<rparr>) = Some q2 \<and> (when, a) \<in> set (m_timers q2)"
proof -
  let ?id = "\<lparr>ti_timer = a, ti_sequence = s_numCreated q + 1\<rparr>"
  let ?q = "q\<lparr>s_numCreated := s_numCreated q + 1, tq_store := (tq_store q)(a \<mapsto> Timer_new (s_numCreated q + 1) cb when interval)\<rparr>"
  let ?q1 = "?q\<lparr>tq_handed := [Fn_addTimerInLoop a]\<rparr>"
  note inv = TQ_wfD(1)[OF wf]
  have na: "a \<notin> snd ` set (m_timers q)" using TQ_inv_unqueued[OF inv new(1)] .
  have "TQ_inv (?q\<lparr>tq_handed := []\<rparr>)" unfolding TQ_inv_other using inv na by (intro TQ_inv_store) auto
  from addTimerInLoop_ok[OF this, of tid a "Timer_new (s_numCreated q + 1) cb when interval" now] tids na new(2) obtain q2 where
    "TimerQueue_addTimerInLoop tid now a (?q\<lparr>tq_handed := []\<rparr>) = Some q2" "m_timers q2 = insort (when, a) (m_timers q)"
    by (auto simp: Timer_new_def)
  moreover have "(a, s_numCreated q + 1) \<notin> set (m_activeTimers q)"
    using na by (force simp: TQ_invD(5)[OF inv] timer_key_def)
  then have "TimerQueue_cancel tid ?id ?q1 = Some ?q1"
    using tids(1) idle(1) TQ_inv_length[OF inv] by (simp add: TimerQueue_cancel_def TimerQueue_cancelInLoop_def Let_def)
  moreover have "TimerQueue_addTimer other now a cb when interval q = Some (?id, ?q1)"
    using tids idle(2)
    by (simp add: TimerQueue_addTimer_def TimerQueue_addTimer_hand_def TimerQueue_addTimer_id_def Let_def Timer_new_def)
  ultimately show ?thesis
    by (intro exI[of _ ?id] exI[of _ ?q1] exI[of _ q2]) (simp add: timer_functor_run_def set_insort_key)
qed

text \<open>
  The race of \<open>addTimer\<close> on another thread: the one-shot timer is handed over, the loop queues it, it
  expires and is deleted, and then \<open>addTimer\<close> reads its sequence number.
\<close>

lemma TimerQueue_addTimer_races:
  "\<exists>q0 q1 q2 q3. TimerQueue_new 5 \<lparr>loop_addr = 1, loop_threadId = 7\<rparr> = Some (q0 :: nat timer_queue)
     \<and> TimerQueue_addTimer_hand 8 (Timestamp 10) 16 99 (Timestamp 3000) 0 q0 = Some q1
     \<and> timer_functor_run 7 (Timestamp 20) (hd (tq_handed q1)) (q1\<lparr>tq_handed := []\<rparr>) = Some q2
     \<and> TimerQueue_handleRead id (\<lambda>_ q. Some q) 7 (Timestamp 4000) (Timestamp 4100) q2 = Some q3
     \<and> TimerQueue_addTimer_id 16 q3 = None"
  by (simp add: TimerQueue_new_def createTimerfd_def TimerQueue_addTimer_hand_def timer_functor_run_def
      TimerQueue_addTimerInLoop_def TimerQueue_insert_def set_insert_def Timer_new_def resetTimerfd_def
      TimerQueue_handleRead_def TimerQueue_getExpired_def set_lower_bound_def expired_erase_def set_erase_def
      run_timer_def TimerQueue_reset_def reset_one_def TimerQueue_addTimer_id_def UINTPTR_MAX_def Let_def
      less_timestamp_def less_eq_timestamp_def)

end
