(* ===== verification/LoopLife.thy ===== *)
theory LoopLife
  imports EventLoopProps TimerHistory
begin

text \<open>
  The whole life of an \<open>EventLoop\<close> with its \<open>TimerQueue\<close> (\<open>net/eventLoop.cc\<close>, \<open>net/timerQueue.cc\<close>): the
  constructors register two channels with the poller that is just being set up, the destructors take
  them out again in the reverse order of the members. The thread-local pointer to the loop of a
  thread is an argument and a result.
\<close>

subsection \<open>Construction and destruction\<close>

text \<open>The channel of the timer descriptor, in the constructor and the destructor of \<open>TimerQueue\<close>.\<close>

definition TimerQueue_attach :: "int \<Rightarrow> int \<Rightarrow> nat \<Rightarrow> 'cb \<Rightarrow> ('cb, 'z) reactor_scheme \<Rightarrow> ('cb, 'z) reactor_scheme outcome" where
  "TimerQueue_attach tid timerfd tc read_cb r =
     Channel_enableReading tid tc (chan_upd tc (\<lambda>_. Channel_setReadCallback read_cb (Channel_new (r_loop r) timerfd)) r)"

definition TimerQueue_detach :: "int \<Rightarrow> nat \<Rightarrow> ('cb, 'z) reactor_scheme \<Rightarrow> ('cb, 'z) reactor_scheme outcome" where
  "TimerQueue_detach tid tc r = Channel_disableAll tid tc r \<bind> Channel_remove tid tc"

definition getEventLoopOfCurrentThread :: "loop_ref option \<Rightarrow> loop_ref option" where
  "getEventLoopOfCurrentThread t_loop = t_loop"

text \<open>
  \<open>this\<close> is the loop being made, on the thread \<open>loop_threadId this\<close>; \<open>tc\<close> and \<open>wc\<close> are the addresses of the
  two channels. The members are initialised in the order of their declaration.
\<close>

definition EventLoop_construct :: "loop_ref option \<Rightarrow> bool \<Rightarrow> int \<Rightarrow> int \<Rightarrow> int \<Rightarrow> nat \<Rightarrow> nat \<Rightarrow> 'cb \<Rightarrow> 'cb \<Rightarrow>
    'cb chans \<Rightarrow> loop_ref \<Rightarrow> ('cb reactor \<times> 'cb timer_queue \<times> loop_ref option) outcome" where
  "EventLoop_construct t_loop use_poll epollfd timerfd evtfd tc wc timer_cb read_cb chs this = do {
     p \<leftarrow> Poller_newDefaultPoller use_poll epollfd this;
     let r = \<lparr>r_loop = this, is_looping = False, is_quit = False, el_eventHandling = False,
              is_callingPendingFunctors = False, m_iteration = 0, m_pollReturnTime = Timestamp_invalid,
              m_poller = p, r_chans = chs, m_wakeupFd = 0, m_wakeupChannel = wc, m_activeChannels = [],
              m_currentActiveChannel = None, m_pendingFunctors = [], wakeup_count = 0\<rparr>;
     q \<leftarrow> TimerQueue_new timerfd this;
     r \<leftarrow> TimerQueue_attach (loop_threadId this) timerfd tc timer_cb r;
     fd \<leftarrow> createEventfd evtfd;
     let r = chan_upd wc (\<lambda>_. Channel_new this fd) (r\<lparr>m_wakeupFd := fd\<rparr>);
     assert_that (t_loop = None);
     r \<leftarrow> Channel_enableReading (loop_threadId this) wc (chan_upd wc (Channel_setReadCallback read_cb) r);
     Some (r, q, Some this)
   }"

text \<open>The destructor of the loop, then those of \<open>m_wakeupChannel\<close> and \<open>m_timerQueue\<close> with its channel.\<close>

definition EventLoop_destruct :: "int \<Rightarrow> nat \<Rightarrow> ('cb, 'z) reactor_scheme \<times> 'cb timer_queue \<Rightarrow>
    (('cb, 'z) reactor_scheme \<times> 'cb timer_queue \<times> loop_ref option) outcome" where
  "EventLoop_destruct tid tc s = (case s of (r, q) \<Rightarrow> do {
     r \<leftarrow> EventLoop_destroy tid r;
     Channel_destroy tid (m_wakeupChannel r) r;
     r \<leftarrow> TimerQueue_detach tid tc r;
     q \<leftarrow> TimerQueue_destroy q;
     Channel_destroy tid tc r;
     Some (r, q, None)
   })"

subsection \<open>Registering a new channel\<close>

lemma only_index_flags:
  assumes "only_index chs chs'"
  shows "ch_eventHandling (chs' c) = ch_eventHandling (chs c)" "is_addedToLoop (chs' c) = is_addedToLoop (chs c)"
  using assms unfolding only_index_def by (metis (no_types, lifting) channel.select_convs channel.surjective channel.update_convs)+

text \<open>A channel object that was just made, at an address the poller does not know, starts to read.\<close>

lemma new_channel_reads:
  assumes ok: "reactor_ok tid r" and fd: "0 \<le> fd" "Poller_channels (m_poller r) fd = None"
    and c: "c \<notin> ran (Poller_channels (m_poller r))" "r_chans r c = Channel_setReadCallback cb (Channel_new (r_loop r) fd)"
  shows "\<exists>r'. Channel_enableReading tid c r = Some r' \<and> reactor_ok tid r' \<and> chan_registered c r' \<and> chan_of_loop c r'
    \<and> Poller_channels (m_poller r') = (Poller_channels (m_poller r))(fd \<mapsto> c)
    \<and> Poller_watched (m_poller r') = (Poller_watched (m_poller r))(fd := kReadEvent)
    \<and> \<not> ch_eventHandling (r_chans r' c) \<and> ch_fd (r_chans r' c) = fd \<and> (\<forall>d. d \<noteq> c \<longrightarrow> r_chans r' d = r_chans r d)
    \<and> r_loop r' = r_loop r \<and> el_eventHandling r' = el_eventHandling r \<and> m_wakeupChannel r' = m_wakeupChannel r"
proof -
  have ch: "ch_fd (r_chans r c) = fd" "ch_events (r_chans r c) = 0" "ch_index (r_chans r c) = -1" "ch_loop (r_chans r c) = r_loop r"
    "\<not> ch_eventHandling (r_chans r c)"
    using c(2) by (simp_all add: Channel_setReadCallback_def Channel_new_def)
  have ev: "events_enableReading 0 = kReadEvent" by (simp add: events_enableReading_def)
  have cl: "chan_of_loop c r" using ch fd(1) by (simp add: chan_of_loop_def)
  have m: "interest_mask (events_enableReading (ch_events (r_chans r c)))" using cl by (simp add: chan_of_loop_def)
  have "chan_fresh c r \<and> events_enableReading (ch_events (r_chans r c)) \<noteq> 0"
    using ch fd(2) by (simp add: chan_fresh_def ev event_masks)
  from Channel_update_events[where f = events_enableReading, OF ok cl m disjI2[OF this]] obtain r' where r': "Channel_enableReading tid c r = Some r'" "reactor_ok tid r'" "chan_registered c r'" "chan_of_loop c r'"
    "Poller_channels (m_poller r') = (Poller_channels (m_poller r))(fd \<mapsto> c)"
    "Poller_watched (m_poller r') = (Poller_watched (m_poller r))(fd := kReadEvent)"
    "\<exists>i chs p. chs c = (r_chans r c)\<lparr>ch_events := kReadEvent, ch_index := i, is_addedToLoop := True\<rparr>
        \<and> (\<forall>d. d \<noteq> c \<longrightarrow> chs d = r_chans r d) \<and> r' = r\<lparr>r_chans := chs, m_poller := p\<rparr>"
    unfolding Channel_enableReading_def ch ev by blast
  from r'(7) ch have "\<not> ch_eventHandling (r_chans r' c)" "ch_fd (r_chans r' c) = fd" "\<forall>d. d \<noteq> c \<longrightarrow> r_chans r' d = r_chans r d"
    "r_loop r' = r_loop r" "el_eventHandling r' = el_eventHandling r" "m_wakeupChannel r' = m_wakeupChannel r"
    by auto
  with r' show ?thesis by blast
qed

text \<open>A channel that is not in use is taken out of the poller, and its destructor finds nothing wrong.\<close>

lemma channel_retires:
  assumes ok: "reactor_ok tid r" and c: "chan_of_loop c r" "chan_registered c r"
    and idle: "\<not> el_eventHandling r" "\<not> ch_eventHandling (r_chans r c)"
  shows "\<exists>r'. Channel_disableAll tid c r \<bind> Channel_remove tid c = Some r' \<and> reactor_ok tid r' \<and> Channel_destroy tid c r' = Some ()
    \<and> Poller_channels (m_poller r') = (Poller_channels (m_poller r))(ch_fd (r_chans r c) := None)
    \<and> r_loop r' = r_loop r \<and> el_eventHandling r' = el_eventHandling r \<and> m_wakeupChannel r' = m_wakeupChannel r
    \<and> (\<forall>d. d \<noteq> c \<longrightarrow> ch_loop (r_chans r' d) = ch_loop (r_chans r d) \<and> ch_fd (r_chans r' d) = ch_fd (r_chans r d)
         \<and> ch_events (r_chans r' d) = ch_events (r_chans r d) \<and> ch_eventHandling (r_chans r' d) = ch_eventHandling (r_chans r d))"
proof -
  have m: "interest_mask (kNoneEvent)" by (simp add: interest_mask_def event_masks)
  from Channel_update_events[where f = "\<lambda>_. kNoneEvent", OF ok c(1) m disjI1[OF c(2)]] obtain r1 where
    r1: "Channel_disableAll tid c r = Some r1" "reactor_ok tid r1" "chan_registered c r1" "chan_of_loop c r1"
    "Poller_channels (m_poller r1) = (Poller_channels (m_poller r))(ch_fd (r_chans r c) \<mapsto> c)"
    "\<exists>i chs p. chs c = (r_chans r c)\<lparr>ch_events := kNoneEvent, ch_index := i, is_addedToLoop := True\<rparr>
        \<and> (\<forall>d. d \<noteq> c \<longrightarrow> chs d = r_chans r d) \<and> r1 = r\<lparr>r_chans := chs, m_poller := p\<rparr>"
    unfolding Channel_disableAll_def by blast
  then have f1: "ch_events (r_chans r1 c) = 0" "el_eventHandling r1 = el_eventHandling r" "ch_fd (r_chans r1 c) = ch_fd (r_chans r c)"
    "\<not> ch_eventHandling (r_chans r1 c)" "\<And>d. d \<noteq> c \<Longrightarrow> r_chans r1 d = r_chans r d"
    using idle(2) by (auto simp: kNoneEvent_def)
  from Channel_remove_effect[OF r1(2,4,3) f1(1)] idle(1) f1(2) obtain r2 chs p where
    r2: "Channel_remove tid c r1 = Some r2" "reactor_ok tid r2"
    "Poller_channels (m_poller r2) = (Poller_channels (m_poller r1))(ch_fd (r_chans r1 c) := None)"
    "only_index ((r_chans r1)(c := (r_chans r1 c)\<lparr>is_addedToLoop := False\<rparr>)) chs" "r2 = r1\<lparr>r_chans := chs, m_poller := p\<rparr>" by auto
  note o = only_index_fields[OF r2(4)] only_index_flags[OF r2(4)]
  have "Channel_destroy tid c r2 = Some ()"
    using r2(2,3) o[of c] f1 r1(4)
    by (simp add: Channel_destroy_def EventLoop_hasChannel_def EventLoop_assertInLoopThread_def EventLoop_isInLoopThread_def
        Poller_hasChannel_def reactor_ok_def chan_of_loop_def in_loop_thread_def r2(5))
  moreover have "r_loop r2 = r_loop r" "el_eventHandling r2 = el_eventHandling r" "m_wakeupChannel r2 = m_wakeupChannel r"
    using r1(6) r2(5) by auto
  ultimately show ?thesis using r1(1,5) r2(1-3,5) f1(3,5) o by (intro exI[of _ r2]) auto
qed

lemma chan_upd_wakeup: "m_wakeupChannel (chan_upd c f r) = m_wakeupChannel r"
  by (simp add: chan_upd_def)

lemma Channel_disableAll_wakeup: "Channel_disableAll tid c r = Some r' \<Longrightarrow> m_wakeupChannel r' = m_wakeupChannel r"
  by (auto simp: Channel_disableAll_def Channel_update_def EventLoop_updateChannel_def chan_upd_wakeup split: bind_splits)

lemma EventLoop_destroy_eq: "EventLoop_destroy tid r = Channel_disableAll tid (m_wakeupChannel r) r \<bind> Channel_remove tid (m_wakeupChannel r)"
  by (cases "Channel_disableAll tid (m_wakeupChannel r) r") (simp_all add: EventLoop_destroy_def Channel_disableAll_wakeup)

lemma reactor_ok_chan:
  assumes "reactor_ok tid r" "c \<notin> ran (Poller_channels (m_poller r))"
  shows "reactor_ok tid (chan_upd c f r)"
  using assms any_p.inv_untracked[of "r_chans r" "m_poller r" c "f (r_chans r c)"]
  by (auto simp: reactor_ok_def ran_def)

subsection \<open>The whole life\<close>

text \<open>A loop that handles no event, with both channels registered.\<close>

definition loop_quiet :: "int \<Rightarrow> nat \<Rightarrow> nat \<Rightarrow> ('cb, 'z) reactor_scheme \<Rightarrow> bool" where
  "loop_quiet tid tc wc r =
     (reactor_ok tid r \<and> \<not> el_eventHandling r \<and> m_wakeupChannel r = wc \<and> ch_fd (r_chans r tc) \<noteq> ch_fd (r_chans r wc)
    \<and> (\<forall>c \<in> {tc, wc}. chan_of_loop c r \<and> chan_registered c r \<and> \<not> ch_eventHandling (r_chans r c)))"

lemma EventLoop_construct_ok:
  fixes chs :: "'cb chans"
  assumes fds: "0 \<le> epollfd" "0 \<le> timerfd" "0 \<le> evtfd" "timerfd \<noteq> evtfd" "tc \<noteq> wc"
  shows "\<exists>r q. EventLoop_construct None use_poll epollfd timerfd evtfd tc wc timer_cb read_cb chs this = Some (r, q, Some this)
    \<and> loop_quiet (loop_threadId this) tc wc r \<and> TimerQueue_new timerfd this = Some q
    \<and> Poller_channels (m_poller r) = [timerfd \<mapsto> tc, evtfd \<mapsto> wc]
    \<and> Poller_watched (m_poller r) timerfd = kReadEvent \<and> Poller_watched (m_poller r) evtfd = kReadEvent"
proof -
  let ?tid = "loop_threadId this"
  obtain p where p: "Poller_newDefaultPoller use_poll epollfd this = Some p"
    and empty: "Poller_channels p = Map.empty" "Poller_ownerLoop p = this" "\<And>x :: 'cb chans. Poller_inv (x, p)"
    using newDefaultPoller_ok[OF fds(1), of use_poll this] by auto
  define r0 where "r0 = \<lparr>r_loop = this, is_looping = False, is_quit = False, el_eventHandling = False,
              is_callingPendingFunctors = False, m_iteration = 0, m_pollReturnTime = Timestamp_invalid,
              m_poller = p, r_chans = chs, m_wakeupFd = 0, m_wakeupChannel = wc, m_activeChannels = [],
              m_currentActiveChannel = None, m_pendingFunctors = [], wakeup_count = 0\<rparr>"
  have r0: "reactor_ok ?tid r0" "Poller_channels (m_poller r0) = Map.empty" "r_loop r0 = this" "\<not> el_eventHandling r0" "m_wakeupChannel r0 = wc"
    using empty by (simp_all add: r0_def reactor_ok_def)
  define ra where "ra = chan_upd tc (\<lambda>_. Channel_setReadCallback timer_cb (Channel_new this timerfd)) r0"
  have ra: "reactor_ok ?tid ra" "Poller_channels (m_poller ra) = Map.empty" "r_loop ra = this" "\<not> el_eventHandling ra" "m_wakeupChannel ra = wc"
    "r_chans ra tc = Channel_setReadCallback timer_cb (Channel_new (r_loop ra) timerfd)"
    unfolding ra_def using r0 by (simp_all add: reactor_ok_chan chan_upd_wakeup)
  obtain r1 where r1: "Channel_enableReading ?tid tc ra = Some r1" "reactor_ok ?tid r1" "chan_registered tc r1" "chan_of_loop tc r1"
      "Poller_channels (m_poller r1) = [timerfd \<mapsto> tc]" "Poller_watched (m_poller r1) = (Poller_watched (m_poller ra))(timerfd := kReadEvent)"
      "\<not> ch_eventHandling (r_chans r1 tc)" "ch_fd (r_chans r1 tc) = timerfd"
      "r_loop r1 = this" "\<not> el_eventHandling r1" "m_wakeupChannel r1 = wc"
    using new_channel_reads[OF ra(1) fds(2) _ _ ra(6), unfolded ra(2)] ra(3-5) by auto
  define rb where "rb = chan_upd wc (Channel_setReadCallback read_cb) (chan_upd wc (\<lambda>_. Channel_new this evtfd) (r1\<lparr>m_wakeupFd := evtfd\<rparr>))"
  have nr: "wc \<notin> ran (Poller_channels (m_poller r1))" using r1(5) fds(5) by simp
  have "reactor_ok ?tid (r1\<lparr>m_wakeupFd := evtfd\<rparr>)" using r1(2) by (simp add: reactor_ok_def)
  then have rb: "reactor_ok ?tid rb" "m_poller rb = m_poller r1" "r_loop rb = this" "\<not> el_eventHandling rb" "m_wakeupChannel rb = wc"
    "r_chans rb wc = Channel_setReadCallback read_cb (Channel_new (r_loop rb) evtfd)" "r_chans rb tc = r_chans r1 tc"
    unfolding rb_def using r1(9-11) nr fds(5) by (simp_all add: reactor_ok_chan chan_upd_wakeup)
  obtain r2 where r2: "Channel_enableReading ?tid wc rb = Some r2" "reactor_ok ?tid r2" "chan_registered wc r2" "chan_of_loop wc r2"
      "Poller_channels (m_poller r2) = [timerfd \<mapsto> tc, evtfd \<mapsto> wc]"
      "Poller_watched (m_poller r2) = (Poller_watched (m_poller r1))(evtfd := kReadEvent)"
      "\<not> ch_eventHandling (r_chans r2 wc)" "ch_fd (r_chans r2 wc) = evtfd" "r_chans r2 tc = r_chans rb tc"
      and f2: "r_loop r2 = this" "\<not> el_eventHandling r2" "m_wakeupChannel r2 = wc"
    using new_channel_reads[OF rb(1) fds(3) _ _ rb(6), unfolded rb(2) r1(5)] rb(3-5) fds(4,5) by auto
  have "loop_quiet ?tid tc wc r2"
    using r1(4,7-9) r2(2-5,7-9) rb(7) f2 fds(4)
    by (simp add: loop_quiet_def chan_of_loop_def chan_registered_def)
  moreover obtain q :: "'cb timer_queue" where "TimerQueue_new timerfd this = Some q"
    using fds(2) by (simp add: TimerQueue_new_def createTimerfd_def)
  moreover from this have "EventLoop_construct None use_poll epollfd timerfd evtfd tc wc timer_cb read_cb chs this = Some (r2, q, Some this)"
    using p r1(1) r2(1) fds(3) r0(3)
    by (simp add: EventLoop_construct_def r0_def[symmetric] TimerQueue_attach_def ra_def[symmetric] rb_def[symmetric] createEventfd_def Let_def)
  ultimately show ?thesis using r2(5,6) r1(6) fds(4) by auto
qed

lemma EventLoop_destruct_ok:
  assumes quiet: "loop_quiet tid tc wc r" and q: "TQ_wf [] q" and ne: "tc \<noteq> wc"
  shows "\<exists>r' q'. EventLoop_destruct tid tc (r, q) = Some (r', q', None)
    \<and> Poller_channels (m_poller r') = (Poller_channels (m_poller r))(ch_fd (r_chans r wc) := None, ch_fd (r_chans r tc) := None)"
proof -
  note Q = quiet[unfolded loop_quiet_def, simplified]
  from channel_retires[of tid r wc] Q obtain r1 where
    r1: "EventLoop_destroy tid r = Some r1" "reactor_ok tid r1" "Channel_destroy tid wc r1 = Some ()"
      "Poller_channels (m_poller r1) = (Poller_channels (m_poller r))(ch_fd (r_chans r wc) := None)"
      "r_loop r1 = r_loop r" "el_eventHandling r1 = el_eventHandling r" "m_wakeupChannel r1 = m_wakeupChannel r"
      "ch_loop (r_chans r1 tc) = ch_loop (r_chans r tc)" "ch_fd (r_chans r1 tc) = ch_fd (r_chans r tc)"
      "ch_events (r_chans r1 tc) = ch_events (r_chans r tc)" "ch_eventHandling (r_chans r1 tc) = ch_eventHandling (r_chans r tc)"
    using ne unfolding EventLoop_destroy_eq by auto
  have "chan_of_loop tc r1" "chan_registered tc r1" "\<not> el_eventHandling r1" "\<not> ch_eventHandling (r_chans r1 tc)" "m_wakeupChannel r1 = wc"
    using Q r1(4-) by (simp_all add: chan_of_loop_def chan_registered_def)
  with channel_retires[OF r1(2), of tc] obtain r2 where
    r2: "TimerQueue_detach tid tc r1 = Some r2" "Channel_destroy tid tc r2 = Some ()"
      "Poller_channels (m_poller r2) = (Poller_channels (m_poller r1))(ch_fd (r_chans r1 tc) := None)" "m_wakeupChannel r1 = wc"
    by (auto simp: TimerQueue_detach_def)
  have "\<forall>e \<in> set (m_timers q). tq_store q (snd e) \<noteq> None" using TQ_invD(7)[OF TQ_wfD(1)[OF q]] by force
  from destroy_wf[OF this TQ_invD(2)[OF TQ_wfD(1)[OF q]]] obtain q' where "TimerQueue_destroy q = Some q'"
    by (auto simp: TimerQueue_destroy_def)
  then show ?thesis using r1 r2 by (simp add: EventLoop_destruct_def)
qed

lemma EventLoop_destruct_thread:
  assumes "reactor_ok tid r" "tid' \<noteq> tid"
  shows "EventLoop_destruct tid' tc (r, q) = None"
  using assms by (simp add: EventLoop_destruct_def EventLoop_destroy_def Channel_disableAll_def Channel_update_def
      EventLoop_updateChannel_def EventLoop_assertInLoopThread_def EventLoop_isInLoopThread_def reactor_ok_def split: bind_splits)

text \<open>C21: The life of a loop. With valid descriptors the constructors of \<open>EventLoop\<close> and \<open>TimerQueue\<close> run without
  a failing assertion under either poller and leave it watching the timer and the wake-up descriptor
  for reading and nothing else; a second loop on the thread stops the process. From every later state in which the loop
  handles no event and both channels are registered, the destructors, in their order, pass all assertions
  when called on the thread of the loop, and remove exactly these two channels; on another thread the
  process stops.\<close>

theorem EventLoop_whole_life:
  fixes chs :: "'cb chans"
  assumes fds: "0 \<le> epollfd" "0 \<le> timerfd" "0 \<le> evtfd" "timerfd \<noteq> evtfd" "tc \<noteq> wc"
  shows "(\<exists>r q. EventLoop_construct None use_poll epollfd timerfd evtfd tc wc timer_cb read_cb chs this = Some (r, q, Some this)
      \<and> loop_quiet (loop_threadId this) tc wc r \<and> TQ_wf [] q \<and> Poller_channels (m_poller r) = [timerfd \<mapsto> tc, evtfd \<mapsto> wc]
      \<and> Poller_watched (m_poller r) timerfd = kReadEvent \<and> Poller_watched (m_poller r) evtfd = kReadEvent)
    \<and> EventLoop_construct (Some other) use_poll epollfd timerfd evtfd tc wc timer_cb read_cb chs this = None
    \<and> (\<forall>(r :: 'cb reactor) q. loop_quiet (loop_threadId this) tc wc r \<and> TQ_wf [] q \<longrightarrow>
         (\<exists>r' q'. EventLoop_destruct (loop_threadId this) tc (r, q) = Some (r', q', None)
            \<and> Poller_channels (m_poller r') = (Poller_channels (m_poller r))(ch_fd (r_chans r wc) := None, ch_fd (r_chans r tc) := None))
         \<and> (\<forall>tid. tid \<noteq> loop_threadId this \<longrightarrow> EventLoop_destruct tid tc (r, q) = None))"
proof -
  from EventLoop_construct_ok[OF fds, of use_poll timer_cb read_cb chs this] obtain r q where
    rq: "EventLoop_construct None use_poll epollfd timerfd evtfd tc wc timer_cb read_cb chs this = Some (r, q, Some this)"
    "loop_quiet (loop_threadId this) tc wc r" "TimerQueue_new timerfd this = Some q" "Poller_channels (m_poller r) = [timerfd \<mapsto> tc, evtfd \<mapsto> wc]"
    "Poller_watched (m_poller r) timerfd = kReadEvent" "Poller_watched (m_poller r) evtfd = kReadEvent" by blast
  have "TQ_wf [] q" using timer_history_wf[OF rtranclp.rtrancl_refl rq(3)] by simp
  moreover have "EventLoop_construct (Some other) use_poll epollfd timerfd evtfd tc wc timer_cb read_cb chs this = None"
    by (simp add: EventLoop_construct_def Let_def split: bind_splits)
  moreover have "EventLoop_destruct tid tc (r', q') = None" if "loop_quiet (loop_threadId this) tc wc r'" "tid \<noteq> loop_threadId this"
    for r' :: "'cb reactor" and q' tid
    using that EventLoop_destruct_thread unfolding loop_quiet_def by blast
  ultimately show ?thesis using rq EventLoop_destruct_ok[OF _ _ fds(5)] by blast
qed

theorem EventLoop_whole_life_witness:
  "\<exists>(r :: nat reactor) q r' q'. EventLoop_construct None True 3 4 5 0 1 90 91 (\<lambda>c. Channel_new \<lparr>loop_addr = 1, loop_threadId = 7\<rparr> 9)
      \<lparr>loop_addr = 1, loop_threadId = 7\<rparr> = Some (r, q, Some \<lparr>loop_addr = 1, loop_threadId = 7\<rparr>)
    \<and> Poller_channels (m_poller r) = [4 \<mapsto> 0, 5 \<mapsto> 1] \<and> EventLoop_destruct 7 0 (r, q) = Some (r', q', None)"
proof -
  let ?lp = "\<lparr>loop_addr = 1, loop_threadId = 7\<rparr>"
  have "0 \<le> (3 :: int)" "0 \<le> (4 :: int)" "0 \<le> (5 :: int)" "(4 :: int) \<noteq> 5" "(0 :: nat) \<noteq> 1" by simp_all
  note all = EventLoop_whole_life[OF this, of True "90 :: nat" 91 "\<lambda>c. Channel_new ?lp 9" ?lp ?lp]
  from all obtain r :: "nat reactor" and q where "EventLoop_construct None True 3 4 5 0 1 90 91 (\<lambda>c. Channel_new ?lp 9) ?lp = Some (r, q, Some ?lp)"
    "loop_quiet (loop_threadId ?lp) 0 1 r" "TQ_wf [] q" "Poller_channels (m_poller r) = [4 \<mapsto> 0, 5 \<mapsto> 1]" by blast
  moreover from this all obtain r' q' where "EventLoop_destruct (loop_threadId ?lp) 0 (r, q) = Some (r', q', None)" by blast
  ultimately show ?thesis by auto
qed

end
