(* ===== verification/Date.thy ===== *)
theory Date
  imports Prelude
begin

text \<open>
  The Gregorian calendar of \<^verbatim>\<open>src/dc/base/date.h\<close> and \<^verbatim>\<open>src/dc/base/date.cc\<close>. \<open>/\<close> is the
  truncating division \<open>sdiv\<close>. The two conversions are given twice: with the 32-bit arithmetic of the
  source, where signed overflow of any intermediate value is undefined (outcome \<open>None\<close>), and on
  mathematical integers, which the rest of the development uses. Both agree for the years -4799 to
  5800000 and for the day numbers -32044 to 536838867 (\<open>getJulianDayNumber_int_eq\<close>,
  \<open>getYearMonthDay_int_eq\<close>).
\<close>

subsection \<open>Conversions\<close>

record year_month_day =
  ymd_year :: int
  ymd_month :: int
  ymd_day :: int

definition getJulianDayNumber :: "int \<Rightarrow> int \<Rightarrow> int \<Rightarrow> int" where
  "getJulianDayNumber year month day =
     (let a = (14 - month) sdiv 12;
          y = year + 4800 - a;
          m = month + 12 * a - 3
      in day + (153 * m + 2) sdiv 5 + y * 365 + y sdiv 4 - y sdiv 100 + y sdiv 400 - 32045)"

definition getYearMonthDay :: "int \<Rightarrow> year_month_day" where
  "getYearMonthDay julianDayNumber =
     (let a = julianDayNumber + 32044;
          b = (4 * a + 3) sdiv 146097;
          c = a - ((b * 146097) sdiv 4);
          d = (4 * c + 3) sdiv 1461;
          e = c - ((1461 * d) sdiv 4);
          m = (5 * e + 2) sdiv 153
      in \<lparr>ymd_year = b * 100 + d - 4800 + (m sdiv 10),
          ymd_month = m + 3 - 12 * (m sdiv 10),
          ymd_day = e - ((153 * m + 2) sdiv 5) + 1\<rparr>)"

text \<open>The value of an \<open>int\<close> expression, defined if it fits 32 bits.\<close>

definition int_val :: "int \<Rightarrow> int outcome" where
  "int_val x = (if - (2 ^ 31) \<le> x \<and> x < 2 ^ 31 then Some x else None)"

text \<open>The conversions with every operation of the source checked, in its order of evaluation.\<close>

definition getJulianDayNumber_int :: "int \<Rightarrow> int \<Rightarrow> int \<Rightarrow> int outcome" where
  "getJulianDayNumber_int year month day = do {
     a14 \<leftarrow> int_val (14 - month);
     let a = a14 sdiv 12;
     y1 \<leftarrow> int_val (year + 4800);
     y \<leftarrow> int_val (y1 - a);
     m1 \<leftarrow> int_val (12 * a);
     m2 \<leftarrow> int_val (month + m1);
     m \<leftarrow> int_val (m2 - 3);
     t1 \<leftarrow> int_val (153 * m);
     t2 \<leftarrow> int_val (t1 + 2);
     s1 \<leftarrow> int_val (day + t2 sdiv 5);
     y365 \<leftarrow> int_val (y * 365);
     s2 \<leftarrow> int_val (s1 + y365);
     s3 \<leftarrow> int_val (s2 + y sdiv 4);
     s4 \<leftarrow> int_val (s3 - y sdiv 100);
     s5 \<leftarrow> int_val (s4 + y sdiv 400);
     int_val (s5 - 32045)
   }"

definition getYearMonthDay_int :: "int \<Rightarrow> year_month_day outcome" where
  "getYearMonthDay_int julianDayNumber = do {
     a \<leftarrow> int_val (julianDayNumber + 32044);
     a4 \<leftarrow> int_val (4 * a);
     a43 \<leftarrow> int_val (a4 + 3);
     let b = a43 sdiv 146097;
     b1 \<leftarrow> int_val (b * 146097);
     c \<leftarrow> int_val (a - b1 sdiv 4);
     c4 \<leftarrow> int_val (4 * c);
     c43 \<leftarrow> int_val (c4 + 3);
     let d = c43 sdiv 1461;
     d1 \<leftarrow> int_val (1461 * d);
     e \<leftarrow> int_val (c - d1 sdiv 4);
     e5 \<leftarrow> int_val (5 * e);
     e52 \<leftarrow> int_val (e5 + 2);
     let m = e52 sdiv 153;
     m1 \<leftarrow> int_val (153 * m);
     m2 \<leftarrow> int_val (m1 + 2);
     day1 \<leftarrow> int_val (e - m2 sdiv 5);
     day \<leftarrow> int_val (day1 + 1);
     month1 \<leftarrow> int_val (m + 3);
     month2 \<leftarrow> int_val (12 * (m sdiv 10));
     month \<leftarrow> int_val (month1 - month2);
     year1 \<leftarrow> int_val (b * 100);
     year2 \<leftarrow> int_val (year1 + d);
     year3 \<leftarrow> int_val (year2 - 4800);
     year \<leftarrow> int_val (year3 + m sdiv 10);
     Some \<lparr>ymd_year = year, ymd_month = month, ymd_day = day\<rparr>
   }"

definition kJulianDayOf1970_01_01 :: int where
  "kJulianDayOf1970_01_01 = getJulianDayNumber 1970 1 1"

definition kDaysPerWeek :: int where
  "kDaysPerWeek = 7"

subsection \<open>The class\<close>

record date =
  m_julianDayNumber :: int

definition Date_invalid :: date where
  "Date_invalid = \<lparr>m_julianDayNumber = 0\<rparr>"

definition Date_of_ymd :: "int \<Rightarrow> int \<Rightarrow> int \<Rightarrow> date" where
  "Date_of_ymd y m d = \<lparr>m_julianDayNumber = getJulianDayNumber y m d\<rparr>"

definition Date_of_julian :: "int \<Rightarrow> date" where
  "Date_of_julian julianDayNum = \<lparr>m_julianDayNumber = julianDayNum\<rparr>"

text \<open>\<open>struct tm\<close>: years since 1900, months since January.\<close>

record tm =
  tm_sec :: int
  tm_min :: int
  tm_hour :: int
  tm_mday :: int
  tm_mon :: int
  tm_year :: int

definition Date_of_tm :: "tm \<Rightarrow> date" where
  "Date_of_tm t = \<lparr>m_julianDayNumber = getJulianDayNumber (tm_year t + 1900) (tm_mon t + 1) (tm_mday t)\<rparr>"

definition Date_swap :: "date \<Rightarrow> date \<Rightarrow> date \<times> date" where
  "Date_swap x that = (x\<lparr>m_julianDayNumber := m_julianDayNumber that\<rparr>,
     that\<lparr>m_julianDayNumber := m_julianDayNumber x\<rparr>)"

definition Date_valid :: "date \<Rightarrow> bool" where
  "Date_valid x \<longleftrightarrow> m_julianDayNumber x > 0"

definition Date_yearMonthDay :: "date \<Rightarrow> year_month_day" where
  "Date_yearMonthDay x = getYearMonthDay (m_julianDayNumber x)"

definition Date_year :: "date \<Rightarrow> int" where
  "Date_year x = ymd_year (Date_yearMonthDay x)"

definition Date_month :: "date \<Rightarrow> int" where
  "Date_month x = ymd_month (Date_yearMonthDay x)"

definition Date_day :: "date \<Rightarrow> int" where
  "Date_day x = ymd_day (Date_yearMonthDay x)"

definition Date_weekDay :: "date \<Rightarrow> int" where
  "Date_weekDay x = (m_julianDayNumber x + 1) smod kDaysPerWeek"

definition Date_less :: "date \<Rightarrow> date \<Rightarrow> bool" where
  "Date_less x y \<longleftrightarrow> m_julianDayNumber x < m_julianDayNumber y"

definition Date_eq :: "date \<Rightarrow> date \<Rightarrow> bool" where
  "Date_eq x y \<longleftrightarrow> m_julianDayNumber x = m_julianDayNumber y"

subsection \<open>The calendar as specified\<close>

definition leap_year :: "int \<Rightarrow> bool" where
  "leap_year y \<longleftrightarrow> y mod 4 = 0 \<and> (y mod 100 \<noteq> 0 \<or> y mod 400 = 0)"

definition days_in_month :: "int \<Rightarrow> int \<Rightarrow> int" where
  "days_in_month y m =
     (if m = 2 then (if leap_year y then 29 else 28)
      else if m \<in> {4, 6, 9, 11} then 30 else 31)"

definition valid_ymd :: "int \<Rightarrow> int \<Rightarrow> int \<Rightarrow> bool" where
  "valid_ymd y m d \<longleftrightarrow> 1 \<le> m \<and> m \<le> 12 \<and> 1 \<le> d \<and> d \<le> days_in_month y m"

text \<open>The day after a date, by the rules of the calendar.\<close>

definition next_ymd :: "int \<Rightarrow> int \<Rightarrow> int \<Rightarrow> int \<times> int \<times> int" where
  "next_ymd y m d =
     (if d < days_in_month y m then (y, m, d + 1)
      else if m < 12 then (y, m + 1, 1) else (y + 1, 1, 1))"

subsection \<open>The conversion in the March-based calendar\<close>

lemma sdiv_nonneg: "0 \<le> (a::int) \<Longrightarrow> 0 < b \<Longrightarrow> a sdiv b = a div b"
  by (cases "a = 0") (simp_all add: signed_divide_int_def)

lemma int_divI: "0 < k \<Longrightarrow> k * q \<le> x \<Longrightarrow> x < k * q + k \<Longrightarrow> x div k = (q::int)"
  by (rule int_div_pos_eq[of x k q "x - k * q"]) linarith+

lemma div4_bounds: "4 * (z div 4) \<le> (z::int)" "z < 4 * (z div 4) + 4"
  by presburger+

text \<open>
  \<open>y\<close> counts years from March of year -4800, split into centuries \<open>b\<close> and years \<open>z\<close> within one;
  \<open>e\<close> is the day within that year, which is 365 only in a year that ends in a leap day.
\<close>

lemma quarter_days1: "(1461 * z) div 4 = 365 * z + z div (4::int)"
proof -
  define q where "q = z div 4"
  have "4 * q \<le> z" "z < 4 * q + 4" using div4_bounds[of z] by (simp_all add: q_def)
  then have "(1461 * z) div 4 = 365 * z + q" by (intro int_divI) arith+
  then show ?thesis by (simp add: q_def)
qed

lemma quarter_days2: "(146097 * b) div 4 = 36524 * b + b div (4::int)"
proof -
  define q where "q = b div 4"
  have "4 * q \<le> b" "b < 4 * q + 4" using div4_bounds[of b] by (simp_all add: q_def)
  then have "(146097 * b) div 4 = 36524 * b + q" by (intro int_divI) arith+
  then show ?thesis by (simp add: q_def)
qed

lemma year_days:
  fixes b z :: int
  assumes "0 \<le> z" and "z < 100"
  shows "365 * (100 * b + z) + (100 * b + z) div 4 - (100 * b + z) div 100 + (100 * b + z) div 400
       = (1461 * z) div 4 + (146097 * b) div 4"
proof -
  define p where "p = z div 4"
  define q where "q = b div 4"
  have p: "4 * p \<le> z" "z < 4 * p + 4" using div4_bounds[of z] by (simp_all add: p_def)
  have q: "4 * q \<le> b" "b < 4 * q + 4" using div4_bounds[of b] by (simp_all add: q_def)
  have "(100 * b + z) div 100 = b" using assms by (intro int_divI) arith+
  moreover have "(100 * b + z) div 4 = 25 * b + p" using p by (intro int_divI) arith+
  moreover have "(100 * b + z) div 400 = q" using q assms by (intro int_divI) arith+
  ultimately show ?thesis by (simp add: quarter_days1 quarter_days2 p_def q_def)
qed

lemma century_split:
  fixes b z e :: int
  assumes z: "0 \<le> z" "z < 100" and e: "0 \<le> e" "e \<le> 365"
    and leap: "e = 365 \<Longrightarrow> z mod 4 = 3 \<and> (z = 99 \<longrightarrow> b mod 4 = 3)"
  shows "(4 * (e + (1461 * z) div 4 + (146097 * b) div 4) + 3) div 146097 = b"
    and "(4 * (e + (1461 * z) div 4) + 3) div 1461 = z"
proof -
  define p r q t where "p = z div 4" and "r = z mod 4" and "q = b div 4" and "t = b mod 4"
  have p: "z = 4 * p + r" "0 \<le> r" "r \<le> 3" by (auto simp: p_def r_def)
  have q: "b = 4 * q + t" "0 \<le> t" "t \<le> 3" by (auto simp: q_def t_def)
  have le: "4 * e - r \<le> 1457" "0 \<le> 4 * e + 3 - r"
    using leap e p unfolding r_def[symmetric] by (cases "e = 365"; linarith)+
  have le': "4 * e - r + 1461 * z < 146094 + t"
  proof (cases "z = 99")
    case True
    then have "r = 3" using p by presburger
    then show ?thesis using True leap e q unfolding t_def[symmetric] by (cases "e = 365") simp_all
  next
    case False
    then have "1461 * z \<le> 143178" using z by simp
    then show ?thesis using le(1) q by linarith
  qed
  have sum1: "4 * (e + (365 * z + p)) + 3 = 1461 * z + (4 * e + 3 - r)" using p(1) by simp
  have "(4 * (e + (365 * z + p)) + 3) div 1461 = z"
    unfolding sum1 using le by (intro int_divI) linarith+
  then show "(4 * (e + (1461 * z) div 4) + 3) div 1461 = z"
    by (simp add: quarter_days1 p_def)
  have sum2: "4 * (e + (365 * z + p) + (36524 * b + q)) + 3
      = 146097 * b + (1461 * z + (4 * e + 3 - r) - t)" using p(1) q(1) by simp
  have "r \<le> z" using z by (simp add: r_def zmod_le_nonneg_dividend)
  then have "0 \<le> 1461 * z + (4 * e + 3 - r) - t" using z e p q by linarith
  then have "(4 * (e + (365 * z + p) + (36524 * b + q)) + 3) div 146097 = b"
    unfolding sum2 using le' by (intro int_divI) linarith+
  then show "(4 * (e + (1461 * z) div 4 + (146097 * b) div 4) + 3) div 146097 = b"
    by (simp add: quarter_days1 quarter_days2 p_def q_def)
qed

text \<open>Days of the March-based year before month \<open>m\<close> (\<open>0\<close> for March, \<open>11\<close> for February).\<close>

definition march_days :: "int \<Rightarrow> int" where
  "march_days m = (153 * m + 2) div 5"

text \<open>Days of the March-based years before year \<open>Y\<close>.\<close>

definition march_years :: "int \<Rightarrow> int" where
  "march_years Y = 365 * Y + Y div 4 - Y div 100 + Y div 400"

lemma twelve: "1 \<le> (m::int) \<Longrightarrow> m \<le> 12 \<Longrightarrow> m \<in> {1, 2, 3, 4, 5, 6, 7, 8, 9, 10, 11, 12}"
  by simp presburger

lemma march_day_of_valid:
  fixes y m d :: int
  assumes "valid_ymd y m d"
  defines "a \<equiv> (if m \<le> 2 then 1 else 0 :: int)"
  defines "mm \<equiv> m + 12 * a - 3"
  defines "e \<equiv> march_days mm + d - 1"
  shows "0 \<le> mm \<and> mm \<le> 11 \<and> mm div 10 = a \<and> 0 \<le> e \<and> e \<le> 365
       \<and> (5 * e + 2) div 153 = mm \<and> (e = 365 \<longrightarrow> m = 2 \<and> leap_year y)"
proof -
  have m: "m \<in> {1, 2, 3, 4, 5, 6, 7, 8, 9, 10, 11, 12}" and d: "1 \<le> d" "d \<le> days_in_month y m"
    using assms(1) twelve by (auto simp: valid_ymd_def)
  have "d \<le> (if m = 2 then 29 else if m \<in> {4, 6, 9, 11} then 30 else 31)"
    and "m = 2 \<Longrightarrow> d = 29 \<Longrightarrow> leap_year y"
    using d by (auto simp: days_in_month_def split: if_splits)
  with m d(1) show ?thesis
    unfolding e_def mm_def a_def march_days_def by (elim insertE emptyE; simp; arith)
qed

lemma leap_march:
  fixes y :: int
  assumes "leap_year y"
  defines "Y \<equiv> y + 4800 - 1"
  shows "Y mod 100 mod 4 = 3 \<and> (Y mod 100 = 99 \<longrightarrow> (Y div 100) mod 4 = 3)"
proof -
  have "y mod 4 = 0" using assms by (simp add: leap_year_def)
  then have "Y mod 4 = 3" unfolding Y_def by presburger
  then have "Y mod 100 mod 4 = 3" by (simp add: mod_mod_cancel)
  moreover have "(Y div 100) mod 4 = 3" if z: "Y mod 100 = 99"
  proof -
    define D where "D = Y div 100"
    have "Y = 100 * D + 99" using z mult_div_mod_eq[of 100 Y] unfolding D_def by linarith
    then have y: "y = 100 * (D - 47)" unfolding Y_def by simp
    then have "y mod 100 = 0" by simp
    then have "y mod 400 = 0" using assms by (simp add: leap_year_def)
    then obtain k where k: "y = 400 * k" by auto
    with y have "D = 4 * k + 47" by simp
    then show ?thesis unfolding D_def[symmetric] by presburger
  qed
  ultimately show ?thesis by simp
qed

lemma month_shift: "1 \<le> m \<Longrightarrow> m \<le> 12 \<Longrightarrow> (14 - m) sdiv 12 = (if m \<le> 2 then 1 else 0 :: int)"
  by (subst sdiv_nonneg) (auto intro!: int_divI)

lemma getJulianDayNumber_div:
  fixes y m d :: int
  assumes "1 \<le> m" "m \<le> 12"
  defines "a \<equiv> (if m \<le> 2 then 1 else 0 :: int)"
  defines "Y \<equiv> y + 4800 - a"
  assumes Y: "0 \<le> Y"
  shows "getJulianDayNumber y m d
       = d + march_days (m + 12 * a - 3) + march_years Y - 32045"
proof -
  have "0 \<le> 153 * (m + 12 * a - 3) + 2" using assms by simp
  from sdiv_nonneg[OF this, of 5]
  have md: "(153 * (m + 12 * a - 3) + 2) sdiv 5 = march_days (m + 12 * a - 3)"
    by (simp only: march_days_def)
  show ?thesis
    unfolding getJulianDayNumber_def Let_def month_shift[OF assms(1,2)] a_def[symmetric]
      Y_def[symmetric] md march_years_def
    by (simp add: sdiv_nonneg[OF Y])
qed

lemma getJulianDayNumber_march:
  fixes y m d :: int
  assumes "1 \<le> m" "m \<le> 12"
  defines "a \<equiv> (if m \<le> 2 then 1 else 0 :: int)"
  defines "Y \<equiv> y + 4800 - a"
  assumes Y: "0 \<le> Y"
  shows "getJulianDayNumber y m d
       = (march_days (m + 12 * a - 3) + d - 1)
         + (1461 * (Y mod 100)) div 4 + (146097 * (Y div 100)) div 4 - 32044"
proof -
  have "march_years Y = (1461 * (Y mod 100)) div 4 + (146097 * (Y div 100)) div 4"
    using year_days[of "Y mod 100" "Y div 100"] by (simp add: march_years_def)
  with getJulianDayNumber_div[OF assms(1,2), of y d, folded a_def, folded Y_def] Y
  show ?thesis by simp
qed

lemma div_succ:
  fixes Y k :: int
  assumes k: "0 < k"
  shows "(Y + 1) div k = Y div k + (if (Y + 1) mod k = 0 then 1 else 0)"
proof -
  obtain q r where q: "Y div k = q" and Y: "Y = k * q + r" "0 \<le> r" "r < k"
    using k pos_mod_bound pos_mod_sign mult_div_mod_eq by metis
  show ?thesis
  proof (cases "r + 1 = k")
    case True
    then have "Y + 1 = k * (q + 1)" using Y by (simp add: algebra_simps)
    then have "(Y + 1) div k = q + 1" "(Y + 1) mod k = 0" using k by simp_all
    then show ?thesis unfolding q by simp
  next
    case False
    then have "Y + 1 = k * q + (r + 1)" "0 \<le> r + 1" "r + 1 < k" using Y by auto
    then have "(Y + 1) div k = q" "(Y + 1) mod k = r + 1"
      using int_div_pos_eq[of "Y+1" k q "r+1"] int_mod_pos_eq[of "Y+1" k q "r+1"] by auto
    then show ?thesis unfolding q using Y(2) by simp
  qed
qed
text \<open>Reading the March-based day back: the code's \<open>b\<close>, \<open>d\<close> and \<open>e\<close> are the century, year and day.\<close>

lemma getYearMonthDay_march:
  fixes b z e :: int
  assumes b: "0 \<le> b" and z: "0 \<le> z" "z < 100" and e: "0 \<le> e" "e \<le> 365"
    and leap: "e = 365 \<Longrightarrow> z mod 4 = 3 \<and> (z = 99 \<longrightarrow> b mod 4 = 3)"
  shows "getYearMonthDay (e + (1461 * z) div 4 + (146097 * b) div 4 - 32044) =
    (let m = (5 * e + 2) div 153
     in \<lparr>ymd_year = 100 * b + z - 4800 + m div 10, ymd_month = m + 3 - 12 * (m div 10),
         ymd_day = e - march_days m + 1\<rparr>)"
proof -
  let ?c = "e + (1461 * z) div 4"
  let ?a = "?c + (146097 * b) div 4"
  have nn: "0 \<le> ?c" "0 \<le> ?a" using b z e by simp_all
  note split = century_split[OF z e leap]
  have B: "(4 * ?a + 3) sdiv 146097 = b" using split(1) nn by (subst sdiv_nonneg) simp_all
  have C: "?a - (b * 146097) sdiv 4 = ?c" using b by (simp add: sdiv_nonneg mult.commute)
  have D: "(4 * ?c + 3) sdiv 1461 = z" using split(2) nn by (subst sdiv_nonneg) simp_all
  have E: "?c - (1461 * z) sdiv 4 = e" using z by (simp add: sdiv_nonneg)
  have M: "(5 * e + 2) sdiv 153 = (5 * e + 2) div 153" "0 \<le> (5 * e + 2) div 153"
    using e by (simp_all add: sdiv_nonneg)
  have J: "e + (1461 * z) div 4 + (146097 * b) div 4 - 32044 + 32044 = ?a" by simp
  show ?thesis
    unfolding getYearMonthDay_def J Let_def B C D E M(1)
    using M(2) by (simp add: sdiv_nonneg march_days_def mult.commute)
qed

text \<open>Every day number from the start of the calendar on splits into century, year and day.\<close>

lemma julian_split:
  fixes j :: int
  assumes "-32044 \<le> j"
  obtains b z e where "0 \<le> b" "0 \<le> z" "z < 100" "0 \<le> e" "e \<le> 365"
    "e = 365 \<longrightarrow> z mod 4 = 3 \<and> (z = 99 \<longrightarrow> b mod 4 = 3)"
    "j = e + (1461 * z) div 4 + (146097 * b) div 4 - 32044"
proof -
  define A where "A = j + 32044"
  define b where "b = (4 * A + 3) div 146097"
  define q t where "q = b div 4" and "t = b mod 4"
  define c where "c = A - (36524 * b + q)"
  define z where "z = (4 * c + 3) div 1461"
  define p r where "p = z div 4" and "r = z mod 4"
  define e where "e = c - (365 * z + p)"
  have A: "0 \<le> A" using assms by (simp add: A_def)
  have b: "146097 * b \<le> 4 * A + 3" "4 * A + 3 < 146097 * b + 146097"
    using mult_div_mod_eq[of 146097 "4 * A + 3"] pos_mod_sign[of 146097 "4 * A + 3"]
      pos_mod_bound[of 146097 "4 * A + 3"] unfolding b_def by linarith+
  have q: "b = 4 * q + t" "0 \<le> t" "t \<le> 3" by (auto simp: q_def t_def)
  have c: "4 * c + 3 = 4 * A + 3 - 146097 * b + t" using q(1) by (simp add: c_def)
  have c4: "0 \<le> 4 * c + 3" "4 * c + 3 < 146100" using c b q by linarith+
  have z: "1461 * z \<le> 4 * c + 3" "4 * c + 3 < 1461 * z + 1461"
    using mult_div_mod_eq[of 1461 "4 * c + 3"] pos_mod_sign[of 1461 "4 * c + 3"]
      pos_mod_bound[of 1461 "4 * c + 3"] unfolding z_def by linarith+
  have z0: "0 \<le> z" "z < 100" using z c4 by linarith+
  have p: "z = 4 * p + r" "0 \<le> r" "r \<le> 3" by (auto simp: p_def r_def)
  have e: "4 * e + 3 = 4 * c + 3 - 1461 * z + r" using p(1) by (simp add: e_def)
  have e0: "0 \<le> e" "e \<le> 365" using e z p by linarith+
  have b0: "0 \<le> b" using A by (simp add: b_def)
  have leap: "r = 3 \<and> (z = 99 \<longrightarrow> t = 3)" if "e = 365"
    using that e z p c b q by auto
  have "j = e + (1461 * z) div 4 + (146097 * b) div 4 - 32044"
    by (simp add: quarter_days1 quarter_days2 e_def c_def A_def p_def q_def)
  with that[of b z e] b0 z0 e0 leap show thesis by (simp add: r_def t_def)
qed

text \<open>The day within the March-based year names a day of a month of that length.\<close>

lemma march_day_valid:
  fixes e m :: int
  assumes "0 \<le> e" "e \<le> 365" and m: "m = (5 * e + 2) div 153"
  shows "0 \<le> m \<and> m \<le> 11 \<and> march_days m \<le> e
       \<and> e - march_days m + 1 \<le> (if m = 11 then (if e = 365 then 29 else 28)
            else if m + 3 - 12 * (m div 10) \<in> {4, 6, 9, 11} then 30 else 31)"
proof -
  have bnd: "153 * m \<le> 5 * e + 2" "5 * e + 2 < 153 * m + 153"
    using mult_div_mod_eq[of 153 "5 * e + 2"] pos_mod_sign[of 153 "5 * e + 2"]
      pos_mod_bound[of 153 "5 * e + 2"] unfolding m by linarith+
  then have "1 \<le> m + 1" "m + 1 \<le> 12" using assms by linarith+
  from twelve[OF this] have "m \<in> {0, 1, 2, 3, 4, 5, 6, 7, 8, 9, 10, 11}" by auto
  then show ?thesis using bnd assms(1,2)
    by (elim insertE emptyE) (auto simp: march_days_def)
qed

lemma leap_of_march:
  fixes b z :: int
  assumes "0 \<le> z" "z < 100" and "z mod 4 = 3 \<and> (z = 99 \<longrightarrow> b mod 4 = 3)"
  shows "leap_year (100 * b + z - 4799)"
proof -
  have "z = 4 * (z div 4) + 3" using assms(3) mult_div_mod_eq[of 4 z] by simp
  then have y4: "100 * b + z - 4799 = 4 * (25 * b + z div 4 - 1199)" by simp
  have "(100 * b + z - 4799) mod 4 = 0" by (subst y4) simp
  moreover have "(100 * b + z - 4799) mod 400 = 0" if h: "(100 * b + z - 4799) mod 100 = 0"
  proof -
    have "100 dvd (100 * b + z - 4799) + 100 * (47 - b)" using h by (intro dvd_add) auto
    then have "100 dvd z + 1 - 100" by simp
    then have "z = 99" using assms(1,2) by presburger
    with assms(3) have "b = 4 * (b div 4) + 3" using mult_div_mod_eq[of 4 b] by simp
    with \<open>z = 99\<close> have "100 * b + z - 4799 = 400 * (b div 4 - 11)" by simp
    then show ?thesis by simp
  qed
  ultimately show ?thesis by (auto simp: leap_year_def)
qed

text \<open>Stepping to the first day of the next month.\<close>

lemma march_days_step:
  fixes m :: int
  assumes "1 \<le> m" "m \<le> 12" "m \<noteq> 2"
  shows "march_days (m + 12 * (if m \<le> 2 then 1 else 0) - 3 + 1)
       = march_days (m + 12 * (if m \<le> 2 then 1 else 0) - 3) + days_in_month y m"
  using twelve[OF assms(1,2)] assms(3)
  by (elim insertE emptyE) (simp_all add: march_days_def days_in_month_def)

lemma leap_shift: "leap_year (y + 4800) = leap_year y"
proof -
  have "(y + 4800) mod 4 = y mod 4" "(y + 4800) mod 100 = y mod 100" "(y + 4800) mod 400 = y mod 400"
    using mod_mult_self2[of y 4 1200] mod_mult_self2[of y 100 48] mod_mult_self2[of y 400 12] by simp_all
  then show ?thesis by (simp add: leap_year_def)
qed

lemma year_step: "march_years (Y + 1) = march_years Y + (if leap_year (Y + 1) then 366 else 365)"
proof -
  have "(Y + 1) mod 400 = 0 \<Longrightarrow> (Y + 1) mod 100 = 0" "(Y + 1) mod 100 = 0 \<Longrightarrow> (Y + 1) mod 4 = 0"
    using mod_mod_cancel[of 100 400 "Y + 1"] mod_mod_cancel[of 4 100 "Y + 1"] by auto
  moreover obtain A B C where "A = Y div 4" "B = Y div 100" "C = Y div 400" by simp
  then have "march_years Y = 365 * Y + A - B + C"
    "march_years (Y + 1) = 365 * (Y + 1) + (A + (if (Y + 1) mod 4 = 0 then 1 else 0))
       - (B + (if (Y + 1) mod 100 = 0 then 1 else 0)) + (C + (if (Y + 1) mod 400 = 0 then 1 else 0))"
    by (simp_all only: march_years_def div_succ[of 4 Y] div_succ[of 100 Y] div_succ[of 400 Y]
        zero_less_numeral)
  ultimately show ?thesis
    unfolding leap_year_def
    by (cases "(Y + 1) mod 400 = 0"; cases "(Y + 1) mod 100 = 0"; cases "(Y + 1) mod 4 = 0")
      (simp_all only: if_True if_False simp_thms, simp_all)
qed

lemma smod_nonneg: "0 \<le> (a::int) \<Longrightarrow> 0 < b \<Longrightarrow> a smod b = a mod b"
  by (cases "a = 0") (simp_all add: signed_modulo_int_def)

subsection \<open>Where nothing overflows\<close>

lemma int_val_small: "- (2 ^ 31) \<le> x \<Longrightarrow> x < 2 ^ 31 \<Longrightarrow> int_val x = Some x"
  by (simp add: int_val_def)

lemma getJulianDayNumber_int_eq:
  fixes y m d :: int
  assumes m: "1 \<le> m" "m \<le> 12" and d: "1 \<le> d" "d \<le> 31"
    and y: "0 \<le> y + 4800 - (if m \<le> 2 then 1 else 0)" "y \<le> 5800000"
  shows "getJulianDayNumber_int y m d = Some (getJulianDayNumber y m d)"
proof -
  define a where "a = (14 - m) sdiv 12"
  define Y where "Y = y + 4800 - a"
  define mm where "mm = m + 12 * a - 3"
  define md where "md = (153 * mm + 2) sdiv 5"
  have a: "a = (if m \<le> 2 then 1 else 0)" unfolding a_def by (rule month_shift[OF m])
  have mm: "0 \<le> mm" "mm \<le> 11" using m by (auto simp: mm_def a)
  then have "md = (153 * mm + 2) div 5" unfolding md_def by (intro sdiv_nonneg) simp_all
  then have md: "0 \<le> md" "md \<le> 337" using mm by linarith+
  have Y: "0 \<le> Y" "Y \<le> 5804800" using y by (auto simp: Y_def a)
  have dv: "0 \<le> Y sdiv k \<and> Y sdiv k \<le> Y" if "0 < k" for k
    using that Y(1) zdiv_mono2[of Y 1 k] sdiv_nonneg[OF Y(1) that] pos_imp_zdiv_nonneg_iff[of k Y] by simp
  have unfold: "getJulianDayNumber y m d = d + md + Y * 365 + Y sdiv 4 - Y sdiv 100 + Y sdiv 400 - 32045"
    unfolding getJulianDayNumber_def Let_def a_def[symmetric] Y_def[symmetric] mm_def[symmetric] md_def[symmetric] ..
  have a01: "0 \<le> a" "a \<le> 1" by (simp_all add: a)
  have q: "0 \<le> Y sdiv 4" "Y sdiv 4 \<le> Y" "0 \<le> Y sdiv 100" "Y sdiv 100 \<le> Y" "0 \<le> Y sdiv 400" "Y sdiv 400 \<le> Y"
    using dv[of 4] dv[of 100] dv[of 400] by simp_all
  have "int_val (14 - m) = Some (14 - m)" "int_val (y + 4800) = Some (y + 4800)" "int_val (y + 4800 - a) = Some Y"
    "int_val (12 * a) = Some (12 * a)" "int_val (m + 12 * a) = Some (m + 12 * a)" "int_val (m + 12 * a - 3) = Some mm"
    "int_val (153 * mm) = Some (153 * mm)" "int_val (153 * mm + 2) = Some (153 * mm + 2)"
    using m y(2) Y mm a01 by (simp_all add: int_val_small mm_def[symmetric]) (simp_all add: int_val_small Y_def mm_def)
  moreover have "int_val (d + md) = Some (d + md)" "int_val (Y * 365) = Some (Y * 365)"
    "int_val (d + md + Y * 365) = Some (d + md + Y * 365)"
    "int_val (d + md + Y * 365 + Y sdiv 4) = Some (d + md + Y * 365 + Y sdiv 4)"
    "int_val (d + md + Y * 365 + Y sdiv 4 - Y sdiv 100) = Some (d + md + Y * 365 + Y sdiv 4 - Y sdiv 100)"
    "int_val (d + md + Y * 365 + Y sdiv 4 - Y sdiv 100 + Y sdiv 400)
      = Some (d + md + Y * 365 + Y sdiv 4 - Y sdiv 100 + Y sdiv 400)"
    "int_val (d + md + Y * 365 + Y sdiv 4 - Y sdiv 100 + Y sdiv 400 - 32045)
      = Some (d + md + Y * 365 + Y sdiv 4 - Y sdiv 100 + Y sdiv 400 - 32045)"
    using d md Y q by (simp_all add: int_val_small)
  ultimately show ?thesis
    unfolding unfold getJulianDayNumber_int_def Let_def
    by (simp only: Option.bind_lunit a_def[symmetric] md_def[symmetric])
qed

lemma div_bounds_int: "0 < (k::int) \<Longrightarrow> k * (x div k) \<le> x \<and> x < k * (x div k) + k"
  using pos_mod_bound[of k x] pos_mod_sign[of k x] mult_div_mod_eq[of k x] by linarith

lemma getYearMonthDay_int_eq:
  assumes j: "-32044 \<le> j" "j \<le> 536838867"
  shows "getYearMonthDay_int j = Some (getYearMonthDay j)"
proof -
  define a where "a = j + 32044"
  define b where "b = (4 * a + 3) sdiv 146097"
  define q where "q = (b * 146097) sdiv 4"
  define c where "c = a - q"
  define d where "d = (4 * c + 3) sdiv 1461"
  define p where "p = (1461 * d) sdiv 4"
  define e where "e = c - p"
  define m where "m = (5 * e + 2) sdiv 153"
  define n where "n = (153 * m + 2) sdiv 5"
  define k where "k = m sdiv 10"
  have a: "0 \<le> a" "a \<le> 536870911" using j by (simp_all add: a_def)
  have b: "146097 * b \<le> 4 * a + 3" "4 * a + 3 < 146097 * b + 146097"
    using div_bounds_int[of 146097 "4 * a + 3"] a by (simp_all add: b_def sdiv_nonneg)
  then have b0: "0 \<le> b" "b \<le> 14699" using a by linarith+
  have q: "4 * q \<le> b * 146097" "b * 146097 < 4 * q + 4"
    using div_bounds_int[of 4 "b * 146097"] b0 by (simp_all add: q_def sdiv_nonneg)
  then have c: "0 \<le> c" "c \<le> 36525" using b by (simp_all add: c_def)
  have d: "1461 * d \<le> 4 * c + 3" "4 * c + 3 < 1461 * d + 1461"
    using div_bounds_int[of 1461 "4 * c + 3"] c by (simp_all add: d_def sdiv_nonneg)
  then have d0: "0 \<le> d" "d \<le> 101" using c by linarith+
  have p: "4 * p \<le> 1461 * d" "1461 * d < 4 * p + 4"
    using div_bounds_int[of 4 "1461 * d"] d0 by (simp_all add: p_def sdiv_nonneg)
  then have e: "0 \<le> e" "e \<le> 366" using d by (simp_all add: e_def)
  have m: "153 * m \<le> 5 * e + 2" "5 * e + 2 < 153 * m + 153"
    using div_bounds_int[of 153 "5 * e + 2"] e by (simp_all add: m_def sdiv_nonneg)
  then have m0: "0 \<le> m" "m \<le> 12" using e by linarith+
  have n: "5 * n \<le> 153 * m + 2" "153 * m + 2 < 5 * n + 5"
    using div_bounds_int[of 5 "153 * m + 2"] m0 by (simp_all add: n_def sdiv_nonneg)
  have k: "10 * k \<le> m" "m < 10 * k + 10"
    using div_bounds_int[of 10 m] m0 by (simp_all add: k_def sdiv_nonneg)
  note folds = a_def[symmetric] b_def[symmetric] q_def[symmetric] c_def[symmetric] d_def[symmetric] p_def[symmetric]
    e_def[symmetric] m_def[symmetric] n_def[symmetric] k_def[symmetric]
  show ?thesis
    unfolding getYearMonthDay_int_def getYearMonthDay_def Let_def
    using a b b0 q c d d0 p e m m0 n k by (simp add: int_val_small folds)
qed

text \<open>The bounds are those of the source: one day later \<open>4 * a + 3\<close> overflows.\<close>

lemma getYearMonthDay_int_overflows: "getYearMonthDay_int 536838868 = None"
  by (simp add: getYearMonthDay_int_def int_val_def)

lemma getJulianDayNumber_int_overflows: "getJulianDayNumber_int 5900000 3 1 = None"
  by (simp add: getJulianDayNumber_int_def int_val_def signed_divide_int_def)

text \<open>The day number of a date and its year bound each other.\<close>

lemma march_years_bounds:
  assumes "0 \<le> Y"
  shows "365 * Y \<le> march_years Y" "400 * march_years Y \<le> 146097 * Y + 396"
proof -
  have "4 * (Y div 4) \<le> Y" "Y < 100 * (Y div 100) + 100" "400 * (Y div 400) \<le> Y" "0 \<le> Y div 400" "Y div 100 \<le> Y div 4"
    using div_bounds_int[of 4 Y] div_bounds_int[of 100 Y] div_bounds_int[of 400 Y] zdiv_mono2[of Y 4 100] assms
    by (simp_all add: pos_imp_zdiv_nonneg_iff)
  then show "365 * Y \<le> march_years Y" "400 * march_years Y \<le> 146097 * Y + 396"
    unfolding march_years_def by (simp_all add: algebra_simps)
qed

lemma julian_year_bounds:
  assumes "valid_ymd y m d" and year: "0 \<le> y + 4800 - (if m \<le> 2 then 1 else 0)"
  shows "-32044 \<le> getJulianDayNumber y m d" "365 * y \<le> getJulianDayNumber y m d + 32045"
    "400 * getJulianDayNumber y m d \<le> 146097 * y + 688595196"
proof -
  define a where "a = (if m \<le> 2 then 1 else 0 :: int)"
  have m: "1 \<le> m" "m \<le> 12" "1 \<le> d" "d \<le> 31"
    using assms(1) by (auto simp: valid_ymd_def days_in_month_def split: if_splits)
  have Y: "0 \<le> y + 4800 - a" using year by (simp add: a_def)
  have mm: "0 \<le> m + 12 * a - 3" "m + 12 * a - 3 \<le> 11" using m by (auto simp: a_def)
  then have md: "0 \<le> march_days (m + 12 * a - 3)" "march_days (m + 12 * a - 3) \<le> 337"
    using div_bounds_int[of 5 "153 * (m + 12 * a - 3) + 2"] by (simp_all add: march_days_def)
  have j: "getJulianDayNumber y m d = d + march_days (m + 12 * a - 3) + march_years (y + 4800 - a) - 32045"
    using getJulianDayNumber_div[OF m(1,2), of y d] Y by (simp add: a_def)
  define Z where "Z = y + 4800 - a"
  have "y = Z + a - 4800" "0 \<le> a" "a \<le> 1" by (simp_all add: Z_def a_def)
  with j[folded Z_def] md m march_years_bounds[OF Y[folded Z_def]] Y[folded Z_def]
  show "- 32044 \<le> getJulianDayNumber y m d" "365 * y \<le> getJulianDayNumber y m d + 32045"
    "400 * getJulianDayNumber y m d \<le> 146097 * y + 688595196" by linarith+
qed

subsection \<open>The conversions are inverse\<close>

lemma getYearMonthDay_inverse:
  assumes valid: "valid_ymd y m d" and year: "-4799 \<le> y"
  shows "getYearMonthDay (getJulianDayNumber y m d) = \<lparr>ymd_year = y, ymd_month = m, ymd_day = d\<rparr>"
proof -
  define a where "a = (if m \<le> 2 then 1 else 0 :: int)"
  define Y where "Y = y + 4800 - a"
  define mm where "mm = m + 12 * a - 3"
  define e where "e = march_days mm + d - 1"
  have m: "1 \<le> m" "m \<le> 12" using valid by (simp_all add: valid_ymd_def)
  note march = march_day_of_valid[OF valid, folded a_def, folded mm_def, folded e_def]
  have Y0: "0 \<le> Y" using year by (simp add: Y_def a_def)
  then have Y: "0 \<le> Y div 100" by simp
  have z: "0 \<le> Y mod 100" "Y mod 100 < 100" by simp_all
  have leap: "Y mod 100 mod 4 = 3 \<and> (Y mod 100 = 99 \<longrightarrow> Y div 100 mod 4 = 3)" if "e = 365"
    using march that leap_march[of y] by (simp add: Y_def a_def)
  have j: "getJulianDayNumber y m d
      = e + (1461 * (Y mod 100)) div 4 + (146097 * (Y div 100)) div 4 - 32044"
    using getJulianDayNumber_march[OF m, of y d, folded a_def, folded Y_def mm_def, folded e_def] Y0
    by simp
  have range: "0 \<le> e" "e \<le> 365" and mon: "(5 * e + 2) div 153 = mm" "mm div 10 = a"
    using march by auto
  have decode: "getYearMonthDay (e + (1461 * (Y mod 100)) div 4 + (146097 * (Y div 100)) div 4 - 32044)
      = (let m = (5 * e + 2) div 153 in \<lparr>ymd_year = 100 * (Y div 100) + Y mod 100 - 4800 + m div 10,
           ymd_month = m + 3 - 12 * (m div 10), ymd_day = e - march_days m + 1\<rparr>)"
    by (rule getYearMonthDay_march[OF Y z range]) (rule leap)
  have "100 * (Y div 100) + Y mod 100 = Y" by simp
  then show ?thesis
    unfolding j decode Let_def mon by (simp add: Y_def mm_def) (simp add: e_def mm_def)
qed

lemma getJulianDayNumber_inverse:
  assumes "-32044 \<le> j"
  defines "r \<equiv> getYearMonthDay j"
  shows "valid_ymd (ymd_year r) (ymd_month r) (ymd_day r)
       \<and> getJulianDayNumber (ymd_year r) (ymd_month r) (ymd_day r) = j
       \<and> 0 \<le> ymd_year r + 4800 - (if ymd_month r \<le> 2 then 1 else 0)"
proof -
  obtain b z e where b: "0 \<le> b" and z: "0 \<le> z" "z < 100"
    and e: "0 \<le> e" "e \<le> 365" and leap: "e = 365 \<longrightarrow> z mod 4 = 3 \<and> (z = 99 \<longrightarrow> b mod 4 = 3)"
    and j: "j = e + (1461 * z) div 4 + (146097 * b) div 4 - 32044"
    by (rule julian_split[OF assms(1)])
  define m where "m = (5 * e + 2) div 153"
  define a where "a = m div 10"
  have dec: "r = \<lparr>ymd_year = 100 * b + z - 4800 + a, ymd_month = m + 3 - 12 * a,
      ymd_day = e - march_days m + 1\<rparr>"
    unfolding r_def j a_def m_def
    using getYearMonthDay_march[OF b z e] leap by (simp add: Let_def)
  then have r: "ymd_year r = 100 * b + z - 4800 + a" "ymd_month r = m + 3 - 12 * a"
    "ymd_day r = e - march_days m + 1" by simp_all
  note md = march_day_valid[OF e m_def, folded a_def, folded r(2,3)]
  then have m: "0 \<le> m" "m \<le> 11" and day: "1 \<le> ymd_day r" using r(3) by auto
  have a: "a = (if ymd_month r \<le> 2 then 1 else 0)" "1 \<le> ymd_month r" "ymd_month r \<le> 12"
    "m = 11 \<longleftrightarrow> ymd_month r = 2" using m unfolding r(2) a_def by presburger+
  have "leap_year (ymd_year r)" if "m = 11" "e = 365"
    using leap_of_march[OF z] leap that r(1) by (simp add: a_def)
  then have "ymd_day r \<le> days_in_month (ymd_year r) (ymd_month r)"
    using md a(4) unfolding days_in_month_def by (cases "m = 11"; cases "e = 365") simp_all
  then have "valid_ymd (ymd_year r) (ymd_month r) (ymd_day r)"
    using a(2,3) day by (simp add: valid_ymd_def)
  moreover have "getJulianDayNumber (ymd_year r) (ymd_month r) (ymd_day r) = j"
  proof -
    have Y: "ymd_year r + 4800 - a = 100 * b + z" "ymd_month r + 12 * a - 3 = m" using r by simp_all
    have "(100 * b + z) mod 100 = z" "(100 * b + z) div 100 = b" "0 \<le> 100 * b + z"
      using z b by simp_all
    with getJulianDayNumber_march[OF a(2,3), of "ymd_year r" "ymd_day r", folded a(1), unfolded Y]
    show ?thesis by (simp add: r(3) j)
  qed
  moreover have "0 \<le> ymd_year r + 4800 - a" using r(1) b z by simp
  ultimately show ?thesis unfolding a(1)[symmetric] by blast
qed

subsection \<open>Properties\<close>

text \<open>C32: The conversions, computed in 32-bit integers, are inverse to each other and never overflow in
  these ranges: converting a calendar date to its Julian day number and back gives the same year, month
  and day, for every valid Gregorian date of the years -4799 to 1465100; and every Julian day number
  from -32044 to 536838867, the largest one that does not overflow, is converted to a valid Gregorian
  date (month 1 to 12, a day that this month of this year has) whose number it is.\<close>

theorem Date_ymd_roundtrip:
  assumes valid: "valid_ymd y m d" and year: "-4799 \<le> y" "y \<le> 1465100" and j: "-32044 \<le> j" "j \<le> 536838867"
  shows "getJulianDayNumber_int y m d \<bind> getYearMonthDay_int = Some \<lparr>ymd_year = y, ymd_month = m, ymd_day = d\<rparr>
    \<and> (\<exists>r. getYearMonthDay_int j = Some r \<and> valid_ymd (ymd_year r) (ymd_month r) (ymd_day r)
       \<and> getJulianDayNumber_int (ymd_year r) (ymd_month r) (ymd_day r) = Some j)"
proof -
  have day: "1 \<le> m" "m \<le> 12" "1 \<le> d" "d \<le> 31" if "valid_ymd y m d" for y m d
    using that by (auto simp: valid_ymd_def days_in_month_def split: if_splits)
  have y0: "0 \<le> y + 4800 - (if m \<le> 2 then 1 else 0)" using year(1) by simp
  have "-32044 \<le> getJulianDayNumber y m d" "getJulianDayNumber y m d \<le> 536838867"
    using julian_year_bounds[OF valid y0] year(2) by simp_all
  then have "getYearMonthDay_int (getJulianDayNumber y m d) = Some \<lparr>ymd_year = y, ymd_month = m, ymd_day = d\<rparr>"
    using getYearMonthDay_int_eq getYearMonthDay_inverse[OF valid year(1)] by simp
  moreover have "getJulianDayNumber_int y m d = Some (getJulianDayNumber y m d)"
    by (rule getJulianDayNumber_int_eq[OF day[OF valid] y0]) (use year(2) in simp)
  moreover have "getYearMonthDay_int j = Some (getYearMonthDay j)" by (rule getYearMonthDay_int_eq[OF j])
  moreover obtain r where r: "r = getYearMonthDay j" "valid_ymd (ymd_year r) (ymd_month r) (ymd_day r)"
    "getJulianDayNumber (ymd_year r) (ymd_month r) (ymd_day r) = j" "0 \<le> ymd_year r + 4800 - (if ymd_month r \<le> 2 then 1 else 0)"
    using getJulianDayNumber_inverse[OF j(1)] by auto
  moreover have "getJulianDayNumber_int (ymd_year r) (ymd_month r) (ymd_day r) = Some j"
    using getJulianDayNumber_int_eq[OF day[OF r(2)] r(4)] julian_year_bounds(2)[OF r(2,4)] j(2) r(3) by simp
  ultimately show ?thesis by auto
qed

theorem Date_ymd_roundtrip_witness:
  "getJulianDayNumber_int 2000 2 29 \<bind> getYearMonthDay_int = Some \<lparr>ymd_year = 2000, ymd_month = 2, ymd_day = 29\<rparr>
    \<and> (\<exists>r. getYearMonthDay_int 2451604 = Some r \<and> valid_ymd (ymd_year r) (ymd_month r) (ymd_day r)
       \<and> getJulianDayNumber_int (ymd_year r) (ymd_month r) (ymd_day r) = Some 2451604)"
  by (rule Date_ymd_roundtrip) (simp_all add: valid_ymd_def days_in_month_def leap_year_def)

text \<open>Julian day numbers count the days of the Gregorian calendar: the day after a valid date
  (next day, first of the next month, or New Year, with the leap-year rule) is valid and has the
  next number, and for a date whose number is not negative its \<open>weekDay()\<close> is the next one modulo 7.\<close>

theorem Date_counts_days:
  assumes valid: "valid_ymd y m d" and year: "-4799 \<le> y"
    and nxt: "next_ymd y m d = (y', m', d')"
  shows "valid_ymd y' m' d' \<and> getJulianDayNumber y' m' d' = getJulianDayNumber y m d + 1
       \<and> (0 \<le> getJulianDayNumber y m d \<longrightarrow>
            Date_weekDay (Date_of_julian (getJulianDayNumber y' m' d'))
              = (Date_weekDay (Date_of_julian (getJulianDayNumber y m d)) + 1) mod 7)"
proof -
  have m: "1 \<le> m" "m \<le> 12" "1 \<le> d" "d \<le> days_in_month y m"
    using valid by (simp_all add: valid_ymd_def)
  have dim: "1 \<le> days_in_month y k" for y k by (simp add: days_in_month_def)
  have v: "valid_ymd y' m' d'"
    using nxt m dim by (auto simp: next_ymd_def valid_ymd_def split: if_splits)
  have step: "getJulianDayNumber y' m' d' = getJulianDayNumber y m d + 1"
  proof (cases "d < days_in_month y m")
    case True
    then show ?thesis using nxt by (auto simp: next_ymd_def getJulianDayNumber_def Let_def)
  next
    case False
    then have d: "d = days_in_month y m" using m by simp
    have j: "getJulianDayNumber y m d = d + march_days (m + 12 * (if m \<le> 2 then 1 else 0) - 3)
        + march_years (y + 4800 - (if m \<le> 2 then 1 else 0)) - 32045"
      by (rule getJulianDayNumber_div[OF m(1,2)]) (use year in simp)
    consider "m = 2" | "m \<noteq> 2" "m < 12" | "m = 12" using m by linarith
    then show ?thesis
    proof cases
      case 1
      then have n: "y' = y" "m' = 3" "d' = 1" using False nxt by (auto simp: next_ymd_def)
      have "getJulianDayNumber y 3 1 = 1 + march_days 0 + march_years (y + 4800) - 32045"
        using getJulianDayNumber_div[of 3 y 1] year by simp
      moreover have "march_years (y + 4800) = march_years (y + 4799) + (if leap_year y then 366 else 365)"
        using year_step[of "y + 4799"] leap_shift[of y] by (simp only: add.assoc) simp
      ultimately show ?thesis
        using 1 n d j by (simp add: march_days_def days_in_month_def add.commute)
    next
      case 2
      then have n: "y' = y" "m' = m + 1" "d' = 1" using False nxt by (auto simp: next_ymd_def)
      have "getJulianDayNumber y (m + 1) 1 = 1 + march_days (m + 12 * (if m \<le> 2 then 1 else 0) - 3 + 1)
          + march_years (y + 4800 - (if m \<le> 2 then 1 else 0)) - 32045"
        using getJulianDayNumber_div[of "m + 1" y 1] 2 m year by (cases "m = 1") simp_all
      then show ?thesis using n d j march_days_step[OF m(1,2) 2(1), of y] by simp
    next
      case 3
      then have n: "y' = y + 1" "m' = 1" "d' = 1" using False nxt by (auto simp: next_ymd_def)
      have "getJulianDayNumber (y + 1) 1 1 = 1 + march_days 10 + march_years (y + 4800) - 32045"
        using getJulianDayNumber_div[of 1 "y + 1" 1] year by (simp add: add.commute)
      then show ?thesis using 3 n d j by (simp add: march_days_def days_in_month_def)
    qed
  qed
  have "Date_weekDay (Date_of_julian (J + 1)) = (Date_weekDay (Date_of_julian J) + 1) mod 7"
    if "0 \<le> J" for J
    using that by (simp add: Date_weekDay_def Date_of_julian_def kDaysPerWeek_def smod_nonneg mod_add_left_eq)
  with v step show ?thesis by simp
qed

theorem Date_counts_days_witness:
  "valid_ymd 1900 3 1 \<and> getJulianDayNumber 1900 3 1 = getJulianDayNumber 1900 2 28 + 1
   \<and> Date_weekDay (Date_of_julian (getJulianDayNumber 1900 3 1))
       = (Date_weekDay (Date_of_julian (getJulianDayNumber 1900 2 28)) + 1) mod 7"
proof -
  have "0 \<le> getJulianDayNumber 1900 2 28" by code_simp
  with Date_counts_days[of 1900 2 28 1900 3 1] show ?thesis
    by (auto simp: valid_ymd_def days_in_month_def leap_year_def next_ymd_def)
qed

end
