(* ===== verification/TimeZone.thy ===== *)
theory TimeZone
  imports Date
begin

text \<open>
  Time zones: \<^verbatim>\<open>src/dc/base/timeZone.h\<close> and \<^verbatim>\<open>src/dc/base/timeZone.cc\<close>. The compiled time-zone file is read
  byte by byte through the class \<open>File\<close>, an open file being its contents and the position of the
  stream; \<open>fopen\<close> is a parameter, the contents of a path or \<open>None\<close>. The readers throw
  subclasses of \<open>std::logic_error\<close>, which \<open>readTimeZoneFile\<close> catches: an exception is the
  left summand of a result, and undefined behaviour or a failed \<open>assert\<close> is \<open>None\<close> around it.
  A C++ \<open>int64_t\<close> or \<open>int\<close> is a mathematical integer; narrowing casts and the sums of values that
  come from a file are written out at their width.
\<close>

subsection \<open>Standard library\<close>

definition in_int64 :: "int \<Rightarrow> bool" where
  "in_int64 i \<longleftrightarrow> - (2 ^ 63) \<le> i \<and> i < 2 ^ 63"

definition in_int32 :: "int \<Rightarrow> bool" where
  "in_int32 i \<longleftrightarrow> - (2 ^ 31) \<le> i \<and> i < 2 ^ 31"

definition to_int32 :: "int \<Rightarrow> int" where
  "to_int32 i = signed_take_bit 31 i"

text \<open>
  \<open>std::upper_bound(first, last, v, cmp)\<close> as a distance from \<open>first\<close>. The call is undefined
  when the range is not partitioned by \<open>cmp(v, x)\<close>.
\<close>

definition std_upper_bound :: "('a \<Rightarrow> 'a \<Rightarrow> bool) \<Rightarrow> 'a \<Rightarrow> 'a list \<Rightarrow> nat outcome" where
  "std_upper_bound cmp v xs = do {
     assert_that (list_all (cmp v) (dropWhile (\<lambda>x. \<not> cmp v x) xs));
     Some (length (takeWhile (\<lambda>x. \<not> cmp v x) xs))
   }"

text \<open>\<open>v[i]\<close> of a vector, undefined out of range.\<close>

definition vec_at :: "'a list \<Rightarrow> int \<Rightarrow> 'a outcome" where
  "vec_at xs i = (if 0 \<le> i \<and> nat i < length xs then Some (xs ! nat i) else None)"

subsection \<open>Broken-down time\<close>

record date_time =
  dt_year :: int
  dt_month :: int
  dt_day :: int
  dt_hour :: int
  dt_minute :: int
  dt_second :: int

definition DateTime_default :: date_time where
  "DateTime_default = \<lparr>dt_year = 0, dt_month = 0, dt_day = 0, dt_hour = 0, dt_minute = 0, dt_second = 0\<rparr>"

definition DateTime_of_fields :: "int \<Rightarrow> int \<Rightarrow> int \<Rightarrow> int \<Rightarrow> int \<Rightarrow> int \<Rightarrow> date_time" where
  "DateTime_of_fields year month day hour minute second =
     \<lparr>dt_year = year, dt_month = month, dt_day = day, dt_hour = hour, dt_minute = minute, dt_second = second\<rparr>"

definition DateTime_of_tm :: "tm \<Rightarrow> date_time" where
  "DateTime_of_tm t = \<lparr>dt_year = tm_year t + 1900, dt_month = tm_mon t + 1, dt_day = tm_mday t,
     dt_hour = tm_hour t, dt_minute = tm_min t, dt_second = tm_sec t\<rparr>"

definition DateTime_toIsoString :: "date_time \<Rightarrow> string" where
  "DateTime_toIsoString x = snprintf_buf 64
     (fmt_zero 4 (dt_year x) @ ''-'' @ fmt_zero 2 (dt_month x) @ ''-'' @ fmt_zero 2 (dt_day x) @ '' '' @
      fmt_zero 2 (dt_hour x) @ '':'' @ fmt_zero 2 (dt_minute x) @ '':'' @ fmt_zero 2 (dt_second x))"

definition Date_toIsoString :: "date \<Rightarrow> string" where
  "Date_toIsoString x = (let ymd = Date_yearMonthDay x in snprintf_buf 32
     (fmt_blank 4 (ymd_year ymd) @ ''-'' @ fmt_zero 2 (ymd_month ymd) @ ''-'' @ fmt_zero 2 (ymd_day ymd)))"

definition kSecondsPerDay :: int where
  "kSecondsPerDay = 24 * 60 * 60"

definition fillHMS :: "int \<Rightarrow> date_time \<Rightarrow> date_time" where
  "fillHMS seconds dt = (let minutes = seconds div 60 in
     dt\<lparr>dt_second := seconds mod 60, dt_minute := minutes mod 60, dt_hour := minutes div 60\<rparr>)"

definition BreakTime :: "int \<Rightarrow> date_time" where
  "BreakTime t =
     (let dt = DateTime_default;
          seconds = to_int32 (t smod kSecondsPerDay);
          days = to_int32 (t sdiv kSecondsPerDay);
          (seconds, days) = (if seconds < 0 then (seconds + kSecondsPerDay, days - 1) else (seconds, days));
          dt = fillHMS seconds dt;
          ymd = Date_yearMonthDay (Date_of_julian (days + kJulianDayOf1970_01_01))
      in dt\<lparr>dt_year := ymd_year ymd, dt_month := ymd_month ymd, dt_day := ymd_day ymd\<rparr>)"

definition TimeZone_toUtcTime :: "int \<Rightarrow> date_time" where
  "TimeZone_toUtcTime secondsSinceEpoch = BreakTime secondsSinceEpoch"

definition TimeZone_fromUtcTime :: "date_time \<Rightarrow> int" where
  "TimeZone_fromUtcTime dt =
     (let date = Date_of_ymd (dt_year dt) (dt_month dt) (dt_day dt);
          secondsInDay = dt_hour dt * 3600 + dt_minute dt * 60 + dt_second dt;
          days = m_julianDayNumber date - kJulianDayOf1970_01_01
      in days * kSecondsPerDay + secondsInDay)"

text \<open>
  The same conversions with the \<open>int\<close> arithmetic of the source checked for overflow; the product in
  \<open>fromUtcTime\<close> is one of \<open>int64_t\<close> and always fits. The definitions above, on mathematical integers,
  agree with them for \<open>calendar_seconds\<close>.
\<close>

definition BreakTime_int :: "int \<Rightarrow> date_time outcome" where
  "BreakTime_int t = do {
     let dt = DateTime_default;
     let seconds = to_int32 (t smod kSecondsPerDay);
     let days = to_int32 (t sdiv kSecondsPerDay);
     (seconds, days) \<leftarrow> (if seconds < 0
       then do { s \<leftarrow> int_val (seconds + kSecondsPerDay); d \<leftarrow> int_val (days - 1); Some (s, d) }
       else Some (seconds, days));
     let dt = fillHMS seconds dt;
     julianDayNum \<leftarrow> int_val (days + kJulianDayOf1970_01_01);
     ymd \<leftarrow> getYearMonthDay_int julianDayNum;
     Some (dt\<lparr>dt_year := ymd_year ymd, dt_month := ymd_month ymd, dt_day := ymd_day ymd\<rparr>)
   }"

definition TimeZone_toUtcTime_int :: "int \<Rightarrow> date_time outcome" where
  "TimeZone_toUtcTime_int secondsSinceEpoch = BreakTime_int secondsSinceEpoch"

definition TimeZone_fromUtcTime_int :: "date_time \<Rightarrow> int outcome" where
  "TimeZone_fromUtcTime_int dt = do {
     julianDayNum \<leftarrow> getJulianDayNumber_int (dt_year dt) (dt_month dt) (dt_day dt);
     h \<leftarrow> int_val (dt_hour dt * 3600);
     m \<leftarrow> int_val (dt_minute dt * 60);
     hm \<leftarrow> int_val (h + m);
     secondsInDay \<leftarrow> int_val (hm + dt_second dt);
     days \<leftarrow> int_val (julianDayNum - kJulianDayOf1970_01_01);
     Some (days * kSecondsPerDay + secondsInDay)
   }"

subsection \<open>The data of a zone\<close>

record transition =
  utctime :: int
  localtime :: int
  localtimeIdx :: int

record local_time =
  utcOffset :: int
  isDst :: bool
  desigIdx :: int

record tz_data =
  transitions :: "transition list"
  localtimes :: "local_time list"
  abbrevition :: string
  tzstring :: string

datatype tz_exn = Logic_error string | Out_of_range | Length_error

definition Data_empty :: tz_data where
  "Data_empty = \<lparr>transitions = [], localtimes = [], abbrevition = [], tzstring = []\<rparr>"

definition Data_addLocalTime :: "int \<Rightarrow> bool \<Rightarrow> int \<Rightarrow> tz_data \<Rightarrow> tz_data" where
  "Data_addLocalTime off dst idx d =
     d\<lparr>localtimes := localtimes d @ [\<lparr>utcOffset = off, isDst = dst, desigIdx = idx\<rparr>]\<rparr>"

definition Data_addTransition :: "int \<Rightarrow> int \<Rightarrow> tz_data \<Rightarrow> (tz_exn + tz_data) outcome" where
  "Data_addTransition utcTime localIdx d =
     (case vec_at (localtimes d) localIdx of
        None \<Rightarrow> Some (Inl Out_of_range)
      | Some lt \<Rightarrow> do {
          assert_that (in_int64 (utcTime + utcOffset lt));
          Some (Inr (d\<lparr>transitions := transitions d @
            [\<lparr>utctime = utcTime, localtime = utcTime + utcOffset lt, localtimeIdx = localIdx\<rparr>]\<rparr>))
        })"

definition CompareUtcTime :: "transition \<Rightarrow> transition \<Rightarrow> bool" where
  "CompareUtcTime lhs rhs \<longleftrightarrow> utctime lhs < utctime rhs"

definition CompareLocalTime :: "transition \<Rightarrow> transition \<Rightarrow> bool" where
  "CompareLocalTime lhs rhs \<longleftrightarrow> localtime lhs < localtime rhs"

definition Data_findLocalTime_utc :: "tz_data \<Rightarrow> int \<Rightarrow> local_time outcome" where
  "Data_findLocalTime_utc d utcTime =
     (if transitions d = [] \<or> utcTime < utctime (hd (transitions d)) then vec_at (localtimes d) 0
      else do {
        let sentry = \<lparr>utctime = utcTime, localtime = 0, localtimeIdx = 0\<rparr>;
        transIt \<leftarrow> std_upper_bound CompareUtcTime sentry (transitions d);
        assert_that (transIt \<noteq> 0);
        if transIt \<noteq> length (transitions d)
        then vec_at (localtimes d) (localtimeIdx (transitions d ! (transIt - 1)))
        else vec_at (localtimes d) (localtimeIdx (last (transitions d)))
      })"

text \<open>The part of the local-time lookup after the iterator has been found and checked.\<close>

definition Data_findLocalTime_at :: "tz_data \<Rightarrow> int \<Rightarrow> bool \<Rightarrow> nat \<Rightarrow> local_time outcome" where
  "Data_findLocalTime_at d lt postTransition transIt =
     (if transIt = length (transitions d)
      then vec_at (localtimes d) (localtimeIdx (last (transitions d)))
      else do {
        prior_trans \<leftarrow> vec_at (transitions d) (int transIt - 1);
        prior_lt \<leftarrow> vec_at (localtimes d) (localtimeIdx prior_trans);
        let prior_second = utctime (transitions d ! transIt) - 1 + utcOffset prior_lt;
        if prior_second < lt then
          (if postTransition then vec_at (localtimes d) (localtimeIdx (transitions d ! transIt))
           else vec_at (localtimes d) (localtimeIdx prior_trans))
        else do {
          let transIt = transIt - 1;
          (prior_trans, prior_second) \<leftarrow>
            (if transIt \<noteq> 0 then do {
               let prior_trans = transitions d ! (transIt - 1);
               prior_lt \<leftarrow> vec_at (localtimes d) (localtimeIdx prior_trans);
               Some (prior_trans, utctime (transitions d ! transIt) - 1 + utcOffset prior_lt)
             } else Some (prior_trans, prior_second));
          if lt \<le> prior_second then
            (if postTransition then vec_at (localtimes d) (localtimeIdx (transitions d ! transIt))
             else vec_at (localtimes d) (localtimeIdx prior_trans))
          else vec_at (localtimes d) (localtimeIdx (transitions d ! transIt))
        }
      })"

definition Data_findLocalTime_local :: "tz_data \<Rightarrow> date_time \<Rightarrow> bool \<Rightarrow> local_time outcome" where
  "Data_findLocalTime_local d lt postTransition = do {
     let local_secs = TimeZone_fromUtcTime lt;
     if transitions d = [] \<or> local_secs < localtime (hd (transitions d)) then vec_at (localtimes d) 0
     else do {
       let sentry = \<lparr>utctime = 0, localtime = local_secs, localtimeIdx = 0\<rparr>;
       transIt \<leftarrow> std_upper_bound CompareLocalTime sentry (transitions d);
       assert_that (transIt = 0);
       Data_findLocalTime_at d local_secs postTransition transIt
     }
   }"

subsection \<open>Reading a compiled zone file\<close>

text \<open>
  An open stream. A reader consumes bytes and returns a value, throws, or is undefined; the
  stream after a throw is not observed, since the handler closes it.
\<close>

record tz_file =
  f_bytes :: string
  f_pos :: nat

type_synonym 'a reader = "tz_file \<Rightarrow> (tz_exn + 'a \<times> tz_file) outcome"

definition rd_return :: "'a \<Rightarrow> 'a reader" where
  "rd_return x f = Some (Inr (x, f))"

definition rd_throw :: "tz_exn \<Rightarrow> 'a reader" where
  "rd_throw e f = Some (Inl e)"

definition rd_bind :: "'a reader \<Rightarrow> ('a \<Rightarrow> 'b reader) \<Rightarrow> 'b reader" where
  "rd_bind m k f = (case m f of None \<Rightarrow> None | Some (Inl e) \<Rightarrow> Some (Inl e) | Some (Inr (x, f')) \<Rightarrow> k x f')"

definition rd_lift :: "(tz_exn + 'a) outcome \<Rightarrow> 'a reader" where
  "rd_lift r f = (case r of None \<Rightarrow> None | Some (Inl e) \<Rightarrow> Some (Inl e) | Some (Inr x) \<Rightarrow> Some (Inr (x, f)))"

definition rd_assert :: "bool \<Rightarrow> unit reader" where
  "rd_assert b f = (if b then Some (Inr ((), f)) else None)"

text \<open>\<open>fread(buf, 1, n, fp)\<close>: up to \<open>n\<close> bytes from the position on.\<close>

definition c_fread :: "nat \<Rightarrow> tz_file \<Rightarrow> string \<times> tz_file" where
  "c_fread n f = (let got = segment (f_pos f) n (f_bytes f) in (got, f\<lparr>f_pos := f_pos f + length got\<rparr>))"

text \<open>\<open>fread\<close> of exactly \<open>n\<close> bytes, with the exception of the caller when fewer are left.\<close>

definition fread_exactly :: "nat \<Rightarrow> string \<Rightarrow> string reader" where
  "fread_exactly n what f = (let (got, f') = c_fread n f in
     if length got \<noteq> n then Some (Inl (Logic_error what)) else Some (Inr (got, f')))"

definition File_readBytes :: "int \<Rightarrow> string reader" where
  "File_readBytes n = rd_bind (rd_assert (0 \<le> n)) (\<lambda>_. fread_exactly (nat n) ''no enough data'')"

text \<open>The loop of \<open>readToEnd\<close>: chunks of 4096 bytes until \<open>fread\<close> returns 0.\<close>

function readToEnd_loop :: "string \<Rightarrow> tz_file \<Rightarrow> string \<times> tz_file" where
  "readToEnd_loop res f = (let (got, f') = c_fread 4096 f in
     if length got > 0 then readToEnd_loop (res @ got) f' else (res, f'))"
  by pat_completeness auto
termination
  by (relation "measure (\<lambda>(res, f). length (f_bytes f) - f_pos f)") (auto simp: c_fread_def Let_def)

declare readToEnd_loop.simps [simp del]

definition File_readToEnd :: "string reader" where
  "File_readToEnd f = Some (Inr (readToEnd_loop [] f))"

definition File_readInt64 :: "int reader" where
  "File_readInt64 = rd_bind (fread_exactly 8 ''bad int64_t data'')
     (\<lambda>x. rd_return (signed_take_bit 63 (int (byte_swap 8 (le_value x)))))"

definition File_readInt32 :: "int reader" where
  "File_readInt32 = rd_bind (fread_exactly 4 ''bad int64_t data'')
     (\<lambda>x. rd_return (signed_take_bit 31 (int (byte_swap 4 (le_value x)))))"

definition File_readUint8 :: "int reader" where
  "File_readUint8 = rd_bind (fread_exactly 1 ''bad uint8_t data'') (\<lambda>x. rd_return (int (le_value x)))"

text \<open>\<open>fseek(fp, n, SEEK_CUR)\<close> fails and keeps the position when the target is negative.\<close>

definition File_skip :: "int \<Rightarrow> unit reader" where
  "File_skip n f = Some (Inr ((),
     if int (f_pos f) + n < 0 then f else f\<lparr>f_pos := nat (int (f_pos f) + n)\<rparr>))"

text \<open>\<open>vector::reserve\<close> of a negative \<open>int\<close>, converted to \<open>size_t\<close>, throws \<open>length_error\<close>.\<close>

definition vec_reserve :: "int \<Rightarrow> unit reader" where
  "vec_reserve n = (if n < 0 then rd_throw Length_error else rd_return ())"

text \<open>\<open>for (int i = 0; i < n; ++i) v.push_back(read())\<close>.\<close>

fun read_times :: "nat \<Rightarrow> 'a reader \<Rightarrow> 'a list reader" where
  "read_times 0 rd = rd_return []"
| "read_times (Suc n) rd = rd_bind rd (\<lambda>x. rd_bind (read_times n rd) (\<lambda>xs. rd_return (x # xs)))"

text \<open>The body of the loop that reads the local-time types.\<close>

definition read_local_time :: "local_time reader" where
  "read_local_time =
     rd_bind File_readInt32 (\<lambda>gmtoff. rd_bind File_readUint8 (\<lambda>isdst. rd_bind File_readUint8 (\<lambda>abbrind.
       rd_return \<lparr>utcOffset = gmtoff, isDst = isdst \<noteq> 0, desigIdx = abbrind\<rparr>)))"

text \<open>The loop that adds the transitions.\<close>

fun add_transitions :: "(int \<times> int) list \<Rightarrow> tz_data \<Rightarrow> (tz_exn + tz_data) outcome" where
  "add_transitions [] d = Some (Inr d)"
| "add_transitions ((t, i) # ts) d =
     (case Data_addTransition t i d of
        Some (Inr d') \<Rightarrow> add_transitions ts d' | r \<Rightarrow> r)"

definition readDataBlock :: "tz_data \<Rightarrow> bool \<Rightarrow> (bool \<times> tz_data) reader" where
  "readDataBlock data v1 =
     rd_bind File_readInt32 (\<lambda>isUtcCnt. rd_bind File_readInt32 (\<lambda>isStdCnt.
     rd_bind File_readInt32 (\<lambda>leapCnt. rd_bind File_readInt32 (\<lambda>timeCnt.
     rd_bind File_readInt32 (\<lambda>typeCnt. rd_bind File_readInt32 (\<lambda>charCnt.
       if leapCnt \<noteq> 0 then rd_return (False, data)
       else if isUtcCnt \<noteq> 0 \<and> isUtcCnt \<noteq> typeCnt then rd_return (False, data)
       else if isStdCnt \<noteq> 0 \<and> isStdCnt \<noteq> typeCnt then rd_return (False, data)
       else
         rd_bind (vec_reserve timeCnt) (\<lambda>_.
         rd_bind (read_times (nat timeCnt) (if v1 then File_readInt32 else File_readInt64)) (\<lambda>trans.
         rd_bind (read_times (nat timeCnt) File_readUint8) (\<lambda>idxs.
         rd_bind (vec_reserve typeCnt) (\<lambda>_.
         rd_bind (read_times (nat typeCnt) read_local_time) (\<lambda>lts.
         rd_bind (rd_lift (add_transitions (zip trans idxs)
             (foldl (\<lambda>d lt. Data_addLocalTime (utcOffset lt) (isDst lt) (desigIdx lt) d) data lts))) (\<lambda>data.
         rd_bind (File_readBytes charCnt) (\<lambda>abbr.
         rd_bind (File_skip (leapCnt * ((if v1 then 4 else 8) + 4))) (\<lambda>_.
         rd_bind (File_skip isStdCnt) (\<lambda>_.
         rd_bind (File_skip isUtcCnt) (\<lambda>_.
           if \<not> v1
           then rd_bind File_readToEnd (\<lambda>s. rd_return (True, data\<lparr>abbrevition := abbr, tzstring := s\<rparr>))
           else rd_return (True, data\<lparr>abbrevition := abbr\<rparr>)))))))))))))))))"

text \<open>The body of the \<open>try\<close> block of \<open>readTimeZoneFile\<close>.\<close>

definition read_zone :: "tz_data \<Rightarrow> (bool \<times> tz_data) reader" where
  "read_zone data =
     rd_bind (File_readBytes 4) (\<lambda>head.
     if head \<noteq> ''TZlf'' then rd_throw (Logic_error ''bad head'')
     else
       rd_bind (File_readBytes 1) (\<lambda>version.
       rd_bind (File_readBytes 15) (\<lambda>_.
       rd_bind File_readInt32 (\<lambda>isgmtCnt. rd_bind File_readInt32 (\<lambda>isStdCnt.
       rd_bind File_readInt32 (\<lambda>leapCnt. rd_bind File_readInt32 (\<lambda>timeCnt.
       rd_bind File_readInt32 (\<lambda>typeCnt. rd_bind File_readInt32 (\<lambda>charCnt.
         if version = ''2'' then
           rd_bind (rd_assert (in_int32 (6 * typeCnt) \<and> in_int32 (8 * leapCnt))) (\<lambda>_.
           rd_bind (File_skip (4 * timeCnt + timeCnt + 6 * typeCnt + charCnt + 8 * leapCnt
                                 + isStdCnt + isgmtCnt)) (\<lambda>_.
           rd_bind (File_readBytes 4) (\<lambda>head.
             if head \<noteq> ''TZlf'' then rd_throw (Logic_error ''bad head'')
             else rd_bind (File_skip 16) (\<lambda>_. readDataBlock data False))))
         else rd_bind (File_skip (- 4 * 6)) (\<lambda>_. readDataBlock data True))))))))))"

text \<open>
  \<open>readTimeZoneFile\<close>: the flag it returns and the data after it. The catch clause takes every
  \<open>logic_error\<close>, which \<open>out_of_range\<close> and \<open>length_error\<close> are; the data of a failed read is
  thrown away by the only caller.
\<close>

definition readTimeZoneFile :: "(string \<Rightarrow> string option) \<Rightarrow> string \<Rightarrow> tz_data \<Rightarrow> (bool \<times> tz_data) outcome" where
  "readTimeZoneFile fopen zoneFile data =
     (case fopen zoneFile of
        None \<Rightarrow> Some (False, data)
      | Some bytes \<Rightarrow>
          (case read_zone data \<lparr>f_bytes = bytes, f_pos = 0\<rparr> of
             None \<Rightarrow> None
           | Some (Inl e) \<Rightarrow> Some (False, data)
           | Some (Inr (r, f)) \<Rightarrow> Some r))"

subsection \<open>The class \<open>TimeZone\<close>\<close>

record time_zone =
  m_data :: "tz_data option"

definition TimeZone_invalid :: time_zone where
  "TimeZone_invalid = \<lparr>m_data = None\<rparr>"

definition TimeZone_of_data :: "tz_data option \<Rightarrow> time_zone" where
  "TimeZone_of_data data = \<lparr>m_data = data\<rparr>"

definition TimeZone_fixed :: "int \<Rightarrow> string \<Rightarrow> time_zone" where
  "TimeZone_fixed eastOfUtc name =
     \<lparr>m_data = Some ((Data_addLocalTime eastOfUtc False 0 Data_empty)\<lparr>abbrevition := name\<rparr>)\<rparr>"

definition TimeZone_UTC :: time_zone where
  "TimeZone_UTC = TimeZone_fixed 0 ''UTC''"

definition TimeZone_valid :: "time_zone \<Rightarrow> bool" where
  "TimeZone_valid tz \<longleftrightarrow> m_data tz \<noteq> None"

definition TimeZone_loadZoneFile :: "(string \<Rightarrow> string option) \<Rightarrow> string \<Rightarrow> time_zone outcome" where
  "TimeZone_loadZoneFile fopen zonefile =
     (case readTimeZoneFile fopen zonefile Data_empty of
        None \<Rightarrow> None
      | Some (ok, data) \<Rightarrow> Some (TimeZone_of_data (if \<not> ok then None else Some data)))"

text \<open>
  The optional output parameter \<open>int* utcOffset\<close> is \<open>None\<close> for a null pointer. The sum of the seconds and
  the offset is one of \<open>int64_t\<close>; times are far from its limits.
\<close>

definition TimeZone_toLocalTime ::
    "time_zone \<Rightarrow> int \<Rightarrow> int option \<Rightarrow> (date_time \<times> int option) outcome" where
  "TimeZone_toLocalTime tz seconds out = do {
     data \<leftarrow> m_data tz;
     local \<leftarrow> Data_findLocalTime_utc data seconds;
     Some (BreakTime (seconds + utcOffset local), map_option (\<lambda>_. utcOffset local) out)
   }"

definition TimeZone_fromLocalTime :: "time_zone \<Rightarrow> date_time \<Rightarrow> bool \<Rightarrow> int outcome" where
  "TimeZone_fromLocalTime tz lt postTransition = do {
     data \<leftarrow> m_data tz;
     local \<leftarrow> Data_findLocalTime_local data lt postTransition;
     let localSeconds = TimeZone_fromUtcTime lt;
     Some (localSeconds - utcOffset local)
   }"

end
