(* ===== verification/TimeZoneProps.thy ===== *)
theory TimeZoneProps
  imports TimeZone
begin

text \<open>
  Correctness of the time-zone code: the conversion between seconds and broken-down UTC time is a
  bijection, the lookup of the offset in force, the round trip through a fixed zone, the reader of
  compiled zone files against a writer of the format, and the two faults of this component: the
  file signature it expects and the assertion of the local-time lookup.
\<close>

subsection \<open>Broken-down time\<close>

definition valid_hms :: "date_time \<Rightarrow> bool" where
  "valid_hms dt \<longleftrightarrow> 0 \<le> dt_hour dt \<and> dt_hour dt < 24 \<and> 0 \<le> dt_minute dt \<and> dt_minute dt < 60
     \<and> 0 \<le> dt_second dt \<and> dt_second dt < 60"

definition valid_date_time :: "date_time \<Rightarrow> bool" where
  "valid_date_time dt \<longleftrightarrow> valid_ymd (dt_year dt) (dt_month dt) (dt_day dt) \<and> valid_hms dt"

text \<open>
  Seconds whose day number lies between -32044 (1 March of the year -4800) and 536838867, the last one
  whose conversion does not overflow 32 bits (in the year 1465102).
\<close>

definition calendar_seconds :: "int \<Rightarrow> bool" where
  "calendar_seconds t \<longleftrightarrow> - 2472632 * 86400 \<le> t \<and> t < 534398280 * 86400"

lemma to_int32_small: "in_int32 i \<Longrightarrow> to_int32 i = i"
  by (simp add: to_int32_def in_int32_def signed_take_bit_int_eq_self)

lemma julian_1970: "kJulianDayOf1970_01_01 = 2440588"
  by (simp add: kJulianDayOf1970_01_01_def getJulianDayNumber_def Let_def signed_divide_int_def)

text \<open>The truncating split of the code, corrected for negative times, is the flooring one.\<close>

lemma trunc_bounds: "- 86400 < (t::int) smod 86400" "t smod 86400 < 86400"
  using pos_mod_bound[of 86400 "\<bar>t\<bar>"] pos_mod_sign[of 86400 "\<bar>t\<bar>"]
  by (auto simp: signed_modulo_int_def sgn_if)

lemma floor_split:
  fixes t :: int
  shows "(if t smod 86400 < 0 then (t smod 86400 + 86400, t sdiv 86400 - 1)
          else (t smod 86400, t sdiv 86400)) = (t mod 86400, t div 86400)"
proof (cases "0 \<le> t")
  case True
  then show ?thesis by (simp add: sdiv_nonneg smod_nonneg)
next
  case False
  then have q: "t sdiv 86400 = - ((- t) div 86400)" "t smod 86400 = - ((- t) mod 86400)"
    by (simp_all add: signed_divide_int_def signed_modulo_int_def)
  show ?thesis unfolding q by (auto simp: zmod_zminus1_eq_if zdiv_zminus1_eq_if)
qed

lemma kSecondsPerDay_eq: "kSecondsPerDay = 86400"
  by (simp add: kSecondsPerDay_def)

lemma BreakTime_floor:
  assumes "calendar_seconds t"
  shows "BreakTime t =
    (let s = t mod 86400; ymd = getYearMonthDay (t div 86400 + kJulianDayOf1970_01_01)
     in \<lparr>dt_year = ymd_year ymd, dt_month = ymd_month ymd, dt_day = ymd_day ymd,
         dt_hour = s div 60 div 60, dt_minute = s div 60 mod 60, dt_second = s mod 60\<rparr>)"
proof -
  have "- 2472633 \<le> t sdiv 86400 \<and> t sdiv 86400 < 534398281 \<and> -86400 < t smod 86400 \<and> t smod 86400 < 86400"
    using floor_split[of t] assms trunc_bounds[of t]
    by (cases "t smod 86400 < 0") (auto simp: calendar_seconds_def)
  then have small: "to_int32 (t smod 86400) = t smod 86400" "to_int32 (t sdiv 86400) = t sdiv 86400"
    by (auto intro!: to_int32_small simp: in_int32_def)
  show ?thesis
    unfolding BreakTime_def kSecondsPerDay_eq Let_def small floor_split
    by (simp add: fillHMS_def DateTime_default_def Date_yearMonthDay_def Date_of_julian_def Let_def)
qed

lemma toUtcTime_fromUtcTime:
  assumes "calendar_seconds t"
  shows "valid_date_time (TimeZone_toUtcTime t) \<and> TimeZone_fromUtcTime (TimeZone_toUtcTime t) = t"
proof -
  define j where "j = t div 86400 + kJulianDayOf1970_01_01"
  define s where "s = t mod 86400"
  have s: "0 \<le> s" "s < 86400" by (simp_all add: s_def)
  have "-32044 \<le> j" using assms zdiv_mono1[of "- 2472632 * 86400" t 86400]
    by (simp add: j_def julian_1970 calendar_seconds_def)
  note ymd = getJulianDayNumber_inverse[OF this]
  define q where "q = s div 60"
  have q: "0 \<le> q" "q < 1440" using s zdiv_mono1[of s "86399" 60] by (simp_all add: q_def)
  have "q div 60 * 60 + q mod 60 = q" "q * 60 + s mod 60 = s" by (simp_all add: q_def)
  then have hms: "q div 60 * 3600 + q mod 60 * 60 + s mod 60 = s" by linarith
  have h: "0 \<le> q div 60" "q div 60 < 24" using q zdiv_mono1[of q 1439 60] by simp_all
  have t: "(j - kJulianDayOf1970_01_01) * 86400 + s = t" by (simp add: j_def s_def)
  have "valid_hms (BreakTime t)"
    using h by (simp add: BreakTime_floor[OF assms] valid_hms_def Let_def s_def[symmetric] q_def[symmetric])
  with ymd hms t show ?thesis
    by (simp add: TimeZone_toUtcTime_def TimeZone_fromUtcTime_def BreakTime_floor[OF assms] Let_def
        valid_date_time_def Date_of_ymd_def kSecondsPerDay_def j_def[symmetric] s_def[symmetric]
        q_def[symmetric])
qed

lemma BreakTime_int_eq:
  assumes "calendar_seconds t"
  shows "BreakTime_int t = Some (BreakTime t)"
proof -
  have "- 2472633 \<le> t sdiv 86400 \<and> t sdiv 86400 < 534398281 \<and> -86400 < t smod 86400 \<and> t smod 86400 < 86400"
    using floor_split[of t] assms trunc_bounds[of t]
    by (cases "t smod 86400 < 0") (auto simp: calendar_seconds_def)
  then have small: "to_int32 (t smod 86400) = t smod 86400" "to_int32 (t sdiv 86400) = t sdiv 86400"
    and sums: "t smod 86400 < 0 \<Longrightarrow> int_val (t smod 86400 + 86400) = Some (t smod 86400 + 86400)"
      "int_val (t sdiv 86400 - 1) = Some (t sdiv 86400 - 1)"
    by (auto intro!: to_int32_small int_val_small simp: in_int32_def)
  define j where "j = t div 86400 + kJulianDayOf1970_01_01"
  have j: "-32044 \<le> j" "j \<le> 536838867"
    using assms zdiv_mono1[of "- 2472632 * 86400" t 86400] zdiv_mono1[of t "534398280 * 86400 - 1" 86400]
    by (simp_all add: j_def julian_1970 calendar_seconds_def)
  have split: "(if t smod 86400 < 0
       then do { s \<leftarrow> int_val (t smod 86400 + 86400); d \<leftarrow> int_val (t sdiv 86400 - 1); Some (s, d) }
       else Some (t smod 86400, t sdiv 86400)) = Some (t mod 86400, t div 86400)"
    using sums floor_split[of t] by (auto split: if_splits)
  have "int_val j = Some j" using j by (intro int_val_small) simp_all
  with getYearMonthDay_int_eq[OF j] show ?thesis
    unfolding BreakTime_int_def BreakTime_def kSecondsPerDay_eq Let_def small split floor_split
    by (simp add: j_def[symmetric] Date_yearMonthDay_def Date_of_julian_def)
qed

lemma fromUtcTime_int_eq:
  assumes valid: "valid_date_time dt" and year: "0 \<le> dt_year dt + 4800 - (if dt_month dt \<le> 2 then 1 else 0)"
    "dt_year dt \<le> 1471000"
  shows "TimeZone_fromUtcTime_int dt = Some (TimeZone_fromUtcTime dt)"
proof -
  have ymd: "valid_ymd (dt_year dt) (dt_month dt) (dt_day dt)" and hms: "valid_hms dt"
    using valid by (simp_all add: valid_date_time_def)
  then have day: "1 \<le> dt_month dt" "dt_month dt \<le> 12" "1 \<le> dt_day dt" "dt_day dt \<le> 31"
    by (auto simp: valid_ymd_def days_in_month_def split: if_splits)
  have "getJulianDayNumber_int (dt_year dt) (dt_month dt) (dt_day dt)
      = Some (getJulianDayNumber (dt_year dt) (dt_month dt) (dt_day dt))"
    by (rule getJulianDayNumber_int_eq[OF day year(1)]) (use year(2) in simp)
  with hms julian_year_bounds[OF ymd year(1)] year(2) show ?thesis
    by (simp add: TimeZone_fromUtcTime_int_def TimeZone_fromUtcTime_def Date_of_ymd_def int_val_small valid_hms_def
        julian_1970)
qed

text \<open>The date of every time within the calendar is in the range of the conversion back.\<close>

lemma toUtcTime_year:
  assumes "calendar_seconds t"
  shows "0 \<le> dt_year (TimeZone_toUtcTime t) + 4800 - (if dt_month (TimeZone_toUtcTime t) \<le> 2 then 1 else 0)
    \<and> dt_year (TimeZone_toUtcTime t) \<le> 1471000"
proof -
  define j where "j = t div 86400 + kJulianDayOf1970_01_01"
  have j: "-32044 \<le> j" "j \<le> 536838867"
    using assms zdiv_mono1[of "- 2472632 * 86400" t 86400] zdiv_mono1[of t "534398280 * 86400 - 1" 86400]
    by (simp_all add: j_def julian_1970 calendar_seconds_def)
  note inv = getJulianDayNumber_inverse[OF j(1)]
  have "dt_year (TimeZone_toUtcTime t) = ymd_year (getYearMonthDay j)"
    "dt_month (TimeZone_toUtcTime t) = ymd_month (getYearMonthDay j)"
    by (simp_all add: TimeZone_toUtcTime_def BreakTime_floor[OF assms] j_def Let_def)
  with inv julian_year_bounds(2)[of "ymd_year (getYearMonthDay j)" "ymd_month (getYearMonthDay j)"
      "ymd_day (getYearMonthDay j)"] j(2)
  show ?thesis by simp
qed

lemma fromUtcTime_calendar:
  assumes "valid_date_time dt" and year: "-4799 \<le> dt_year dt" "dt_year dt \<le> 1465100"
  shows "calendar_seconds (TimeZone_fromUtcTime dt)"
proof -
  have ymd: "valid_ymd (dt_year dt) (dt_month dt) (dt_day dt)" and hms: "valid_hms dt"
    using assms(1) by (simp_all add: valid_date_time_def)
  have "0 \<le> dt_year dt + 4800 - (if dt_month dt \<le> 2 then 1 else 0)" using year(1) by simp
  from julian_year_bounds[OF ymd this] hms year(2) show ?thesis
    by (simp add: calendar_seconds_def TimeZone_fromUtcTime_def Date_of_ymd_def kSecondsPerDay_eq julian_1970 valid_hms_def
        algebra_simps)
qed

lemma hms_split:
  fixes h m s :: int
  assumes "0 \<le> h" "h < 24" "0 \<le> m" "m < 60" "0 \<le> s" "s < 60"
  shows "(d * 86400 + (h * 3600 + m * 60 + s)) mod 86400 = h * 3600 + m * 60 + s"
    "(d * 86400 + (h * 3600 + m * 60 + s)) div 86400 = d"
    "(h * 3600 + m * 60 + s) div 60 div 60 = h" "(h * 3600 + m * 60 + s) div 60 mod 60 = m"
    "(h * 3600 + m * 60 + s) mod 60 = s"
proof -
  define x where "x = h * 3600 + m * 60 + s"
  have x: "0 \<le> x" "x < 86400" using assms unfolding x_def by linarith+
  then show "(d * 86400 + (h * 3600 + m * 60 + s)) mod 86400 = h * 3600 + m * 60 + s"
    "(d * 86400 + (h * 3600 + m * 60 + s)) div 86400 = d"
    unfolding x_def[symmetric] by simp_all
  have d: "x div 60 = h * 60 + m" using assms by (intro int_divI) (simp_all add: x_def)
  have "x = x div 60 * 60 + x mod 60" by simp
  with d show "(h * 3600 + m * 60 + s) mod 60 = s" unfolding x_def[symmetric] by (simp add: x_def)
  show "(h * 3600 + m * 60 + s) div 60 div 60 = h" "(h * 3600 + m * 60 + s) div 60 mod 60 = m"
    unfolding x_def[symmetric] d using assms by simp_all
qed

lemma fromUtcTime_toUtcTime:
  assumes "valid_date_time dt" "-4799 \<le> dt_year dt" and cal: "calendar_seconds (TimeZone_fromUtcTime dt)"
  shows "TimeZone_toUtcTime (TimeZone_fromUtcTime dt) = dt"
proof -
  have hms: "0 \<le> dt_hour dt" "dt_hour dt < 24" "0 \<le> dt_minute dt" "dt_minute dt < 60"
    "0 \<le> dt_second dt" "dt_second dt < 60"
    using assms(1) by (simp_all add: valid_date_time_def valid_hms_def)
  have "valid_ymd (dt_year dt) (dt_month dt) (dt_day dt)" using assms(1) by (simp add: valid_date_time_def)
  note ymd = getYearMonthDay_inverse[OF this assms(2)]
  show ?thesis
    unfolding TimeZone_toUtcTime_def BreakTime_floor[OF cal]
    unfolding TimeZone_fromUtcTime_def kSecondsPerDay_eq Let_def
    unfolding hms_split[OF hms] by (simp add: ymd Date_of_ymd_def)
qed

subsection \<open>The offset in force\<close>

text \<open>
  A zone as the reader builds it: at least one local-time type, every index in range, and the
  transitions in strictly increasing order of UTC time.
\<close>

definition zone_indices_ok :: "tz_data \<Rightarrow> bool" where
  "zone_indices_ok d \<longleftrightarrow> localtimes d \<noteq> []
     \<and> (\<forall>x \<in> set (transitions d). 0 \<le> localtimeIdx x \<and> nat (localtimeIdx x) < length (localtimes d))"

definition zone_sorted :: "tz_data \<Rightarrow> bool" where
  "zone_sorted d \<longleftrightarrow> sorted_wrt (\<lambda>x y. utctime x < utctime y) (transitions d)"

text \<open>The local-time type of the latest transition that is not after \<open>t\<close>, else the first type.\<close>

definition type_in_force :: "tz_data \<Rightarrow> int \<Rightarrow> local_time" where
  "type_in_force d t =
     (case filter (\<lambda>x. utctime x \<le> t) (transitions d) of
        [] \<Rightarrow> hd (localtimes d)
      | x # xs \<Rightarrow> localtimes d ! nat (localtimeIdx (last (x # xs))))"

lemma sorted_upper_bound:
  assumes "sorted_wrt (\<lambda>x y. f x < f y) xs" and c: "\<And>x. cmp v x \<longleftrightarrow> (t::int) < f x"
  shows "std_upper_bound cmp v xs = Some (length (filter (\<lambda>x. f x \<le> t) xs))
       \<and> filter (\<lambda>x. f x \<le> t) xs = take (length (filter (\<lambda>x. f x \<le> t) xs)) xs"
  using assms(1)
proof (induction xs)
  case (Cons a xs)
  then have tail: "\<forall>x \<in> set xs. f a < f x" by simp
  show ?case
  proof (cases "f a \<le> t")
    case True
    then show ?thesis using Cons by (auto simp: std_upper_bound_def c)
  next
    case False
    then have "\<forall>x \<in> set xs. t < f x" using tail by auto
    then have "filter (\<lambda>x. f x \<le> t) xs = []" by (auto simp: filter_empty_conv)
    with False show ?thesis
      using \<open>\<forall>x \<in> set xs. t < f x\<close> by (simp add: std_upper_bound_def c list_all_iff)
  qed
qed (simp add: std_upper_bound_def)

lemma last_take_nth: "0 < n \<Longrightarrow> n \<le> length xs \<Longrightarrow> last (take n xs) = xs ! (n - 1)"
  by (subst last_conv_nth) auto

lemma findLocalTime_utc_in_force:
  assumes idx: "zone_indices_ok d" and sorted: "zone_sorted d"
  shows "Data_findLocalTime_utc d t = Some (type_in_force d t)"
proof (cases "transitions d = [] \<or> t < utctime (hd (transitions d))")
  case True
  then have "filter (\<lambda>x. utctime x \<le> t) (transitions d) = []"
    using sorted by (cases "transitions d") (force simp: filter_empty_conv zone_sorted_def)+
  with True idx show ?thesis
    by (simp add: Data_findLocalTime_utc_def type_in_force_def vec_at_def zone_indices_ok_def hd_conv_nth)
next
  case False
  define ts where "ts = transitions d"
  define n where "n = length (filter (\<lambda>x. utctime x \<le> t) ts)"
  have ub: "std_upper_bound CompareUtcTime \<lparr>utctime = t, localtime = 0, localtimeIdx = 0\<rparr> ts = Some n"
    and pre: "filter (\<lambda>x. utctime x \<le> t) ts = take n ts"
    using sorted_upper_bound[of utctime ts CompareUtcTime "\<lparr>utctime = t, localtime = 0, localtimeIdx = 0\<rparr>" t]
      sorted by (simp_all add: zone_sorted_def ts_def CompareUtcTime_def n_def)
  have "hd ts \<in> set (filter (\<lambda>x. utctime x \<le> t) ts)" using False by (auto simp: ts_def)
  then have n: "0 < n" "n \<le> length ts" unfolding n_def by (auto simp: filter_empty_conv)
  have lst: "last (take n ts) = ts ! (n - 1)" using n by (rule last_take_nth)
  have "ts ! (n - 1) \<in> set ts" using n by simp
  then have at: "vec_at (localtimes d) (localtimeIdx (ts ! (n - 1)))
      = Some (localtimes d ! nat (localtimeIdx (ts ! (n - 1))))"
    using idx by (simp add: zone_indices_ok_def vec_at_def ts_def)
  have "type_in_force d t = localtimes d ! nat (localtimeIdx (ts ! (n - 1)))"
    using n lst pre by (cases "take n ts") (auto simp: type_in_force_def ts_def[symmetric])
  moreover have "last ts = ts ! (n - 1)" if "n = length ts" using lst that by simp
  ultimately show ?thesis
    using False ub n at by (auto simp: Data_findLocalTime_utc_def ts_def[symmetric])
qed

lemma findLocalTime_local_aborts:
  assumes "transitions d \<noteq> []" "localtime (hd (transitions d)) \<le> TimeZone_fromUtcTime lt"
  shows "Data_findLocalTime_local d lt post = None"
  using assms by (cases "transitions d")
    (auto simp: Data_findLocalTime_local_def std_upper_bound_def CompareLocalTime_def Let_def bind_eq_None_conv)

subsection \<open>Reading what a writer of the format wrote\<close>

text \<open>
  \<open>reads rd bs x\<close>: from any position of any stream, \<open>rd\<close> consumes exactly the bytes \<open>bs\<close> and
  returns \<open>x\<close>. Sequential composition of readers concatenates the bytes.
\<close>

definition stream :: "string \<Rightarrow> string \<Rightarrow> tz_file" where
  "stream past rest = \<lparr>f_bytes = past @ rest, f_pos = length past\<rparr>"

definition reads :: "'a reader \<Rightarrow> string \<Rightarrow> 'a \<Rightarrow> bool" where
  "reads rd bs x \<longleftrightarrow> (\<forall>past rest. rd (stream past (bs @ rest)) = Some (Inr (x, stream (past @ bs) rest)))"

named_theorems reads_intros \<open>readers and the bytes they consume\<close>

lemma reads_return [reads_intros]: "reads (rd_return x) [] x"
  by (simp add: reads_def rd_return_def)

lemma reads_bind: "reads m bs x \<Longrightarrow> reads (k x) cs y \<Longrightarrow> reads (rd_bind m k) (bs @ cs) y"
  by (simp add: reads_def rd_bind_def)

lemma reads_map: "reads m bs x \<Longrightarrow> reads (rd_bind m (\<lambda>a. rd_return (g a))) bs (g x)"
  by (simp add: reads_def rd_bind_def rd_return_def)

lemma reads_map': "reads m bs x \<Longrightarrow> g x = y \<Longrightarrow> reads (rd_bind m (\<lambda>a. rd_return (g a))) bs y"
  using reads_map[of m bs x g] by simp

lemma reads_bind_Nil: "reads m [] x \<Longrightarrow> reads (k x) cs y \<Longrightarrow> reads (rd_bind m k) cs y"
  using reads_bind[of m "[]" x k cs y] by simp

lemma reads_lift [reads_intros]: "r = Some (Inr x) \<Longrightarrow> reads (rd_lift r) [] x"
  by (simp add: reads_def rd_lift_def)

lemma reads_assert [reads_intros]: "b \<Longrightarrow> reads (rd_assert b) [] ()"
  by (simp add: reads_def rd_assert_def)

lemma reads_exactly: "length bs = n \<Longrightarrow> reads (fread_exactly n w) bs bs"
  by (auto simp: reads_def fread_exactly_def c_fread_def stream_def segment_def Let_def)

lemma reads_readBytes [reads_intros]: "int (length bs) = n \<Longrightarrow> reads (File_readBytes n) bs bs"
  unfolding File_readBytes_def by (rule reads_bind_Nil[OF reads_assert reads_exactly]) simp_all

lemma reads_skip [reads_intros]: "int (length bs) = n \<Longrightarrow> reads (File_skip n) bs ()"
  by (auto simp: reads_def File_skip_def stream_def nat_add_distrib)

lemma reads_reserve [reads_intros]: "0 \<le> n \<Longrightarrow> reads (vec_reserve n) [] ()"
  by (simp add: vec_reserve_def reads_return)

text \<open>Big-endian two's complement on \<open>n\<close> bytes.\<close>

definition be_bytes :: "nat \<Rightarrow> int \<Rightarrow> string" where
  "be_bytes n i = rev (le_bytes n (nat (i mod 256 ^ n)))"

lemma length_be_bytes [simp]: "length (be_bytes n i) = n"
  by (simp add: be_bytes_def)

lemma swap_be_bytes: "int (byte_swap n (le_value (be_bytes n i))) = i mod 256 ^ n"
  by (simp add: byte_swap_def be_bytes_def le_bytes_le_value le_value_le_bytes nat_mod_as_int)

lemma reads_int32 [reads_intros]:
  assumes "in_int32 i"
  shows "reads File_readInt32 (be_bytes 4 i) i"
proof -
  have "signed_take_bit 31 (int (byte_swap 4 (le_value (be_bytes 4 i)))) = signed_take_bit 31 (take_bit 32 i)"
    by (simp add: swap_be_bytes take_bit_eq_mod)
  also have "\<dots> = i" using assms by (simp add: signed_take_bit_take_bit signed_take_bit_int_eq_self in_int32_def)
  finally show ?thesis
    unfolding File_readInt32_def by (intro reads_map'[OF reads_exactly]) simp_all
qed

lemma reads_int64 [reads_intros]:
  assumes "in_int64 i"
  shows "reads File_readInt64 (be_bytes 8 i) i"
proof -
  have "signed_take_bit 63 (int (byte_swap 8 (le_value (be_bytes 8 i)))) = signed_take_bit 63 (take_bit 64 i)"
    by (simp add: swap_be_bytes take_bit_eq_mod)
  also have "\<dots> = i" using assms by (simp add: signed_take_bit_take_bit signed_take_bit_int_eq_self in_int64_def)
  finally show ?thesis
    unfolding File_readInt64_def by (intro reads_map'[OF reads_exactly]) simp_all
qed

lemma reads_uint8 [reads_intros]: "0 \<le> i \<Longrightarrow> i < 256 \<Longrightarrow> reads File_readUint8 [char_of (nat i)] i"
  unfolding File_readUint8_def by (rule reads_map'[OF reads_exactly]) simp_all

lemma reads_times:
  "(\<And>x. x \<in> set xs \<Longrightarrow> reads rd (enc x) x) \<Longrightarrow> reads (read_times (length xs) rd) (concat (map enc xs)) xs"
proof (induction xs)
  case (Cons a xs)
  from Cons.IH Cons.prems have "reads (read_times (length xs) rd) (concat (map enc xs)) xs" by simp
  then have "reads (rd_bind (read_times (length xs) rd) (\<lambda>xs. rd_return (a # xs))) (concat (map enc xs)) (a # xs)"
    by (rule reads_map)
  moreover have "reads rd (enc a) a" using Cons.prems by simp
  ultimately have "reads (rd_bind rd (\<lambda>x. rd_bind (read_times (length xs) rd) (\<lambda>xs. rd_return (x # xs))))
      (enc a @ concat (map enc xs)) (a # xs)" by (intro reads_bind)
  then show ?case by simp
qed (simp add: reads_return)

lemma readToEnd_loop_rest: "f_pos f \<le> length (f_bytes f) \<Longrightarrow>
  readToEnd_loop res f = (res @ drop (f_pos f) (f_bytes f), f\<lparr>f_pos := length (f_bytes f)\<rparr>)"
proof (induction res f rule: readToEnd_loop.induct)
  case (1 res f)
  define got where "got = segment (f_pos f) 4096 (f_bytes f)"
  have c: "c_fread 4096 f = (got, f\<lparr>f_pos := f_pos f + length got\<rparr>)"
    by (simp add: c_fread_def got_def Let_def)
  have len: "length got = min 4096 (length (f_bytes f) - f_pos f)" by (simp add: got_def)
  show ?case
  proof (cases "got = []")
    case True
    with len "1.prems" have "f_pos f = length (f_bytes f)" by (auto simp: min_def split: if_splits)
    with True c show ?thesis by (subst readToEnd_loop.simps) (cases f, simp)
  next
    case False
    have "f_pos f + length got \<le> length (f_bytes f)" using len "1.prems" by simp
    with "1.IH"[OF c[symmetric] refl] False
    have "readToEnd_loop (res @ got) (f\<lparr>f_pos := f_pos f + length got\<rparr>)
        = ((res @ got) @ drop (f_pos f + length got) (f_bytes f), f\<lparr>f_pos := length (f_bytes f)\<rparr>)" by simp
    moreover have "got @ drop (f_pos f + length got) (f_bytes f) = drop (f_pos f) (f_bytes f)"
      unfolding len unfolding got_def segment_def
      by (metis add.commute append_take_drop_id drop_drop length_drop min.commute take_take take_all_iff nle_le min_def)
    ultimately show ?thesis using c False by (subst readToEnd_loop.simps) simp
  qed
qed

text \<open>A reader at the end of the file, which may leave the stream anywhere.\<close>

definition reads_all :: "'a reader \<Rightarrow> string \<Rightarrow> 'a \<Rightarrow> bool" where
  "reads_all rd bs x \<longleftrightarrow> (\<forall>past. \<exists>f. rd (stream past bs) = Some (Inr (x, f)))"

lemma reads_all_bind: "reads m bs x \<Longrightarrow> reads_all (k x) cs y \<Longrightarrow> reads_all (rd_bind m k) (bs @ cs) y"
  by (simp add: reads_def reads_all_def rd_bind_def)

lemma reads_all_bind_Nil: "reads m [] x \<Longrightarrow> reads_all (k x) cs y \<Longrightarrow> reads_all (rd_bind m k) cs y"
  using reads_all_bind[of m "[]" x k cs y] by simp

lemma reads_all_readToEnd: "g bs = y \<Longrightarrow> reads_all (rd_bind File_readToEnd (\<lambda>s. rd_return (g s))) bs y"
  by (simp add: reads_all_def rd_bind_def rd_return_def File_readToEnd_def readToEnd_loop_rest stream_def)

subsection \<open>The file format\<close>

definition type_bytes :: "local_time \<Rightarrow> string" where
  "type_bytes lt = be_bytes 4 (utcOffset lt) @ [char_of (if isDst lt then 1 else 0 :: nat)]
     @ [char_of (nat (desigIdx lt))]"

definition zone_block :: "tz_data \<Rightarrow> string" where
  "zone_block d =
     be_bytes 4 0 @ be_bytes 4 0 @ be_bytes 4 0 @ be_bytes 4 (int (length (transitions d))) @
     be_bytes 4 (int (length (localtimes d))) @ be_bytes 4 (int (length (abbrevition d))) @
     concat (map (be_bytes 8) (map utctime (transitions d))) @
     concat (map (\<lambda>i. [char_of (nat i)]) (map localtimeIdx (transitions d))) @
     concat (map type_bytes (localtimes d)) @ abbrevition d @ tzstring d"

text \<open>A version-2 file: the header, a 32-bit block \<open>old\<close> that is skipped, and the 64-bit block.\<close>

definition zone_file :: "nat \<Rightarrow> nat \<Rightarrow> nat \<Rightarrow> nat \<Rightarrow> nat \<Rightarrow> nat \<Rightarrow> string \<Rightarrow> tz_data \<Rightarrow> string" where
  "zone_file g s l t y c old d =
     ''TZlf'' @ ''2'' @ replicate 15 (char_of (0::nat)) @
     be_bytes 4 (int g) @ be_bytes 4 (int s) @ be_bytes 4 (int l) @ be_bytes 4 (int t) @
     be_bytes 4 (int y) @ be_bytes 4 (int c) @ old @
     ''TZlf'' @ replicate 16 (char_of (0::nat)) @ zone_block d"

definition transition_wf :: "local_time list \<Rightarrow> transition \<Rightarrow> bool" where
  "transition_wf lts x \<longleftrightarrow> 0 \<le> localtimeIdx x \<and> nat (localtimeIdx x) < length lts
     \<and> localtimeIdx x < 256 \<and> in_int64 (utctime x) \<and> in_int64 (localtime x)
     \<and> localtime x = utctime x + utcOffset (lts ! nat (localtimeIdx x))"

definition zone_wf :: "tz_data \<Rightarrow> bool" where
  "zone_wf d \<longleftrightarrow> (\<forall>x \<in> set (transitions d). transition_wf (localtimes d) x)
     \<and> (\<forall>lt \<in> set (localtimes d). in_int32 (utcOffset lt) \<and> 0 \<le> desigIdx lt \<and> desigIdx lt < 256)
     \<and> length (transitions d) < 2 ^ 31 \<and> length (localtimes d) < 2 ^ 31 \<and> length (abbrevition d) < 2 ^ 31"

lemma reads_local_time:
  assumes "in_int32 (utcOffset lt)" "0 \<le> desigIdx lt" "desigIdx lt < 256"
  shows "reads read_local_time (type_bytes lt) lt"
  unfolding read_local_time_def type_bytes_def
proof (intro reads_bind)
  show "reads File_readInt32 (be_bytes 4 (utcOffset lt)) (utcOffset lt)" using assms(1) by (rule reads_int32)
  show "reads File_readUint8 [char_of (if isDst lt then 1 else 0 :: nat)] (if isDst lt then 1 else 0)"
    using reads_uint8[of "if isDst lt then 1 else 0"] by (cases "isDst lt") simp_all
  show "reads (rd_bind File_readUint8 (\<lambda>abbrind. rd_return \<lparr>utcOffset = utcOffset lt,
      isDst = (if isDst lt then 1 else 0 :: int) \<noteq> 0, desigIdx = abbrind\<rparr>)) [char_of (nat (desigIdx lt))] lt"
    by (rule reads_map'[OF reads_uint8]) (use assms in \<open>simp_all split: if_splits\<close>)
qed

lemma add_transitions_wf:
  assumes "\<forall>x \<in> set ts. transition_wf (localtimes d) x"
  shows "add_transitions (zip (map utctime ts) (map localtimeIdx ts)) d
       = Some (Inr (d\<lparr>transitions := transitions d @ ts\<rparr>))"
  using assms
proof (induction ts arbitrary: d)
  case (Cons a ts)
  have "in_int64 (utctime a + utcOffset (localtimes d ! nat (localtimeIdx a)))"
    "a = \<lparr>utctime = utctime a, localtime = utctime a + utcOffset (localtimes d ! nat (localtimeIdx a)),
        localtimeIdx = localtimeIdx a\<rparr>"
    using Cons.prems by (auto simp: transition_wf_def intro: transition.equality)
  then have "Data_addTransition (utctime a) (localtimeIdx a) d = Some (Inr (d\<lparr>transitions := transitions d @ [a]\<rparr>))"
    using Cons.prems by (simp add: Data_addTransition_def vec_at_def transition_wf_def)
  with Cons.IH[of "d\<lparr>transitions := transitions d @ [a]\<rparr>"] Cons.prems show ?case by simp
qed simp

lemma add_local_times:
  "foldl (\<lambda>d lt. Data_addLocalTime (utcOffset lt) (isDst lt) (desigIdx lt) d) d lts
   = d\<lparr>localtimes := localtimes d @ lts\<rparr>"
  by (induction lts arbitrary: d) (simp_all add: Data_addLocalTime_def)

lemma reads_types:
  "zone_wf d \<Longrightarrow> reads (read_times (length (localtimes d)) read_local_time)
     (concat (map type_bytes (localtimes d))) (localtimes d)"
  by (rule reads_times) (simp add: reads_local_time zone_wf_def)

lemma reads_utctimes:
  "zone_wf d \<Longrightarrow> reads (read_times (length (transitions d)) File_readInt64)
     (concat (map (be_bytes 8) (map utctime (transitions d)))) (map utctime (transitions d))"
  by (rule reads_times[of "map utctime (transitions d)", unfolded length_map])
    (auto simp: zone_wf_def transition_wf_def intro: reads_int64)

lemma reads_indices:
  "zone_wf d \<Longrightarrow> reads (read_times (length (transitions d)) File_readUint8)
     (concat (map (\<lambda>i. [char_of (nat i)]) (map localtimeIdx (transitions d)))) (map localtimeIdx (transitions d))"
  by (rule reads_times[of "map localtimeIdx (transitions d)", unfolded length_map])
    (auto simp: zone_wf_def transition_wf_def intro: reads_uint8)

lemma zone_counts: "n < 2 ^ 31 \<Longrightarrow> in_int32 (int n)" "in_int32 0"
  by (auto simp: in_int32_def)

lemma reads_readDataBlock:
  assumes wf: "zone_wf d"
  shows "reads_all (readDataBlock Data_empty False) (zone_block d) (True, d)"
proof -
  let ?d1 = "Data_empty\<lparr>localtimes := localtimes d\<rparr>"
  have counts: "in_int32 (int (length (transitions d)))" "in_int32 (int (length (localtimes d)))"
    "in_int32 (int (length (abbrevition d)))"
    using wf by (auto simp: zone_wf_def intro: zone_counts)
  have empty: "localtimes Data_empty = []" by (simp add: Data_empty_def)
  have add: "add_transitions (zip (map utctime (transitions d)) (map localtimeIdx (transitions d))) ?d1
      = Some (Inr (?d1\<lparr>transitions := transitions d\<rparr>))"
    using wf add_transitions_wf[of "transitions d" ?d1] by (simp add: zone_wf_def Data_empty_def)
  note step = reads_all_bind[OF reads_int32]
  show ?thesis
    unfolding readDataBlock_def zone_block_def
    apply (rule step, rule zone_counts(2))+
    apply (rule step, rule counts)+
    apply (simp only: simp_thms if_False not_True_eq_False if_True nat_int)
    apply (rule reads_all_bind_Nil[OF reads_reserve], simp)
    apply (rule reads_all_bind[OF reads_utctimes[OF wf]])
    apply (rule reads_all_bind[OF reads_indices[OF wf]])
    apply (rule reads_all_bind_Nil[OF reads_reserve], simp)
    apply (rule reads_all_bind[OF reads_types[OF wf]])
    apply (rule reads_all_bind_Nil[OF reads_lift])
     apply (simp only: add_local_times empty append_Nil)
     apply (rule add)
    apply (rule reads_all_bind[OF reads_readBytes], simp)
    apply (rule reads_all_bind_Nil[OF reads_skip], simp)+
    apply (rule reads_all_readToEnd)
    apply (simp add: Data_empty_def)
    done
qed

lemma reads_zone_file:
  assumes wf: "zone_wf d" and old: "length old = 5 * t + 6 * y + c + 8 * l + s + g"
    and small: "g < 2 ^ 28" "s < 2 ^ 28" "l < 2 ^ 28" "t < 2 ^ 28" "y < 2 ^ 28" "c < 2 ^ 28"
  shows "reads_all (read_zone Data_empty) (zone_file g s l t y c old d) (True, d)"
proof -
  have counts: "in_int32 (int g)" "in_int32 (int s)" "in_int32 (int l)" "in_int32 (int t)"
    "in_int32 (int y)" "in_int32 (int c)" using small by (auto simp: in_int32_def)
  note step = reads_all_bind[OF reads_int32]
  show ?thesis
    unfolding read_zone_def zone_file_def
    apply (rule reads_all_bind[OF reads_readBytes], simp)
    apply (simp only: simp_thms if_False)
    apply (rule reads_all_bind[OF reads_readBytes], simp)
    apply (rule reads_all_bind[OF reads_readBytes], simp)
    apply (rule step, rule counts)+
    apply (simp only: simp_thms if_True)
    apply (rule reads_all_bind_Nil[OF reads_assert])
    subgoal using small by (simp add: in_int32_def)
    apply (rule reads_all_bind[OF reads_skip])
    subgoal using old by simp
    apply (rule reads_all_bind[OF reads_readBytes], simp)
    apply (simp only: simp_thms if_False)
    apply (rule reads_all_bind[OF reads_skip], simp)
    apply (rule reads_readDataBlock[OF wf])
    done
qed

subsection \<open>Properties\<close>

text \<open>C36: \<open>toUtcTime\<close> and \<open>fromUtcTime\<close>, computed in 32-bit integers, are inverse to each other and do
  not overflow in these ranges: every number of seconds since 1970, negative ones included, whose Julian
  day number lies between -32044 and 536838867, the largest one the conversion can take, is broken down
  into a valid date and time of day whose value is that number; and every valid date and time of the
  years -4799 to 1465100 is recovered from its value.\<close>

theorem TimeZone_utc_roundtrip:
  "(calendar_seconds t \<longrightarrow>
      (\<exists>dt. TimeZone_toUtcTime_int t = Some dt \<and> valid_date_time dt \<and> TimeZone_fromUtcTime_int dt = Some t))
   \<and> (valid_date_time dt \<and> -4799 \<le> dt_year dt \<and> dt_year dt \<le> 1465100 \<longrightarrow>
      TimeZone_fromUtcTime_int dt \<bind> TimeZone_toUtcTime_int = Some dt)"
proof -
  have "TimeZone_toUtcTime_int t = Some (TimeZone_toUtcTime t) \<and> valid_date_time (TimeZone_toUtcTime t)
      \<and> TimeZone_fromUtcTime_int (TimeZone_toUtcTime t) = Some t" if "calendar_seconds t"
    using toUtcTime_fromUtcTime[OF that] toUtcTime_year[OF that] fromUtcTime_int_eq[of "TimeZone_toUtcTime t"]
      BreakTime_int_eq[OF that]
    by (simp add: TimeZone_toUtcTime_int_def TimeZone_toUtcTime_def)
  moreover have "TimeZone_fromUtcTime_int dt \<bind> TimeZone_toUtcTime_int = Some dt"
    if dt: "valid_date_time dt" "-4799 \<le> dt_year dt" "dt_year dt \<le> 1465100"
    using fromUtcTime_calendar[OF dt] fromUtcTime_int_eq[OF dt(1)] dt(2,3) BreakTime_int_eq
      fromUtcTime_toUtcTime[OF dt(1,2)]
    by (simp add: TimeZone_toUtcTime_int_def TimeZone_toUtcTime_def)
  ultimately show ?thesis by blast
qed

theorem TimeZone_utc_roundtrip_witness:
  "(\<exists>dt. TimeZone_toUtcTime_int (-1) = Some dt \<and> valid_date_time dt \<and> TimeZone_fromUtcTime_int dt = Some (-1))
   \<and> TimeZone_fromUtcTime_int (DateTime_of_fields 2000 2 29 23 59 59) \<bind> TimeZone_toUtcTime_int
       = Some (DateTime_of_fields 2000 2 29 23 59 59)"
proof -
  let ?dt = "DateTime_of_fields 2000 2 29 23 59 59"
  have "calendar_seconds (-1)" by (simp add: calendar_seconds_def)
  moreover have "valid_date_time ?dt" "-4799 \<le> dt_year ?dt" "dt_year ?dt \<le> 1465100"
    by (simp_all add: valid_date_time_def valid_hms_def valid_ymd_def DateTime_of_fields_def
        days_in_month_def leap_year_def)
  ultimately show ?thesis using TimeZone_utc_roundtrip[of "-1" ?dt] by simp
qed

text \<open>C39: \<open>toLocalTime\<close> of a zone whose transitions are sorted and whose indices are in range
  never aborts: it breaks down the UTC time plus the offset of the latest transition that is not
  after it (of the first local-time type before every transition), and stores that offset through a
  non-null pointer.\<close>

theorem TimeZone_toLocalTime_correct:
  assumes "m_data tz = Some d" "zone_indices_ok d" "zone_sorted d"
  shows "TimeZone_toLocalTime tz t out = Some (TimeZone_toUtcTime (t + utcOffset (type_in_force d t)),
           map_option (\<lambda>_. utcOffset (type_in_force d t)) out)"
  using assms by (simp add: TimeZone_toLocalTime_def findLocalTime_utc_in_force TimeZone_toUtcTime_def)

text \<open>A fragment of the Chinese zone of 1986, when summer time began on 4 May and ended on 14 September.\<close>

definition demo_zone :: tz_data where
  "demo_zone = \<lparr>transitions = [\<lparr>utctime = 515520000, localtime = 515552400, localtimeIdx = 1\<rparr>,
       \<lparr>utctime = 527007600, localtime = 527036400, localtimeIdx = 0\<rparr>],
     localtimes = [\<lparr>utcOffset = 28800, isDst = False, desigIdx = 0\<rparr>,
       \<lparr>utcOffset = 32400, isDst = True, desigIdx = 4\<rparr>],
     abbrevition = ''CST-CDT-'', tzstring = ''CST-8''\<rparr>"

lemma demo_zone_ok: "zone_indices_ok demo_zone" "zone_sorted demo_zone" "zone_wf demo_zone"
  by (simp_all add: demo_zone_def zone_indices_ok_def zone_sorted_def zone_wf_def transition_wf_def
      in_int32_def in_int64_def)

theorem TimeZone_toLocalTime_correct_witness:
  "map_option snd (TimeZone_toLocalTime (TimeZone_of_data (Some demo_zone)) 520000000 (Some 0)) = Some (Some 32400)"
  using TimeZone_toLocalTime_correct[of "TimeZone_of_data (Some demo_zone)" demo_zone 520000000 "Some 0"] demo_zone_ok
  by (simp add: TimeZone_of_data_def) (simp add: type_in_force_def demo_zone_def)

text \<open>A zone with a fixed offset converts to local time and back without loss: for every time
  within the calendar, \<open>fromLocalTime\<close> of \<open>toLocalTime\<close> is the time itself, whatever the
  \<open>postTransition\<close> flag, and the offset reported is the one the zone was made with.\<close>

theorem TimeZone_fixed_roundtrip:
  assumes "calendar_seconds (t + off)"
  shows "\<exists>lt. TimeZone_toLocalTime (TimeZone_fixed off name) t (Some z) = Some (lt, Some off)
       \<and> TimeZone_fromLocalTime (TimeZone_fixed off name) lt post = Some t"
  using toUtcTime_fromUtcTime[OF assms]
  by (simp add: TimeZone_toLocalTime_def TimeZone_fromLocalTime_def TimeZone_fixed_def Data_addLocalTime_def
      Data_empty_def Data_findLocalTime_utc_def Data_findLocalTime_local_def vec_at_def Let_def TimeZone_toUtcTime_def)

theorem TimeZone_fixed_roundtrip_witness:
  "\<exists>lt. TimeZone_toLocalTime (TimeZone_fixed 28800 ''CST'') 1000000000 (Some 0) = Some (lt, Some 28800)
     \<and> TimeZone_fromLocalTime (TimeZone_fixed 28800 ''CST'') lt False = Some 1000000000"
  by (rule TimeZone_fixed_roundtrip) (simp add: calendar_seconds_def)

text \<open>C38: \<open>loadZoneFile\<close> reads back every well-formed zone from a version-2 file with the signature
  the code expects, whatever the 32-bit block that precedes it: the transitions with their local
  times, the local-time types, the abbreviations and the trailing rule string are exactly those
  written.\<close>

theorem TimeZone_loadZoneFile_reads:
  assumes "fopen path = Some (zone_file g s l t y c old d)" "zone_wf d"
    and "length old = 5 * t + 6 * y + c + 8 * l + s + g"
    and "g < 2 ^ 28" "s < 2 ^ 28" "l < 2 ^ 28" "t < 2 ^ 28" "y < 2 ^ 28" "c < 2 ^ 28"
  shows "TimeZone_loadZoneFile fopen path = Some (TimeZone_of_data (Some d))"
proof -
  from reads_zone_file[OF assms(2-9)] obtain f
    where "read_zone Data_empty (stream [] (zone_file g s l t y c old d)) = Some (Inr ((True, d), f))"
    unfolding reads_all_def by blast
  with assms(1) show ?thesis
    by (simp add: TimeZone_loadZoneFile_def readTimeZoneFile_def stream_def)
qed

theorem TimeZone_loadZoneFile_reads_witness:
  "TimeZone_loadZoneFile (\<lambda>p. Some (zone_file 0 0 0 0 0 2 ''ab'' demo_zone)) ''PRC''
     = Some (TimeZone_of_data (Some demo_zone))"
  by (rule TimeZone_loadZoneFile_reads[where g = 0 and s = 0 and l = 0 and t = 0 and y = 0 and c = 2
      and old = "''ab''" and d = demo_zone]) (simp_all add: demo_zone_ok)

text \<open>Compiled zone files begin with the four characters \<open>TZif\<close>, but the reader compares them
  with \<open>TZlf\<close>: every file that begins with the standard signature is refused, and \<open>loadZoneFile\<close>
  returns an invalid time zone.\<close>

theorem TimeZone_loadZoneFile_rejects_standard:
  "TimeZone_loadZoneFile (\<lambda>_. Some (''TZif'' @ rest)) path = Some TimeZone_invalid"
  by (simp add: TimeZone_loadZoneFile_def readTimeZoneFile_def read_zone_def rd_bind_def File_readBytes_def
      rd_assert_def fread_exactly_def c_fread_def segment_def rd_throw_def TimeZone_of_data_def
      TimeZone_invalid_def Let_def)

text \<open>the assertion \<open>transIt == transitions.begin()\<close> of the local-time lookup is the negation of
  what the search guarantees: in a zone with transitions, \<open>fromLocalTime\<close> aborts for every local time
  that is not before the first transition.\<close>

theorem TimeZone_fromLocalTime_aborts:
  assumes "m_data tz = Some d" "transitions d \<noteq> []"
    and "localtime (hd (transitions d)) \<le> TimeZone_fromUtcTime lt"
  shows "TimeZone_fromLocalTime tz lt post = None"
  using assms by (simp add: TimeZone_fromLocalTime_def findLocalTime_local_aborts)

theorem TimeZone_fromLocalTime_aborts_witness:
  "TimeZone_fromLocalTime (TimeZone_of_data (Some demo_zone)) (DateTime_of_fields 2000 1 1 0 0 0) False = None"
  by (rule TimeZone_fromLocalTime_aborts[of _ demo_zone])
    (simp_all add: TimeZone_of_data_def demo_zone_def DateTime_of_fields_def TimeZone_fromUtcTime_def Date_of_ymd_def
      getJulianDayNumber_def julian_1970 kSecondsPerDay_def Let_def signed_divide_int_def)

end
