(* ===== verification/StringPiece.thy ===== *)
theory StringPiece
  imports Prelude "HOL-Library.List_Lexorder" "HOL-Library.Char_ord"
begin

text \<open>
  Borrowed character ranges: \<^verbatim>\<open>src/dc/base/stringPieces.h\<close>. A \<open>const char*\<close> is what can be read
  through it, the characters from its target to the end of the array (\<open>None\<close> for a null pointer); a read
  outside is undefined, outcome \<open>None\<close>. The contents of a C string end before its first NUL.
\<close>

subsection \<open>C strings\<close>

type_synonym c_ptr = "string option"

abbreviation NUL :: char where
  "NUL \<equiv> CHR 0x00"

text \<open>\<open>strlen\<close>: undefined for a null pointer and for an array without a NUL.\<close>

definition c_strlen :: "c_ptr \<Rightarrow> nat outcome" where
  "c_strlen p = (case p of None \<Rightarrow> None
     | Some s \<Rightarrow> if NUL \<in> set s then Some (std_find NUL s) else None)"

text \<open>The array of a C string literal.\<close>

definition c_string :: "string \<Rightarrow> c_ptr" where
  "c_string s = Some (s @ [NUL])"

text \<open>Reading \<open>n\<close> characters; reading none is allowed through any pointer.\<close>

definition c_range :: "c_ptr \<Rightarrow> nat \<Rightarrow> string outcome" where
  "c_range p n = (if n = 0 then Some [] else
     (case p of None \<Rightarrow> None | Some s \<Rightarrow> if n \<le> length s then Some (take n s) else None))"

text \<open>
  \<open>memcmp\<close>: the difference of the first two bytes, as \<open>unsigned char\<close>, that differ. The standard
  specifies its sign only, and only the sign is used below.
\<close>

fun byte_compare :: "string \<Rightarrow> string \<Rightarrow> int" where
  "byte_compare (x # xs) (y # ys) = (if x = y then byte_compare xs ys else of_char x - of_char y)"
| "byte_compare _ _ = 0"

definition c_memcmp :: "c_ptr \<Rightarrow> c_ptr \<Rightarrow> int \<Rightarrow> int outcome" where
  "c_memcmp p q n = do {
     assert_that (0 \<le> n);
     xs \<leftarrow> c_range p (nat n);
     ys \<leftarrow> c_range q (nat n);
     Some (byte_compare xs ys)
   }"

subsection \<open>\<open>StringArg\<close>\<close>

record string_arg =
  m_str :: c_ptr

definition StringArg_of_ptr :: "c_ptr \<Rightarrow> string_arg" where
  "StringArg_of_ptr str = \<lparr>m_str = str\<rparr>"

definition StringArg_of_string :: "string \<Rightarrow> string_arg" where
  "StringArg_of_string str = \<lparr>m_str = c_string str\<rparr>"

definition StringArg_c_str :: "string_arg \<Rightarrow> c_ptr" where
  "StringArg_c_str a = m_str a"

subsection \<open>\<open>StringPiece\<close>\<close>

record string_piece =
  m_ptr :: c_ptr
  m_length :: int

definition StringPiece_null :: string_piece where
  "StringPiece_null = \<lparr>m_ptr = None, m_length = 0\<rparr>"

definition StringPiece_of_ptr :: "c_ptr \<Rightarrow> string_piece outcome" where
  "StringPiece_of_ptr str = do { n \<leftarrow> c_strlen str; Some \<lparr>m_ptr = str, m_length = static_cast_int n\<rparr> }"

definition StringPiece_of_string :: "string \<Rightarrow> string_piece" where
  "StringPiece_of_string str = \<lparr>m_ptr = c_string str, m_length = static_cast_int (length str)\<rparr>"

definition StringPiece_of_range :: "c_ptr \<Rightarrow> int \<Rightarrow> string_piece" where
  "StringPiece_of_range offset len = \<lparr>m_ptr = offset, m_length = len\<rparr>"

definition StringPiece_size :: "string_piece \<Rightarrow> int" where
  "StringPiece_size x = m_length x"

definition StringPiece_empty :: "string_piece \<Rightarrow> bool" where
  "StringPiece_empty x \<longleftrightarrow> m_length x = 0"

definition StringPiece_clear :: "string_piece \<Rightarrow> string_piece" where
  "StringPiece_clear x = x\<lparr>m_ptr := None, m_length := 0\<rparr>"

definition StringPiece_set_range :: "c_ptr \<Rightarrow> int \<Rightarrow> string_piece \<Rightarrow> string_piece" where
  "StringPiece_set_range buffer len x = x\<lparr>m_ptr := buffer, m_length := len\<rparr>"

definition StringPiece_set :: "c_ptr \<Rightarrow> string_piece \<Rightarrow> string_piece outcome" where
  "StringPiece_set str x = do { n \<leftarrow> c_strlen str; Some (x\<lparr>m_ptr := str, m_length := static_cast_int n\<rparr>) }"

definition StringPiece_nth :: "string_piece \<Rightarrow> nat \<Rightarrow> char outcome" where
  "StringPiece_nth x i = do { s \<leftarrow> m_ptr x; if i < length s then Some (s ! i) else None }"

text \<open>Pointer arithmetic beyond the array is undefined; \<open>nullptr + 0\<close> is not.\<close>

definition StringPiece_remove_prefix :: "nat \<Rightarrow> string_piece \<Rightarrow> string_piece outcome" where
  "StringPiece_remove_prefix n x = do {
     p \<leftarrow> (case m_ptr x of None \<Rightarrow> if n = 0 then Some None else None
            | Some s \<Rightarrow> if n \<le> length s then Some (Some (drop n s)) else None);
     Some (x\<lparr>m_ptr := p, m_length := m_length x - int n\<rparr>)
   }"

definition StringPiece_remove_suffix :: "int \<Rightarrow> string_piece \<Rightarrow> string_piece" where
  "StringPiece_remove_suffix n x = x\<lparr>m_length := m_length x - n\<rparr>"

definition StringPiece_eq :: "string_piece \<Rightarrow> string_piece \<Rightarrow> bool outcome" where
  "StringPiece_eq x y =
     (if m_length x = m_length y
      then do { r \<leftarrow> c_memcmp (m_ptr x) (m_ptr y) (m_length x); Some (r = 0) }
      else Some False)"

definition StringPiece_neq :: "string_piece \<Rightarrow> string_piece \<Rightarrow> bool outcome" where
  "StringPiece_neq x y = map_option Not (StringPiece_eq x y)"

text \<open>The macro \<open>STRINGPIECE_BINARY_PREDICATE(cmp, auxcmp)\<close> and its four uses.\<close>

definition StringPiece_predicate ::
    "(int \<Rightarrow> int \<Rightarrow> bool) \<Rightarrow> (int \<Rightarrow> int \<Rightarrow> bool) \<Rightarrow> string_piece \<Rightarrow> string_piece \<Rightarrow> bool outcome" where
  "StringPiece_predicate cmp auxcmp x y = do {
     r \<leftarrow> c_memcmp (m_ptr x) (m_ptr y) (if m_length x < m_length y then m_length x else m_length y);
     Some (auxcmp r 0 \<or> (r = 0 \<and> cmp (m_length x) (m_length y)))
   }"

definition StringPiece_less :: "string_piece \<Rightarrow> string_piece \<Rightarrow> bool outcome" where
  "StringPiece_less = StringPiece_predicate (<) (<)"

definition StringPiece_le :: "string_piece \<Rightarrow> string_piece \<Rightarrow> bool outcome" where
  "StringPiece_le = StringPiece_predicate (\<le>) (<)"

definition StringPiece_ge :: "string_piece \<Rightarrow> string_piece \<Rightarrow> bool outcome" where
  "StringPiece_ge = StringPiece_predicate (\<ge>) (>)"

definition StringPiece_greater :: "string_piece \<Rightarrow> string_piece \<Rightarrow> bool outcome" where
  "StringPiece_greater = StringPiece_predicate (>) (>)"

definition StringPiece_compare :: "string_piece \<Rightarrow> string_piece \<Rightarrow> int outcome" where
  "StringPiece_compare x y = do {
     r \<leftarrow> c_memcmp (m_ptr x) (m_ptr y) (if m_length x < m_length y then m_length x else m_length y);
     Some (if r = 0 then (if m_length x < m_length y then -1 else if m_length x > m_length y then 1 else r) else r)
   }"

definition StringPiece_as_string :: "string_piece \<Rightarrow> string outcome" where
  "StringPiece_as_string x = (if m_length x < 0 then None else c_range (m_ptr x) (nat (m_length x)))"

definition StringPiece_copyToString :: "string_piece \<Rightarrow> string outcome" where
  "StringPiece_copyToString x = (if m_length x < 0 then None else c_range (m_ptr x) (nat (m_length x)))"

definition StringPiece_starts_with :: "string_piece \<Rightarrow> string_piece \<Rightarrow> bool outcome" where
  "StringPiece_starts_with x y =
     (if m_length x \<ge> m_length y
      then do { r \<leftarrow> c_memcmp (m_ptr x) (m_ptr y) (m_length y); Some (r = 0) }
      else Some False)"

subsection \<open>The text of a piece\<close>

text \<open>\<open>piece_is x s\<close>: the range is readable and holds \<open>s\<close>.\<close>

definition piece_is :: "string_piece \<Rightarrow> string \<Rightarrow> bool" where
  "piece_is x s \<longleftrightarrow> StringPiece_as_string x = Some s"

lemma piece_length: "piece_is x s \<Longrightarrow> m_length x = int (length s)"
  by (auto simp: piece_is_def StringPiece_as_string_def c_range_def split: if_splits option.splits)

lemma piece_range: "piece_is x s \<Longrightarrow> n \<le> length s \<Longrightarrow> c_range (m_ptr x) n = Some (take n s)"
  by (auto simp: piece_is_def StringPiece_as_string_def c_range_def min_def split: if_splits option.splits)

text \<open>
  A piece keeps its length in an \<open>int\<close>: the constructors give the whole text when it is shorter
  than \<open>2 ^ 31\<close> bytes.
\<close>

lemma piece_of_string [simp]: "length s < 2 ^ 31 \<Longrightarrow> piece_is (StringPiece_of_string s) s"
  by (simp add: piece_is_def StringPiece_as_string_def StringPiece_of_string_def c_range_def c_string_def)

lemma piece_of_ptr: "NUL \<notin> set s \<Longrightarrow> length s < 2 ^ 31 \<Longrightarrow> \<exists>x. StringPiece_of_ptr (c_string s) = Some x \<and> piece_is x s"
  by (simp add: StringPiece_of_ptr_def c_strlen_def c_string_def piece_is_def StringPiece_as_string_def c_range_def)

lemma of_char_int: "(of_char c :: int) = int (of_char c)"
  by (simp add: of_nat_of_char)

lemma char_less_of_char: "x < y \<longleftrightarrow> (of_char x :: int) < of_char y"
  by (simp add: less_char_def of_char_int del: of_nat_of_char)

text \<open>The byte comparison of the common length, then of the lengths, is the lexicographic order.\<close>

definition common_compare :: "string \<Rightarrow> string \<Rightarrow> int" where
  "common_compare s t = (let n = min (length s) (length t) in byte_compare (take n s) (take n t))"

lemma common_compare_simps [simp]:
  "common_compare [] t = 0" "common_compare s [] = 0"
  "common_compare (x # s) (y # t) = (if x = y then common_compare s t else of_char x - of_char y)"
  by (simp_all add: common_compare_def Let_def)

lemma common_compare_lex:
  "((common_compare s t < 0 \<or> common_compare s t = 0 \<and> length s < length t) \<longleftrightarrow> s < t)
   \<and> ((common_compare s t = 0 \<and> length s = length t) \<longleftrightarrow> s = t)"
  by (induction s t rule: list_induct2') (auto simp: char_less_of_char)

lemma memcmp_pieces:
  assumes "piece_is x s" "piece_is y t"
  shows "c_memcmp (m_ptr x) (m_ptr y) (if m_length x < m_length y then m_length x else m_length y)
       = Some (common_compare s t)"
  using piece_range[OF assms(1)] piece_range[OF assms(2)] piece_length[OF assms(1)] piece_length[OF assms(2)]
  by (auto simp: c_memcmp_def common_compare_def min_def Let_def)

lemma common_compare_prefix:
  "length t \<le> length s \<Longrightarrow> common_compare s t = 0 \<longleftrightarrow> (\<exists>u. s = t @ u)"
  by (induction s t rule: list_induct2') auto

lemma memcmp_eq: "piece_is x s \<Longrightarrow> piece_is y t \<Longrightarrow> length t \<le> length s \<Longrightarrow>
  c_memcmp (m_ptr x) (m_ptr y) (m_length y) = Some (common_compare s t)"
  using memcmp_pieces[of x s y t] piece_length[of x s] piece_length[of y t] by auto

subsection \<open>Properties\<close>

text \<open>The comparison operators of readable pieces are those of their texts: \<open>==\<close> and \<open>!=\<close>
  compare the characters, \<open><\<close>, \<open><=\<close>, \<open>>\<close> and \<open>>=\<close> are the lexicographic order on bytes, the
  sign of \<open>compare\<close> agrees with it, and \<open>starts_with\<close> is the prefix relation. None of them reads
  outside the two ranges.\<close>

theorem StringPiece_order:
  assumes "piece_is x s" "piece_is y t"
  shows "StringPiece_eq x y = Some (s = t) \<and> StringPiece_neq x y = Some (s \<noteq> t)
    \<and> StringPiece_less x y = Some (s < t) \<and> StringPiece_le x y = Some (s \<le> t)
    \<and> StringPiece_greater x y = Some (s > t) \<and> StringPiece_ge x y = Some (s \<ge> t)
    \<and> (\<exists>r. StringPiece_compare x y = Some r \<and> (r < 0 \<longleftrightarrow> s < t) \<and> (r = 0 \<longleftrightarrow> s = t) \<and> (r > 0 \<longleftrightarrow> s > t))
    \<and> StringPiece_starts_with x y = Some (\<exists>u. s = t @ u)"
proof -
  define c where "c = common_compare s t"
  note len = piece_length[OF assms(1)] piece_length[OF assms(2)]
  have lex: "(c < 0 \<or> c = 0 \<and> length s < length t) \<longleftrightarrow> s < t" "(c = 0 \<and> length s = length t) \<longleftrightarrow> s = t"
    using common_compare_lex[of s t] by (simp_all add: c_def)
  then have gt: "(c > 0 \<or> c = 0 \<and> length s > length t) \<longleftrightarrow> s > t"
    by (metis linorder_neqE_linordered_idom nat_neq_iff not_less_iff_gr_or_eq)
  note cmp = memcmp_pieces[OF assms, folded c_def]
  have eq: "StringPiece_eq x y = Some (s = t)"
    using memcmp_eq[OF assms, folded c_def] lex(2) len by (auto simp: StringPiece_eq_def)
  moreover have "StringPiece_less x y = Some (s < t)" "StringPiece_greater x y = Some (s > t)"
    using cmp lex gt len by (auto simp: StringPiece_less_def StringPiece_greater_def StringPiece_predicate_def)
  moreover have "StringPiece_le x y = Some (s \<le> t)" "StringPiece_ge x y = Some (s \<ge> t)"
    using cmp lex gt len
    by (auto simp: StringPiece_le_def StringPiece_ge_def StringPiece_predicate_def le_less)
  moreover have "\<exists>r. StringPiece_compare x y = Some r \<and> (r < 0 \<longleftrightarrow> s < t) \<and> (r = 0 \<longleftrightarrow> s = t) \<and> (r > 0 \<longleftrightarrow> s > t)"
    using cmp lex gt len by (auto simp: StringPiece_compare_def)
  moreover have "StringPiece_starts_with x y = Some (\<exists>u. s = t @ u)"
    using memcmp_eq[OF assms] common_compare_prefix[of t s] len
    by (auto simp: StringPiece_starts_with_def)
  ultimately show ?thesis by (simp add: StringPiece_neq_def)
qed

theorem StringPiece_order_witness:
  "StringPiece_less (StringPiece_of_string ''Host'') (StringPiece_of_string ''Hosts'') = Some True"
  using StringPiece_order[OF piece_of_string piece_of_string, of "''Host''" "''Hosts''"] by simp

end
