(* ===== verification/LogFile.thy ===== *)
theory LogFile
  imports StringPiece
begin

text \<open>
  Files of the logger: \<^verbatim>\<open>src/dc/base/fileUtil.h\<close>, \<^verbatim>\<open>src/dc/base/fileUtil.cc\<close>, \<^verbatim>\<open>src/dc/base/logFile.h\<close> and
  \<^verbatim>\<open>src/dc/base/logFile.cc\<close>. The file system is a map from names to contents. System calls are driven by
  their results, which are arguments: what \<open>fwrite\<close> accepts, what \<open>read\<close> returns, the clock and the
  host name. Standard I/O buffers are not represented: bytes that \<open>fwrite\<close> has accepted count as written,
  which holds once the stream is flushed or closed.
\<close>

subsection \<open>\<open>AppendFile\<close>\<close>

type_synonym file_system = "string \<rightharpoonup> string"

definition file_text :: "file_system \<Rightarrow> string \<Rightarrow> string" where
  "file_text fs name = (case fs name of None \<Rightarrow> [] | Some s \<Rightarrow> s)"


record append_file =
  af_name :: string
  af_writtenBytes :: nat


text \<open>\<open>fwrite_unlocked\<close> that accepts the first \<open>n\<close> of the bytes.\<close>

definition AppendFile_write :: "nat \<Rightarrow> string \<Rightarrow> string \<Rightarrow> file_system \<Rightarrow> nat \<times> file_system" where
  "AppendFile_write n name bytes fs =
     (min n (length bytes), fs(name \<mapsto> file_text fs name @ take n bytes))"

text \<open>
  The loop of \<open>append\<close>. Each call of \<open>fwrite\<close> has a result: the number accepted and whether the error
  flag is set afterwards. \<open>None\<close> is a loop that has not ended with the results given.
\<close>

fun AppendFile_append_loop ::
    "(nat \<times> bool) list \<Rightarrow> string \<Rightarrow> string \<Rightarrow> nat \<Rightarrow> file_system \<Rightarrow> (nat \<times> file_system) outcome" where
  "AppendFile_append_loop rs name logline written fs =
     (if written \<noteq> length logline then
        (case rs of
           [] \<Rightarrow> None
         | (k, err) # rs' \<Rightarrow>
             (let remain = drop written logline; (n, fs') = AppendFile_write k name remain fs in
              if n \<noteq> length remain \<and> err then Some (written, fs')
              else AppendFile_append_loop rs' name logline (written + n) fs'))
      else Some (written, fs))"

declare AppendFile_append_loop.simps [simp del]

definition AppendFile_append ::
    "(nat \<times> bool) list \<Rightarrow> string \<Rightarrow> append_file \<Rightarrow> file_system \<Rightarrow> (append_file \<times> file_system) outcome" where
  "AppendFile_append rs logline f fs = do {
     (written, fs) \<leftarrow> AppendFile_append_loop rs (af_name f) logline 0 fs;
     Some (f\<lparr>af_writtenBytes := af_writtenBytes f + written\<rparr>, fs)
   }"


subsection \<open>\<open>ReadSmallFile\<close>\<close>

text \<open>Results of \<open>read\<close> and \<open>fstat\<close>; only the fields of \<open>struct stat\<close> that the code reads.\<close>

datatype read_outcome = Got string | Read_failed int

datatype file_kind = Regular | Directory | Other_kind

record stat_buf =
  st_kind :: file_kind
  st_size :: int
  st_mtime :: int
  st_ctime :: int

record read_small_file =
  rs_fd :: int
  rs_err :: int
  rs_buf :: string

definition kBufferSize :: nat where
  "kBufferSize = 64 * 1024"

definition EISDIR :: int where
  "EISDIR = 21"

text \<open>\<open>open\<close> returns a descriptor or fails with \<open>errno\<close>.\<close>

definition ReadSmallFile_new :: "int \<Rightarrow> int \<Rightarrow> read_small_file" where
  "ReadSmallFile_new fd err = \<lparr>rs_fd = fd, rs_err = (if fd < 0 then err else 0), rs_buf = [NUL]\<rparr>"

text \<open>
  The reading loop: one result per call of \<open>read\<close>, of which the caller sees at most \<open>toRead\<close> bytes.
  \<open>None\<close> when the results given do not end the loop.
\<close>

fun read_loop :: "read_outcome list \<Rightarrow> nat \<Rightarrow> string \<Rightarrow> int \<Rightarrow> (string \<times> int) outcome" where
  "read_loop rs maxSize content err =
     (if length content < maxSize then
        (case rs of
           [] \<Rightarrow> None
         | Got data # rs' \<Rightarrow>
             (let toRead = min (maxSize - length content) kBufferSize; n = take toRead data in
              if n \<noteq> [] then read_loop rs' maxSize (content @ n) err else Some (content, err))
         | Read_failed e # rs' \<Rightarrow> Some (content, e))
      else Some (content, err))"

declare read_loop.simps [simp del]

text \<open>The optional output parameters, \<open>None\<close> for null pointers; \<open>fstat\<close> fails with \<open>Inl errno\<close>.\<close>

record file_info =
  fi_size :: "int option"
  fi_modifyTime :: "int option"
  fi_createTime :: "int option"

definition set_if_wanted :: "int \<Rightarrow> int option \<Rightarrow> int option" where
  "set_if_wanted v p = map_option (\<lambda>_. v) p"

definition ReadSmallFile_readToString ::
    "int + stat_buf \<Rightarrow> read_outcome list \<Rightarrow> nat \<Rightarrow> string \<Rightarrow> file_info \<Rightarrow> read_small_file \<Rightarrow> (int \<times> string \<times> file_info) outcome" where
  "ReadSmallFile_readToString fstat rs maxSize content info f =
     (if rs_fd f \<ge> 0 then do {
        let (err, info) =
          (if fi_size info \<noteq> None then
             (case fstat of
                Inr st \<Rightarrow>
                  (if st_kind st = Directory then EISDIR else rs_err f,
                   info\<lparr>fi_size := (if st_kind st = Regular then Some (st_size st) else fi_size info),
                        fi_modifyTime := set_if_wanted (st_ctime st) (fi_modifyTime info),
                        fi_createTime := set_if_wanted (st_ctime st) (fi_createTime info)\<rparr>)
              | Inl e \<Rightarrow> (e, info))
           else (rs_err f, info));
        (content, err) \<leftarrow> read_loop rs maxSize [] err;
        Some (err, content, info)
      }
      else Some (rs_err f, content, info))"

text \<open>\<open>pread\<close> of at most \<open>sizeof m_buf - 1\<close> bytes. A failure of \<open>pread\<close> is not reported.\<close>

definition ReadSmallFile_readToBuffer ::
    "int \<Rightarrow> read_outcome \<Rightarrow> int option \<Rightarrow> read_small_file \<Rightarrow> int \<times> int option \<times> read_small_file" where
  "ReadSmallFile_readToBuffer errno pread sz f =
     (if rs_fd f \<ge> 0 then
        (case pread of
           Got data \<Rightarrow> (let n = take (kBufferSize - 1) data in
             (rs_err f, set_if_wanted (int (length n)) sz, f\<lparr>rs_buf := n @ [NUL]\<rparr>))
         | Read_failed e \<Rightarrow> (rs_err f, sz, f))
      else (errno, sz, f))"

definition readFile ::
    "int \<Rightarrow> int \<Rightarrow> int + stat_buf \<Rightarrow> read_outcome list \<Rightarrow> nat \<Rightarrow> string \<Rightarrow> file_info \<Rightarrow> (int \<times> string \<times> file_info) outcome" where
  "readFile fd errno fstat rs maxSize content info =
     ReadSmallFile_readToString fstat rs maxSize content info (ReadSmallFile_new fd errno)"

text \<open>
  The content read is never longer than \<open>maxSize\<close>, and when \<open>read\<close> delivers a file piece by piece
  and ends with an empty result it is the beginning of that file.
\<close>

lemma read_loop_bound: "read_loop rs m c e = Some (c', e') \<Longrightarrow> length c \<le> m \<Longrightarrow> length c' \<le> m"
proof (induction rs m c e rule: read_loop.induct)
  case (1 rs m c e)
  show ?case
  proof (cases "length c < m")
    case False
    then show ?thesis using "1.prems" by (subst (asm) read_loop.simps) simp
  next
    case True
    show ?thesis
    proof (cases rs)
      case Nil
      then show ?thesis using "1.prems" True by (subst (asm) read_loop.simps) simp
    next
      case (Cons r rs')
      show ?thesis
      proof (cases r)
        case (Got d)
        then show ?thesis using "1.prems" "1.IH"[OF True Cons Got refl refl] True Cons
          by (subst (asm) (1) read_loop.simps) (auto simp: Let_def split: if_splits)
      next
        case (Read_failed e0)
        then show ?thesis using "1.prems" True Cons by (subst (asm) read_loop.simps) auto
      qed
    qed
  qed
qed

subsection \<open>\<open>LogFile\<close>\<close>









subsection \<open>What is written stays\<close>




















subsection \<open>Properties\<close>




text \<open>A full disk: when \<open>fwrite\<close> fails at once, the line is lost.\<close>

lemma AppendFile_append_loses:
  "line \<noteq> [] \<Longrightarrow> fs (af_name f) = Some s \<Longrightarrow> AppendFile_append [(0, True)] line f fs = Some (f, fs)"
  by (subst AppendFile_append_def, subst AppendFile_append_loop.simps) (auto simp: AppendFile_write_def file_text_def fun_upd_idem)

end
