(* ===== verification/LogStream.thy ===== *)
theory LogStream
  imports StringPiece
begin

text \<open>
  The log stream: \<^verbatim>\<open>src/dc/base/logStream.h\<close> and \<^verbatim>\<open>src/dc/base/logStream.cc\<close>. A \<open>FixedBuffer\<close> is its array
  and the offset of \<open>m_cur\<close>; writes through \<open>current()\<close> go to the array and undefined writes outside
  it are outcome \<open>None\<close>. Integers of every width are mathematical integers, since the conversion only
  divides. A \<open>double\<close> is the real number it represents; rounding to the nearest double is the
  parameter \<open>rnd\<close>, and the text that \<open>printf\<close> makes of \<open>"%.12g"\<close> is the parameter \<open>fmt_g\<close>.
\<close>

subsection \<open>\<open>FixedBuffer\<close>\<close>

record fixed_buffer =
  fb_data :: string
  fb_cur :: nat

definition kSmallBuffer :: nat where
  "kSmallBuffer = 4000"

definition kLargeBuffer :: nat where
  "kLargeBuffer = 4000 * 1000"

text \<open>The constructor leaves the array, here \<open>mem\<close>, uninitialised.\<close>

definition FixedBuffer_new :: "string \<Rightarrow> fixed_buffer" where
  "FixedBuffer_new mem = \<lparr>fb_data = mem, fb_cur = 0\<rparr>"

definition FixedBuffer_avail :: "fixed_buffer \<Rightarrow> nat" where
  "FixedBuffer_avail b = length (fb_data b) - fb_cur b"

definition FixedBuffer_append :: "string \<Rightarrow> fixed_buffer \<Rightarrow> fixed_buffer" where
  "FixedBuffer_append buf b =
     (if FixedBuffer_avail b > length buf
      then b\<lparr>fb_data := write_at (fb_cur b) buf (fb_data b), fb_cur := fb_cur b + length buf\<rparr>
      else b)"

definition FixedBuffer_length :: "fixed_buffer \<Rightarrow> nat" where
  "FixedBuffer_length b = fb_cur b"

text \<open>A write of \<open>s\<close> through \<open>current()\<close>.\<close>

definition FixedBuffer_poke :: "string \<Rightarrow> fixed_buffer \<Rightarrow> fixed_buffer outcome" where
  "FixedBuffer_poke s b =
     (if fb_cur b + length s \<le> length (fb_data b)
      then Some (b\<lparr>fb_data := write_at (fb_cur b) s (fb_data b)\<rparr>) else None)"

definition FixedBuffer_add :: "nat \<Rightarrow> fixed_buffer \<Rightarrow> fixed_buffer" where
  "FixedBuffer_add len b = b\<lparr>fb_cur := fb_cur b + len\<rparr>"

definition FixedBuffer_reset :: "fixed_buffer \<Rightarrow> fixed_buffer" where
  "FixedBuffer_reset b = b\<lparr>fb_cur := 0\<rparr>"

definition FixedBuffer_bzero :: "fixed_buffer \<Rightarrow> fixed_buffer" where
  "FixedBuffer_bzero b = b\<lparr>fb_data := replicate (length (fb_data b)) NUL\<rparr>"

definition FixedBuffer_debugString :: "fixed_buffer \<Rightarrow> fixed_buffer outcome" where
  "FixedBuffer_debugString b = FixedBuffer_poke [NUL] b"

definition FixedBuffer_toString :: "fixed_buffer \<Rightarrow> string" where
  "FixedBuffer_toString b = take (FixedBuffer_length b) (fb_data b)"

definition FixedBuffer_toStringPiece :: "fixed_buffer \<Rightarrow> string_piece" where
  "FixedBuffer_toStringPiece b = StringPiece_of_range (Some (fb_data b)) (int (FixedBuffer_length b))"

subsection \<open>Integers to text\<close>

definition digits :: string where
  "digits = ''9876543210123456789''"

text \<open>\<open>zero[lsd]\<close> with \<open>zero = digits + 9\<close>; \<open>lsd\<close> may be negative.\<close>

definition zero_at :: "int \<Rightarrow> char" where
  "zero_at lsd = digits ! nat (9 + lsd)"

definition digitsHex :: string where
  "digitsHex = ''0123456789ABCDEF''"

lemma sdiv10_smaller: "(i :: int) sdiv 10 \<noteq> 0 \<Longrightarrow> \<bar>i sdiv 10\<bar> < \<bar>i\<bar>"
  by (auto simp: signed_divide_int_def abs_mult sgn_if)

function convert_loop :: "int \<Rightarrow> string" where
  "convert_loop i =
     (let lsd = i smod 10; i' = i sdiv 10
      in zero_at lsd # (if i' \<noteq> 0 then convert_loop i' else []))"
  by pat_completeness auto
termination
  by (relation "measure (\<lambda>i. nat \<bar>i\<bar>)") (use sdiv10_smaller in fastforce)+

declare convert_loop.simps [simp del]

definition convert :: "int \<Rightarrow> string" where
  "convert val = rev (convert_loop val @ (if val < 0 then ''-'' else []))"

fun convertHex_loop :: "nat \<Rightarrow> string" where
  "convertHex_loop i =
     (let lsd = i mod 16; i' = i div 16
      in digitsHex ! lsd # (if i' \<noteq> 0 then convertHex_loop i' else []))"

declare convertHex_loop.simps [simp del]

definition convertHex :: "nat \<Rightarrow> string" where
  "convertHex val = rev (convertHex_loop val)"

subsection \<open>\<open>LogStream\<close>\<close>

text \<open>The stream has the buffer as its only member. \<open>operator<<\<close> is one definition per argument type.\<close>

type_synonym log_stream = fixed_buffer

definition kMaxNumbericSize :: nat where
  "kMaxNumbericSize = 48"

definition LogStream_bool :: "bool \<Rightarrow> log_stream \<Rightarrow> log_stream" where
  "LogStream_bool v b = FixedBuffer_append (if v then ''1'' else ''0'') b"

text \<open>\<open>convert\<close> writes the text and a NUL at \<open>current()\<close>.\<close>

definition LogStream_formatInteger :: "int \<Rightarrow> log_stream \<Rightarrow> log_stream outcome" where
  "LogStream_formatInteger v b =
     (if FixedBuffer_avail b \<ge> kMaxNumbericSize then do {
        b' \<leftarrow> FixedBuffer_poke (convert v @ [NUL]) b;
        Some (FixedBuffer_add (length (convert v)) b')
      } else Some b)"

definition LogStream_int :: "int \<Rightarrow> log_stream \<Rightarrow> log_stream outcome" where
  "LogStream_int v = LogStream_formatInteger v"

definition LogStream_uint :: "nat \<Rightarrow> log_stream \<Rightarrow> log_stream outcome" where
  "LogStream_uint v = LogStream_formatInteger (int v)"

definition LogStream_short :: "int \<Rightarrow> log_stream \<Rightarrow> log_stream outcome" where
  "LogStream_short v = LogStream_int v"

definition LogStream_ushort :: "nat \<Rightarrow> log_stream \<Rightarrow> log_stream outcome" where
  "LogStream_ushort v = LogStream_uint v"

definition LogStream_long :: "int \<Rightarrow> log_stream \<Rightarrow> log_stream outcome" where
  "LogStream_long v = LogStream_formatInteger v"

definition LogStream_ulong :: "nat \<Rightarrow> log_stream \<Rightarrow> log_stream outcome" where
  "LogStream_ulong v = LogStream_formatInteger (int v)"

definition LogStream_llong :: "int \<Rightarrow> log_stream \<Rightarrow> log_stream outcome" where
  "LogStream_llong v = LogStream_formatInteger v"

definition LogStream_ullong :: "nat \<Rightarrow> log_stream \<Rightarrow> log_stream outcome" where
  "LogStream_ullong v = LogStream_formatInteger (int v)"

definition LogStream_pointer :: "nat \<Rightarrow> log_stream \<Rightarrow> log_stream outcome" where
  "LogStream_pointer v b =
     (if FixedBuffer_avail b \<ge> kMaxNumbericSize then do {
        b' \<leftarrow> FixedBuffer_poke (''0x'' @ convertHex v @ [NUL]) b;
        Some (FixedBuffer_add (length (convertHex v) + 2) b')
      } else Some b)"

text \<open>\<open>snprintf\<close> writes at most 47 characters and a NUL, and returns the untruncated length.\<close>

definition LogStream_double :: "('d \<Rightarrow> string) \<Rightarrow> 'd \<Rightarrow> log_stream \<Rightarrow> log_stream outcome" where
  "LogStream_double fmt_g v b =
     (if FixedBuffer_avail b \<ge> kMaxNumbericSize then do {
        b' \<leftarrow> FixedBuffer_poke (snprintf_buf kMaxNumbericSize (fmt_g v) @ [NUL]) b;
        Some (FixedBuffer_add (length (fmt_g v)) b')
      } else Some b)"

definition LogStream_float :: "('f \<Rightarrow> 'd) \<Rightarrow> ('d \<Rightarrow> string) \<Rightarrow> 'f \<Rightarrow> log_stream \<Rightarrow> log_stream outcome" where
  "LogStream_float to_double fmt_g v = LogStream_double fmt_g (to_double v)"

definition LogStream_char :: "char \<Rightarrow> log_stream \<Rightarrow> log_stream" where
  "LogStream_char v b = FixedBuffer_append [v] b"

definition LogStream_cstr :: "c_ptr \<Rightarrow> log_stream \<Rightarrow> log_stream outcome" where
  "LogStream_cstr str b =
     (if str \<noteq> None then do {
        n \<leftarrow> c_strlen str;
        s \<leftarrow> c_range str n;
        Some (FixedBuffer_append s b)
      } else Some (FixedBuffer_append ''(null)'' b))"

definition LogStream_ucstr :: "c_ptr \<Rightarrow> log_stream \<Rightarrow> log_stream outcome" where
  "LogStream_ucstr str = LogStream_cstr str"

definition LogStream_string :: "string \<Rightarrow> log_stream \<Rightarrow> log_stream" where
  "LogStream_string v b = FixedBuffer_append v b"

text \<open>
  \<open>append\<close> with an explicit \<open>int\<close> length: a negative one becomes a \<open>size_t\<close> larger than what is
  available and nothing is copied.
\<close>

definition LogStream_append :: "c_ptr \<Rightarrow> int \<Rightarrow> log_stream \<Rightarrow> log_stream outcome" where
  "LogStream_append data len b =
     (if 0 \<le> len \<and> nat len < FixedBuffer_avail b
      then do { s \<leftarrow> c_range data (nat len); Some (FixedBuffer_append s b) } else Some b)"

definition LogStream_piece :: "string_piece \<Rightarrow> log_stream \<Rightarrow> log_stream outcome" where
  "LogStream_piece v b = LogStream_append (m_ptr v) (m_length v) b"

definition LogStream_buffer :: "fixed_buffer \<Rightarrow> log_stream \<Rightarrow> log_stream outcome" where
  "LogStream_buffer v = LogStream_piece (FixedBuffer_toStringPiece v)"

definition LogStream_resetBuffer :: "log_stream \<Rightarrow> log_stream" where
  "LogStream_resetBuffer b = FixedBuffer_reset b"

subsection \<open>\<open>Fmt\<close>\<close>

record fmt_buf =
  fmt_text :: string
  fmt_length :: nat

text \<open>\<open>text\<close> is what \<open>printf(fmt, val)\<close> would print.\<close>

definition Fmt_new :: "string \<Rightarrow> fmt_buf outcome" where
  "Fmt_new text = do {
     let f = \<lparr>fmt_text = snprintf_buf 32 text @ [NUL], fmt_length = length text\<rparr>;
     assert_that (fmt_length f < 32);
     Some f
   }"

definition LogStream_fmt :: "fmt_buf \<Rightarrow> log_stream \<Rightarrow> log_stream outcome" where
  "LogStream_fmt fmt b = LogStream_append (Some (fmt_text fmt)) (int (fmt_length fmt)) b"

subsection \<open>Quantities with units\<close>

text \<open>\<open>"%.pf"\<close> of a double that is not negative: its exact value rounded half to even at digit \<open>p\<close>.\<close>

definition round_half_even :: "real \<Rightarrow> int" where
  "round_half_even x = (let f = \<lfloor>x\<rfloor>; d = x - of_int f in
     if d < 1/2 then f else if d > 1/2 then f + 1 else if even f then f else f + 1)"

definition fmt_fixed :: "nat \<Rightarrow> real \<Rightarrow> string" where
  "fmt_fixed p x = (let k = round_half_even (x * 10 ^ p) in
     dec_int (k div 10 ^ p) @ (if p = 0 then [] else ''.'' @ fmt_zero p (k mod 10 ^ p)))"

definition formatSI :: "(real \<Rightarrow> real) \<Rightarrow> int \<Rightarrow> string" where
  "formatSI rnd s =
     (let n = rnd (of_int s) in
      snprintf_buf 64
       (if s < 1000 then dec_int s
        else if s < 9995 then fmt_fixed 2 (rnd (n / 10 ^ 3)) @ ''k''
        else if s < 99950 then fmt_fixed 1 (rnd (n / 10 ^ 3)) @ ''k''
        else if s < 999500 then fmt_fixed 0 (rnd (n / 10 ^ 3)) @ ''k''
        else if s < 9995000 then fmt_fixed 2 (rnd (n / 10 ^ 6)) @ ''M''
        else if s < 99950000 then fmt_fixed 1 (rnd (n / 10 ^ 6)) @ ''M''
        else if s < 999500000 then fmt_fixed 0 (rnd (n / 10 ^ 6)) @ ''M''
        else if s < 9995000000 then fmt_fixed 2 (rnd (n / 10 ^ 9)) @ ''G''
        else if s < 99950000000 then fmt_fixed 1 (rnd (n / 10 ^ 9)) @ ''G''
        else if s < 999500000000 then fmt_fixed 0 (rnd (n / 10 ^ 9)) @ ''G''
        else if s < 9995000000000 then fmt_fixed 2 (rnd (n / 10 ^ 12)) @ ''T''
        else if s < 99950000000000 then fmt_fixed 0 (rnd (n / 10 ^ 12)) @ ''T''
        else if s < 9995000000000000 then fmt_fixed 2 (rnd (n / 10 ^ 15)) @ ''P''
        else if s < 99950000000000000 then fmt_fixed 1 (rnd (n / 10 ^ 15)) @ ''P''
        else if s < 999500000000000000 then fmt_fixed 0 (rnd (n / 10 ^ 15)) @ ''P''
        else fmt_fixed 2 (rnd (n / 10 ^ 18)) @ ''E''))"

text \<open>Multiplying a double by a power of two is exact, so the thresholds are \<open>rnd\<close> of the literals.\<close>

definition formatIEC :: "(real \<Rightarrow> real) \<Rightarrow> int \<Rightarrow> string" where
  "formatIEC rnd s =
     (let n = rnd (of_int s); Ki = 1024; Mi = Ki * 1024; Gi = Mi * 1024; Ti = Gi * 1024;
          Pi = Ti * 1024; Ei = Pi * 1024
      in snprintf_buf 64
       (if n < Ki then dec_int s
        else if n < Ki * rnd 9.995 then fmt_fixed 2 (rnd (n / Ki)) @ ''Ki''
        else if n < Ki * rnd 99.95 then fmt_fixed 1 (rnd (n / Ki)) @ ''Ki''
        else if n < Ki * rnd 1023.5 then fmt_fixed 0 (rnd (n / Ki)) @ ''Ki''
        else if n < Mi * rnd 9.995 then fmt_fixed 2 (rnd (n / Mi)) @ ''Mi''
        else if n < Mi * rnd 99.95 then fmt_fixed 1 (rnd (n / Mi)) @ ''Mi''
        else if n < Mi * rnd 1023.5 then fmt_fixed 0 (rnd (n / Mi)) @ ''Mi''
        else if n < Gi * rnd 9.995 then fmt_fixed 2 (rnd (n / Gi)) @ ''Gi''
        else if n < Gi * rnd 99.95 then fmt_fixed 1 (rnd (n / Gi)) @ ''Gi''
        else if n < Gi * rnd 1023.5 then fmt_fixed 0 (rnd (n / Gi)) @ ''Gi''
        else if n < Ti * rnd 9.995 then fmt_fixed 2 (rnd (n / Ti)) @ ''Ti''
        else if n < Ti * rnd 99.95 then fmt_fixed 1 (rnd (n / Ti)) @ ''Ti''
        else if n < Ti * rnd 1023.5 then fmt_fixed 0 (rnd (n / Ti)) @ ''Ti''
        else if n < Pi * rnd 9.995 then fmt_fixed 2 (rnd (n / Pi)) @ ''Pi''
        else if n < Pi * rnd 99.95 then fmt_fixed 1 (rnd (n / Pi)) @ ''Pi''
        else if n < Pi * rnd 1023.5 then fmt_fixed 0 (rnd (n / Pi)) @ ''Pi''
        else if n < Ei * rnd 9.995 then fmt_fixed 2 (rnd (n / Ei)) @ ''Ei''
        else fmt_fixed 1 (rnd (n / Ei)) @ ''Ei''))"

end
