(* ===== verification/LogStreamProps.thy ===== *)
theory LogStreamProps
  imports LogStream
begin

text \<open>
  Correctness of the log stream: integers are printed as by \<open>printf\<close>, no insertion writes outside the
  buffer, the text of the buffer is refined by an abstract bounded log, and quantities with units have
  the documented width.
\<close>

subsection \<open>Integers\<close>

lemma zero_at_abs: "- 10 < d \<Longrightarrow> d < 10 \<Longrightarrow> zero_at d = digit_char (nat \<bar>d\<bar>)"
proof -
  assume "- 10 < d" "d < 10"
  then have "d \<in> {-9, -8, -7, -6, -5, -4, -3, -2, -1, 0, 1, 2, 3, 4, 5, 6, 7, 8, 9}"
    unfolding insert_iff empty_iff by presburger
  then show ?thesis
    by (elim insertE emptyE) (simp_all add: zero_at_def digits_def digit_char_def char_of_def bit_0)
qed

lemma trunc10: "\<bar>(i::int) smod 10\<bar> = \<bar>i\<bar> mod 10" "\<bar>i sdiv 10\<bar> = \<bar>i\<bar> div 10"
  by (auto simp: signed_modulo_int_def signed_divide_int_def abs_mult sgn_if)

lemma convert_loop_digits: "convert_loop i = rev (dec_nat (nat \<bar>i\<bar>))"
proof (induction i rule: convert_loop.induct)
  case (1 i)
  have b: "- 10 < i smod 10" "i smod 10 < 10"
    using trunc10(1)[of i] pos_mod_bound[of 10 "\<bar>i\<bar>"] by linarith+
  have d: "zero_at (i smod 10) = digit_char (nat \<bar>i\<bar> mod 10)"
    using zero_at_abs[OF b] by (simp add: trunc10 nat_mod_distrib)
  have q: "nat \<bar>i sdiv 10\<bar> = nat \<bar>i\<bar> div 10" by (simp add: trunc10 nat_div_distrib)
  have nz: "i sdiv 10 \<noteq> 0 \<longleftrightarrow> \<not> nat \<bar>i\<bar> < 10" using trunc10(2)[of i] by linarith
  show ?case
  proof (cases "nat \<bar>i\<bar> < 10")
    case True
    then show ?thesis using nz d
      by (subst convert_loop.simps, subst dec_nat.simps) (simp add: Let_def)
  next
    case False
    then have "convert_loop (i sdiv 10) = rev (dec_nat (nat \<bar>i\<bar> div 10))"
      using "1.IH"[OF refl refl] nz q by simp
    with False show ?thesis using nz d
      by (subst convert_loop.simps, subst dec_nat.simps) (simp add: Let_def)
  qed
qed

lemma convert_is_dec_int: "convert v = dec_int v"
  by (simp add: convert_def convert_loop_digits dec_int_def)

lemma length_convert:
  assumes "- (2 ^ 63) \<le> v" "v < 2 ^ 64"
  shows "length (convert v) \<le> 21"
proof -
  have "nat \<bar>v\<bar> < 10 ^ 20" using assms by simp
  then have "length (dec_nat (nat \<bar>v\<bar>)) \<le> 20" by (rule length_dec_nat_le) simp
  then show ?thesis by (auto simp: convert_is_dec_int dec_int_def)
qed

text \<open>The hexadecimal digits of a pointer, as a positional number.\<close>

definition hex_digit :: "char \<Rightarrow> nat" where
  "hex_digit c = std_find c digitsHex"

definition hex_value :: "string \<Rightarrow> nat" where
  "hex_value s = foldl (\<lambda>a c. 16 * a + hex_digit c) 0 s"

lemma hex_digit_nth: "d < 16 \<Longrightarrow> hex_digit (digitsHex ! d) = d"
proof -
  assume "d < 16"
  then have "d \<in> {0, 1, 2, 3, 4, 5, 6, 7, 8, 9, 10, 11, 12, 13, 14, 15}"
    unfolding insert_iff empty_iff by presburger
  then show ?thesis
    by (elim insertE emptyE) (simp_all add: hex_digit_def digitsHex_def)
qed

lemma hex_value_convertHex: "hex_value (convertHex v) = v"
proof -
  have "foldl (\<lambda>a c. 16 * a + hex_digit c) 0 (rev (convertHex_loop v)) = v"
  proof (induction v rule: convertHex_loop.induct)
    case (1 i)
    then show ?case
      by (subst convertHex_loop.simps) (auto simp: Let_def hex_digit_nth)
  qed
  then show ?thesis by (simp add: hex_value_def convertHex_def)
qed

lemma length_convertHex: "v < 16 ^ k \<Longrightarrow> 0 < k \<Longrightarrow> length (convertHex v) \<le> k"
proof -
  have "v < 16 ^ k \<Longrightarrow> 0 < k \<Longrightarrow> length (convertHex_loop v) \<le> k"
  proof (induction k arbitrary: v)
    case (Suc k)
    have "v div 16 < 16 ^ k" using Suc.prems by (simp add: less_mult_imp_div_less mult.commute)
    with Suc show ?case by (subst convertHex_loop.simps) (cases k; auto simp: Let_def)
  qed simp
  then show "v < 16 ^ k \<Longrightarrow> 0 < k \<Longrightarrow> length (convertHex v) \<le> k" by (simp add: convertHex_def)
qed

subsection \<open>The buffer as a bounded log\<close>

text \<open>\<open>m_cur\<close> stays inside the array.\<close>

definition fb_ok :: "fixed_buffer \<Rightarrow> bool" where
  "fb_ok b \<longleftrightarrow> fb_cur b < length (fb_data b)"

text \<open>The abstract log: an entry of \<open>s\<close> that needs room \<open>n\<close> is appended whole or not at all.\<close>

definition log_put :: "nat \<Rightarrow> nat \<Rightarrow> string \<Rightarrow> string \<Rightarrow> string" where
  "log_put cap n s text = (if n \<le> cap - length text then text @ s else text)"

lemma toString_length [simp]: "fb_ok b \<Longrightarrow> length (FixedBuffer_toString b) = fb_cur b"
  by (simp add: FixedBuffer_toString_def FixedBuffer_length_def fb_ok_def)

lemma FixedBuffer_append_put:
  assumes "fb_ok b"
  shows "fb_ok (FixedBuffer_append s b) \<and> length (fb_data (FixedBuffer_append s b)) = length (fb_data b)
    \<and> FixedBuffer_toString (FixedBuffer_append s b)
        = log_put (length (fb_data b)) (length s + 1) s (FixedBuffer_toString b)"
  using assms
  by (auto simp: FixedBuffer_append_def FixedBuffer_avail_def log_put_def fb_ok_def)
    (auto simp: FixedBuffer_toString_def FixedBuffer_length_def write_at_def)

lemma FixedBuffer_poke_add:
  assumes "fb_ok b" "fb_cur b + length s < length (fb_data b)"
  shows "\<exists>b'. FixedBuffer_poke (s @ [z]) b = Some b' \<and> fb_ok (FixedBuffer_add (length s) b')
    \<and> length (fb_data (FixedBuffer_add (length s) b')) = length (fb_data b)
    \<and> FixedBuffer_toString (FixedBuffer_add (length s) b') = FixedBuffer_toString b @ s"
  using assms
  by (simp add: FixedBuffer_poke_def fb_ok_def FixedBuffer_add_def FixedBuffer_toString_def
      FixedBuffer_length_def write_at_def) arith

text \<open>Numbers of up to 47 characters, written in place when 48 bytes are left.\<close>

lemma number_put:
  assumes b: "fb_ok b" and s: "length s \<le> 47"
  shows "\<exists>b'. (if FixedBuffer_avail b \<ge> kMaxNumbericSize then do {
        b' \<leftarrow> FixedBuffer_poke (s @ [NUL]) b; Some (FixedBuffer_add (length s) b') } else Some b) = Some b'
    \<and> fb_ok b' \<and> length (fb_data b') = length (fb_data b)
    \<and> FixedBuffer_toString b' = log_put (length (fb_data b)) 48 s (FixedBuffer_toString b)"
proof (cases "FixedBuffer_avail b \<ge> kMaxNumbericSize")
  case True
  then have "fb_cur b + length s < length (fb_data b)"
    using s b by (simp add: FixedBuffer_avail_def kMaxNumbericSize_def fb_ok_def)
  from FixedBuffer_poke_add[OF b this, of NUL] True b show ?thesis
    by (auto simp: log_put_def FixedBuffer_avail_def kMaxNumbericSize_def)
next
  case False
  then show ?thesis using b by (simp add: log_put_def FixedBuffer_avail_def kMaxNumbericSize_def)
qed

subsection \<open>Sequences of insertions\<close>

text \<open>One insertion, by the type of its operand; \<open>'d\<close> is the type of doubles.\<close>

datatype 'd log_item =
    Put_bool bool | Put_short int | Put_ushort nat | Put_int int | Put_uint nat | Put_long int | Put_ulong nat | Put_longlong int
  | Put_ulonglong nat | Put_pointer nat | Put_double 'd | Put_chr char | Put_cstr "c_ptr" | Put_str string
  | Put_piece string_piece | Put_fixed fixed_buffer | Put_formatted fmt_buf

fun LogStream_insert :: "('d \<Rightarrow> string) \<Rightarrow> 'd log_item \<Rightarrow> log_stream \<Rightarrow> log_stream outcome" where
  "LogStream_insert g (Put_bool v) b = Some (LogStream_bool v b)"
| "LogStream_insert g (Put_short v) b = LogStream_short v b"
| "LogStream_insert g (Put_ushort v) b = LogStream_ushort v b"
| "LogStream_insert g (Put_int v) b = LogStream_int v b"
| "LogStream_insert g (Put_uint v) b = LogStream_uint v b"
| "LogStream_insert g (Put_long v) b = LogStream_long v b"
| "LogStream_insert g (Put_ulong v) b = LogStream_ulong v b"
| "LogStream_insert g (Put_longlong v) b = LogStream_llong v b"
| "LogStream_insert g (Put_ulonglong v) b = LogStream_ullong v b"
| "LogStream_insert g (Put_pointer v) b = LogStream_pointer v b"
| "LogStream_insert g (Put_double v) b = LogStream_double g v b"
| "LogStream_insert g (Put_chr v) b = Some (LogStream_char v b)"
| "LogStream_insert g (Put_cstr v) b = LogStream_cstr v b"
| "LogStream_insert g (Put_str v) b = Some (LogStream_string v b)"
| "LogStream_insert g (Put_piece v) b = LogStream_piece v b"
| "LogStream_insert g (Put_fixed v) b = LogStream_buffer v b"
| "LogStream_insert g (Put_formatted v) b = LogStream_fmt v b"

text \<open>What an insertion prints and the room it needs.\<close>

fun item_text :: "('d \<Rightarrow> string) \<Rightarrow> 'd log_item \<Rightarrow> string" where
  "item_text g (Put_bool v) = (if v then ''1'' else ''0'')"
| "item_text g (Put_short v) = dec_int v"
| "item_text g (Put_ushort v) = dec_int (int v)"
| "item_text g (Put_int v) = dec_int v"
| "item_text g (Put_uint v) = dec_int (int v)"
| "item_text g (Put_long v) = dec_int v"
| "item_text g (Put_ulong v) = dec_int (int v)"
| "item_text g (Put_longlong v) = dec_int v"
| "item_text g (Put_ulonglong v) = dec_int (int v)"
| "item_text g (Put_pointer v) = ''0x'' @ convertHex v"
| "item_text g (Put_double v) = g v"
| "item_text g (Put_chr v) = [v]"
| "item_text g (Put_cstr v) = (case v of None \<Rightarrow> ''(null)'' | Some s \<Rightarrow> take (std_find NUL s) s)"
| "item_text g (Put_str v) = v"
| "item_text g (Put_piece v) = the (StringPiece_as_string v)"
| "item_text g (Put_fixed v) = FixedBuffer_toString v"
| "item_text g (Put_formatted v) = take (fmt_length v) (fmt_text v)"

fun is_number :: "'d log_item \<Rightarrow> bool" where
  "is_number (Put_bool _) = False" | "is_number (Put_chr _) = False" | "is_number (Put_cstr _) = False"
| "is_number (Put_str _) = False" | "is_number (Put_piece _) = False" | "is_number (Put_fixed _) = False"
| "is_number (Put_formatted _) = False" | "is_number _ = True"

definition item_room :: "('d \<Rightarrow> string) \<Rightarrow> 'd log_item \<Rightarrow> nat" where
  "item_room g x = (if is_number x then 48 else length (item_text g x) + 1)"

text \<open>Operands of their C++ types: integers in range, readable strings.\<close>

definition in_64 :: "int \<Rightarrow> bool" where
  "in_64 v \<longleftrightarrow> - (2 ^ 63) \<le> v \<and> v < 2 ^ 64"

fun item_ok :: "('d \<Rightarrow> string) \<Rightarrow> 'd log_item \<Rightarrow> bool" where
  "item_ok g (Put_short v) = in_64 v" | "item_ok g (Put_ushort v) = in_64 (int v)"
| "item_ok g (Put_int v) = in_64 v" | "item_ok g (Put_uint v) = in_64 (int v)"
| "item_ok g (Put_long v) = in_64 v" | "item_ok g (Put_ulong v) = in_64 (int v)"
| "item_ok g (Put_longlong v) = in_64 v" | "item_ok g (Put_ulonglong v) = in_64 (int v)"
| "item_ok g (Put_pointer v) = (v < 2 ^ 64)"
| "item_ok g (Put_double v) = (length (g v) \<le> 24)"
| "item_ok g (Put_cstr v) = (case v of None \<Rightarrow> True | Some s \<Rightarrow> NUL \<in> set s)"
| "item_ok g (Put_piece v) = (StringPiece_as_string v \<noteq> None)"
| "item_ok g (Put_fixed v) = fb_ok v"
| "item_ok g (Put_formatted v) = (fmt_length v < length (fmt_text v))"
| "item_ok g _ = True"

definition inserted :: "('d \<Rightarrow> string) \<Rightarrow> 'd log_item \<Rightarrow> log_stream \<Rightarrow> log_stream \<Rightarrow> bool" where
  "inserted g x b b' \<longleftrightarrow> fb_ok b' \<and> length (fb_data b') = length (fb_data b)
     \<and> FixedBuffer_toString b' = log_put (length (fb_data b)) (item_room g x) (item_text g x) (FixedBuffer_toString b)"

lemma formatInteger_put:
  assumes "fb_ok b" "in_64 v" "item_text g x = dec_int v" "is_number x"
  shows "\<exists>b'. LogStream_formatInteger v b = Some b' \<and> inserted g x b b'"
proof -
  have "length (convert v) \<le> 47" using length_convert[of v] assms(2) by (simp add: in_64_def)
  from number_put[OF assms(1) this] show ?thesis
    unfolding LogStream_formatInteger_def inserted_def using assms(3,4)
    by (simp add: item_room_def convert_is_dec_int)
qed

lemma LogStream_append_put:
  assumes b: "fb_ok b" and r: "c_range p (length s) = Some s" "item_text g x = s" "\<not> is_number x"
  shows "\<exists>b'. LogStream_append p (int (length s)) b = Some b' \<and> inserted g x b b'"
  using FixedBuffer_append_put[OF b, of s] r b
  by (auto simp: LogStream_append_def inserted_def item_room_def FixedBuffer_avail_def log_put_def)

lemma FixedBuffer_append_inserted:
  "fb_ok b \<Longrightarrow> item_text g x = s \<Longrightarrow> \<not> is_number x \<Longrightarrow> inserted g x b (FixedBuffer_append s b)"
  using FixedBuffer_append_put[of b s] by (simp add: inserted_def item_room_def)

lemma LogStream_insert_ok:
  assumes b: "fb_ok b" and x: "item_ok g x"
  shows "\<exists>b'. LogStream_insert g x b = Some b' \<and> inserted g x b b'"
proof (cases x)
  case (Put_pointer v)
  have "length (convertHex v) \<le> 16" using x Put_pointer length_convertHex[of v 16] by simp
  with number_put[OF b, of "''0x'' @ convertHex v"] show ?thesis
    by (cases "kMaxNumbericSize \<le> FixedBuffer_avail b")
      (simp_all add: Put_pointer LogStream_pointer_def inserted_def item_room_def)
next
  case (Put_double v)
  then have len: "length (g v) \<le> 24" using x by simp
  then have "snprintf_buf kMaxNumbericSize (g v) = g v" by (simp add: snprintf_buf_def kMaxNumbericSize_def)
  with number_put[OF b, of "g v"] len show ?thesis
    by (cases "kMaxNumbericSize \<le> FixedBuffer_avail b")
      (simp_all add: Put_double LogStream_double_def inserted_def item_room_def)
next
  case (Put_cstr v)
  show ?thesis
  proof (cases v)
    case None
    then show ?thesis using b by (simp add: Put_cstr LogStream_cstr_def FixedBuffer_append_inserted)
  next
    case (Some s)
    then have "c_range v (std_find NUL s) = Some (take (std_find NUL s) s)" by (simp add: c_range_def)
    then show ?thesis using x Put_cstr Some b
      by (simp add: LogStream_cstr_def c_strlen_def FixedBuffer_append_inserted)
  qed
next
  case (Put_piece v)
  then obtain s where s: "piece_is v s" using x by (auto simp: piece_is_def)
  have "c_range (m_ptr v) (length s) = Some s" using piece_range[OF s] by simp
  from LogStream_append_put[OF b this, of g x] show ?thesis
    using s piece_length[OF s] by (simp add: Put_piece LogStream_piece_def piece_is_def)
next
  case (Put_fixed v)
  have "c_range (Some (fb_data v)) (length (FixedBuffer_toString v)) = Some (FixedBuffer_toString v)"
    using x Put_fixed by (simp add: c_range_def FixedBuffer_toString_def FixedBuffer_length_def fb_ok_def)
  from LogStream_append_put[OF b this, of g x] show ?thesis
    using x by (simp add: Put_fixed LogStream_buffer_def LogStream_piece_def FixedBuffer_toStringPiece_def
        StringPiece_of_range_def FixedBuffer_length_def)
next
  case (Put_formatted v)
  have "c_range (Some (fmt_text v)) (length (take (fmt_length v) (fmt_text v))) = Some (take (fmt_length v) (fmt_text v))"
    using x Put_formatted by (simp add: c_range_def)
  from LogStream_append_put[OF b this, of g x] show ?thesis
    using x by (simp add: Put_formatted LogStream_fmt_def)
qed (use b x formatInteger_put[OF b, where g = g and x = x] in \<open>simp_all add: LogStream_bool_def LogStream_char_def
    LogStream_string_def LogStream_short_def LogStream_ushort_def LogStream_int_def LogStream_uint_def LogStream_long_def
    LogStream_ulong_def LogStream_llong_def LogStream_ullong_def FixedBuffer_append_inserted\<close>)

lemma LogStream_run:
  assumes "fb_ok b" "\<forall>x \<in> set xs. item_ok g x"
  shows "\<exists>b'. for_each (LogStream_insert g) xs b = Some b' \<and> fb_ok b' \<and> length (fb_data b') = length (fb_data b)
    \<and> FixedBuffer_toString b'
        = fold (\<lambda>x. log_put (length (fb_data b)) (item_room g x) (item_text g x)) xs (FixedBuffer_toString b)"
  using assms
proof (induction xs arbitrary: b)
  case (Cons x xs)
  then obtain b1 where b1: "LogStream_insert g x b = Some b1" "inserted g x b b1"
    using LogStream_insert_ok[of b g x] by auto
  with Cons.IH[of b1] Cons.prems show ?case by (auto simp: inserted_def)
qed simp

lemma new_ok: "mem \<noteq> [] \<Longrightarrow> fb_ok (FixedBuffer_new mem) \<and> FixedBuffer_toString (FixedBuffer_new mem) = []"
  by (simp add: fb_ok_def FixedBuffer_new_def FixedBuffer_toString_def FixedBuffer_length_def)

subsection \<open>Quantities with units\<close>

text \<open>What IEEE arithmetic says of rounding to double: exact on integers below \<open>2 ^ 53\<close>, and a
  relative error of at most \<open>2 ^ -53\<close> on the positive values that occur.\<close>

definition rounds_to_double :: "(real \<Rightarrow> real) \<Rightarrow> bool" where
  "rounds_to_double rnd \<longleftrightarrow> (\<forall>i. 0 \<le> i \<and> i < 2 ^ 53 \<longrightarrow> rnd (of_int i) = of_int i)
     \<and> (\<forall>x. 1/16 \<le> x \<and> x \<le> 2 ^ 64 \<longrightarrow> \<bar>rnd x - x\<bar> \<le> x / 2 ^ 53)"

lemma round_half_even_le: "x < of_int k + 1/2 \<Longrightarrow> round_half_even x \<le> k"
  unfolding round_half_even_def Let_def by (auto simp: not_less) linarith+

lemma round_half_even_ge: "0 \<le> x \<Longrightarrow> 0 \<le> round_half_even x"
  by (auto simp: round_half_even_def Let_def)

lemma length_fmt_zero: "0 \<le> i \<Longrightarrow> i < 10 ^ w \<Longrightarrow> 0 < w \<Longrightarrow> length (fmt_zero w i) = w"
  using length_dec_nat_le[of "nat i" w] by (simp add: fmt_zero_def Let_def nat_less_iff)

lemma length_fmt_fixed:
  assumes "0 \<le> x" "x * 10 ^ p < 10 ^ (p + d) - 1/2" "0 < d"
  shows "length (fmt_fixed p x) \<le> d + (if p = 0 then 0 else p + 1)"
proof -
  define k where "k = round_half_even (x * 10 ^ p)"
  have "round_half_even (x * 10 ^ p) \<le> 10 ^ (p + d) - 1"
    using assms(2) by (intro round_half_even_le) simp
  then have k: "k \<le> 10 ^ (p + d) - 1" "0 \<le> k"
    using round_half_even_ge[of "x * 10 ^ p"] assms(1) by (simp_all add: k_def)
  have "k div 10 ^ p < 10 ^ d"
  proof (rule ccontr)
    assume "\<not> k div 10 ^ p < 10 ^ d"
    then have "10 ^ d * 10 ^ p \<le> k div 10 ^ p * 10 ^ p" by (intro mult_right_mono) simp_all
    also have "\<dots> \<le> k" using div_mult_mod_eq[of k "10 ^ p"] pos_mod_sign[of "10 ^ p" k]
      by (metis le_add_same_cancel1 zero_less_power zero_less_numeral)
    finally show False using k by (simp add: power_add mult.commute)
  qed
  then have "length (dec_nat (nat (k div 10 ^ p))) \<le> d"
    using assms(3) k by (intro length_dec_nat_le) (simp_all add: nat_less_iff pos_imp_zdiv_nonneg_iff)
  then have "length (dec_int (k div 10 ^ p)) \<le> d"
    using k by (simp add: dec_int_def pos_imp_zdiv_neg_iff)
  moreover have "length (fmt_zero p (k mod 10 ^ p)) = p" if "p \<noteq> 0"
    using that by (intro length_fmt_zero) simp_all
  ultimately show ?thesis by (auto simp: fmt_fixed_def k_def[symmetric] Let_def)
qed

lemma length_fmt_quotient:
  assumes rnd: "rounds_to_double rnd" and s: "0 \<le> s" "s < 2 ^ 53" and u: "1 \<le> u" "u \<le> 16 * of_int s"
    and bound: "of_int s * 10 ^ p * (2 ^ 53 + 1) < (10 ^ (p + d) - 1/2) * (u * 2 ^ 53)" and d: "0 < d"
  shows "length (fmt_fixed p (rnd (rnd (of_int s) / u))) \<le> d + (if p = 0 then 0 else p + 1)"
proof (rule length_fmt_fixed)
  have n: "rnd (of_int s) = of_int s" using rnd s by (simp add: rounds_to_double_def)
  define x where "x = of_int s / u"
  have x: "1/16 \<le> x" using u by (simp add: x_def field_simps)
  have "of_int s \<le> (2 ^ 53 :: real)" using s by (metis of_int_le_iff of_int_numeral of_int_power less_imp_le)
  then have "x \<le> 2 ^ 64" using u s by (simp add: x_def field_simps)
  then have e: "\<bar>rnd x - x\<bar> \<le> x / 2 ^ 53" using rnd x by (simp add: rounds_to_double_def)
  have "x / 2 ^ 53 \<le> x" using x by (simp add: field_simps)
  with e show "0 \<le> rnd (rnd (of_int s) / u)" unfolding n x_def[symmetric] by linarith
  have "rnd x \<le> x + x / 2 ^ 53" using e by linarith
  then have "rnd x * 10 ^ p \<le> x * (1 + 1 / 2 ^ 53) * 10 ^ p"
    by (intro mult_right_mono) (simp_all add: field_simps)
  also have "\<dots> = of_int s * 10 ^ p * (2 ^ 53 + 1) / (u * 2 ^ 53)" using u by (simp add: x_def field_simps)
  also have "\<dots> < 10 ^ (p + d) - 1/2" using bound u by (subst pos_divide_less_eq) simp_all
  finally show "rnd (rnd (of_int s) / u) * 10 ^ p < 10 ^ (p + d) - 1/2" unfolding n x_def[symmetric] .
  show "0 < d" by (rule d)
qed

text \<open>A conditional of formatted pieces, bounded branch by branch.\<close>

lemma length_if: "(b \<Longrightarrow> length x \<le> n) \<Longrightarrow> (\<not> b \<Longrightarrow> length y \<le> n) \<Longrightarrow> length (if b then x else y) \<le> n"
  by simp

lemma length_unit: "length t + length w \<le> n \<Longrightarrow> length (t @ w) \<le> n"
  by simp

lemma length_dec_small: "0 \<le> s \<Longrightarrow> s < 10 ^ k \<Longrightarrow> 0 < k \<Longrightarrow> length (dec_int s) \<le> k"
  using length_dec_nat_le[of "nat s" k] by (simp add: dec_int_def nat_less_iff)

lemma formatSI_width:
  assumes rnd: "rounds_to_double rnd" and s: "0 \<le> s" "s < 2 ^ 53"
  shows "length (formatSI rnd s) \<le> 5"
proof -
  have le: "s \<le> m \<Longrightarrow> of_int s \<le> (of_int m :: real)" "m \<le> s \<Longrightarrow> (of_int m :: real) \<le> of_int s" for m by simp_all
  note q2 = length_fmt_quotient[OF rnd s, where p = 2 and d = 1, simplified]
    and q1 = length_fmt_quotient[OF rnd s, where p = 1 and d = 2, simplified]
    and q0 = length_fmt_quotient[OF rnd s, where p = 0 and d = 3, simplified]
  show ?thesis
    unfolding formatSI_def snprintf_buf_def Let_def
    apply (rule order_trans[OF length_take[THEN eq_refl]], rule order_trans[OF min.cobounded1])
    apply (intro length_if)
    subgoal using length_dec_small[of s 3] s by simp
    subgoal using q2[of "10 ^ 3"] le(1)[of 9994] le(2)[of 1000] by simp
    subgoal using q1[of "10 ^ 3"] le(1)[of 99949] le(2)[of 9995] by simp
    subgoal using q0[of "10 ^ 3"] le(1)[of 999499] le(2)[of 99950] by simp
    subgoal using q2[of "10 ^ 6"] le(1)[of 9994999] le(2)[of 999500] by simp
    subgoal using q1[of "10 ^ 6"] le(1)[of 99949999] le(2)[of 9995000] by simp
    subgoal using q0[of "10 ^ 6"] le(1)[of 999499999] le(2)[of 99950000] by simp
    subgoal using q2[of "10 ^ 9"] le(1)[of 9994999999] le(2)[of 999500000] by simp
    subgoal using q1[of "10 ^ 9"] le(1)[of 99949999999] le(2)[of 9995000000] by simp
    subgoal using q0[of "10 ^ 9"] le(1)[of 999499999999] le(2)[of 99950000000] by simp
    subgoal using q2[of "10 ^ 12"] le(1)[of 9994999999999] le(2)[of 999500000000] by simp
    subgoal using q0[of "10 ^ 12"] le(1)[of 99949999999999] le(2)[of 9995000000000] by simp
    subgoal using q2[of "10 ^ 15"] s(2) le(1)[of 9007199254740991] le(2)[of 99950000000000] by simp
    using s by simp_all
qed

lemma iec_branch:
  assumes rnd: "rounds_to_double rnd" and s: "0 \<le> s" "s < 2 ^ 53" and u: "1 \<le> u" "of_int s < u * r"
    and r: "r \<le> L" "u * L \<le> of_int m + 1" and lo: "u \<le> 16 * of_int s"
    and m: "of_int m * 10 ^ p * (2 ^ 53 + 1) < (10 ^ (p + d) - 1/2) * (u * 2 ^ 53)" and d: "0 < d"
  shows "length (fmt_fixed p (rnd (of_int s / u))) \<le> d + (if p = 0 then 0 else p + 1)"
proof -
  have n: "rnd (of_int s) = of_int s" using rnd s by (simp add: rounds_to_double_def)
  have "u * r \<le> u * L" using r u by (intro mult_left_mono) simp_all
  with u(2) r(2) have "of_int s < (of_int m + 1 :: real)" by linarith
  then have "of_int s < (of_int (m + 1) :: real)" by simp
  then have "of_int s \<le> (of_int m :: real)" by (simp only: of_int_less_iff of_int_le_iff zle_add1_eq_le[symmetric] add.commute)
  then have "of_int s * 10 ^ p * (2 ^ 53 + 1) \<le> (of_int m :: real) * 10 ^ p * (2 ^ 53 + 1)"
    by (intro mult_right_mono) simp_all
  from this m have "of_int s * 10 ^ p * (2 ^ 53 + 1) < (10 ^ (p + d) - 1/2) * (u * 2 ^ 53)"
    by (rule le_less_trans)
  from length_fmt_quotient[OF rnd s u(1) lo this d] show ?thesis by (simp add: n)
qed

lemma formatIEC_width:
  assumes rnd: "rounds_to_double rnd" and s: "0 \<le> s" "s < 2 ^ 53"
  shows "length (formatIEC rnd s) \<le> 6"
proof -
  have n: "rnd (of_int s) = of_int s" using rnd s by (simp add: rounds_to_double_def)
  have lit: "rnd L \<le> L + L / 2 ^ 53" "L - L / 2 ^ 53 \<le> rnd L" if "1 \<le> L" "L \<le> 2000" for L
  proof -
    have "\<bar>rnd L - L\<bar> \<le> L / 2 ^ 53" using rnd that by (simp add: rounds_to_double_def)
    then show "rnd L \<le> L + L / 2 ^ 53" "L - L / 2 ^ 53 \<le> rnd L" by linarith+
  qed
  have up: "rnd 9.995 \<le> 9.995 + 1 / 10 ^ 14" "rnd 99.95 \<le> 99.95 + 1 / 10 ^ 13" "rnd 1023.5 \<le> 1023.5 + 1 / 10 ^ 12"
    and lo: "9 \<le> rnd 9.995" "99 \<le> rnd 99.95" "1023 \<le> rnd 1023.5"
    using lit[of "9.995"] lit[of "99.95"] lit[of "1023.5"] by simp_all
  have "s \<le> 9007199254740991" using s(2) by simp
  then have top: "of_int s \<le> (9007199254740991 :: real)" by (simp only: of_int_le_numeral_iff)
  note branch = iec_branch[OF rnd s]
    and pi = length_fmt_quotient[OF rnd s, of 1125899906842624 2 1, unfolded n]
  show ?thesis
    unfolding formatIEC_def snprintf_buf_def Let_def n
    apply (rule order_trans[OF length_take[THEN eq_refl]], rule order_trans[OF min.cobounded1])
    apply (intro length_if)
    subgoal using length_dec_small[of s 4] s by simp
    subgoal using branch[of 1024 _ _ 10234 2 1, OF _ _ up(1)] lo by simp
    subgoal using branch[of 1024 _ _ 102348 1 2, OF _ _ up(2)] lo by simp
    subgoal using branch[of 1024 _ _ 1048064 0 4, OF _ _ up(3)] lo by simp
    subgoal using branch[of 1048576 _ _ 10480517 2 1, OF _ _ up(1)] lo by simp
    subgoal using branch[of 1048576 _ _ 104805171 1 2, OF _ _ up(2)] lo by simp
    subgoal using branch[of 1048576 _ _ 1073217536 0 4, OF _ _ up(3)] lo by simp
    subgoal using branch[of 1073741824 _ _ 10732049530 2 1, OF _ _ up(1)] lo by simp
    subgoal using branch[of 1073741824 _ _ 107320495308 1 2, OF _ _ up(2)] lo by simp
    subgoal using branch[of 1073741824 _ _ 1098974756864 0 4, OF _ _ up(3)] lo by simp
    subgoal using branch[of 1099511627776 _ _ 10989618719621 2 1, OF _ _ up(1)] lo by simp
    subgoal using branch[of 1099511627776 _ _ 109896187196211 1 2, OF _ _ up(2)] lo by simp
    subgoal using branch[of 1099511627776 _ _ 1125350151028737 0 4, OF _ _ up(3)] lo by simp
    subgoal using pi top lo by simp
    using top lo by simp_all
qed

subsection \<open>Properties\<close>

text \<open>C30: a log stream refines a bounded log. For every sequence of insertions whose operands are
  values of their C++ types, no write goes outside the buffer, the cursor stays inside it, and the
  text after them is that of the abstract log, in which an entry is appended whole or not at all: a
  string when it leaves at least one byte, a number when 48 bytes are left. Integers of every width
  appear in decimal, pointers in hexadecimal, and a null string as \<open>(null)\<close>.\<close>

theorem LogStream_refines_bounded_log:
  assumes "mem \<noteq> []" "\<forall>x \<in> set xs. item_ok g x"
  shows "\<exists>b. for_each (LogStream_insert g) xs (FixedBuffer_new mem) = Some b
    \<and> fb_cur b < length (fb_data b) \<and> length (fb_data b) = length mem
    \<and> FixedBuffer_toString b = fold (\<lambda>x. log_put (length mem) (item_room g x) (item_text g x)) xs []"
  using LogStream_run[of "FixedBuffer_new mem" xs g] new_ok[OF assms(1)] assms(2)
  by (simp add: fb_ok_def) (simp add: FixedBuffer_new_def)

theorem LogStream_refines_bounded_log_witness:
  "\<exists>b. for_each (LogStream_insert (\<lambda>d :: nat. dec_nat d)) [Put_str ''fd = '', Put_int (-7), Put_cstr None]
        (FixedBuffer_new (replicate 4000 NUL)) = Some b
    \<and> FixedBuffer_toString b = ''fd = -7(null)''"
proof -
  have "dec_nat 7 = ''7''" by (subst dec_nat.simps) (simp add: digit_char_def char_of_def bit_0)
  then show ?thesis
    using LogStream_refines_bounded_log[of "replicate 4000 NUL"
        "[Put_str ''fd = '', Put_int (-7), Put_cstr None]" "\<lambda>d :: nat. dec_nat d"]
    by (auto simp: log_put_def item_room_def in_64_def dec_int_def)
qed

text \<open>The digit loop, which divides towards zero and reads its digits from a table centred on
  zero, prints every integer as \<open>"%d"\<close> does, the most negative value of each type included, and the
  hexadecimal loop prints digits whose positional value is the pointer.\<close>

theorem LogStream_convert_exact:
  "convert v = dec_int v \<and> hex_value (convertHex p) = p"
  by (simp add: convert_is_dec_int hex_value_convertHex)

text \<open>C40: the header promises that \<open>formatSI\<close> returns at most 5 characters and \<open>formatIEC\<close> at most
  6. They do for every quantity from 0 to \<open>2 ^ 53 - 1\<close>, in any arithmetic that is exact on integers of
  this size and rounds quotients with a relative error of at most \<open>2 ^ -53\<close>, as doubles do: no
  threshold lets a rounded mantissa gain a digit.\<close>

theorem LogStream_format_width:
  assumes "rounds_to_double rnd" "0 \<le> s" "s < 2 ^ 53"
  shows "length (formatSI rnd s) \<le> 5 \<and> length (formatIEC rnd s) \<le> 6"
  using formatSI_width[OF assms] formatIEC_width[OF assms] by simp

theorem LogStream_format_width_witness:
  "length (formatSI (\<lambda>x. x) 9994) \<le> 5 \<and> length (formatIEC (\<lambda>x. x) 9994) \<le> 6"
  by (rule LogStream_format_width) (simp_all add: rounds_to_double_def)

end
