(* ===== verification/AsyncLogging.thy ===== *)
theory AsyncLogging
  imports LogStreamProps
begin

text \<open>
  The asynchronous logger: \<^verbatim>\<open>src/dc/base/asyncLogging.h\<close> and \<^verbatim>\<open>src/dc/base/asyncLogging.cc\<close>. Any number of threads
  call \<open>append\<close>; the thread of the logger swaps the filled buffers out under the mutex and writes them to
  a \<open>LogFile\<close>. A \<open>unique_ptr\<close> is an option, and dereferencing a null one is outcome \<open>None\<close>. \<open>mem\<close> is the
  uninitialised array of a new buffer. The calls \<open>output.append(...)\<close> are recorded in order.
\<close>

subsection \<open>State\<close>

record async_logging =
  al_running :: bool
  al_currentBuffer :: "fixed_buffer option"
  al_nextBuffer :: "fixed_buffer option"
  al_buffers :: "fixed_buffer option list"

text \<open>The locals of \<open>threadFunc\<close> and what it has written.\<close>

record async_backend =
  ab_newBuffer1 :: "fixed_buffer option"
  ab_newBuffer2 :: "fixed_buffer option"
  ab_buffersToWrite :: "fixed_buffer option list"
  ab_output :: "string list"

definition AsyncLogging_new :: "string \<Rightarrow> async_logging" where
  "AsyncLogging_new mem = \<lparr>al_running = False,
     al_currentBuffer = Some (FixedBuffer_bzero (FixedBuffer_new mem)),
     al_nextBuffer = Some (FixedBuffer_bzero (FixedBuffer_new mem)), al_buffers = []\<rparr>"

definition AsyncLogging_start :: "async_logging \<Rightarrow> async_logging" where
  "AsyncLogging_start a = a\<lparr>al_running := True\<rparr>"

definition AsyncLogging_stop :: "async_logging \<Rightarrow> async_logging" where
  "AsyncLogging_stop a = a\<lparr>al_running := False\<rparr>"

definition AsyncLogging_destroy :: "async_logging \<Rightarrow> async_logging" where
  "AsyncLogging_destroy a = (if al_running a then AsyncLogging_stop a else a)"

subsection \<open>The front end\<close>

definition AsyncLogging_append :: "string \<Rightarrow> string \<Rightarrow> async_logging \<Rightarrow> async_logging outcome" where
  "AsyncLogging_append mem logline a = do {
     let a = (if al_currentBuffer a = None
              then a\<lparr>al_currentBuffer := al_nextBuffer a, al_nextBuffer := None\<rparr> else a);
     cur \<leftarrow> al_currentBuffer a;
     if FixedBuffer_avail cur > length logline
     then Some (a\<lparr>al_currentBuffer := Some (FixedBuffer_append logline cur)\<rparr>)
     else do {
       let a = a\<lparr>al_buffers := al_buffers a @ [al_currentBuffer a], al_currentBuffer := None\<rparr>;
       let a = (if al_nextBuffer a \<noteq> None
                then a\<lparr>al_currentBuffer := al_nextBuffer a, al_nextBuffer := None\<rparr>
                else a\<lparr>al_currentBuffer := Some (FixedBuffer_new mem)\<rparr>);
       cur \<leftarrow> al_currentBuffer a;
       Some (a\<lparr>al_currentBuffer := Some (FixedBuffer_append logline cur)\<rparr>)
     }
   }"

subsection \<open>The logging thread\<close>

definition AsyncLogging_thread_begin :: "string \<Rightarrow> async_logging \<Rightarrow> async_backend outcome" where
  "AsyncLogging_thread_begin mem a = do {
     assert_that (al_running a);
     Some \<lparr>ab_newBuffer1 = Some (FixedBuffer_bzero (FixedBuffer_new mem)),
       ab_newBuffer2 = Some (FixedBuffer_bzero (FixedBuffer_new mem)), ab_buffersToWrite = [], ab_output = []\<rparr>
   }"

text \<open>The top of the loop and its critical section; the timed wait in it only delays the rest.\<close>

definition empty_buffer :: "fixed_buffer option \<Rightarrow> bool" where
  "empty_buffer p \<longleftrightarrow> (case p of None \<Rightarrow> False | Some b \<Rightarrow> FixedBuffer_length b = 0)"

definition AsyncLogging_swap :: "async_logging \<times> async_backend \<Rightarrow> (async_logging \<times> async_backend) outcome" where
  "AsyncLogging_swap s = (case s of (a, b) \<Rightarrow> do {
     assert_that (empty_buffer (ab_newBuffer1 b));
     assert_that (empty_buffer (ab_newBuffer2 b));
     assert_that (ab_buffersToWrite b = []);
     let a = a\<lparr>al_buffers := al_buffers a @ [al_currentBuffer a], al_currentBuffer := ab_newBuffer1 b\<rparr>;
     let b = b\<lparr>ab_newBuffer1 := None\<rparr>;
     let (a, b) = (a\<lparr>al_buffers := ab_buffersToWrite b\<rparr>, b\<lparr>ab_buffersToWrite := al_buffers a\<rparr>);
     let (a, b) = (if al_nextBuffer a = None
                   then (a\<lparr>al_nextBuffer := ab_newBuffer2 b\<rparr>, b\<lparr>ab_newBuffer2 := None\<rparr>) else (a, b));
     Some (a, b)
   })"

text \<open>\<open>output.append(buffer->data(), buffer->length())\<close> for every buffer.\<close>

fun write_buffers :: "fixed_buffer option list \<Rightarrow> string list \<Rightarrow> string list outcome" where
  "write_buffers [] out = Some out"
| "write_buffers (None # bs) out = None"
| "write_buffers (Some b # bs) out = write_buffers bs (out @ [FixedBuffer_toString b])"

text \<open>Taking a recycled buffer from the back of the list.\<close>

definition recycle :: "fixed_buffer option list \<Rightarrow> (fixed_buffer option \<times> fixed_buffer option list) outcome" where
  "recycle bs = do {
     assert_that (bs \<noteq> []);
     b \<leftarrow> last bs;
     Some (Some (FixedBuffer_reset b), butlast bs)
   }"

definition AsyncLogging_recycle :: "async_backend \<Rightarrow> async_backend outcome" where
  "AsyncLogging_recycle b = do {
     let b = (if length (ab_buffersToWrite b) > 2
              then b\<lparr>ab_buffersToWrite := take 2 (ab_buffersToWrite b)\<rparr> else b);
     b \<leftarrow> (if ab_newBuffer1 b = None then do {
             (p, bs) \<leftarrow> recycle (ab_buffersToWrite b);
             Some (b\<lparr>ab_newBuffer1 := p, ab_buffersToWrite := bs\<rparr>)
           } else Some b);
     b \<leftarrow> (if ab_newBuffer2 b = None then do {
             (p, bs) \<leftarrow> recycle (ab_buffersToWrite b);
             Some (b\<lparr>ab_newBuffer2 := p, ab_buffersToWrite := bs\<rparr>)
           } else Some b);
     Some (b\<lparr>ab_buffersToWrite := []\<rparr>)
   }"

text \<open>The rest of the loop body, which touches no shared state; \<open>notice\<close> is the message about dropped buffers.\<close>

definition AsyncLogging_write :: "(nat \<Rightarrow> string) \<Rightarrow> async_backend \<Rightarrow> async_backend outcome" where
  "AsyncLogging_write notice b = do {
     assert_that (ab_buffersToWrite b \<noteq> []);
     let b = (if length (ab_buffersToWrite b) > 25
              then b\<lparr>ab_output := ab_output b @ [notice (length (ab_buffersToWrite b) - 2)],
                     ab_buffersToWrite := take 2 (ab_buffersToWrite b)\<rparr>
              else b);
     out \<leftarrow> write_buffers (ab_buffersToWrite b) (ab_output b);
     AsyncLogging_recycle (b\<lparr>ab_output := out\<rparr>)
   }"

subsection \<open>All interleavings\<close>

datatype backend_pc = At_loop | At_write | Finished

text \<open>History: the lines appended, and whether buffers have been dropped.\<close>

record async_system =
  as_front :: async_logging
  as_back :: async_backend
  as_pc :: backend_pc
  as_lines :: "string list"
  as_dropped :: bool

inductive async_step :: "string \<Rightarrow> (nat \<Rightarrow> string) \<Rightarrow> async_system \<Rightarrow> async_system \<Rightarrow> bool" for mem notice where
  do_append: "AsyncLogging_append mem line (as_front s) = Some a \<Longrightarrow> length line < length mem \<Longrightarrow>
    async_step mem notice s (s\<lparr>as_front := a, as_lines := as_lines s @ [line]\<rparr>)"
| do_swap: "as_pc s = At_loop \<Longrightarrow> al_running (as_front s) \<Longrightarrow> AsyncLogging_swap (as_front s, as_back s) = Some (a, b) \<Longrightarrow>
    async_step mem notice s (s\<lparr>as_front := a, as_back := b, as_pc := At_write\<rparr>)"
| do_write: "as_pc s = At_write \<Longrightarrow> AsyncLogging_write notice (as_back s) = Some b \<Longrightarrow>
    async_step mem notice s (s\<lparr>as_back := b, as_pc := At_loop,
      as_dropped := (as_dropped s \<or> length (ab_buffersToWrite (as_back s)) > 25)\<rparr>)"
| do_stop: "async_step mem notice s (s\<lparr>as_front := AsyncLogging_stop (as_front s)\<rparr>)"
| do_finish: "as_pc s = At_loop \<Longrightarrow> \<not> al_running (as_front s) \<Longrightarrow> async_step mem notice s (s\<lparr>as_pc := Finished\<rparr>)"

definition async_init :: "string \<Rightarrow> async_system" where
  "async_init mem = (let a = AsyncLogging_start (AsyncLogging_new mem) in
     \<lparr>as_front = a, as_back = the (AsyncLogging_thread_begin mem a), as_pc = At_loop, as_lines = [], as_dropped = False\<rparr>)"

inductive async_reach :: "string \<Rightarrow> (nat \<Rightarrow> string) \<Rightarrow> async_system \<Rightarrow> bool" for mem notice where
  start: "async_reach mem notice (async_init mem)"
| step: "async_reach mem notice s \<Longrightarrow> async_step mem notice s s' \<Longrightarrow> async_reach mem notice s'"

subsection \<open>The invariant\<close>

text \<open>A buffer of the size of \<open>mem\<close>.\<close>

definition buf_ok :: "string \<Rightarrow> fixed_buffer \<Rightarrow> bool" where
  "buf_ok mem b \<longleftrightarrow> length (fb_data b) = length mem \<and> fb_cur b < length mem"

definition ptr_ok :: "string \<Rightarrow> fixed_buffer option \<Rightarrow> bool" where
  "ptr_ok mem p \<longleftrightarrow> (case p of None \<Rightarrow> False | Some b \<Rightarrow> buf_ok mem b)"

definition ptr_text :: "fixed_buffer option \<Rightarrow> string" where
  "ptr_text p = (case p of None \<Rightarrow> [] | Some b \<Rightarrow> FixedBuffer_toString b)"

definition front_ok :: "string \<Rightarrow> async_logging \<Rightarrow> bool" where
  "front_ok mem a \<longleftrightarrow> ptr_ok mem (al_currentBuffer a) \<and> list_all (ptr_ok mem) (al_buffers a)
     \<and> (al_nextBuffer a = None \<longrightarrow> al_buffers a \<noteq> [])
     \<and> (al_nextBuffer a \<noteq> None \<longrightarrow> ptr_ok mem (al_nextBuffer a) \<and> empty_buffer (al_nextBuffer a))"

definition front_text :: "async_logging \<Rightarrow> string" where
  "front_text a = concat (map ptr_text (al_buffers a)) @ ptr_text (al_currentBuffer a)"

lemma append_fits:
  assumes "buf_ok mem b" "FixedBuffer_avail b > length line"
  shows "buf_ok mem (FixedBuffer_append line b)"
    "FixedBuffer_toString (FixedBuffer_append line b) = FixedBuffer_toString b @ line"
  using assms FixedBuffer_append_put[of b line]
  by (auto simp: buf_ok_def fb_ok_def log_put_def FixedBuffer_avail_def)

lemma new_buf_ok: "mem \<noteq> [] \<Longrightarrow> ptr_ok mem (Some (FixedBuffer_new mem))"
  "FixedBuffer_length (FixedBuffer_new mem) = 0" "FixedBuffer_toString (FixedBuffer_new mem) = []"
  by (simp_all add: ptr_ok_def buf_ok_def FixedBuffer_new_def FixedBuffer_length_def FixedBuffer_toString_def)

lemma empty_fits: "buf_ok mem b \<Longrightarrow> FixedBuffer_length b = 0 \<Longrightarrow> FixedBuffer_avail b = length mem
    \<and> FixedBuffer_toString b = []"
  by (simp add: buf_ok_def FixedBuffer_length_def FixedBuffer_avail_def FixedBuffer_toString_def)

lemma AsyncLogging_append_ok:
  assumes a: "front_ok mem a" and line: "length line < length mem"
  shows "\<exists>a'. AsyncLogging_append mem line a = Some a' \<and> front_ok mem a' \<and> front_text a' = front_text a @ line
    \<and> al_running a' = al_running a"
proof -
  obtain cur where cur: "al_currentBuffer a = Some cur" "buf_ok mem cur"
    using a by (auto simp: front_ok_def ptr_ok_def split: option.splits)
  show ?thesis
  proof (cases "FixedBuffer_avail cur > length line")
    case True
    with append_fits[OF cur(2) True] cur a show ?thesis
      by (auto simp: AsyncLogging_append_def front_ok_def ptr_ok_def front_text_def ptr_text_def)
  next
    case False
    define nxt where "nxt = (case al_nextBuffer a of None \<Rightarrow> FixedBuffer_new mem | Some b \<Rightarrow> b)"
    have "mem \<noteq> []" using line by auto
    then have nxt: "buf_ok mem nxt" "FixedBuffer_length nxt = 0"
      using a new_buf_ok[of mem]
      by (auto simp: nxt_def front_ok_def ptr_ok_def empty_buffer_def split: option.splits)
    have fit: "FixedBuffer_avail nxt > length line" using empty_fits[OF nxt] line by simp
    show ?thesis
      using append_fits[OF nxt(1) fit] empty_fits[OF nxt] cur a False
      by (cases "al_nextBuffer a")
        (auto simp: AsyncLogging_append_def front_ok_def ptr_ok_def front_text_def ptr_text_def nxt_def)
  qed
qed

text \<open>The logging thread at the top of its loop, and between the swap and the writing.\<close>

definition back_ok :: "string \<Rightarrow> backend_pc \<Rightarrow> async_backend \<Rightarrow> bool" where
  "back_ok mem pc b \<longleftrightarrow>
     (if pc = At_write
      then ab_newBuffer1 b = None \<and> ab_buffersToWrite b \<noteq> [] \<and> list_all (ptr_ok mem) (ab_buffersToWrite b)
        \<and> (if ab_newBuffer2 b = None then 2 \<le> length (ab_buffersToWrite b)
           else ptr_ok mem (ab_newBuffer2 b) \<and> empty_buffer (ab_newBuffer2 b))
      else ptr_ok mem (ab_newBuffer1 b) \<and> empty_buffer (ab_newBuffer1 b)
        \<and> ptr_ok mem (ab_newBuffer2 b) \<and> empty_buffer (ab_newBuffer2 b) \<and> ab_buffersToWrite b = [])"

definition back_text :: "async_backend \<Rightarrow> string" where
  "back_text b = concat (ab_output b) @ concat (map ptr_text (ab_buffersToWrite b))"

lemma ptr_ok_Some: "ptr_ok mem p \<Longrightarrow> p \<noteq> None"
  by (auto simp: ptr_ok_def split: option.splits)

lemma empty_text: "empty_buffer p \<Longrightarrow> ptr_text p = []"
  by (auto simp: empty_buffer_def ptr_text_def FixedBuffer_toString_def split: option.splits)

lemma AsyncLogging_swap_ok:
  assumes a: "front_ok mem a" and b: "back_ok mem At_loop b"
  shows "\<exists>a' b'. AsyncLogging_swap (a, b) = Some (a', b') \<and> front_ok mem a' \<and> back_ok mem At_write b'
    \<and> back_text b' @ front_text a' = back_text b @ front_text a \<and> al_running a' = al_running a"
proof (cases "al_nextBuffer a")
  case None
  then have "al_buffers a \<noteq> []" using a by (simp add: front_ok_def)
  then have "2 \<le> length (al_buffers a @ [al_currentBuffer a])" by (cases "al_buffers a") auto
  with None a b show ?thesis
    by (auto simp: AsyncLogging_swap_def front_ok_def back_ok_def back_text_def front_text_def empty_text dest: ptr_ok_Some)
next
  case (Some nxt)
  with a b show ?thesis
    by (auto simp: AsyncLogging_swap_def front_ok_def back_ok_def back_text_def front_text_def empty_text dest: ptr_ok_Some)
qed

lemma write_buffers_ok:
  "list_all (ptr_ok mem) bs \<Longrightarrow> \<exists>out'. write_buffers bs out = Some out' \<and> concat out' = concat out @ concat (map ptr_text bs)"
proof (induction bs arbitrary: out)
  case (Cons p bs)
  then obtain b where "p = Some b" by (auto simp: ptr_ok_def split: option.splits)
  with Cons.IH[of "out @ [FixedBuffer_toString b]"] Cons.prems show ?case by (auto simp: ptr_text_def)
qed simp

lemma recycle_ok:
  assumes "bs \<noteq> []" "list_all (ptr_ok mem) bs"
  shows "\<exists>p. recycle bs = Some (p, butlast bs) \<and> ptr_ok mem p \<and> empty_buffer p"
proof -
  have "ptr_ok mem (last bs)" using assms by (simp add: list_all_iff)
  then obtain b where "last bs = Some b" "buf_ok mem b" by (auto simp: ptr_ok_def split: option.splits)
  then show ?thesis using assms(1)
    by (auto simp: recycle_def ptr_ok_def empty_buffer_def buf_ok_def FixedBuffer_reset_def FixedBuffer_length_def)
qed

lemma list_all_take: "list_all P xs \<Longrightarrow> list_all P (take n xs)"
  by (auto simp: list_all_iff dest: in_set_takeD)

lemma AsyncLogging_recycle_ok:
  assumes b: "back_ok mem At_write b"
  shows "\<exists>b'. AsyncLogging_recycle b = Some b' \<and> back_ok mem At_loop b' \<and> ab_output b' = ab_output b"
proof -
  define ts where "ts = (if length (ab_buffersToWrite b) > 2 then take 2 (ab_buffersToWrite b) else ab_buffersToWrite b)"
  have ts: "ts \<noteq> []" "list_all (ptr_ok mem) ts" "ab_newBuffer2 b = None \<Longrightarrow> length ts = 2"
    using b by (auto simp: ts_def back_ok_def intro: list_all_take)
  define b1 where "b1 = b\<lparr>ab_buffersToWrite := ts\<rparr>"
  have step: "(if length (ab_buffersToWrite b) > 2 then b\<lparr>ab_buffersToWrite := take 2 (ab_buffersToWrite b)\<rparr> else b) = b1"
    by (simp add: b1_def ts_def)
  have b1: "ab_buffersToWrite b1 = ts" "ab_newBuffer1 b1 = None" "ab_newBuffer2 b1 = ab_newBuffer2 b" "ab_output b1 = ab_output b"
    using b by (simp_all add: b1_def back_ok_def)
  obtain p1 where p1: "recycle ts = Some (p1, butlast ts)" "ptr_ok mem p1" "empty_buffer p1"
    using recycle_ok[OF ts(1,2)] by blast
  show ?thesis
  proof (cases "ab_newBuffer2 b")
    case None
    have "butlast ts \<noteq> []" using ts(3)[OF None] by (cases ts) auto
    moreover have "list_all (ptr_ok mem) (butlast ts)" using ts(2) by (auto simp: list_all_iff dest: in_set_butlastD)
    ultimately obtain p2 where "recycle (butlast ts) = Some (p2, butlast (butlast ts))" "ptr_ok mem p2" "empty_buffer p2"
      using recycle_ok by blast
    with p1 None b1 show ?thesis unfolding AsyncLogging_recycle_def Let_def step by (simp add: back_ok_def)
  next
    case (Some x)
    with b p1 b1 show ?thesis unfolding AsyncLogging_recycle_def Let_def step by (simp add: back_ok_def)
  qed
qed

lemma AsyncLogging_write_ok:
  assumes b: "back_ok mem At_write b"
  shows "\<exists>b'. AsyncLogging_write notice b = Some b' \<and> back_ok mem At_loop b'
    \<and> (length (ab_buffersToWrite b) \<le> 25 \<longrightarrow> back_text b' = back_text b)"
proof -
  define b1 where "b1 = (if length (ab_buffersToWrite b) > 25
              then b\<lparr>ab_output := ab_output b @ [notice (length (ab_buffersToWrite b) - 2)],
                     ab_buffersToWrite := take 2 (ab_buffersToWrite b)\<rparr> else b)"
  have b1: "back_ok mem At_write b1" using b by (auto simp: b1_def back_ok_def intro: list_all_take)
  then have "list_all (ptr_ok mem) (ab_buffersToWrite b1)" by (simp add: back_ok_def)
  then obtain out where out: "write_buffers (ab_buffersToWrite b1) (ab_output b1) = Some out"
      "concat out = concat (ab_output b1) @ concat (map ptr_text (ab_buffersToWrite b1))"
    using write_buffers_ok by blast
  have "back_ok mem At_write (b1\<lparr>ab_output := out\<rparr>)" using b1 by (simp add: back_ok_def)
  then obtain b' where b': "AsyncLogging_recycle (b1\<lparr>ab_output := out\<rparr>) = Some b'" "back_ok mem At_loop b'" "ab_output b' = out"
    using AsyncLogging_recycle_ok[of mem "b1\<lparr>ab_output := out\<rparr>"] by auto
  have "ab_buffersToWrite b \<noteq> []" using b by (simp add: back_ok_def)
  then have "AsyncLogging_write notice b = Some b'"
    unfolding AsyncLogging_write_def b1_def[symmetric] Let_def using out b'(1) by simp
  moreover have "length (ab_buffersToWrite b) \<le> 25 \<Longrightarrow> back_text b' = back_text b"
    using out(2) b'(2,3) by (simp add: b1_def back_text_def back_ok_def)
  ultimately show ?thesis using b'(2) by blast
qed

subsection \<open>Every reachable state\<close>

definition async_inv :: "string \<Rightarrow> async_system \<Rightarrow> bool" where
  "async_inv mem s \<longleftrightarrow> front_ok mem (as_front s) \<and> back_ok mem (as_pc s) (as_back s)
     \<and> (\<not> as_dropped s \<longrightarrow> concat (as_lines s) = back_text (as_back s) @ front_text (as_front s))"

lemma async_inv_init: "mem \<noteq> [] \<Longrightarrow> async_inv mem (async_init mem)"
  by (simp add: async_inv_def async_init_def AsyncLogging_new_def AsyncLogging_start_def AsyncLogging_thread_begin_def
      front_ok_def back_ok_def ptr_ok_def buf_ok_def empty_buffer_def FixedBuffer_new_def FixedBuffer_bzero_def
      FixedBuffer_length_def FixedBuffer_toString_def back_text_def front_text_def ptr_text_def Let_def)

lemma async_inv_step:
  assumes "async_step mem notice s s'" "async_inv mem s"
  shows "async_inv mem s'"
  using assms
proof cases
  case (do_append line a)
  then show ?thesis using AsyncLogging_append_ok[of mem "as_front s" line] assms(2) by (auto simp: async_inv_def)
next
  case (do_swap a b)
  then show ?thesis using AsyncLogging_swap_ok[of mem "as_front s" "as_back s"] assms(2) by (auto simp: async_inv_def)
next
  case (do_write b)
  then show ?thesis using AsyncLogging_write_ok[of mem "as_back s" notice] assms(2) by (auto simp: async_inv_def)
next
  case do_stop
  then show ?thesis using assms(2) by (simp add: async_inv_def AsyncLogging_stop_def front_ok_def front_text_def)
next
  case do_finish
  then show ?thesis using assms(2) by (simp add: async_inv_def back_ok_def)
qed

lemma async_inv_reach: "async_reach mem notice s \<Longrightarrow> mem \<noteq> [] \<Longrightarrow> async_inv mem s"
  by (induction rule: async_reach.induct) (auto intro: async_inv_init async_inv_step)

subsection \<open>Properties\<close>

text \<open>C19: in every interleaving of threads that append lines shorter than a buffer with the logging
  thread, no assertion fails and no null buffer is dereferenced: each append, swap and write succeeds.
  As long as no buffers have been dropped (more than 25 at once), the lines appended are, byte for byte
  and in order, what has been given to the log file followed by what the buffers still hold.\<close>

theorem AsyncLogging_log_complete:
  assumes "mem \<noteq> []" "async_reach mem notice s"
  shows "(length line < length mem \<longrightarrow> AsyncLogging_append mem line (as_front s) \<noteq> None)
    \<and> (as_pc s = At_loop \<longrightarrow> AsyncLogging_swap (as_front s, as_back s) \<noteq> None)
    \<and> (as_pc s = At_write \<longrightarrow> AsyncLogging_write notice (as_back s) \<noteq> None)
    \<and> (\<not> as_dropped s \<longrightarrow> concat (as_lines s) = concat (ab_output (as_back s))
          @ concat (map ptr_text (ab_buffersToWrite (as_back s) @ al_buffers (as_front s) @ [al_currentBuffer (as_front s)])))"
proof -
  have inv: "async_inv mem s" using async_inv_reach assms by blast
  show ?thesis
    using inv AsyncLogging_append_ok[of mem "as_front s" line] AsyncLogging_swap_ok[of mem "as_front s" "as_back s"]
      AsyncLogging_write_ok[of mem "as_back s" notice]
    by (auto simp: async_inv_def back_text_def front_text_def)
qed

theorem AsyncLogging_log_complete_witness:
  "\<exists>s. async_reach ''1234'' (\<lambda>n. ''lost'') s \<and> as_lines s = [''ab'', ''cd''] \<and> length (al_buffers (as_front s)) = 1
     \<and> AsyncLogging_swap (as_front s, as_back s) \<noteq> None
     \<and> ''abcd'' = concat (ab_output (as_back s)) @ concat (map ptr_text
          (ab_buffersToWrite (as_back s) @ al_buffers (as_front s) @ [al_currentBuffer (as_front s)]))"
proof -
  let ?mem = "''1234''" and ?n = "\<lambda>n :: nat. ''lost''"
  define s0 where "s0 = async_init ?mem"
  obtain a1 where a1: "AsyncLogging_append ?mem ''ab'' (as_front s0) = Some a1"
      "al_buffers a1 = []" "al_currentBuffer a1 = Some \<lparr>fb_data = ''ab'' @ [NUL, NUL], fb_cur = 2\<rparr>" "al_nextBuffer a1 \<noteq> None"
    by (simp add: s0_def async_init_def AsyncLogging_append_def AsyncLogging_new_def AsyncLogging_start_def FixedBuffer_bzero_def
        FixedBuffer_new_def FixedBuffer_avail_def FixedBuffer_append_def write_at_def Let_def)
  obtain a2 where a2: "AsyncLogging_append ?mem ''cd'' a1 = Some a2" "length (al_buffers a2) = 1"
    using a1(2-4) by (auto simp: AsyncLogging_append_def FixedBuffer_avail_def)
  define s1 where "s1 = s0\<lparr>as_front := a1, as_lines := as_lines s0 @ [''ab'']\<rparr>"
  define s2 where "s2 = s1\<lparr>as_front := a2, as_lines := as_lines s1 @ [''cd'']\<rparr>"
  have "async_reach ?mem ?n s0" by (simp add: s0_def async_reach.start)
  moreover have "async_step ?mem ?n s0 s1" unfolding s1_def by (rule do_append[OF a1(1)]) simp
  moreover have "async_step ?mem ?n s1 s2" unfolding s2_def by (rule do_append) (simp_all add: s1_def a2)
  ultimately have r: "async_reach ?mem ?n s2" by (blast intro: async_reach.step)
  have l: "as_lines s2 = [''ab'', ''cd'']" "as_pc s2 = At_loop" "\<not> as_dropped s2" "length (al_buffers (as_front s2)) = 1"
    by (simp_all add: s2_def s1_def s0_def async_init_def a2 Let_def)
  from AsyncLogging_log_complete[OF _ r, of "''x''"] l r show ?thesis by (intro exI[of _ s2]) simp
qed

end
