(* ===== verification/Monitor.thy ===== *)
theory Monitor
  imports Prelude
begin

text \<open>
  Threads that meet in a monitor: one mutex (\<open>MutexLockGuard\<close>), two condition variables
  (\<open>notEmpty\<close>, \<open>notFull\<close>) and a queue. It is the shape shared by \<open>BlockingQueue\<close>,
  \<open>BoundedBlockingQueue\<close> and \<open>ThreadPool\<close>, which give the operations.

  A critical section runs under the mutex from its acquisition to its release or to a \<open>wait()\<close>,
  so it is one step; \<open>wait()\<close> releases the mutex and the thread joins the waiters of the condition.
  \<open>notify()\<close> wakes an arbitrary waiter, \<open>notifyAll()\<close> every one, and a waiter may wake up without
  a notification; a woken thread competes for the mutex again and re-evaluates its loop condition.
\<close>

subsection \<open>Threads\<close>

text \<open>\<open>Putting x\<close> and \<open>Taking\<close> are threads about to acquire the mutex, for the first time or after a wait.\<close>

datatype 'a thread_state = Idle | Putting 'a | Taking | Wait_not_full 'a | Wait_not_empty

fun awake :: "'a thread_state \<Rightarrow> 'a thread_state" where
  "awake (Wait_not_full x) = Putting x"
| "awake Wait_not_empty = Taking"
| "awake t = t"

fun waits_full :: "'a thread_state \<Rightarrow> bool" where
  "waits_full (Wait_not_full x) = True"
| "waits_full _ = False"

fun waits_empty :: "'a thread_state \<Rightarrow> bool" where
  "waits_empty Wait_not_empty = True"
| "waits_empty _ = False"

fun putting :: "'a thread_state \<Rightarrow> bool" where
  "putting (Putting x) = True"
| "putting _ = False"

fun taking :: "'a thread_state \<Rightarrow> bool" where
  "taking Taking = True"
| "taking _ = False"

subsection \<open>The operations of a monitor\<close>

text \<open>
  The conditions of the two \<open>while\<close> loops and what follows them: \<open>put_crit\<close> returns the queue,
  whether the value was accepted and whether \<open>notEmpty\<close> is notified; \<open>take_crit\<close> the value, the queue
  and whether \<open>notFull\<close> is notified. \<open>may_take\<close> is the condition under which a thread calls \<open>take()\<close>;
  \<open>drain_crit\<close> and \<open>stop_crit\<close> exist in some of the classes.
\<close>

record ('q, 'a) monitor_ops =
  put_waits :: "'q \<Rightarrow> bool"
  put_crit :: "'a \<Rightarrow> 'q \<Rightarrow> 'q \<times> bool \<times> bool"
  may_take :: "'q \<Rightarrow> bool"
  take_waits :: "'q \<Rightarrow> bool"
  take_crit :: "'q \<Rightarrow> 'a option \<times> 'q \<times> bool"
  drain_crit :: "('q \<Rightarrow> 'a list \<times> 'q) option"
  stop_crit :: "('q \<Rightarrow> 'q) option"

record ('q, 'a) monitor_state =
  mon_queue :: 'q
  mon_threads :: "'a thread_state list"
  mon_in :: "'a list"
  mon_out :: "'a list"

text \<open>\<open>notify()\<close> on the waiters that satisfy \<open>P\<close>.\<close>

inductive notify_one :: "('a thread_state \<Rightarrow> bool) \<Rightarrow> 'a thread_state list \<Rightarrow> 'a thread_state list \<Rightarrow> bool"
  for P where
  nobody: "\<not> list_ex P ts \<Longrightarrow> notify_one P ts ts"
| somebody: "j < length ts \<Longrightarrow> P (ts ! j) \<Longrightarrow> notify_one P ts (ts[j := awake (ts ! j)])"

definition notify_if :: "bool \<Rightarrow> ('a thread_state \<Rightarrow> bool) \<Rightarrow> 'a thread_state list \<Rightarrow> 'a thread_state list \<Rightarrow> bool" where
  "notify_if b P ts ts' = (if b then notify_one P ts ts' else ts' = ts)"

text \<open>\<open>mon_in\<close> and \<open>mon_out\<close> are the history: values accepted and values handed out, in order.\<close>

inductive mon_step :: "('q, 'a) monitor_ops \<Rightarrow> ('q, 'a) monitor_state \<Rightarrow> ('q, 'a) monitor_state \<Rightarrow> bool"
  for ops where
  call_put: "i < length (mon_threads s) \<Longrightarrow> mon_threads s ! i = Idle
    \<Longrightarrow> mon_step ops s (s\<lparr>mon_threads := (mon_threads s)[i := Putting x]\<rparr>)"
| call_take: "i < length (mon_threads s) \<Longrightarrow> mon_threads s ! i = Idle \<Longrightarrow> may_take ops (mon_queue s)
    \<Longrightarrow> mon_step ops s (s\<lparr>mon_threads := (mon_threads s)[i := Taking]\<rparr>)"
| put_wait: "i < length (mon_threads s) \<Longrightarrow> mon_threads s ! i = Putting x \<Longrightarrow> put_waits ops (mon_queue s)
    \<Longrightarrow> mon_step ops s (s\<lparr>mon_threads := (mon_threads s)[i := Wait_not_full x]\<rparr>)"
| put_done: "i < length (mon_threads s) \<Longrightarrow> mon_threads s ! i = Putting x \<Longrightarrow> \<not> put_waits ops (mon_queue s)
    \<Longrightarrow> put_crit ops x (mon_queue s) = (q, accepted, signal)
    \<Longrightarrow> notify_if signal waits_empty ((mon_threads s)[i := Idle]) ts
    \<Longrightarrow> mon_step ops s (s\<lparr>mon_queue := q, mon_threads := ts,
          mon_in := mon_in s @ (if accepted then [x] else [])\<rparr>)"
| take_wait: "i < length (mon_threads s) \<Longrightarrow> mon_threads s ! i = Taking \<Longrightarrow> take_waits ops (mon_queue s)
    \<Longrightarrow> mon_step ops s (s\<lparr>mon_threads := (mon_threads s)[i := Wait_not_empty]\<rparr>)"
| take_done: "i < length (mon_threads s) \<Longrightarrow> mon_threads s ! i = Taking \<Longrightarrow> \<not> take_waits ops (mon_queue s)
    \<Longrightarrow> take_crit ops (mon_queue s) = (r, q, signal)
    \<Longrightarrow> notify_if signal waits_full ((mon_threads s)[i := Idle]) ts
    \<Longrightarrow> mon_step ops s (s\<lparr>mon_queue := q, mon_threads := ts,
          mon_out := mon_out s @ (case r of None \<Rightarrow> [] | Some x \<Rightarrow> [x])\<rparr>)"
| spurious: "i < length (mon_threads s)
    \<Longrightarrow> mon_step ops s (s\<lparr>mon_threads := (mon_threads s)[i := awake (mon_threads s ! i)]\<rparr>)"
| drain: "drain_crit ops = Some f \<Longrightarrow> f (mon_queue s) = (xs, q)
    \<Longrightarrow> mon_step ops s (s\<lparr>mon_queue := q, mon_out := mon_out s @ xs\<rparr>)"
| stop: "stop_crit ops = Some f
    \<Longrightarrow> mon_step ops s (s\<lparr>mon_queue := f (mon_queue s), mon_threads := map awake (mon_threads s)\<rparr>)"

inductive mon_reach :: "('q, 'a) monitor_ops \<Rightarrow> ('q, 'a) monitor_state \<Rightarrow> ('q, 'a) monitor_state \<Rightarrow> bool"
  for ops s0 where
  start: "mon_reach ops s0 s0"
| step: "mon_reach ops s0 s \<Longrightarrow> mon_step ops s s' \<Longrightarrow> mon_reach ops s0 s'"

definition mon_init :: "'q \<Rightarrow> nat \<Rightarrow> ('q, 'a) monitor_state" where
  "mon_init q n = \<lparr>mon_queue = q, mon_threads = replicate n Idle, mon_in = [], mon_out = []\<rparr>"

subsection \<open>Counting threads\<close>

definition count_of :: "('t \<Rightarrow> bool) \<Rightarrow> 't list \<Rightarrow> nat" where
  "count_of P ts = length (filter P ts)"

lemma count_of_update:
  assumes "i < length ts"
  shows "count_of P (ts[i := t]) + (if P (ts ! i) then 1 else 0) = count_of P ts + (if P t then 1 else 0)"
proof -
  have "count_of P (take i ts @ ts ! i # drop (Suc i) ts)
      = count_of P (take i ts) + (if P (ts ! i) then 1 else 0) + count_of P (drop (Suc i) ts)"
    by (simp add: count_of_def)
  then have "count_of P ts = count_of P (take i ts) + (if P (ts ! i) then 1 else 0) + count_of P (drop (Suc i) ts)"
    using id_take_nth_drop[OF assms] by simp
  moreover have "count_of P (ts[i := t]) = count_of P (take i ts) + (if P t then 1 else 0) + count_of P (drop (Suc i) ts)"
    using assms by (simp add: count_of_def upd_conv_take_nth_drop)
  ultimately show ?thesis by simp
qed

lemma list_ex_count: "list_ex P ts \<longleftrightarrow> 0 < count_of P ts"
  by (auto simp: count_of_def list_ex_iff filter_empty_conv)

text \<open>A notification that finds a waiter makes one more thread runnable, one that finds none means there is none.\<close>

lemma notify_if_counts:
  assumes "notify_if b P ts ts'"
  shows "length ts' = length ts
    \<and> (P = waits_empty \<longrightarrow> count_of putting ts' = count_of putting ts \<and> count_of waits_full ts' = count_of waits_full ts
        \<and> count_of waits_empty ts' \<le> count_of waits_empty ts \<and> count_of taking ts \<le> count_of taking ts'
        \<and> (b \<and> 0 < count_of waits_empty ts' \<longrightarrow> count_of taking ts' = count_of taking ts + 1))
    \<and> (P = waits_full \<longrightarrow> count_of taking ts' = count_of taking ts \<and> count_of waits_empty ts' = count_of waits_empty ts
        \<and> count_of waits_full ts' \<le> count_of waits_full ts \<and> count_of putting ts \<le> count_of putting ts'
        \<and> (b \<and> 0 < count_of waits_full ts' \<longrightarrow> count_of putting ts' = count_of putting ts + 1))"
proof (cases b)
  case False
  then show ?thesis using assms by (auto simp: notify_if_def)
next
  case True
  then have "notify_one P ts ts'" using assms by (simp add: notify_if_def)
  then show ?thesis
  proof cases
    case nobody
    then show ?thesis by (auto simp: list_ex_count)
  next
    case (somebody j)
    note c = count_of_update[OF somebody(2), where t = "awake (ts ! j)"]
    show ?thesis
      using somebody(1,3) c[of putting] c[of taking] c[of waits_full] c[of waits_empty]
      by (cases "ts ! j") auto
  qed
qed

lemma notify_empty_counts:
  assumes "notify_if b waits_empty ts ts'"
  shows "count_of putting ts' = count_of putting ts" "count_of waits_full ts' = count_of waits_full ts"
    "count_of waits_empty ts' \<le> count_of waits_empty ts" "count_of taking ts \<le> count_of taking ts'"
    "b \<Longrightarrow> 0 < count_of waits_empty ts' \<Longrightarrow> count_of taking ts' = count_of taking ts + 1"
  using notify_if_counts[OF assms] by simp_all

lemma notify_full_counts:
  assumes "notify_if b waits_full ts ts'"
  shows "count_of taking ts' = count_of taking ts" "count_of waits_empty ts' = count_of waits_empty ts"
    "count_of waits_full ts' \<le> count_of waits_full ts" "count_of putting ts \<le> count_of putting ts'"
    "b \<Longrightarrow> 0 < count_of waits_full ts' \<Longrightarrow> count_of putting ts' = count_of putting ts + 1"
  using notify_if_counts[OF assms] by simp_all

lemma count_map_awake: "count_of waits_full (map awake ts) = 0" "count_of waits_empty (map awake ts) = 0"
proof -
  have "\<not> waits_full (awake t) \<and> \<not> waits_empty (awake t)" for t :: "'a thread_state" by (cases t) auto
  then show "count_of waits_full (map awake ts) = 0" "count_of waits_empty (map awake ts) = 0"
    by (auto simp: count_of_def filter_empty_conv)
qed

subsection \<open>The contract of a monitor and what follows from it\<close>

text \<open>
  A queue of \<open>items\<close> with an optional \<open>limit\<close>, open for business while \<open>running\<close>: takers wait
  while it is empty, putters while it is full, neither once it is stopped.
\<close>

locale queue_monitor =
  fixes ops :: "('q, 'a) monitor_ops" and items :: "'q \<Rightarrow> 'a list" and limit :: "'q \<Rightarrow> nat option"
    and running :: "'q \<Rightarrow> bool" and valid :: "'q \<Rightarrow> bool"
  assumes take_waits: "valid q \<Longrightarrow> take_waits ops q \<longleftrightarrow> running q \<and> items q = []"
    and put_waits: "valid q \<Longrightarrow> put_waits ops q \<longleftrightarrow> running q \<and> (\<exists>m. limit q = Some m \<and> m \<le> length (items q))"
    and put_crit: "valid q \<Longrightarrow> \<not> put_waits ops q \<Longrightarrow> put_crit ops x q = (q', acc, sig) \<Longrightarrow>
       valid q' \<and> running q' = running q \<and> limit q' = limit q \<and> acc = running q
       \<and> items q' = (if running q then items q @ [x] else items q) \<and> (running q \<longrightarrow> sig)"
    and take_crit: "valid q \<Longrightarrow> \<not> take_waits ops q \<Longrightarrow> take_crit ops q = (r, q', sig) \<Longrightarrow>
       valid q' \<and> running q' = running q \<and> limit q' = limit q
       \<and> (case r of None \<Rightarrow> items q = [] \<and> items q' = [] | Some x \<Rightarrow> items q = x # items q')
       \<and> (limit q \<noteq> None \<and> items q \<noteq> [] \<longrightarrow> sig)"
    and drain_crit: "valid q \<Longrightarrow> drain_crit ops = Some f \<Longrightarrow> f q = (xs, q') \<Longrightarrow>
       valid q' \<and> running q' = running q \<and> limit q' = limit q \<and> limit q = None \<and> xs = items q \<and> items q' = []"
    and stop_crit: "valid q \<Longrightarrow> stop_crit ops = Some g \<Longrightarrow>
       valid (g q) \<and> \<not> running (g q) \<and> limit (g q) = limit q \<and> items (g q) = items q"
begin

text \<open>
  The invariant. The last two conjuncts are the absence of lost wake-ups: while a taker sleeps, every
  item in the queue has a taker on its way, and while a putter sleeps, every free place has a putter.
\<close>

definition mon_inv :: "('q, 'a) monitor_state \<Rightarrow> bool" where
  "mon_inv s \<longleftrightarrow> valid (mon_queue s) \<and> mon_in s = mon_out s @ items (mon_queue s)
     \<and> (\<forall>m. limit (mon_queue s) = Some m \<longrightarrow> length (items (mon_queue s)) \<le> m)
     \<and> (\<not> running (mon_queue s) \<or> limit (mon_queue s) = None \<longrightarrow> count_of waits_full (mon_threads s) = 0)
     \<and> (\<not> running (mon_queue s) \<longrightarrow> count_of waits_empty (mon_threads s) = 0)
     \<and> (0 < count_of waits_empty (mon_threads s) \<longrightarrow> length (items (mon_queue s)) \<le> count_of taking (mon_threads s))
     \<and> (\<forall>m. 0 < count_of waits_full (mon_threads s) \<and> limit (mon_queue s) = Some m \<longrightarrow>
          m \<le> length (items (mon_queue s)) + count_of putting (mon_threads s))"

lemma inv_init:
  assumes "valid q" "items q = []"
  shows "mon_inv (mon_init q n)"
proof -
  have "count_of waits_full (replicate n Idle) = 0" "count_of waits_empty (replicate n Idle) = 0"
    by (simp_all add: count_of_def)
  with assms show ?thesis by (auto simp: mon_inv_def mon_init_def)
qed

lemma inv_threads:
  assumes inv: "mon_inv s"
    and full: "count_of waits_full ts \<le> count_of waits_full (mon_threads s) \<or> put_waits ops (mon_queue s)"
    and empty: "count_of waits_empty ts \<le> count_of waits_empty (mon_threads s) \<or> take_waits ops (mon_queue s)"
    and put: "count_of putting (mon_threads s) \<le> count_of putting ts \<or> put_waits ops (mon_queue s)"
    and take: "count_of taking (mon_threads s) \<le> count_of taking ts \<or> take_waits ops (mon_queue s)"
  shows "mon_inv (s\<lparr>mon_threads := ts\<rparr>)"
proof -
  have v: "valid (mon_queue s)" using inv by (simp add: mon_inv_def)
  note w = take_waits[OF v] put_waits[OF v]
  show ?thesis
    using inv full empty put take unfolding mon_inv_def w by (auto simp: not_less) (force+)?
qed

lemma inv_put_done:
  assumes inv: "mon_inv s" and i: "i < length (mon_threads s)" "mon_threads s ! i = Putting x"
    and go: "\<not> put_waits ops (mon_queue s)" "put_crit ops x (mon_queue s) = (q, acc, sig)"
    and ts: "notify_if sig waits_empty ((mon_threads s)[i := Idle]) ts"
  shows "mon_inv (s\<lparr>mon_queue := q, mon_threads := ts, mon_in := mon_in s @ (if acc then [x] else [])\<rparr>)"
proof -
  have v: "valid (mon_queue s)" using inv by (simp add: mon_inv_def)
  note w = put_waits[OF v] and c = put_crit[OF v go]
  note u = count_of_update[OF i(1), where t = Idle, unfolded i(2)]
  have cnt: "count_of putting ts + 1 = count_of putting (mon_threads s)"
    "count_of waits_full ts = count_of waits_full (mon_threads s)"
    "count_of waits_empty ts \<le> count_of waits_empty (mon_threads s)"
    "count_of taking (mon_threads s) \<le> count_of taking ts"
    "sig \<and> 0 < count_of waits_empty ts \<longrightarrow> count_of taking ts = count_of taking (mon_threads s) + 1"
    using notify_empty_counts[OF ts] u[of putting] u[of taking] u[of waits_full] u[of waits_empty] by auto
  show ?thesis
  proof (cases "running (mon_queue s)")
    case True
    then have c': "items q = items (mon_queue s) @ [x]" "running q" "limit q = limit (mon_queue s)" "valid q" acc sig
      using c by simp_all
    show ?thesis using inv go(1) cnt True unfolding mon_inv_def w by (simp add: c') (auto simp: not_le)
  next
    case False
    then have c': "items q = items (mon_queue s)" "\<not> running q" "limit q = limit (mon_queue s)" "valid q" "\<not> acc"
      using c by simp_all
    show ?thesis using inv cnt False unfolding mon_inv_def by (simp add: c')
  qed
qed

lemma inv_take_done:
  assumes inv: "mon_inv s" and i: "i < length (mon_threads s)" "mon_threads s ! i = Taking"
    and go: "\<not> take_waits ops (mon_queue s)" "take_crit ops (mon_queue s) = (r, q, sig)"
    and ts: "notify_if sig waits_full ((mon_threads s)[i := Idle]) ts"
  shows "mon_inv (s\<lparr>mon_queue := q, mon_threads := ts, mon_out := mon_out s @ (case r of None \<Rightarrow> [] | Some x \<Rightarrow> [x])\<rparr>)"
proof -
  have v: "valid (mon_queue s)" using inv by (simp add: mon_inv_def)
  note w = take_waits[OF v] and c = take_crit[OF v go]
  note u = count_of_update[OF i(1), where t = Idle, unfolded i(2)]
  have cnt: "count_of taking ts + 1 = count_of taking (mon_threads s)"
    "count_of waits_empty ts = count_of waits_empty (mon_threads s)"
    "count_of waits_full ts \<le> count_of waits_full (mon_threads s)"
    "count_of putting (mon_threads s) \<le> count_of putting ts"
    "sig \<and> 0 < count_of waits_full ts \<longrightarrow> count_of putting ts = count_of putting (mon_threads s) + 1"
    using notify_full_counts[OF ts] u[of putting] u[of taking] u[of waits_full] u[of waits_empty] by auto
  show ?thesis
  proof (cases r)
    case None
    then have c': "items q = []" "items (mon_queue s) = []" "running q = running (mon_queue s)"
      "limit q = limit (mon_queue s)" "valid q" "\<not> running (mon_queue s)"
      using c go(1) w by simp_all
    show ?thesis using inv cnt unfolding mon_inv_def by (simp add: c' None)
  next
    case (Some x)
    then have c': "items (mon_queue s) = x # items q" "running q = running (mon_queue s)"
      "limit q = limit (mon_queue s)" "valid q" "limit (mon_queue s) \<noteq> None \<longrightarrow> sig"
      using c by simp_all
    show ?thesis
      using inv cnt c'(5) unfolding mon_inv_def
      by (cases "limit (mon_queue s)") (simp_all add: c'(1-4) Some, auto)
  qed
qed

lemma inv_step:
  assumes "mon_step ops s s'" "mon_inv s"
  shows "mon_inv s'"
  using assms
proof cases
  case (call_put i x)
  note u = count_of_update[OF call_put(2), where t = "Putting x", unfolded call_put(3)]
  show ?thesis unfolding call_put(1)
    using assms(2) u[of putting] u[of taking] u[of waits_full] u[of waits_empty] by (intro inv_threads) simp_all
next
  case (call_take i)
  note u = count_of_update[OF call_take(2), where t = Taking, unfolded call_take(3)]
  show ?thesis unfolding call_take(1)
    using assms(2) u[of putting] u[of taking] u[of waits_full] u[of waits_empty] by (intro inv_threads) simp_all
next
  case (put_wait i x)
  note u = count_of_update[OF put_wait(2), where t = "Wait_not_full x", unfolded put_wait(3)]
  show ?thesis unfolding put_wait(1)
    using assms(2) put_wait(4) u[of taking] u[of waits_empty] by (intro inv_threads) simp_all
next
  case (take_wait i)
  note u = count_of_update[OF take_wait(2), where t = Wait_not_empty, unfolded take_wait(3)]
  show ?thesis unfolding take_wait(1)
    using assms(2) take_wait(4) u[of putting] u[of waits_full] by (intro inv_threads) simp_all
next
  case (put_done i x q acc sig ts)
  then show ?thesis using inv_put_done[OF assms(2)] by blast
next
  case (take_done i r q sig ts)
  then show ?thesis using inv_take_done[OF assms(2)] by blast
next
  case (spurious i)
  note u = count_of_update[OF spurious(2), where t = "awake (mon_threads s ! i)"]
  show ?thesis unfolding spurious(1)
    using assms(2) u[of putting] u[of taking] u[of waits_full] u[of waits_empty]
    by (intro inv_threads) (cases "mon_threads s ! i"; simp)+
next
  case (drain f xs q)
  have v: "valid (mon_queue s)" using assms(2) by (simp add: mon_inv_def)
  show ?thesis unfolding drain(1) using assms(2) drain_crit[OF v drain(2,3)] by (auto simp: mon_inv_def)
next
  case (stop f)
  have v: "valid (mon_queue s)" using assms(2) by (simp add: mon_inv_def)
  show ?thesis unfolding stop(1) using assms(2) stop_crit[OF v stop(2)]
    by (auto simp: mon_inv_def count_map_awake)
qed

lemma inv_reach:
  assumes "mon_reach ops (mon_init q n) s" "valid q" "items q = []"
  shows "mon_inv s"
  using assms(1) by induction (use assms inv_init inv_step in auto)

lemma limit_reach:
  assumes "mon_reach ops (mon_init q n) s" "valid q" "items q = []"
  shows "limit (mon_queue s) = limit q"
  using assms(1)
proof induction
  case start
  then show ?case by (simp add: mon_init_def)
next
  case (step s s')
  have v: "valid (mon_queue s)" using inv_reach[OF step(1) assms(2,3)] by (simp add: mon_inv_def)
  from step(2) have "limit (mon_queue s') = limit (mon_queue s)"
    by cases (auto dest: put_crit[OF v] take_crit[OF v] drain_crit[OF v] stop_crit[OF v])
  with step.IH show ?case by simp
qed

text \<open>What every reachable state satisfies, in the words of the clients.\<close>

lemma queue_discipline:
  assumes reach: "mon_reach ops (mon_init q n) s" and q: "valid q" "items q = []"
  shows "mon_in s = mon_out s @ items (mon_queue s)
    \<and> (\<forall>m. limit q = Some m \<longrightarrow> length (items (mon_queue s)) \<le> m)"
  using inv_reach[OF assms] limit_reach[OF assms] by (simp add: mon_inv_def)

lemma no_lost_wakeup:
  assumes reach: "mon_reach ops (mon_init q n) s" and q: "valid q" "items q = []"
  shows "(list_ex waits_empty (mon_threads s) \<and> items (mon_queue s) \<noteq> [] \<longrightarrow> list_ex taking (mon_threads s))
    \<and> (list_ex waits_full (mon_threads s) \<and> \<not> put_waits ops (mon_queue s) \<longrightarrow> list_ex putting (mon_threads s))
    \<and> (\<not> running (mon_queue s) \<longrightarrow> \<not> list_ex waits_empty (mon_threads s) \<and> \<not> list_ex waits_full (mon_threads s))"
proof -
  have inv: "mon_inv s" by (rule inv_reach[OF assms])
  then have v: "valid (mon_queue s)" by (simp add: mon_inv_def)
  show ?thesis
    using inv unfolding mon_inv_def list_ex_count put_waits[OF v]
    by (cases "limit (mon_queue s)") (auto simp: not_le simp flip: length_greater_0_conv)
qed

end

end
