(* ===== verification/Queues.thy ===== *)
theory Queues
  imports Monitor
begin

text \<open>
  The queues between threads and the thread pool: \<^verbatim>\<open>src/dc/base/blockingQueue.h\<close>,
  \<^verbatim>\<open>src/dc/base/boundedBlockingQueue.h\<close>, \<^verbatim>\<open>src/dc/base/threadpool.h\<close>, \<^verbatim>\<open>src/dc/base/threadpool.cc\<close> and
  \<^verbatim>\<open>src/dc/base/countDownLatch.cc\<close>, as instances of the monitor. The bounded queue stores its values in a
  \<open>boost::circular_buffer\<close>, which is not part of the repository: its operations are the parameter
  \<open>cb\<close>, and \<open>circular_buffer_laws\<close> states the documented behaviour the class relies on.
\<close>

subsection \<open>\<open>BlockingQueue\<close>\<close>

record 'a blocking_queue =
  bq_queue :: "'a list"

definition BlockingQueue_new :: "'a blocking_queue" where
  "BlockingQueue_new = \<lparr>bq_queue = []\<rparr>"

text \<open>The critical sections; the last component is the notification.\<close>

definition BlockingQueue_put :: "'a \<Rightarrow> 'a blocking_queue \<Rightarrow> 'a blocking_queue \<times> bool \<times> bool" where
  "BlockingQueue_put x q = (q\<lparr>bq_queue := bq_queue q @ [x]\<rparr>, True, True)"

definition BlockingQueue_take_waits :: "'a blocking_queue \<Rightarrow> bool" where
  "BlockingQueue_take_waits q \<longleftrightarrow> bq_queue q = []"

definition BlockingQueue_take :: "'a blocking_queue \<Rightarrow> 'a option \<times> 'a blocking_queue \<times> bool" where
  "BlockingQueue_take q = (case bq_queue q of
     [] \<Rightarrow> (None, q, False) | front # rest \<Rightarrow> (Some front, q\<lparr>bq_queue := rest\<rparr>, False))"

definition BlockingQueue_drain :: "'a blocking_queue \<Rightarrow> 'a list \<times> 'a blocking_queue" where
  "BlockingQueue_drain q = (bq_queue q, q\<lparr>bq_queue := []\<rparr>)"

definition BlockingQueue_size :: "'a blocking_queue \<Rightarrow> nat" where
  "BlockingQueue_size q = length (bq_queue q)"

definition BlockingQueue_ops :: "('a blocking_queue, 'a) monitor_ops" where
  "BlockingQueue_ops = \<lparr>put_waits = \<lambda>_. False, put_crit = BlockingQueue_put, may_take = \<lambda>_. True,
     take_waits = BlockingQueue_take_waits, take_crit = BlockingQueue_take,
     drain_crit = Some BlockingQueue_drain, stop_crit = None\<rparr>"

interpretation bq: queue_monitor BlockingQueue_ops bq_queue "\<lambda>_. None" "\<lambda>_. True" "\<lambda>_. True"
  by unfold_locales
    (auto simp: BlockingQueue_ops_def BlockingQueue_put_def BlockingQueue_take_waits_def BlockingQueue_take_def
      BlockingQueue_drain_def split: list.splits)

subsection \<open>\<open>BoundedBlockingQueue\<close>\<close>

record ('b, 'a) circular_buffer_ops =
  cb_full :: "'b \<Rightarrow> bool"
  cb_empty :: "'b \<Rightarrow> bool"
  cb_push_back :: "'a \<Rightarrow> 'b \<Rightarrow> 'b"
  cb_front :: "'b \<Rightarrow> 'a"
  cb_pop_front :: "'b \<Rightarrow> 'b"
  cb_size :: "'b \<Rightarrow> nat"
  cb_capacity :: "'b \<Rightarrow> nat"

text \<open>The documented behaviour of a circular buffer that is never pushed to when full.\<close>

definition circular_buffer_laws :: "('b, 'a) circular_buffer_ops \<Rightarrow> ('b \<Rightarrow> 'a list) \<Rightarrow> bool" where
  "circular_buffer_laws cb elems \<longleftrightarrow>
     (\<forall>b. cb_size cb b = length (elems b) \<and> cb_full cb b = (cb_capacity cb b \<le> length (elems b))
        \<and> cb_empty cb b = (elems b = []))
     \<and> (\<forall>b x. \<not> cb_full cb b \<longrightarrow> elems (cb_push_back cb x b) = elems b @ [x]
        \<and> cb_capacity cb (cb_push_back cb x b) = cb_capacity cb b)
     \<and> (\<forall>b. elems b \<noteq> [] \<longrightarrow> cb_front cb b = hd (elems b) \<and> elems (cb_pop_front cb b) = tl (elems b)
        \<and> cb_capacity cb (cb_pop_front cb b) = cb_capacity cb b)"

definition BoundedBlockingQueue_put ::
    "('b, 'a) circular_buffer_ops \<Rightarrow> 'a \<Rightarrow> 'b \<Rightarrow> 'b \<times> bool \<times> bool" where
  "BoundedBlockingQueue_put cb x q = (cb_push_back cb x q, True, True)"

definition BoundedBlockingQueue_take ::
    "('b, 'a) circular_buffer_ops \<Rightarrow> 'b \<Rightarrow> 'a option \<times> 'b \<times> bool" where
  "BoundedBlockingQueue_take cb q = (Some (cb_front cb q), cb_pop_front cb q, True)"

definition BoundedBlockingQueue_empty :: "('b, 'a) circular_buffer_ops \<Rightarrow> 'b \<Rightarrow> bool" where
  "BoundedBlockingQueue_empty cb q = cb_empty cb q"

definition BoundedBlockingQueue_full :: "('b, 'a) circular_buffer_ops \<Rightarrow> 'b \<Rightarrow> bool" where
  "BoundedBlockingQueue_full cb q = cb_full cb q"

definition BoundedBlockingQueue_size :: "('b, 'a) circular_buffer_ops \<Rightarrow> 'b \<Rightarrow> nat" where
  "BoundedBlockingQueue_size cb q = cb_size cb q"

definition BoundedBlockingQueue_capacity :: "('b, 'a) circular_buffer_ops \<Rightarrow> 'b \<Rightarrow> nat" where
  "BoundedBlockingQueue_capacity cb q = cb_capacity cb q"

definition BoundedBlockingQueue_ops :: "('b, 'a) circular_buffer_ops \<Rightarrow> ('b, 'a) monitor_ops" where
  "BoundedBlockingQueue_ops cb = \<lparr>put_waits = cb_full cb, put_crit = BoundedBlockingQueue_put cb,
     may_take = \<lambda>_. True, take_waits = cb_empty cb, take_crit = BoundedBlockingQueue_take cb,
     drain_crit = None, stop_crit = None\<rparr>"

lemma BoundedBlockingQueue_monitor:
  assumes "circular_buffer_laws cb elems"
  shows "queue_monitor (BoundedBlockingQueue_ops cb) elems (\<lambda>b. Some (cb_capacity cb b)) (\<lambda>_. True) (\<lambda>_. True)"
  using assms
  by unfold_locales
    (auto simp: BoundedBlockingQueue_ops_def BoundedBlockingQueue_put_def BoundedBlockingQueue_take_def circular_buffer_laws_def)

subsection \<open>\<open>ThreadPool\<close>\<close>

text \<open>
  A task is a value of type \<open>'a\<close>, an empty \<open>std::function\<close> included: \<open>run\<close> queues it like any other, and
  the worker that takes it skips the call. The threads are
  those of the monitor, here only their names; \<open>threadInitCallback\<close> is set or not.
\<close>

record 'a thread_pool =
  tp_name :: string
  tp_init_callback :: bool
  tp_threads :: "string list"
  tp_queue :: "'a list"
  tp_maxQueueSize :: nat
  tp_running :: bool

definition ThreadPool_new :: "string \<Rightarrow> 'a thread_pool" where
  "ThreadPool_new nameArg = \<lparr>tp_name = nameArg, tp_init_callback = False, tp_threads = [], tp_queue = [],
     tp_maxQueueSize = 0, tp_running = False\<rparr>"

definition ThreadPool_setMaxQueueSize :: "nat \<Rightarrow> 'a thread_pool \<Rightarrow> 'a thread_pool" where
  "ThreadPool_setMaxQueueSize maxSize p = p\<lparr>tp_maxQueueSize := maxSize\<rparr>"

definition ThreadPool_setThreadInitCallback :: "bool \<Rightarrow> 'a thread_pool \<Rightarrow> 'a thread_pool" where
  "ThreadPool_setThreadInitCallback cb p = p\<lparr>tp_init_callback := cb\<rparr>"

text \<open>\<open>start\<close> returns the pool and whether the calling thread ran the initial callback.\<close>

definition ThreadPool_start :: "nat \<Rightarrow> 'a thread_pool \<Rightarrow> ('a thread_pool \<times> bool) outcome" where
  "ThreadPool_start numThreads p = do {
     assert_that (tp_threads p = []);
     Some (p\<lparr>tp_running := True, tp_threads := map (\<lambda>i. tp_name p @ snprintf_buf 32 (dec_nat (i + 1))) [0..<numThreads]\<rparr>,
           numThreads = 0 \<and> tp_init_callback p)
   }"

definition ThreadPool_isFull :: "'a thread_pool \<Rightarrow> bool" where
  "ThreadPool_isFull p \<longleftrightarrow> tp_maxQueueSize p > 0 \<and> length (tp_queue p) \<ge> tp_maxQueueSize p"

text \<open>The critical section of \<open>stop\<close>, which wakes every waiter.\<close>

definition ThreadPool_stop :: "'a thread_pool \<Rightarrow> 'a thread_pool" where
  "ThreadPool_stop p = p\<lparr>tp_running := False\<rparr>"

definition ThreadPool_destroy :: "'a thread_pool \<Rightarrow> 'a thread_pool" where
  "ThreadPool_destroy p = (if tp_running p then ThreadPool_stop p else p)"

definition ThreadPool_queueSize :: "'a thread_pool \<Rightarrow> nat" where
  "ThreadPool_queueSize p = length (tp_queue p)"

text \<open>A pool without threads runs a task in the thread that submits it; no lock is taken then.\<close>

definition ThreadPool_run_inline :: "'a thread_pool \<Rightarrow> bool" where
  "ThreadPool_run_inline p \<longleftrightarrow> tp_threads p = []"

definition ThreadPool_run_waits :: "'a thread_pool \<Rightarrow> bool" where
  "ThreadPool_run_waits p \<longleftrightarrow> \<not> ThreadPool_run_inline p \<and> ThreadPool_isFull p \<and> tp_running p"

definition ThreadPool_run :: "'a \<Rightarrow> 'a thread_pool \<Rightarrow> 'a thread_pool \<times> bool \<times> bool" where
  "ThreadPool_run task p =
     (if ThreadPool_run_inline p then (p, False, False)
      else if \<not> tp_running p then (p, False, False)
      else (p\<lparr>tp_queue := tp_queue p @ [task]\<rparr>, True, True))"

definition ThreadPool_take_waits :: "'a thread_pool \<Rightarrow> bool" where
  "ThreadPool_take_waits p \<longleftrightarrow> tp_queue p = [] \<and> tp_running p"

definition ThreadPool_take :: "'a thread_pool \<Rightarrow> 'a option \<times> 'a thread_pool \<times> bool" where
  "ThreadPool_take p = (case tp_queue p of
     [] \<Rightarrow> (None, p, False)
   | task # rest \<Rightarrow> (Some task, p\<lparr>tp_queue := rest\<rparr>, tp_maxQueueSize p > 0))"

text \<open>\<open>may_take\<close> is the loop condition of \<open>runInThread\<close>, read without the mutex.\<close>

definition ThreadPool_runInThread_test :: "'a thread_pool \<Rightarrow> bool" where
  "ThreadPool_runInThread_test p = tp_running p"

definition ThreadPool_ops :: "('a thread_pool, 'a) monitor_ops" where
  "ThreadPool_ops = \<lparr>put_waits = ThreadPool_run_waits, put_crit = ThreadPool_run,
     may_take = ThreadPool_runInThread_test, take_waits = ThreadPool_take_waits, take_crit = ThreadPool_take,
     drain_crit = None, stop_crit = Some ThreadPool_stop\<rparr>"

definition ThreadPool_limit :: "'a thread_pool \<Rightarrow> nat option" where
  "ThreadPool_limit p = (if tp_maxQueueSize p > 0 then Some (tp_maxQueueSize p) else None)"

interpretation tp: queue_monitor ThreadPool_ops tp_queue ThreadPool_limit tp_running "\<lambda>p. tp_threads p \<noteq> []"
  by unfold_locales
    (auto simp: ThreadPool_ops_def ThreadPool_run_waits_def ThreadPool_run_def ThreadPool_take_waits_def ThreadPool_take_def
      ThreadPool_stop_def ThreadPool_limit_def ThreadPool_isFull_def ThreadPool_run_inline_def split: list.splits if_splits)

subsection \<open>\<open>CountDownLatch\<close>\<close>

record latch =
  cl_count :: int

definition CountDownLatch_new :: "int \<Rightarrow> latch" where
  "CountDownLatch_new n = \<lparr>cl_count = n\<rparr>"

definition CountDownLatch_wait_blocks :: "latch \<Rightarrow> bool" where
  "CountDownLatch_wait_blocks l \<longleftrightarrow> cl_count l > 0"

text \<open>The new latch and whether every waiter is notified.\<close>

definition CountDownLatch_countDown :: "latch \<Rightarrow> latch \<times> bool" where
  "CountDownLatch_countDown l = (let l' = l\<lparr>cl_count := cl_count l - 1\<rparr> in (l', cl_count l' = 0))"

definition CountDownLatch_getCount :: "latch \<Rightarrow> int" where
  "CountDownLatch_getCount l = cl_count l"

text \<open>Threads around a latch: calling \<open>wait()\<close>, asleep in it, or returned from it.\<close>

datatype latch_thread = L_outside | L_calling | L_asleep | L_returned

record latch_state =
  ls_latch :: latch
  ls_threads :: "latch_thread list"
  ls_downs :: nat

definition latch_wake :: "latch_thread \<Rightarrow> latch_thread" where
  "latch_wake t = (if t = L_asleep then L_calling else t)"

inductive latch_step :: "latch_state \<Rightarrow> latch_state \<Rightarrow> bool" where
  call: "i < length (ls_threads s) \<Longrightarrow> ls_threads s ! i \<in> {L_outside, L_returned}
    \<Longrightarrow> latch_step s (s\<lparr>ls_threads := (ls_threads s)[i := L_calling]\<rparr>)"
| sleep: "i < length (ls_threads s) \<Longrightarrow> ls_threads s ! i = L_calling \<Longrightarrow> CountDownLatch_wait_blocks (ls_latch s)
    \<Longrightarrow> latch_step s (s\<lparr>ls_threads := (ls_threads s)[i := L_asleep]\<rparr>)"
| return: "i < length (ls_threads s) \<Longrightarrow> ls_threads s ! i = L_calling \<Longrightarrow> \<not> CountDownLatch_wait_blocks (ls_latch s)
    \<Longrightarrow> latch_step s (s\<lparr>ls_threads := (ls_threads s)[i := L_returned]\<rparr>)"
| spurious: "i < length (ls_threads s)
    \<Longrightarrow> latch_step s (s\<lparr>ls_threads := (ls_threads s)[i := latch_wake (ls_threads s ! i)]\<rparr>)"
| count_down: "CountDownLatch_countDown (ls_latch s) = (l, all)
    \<Longrightarrow> latch_step s (s\<lparr>ls_latch := l, ls_downs := ls_downs s + 1,
          ls_threads := (if all then map latch_wake (ls_threads s) else ls_threads s)\<rparr>)"

inductive latch_reach :: "latch_state \<Rightarrow> latch_state \<Rightarrow> bool" for s0 where
  start: "latch_reach s0 s0"
| step: "latch_reach s0 s \<Longrightarrow> latch_step s s' \<Longrightarrow> latch_reach s0 s'"

definition latch_init :: "nat \<Rightarrow> nat \<Rightarrow> latch_state" where
  "latch_init n threads = \<lparr>ls_latch = CountDownLatch_new (int n), ls_threads = replicate threads L_outside, ls_downs = 0\<rparr>"

text \<open>A sleeper implies an open count; a return implies that all the count-downs have happened.\<close>

definition latch_inv :: "nat \<Rightarrow> latch_state \<Rightarrow> bool" where
  "latch_inv n s \<longleftrightarrow> cl_count (ls_latch s) = int n - int (ls_downs s)
     \<and> (L_asleep \<in> set (ls_threads s) \<longrightarrow> ls_downs s < n)
     \<and> (L_returned \<in> set (ls_threads s) \<longrightarrow> n \<le> ls_downs s)"

lemma latch_wake_set:
  "L_asleep \<notin> latch_wake ` A" "L_returned \<in> latch_wake ` A \<longleftrightarrow> L_returned \<in> A"
  by (auto simp: latch_wake_def image_iff split: if_splits)

lemma latch_inv_step: "latch_step s s' \<Longrightarrow> latch_inv n s \<Longrightarrow> latch_inv n s'"
proof (induction rule: latch_step.induct)
  case (call i s)
  then show ?case by (auto simp: latch_inv_def dest!: set_update_subset_insert[THEN subsetD])
next
  case (sleep i s)
  then show ?case
    by (auto simp: latch_inv_def CountDownLatch_wait_blocks_def dest!: set_update_subset_insert[THEN subsetD])
next
  case (return i s)
  then show ?case
    by (auto simp: latch_inv_def CountDownLatch_wait_blocks_def dest!: set_update_subset_insert[THEN subsetD])
next
  case (spurious i s)
  have "ls_threads s ! i \<in> set (ls_threads s)" using spurious(1) by simp
  then show ?case using spurious
    by (auto simp: latch_inv_def latch_wake_def split: if_splits dest!: set_update_subset_insert[THEN subsetD])
next
  case (count_down s l all)
  then show ?case
    by (auto simp: latch_inv_def CountDownLatch_countDown_def Let_def latch_wake_set)
qed

lemma latch_inv_reach: "latch_reach (latch_init n m) s \<Longrightarrow> latch_inv n s"
proof (induction rule: latch_reach.induct)
  case start
  then show ?case by (auto simp: latch_inv_def latch_init_def CountDownLatch_new_def)
next
  case (step s s')
  then show ?case by (blast intro: latch_inv_step)
qed

text \<open>\<open>wait()\<close> returns only after \<open>n\<close> count-downs, and after them nobody is left asleep.\<close>

lemma CountDownLatch_correct:
  assumes "latch_reach (latch_init n m) s"
  shows "(L_returned \<in> set (ls_threads s) \<longrightarrow> n \<le> ls_downs s) \<and> (n \<le> ls_downs s \<longrightarrow> L_asleep \<notin> set (ls_threads s))"
  using latch_inv_reach[OF assms] by (auto simp: latch_inv_def)

subsection \<open>Properties\<close>

text \<open>What a monitor promises of its queue in a state \<open>s\<close>: first in first out and no lost wake-up.\<close>

definition fifo_so_far :: "('q \<Rightarrow> 'a list) \<Rightarrow> ('q, 'a) monitor_state \<Rightarrow> bool" where
  "fifo_so_far items s \<longleftrightarrow> mon_in s = mon_out s @ items (mon_queue s)"

definition nobody_forgotten :: "('q, 'a) monitor_ops \<Rightarrow> ('q \<Rightarrow> 'a list) \<Rightarrow> ('q, 'a) monitor_state \<Rightarrow> bool" where
  "nobody_forgotten ops items s \<longleftrightarrow>
     (list_ex waits_empty (mon_threads s) \<and> items (mon_queue s) \<noteq> [] \<longrightarrow> list_ex taking (mon_threads s))
     \<and> (list_ex waits_full (mon_threads s) \<and> \<not> put_waits ops (mon_queue s) \<longrightarrow> list_ex putting (mon_threads s))"

lemma BlockingQueue_correct:
  assumes "mon_reach BlockingQueue_ops (mon_init BlockingQueue_new n) s"
  shows "fifo_so_far bq_queue s \<and> nobody_forgotten BlockingQueue_ops bq_queue s"
  using bq.queue_discipline[OF assms] bq.no_lost_wakeup[OF assms]
  by (simp add: fifo_so_far_def nobody_forgotten_def BlockingQueue_new_def)

text \<open>C22: in every interleaving of threads that put to and take from a bounded blocking queue, with
  arbitrary spurious wake-ups and any choice of the thread a notification wakes, the queue never holds
  more than its capacity, the values taken are a prefix of the values put, in that order, and no
  wake-up is lost: while a taker sleeps and the queue is not empty, or a putter sleeps and it is not
  full, another thread that can make progress is already awake.\<close>

theorem BoundedBlockingQueue_correct:
  assumes "circular_buffer_laws cb elems" "elems q = []"
    and "mon_reach (BoundedBlockingQueue_ops cb) (mon_init q n) s"
  shows "fifo_so_far elems s \<and> length (elems (mon_queue s)) \<le> cb_capacity cb q
    \<and> nobody_forgotten (BoundedBlockingQueue_ops cb) elems s"
  using queue_monitor.queue_discipline[OF BoundedBlockingQueue_monitor[OF assms(1)] assms(3)]
    queue_monitor.no_lost_wakeup[OF BoundedBlockingQueue_monitor[OF assms(1)] assms(3)] assms(2)
  by (simp add: fifo_so_far_def nobody_forgotten_def)

text \<open>A circular buffer as a list with its capacity.\<close>

definition list_buffer :: "('a list \<times> nat, 'a) circular_buffer_ops" where
  "list_buffer = \<lparr>cb_full = \<lambda>(xs, c). c \<le> length xs, cb_empty = \<lambda>(xs, c). xs = [],
     cb_push_back = \<lambda>x (xs, c). (xs @ [x], c), cb_front = \<lambda>(xs, c). hd xs, cb_pop_front = \<lambda>(xs, c). (tl xs, c),
     cb_size = \<lambda>(xs, c). length xs, cb_capacity = \<lambda>(xs, c). c\<rparr>"

theorem BoundedBlockingQueue_correct_witness:
  "\<exists>s. mon_reach (BoundedBlockingQueue_ops list_buffer) (mon_init ([], 1) 2) s
     \<and> mon_queue s = ([7 :: nat], 1) \<and> fifo_so_far fst s"
proof -
  let ?ops = "BoundedBlockingQueue_ops list_buffer" and ?s0 = "mon_init ([], 1) 2"
  let ?s1 = "?s0\<lparr>mon_threads := [Putting (7 :: nat), Idle]\<rparr>"
  let ?s2 = "?s1\<lparr>mon_queue := ([7], 1), mon_threads := [Idle, Idle], mon_in := [7]\<rparr>"
  have "mon_step ?ops ?s0 ?s1"
    using mon_step.call_put[of 0 ?s0 ?ops 7] by (simp add: mon_init_def numeral_2_eq_2)
  moreover have "mon_step ?ops ?s1 ?s2"
    using mon_step.put_done[of 0 ?s1 7 ?ops "([7], 1)" True True "[Idle, Idle]"]
    by (simp add: mon_init_def BoundedBlockingQueue_ops_def list_buffer_def BoundedBlockingQueue_put_def
        notify_if_def notify_one.intros)
  ultimately have r: "mon_reach ?ops ?s0 ?s2" by (blast intro: mon_reach.intros)
  have "circular_buffer_laws list_buffer (fst :: nat list \<times> nat \<Rightarrow> nat list)"
    by (auto simp: circular_buffer_laws_def list_buffer_def)
  from BoundedBlockingQueue_correct[OF this _ r] r show ?thesis
    by (intro exI[of _ ?s2]) simp
qed

text \<open>C27: in every interleaving of threads that submit tasks to a started pool, its workers and
  \<open>stop()\<close>, the tasks taken for execution are a prefix of the tasks accepted, in that order; a pool with
  a maximal queue size never exceeds it; no wake-up is lost; and once the pool is stopped no thread
  sleeps in it, neither a worker nor a submitter, nor can one fall asleep again.\<close>

theorem ThreadPool_correct:
  assumes "tp_queue p = []" "tp_threads p \<noteq> []" "mon_reach ThreadPool_ops (mon_init p n) s"
  shows "fifo_so_far tp_queue s \<and> nobody_forgotten ThreadPool_ops tp_queue s
    \<and> (tp_maxQueueSize p > 0 \<longrightarrow> length (tp_queue (mon_queue s)) \<le> tp_maxQueueSize p)
    \<and> (\<not> tp_running (mon_queue s) \<longrightarrow>
         \<not> list_ex waits_empty (mon_threads s) \<and> \<not> list_ex waits_full (mon_threads s)
         \<and> \<not> ThreadPool_take_waits (mon_queue s) \<and> \<not> ThreadPool_run_waits (mon_queue s))"
  using tp.queue_discipline[OF assms(3)] tp.no_lost_wakeup[OF assms(3)] assms(1,2)
  by (auto simp: fifo_so_far_def nobody_forgotten_def ThreadPool_limit_def ThreadPool_take_waits_def
      ThreadPool_run_waits_def)

theorem ThreadPool_correct_witness:
  "\<exists>p s. ThreadPool_start 2 (ThreadPool_new ''pool'') = Some (p, False)
     \<and> mon_reach ThreadPool_ops (mon_init p 2) s \<and> mon_threads s = [Wait_not_empty, Idle]
     \<and> fifo_so_far (tp_queue :: nat thread_pool \<Rightarrow> nat list) s"
proof -
  define p :: "nat thread_pool" where
    "p = (ThreadPool_new ''pool'')\<lparr>tp_running := True, tp_threads := map (\<lambda>i. ''pool'' @ snprintf_buf 32 (dec_nat (i + 1))) [0..<2]\<rparr>"
  have start: "ThreadPool_start 2 (ThreadPool_new ''pool'') = Some (p, False)"
    by (simp add: ThreadPool_start_def ThreadPool_new_def p_def)
  have q: "tp_queue p = []" "tp_threads p \<noteq> []" "tp_running p" by (simp_all add: p_def ThreadPool_new_def)
  let ?s0 = "mon_init p 2"
  let ?s1 = "?s0\<lparr>mon_threads := [Taking, Idle]\<rparr>" and ?s2 = "?s0\<lparr>mon_threads := [Wait_not_empty, Idle]\<rparr>"
  have "mon_step ThreadPool_ops ?s0 ?s1"
    using mon_step.call_take[of 0 ?s0 ThreadPool_ops] q
    by (simp add: mon_init_def numeral_2_eq_2 ThreadPool_ops_def ThreadPool_runInThread_test_def)
  moreover have "mon_step ThreadPool_ops ?s1 ?s2"
    using mon_step.take_wait[of 0 ?s1 ThreadPool_ops] q
    by (simp add: mon_init_def ThreadPool_ops_def ThreadPool_take_waits_def)
  ultimately have r: "mon_reach ThreadPool_ops ?s0 ?s2" by (blast intro: mon_reach.intros)
  from ThreadPool_correct[OF q(1,2) r] start r show ?thesis
    by (intro exI[of _ p] exI[of _ ?s2]) simp
qed

end
