(* ===== verification/Threads.thy ===== *)
theory Threads
  imports Queues Atomics
begin

text \<open>
  Threads: \<open>dc::CurrentThread\<close> (\<open>base/currentThread.h\<close>, \<open>base/currentThread.cc\<close>), \<open>dc::Thread\<close> (\<open>base/thread.h\<close>,
  \<open>base/thread.cc\<close>) and \<open>dc::net::EventLoopThread\<close> (\<open>net/eventLoopThread.h\<close>, \<open>net/eventLoopThread.cc\<close>). What
  \<open>gettid\<close> answers is an argument, and so are the frames of a stack trace, which \<open>dc::Exception\<close> (\<open>base/exception.h\<close>) keeps. Starting a thread involves two threads: the operations are cut where
  they wait, and a step relation interleaves them.
\<close>

subsection \<open>\<open>CurrentThread\<close>\<close>

record thread_locals =
  t_cachedTid :: int
  t_tidString :: string
  t_tidStringLength :: int
  t_threadName :: string

definition thread_locals_init :: thread_locals where
  "thread_locals_init = \<lparr>t_cachedTid = 0, t_tidString = [], t_tidStringLength = 0, t_threadName = ''unknown''\<rparr>"

definition CurrentThread_cachedTid :: "int \<Rightarrow> thread_locals \<Rightarrow> thread_locals" where
  "CurrentThread_cachedTid gettid t = (if t_cachedTid t = 0
     then let out = fmt_blank 5 gettid in
       t\<lparr>t_cachedTid := gettid, t_tidString := snprintf_buf 32 out, t_tidStringLength := int (length out)\<rparr>
     else t)"

definition CurrentThread_tid :: "int \<Rightarrow> thread_locals \<Rightarrow> int \<times> thread_locals" where
  "CurrentThread_tid gettid t = (let t = (if t_cachedTid t = 0 then CurrentThread_cachedTid gettid t else t) in (t_cachedTid t, t))"

definition CurrentThread_tidString :: "thread_locals \<Rightarrow> string" where
  "CurrentThread_tidString t = t_tidString t"

definition CurrentThread_tidStringLength :: "thread_locals \<Rightarrow> int" where
  "CurrentThread_tidStringLength t = t_tidStringLength t"

definition CurrentThread_name :: "thread_locals \<Rightarrow> string" where
  "CurrentThread_name t = t_threadName t"

definition CurrentThread_isMainThread :: "int \<Rightarrow> int \<Rightarrow> thread_locals \<Rightarrow> bool \<times> thread_locals" where
  "CurrentThread_isMainThread gettid getpid t = (let (tid, t) = CurrentThread_tid gettid t in (tid = getpid, t))"

text \<open>The seconds and nanoseconds handed to \<open>nanosleep\<close>.\<close>

definition CurrentThread_sleepUsec :: "int \<Rightarrow> int \<times> int" where
  "CurrentThread_sleepUsec usec = (usec sdiv 1000000, (usec smod 1000000) * 1000)"

definition afterFork :: "int \<Rightarrow> thread_locals \<Rightarrow> thread_locals" where
  "afterFork gettid t = snd (CurrentThread_tid gettid (t\<lparr>t_cachedTid := 0, t_threadName := ''main''\<rparr>))"

definition ThreadNameInitializer :: "int \<Rightarrow> thread_locals \<Rightarrow> thread_locals" where
  "ThreadNameInitializer gettid t = snd (CurrentThread_tid gettid (t\<lparr>t_threadName := ''main''\<rparr>))"

text \<open>The cache is empty or belongs to the running thread.\<close>

definition tid_cache_ok :: "int \<Rightarrow> thread_locals \<Rightarrow> bool" where
  "tid_cache_ok gettid t \<longleftrightarrow> t_cachedTid t = 0
     \<or> t_cachedTid t = gettid \<and> t_tidString t = fmt_blank 5 gettid \<and> t_tidStringLength t = int (length (t_tidString t))"

lemma length_fmt_tid: "0 < gettid \<Longrightarrow> gettid < 2 ^ 31 \<Longrightarrow> 5 \<le> length (fmt_blank 5 gettid) \<and> length (fmt_blank 5 gettid) \<le> 10"
proof -
  assume g: "0 < gettid" "gettid < 2 ^ 31"
  then have "nat gettid < 10 ^ 10" by simp
  then have "length (dec_nat (nat gettid)) \<le> 10" by (rule length_dec_nat_le) simp
  then show ?thesis using g(1) by (simp add: fmt_blank_def dec_int_def) linarith
qed

lemma CurrentThread_tid_ok:
  assumes "tid_cache_ok gettid t" "0 < gettid" "gettid < 2 ^ 31"
  shows "fst (CurrentThread_tid gettid t) = gettid \<and> tid_cache_ok gettid (snd (CurrentThread_tid gettid t))
    \<and> t_tidString (snd (CurrentThread_tid gettid t)) = fmt_blank 5 gettid
    \<and> t_tidStringLength (snd (CurrentThread_tid gettid t)) = int (length (fmt_blank 5 gettid))
    \<and> t_threadName (snd (CurrentThread_tid gettid t)) = t_threadName t"
  using assms length_fmt_tid[OF assms(2,3)]
  by (auto simp: CurrentThread_tid_def CurrentThread_cachedTid_def tid_cache_ok_def snprintf_buf_def Let_def)

text \<open>A forked child has a new thread id, which the handler registered by the initializer stores.\<close>

lemma afterFork_ok:
  assumes "0 < gettid" "gettid < 2 ^ 31"
  shows "tid_cache_ok gettid (afterFork gettid t) \<and> t_cachedTid (afterFork gettid t) = gettid \<and> t_threadName (afterFork gettid t) = ''main''"
  using length_fmt_tid[OF assms] assms(1)
  by (simp add: afterFork_def CurrentThread_tid_def CurrentThread_cachedTid_def tid_cache_ok_def snprintf_buf_def Let_def)

subsection \<open>\<open>Thread\<close>\<close>

record thread_obj =
  td_started :: bool
  td_joined :: bool
  td_pid :: int
  td_name :: string
  td_latch :: latch

text \<open>The counter of created threads is an \<open>AtomicInt32\<close>; the default name ends in a blank.\<close>

definition Thread_setDefaultName :: "32 word \<Rightarrow> thread_obj \<Rightarrow> thread_obj \<times> 32 word" where
  "Thread_setDefaultName numCreated t = (let (num, numCreated) = Atomic_incrementAndGet numCreated in
     (if td_name t = [] then t\<lparr>td_name := snprintf_buf 32 (''Thread'' @ dec_int (sint num) @ '' '')\<rparr> else t, numCreated))"

definition Thread_new :: "string \<Rightarrow> 32 word \<Rightarrow> thread_obj \<times> 32 word" where
  "Thread_new nameArg numCreated = Thread_setDefaultName numCreated
     \<lparr>td_started = False, td_joined = False, td_pid = 0, td_name = nameArg, td_latch = CountDownLatch_new 1\<rparr>"

text \<open>The destructor; the result says whether the thread is detached.\<close>

definition Thread_destroy :: "thread_obj \<Rightarrow> bool" where
  "Thread_destroy t \<longleftrightarrow> td_started t \<and> \<not> td_joined t"

text \<open>\<open>start\<close> up to the wait on the latch, and after it. When no thread can be created the process stops.\<close>

definition Thread_start :: "bool \<Rightarrow> thread_obj \<Rightarrow> thread_obj outcome" where
  "Thread_start created t = do {
     assert_that (\<not> td_started t);
     assert_that created;
     Some (t\<lparr>td_started := True\<rparr>)
   }"

definition Thread_started :: "thread_obj \<Rightarrow> unit outcome" where
  "Thread_started t = assert_that (td_pid t > 0)"

definition Thread_join :: "thread_obj \<Rightarrow> thread_obj outcome" where
  "Thread_join t = do {
     assert_that (td_started t);
     assert_that (\<not> td_joined t);
     Some (t\<lparr>td_joined := True\<rparr>)
   }"

text \<open>The new thread: it publishes its id, counts the latch down, takes its name and calls the function.\<close>

definition ThreadData_publish :: "int \<Rightarrow> thread_locals \<Rightarrow> thread_obj \<Rightarrow> thread_locals \<times> thread_obj" where
  "ThreadData_publish gettid loc t = (let (tid, loc) = CurrentThread_tid gettid loc in (loc, t\<lparr>td_pid := tid\<rparr>))"

definition ThreadData_countDown :: "thread_obj \<Rightarrow> thread_obj \<times> bool" where
  "ThreadData_countDown t = (let (l, wake) = CountDownLatch_countDown (td_latch t) in (t\<lparr>td_latch := l\<rparr>, wake))"

definition ThreadData_setName :: "string \<Rightarrow> thread_locals \<Rightarrow> thread_locals" where
  "ThreadData_setName name loc = loc\<lparr>t_threadName := if name = [] then ''dcThread'' else name\<rparr>"

text \<open>How the thread function ends: it returns, or throws with what the exception says.\<close>

datatype func_end = Func_returns | Func_throws_Exception string string | Func_throws_std string | Func_throws_other

datatype thread_end = Thread_finished thread_locals | Thread_aborts thread_locals "string list" | Thread_rethrows thread_locals "string list"

definition ThreadData_finish :: "string \<Rightarrow> func_end \<Rightarrow> thread_locals \<Rightarrow> thread_end" where
  "ThreadData_finish name e loc = (let crashed = loc\<lparr>t_threadName := ''crashed''\<rparr> in case e of
     Func_returns \<Rightarrow> Thread_finished loc
   | Func_throws_Exception what stack \<Rightarrow> Thread_aborts crashed
       [''exception caught in Thread '' @ name, ''reason: '' @ what, ''stack trace: '' @ stack]
   | Func_throws_std what \<Rightarrow> Thread_aborts crashed [''exception caught in Thread: '' @ name, ''reason: '' @ what]
   | Func_throws_other \<Rightarrow> Thread_rethrows crashed [''unknown exception caught in Thread '' @ name])"

text \<open>
  A worker of a thread pool runs under handlers of its own; only an exception of an unknown type gets
  past them, and then meets those of the thread.
\<close>

definition ThreadPool_runInThread_catch :: "string \<Rightarrow> func_end \<Rightarrow> thread_locals \<Rightarrow> thread_end" where
  "ThreadPool_runInThread_catch name e loc = (let caught = ''exception caught in ThreadPool '' @ name in case e of
     Func_returns \<Rightarrow> Thread_finished loc
   | Func_throws_Exception what stack \<Rightarrow> Thread_aborts loc [caught, ''reason: '' @ what, ''stack trace: '' @ stack]
   | Func_throws_std what \<Rightarrow> Thread_aborts loc [caught, ''reason: '' @ what]
   | Func_throws_other \<Rightarrow> Thread_rethrows loc [caught])"

definition ThreadPool_worker_end :: "string \<Rightarrow> string \<Rightarrow> func_end \<Rightarrow> thread_locals \<Rightarrow> thread_end" where
  "ThreadPool_worker_end pool thread e loc = (case ThreadPool_runInThread_catch pool e loc of
     Thread_finished loc \<Rightarrow> ThreadData_finish thread Func_returns loc
   | Thread_aborts loc err \<Rightarrow> Thread_aborts loc err
   | Thread_rethrows loc err \<Rightarrow> (case ThreadData_finish thread Func_throws_other loc of
       Thread_rethrows loc err' \<Rightarrow> Thread_rethrows loc (err @ err') | r \<Rightarrow> r))"

text \<open>A worker ends well only when its function returned; every exception stops the process with the name of the pool printed first.\<close>

lemma ThreadPool_worker_end_cases:
  "(\<exists>l. ThreadPool_worker_end pool thread e loc = Thread_finished l) \<longleftrightarrow> e = Func_returns"
  "e \<noteq> Func_returns \<Longrightarrow> \<exists>l err. ThreadPool_worker_end pool thread e loc \<in> {Thread_aborts l err, Thread_rethrows l err}
     \<and> hd err = ''exception caught in ThreadPool '' @ pool"
  by (cases e; auto simp: ThreadPool_worker_end_def ThreadPool_runInThread_catch_def ThreadData_finish_def)+

subsection \<open>Stack traces and \<open>Exception\<close>\<close>

text \<open>
  The frames are what \<open>backtrace_symbols\<close> answers, \<open>None\<close> when it fails; \<open>dm\<close> is \<open>abi::__cxa_demangle\<close>, with
  \<open>None\<close> for a status that is not 0. The scan keeps the last parenthesis and the last plus sign. The
  mangled name runs from the parenthesis to the plus sign, which is overwritten with a NUL meanwhile,
  or to the end of the frame when the plus sign stands before the parenthesis.
\<close>

fun stackTrace_scan :: "string \<Rightarrow> nat \<Rightarrow> nat option \<Rightarrow> nat option \<Rightarrow> nat option \<times> nat option" where
  "stackTrace_scan [] k left_par plus_at = (left_par, plus_at)"
| "stackTrace_scan (ch # s) k left_par plus_at =
     (if ch = CHR 0x28 then stackTrace_scan s (Suc k) (Some k) plus_at
      else if ch = CHR 0x2B then stackTrace_scan s (Suc k) left_par (Some k)
      else stackTrace_scan s (Suc k) left_par plus_at)"

definition stackTrace_frame :: "(string \<Rightarrow> string option) \<Rightarrow> bool \<Rightarrow> string \<Rightarrow> string" where
  "stackTrace_frame dm demangle s = (if demangle
     then case stackTrace_scan s 0 None None of
       (Some l, Some p) \<Rightarrow>
         (case dm (if l < p then take (p - (l + 1)) (drop (l + 1) s) else drop (l + 1) s) of
            Some demangled \<Rightarrow> take (l + 1) s @ demangled @ drop p s
          | None \<Rightarrow> s)
     | _ \<Rightarrow> s
     else s)"

definition CurrentThread_stackTrace :: "(string \<Rightarrow> string option) \<Rightarrow> string list option \<Rightarrow> bool \<Rightarrow> string" where
  "CurrentThread_stackTrace dm strings demangle = (case strings of
     None \<Rightarrow> []
   | Some fs \<Rightarrow> concat (map (\<lambda>s. stackTrace_frame dm demangle s @ [CHR 0x0A]) (drop 1 fs)))"

record exception_obj =
  ex_message :: string
  ex_stack :: string

definition Exception_new :: "string list option \<Rightarrow> string \<Rightarrow> exception_obj" where
  "Exception_new strings what = \<lparr>ex_message = what, ex_stack = CurrentThread_stackTrace (\<lambda>_. None) strings False\<rparr>"

definition Exception_what :: "exception_obj \<Rightarrow> string" where
  "Exception_what e = ex_message e"

definition Exception_stackTrace :: "exception_obj \<Rightarrow> string" where
  "Exception_stackTrace e = ex_stack e"

lemma stackTrace_scan_append:
  "stackTrace_scan (xs @ ys) k l p = (case stackTrace_scan xs k l p of (l, p) \<Rightarrow> stackTrace_scan ys (k + length xs) l p)"
  by (induction xs arbitrary: k l p) auto

lemma stackTrace_scan_keeps:
  "CHR 0x28 \<notin> set xs \<Longrightarrow> fst (stackTrace_scan xs k l p) = l"
  "CHR 0x2B \<notin> set xs \<Longrightarrow> snd (stackTrace_scan xs k l p) = p"
  by (induction xs arbitrary: k l p) auto

text \<open>
  A frame of the C library, object file, parenthesis, mangled name, plus sign and offset, prints with
  the demangled name in place of the mangled one. Without demangling, or where the name cannot be
  demangled, the frame prints as it is.
\<close>

theorem stackTrace_frame_demangles:
  assumes "CHR 0x28 \<notin> set (mangled @ off)" "CHR 0x2B \<notin> set off"
  shows "stackTrace_frame dm True (obj @ ''('' @ mangled @ ''+'' @ off)
    = obj @ ''('' @ (case dm mangled of Some d \<Rightarrow> d | None \<Rightarrow> mangled) @ ''+'' @ off"
proof -
  let ?s = "obj @ ''('' @ mangled @ ''+'' @ off"
  let ?l = "length obj" let ?p = "length obj + 1 + length mangled"
  have "fst (stackTrace_scan (mangled @ ''+'' @ off) (Suc ?l) (Some ?l) q) = Some ?l" for q
    using assms by (intro stackTrace_scan_keeps) auto
  then have "fst (stackTrace_scan ?s 0 None None) = Some ?l"
    by (simp only: stackTrace_scan_append[of obj]) (simp split: prod.splits)
  moreover have "snd (stackTrace_scan ?s 0 None None) = Some ?p"
  proof -
    have "snd (stackTrace_scan ((obj @ ''('' @ mangled) @ ''+'' @ off) 0 None None) = Some ?p"
      unfolding stackTrace_scan_append[of "obj @ ''('' @ mangled"]
      using assms(2) by (simp add: stackTrace_scan_keeps split: prod.splits)
    then show ?thesis by simp
  qed
  ultimately have "stackTrace_scan ?s 0 None None = (Some ?l, Some ?p)" by (simp add: prod_eq_iff)
  then show ?thesis by (simp add: stackTrace_frame_def split: option.splits)
qed

lemma stackTrace_plain:
  "CurrentThread_stackTrace dm (Some (f # fs)) False = concat (map (\<lambda>s. s @ [CHR 0x0A]) fs)"
  "CHR 0x28 \<notin> set s \<or> CHR 0x2B \<notin> set s \<Longrightarrow> stackTrace_frame dm demangle s = s"
  using stackTrace_scan_keeps[of s 0 None None]
  by (auto simp: CurrentThread_stackTrace_def stackTrace_frame_def split: prod.splits option.splits)

subsection \<open>\<open>EventLoopThread\<close>\<close>

text \<open>
  The thread that owns the object calls \<open>startLoop\<close> and later the destructor; the new thread runs
  \<open>threadFunc\<close>. \<open>S_latch\<close> and \<open>S_cond\<close> are about to test what they wait for, \<open>S_latch_asleep\<close> and \<open>S_cond_asleep\<close>
  sleep. \<open>C_loop\<close> is about to call \<open>loop()\<close>, which resets \<open>is_quit\<close>; \<open>C_looping\<close> is in it.
\<close>

datatype owner_pc = S_before | S_latch | S_latch_asleep | S_cond | S_cond_asleep | S_returned nat | S_joining | S_destroyed

datatype child_pc = C_none | C_publish | C_count | C_body | C_have nat | C_loop nat | C_looping nat | C_clear | C_end

record loop_thread =
  et_loop :: "nat option"
  et_exiting :: bool
  et_thread :: thread_obj
  et_callback :: bool
  et_owner :: owner_pc
  et_child :: child_pc
  et_locals :: thread_locals
  et_quit :: bool
  et_inits :: "nat list"

definition EventLoopThread_new :: "bool \<Rightarrow> string \<Rightarrow> 32 word \<Rightarrow> loop_thread" where
  "EventLoopThread_new cb name numCreated = \<lparr>et_loop = None, et_exiting = False, et_thread = fst (Thread_new name numCreated),
     et_callback = cb, et_owner = S_before, et_child = C_none, et_locals = thread_locals_init, et_quit = False, et_inits = []\<rparr>"

text \<open>\<open>startLoop\<close>: the call, the wait on the latch in \<open>Thread::start\<close>, the loop around \<open>m_cond.wait()\<close>.\<close>

definition EventLoopThread_startLoop :: "loop_thread \<Rightarrow> loop_thread outcome" where
  "EventLoopThread_startLoop s = do {
     assert_that (\<not> td_started (et_thread s));
     t \<leftarrow> Thread_start True (et_thread s);
     Some (s\<lparr>et_thread := t, et_owner := S_latch, et_child := C_publish\<rparr>)
   }"

definition startLoop_latch :: "loop_thread \<Rightarrow> loop_thread outcome" where
  "startLoop_latch s = (if CountDownLatch_wait_blocks (td_latch (et_thread s)) then Some (s\<lparr>et_owner := S_latch_asleep\<rparr>)
     else do { Thread_started (et_thread s); Some (s\<lparr>et_owner := S_cond\<rparr>) })"

definition startLoop_cond :: "loop_thread \<Rightarrow> loop_thread" where
  "startLoop_cond s = (case et_loop s of None \<Rightarrow> s\<lparr>et_owner := S_cond_asleep\<rparr> | Some loop \<Rightarrow> s\<lparr>et_owner := S_returned loop\<rparr>)"

definition owner_wake :: "owner_pc \<Rightarrow> owner_pc" where
  "owner_wake p = (if p = S_latch_asleep then S_latch else if p = S_cond_asleep then S_cond else p)"

text \<open>\<open>threadFunc\<close>: the loop is constructed and the callback called on it; it is published; it runs; it is withdrawn.\<close>

definition threadFunc_construct :: "nat \<Rightarrow> loop_thread \<Rightarrow> loop_thread" where
  "threadFunc_construct loop s = s\<lparr>et_child := C_have loop, et_inits := (if et_callback s then et_inits s @ [loop] else et_inits s)\<rparr>"

definition threadFunc_publish :: "nat \<Rightarrow> loop_thread \<Rightarrow> loop_thread" where
  "threadFunc_publish loop s = s\<lparr>et_loop := Some loop, et_child := C_loop loop,
     et_owner := (if et_owner s = S_cond_asleep then S_cond else et_owner s)\<rparr>"

definition threadFunc_withdraw :: "loop_thread \<Rightarrow> loop_thread" where
  "threadFunc_withdraw s = s\<lparr>et_loop := None, et_child := C_end\<rparr>"

text \<open>The destructor up to the join.\<close>

definition EventLoopThread_destroy :: "loop_thread \<Rightarrow> loop_thread outcome" where
  "EventLoopThread_destroy s = (let s = s\<lparr>et_exiting := True\<rparr> in case et_loop s of
     None \<Rightarrow> Some (s\<lparr>et_owner := S_destroyed\<rparr>)
   | Some loop \<Rightarrow> do {
       t \<leftarrow> Thread_join (et_thread s);
       Some (s\<lparr>et_quit := True, et_thread := t, et_owner := S_joining\<rparr>)
     })"

datatype loop_thread_event =
    E_startLoop | E_latch | E_cond | E_destroy | E_joined
  | E_spurious
  | E_publish_tid | E_countDown | E_construct nat | E_publish | E_enter | E_leave | E_withdraw
  | E_selfQuit

fun elt_enabled :: "loop_thread_event \<Rightarrow> loop_thread \<Rightarrow> bool" where
  "elt_enabled E_startLoop s = (et_owner s = S_before)"
| "elt_enabled E_latch s = (et_owner s = S_latch)"
| "elt_enabled E_cond s = (et_owner s = S_cond)"
| "elt_enabled E_destroy s = (\<exists>a. et_owner s = S_returned a)"
| "elt_enabled E_joined s = (et_owner s = S_joining \<and> et_child s = C_end)"
| "elt_enabled E_spurious s = (et_owner s \<in> {S_latch_asleep, S_cond_asleep})"
| "elt_enabled E_publish_tid s = (et_child s = C_publish)"
| "elt_enabled E_countDown s = (et_child s = C_count)"
| "elt_enabled (E_construct loop) s = (et_child s = C_body)"
| "elt_enabled E_publish s = (\<exists>a. et_child s = C_have a)"
| "elt_enabled E_enter s = (\<exists>a. et_child s = C_loop a)"
| "elt_enabled E_leave s = ((\<exists>a. et_child s = C_looping a) \<and> et_quit s)"
| "elt_enabled E_withdraw s = (et_child s = C_clear)"
| "elt_enabled E_selfQuit s = (\<exists>a. et_child s = C_looping a)"

text \<open>\<open>tid\<close> is what \<open>gettid\<close> answers in the new thread.\<close>

fun elt_apply :: "int \<Rightarrow> loop_thread_event \<Rightarrow> loop_thread \<Rightarrow> loop_thread outcome" where
  "elt_apply tid E_startLoop s = EventLoopThread_startLoop s"
| "elt_apply tid E_latch s = startLoop_latch s"
| "elt_apply tid E_cond s = Some (startLoop_cond s)"
| "elt_apply tid E_destroy s = EventLoopThread_destroy s"
| "elt_apply tid E_joined s = Some (s\<lparr>et_owner := S_destroyed\<rparr>)"
| "elt_apply tid E_spurious s = Some (s\<lparr>et_owner := owner_wake (et_owner s)\<rparr>)"
| "elt_apply tid E_publish_tid s = (let (loc, t) = ThreadData_publish tid (et_locals s) (et_thread s) in
     Some (s\<lparr>et_locals := loc, et_thread := t, et_child := C_count\<rparr>))"
| "elt_apply tid E_countDown s = (let (t, wake) = ThreadData_countDown (et_thread s) in
     Some (s\<lparr>et_thread := t, et_locals := ThreadData_setName (td_name t) (et_locals s), et_child := C_body,
       et_owner := (if wake \<and> et_owner s = S_latch_asleep then S_latch else et_owner s)\<rparr>))"
| "elt_apply tid (E_construct loop) s = Some (threadFunc_construct loop s)"
| "elt_apply tid E_publish s = (case et_child s of C_have loop \<Rightarrow> Some (threadFunc_publish loop s) | _ \<Rightarrow> None)"
| "elt_apply tid E_enter s = (case et_child s of C_loop a \<Rightarrow> Some (s\<lparr>et_quit := False, et_child := C_looping a\<rparr>) | _ \<Rightarrow> None)"
| "elt_apply tid E_leave s = Some (s\<lparr>et_child := C_clear\<rparr>)"
| "elt_apply tid E_withdraw s = Some (threadFunc_withdraw s)"
| "elt_apply tid E_selfQuit s = Some (s\<lparr>et_quit := True\<rparr>)"

text \<open>Runs whose events satisfy \<open>P\<close>.\<close>

inductive elt_reach :: "int \<Rightarrow> (loop_thread_event \<Rightarrow> bool) \<Rightarrow> loop_thread \<Rightarrow> loop_thread \<Rightarrow> bool" for tid P s0 where
  start: "elt_reach tid P s0 s0"
| step: "elt_reach tid P s0 s \<Longrightarrow> P ev \<Longrightarrow> elt_enabled ev s \<Longrightarrow> elt_apply tid ev s = Some s' \<Longrightarrow> elt_reach tid P s0 s'"

subsection \<open>Starting a loop thread\<close>

definition owner_starting :: "owner_pc \<Rightarrow> bool" where
  "owner_starting p \<longleftrightarrow> p \<in> {S_before, S_latch, S_latch_asleep, S_cond, S_cond_asleep}"

text \<open>
  Where the two threads can be while the loop is not quit from inside: the place of the new thread
  fixes the fields it writes and bounds the place of the owner.
\<close>

fun child_ok :: "int \<Rightarrow> bool \<Rightarrow> child_pc \<Rightarrow> loop_thread \<Rightarrow> bool" where
  "child_ok tid cb C_none s = (\<not> td_started (et_thread s) \<and> cl_count (td_latch (et_thread s)) = 1 \<and> t_cachedTid (et_locals s) = 0
     \<and> et_inits s = [] \<and> et_loop s = None)"
| "child_ok tid cb C_publish s = (td_started (et_thread s) \<and> cl_count (td_latch (et_thread s)) = 1 \<and> t_cachedTid (et_locals s) = 0
     \<and> et_inits s = [] \<and> et_loop s = None)"
| "child_ok tid cb C_count s = (td_started (et_thread s) \<and> cl_count (td_latch (et_thread s)) = 1 \<and> td_pid (et_thread s) = tid
     \<and> et_inits s = [] \<and> et_loop s = None)"
| "child_ok tid cb C_body s = (td_started (et_thread s) \<and> cl_count (td_latch (et_thread s)) = 0 \<and> td_pid (et_thread s) = tid
     \<and> et_inits s = [] \<and> et_loop s = None)"
| "child_ok tid cb (C_have a) s = (td_started (et_thread s) \<and> cl_count (td_latch (et_thread s)) = 0 \<and> td_pid (et_thread s) = tid
     \<and> et_inits s = (if cb then [a] else []) \<and> et_loop s = None)"
| "child_ok tid cb (C_loop a) s = (td_started (et_thread s) \<and> cl_count (td_latch (et_thread s)) = 0 \<and> td_pid (et_thread s) = tid
     \<and> et_inits s = (if cb then [a] else []) \<and> et_loop s = Some a)"
| "child_ok tid cb (C_looping a) s = (td_started (et_thread s) \<and> cl_count (td_latch (et_thread s)) = 0 \<and> td_pid (et_thread s) = tid
     \<and> et_inits s = (if cb then [a] else []) \<and> et_loop s = Some a)"
| "child_ok tid cb C_clear s = (td_started (et_thread s) \<and> et_loop s \<noteq> None)"
| "child_ok tid cb C_end s = (td_started (et_thread s) \<and> et_loop s = None)"

fun owner_ok :: "child_pc \<Rightarrow> owner_pc \<Rightarrow> bool" where
  "owner_ok C_none p = (p = S_before)"
| "owner_ok C_publish p = (p \<in> {S_latch, S_latch_asleep})"
| "owner_ok C_count p = (p \<in> {S_latch, S_latch_asleep})"
| "owner_ok C_body p = (p \<in> {S_latch, S_cond, S_cond_asleep})"
| "owner_ok (C_have a) p = (p \<in> {S_latch, S_cond, S_cond_asleep})"
| "owner_ok (C_loop a) p = (p \<in> {S_latch, S_cond, S_returned a, S_joining})"
| "owner_ok (C_looping a) p = (p \<in> {S_latch, S_cond, S_returned a, S_joining})"
| "owner_ok C_clear p = (p = S_joining)"
| "owner_ok C_end p = (p \<in> {S_joining, S_destroyed})"

definition elt_inv :: "int \<Rightarrow> bool \<Rightarrow> loop_thread \<Rightarrow> bool" where
  "elt_inv tid cb s \<longleftrightarrow> et_callback s = cb \<and> child_ok tid cb (et_child s) s \<and> owner_ok (et_child s) (et_owner s)
     \<and> td_joined (et_thread s) = (et_owner s \<in> {S_joining, S_destroyed}) \<and> (et_quit s \<longrightarrow> et_owner s \<in> {S_joining, S_destroyed})"

lemma child_ok_ignores [simp]:
  "child_ok tid cb c (s\<lparr>et_owner := p\<rparr>) = child_ok tid cb c s" "child_ok tid cb c (s\<lparr>et_quit := b\<rparr>) = child_ok tid cb c s"
  "child_ok tid cb c (s\<lparr>et_exiting := b\<rparr>) = child_ok tid cb c s" "child_ok tid cb c (s\<lparr>et_child := d\<rparr>) = child_ok tid cb c s"
  by (cases c; simp)+

fun owner_rank :: "owner_pc \<Rightarrow> nat" where
  "owner_rank S_before = 9" | "owner_rank S_latch = 7" | "owner_rank S_latch_asleep = 6" | "owner_rank S_cond = 5"
| "owner_rank S_cond_asleep = 4" | "owner_rank (S_returned a) = 3" | "owner_rank S_joining = 2" | "owner_rank S_destroyed = 1"

fun child_rank :: "child_pc \<Rightarrow> nat" where
  "child_rank C_none = 8" | "child_rank C_publish = 7" | "child_rank C_count = 6" | "child_rank C_body = 5" | "child_rank (C_have a) = 4"
| "child_rank (C_loop a) = 3" | "child_rank (C_looping a) = 2" | "child_rank C_clear = 1" | "child_rank C_end = 0"

definition elt_work :: "loop_thread \<Rightarrow> nat" where
  "elt_work s = owner_rank (et_owner s) + 3 * child_rank (et_child s)"

lemmas elt_ops = EventLoopThread_startLoop_def startLoop_latch_def startLoop_cond_def owner_wake_def threadFunc_construct_def
  threadFunc_publish_def threadFunc_withdraw_def EventLoopThread_destroy_def Thread_start_def Thread_started_def Thread_join_def
  ThreadData_publish_def ThreadData_countDown_def ThreadData_setName_def CountDownLatch_countDown_def CountDownLatch_wait_blocks_def
  CurrentThread_tid_def CurrentThread_cachedTid_def Let_def

lemmas elt_unfold = elt_inv_def elt_ops elt_work_def

lemma owner_wake_ok:
  "owner_ok c p \<Longrightarrow> owner_ok c (owner_wake p)" "owner_wake p \<in> {S_joining, S_destroyed} \<longleftrightarrow> p \<in> {S_joining, S_destroyed}"
  by (cases c; auto simp: owner_wake_def) (auto simp: owner_wake_def)

lemma elt_step_inv:
  assumes inv: "elt_inv tid cb s" and en: "elt_enabled ev s" and ev: "ev \<noteq> E_selfQuit" and tid: "0 < tid"
  shows "\<exists>s'. elt_apply tid ev s = Some s' \<and> elt_inv tid cb s' \<and> (ev \<noteq> E_spurious \<longrightarrow> elt_work s' < elt_work s)"
proof (cases ev)
  case E_latch
  then show ?thesis using inv en tid by (cases "et_child s") (auto simp: elt_unfold)
next
  case E_cond
  then show ?thesis using inv en by (cases "et_child s") (auto simp: elt_unfold)
next
  case E_spurious
  then show ?thesis using inv en owner_wake_ok by (simp add: elt_inv_def)
next
  case E_startLoop
  then show ?thesis using inv en by (cases "et_child s") (auto simp: elt_unfold)
next
  case E_destroy
  with en obtain a where a: "et_owner s = S_returned a" by auto
  then have "et_child s = C_loop a \<or> et_child s = C_looping a" using inv by (cases "et_child s") (simp_all add: elt_inv_def)
  then show ?thesis using inv a E_destroy by (elim disjE) (simp_all add: elt_unfold)
qed (use inv en ev in \<open>auto simp: elt_unfold\<close>)

lemma elt_new_inv: "elt_inv tid cb (EventLoopThread_new cb name k)"
  by (simp add: elt_inv_def EventLoopThread_new_def Thread_new_def Thread_setDefaultName_def thread_locals_init_def CountDownLatch_new_def
      split_beta Let_def)

lemma elt_reach_inv:
  assumes "elt_reach tid (\<lambda>ev. ev \<noteq> E_selfQuit) (EventLoopThread_new cb name k) s" "0 < tid"
  shows "elt_inv tid cb s"
  using assms(1)
proof induction
  case start
  then show ?case by (rule elt_new_inv)
next
  case (step s ev s')
  then show ?case using elt_step_inv[of tid cb s ev] assms(2) by auto
qed

text \<open>While the owner has not returned, one of the two threads can go on.\<close>

lemma elt_progress:
  assumes "elt_inv tid cb s" "owner_starting (et_owner s)"
  shows "\<exists>ev. ev \<noteq> E_spurious \<and> elt_enabled ev s"
proof (cases "et_owner s")
  case S_before
  then show ?thesis by (intro exI[of _ E_startLoop]) simp
next
  case S_latch
  then show ?thesis by (intro exI[of _ E_latch]) simp
next
  case S_cond
  then show ?thesis by (intro exI[of _ E_cond]) simp
next
  case S_latch_asleep
  then have "et_child s = C_publish \<or> et_child s = C_count" using assms(1) by (cases "et_child s") (auto simp: elt_inv_def)
  then show ?thesis by (auto intro: exI[of _ E_publish_tid] exI[of _ E_countDown])
next
  case S_cond_asleep
  then have "et_child s = C_body \<or> (\<exists>a. et_child s = C_have a)"
    using assms(1) by (cases "et_child s") (auto simp: elt_inv_def)
  then show ?thesis by (auto intro: exI[of _ "E_construct 0"] exI[of _ E_publish])
qed (use assms(2) in \<open>simp_all add: owner_starting_def\<close>)

text \<open>C24: Starting a loop thread. In every interleaving of \<open>startLoop\<close> with the new thread, with
  spurious wake-ups, as long as the loop is not quit from inside: no assertion fails (the thread id is
  set when \<open>Thread::start\<close> goes on); when \<open>startLoop\<close> returns, it returns the loop the new thread has
  made and published, the callback has been called once, on it, and the thread is about to run it or runs
  it; until then some step other than a spurious wake-up is possible, and every such step brings the two
  threads closer to the end, so \<open>startLoop\<close> returns.\<close>

theorem EventLoopThread_startLoop_returns:
  assumes reach: "elt_reach tid (\<lambda>ev. ev \<noteq> E_selfQuit) (EventLoopThread_new cb name k) s" and tid: "0 < tid"
  shows "(\<forall>ev. elt_enabled ev s \<longrightarrow> elt_apply tid ev s \<noteq> None)
    \<and> (\<forall>a. et_owner s = S_returned a \<longrightarrow> et_loop s = Some a \<and> td_pid (et_thread s) = tid
         \<and> et_inits s = (if cb then [a] else []) \<and> et_child s \<in> {C_loop a, C_looping a})
    \<and> (owner_starting (et_owner s) \<longrightarrow> (\<exists>ev. ev \<noteq> E_spurious \<and> elt_enabled ev s))
    \<and> (\<forall>ev s'. ev \<notin> {E_spurious, E_selfQuit} \<and> elt_enabled ev s \<and> elt_apply tid ev s = Some s' \<longrightarrow> elt_work s' < elt_work s)"
proof -
  have inv: "elt_inv tid cb s" by (rule elt_reach_inv[OF reach tid])
  have "elt_apply tid ev s \<noteq> None" if "elt_enabled ev s" for ev
    using elt_step_inv[OF inv that _ tid] by (cases "ev = E_selfQuit") auto
  moreover have "elt_work s' < elt_work s"
    if "ev \<notin> {E_spurious, E_selfQuit}" "elt_enabled ev s" "elt_apply tid ev s = Some s'" for ev s'
    using elt_step_inv[OF inv that(2) _ tid] that by auto
  moreover have "et_loop s = Some a \<and> td_pid (et_thread s) = tid \<and> et_inits s = (if cb then [a] else []) \<and> et_child s \<in> {C_loop a, C_looping a}"
    if "et_owner s = S_returned a" for a
    using inv that by (cases "et_child s") (auto simp: elt_inv_def)
  ultimately show ?thesis using elt_progress[OF inv] by blast
qed

subsection \<open>Two ways to wait forever\<close>

fun elt_run :: "int \<Rightarrow> loop_thread_event list \<Rightarrow> loop_thread \<Rightarrow> loop_thread outcome" where
  "elt_run tid [] s = Some s"
| "elt_run tid (ev # evs) s = (if elt_enabled ev s then elt_apply tid ev s \<bind> elt_run tid evs else None)"

lemma elt_run_reach:
  assumes "elt_run tid evs s1 = Some s" "list_all P evs" "elt_reach tid P s0 s1"
  shows "elt_reach tid P s0 s"
  using assms by (induction evs arbitrary: s1) (auto split: if_splits bind_splits intro: elt_reach.step)

text \<open>
  The loop is quit from inside, say by a functor the callback has queued, and the new thread withdraws
  it before the owner looks: \<open>m_loop\<close> is null again and \<open>startLoop\<close> waits for a notification nobody sends.
\<close>

lemma EventLoopThread_startLoop_hangs:
  "\<exists>s. elt_reach 7 (\<lambda>_. True) (EventLoopThread_new True ''t'' 0) s
     \<and> (\<forall>s'. elt_reach 7 (\<lambda>_. True) s s' \<longrightarrow> owner_starting (et_owner s'))"
proof -
  let ?s0 = "EventLoopThread_new True ''t'' 0"
  let ?evs = "[E_startLoop, E_publish_tid, E_countDown, E_construct 1, E_publish, E_enter, E_selfQuit, E_leave, E_withdraw, E_latch, E_cond]"
  obtain s where run: "elt_run 7 ?evs ?s0 = Some s" and "et_child s = C_end \<and> et_loop s = None \<and> et_owner s \<in> {S_cond, S_cond_asleep}"
    by (simp add: elt_ops EventLoopThread_new_def Thread_new_def Thread_setDefaultName_def thread_locals_init_def CountDownLatch_new_def split_beta)
  have stuck: "et_child s' = C_end \<and> et_loop s' = None \<and> et_owner s' \<in> {S_cond, S_cond_asleep}" if "elt_reach 7 (\<lambda>_. True) s s'" for s'
    using that
  proof induction
    case start
    then show ?case by fact
  next
    case (step s1 ev s2)
    then show ?case by (cases ev) (auto simp: elt_ops)
  qed
  show ?thesis using elt_run_reach[OF run _ elt_reach.start, of "\<lambda>_. True"] stuck
    by (intro exI[of _ s]) (fastforce simp: owner_starting_def)
qed

text \<open>
  The owner destroys the object as soon as \<open>startLoop\<close> has returned: its \<open>quit()\<close> comes before the new thread
  enters \<open>loop()\<close>, which resets \<open>is_quit\<close>, and the destructor waits for a thread that does not end.
\<close>

lemma EventLoopThread_destroy_hangs:
  "\<exists>s. elt_reach 7 (\<lambda>ev. ev \<noteq> E_selfQuit) (EventLoopThread_new False ''t'' 0) s \<and> et_exiting s
     \<and> (\<forall>s'. elt_reach 7 (\<lambda>ev. ev \<noteq> E_selfQuit) s s' \<longrightarrow> et_owner s' = S_joining)"
proof -
  let ?s0 = "EventLoopThread_new False ''t'' 0"
  let ?evs = "[E_startLoop, E_publish_tid, E_countDown, E_construct 1, E_publish, E_latch, E_cond, E_destroy, E_enter]"
  obtain s where run: "elt_run 7 ?evs ?s0 = Some s"
    and s: "et_exiting s \<and> et_child s = C_looping 1 \<and> \<not> et_quit s \<and> et_owner s = S_joining"
    by (simp add: elt_ops EventLoopThread_new_def Thread_new_def Thread_setDefaultName_def thread_locals_init_def CountDownLatch_new_def split_beta)
  have "et_child s' = C_looping 1 \<and> \<not> et_quit s' \<and> et_owner s' = S_joining" if "elt_reach 7 (\<lambda>ev. ev \<noteq> E_selfQuit) s s'" for s'
    using that
  proof induction
    case start
    then show ?case using s by simp
  next
    case (step s1 ev s2)
    then show ?case by (cases ev) (auto simp: elt_ops)
  qed
  with s show ?thesis using elt_run_reach[OF run _ elt_reach.start, of "\<lambda>ev. ev \<noteq> E_selfQuit"]
    by (intro exI[of _ s]) simp
qed

theorem EventLoopThread_startLoop_returns_witness:
  "\<exists>s. elt_reach 7 (\<lambda>ev. ev \<noteq> E_selfQuit) (EventLoopThread_new True ''t'' 0) s \<and> et_owner s = S_returned 1
     \<and> et_loop s = Some 1 \<and> td_pid (et_thread s) = 7 \<and> et_inits s = [1]"
proof -
  let ?s0 = "EventLoopThread_new True ''t'' 0"
  let ?evs = "[E_startLoop, E_latch, E_publish_tid, E_countDown, E_latch, E_cond, E_construct 1, E_publish, E_cond]"
  obtain s where run: "elt_run 7 ?evs ?s0 = Some s" and s: "et_owner s = S_returned 1"
    by (simp add: elt_ops EventLoopThread_new_def Thread_new_def Thread_setDefaultName_def thread_locals_init_def CountDownLatch_new_def split_beta)
  have reach: "elt_reach 7 (\<lambda>ev. ev \<noteq> E_selfQuit) ?s0 s" by (rule elt_run_reach[OF run _ elt_reach.start]) simp
  show ?thesis using EventLoopThread_startLoop_returns[OF reach] s reach by auto
qed

end
