(* ===== verification/PoolWorkers.thy ===== *)
theory PoolWorkers
  imports Threads "HOL-Library.Multiset"
begin

text \<open>
  The worker threads of \<open>dc::ThreadPool\<close> (\<open>base/threadpool.cc\<close>): \<open>runInThread\<close> with its initial callback, its
  loop and the tasks it executes, the clients that call \<open>run\<close>, and \<open>stop\<close>, which joins the workers one
  after the other. Each step is a piece of code between two points where the thread can be preempted;
  the critical sections are those of \<open>Queues\<close>, and the whole refines the monitor there.
\<close>

subsection \<open>State\<close>

text \<open>
  A worker is before its initial callback, at the test of the loop, about to enter \<open>take\<close>, asleep in it,
  executing a task, or has returned. A client is idle, about to enter \<open>run\<close>, or asleep in it. The owner
  runs, waits in \<open>join\<close> for worker \<open>k\<close>, or has returned from \<open>stop\<close>.
\<close>

datatype 'a worker = W_init | W_test | W_take | W_asleep | W_exec 'a | W_exit
datatype 'a client = Cl_idle | Cl_put 'a | Cl_asleep 'a
datatype pool_owner = O_run | O_join nat | O_stopped

text \<open>
  The last four fields are the history: which workers called the initial callback, the tasks accepted
  by \<open>run\<close>, those returned by \<open>take\<close>, and the calls of tasks with the worker that made them.
\<close>

record 'a pool_sys =
  ps_pool :: "'a thread_pool"
  ps_workers :: "'a worker list"
  ps_clients :: "'a client list"
  ps_owner :: pool_owner
  ps_inits :: "nat list"
  ps_accepted :: "'a list"
  ps_taken :: "'a list"
  ps_executed :: "(nat \<times> 'a) list"

definition pool_sys_init :: "'a thread_pool \<Rightarrow> nat \<Rightarrow> 'a pool_sys" where
  "pool_sys_init p m = \<lparr>ps_pool = p, ps_workers = replicate (length (tp_threads p)) W_init, ps_clients = replicate m Cl_idle,
     ps_owner = O_run, ps_inits = [], ps_accepted = [], ps_taken = [], ps_executed = []\<rparr>"

subsection \<open>Steps\<close>

text \<open>\<open>notify\<close> with the waiter \<open>i\<close> that it wakes, if any, and \<open>notifyAll\<close>.\<close>

definition wake_worker :: "nat option \<Rightarrow> 'a worker list \<Rightarrow> 'a worker list" where
  "wake_worker choice ws = (case choice of None \<Rightarrow> ws | Some i \<Rightarrow> ws[i := W_take])"

fun client_awake :: "'a client \<Rightarrow> 'a client" where
  "client_awake (Cl_asleep x) = Cl_put x"
| "client_awake c = c"

fun worker_awake :: "'a worker \<Rightarrow> 'a worker" where
  "worker_awake W_asleep = W_take"
| "worker_awake w = w"

definition wake_client :: "nat option \<Rightarrow> 'a client list \<Rightarrow> 'a client list" where
  "wake_client choice cs = (case choice of None \<Rightarrow> cs | Some j \<Rightarrow> cs[j := client_awake (cs ! j)])"

text \<open>\<open>runInThread\<close> before the loop, at the test of the loop, in \<open>take\<close>, and the call of the task.\<close>

definition worker_init :: "nat \<Rightarrow> 'a pool_sys \<Rightarrow> 'a pool_sys" where
  "worker_init i s = s\<lparr>ps_workers := (ps_workers s)[i := W_test],
     ps_inits := ps_inits s @ (if tp_init_callback (ps_pool s) then [i] else [])\<rparr>"

definition worker_test :: "nat \<Rightarrow> 'a pool_sys \<Rightarrow> 'a pool_sys" where
  "worker_test i s = s\<lparr>ps_workers := (ps_workers s)[i := if ThreadPool_runInThread_test (ps_pool s) then W_take else W_exit]\<rparr>"

definition worker_take :: "nat \<Rightarrow> nat option \<Rightarrow> 'a pool_sys \<Rightarrow> 'a pool_sys" where
  "worker_take i choice s =
     (if ThreadPool_take_waits (ps_pool s) then s\<lparr>ps_workers := (ps_workers s)[i := W_asleep]\<rparr>
      else let (task, p, signal) = ThreadPool_take (ps_pool s) in
        s\<lparr>ps_pool := p, ps_clients := if signal then wake_client choice (ps_clients s) else ps_clients s,
          ps_workers := (ps_workers s)[i := (case task of None \<Rightarrow> W_test | Some x \<Rightarrow> W_exec x)],
          ps_taken := ps_taken s @ (case task of None \<Rightarrow> [] | Some x \<Rightarrow> [x])\<rparr>)"

definition worker_exec :: "nat \<Rightarrow> 'a \<Rightarrow> 'a pool_sys \<Rightarrow> 'a pool_sys" where
  "worker_exec i x s = s\<lparr>ps_workers := (ps_workers s)[i := W_test], ps_executed := ps_executed s @ [(i, x)]\<rparr>"

definition client_run :: "nat \<Rightarrow> 'a \<Rightarrow> nat option \<Rightarrow> 'a pool_sys \<Rightarrow> 'a pool_sys" where
  "client_run j x choice s =
     (if ThreadPool_run_waits (ps_pool s) then s\<lparr>ps_clients := (ps_clients s)[j := Cl_asleep x]\<rparr>
      else let (p, accepted, signal) = ThreadPool_run x (ps_pool s) in
        s\<lparr>ps_pool := p, ps_clients := (ps_clients s)[j := Cl_idle],
          ps_workers := if signal then wake_worker choice (ps_workers s) else ps_workers s,
          ps_accepted := ps_accepted s @ (if accepted then [x] else [])\<rparr>)"

text \<open>\<open>stop\<close>: its critical section, then one \<open>join\<close> per worker.\<close>

definition owner_stop :: "'a pool_sys \<Rightarrow> 'a pool_sys" where
  "owner_stop s = s\<lparr>ps_pool := ThreadPool_stop (ps_pool s), ps_workers := map worker_awake (ps_workers s),
     ps_clients := map client_awake (ps_clients s), ps_owner := O_join 0\<rparr>"

definition owner_join :: "nat \<Rightarrow> 'a pool_sys \<Rightarrow> 'a pool_sys" where
  "owner_join k s = s\<lparr>ps_owner := if Suc k < length (ps_workers s) then O_join (Suc k) else O_stopped\<rparr>"

datatype 'a pool_event =
    Pe_submit nat 'a | Pe_run nat "nat option" | Pe_init nat | Pe_test nat | Pe_take nat "nat option" | Pe_exec nat
  | Pe_spurious_worker nat | Pe_spurious_client nat | Pe_stop | Pe_join

text \<open>A notification wakes a waiter when there is one.\<close>

definition choice_ok :: "('t \<Rightarrow> bool) \<Rightarrow> 't list \<Rightarrow> nat option \<Rightarrow> bool" where
  "choice_ok P ts choice = (case choice of None \<Rightarrow> \<not> list_ex P ts | Some i \<Rightarrow> i < length ts \<and> P (ts ! i))"

fun is_asleep :: "'a worker \<Rightarrow> bool" where
  "is_asleep W_asleep = True"
| "is_asleep _ = False"

fun client_asleep :: "'a client \<Rightarrow> bool" where
  "client_asleep (Cl_asleep x) = True"
| "client_asleep _ = False"

fun pool_step :: "'a pool_event \<Rightarrow> 'a pool_sys \<Rightarrow> 'a pool_sys option" where
  "pool_step (Pe_submit j x) s = (if j < length (ps_clients s) \<and> ps_clients s ! j = Cl_idle
     then Some (s\<lparr>ps_clients := (ps_clients s)[j := Cl_put x]\<rparr>) else None)"
| "pool_step (Pe_run j choice) s = (if j < length (ps_clients s) \<and> choice_ok is_asleep (ps_workers s) choice
     then (case ps_clients s ! j of Cl_put x \<Rightarrow> Some (client_run j x choice s) | _ \<Rightarrow> None) else None)"
| "pool_step (Pe_init i) s = (if i < length (ps_workers s) \<and> ps_workers s ! i = W_init then Some (worker_init i s) else None)"
| "pool_step (Pe_test i) s = (if i < length (ps_workers s) \<and> ps_workers s ! i = W_test then Some (worker_test i s) else None)"
| "pool_step (Pe_take i choice) s = (if i < length (ps_workers s) \<and> ps_workers s ! i = W_take \<and> choice_ok client_asleep (ps_clients s) choice
     then Some (worker_take i choice s) else None)"
| "pool_step (Pe_exec i) s = (if i < length (ps_workers s)
     then (case ps_workers s ! i of W_exec x \<Rightarrow> Some (worker_exec i x s) | _ \<Rightarrow> None) else None)"
| "pool_step (Pe_spurious_worker i) s = (if i < length (ps_workers s)
     then Some (s\<lparr>ps_workers := (ps_workers s)[i := worker_awake (ps_workers s ! i)]\<rparr>) else None)"
| "pool_step (Pe_spurious_client j) s = (if j < length (ps_clients s)
     then Some (s\<lparr>ps_clients := (ps_clients s)[j := client_awake (ps_clients s ! j)]\<rparr>) else None)"
| "pool_step Pe_stop s = (if ps_owner s = O_run then Some (owner_stop s) else None)"
| "pool_step Pe_join s = (case ps_owner s of
     O_join k \<Rightarrow> (if k < length (ps_workers s) \<and> ps_workers s ! k = W_exit then Some (owner_join k s) else None) | _ \<Rightarrow> None)"

inductive pool_reach :: "'a pool_sys \<Rightarrow> 'a pool_sys \<Rightarrow> bool" for s0 where
  start: "pool_reach s0 s0"
| step: "pool_reach s0 s \<Longrightarrow> pool_step e s = Some s' \<Longrightarrow> pool_reach s0 s'"

subsection \<open>The workers refine the monitor\<close>

fun worker_abs :: "'a worker \<Rightarrow> 'a thread_state" where
  "worker_abs W_take = Taking"
| "worker_abs W_asleep = Wait_not_empty"
| "worker_abs _ = Idle"

fun client_abs :: "'a client \<Rightarrow> 'a thread_state" where
  "client_abs Cl_idle = Idle"
| "client_abs (Cl_put x) = Putting x"
| "client_abs (Cl_asleep x) = Wait_not_full x"

definition pool_abs :: "'a pool_sys \<Rightarrow> ('a thread_pool, 'a) monitor_state" where
  "pool_abs s = \<lparr>mon_queue = ps_pool s, mon_threads = map worker_abs (ps_workers s) @ map client_abs (ps_clients s),
     mon_in = ps_accepted s, mon_out = ps_taken s\<rparr>"

lemma awake_abs [simp]: "awake (worker_abs w) = worker_abs (worker_awake w)" "awake (client_abs c) = client_abs (client_awake c)"
  by (cases w; simp) (cases c; simp)

lemma waits_abs [simp]:
  "waits_empty (worker_abs w) = is_asleep w" "waits_full (worker_abs w) = False"
  "waits_empty (client_abs c) = False" "waits_full (client_abs c) = client_asleep c"
     apply (cases w; simp)
    apply (cases w; simp)
   apply (cases c; simp)
  apply (cases c; simp)
  done

lemma notify_worker:
  assumes "choice_ok is_asleep ws choice"
  shows "notify_one waits_empty (map worker_abs ws @ map client_abs cs) (map worker_abs (wake_worker choice ws) @ map client_abs cs)"
proof (cases choice)
  case None
  then show ?thesis using assms by (auto simp: choice_ok_def wake_worker_def list_ex_iff intro!: notify_one.nobody)
next
  case (Some i)
  with assms have i: "i < length ws" "is_asleep (ws ! i)" by (simp_all add: choice_ok_def)
  then have "ws ! i = W_asleep" by (cases "ws ! i") auto
  with i notify_one.somebody[of i "map worker_abs ws @ map client_abs cs" waits_empty] Some show ?thesis
    by (simp add: wake_worker_def nth_append list_update_append map_update)
qed

lemma notify_client:
  assumes "choice_ok client_asleep cs choice"
  shows "notify_one waits_full (map worker_abs ws @ map client_abs cs) (map worker_abs ws @ map client_abs (wake_client choice cs))"
proof (cases choice)
  case None
  then show ?thesis using assms by (auto simp: choice_ok_def wake_client_def list_ex_iff intro!: notify_one.nobody)
next
  case (Some j)
  with assms have "j < length cs" "client_asleep (cs ! j)" by (simp_all add: choice_ok_def)
  with notify_one.somebody[of "length ws + j" "map worker_abs ws @ map client_abs cs" waits_full] Some show ?thesis
    by (simp add: wake_client_def nth_append list_update_append map_update)
qed

lemma abs_worker:
  assumes "i < length ws"
  shows "(map worker_abs ws @ map client_abs cs)[i := worker_abs w] = map worker_abs (ws[i := w]) @ map client_abs cs"
    "(map worker_abs ws @ map client_abs cs) ! i = worker_abs (ws ! i)"
  using assms by (simp_all add: list_update_append map_update nth_append)

lemma abs_client:
  assumes "j < length cs"
  shows "(map worker_abs ws @ map client_abs cs)[length ws + j := client_abs c] = map worker_abs ws @ map client_abs (cs[j := c])"
    "(map worker_abs ws @ map client_abs cs) ! (length ws + j) = client_abs (cs ! j)"
  using assms by (simp_all add: list_update_append map_update nth_append)

lemma map_abs_same: "i < length ws \<Longrightarrow> worker_abs w = worker_abs (ws ! i) \<Longrightarrow> map worker_abs (ws[i := w]) = map worker_abs ws"
  by (simp add: map_update list_update_same_conv)

lemmas pool_monitor_ops = ThreadPool_ops_def pool_abs_def

lemma sim_client_run:
  assumes j: "j < length (ps_clients s)" "ps_clients s ! j = Cl_put x" and choice: "choice_ok is_asleep (ps_workers s) choice"
  shows "mon_step ThreadPool_ops (pool_abs s) (pool_abs (client_run j x choice s))"
proof (cases "ThreadPool_run_waits (ps_pool s)")
  case True
  then show ?thesis
    using mon_step.put_wait[of "length (ps_workers s) + j" "pool_abs s" x ThreadPool_ops] j abs_client(1)[OF j(1), of "ps_workers s" "Cl_asleep x"] abs_client(2)[OF j(1), of "ps_workers s"]
    by (simp add: pool_monitor_ops client_run_def)
next
  case False
  obtain p acc sig where r: "ThreadPool_run x (ps_pool s) = (p, acc, sig)" by (metis prod_cases3)
  let ?cs = "(ps_clients s)[j := Cl_idle]" let ?ws = "if sig then wake_worker choice (ps_workers s) else ps_workers s"
  have "notify_if sig waits_empty (map worker_abs (ps_workers s) @ map client_abs ?cs) (map worker_abs ?ws @ map client_abs ?cs)"
    using notify_worker[OF choice, of ?cs] by (simp add: notify_if_def)
  then show ?thesis
    using mon_step.put_done[of "length (ps_workers s) + j" "pool_abs s" x ThreadPool_ops p acc sig] j r False
      abs_client(1)[OF j(1), of "ps_workers s" Cl_idle] abs_client(2)[OF j(1), of "ps_workers s"]
    by (simp add: pool_monitor_ops client_run_def)
qed

lemma sim_worker_take:
  assumes i: "i < length (ps_workers s)" "ps_workers s ! i = W_take" and choice: "choice_ok client_asleep (ps_clients s) choice"
  shows "mon_step ThreadPool_ops (pool_abs s) (pool_abs (worker_take i choice s))"
proof (cases "ThreadPool_take_waits (ps_pool s)")
  case True
  then show ?thesis
    using mon_step.take_wait[of i "pool_abs s" ThreadPool_ops] i abs_worker(1)[OF i(1), of "ps_clients s" W_asleep] abs_worker(2)[OF i(1), of "ps_clients s"]
    by (simp add: pool_monitor_ops worker_take_def)
next
  case False
  obtain r p sig where t: "ThreadPool_take (ps_pool s) = (r, p, sig)" by (metis prod_cases3)
  let ?w = "case r of None \<Rightarrow> W_test | Some x \<Rightarrow> W_exec x"
  let ?ws = "(ps_workers s)[i := ?w]" let ?cs = "if sig then wake_client choice (ps_clients s) else ps_clients s"
  have w: "worker_abs ?w = Idle" by (cases r) simp_all
  have "notify_if sig waits_full (map worker_abs ?ws @ map client_abs (ps_clients s)) (map worker_abs ?ws @ map client_abs ?cs)"
    using notify_client[OF choice, of ?ws] by (simp add: notify_if_def)
  then show ?thesis
    using mon_step.take_done[of i "pool_abs s" ThreadPool_ops r p sig] i t False abs_worker(1)[OF i(1), of "ps_clients s" ?w] abs_worker(2)[OF i(1), of "ps_clients s"]
    by (simp add: pool_monitor_ops worker_take_def w)
qed

lemma pool_step_sim:
  assumes "pool_step e s = Some s'"
  shows "mon_step ThreadPool_ops (pool_abs s) (pool_abs s') \<or> pool_abs s' = pool_abs s"
proof (cases e)
  case (Pe_submit j x)
  with assms have j: "j < length (ps_clients s)" "ps_clients s ! j = Cl_idle" "s' = s\<lparr>ps_clients := (ps_clients s)[j := Cl_put x]\<rparr>"
    by (auto split: if_splits)
  then show ?thesis
    using mon_step.call_put[of "length (ps_workers s) + j" "pool_abs s" ThreadPool_ops x] abs_client(1)[OF j(1), of "ps_workers s" "Cl_put x"] abs_client(2)[OF j(1), of "ps_workers s"]
    by (simp add: pool_abs_def)
next
  case (Pe_run j choice)
  with assms show ?thesis using sim_client_run[of j s _ choice] by (auto split: if_splits client.splits)
next
  case (Pe_init i)
  with assms show ?thesis by (auto simp: worker_init_def pool_abs_def map_abs_same split: if_splits)
next
  case (Pe_test i)
  with assms have i: "i < length (ps_workers s)" "ps_workers s ! i = W_test" "s' = worker_test i s" by (auto split: if_splits)
  show ?thesis
  proof (cases "ThreadPool_runInThread_test (ps_pool s)")
    case True
    then show ?thesis
      using mon_step.call_take[of i "pool_abs s" ThreadPool_ops] i abs_worker(1)[OF i(1), of "ps_clients s" W_take] abs_worker(2)[OF i(1), of "ps_clients s"]
      by (simp add: pool_monitor_ops worker_test_def)
  next
    case False
    then show ?thesis using i by (simp add: worker_test_def pool_abs_def map_abs_same)
  qed
next
  case (Pe_take i choice)
  with assms show ?thesis using sim_worker_take[of i s choice] by (auto split: if_splits)
next
  case (Pe_exec i)
  with assms show ?thesis by (auto simp: worker_exec_def pool_abs_def map_abs_same split: if_splits worker.splits)
next
  case (Pe_spurious_worker i)
  with assms have i: "i < length (ps_workers s)" "s' = s\<lparr>ps_workers := (ps_workers s)[i := worker_awake (ps_workers s ! i)]\<rparr>"
    by (auto split: if_splits)
  then show ?thesis
    using mon_step.spurious[of i "pool_abs s" ThreadPool_ops] abs_worker[OF i(1), of "ps_clients s"] by (simp add: pool_abs_def)
next
  case (Pe_spurious_client j)
  with assms have j: "j < length (ps_clients s)" "s' = s\<lparr>ps_clients := (ps_clients s)[j := client_awake (ps_clients s ! j)]\<rparr>"
    by (auto split: if_splits)
  then show ?thesis
    using mon_step.spurious[of "length (ps_workers s) + j" "pool_abs s" ThreadPool_ops] abs_client[OF j(1), of "ps_workers s"]
    by (simp add: pool_abs_def)
next
  case Pe_stop
  with assms show ?thesis
    using mon_step.stop[of ThreadPool_ops ThreadPool_stop "pool_abs s"]
    by (auto simp: pool_monitor_ops owner_stop_def o_def split: if_splits)
next
  case Pe_join
  with assms show ?thesis by (auto simp: pool_abs_def owner_join_def split: pool_owner.splits if_splits)
qed

lemma pool_reach_sim:
  assumes "pool_reach (pool_sys_init p m) s"
  shows "mon_reach ThreadPool_ops (mon_init p (length (tp_threads p) + m)) (pool_abs s)"
  using assms
proof induction
  case start
  have "pool_abs (pool_sys_init p m) = mon_init p (length (tp_threads p) + m)"
    by (simp add: pool_abs_def pool_sys_init_def mon_init_def replicate_add)
  then show ?case using mon_reach.start by metis
next
  case (step s e s')
  then show ?case using pool_step_sim mon_reach.step by metis
qed

subsection \<open>The invariant of the workers\<close>

fun executing :: "'a worker \<Rightarrow> 'a list" where
  "executing (W_exec x) = [x]"
| "executing _ = []"

text \<open>What the invariant reads of a worker; waking up does not change it.\<close>

definition worker_view :: "'a worker \<Rightarrow> 'a list \<times> bool \<times> bool" where
  "worker_view w = (executing w, w = W_init, w = W_exit)"

lemma worker_view_awake [simp]: "worker_view (worker_awake w) = worker_view w"
  by (cases w) (simp_all add: worker_view_def)

definition workers_inv :: "bool \<Rightarrow> ('a list \<times> bool \<times> bool) list \<Rightarrow> bool \<Rightarrow> pool_owner \<Rightarrow> nat list \<Rightarrow> 'a list \<Rightarrow> (nat \<times> 'a) list \<Rightarrow> bool" where
  "workers_inv cb vs running owner inits taken executed =
     ((if cb then distinct inits \<and> set inits = {i. i < length vs \<and> \<not> fst (snd (vs ! i))} else inits = [])
    \<and> mset (map snd executed) + mset (concat (map fst vs)) = mset taken
    \<and> (\<forall>(i, x) \<in> set executed. i < length vs \<and> \<not> fst (snd (vs ! i)))
    \<and> (owner = O_run \<longleftrightarrow> running) \<and> (running \<longrightarrow> (\<forall>i < length vs. \<not> snd (snd (vs ! i))))
    \<and> (\<forall>k. owner = O_join k \<longrightarrow> k < length vs \<and> (\<forall>i < k. snd (snd (vs ! i))))
    \<and> (owner = O_stopped \<longrightarrow> (\<forall>i < length vs. snd (snd (vs ! i)))))"

definition pool_inv :: "'a thread_pool \<Rightarrow> 'a pool_sys \<Rightarrow> bool" where
  "pool_inv p s =
     (tp_threads (ps_pool s) = tp_threads p \<and> tp_init_callback (ps_pool s) = tp_init_callback p
    \<and> length (ps_workers s) = length (tp_threads p)
    \<and> workers_inv (tp_init_callback p) (map worker_view (ps_workers s)) (tp_running (ps_pool s)) (ps_owner s)
        (ps_inits s) (ps_taken s) (ps_executed s))"

lemma workers_invD:
  assumes "workers_inv cb vs rn ow inits tk ex"
  shows "cb \<Longrightarrow> distinct inits" "cb \<Longrightarrow> set inits = {i. i < length vs \<and> \<not> fst (snd (vs ! i))}" "\<not> cb \<Longrightarrow> inits = []"
    "mset (map snd ex) + mset (concat (map fst vs)) = mset tk"
    "(i, x) \<in> set ex \<Longrightarrow> i < length vs \<and> \<not> fst (snd (vs ! i))"
    "ow = O_run \<longleftrightarrow> rn" "rn \<Longrightarrow> j < length vs \<Longrightarrow> \<not> snd (snd (vs ! j))"
    "ow = O_join k \<Longrightarrow> k < length vs" "ow = O_join k \<Longrightarrow> j < k \<Longrightarrow> snd (snd (vs ! j))"
    "ow = O_stopped \<Longrightarrow> j < length vs \<Longrightarrow> snd (snd (vs ! j))"
  using assms by (auto simp: workers_inv_def split: if_splits)

lemma concat_update:
  assumes "i < length xs"
  shows "mset (concat (map f (xs[i := x]))) + mset (f (xs ! i)) = mset (concat (map f xs)) + mset (f x)"
proof -
  have "concat (map f xs) = concat (map f (take i xs)) @ f (xs ! i) @ concat (map f (drop (Suc i) xs))"
    by (subst id_take_nth_drop[OF assms]) simp
  moreover have "concat (map f (xs[i := x])) = concat (map f (take i xs)) @ f x @ concat (map f (drop (Suc i) xs))"
    using assms by (simp add: upd_conv_take_nth_drop)
  ultimately show ?thesis by simp
qed

text \<open>
  One worker moves: the steps that change what the invariant reads are the initial callback, the end of
  the loop, a task taken and a task executed.
\<close>

lemma workers_inv_step:
  assumes inv: "workers_inv cb vs rn ow inits tk ex" and i: "i < length vs"
    and old: "\<not> snd (snd (vs ! i))" and new: "\<not> fst (snd v)" "snd (snd v) \<Longrightarrow> \<not> rn"
    and inits: "inits' = (if cb \<and> fst (snd (vs ! i)) then inits @ [i] else inits)"
    and tasks: "mset (map snd ex') + mset (fst v) + mset tk = mset (map snd ex) + mset (fst (vs ! i)) + mset tk'"
    and ex: "set ex' \<subseteq> insert (i, x) (set ex)"
  shows "workers_inv cb (vs[i := v]) rn ow inits' tk' ex'"
proof -
  note I = workers_invD[OF inv]
  let ?vs = "vs[i := v]"
  have "if cb then distinct inits' \<and> set inits' = {j. j < length ?vs \<and> \<not> fst (snd (?vs ! j))} else inits' = []"
    using I(1-3) i new(1) by (auto simp: inits nth_list_update)
  moreover have "mset (map snd ex') + mset (concat (map fst ?vs)) = mset tk'"
  proof -
    have t: "mset tk = mset (map snd ex) + mset (concat (map fst vs))" using I(4) by simp
    have "mset (map snd ex) + (mset (map snd ex') + (mset (concat (map fst vs)) + mset (fst v)))
        = mset (map snd ex) + (mset (fst (vs ! i)) + mset tk')"
      using tasks unfolding t by (simp only: ac_simps)
    then have "mset (map snd ex') + (mset (concat (map fst vs)) + mset (fst v)) = mset (fst (vs ! i)) + mset tk'"
      by (rule add_left_imp_eq)
    then show ?thesis unfolding concat_update[OF i, of fst v, symmetric] by (simp add: ac_simps)
  qed
  moreover have "\<forall>(j, y) \<in> set ex'. j < length ?vs \<and> \<not> fst (snd (?vs ! j))"
  proof (clarify)
    fix j y assume "(j, y) \<in> set ex'"
    then have "j = i \<or> (j, y) \<in> set ex" using ex by auto
    then have "j < length vs \<and> (j = i \<or> \<not> fst (snd (vs ! j)))" using I(5) i by blast
    then show "j < length ?vs \<and> \<not> fst (snd (?vs ! j))" using new(1) by (cases "j = i") simp_all
  qed
  moreover have "snd (snd (?vs ! j))" if "ow = O_join k" "j < k" for j k
  proof -
    have "j \<noteq> i" using I(9)[OF that] old by auto
    then show ?thesis using I(9)[OF that] by simp
  qed
  moreover have "k < length ?vs" if "ow = O_join k" for k using I(8)[OF that] by simp
  moreover have "ow \<noteq> O_stopped" using I(10) i old by auto
  moreover have "(ow = O_run) = rn \<and> (rn \<longrightarrow> (\<forall>j < length ?vs. \<not> snd (snd (?vs ! j))))"
    using I(6,7) new(2) i by (auto simp: nth_list_update)
  ultimately show ?thesis unfolding workers_inv_def by simp
qed

text \<open>Steps that leave the view of the workers alone.\<close>

lemma workers_inv_stop: "workers_inv cb vs True O_run inits tk ex \<Longrightarrow> vs \<noteq> [] \<Longrightarrow> workers_inv cb vs False (O_join 0) inits tk ex"
  by (auto simp: workers_inv_def)

lemma workers_inv_join:
  assumes "workers_inv cb vs rn (O_join k) inits tk ex" "snd (snd (vs ! k))"
  shows "workers_inv cb vs rn (if Suc k < length vs then O_join (Suc k) else O_stopped) inits tk ex"
proof -
  have "j < k \<or> j = k" if "j < length vs" "\<not> Suc k < length vs" for j using that by linarith
  with assms show ?thesis by (auto simp: workers_inv_def less_Suc_eq)
qed

lemma view_map_update: "i < length ws \<Longrightarrow> map worker_view (ws[i := w]) = (map worker_view ws)[i := worker_view w]"
  by (simp add: map_update)

lemma view_same: "i < length ws \<Longrightarrow> worker_view w = worker_view (ws ! i) \<Longrightarrow> map worker_view (ws[i := w]) = map worker_view ws"
  by (simp add: map_update list_update_same_conv)

lemma view_wake_worker: "choice_ok is_asleep ws choice \<Longrightarrow> map worker_view (wake_worker choice ws) = map worker_view ws \<and> length (wake_worker choice ws) = length ws"
  by (auto simp: wake_worker_def choice_ok_def worker_view_def intro!: view_same split: option.splits elim!: is_asleep.elims)

lemma pool_ops_frame:
  "ThreadPool_run x p = (p', acc, sig) \<Longrightarrow> tp_threads p' = tp_threads p \<and> tp_init_callback p' = tp_init_callback p \<and> tp_running p' = tp_running p"
  "ThreadPool_take p = (r, p', sig) \<Longrightarrow> tp_threads p' = tp_threads p \<and> tp_init_callback p' = tp_init_callback p \<and> tp_running p' = tp_running p"
  by (auto simp: ThreadPool_run_def ThreadPool_take_def split: if_splits list.splits)

lemma pool_invD:
  assumes "pool_inv p s"
  shows "workers_inv (tp_init_callback p) (map worker_view (ps_workers s)) (tp_running (ps_pool s)) (ps_owner s)
      (ps_inits s) (ps_taken s) (ps_executed s)"
    "tp_threads (ps_pool s) = tp_threads p" "tp_init_callback (ps_pool s) = tp_init_callback p"
    "length (ps_workers s) = length (tp_threads p)"
  using assms by (simp_all add: pool_inv_def)

lemma client_run_inv:
  assumes inv: "pool_inv p s" and c: "choice_ok is_asleep (ps_workers s) choice"
  shows "pool_inv p (client_run j x choice s)"
proof -
  obtain q acc sig where r: "ThreadPool_run x (ps_pool s) = (q, acc, sig)" by (metis prod_cases3)
  then show ?thesis using pool_invD[OF inv] view_wake_worker[OF c] pool_ops_frame(1)[OF r]
    by (simp add: client_run_def pool_inv_def)
qed

lemma worker_move_inv:
  assumes inv: "pool_inv p s" and i: "i < length (ps_workers s)" "ps_workers s ! i \<noteq> W_exit"
    and w: "w \<noteq> W_init" "w = W_exit \<Longrightarrow> \<not> tp_running (ps_pool s)"
    and inits: "inits = (if tp_init_callback p \<and> ps_workers s ! i = W_init then ps_inits s @ [i] else ps_inits s)"
    and tasks: "mset (map snd ex) + mset (executing w) + mset (ps_taken s)
      = mset (map snd (ps_executed s)) + mset (executing (ps_workers s ! i)) + mset taken"
    and ex: "set ex \<subseteq> insert (i, x) (set (ps_executed s))"
  shows "workers_inv (tp_init_callback p) (map worker_view ((ps_workers s)[i := w])) (tp_running (ps_pool s)) (ps_owner s) inits taken ex"
  unfolding view_map_update[OF i(1)]
  by (rule workers_inv_step[OF pool_invD(1)[OF inv], where x = x]) (use assms in \<open>simp_all add: worker_view_def\<close>)

lemma worker_take_inv:
  assumes inv: "pool_inv p s" and i: "i < length (ps_workers s)" "ps_workers s ! i = W_take"
  shows "pool_inv p (worker_take i choice s)"
proof -
  obtain r q sig where t: "ThreadPool_take (ps_pool s) = (r, q, sig)" by (metis prod_cases3)
  let ?w = "case r of None \<Rightarrow> W_test | Some x \<Rightarrow> W_exec x"
  have "workers_inv (tp_init_callback p) (map worker_view ((ps_workers s)[i := ?w])) (tp_running (ps_pool s)) (ps_owner s)
      (ps_inits s) (ps_taken s @ (case r of None \<Rightarrow> [] | Some x \<Rightarrow> [x])) (ps_executed s)"
    by (rule worker_move_inv[OF inv i(1)]; cases r) (simp_all add: i, auto)
  moreover have "map worker_view ((ps_workers s)[i := W_asleep]) = map worker_view (ps_workers s)"
    by (rule view_same[OF i(1)]) (simp add: i worker_view_def)
  ultimately show ?thesis using pool_invD[OF inv] t pool_ops_frame(2)[OF t] by (simp add: worker_take_def pool_inv_def)
qed

lemma pool_step_inv:
  assumes step: "pool_step e s = Some s'" and inv: "pool_inv p s" and ne: "tp_threads p \<noteq> []"
  shows "pool_inv p s'"
proof -
  note I = pool_invD[OF inv]
  show ?thesis
  proof (cases e)
    case (Pe_submit j x)
    with step inv show ?thesis by (auto simp: pool_inv_def split: if_splits)
  next
    case (Pe_run j choice)
    with step client_run_inv[OF inv, of choice j] show ?thesis by (auto split: if_splits client.splits)
  next
    case (Pe_init i)
    with step have i: "i < length (ps_workers s)" "ps_workers s ! i = W_init" "s' = worker_init i s" by (auto split: if_splits)
    then show ?thesis using I worker_move_inv[OF inv i(1), of W_test _ "ps_executed s" "ps_taken s"]
      by (cases "tp_init_callback p") (simp_all add: worker_init_def pool_inv_def subset_insertI)
  next
    case (Pe_test i)
    with step have i: "i < length (ps_workers s)" "ps_workers s ! i = W_test" "s' = worker_test i s" by (auto split: if_splits)
    then show ?thesis using I worker_move_inv[OF inv i(1), of W_exit "ps_inits s" "ps_executed s" "ps_taken s"] view_same[OF i(1), of W_take]
      by (cases "tp_running (ps_pool s)") (simp_all add: worker_test_def ThreadPool_runInThread_test_def pool_inv_def worker_view_def subset_insertI)
  next
    case (Pe_take i choice)
    with step worker_take_inv[OF inv] show ?thesis by (auto split: if_splits)
  next
    case (Pe_exec i)
    with step obtain x where i: "i < length (ps_workers s)" "ps_workers s ! i = W_exec x" "s' = worker_exec i x s"
      by (auto split: if_splits worker.splits)
    then show ?thesis using I worker_move_inv[OF inv i(1), of W_test "ps_inits s" "ps_executed s @ [(i, x)]" "ps_taken s" x]
      by (simp add: worker_exec_def pool_inv_def)
  next
    case (Pe_spurious_worker i)
    with step inv show ?thesis by (auto simp: pool_inv_def view_same split: if_splits)
  next
    case (Pe_spurious_client j)
    with step inv show ?thesis by (auto simp: pool_inv_def split: if_splits)
  next
    case Pe_stop
    with step have o: "ps_owner s = O_run" "s' = owner_stop s" by (auto split: if_splits)
    moreover have "tp_running (ps_pool s)" using workers_invD(6)[OF I(1)] o by simp
    moreover have "map worker_view (ps_workers s) \<noteq> []" using I(4) ne by auto
    ultimately show ?thesis using I ne workers_inv_stop[of "tp_init_callback p" "map worker_view (ps_workers s)" "ps_inits s" "ps_taken s" "ps_executed s"]
      by (auto simp: owner_stop_def pool_inv_def ThreadPool_stop_def o_def)
  next
    case Pe_join
    with step obtain k where k: "ps_owner s = O_join k" "k < length (ps_workers s)" "ps_workers s ! k = W_exit" "s' = owner_join k s"
      by (auto split: pool_owner.splits if_splits)
    then show ?thesis using I workers_inv_join[OF I(1)[unfolded k(1)]] by (simp add: owner_join_def pool_inv_def worker_view_def)
  qed
qed

lemma pool_init_inv:
  assumes "tp_running p" "tp_threads p \<noteq> []"
  shows "pool_inv p (pool_sys_init p m)"
  using assms by (auto simp: pool_inv_def pool_sys_init_def workers_inv_def worker_view_def)

lemma pool_reach_inv:
  assumes "pool_reach (pool_sys_init p m) s" "tp_running p" "tp_threads p \<noteq> []"
  shows "pool_inv p s"
  using assms(1) by induction (use pool_init_inv pool_step_inv assms(2,3) in blast)+

subsection \<open>Stopping\<close>

fun worker_rank :: "'a worker \<Rightarrow> nat" where
  "worker_rank W_exit = 0" | "worker_rank W_test = 1" | "worker_rank (W_exec x) = 2" | "worker_rank W_init = 2"
| "worker_rank W_take = 3" | "worker_rank W_asleep = 4"

definition pool_work :: "'a pool_sys \<Rightarrow> nat" where
  "pool_work s = sum_list (map worker_rank (ps_workers s))
     + (case ps_owner s of O_run \<Rightarrow> length (ps_workers s) + 1 | O_join k \<Rightarrow> length (ps_workers s) - k | O_stopped \<Rightarrow> 0)"

text \<open>The steps of the workers and of \<open>join\<close>; the others are clients, spurious wake-ups and \<open>stop\<close>.\<close>

fun pool_progress :: "'a pool_event \<Rightarrow> bool" where
  "pool_progress (Pe_init i) = True" | "pool_progress (Pe_test i) = True" | "pool_progress (Pe_take i choice) = True"
| "pool_progress (Pe_exec i) = True" | "pool_progress Pe_join = True" | "pool_progress _ = False"

definition nobody_asleep :: "'a pool_sys \<Rightarrow> bool" where
  "nobody_asleep s = (\<not> list_ex is_asleep (ps_workers s) \<and> \<not> list_ex client_asleep (ps_clients s))"

lemma asleep_abs:
  "list_ex waits_empty (mon_threads (pool_abs s)) = list_ex is_asleep (ps_workers s)"
  "list_ex waits_full (mon_threads (pool_abs s)) = list_ex client_asleep (ps_clients s)"
  unfolding list_ex_iff by (simp_all add: pool_abs_def bex_Un)

lemma rank_update:
  assumes "i < length ws" "worker_rank w < worker_rank (ws ! i)"
  shows "sum_list (map worker_rank (ws[i := w])) < sum_list (map worker_rank ws)"
proof -
  have "sum_list (map worker_rank ws) = sum_list (map worker_rank (take i ws)) + worker_rank (ws ! i) + sum_list (map worker_rank (drop (Suc i) ws))"
    by (subst id_take_nth_drop[OF assms(1)]) simp
  moreover have "sum_list (map worker_rank (ws[i := w])) = sum_list (map worker_rank (take i ws)) + worker_rank w + sum_list (map worker_rank (drop (Suc i) ws))"
    using assms(1) by (simp add: upd_conv_take_nth_drop)
  ultimately show ?thesis using assms(2) by simp
qed

text \<open>Once the pool is stopped, every step of a worker or of \<open>join\<close> lowers the work and no other step raises it.\<close>

lemma stopping_step:
  assumes step: "pool_step e s = Some s'" and stopped: "\<not> tp_running (ps_pool s)" "ps_owner s \<noteq> O_run" and awake: "nobody_asleep s"
  shows "if pool_progress e then pool_work s' < pool_work s else pool_work s' \<le> pool_work s"
proof -
  have rank: "pool_work (s\<lparr>ps_workers := (ps_workers s)[i := w]\<rparr>) < pool_work s"
    if "i < length (ps_workers s)" "worker_rank w < worker_rank (ps_workers s ! i)" for i w
    using rank_update[OF that] by (cases "ps_owner s") (simp_all add: pool_work_def)
  have cong: "pool_work s1 = pool_work s2" if "ps_workers s1 = ps_workers s2" "ps_owner s1 = ps_owner s2" for s1 s2 :: "'a pool_sys"
    using that by (cases "ps_owner s2") (simp_all add: pool_work_def)
  show ?thesis
  proof (cases e)
    case (Pe_submit j x)
    with step show ?thesis by (auto intro!: eq_imp_le cong split: if_splits)
  next
    case (Pe_run j choice)
    then obtain x where "s' = client_run j x choice s" using step by (auto split: if_splits client.splits)
    then have "ps_workers s' = ps_workers s \<and> ps_owner s' = ps_owner s"
      using stopped by (simp add: client_run_def ThreadPool_run_waits_def ThreadPool_run_def)
    then show ?thesis using cong[of s' s] Pe_run by simp
  next
    case (Pe_init i)
    with step have i: "i < length (ps_workers s)" "ps_workers s ! i = W_init" "s' = worker_init i s" by (auto split: if_splits)
    then show ?thesis using rank[OF i(1), of W_test] cong[of s' "s\<lparr>ps_workers := (ps_workers s)[i := W_test]\<rparr>"]
      by (simp add: Pe_init worker_init_def)
  next
    case (Pe_test i)
    with step have i: "i < length (ps_workers s)" "ps_workers s ! i = W_test" "s' = worker_test i s" by (auto split: if_splits)
    then show ?thesis using rank[OF i(1), of W_exit] stopped by (simp add: Pe_test worker_test_def ThreadPool_runInThread_test_def)
  next
    case (Pe_take i choice)
    with step have i: "i < length (ps_workers s)" "ps_workers s ! i = W_take" "s' = worker_take i choice s" by (auto split: if_splits)
    obtain r q sig where t: "ThreadPool_take (ps_pool s) = (r, q, sig)" by (metis prod_cases3)
    let ?w = "case r of None \<Rightarrow> W_test | Some x \<Rightarrow> W_exec x"
    have "worker_rank ?w < worker_rank (ps_workers s ! i)" by (cases r) (simp_all add: i(2))
    from rank[OF i(1) this] show ?thesis
      using cong[of s' "s\<lparr>ps_workers := (ps_workers s)[i := ?w]\<rparr>"] i(3) t stopped
      by (simp add: Pe_take worker_take_def ThreadPool_take_waits_def)
  next
    case (Pe_exec i)
    with step obtain x where i: "i < length (ps_workers s)" "ps_workers s ! i = W_exec x" "s' = worker_exec i x s"
      by (auto split: if_splits worker.splits)
    then show ?thesis using rank[OF i(1), of W_test] cong[of s' "s\<lparr>ps_workers := (ps_workers s)[i := W_test]\<rparr>"]
      by (simp add: Pe_exec worker_exec_def)
  next
    case (Pe_spurious_worker i)
    with step have i: "i < length (ps_workers s)" "s' = s\<lparr>ps_workers := (ps_workers s)[i := worker_awake (ps_workers s ! i)]\<rparr>"
      by (auto split: if_splits)
    have "\<not> is_asleep (ps_workers s ! i)" using awake i(1) by (auto simp: nobody_asleep_def list_ex_length)
    then have "worker_awake (ps_workers s ! i) = ps_workers s ! i" by (cases "ps_workers s ! i") auto
    then show ?thesis using i Pe_spurious_worker by simp
  next
    case (Pe_spurious_client j)
    with step show ?thesis by (auto intro!: eq_imp_le cong split: if_splits)
  next
    case Pe_stop
    with step stopped show ?thesis by (auto split: if_splits)
  next
    case Pe_join
    with step show ?thesis by (auto simp: pool_work_def owner_join_def split: pool_owner.splits if_splits)
  qed
qed

lemma stopping_progress:
  assumes owner: "ps_owner s = O_join k" "k < length (ps_workers s)" and awake: "nobody_asleep s"
  shows "\<exists>e s'. pool_progress e \<and> pool_step e s = Some s'"
proof -
  have none: "choice_ok client_asleep (ps_clients s) None" using awake by (simp add: choice_ok_def nobody_asleep_def)
  show ?thesis
  proof (cases "ps_workers s ! k")
    case W_init
    then show ?thesis using owner(2) by (intro exI[of _ "Pe_init k"]) simp
  next
    case W_test
    then show ?thesis using owner(2) by (intro exI[of _ "Pe_test k"]) simp
  next
    case W_take
    then show ?thesis using owner(2) none by (intro exI[of _ "Pe_take k None"]) simp
  next
    case W_asleep
    then show ?thesis using awake owner(2) by (auto simp: nobody_asleep_def list_ex_length)
  next
    case (W_exec x)
    then show ?thesis using owner(2) by (intro exI[of _ "Pe_exec k"]) simp
  next
    case W_exit
    then show ?thesis using owner by (intro exI[of _ Pe_join]) simp
  qed
qed

lemma pool_step_owner:
  assumes "pool_step e s = Some s'" "ps_owner s \<noteq> O_run"
  shows "ps_owner s' \<noteq> O_run"
proof (cases e)
  case (Pe_run j choice)
  then obtain x where "s' = client_run j x choice s" using assms(1) by (auto split: if_splits client.splits)
  then show ?thesis using assms(2) by (simp add: client_run_def split: prod.split)
next
  case (Pe_take i choice)
  then have "s' = worker_take i choice s" using assms(1) by (simp split: if_splits)
  then show ?thesis using assms(2) by (simp add: worker_take_def split: prod.split)
next
  case Pe_join
  then obtain k where "s' = owner_join k s" using assms(1) by (auto split: if_splits pool_owner.splits)
  then show ?thesis by (simp add: owner_join_def)
next
  case (Pe_exec i)
  then obtain x where "s' = worker_exec i x s" using assms(1) by (auto split: if_splits worker.splits)
  then show ?thesis using assms(2) by (simp add: worker_exec_def)
qed (use assms in \<open>auto simp: worker_init_def worker_test_def split: if_splits\<close>)

text \<open>What the monitor gives: the queue is served in order, and nobody sleeps once the pool is stopped.\<close>

lemma pool_reach_queue:
  assumes reach: "pool_reach (pool_sys_init p m) s" and p: "tp_threads p \<noteq> []" "tp_queue p = []"
  shows "ps_accepted s = ps_taken s @ tp_queue (ps_pool s)" "\<not> tp_running (ps_pool s) \<Longrightarrow> nobody_asleep s"
proof -
  note mon = pool_reach_sim[OF reach]
  show "ps_accepted s = ps_taken s @ tp_queue (ps_pool s)"
    using tp.queue_discipline[OF mon] p by (simp add: pool_abs_def)
  show "nobody_asleep s" if "\<not> tp_running (ps_pool s)"
    using tp.no_lost_wakeup[OF mon] p that unfolding asleep_abs by (simp add: nobody_asleep_def pool_abs_def)
qed

lemma view_executing: "map fst (map worker_view ws) = map executing ws"
  by (simp add: worker_view_def)

lemma pool_inv_history:
  assumes inv: "pool_inv p s"
  shows "tp_init_callback p \<longrightarrow> distinct (ps_inits s) \<and> set (ps_inits s) = {i. i < length (tp_threads p) \<and> ps_workers s ! i \<noteq> W_init}"
    "\<forall>i x. (i, x) \<in> set (ps_executed s) \<longrightarrow> i < length (tp_threads p) \<and> ps_workers s ! i \<noteq> W_init"
    "mset (map snd (ps_executed s)) + mset (concat (map executing (ps_workers s))) = mset (ps_taken s)"
    "ps_owner s = O_stopped \<longrightarrow> (\<forall>w \<in> set (ps_workers s). w = W_exit) \<and> mset (map snd (ps_executed s)) = mset (ps_taken s)"
proof -
  note W = workers_invD[OF pool_invD(1)[OF inv], unfolded length_map] and len = pool_invD(4)[OF inv]
  have "{i. i < length (ps_workers s) \<and> \<not> fst (snd (map worker_view (ps_workers s) ! i))}
      = {i. i < length (tp_threads p) \<and> ps_workers s ! i \<noteq> W_init}" using len by (auto simp: worker_view_def)
  with W(1,2) show "tp_init_callback p \<longrightarrow> distinct (ps_inits s) \<and> set (ps_inits s) = {i. i < length (tp_threads p) \<and> ps_workers s ! i \<noteq> W_init}"
    by simp
  show "\<forall>i x. (i, x) \<in> set (ps_executed s) \<longrightarrow> i < length (tp_threads p) \<and> ps_workers s ! i \<noteq> W_init"
  proof (intro allI impI)
    fix i x assume "(i, x) \<in> set (ps_executed s)"
    from W(5)[OF this] show "i < length (tp_threads p) \<and> ps_workers s ! i \<noteq> W_init" using len by (auto simp: worker_view_def)
  qed
  show tasks: "mset (map snd (ps_executed s)) + mset (concat (map executing (ps_workers s))) = mset (ps_taken s)"
    using W(4) by (simp only: view_executing)
  show "ps_owner s = O_stopped \<longrightarrow> (\<forall>w \<in> set (ps_workers s). w = W_exit) \<and> mset (map snd (ps_executed s)) = mset (ps_taken s)"
  proof
    assume o: "ps_owner s = O_stopped"
    have ex: "\<forall>w \<in> set (ps_workers s). w = W_exit"
    proof
      fix w assume "w \<in> set (ps_workers s)"
      then obtain j where j: "j < length (ps_workers s)" "w = ps_workers s ! j" by (metis in_set_conv_nth)
      from W(10)[OF o j(1)] show "w = W_exit" using j by (simp add: worker_view_def)
    qed
    have none: "concat (map executing (ps_workers s)) = []" unfolding concat_eq_Nil_conv set_map
    proof
      fix ts assume "ts \<in> executing ` set (ps_workers s)"
      then show "ts = []" using ex by force
    qed
    show "(\<forall>w \<in> set (ps_workers s). w = W_exit) \<and> mset (map snd (ps_executed s)) = mset (ps_taken s)"
      using ex tasks[unfolded none] by simp
  qed
qed

lemma pool_inv_stopping:
  assumes inv: "pool_inv p s" and awake: "\<not> tp_running (ps_pool s) \<Longrightarrow> nobody_asleep s"
  shows "ps_owner s \<noteq> O_run \<longrightarrow> nobody_asleep s
      \<and> (\<forall>e s'. pool_step e s = Some s' \<longrightarrow> ps_owner s' \<noteq> O_run \<and> (if pool_progress e then pool_work s' < pool_work s else pool_work s' \<le> pool_work s))
      \<and> (ps_owner s \<noteq> O_stopped \<longrightarrow> (\<exists>e s'. pool_progress e \<and> pool_step e s = Some s'))"
proof
  assume o: "ps_owner s \<noteq> O_run"
  note W = workers_invD[OF pool_invD(1)[OF inv], unfolded length_map]
  have stop: "\<not> tp_running (ps_pool s)" using W(6) o by simp
  note a = awake[OF stop]
  have "\<exists>e s'. pool_progress e \<and> pool_step e s = Some s'" if "ps_owner s \<noteq> O_stopped"
  proof (cases "ps_owner s")
    case (O_join k)
    show ?thesis by (rule stopping_progress[OF O_join W(8)[OF O_join] a])
  qed (use o that in simp_all)
  with a pool_step_owner[OF _ o] stopping_step[OF _ stop o a]
  show "nobody_asleep s
      \<and> (\<forall>e s'. pool_step e s = Some s' \<longrightarrow> ps_owner s' \<noteq> O_run \<and> (if pool_progress e then pool_work s' < pool_work s else pool_work s' \<le> pool_work s))
      \<and> (ps_owner s \<noteq> O_stopped \<longrightarrow> (\<exists>e s'. pool_progress e \<and> pool_step e s = Some s'))"
    by blast
qed

subsection \<open>Properties\<close>

text \<open>C15: The workers of a pool. In every interleaving of workers, clients and \<open>stop\<close>, with spurious wake-ups:
  each worker calls the initial callback exactly once and before any task; the tasks executed or being
  executed are exactly those \<open>take\<close> returned, each once; and \<open>stop\<close> returns: from its critical section on
  nobody sleeps or falls asleep, some worker or the next \<open>join\<close> can always go on, every such step
  lowers a measure that no other step raises, and when \<open>stop\<close> has returned all workers have ended, every
  task taken has been executed, and the tasks accepted but not executed are those still in the queue.\<close>

theorem ThreadPool_workers:
  assumes p: "ThreadPool_start n p0 = Some (p, inline)" "0 < n" "tp_queue p0 = []" and reach: "pool_reach (pool_sys_init p m) s"
  shows "(tp_init_callback p \<longrightarrow> distinct (ps_inits s) \<and> set (ps_inits s) = {i. i < n \<and> ps_workers s ! i \<noteq> W_init})
    \<and> (\<forall>i x. (i, x) \<in> set (ps_executed s) \<longrightarrow> i < n \<and> ps_workers s ! i \<noteq> W_init)
    \<and> mset (map snd (ps_executed s)) + mset (concat (map executing (ps_workers s))) = mset (ps_taken s)
    \<and> ps_accepted s = ps_taken s @ tp_queue (ps_pool s)
    \<and> (ps_owner s \<noteq> O_run \<longrightarrow> nobody_asleep s
         \<and> (\<forall>e s'. pool_step e s = Some s' \<longrightarrow> ps_owner s' \<noteq> O_run \<and> (if pool_progress e then pool_work s' < pool_work s else pool_work s' \<le> pool_work s))
         \<and> (ps_owner s \<noteq> O_stopped \<longrightarrow> (\<exists>e s'. pool_progress e \<and> pool_step e s = Some s')))
    \<and> (ps_owner s = O_stopped \<longrightarrow> (\<forall>w \<in> set (ps_workers s). w = W_exit) \<and> mset (map snd (ps_executed s)) = mset (ps_taken s))"
proof -
  have pf: "tp_running p" "length (tp_threads p) = n" "tp_threads p \<noteq> []" "tp_queue p = []"
    using p by (auto simp: ThreadPool_start_def)
  note inv = pool_reach_inv[OF reach pf(1,3)] and q = pool_reach_queue[OF reach pf(3,4)]
  note H = pool_inv_history[OF inv, unfolded pf(2)] and S = pool_inv_stopping[OF inv q(2)]
  show ?thesis by (intro conjI H(1) H(2) H(3) q(1) S H(4))
qed

fun pool_run_events :: "'a pool_event list \<Rightarrow> 'a pool_sys \<Rightarrow> 'a pool_sys option" where
  "pool_run_events [] s = Some s"
| "pool_run_events (e # es) s = pool_step e s \<bind> pool_run_events es"

lemma pool_run_reach:
  assumes "pool_run_events es s = Some s'" "pool_reach s0 s"
  shows "pool_reach s0 s'"
  using assms by (induction es arbitrary: s) (auto split: bind_splits intro: pool_reach.step)

text \<open>One worker executes a task that a client submitted; the pool is stopped meanwhile and joined.\<close>

theorem ThreadPool_workers_witness:
  "\<exists>p s. ThreadPool_start 1 (ThreadPool_new ''p'') = Some (p, False) \<and> pool_reach (pool_sys_init p 1) s
     \<and> ps_owner s = O_stopped \<and> ps_executed s = [(0, 5 :: nat)] \<and> nobody_asleep s
     \<and> mset (map snd (ps_executed s)) = mset (ps_taken s) \<and> ps_accepted s = ps_taken s @ tp_queue (ps_pool s)"
proof -
  define p :: "nat thread_pool" where "p = (ThreadPool_new ''p'')\<lparr>tp_running := True, tp_threads := [''p'' @ snprintf_buf 32 (dec_nat 1)]\<rparr>"
  have start: "ThreadPool_start 1 (ThreadPool_new ''p'') = Some (p, False)"
    by (simp add: ThreadPool_start_def ThreadPool_new_def p_def)
  let ?es = "[Pe_submit 0 5, Pe_init 0, Pe_run 0 None, Pe_test 0, Pe_take 0 None, Pe_stop, Pe_exec 0, Pe_test 0, Pe_join]"
  obtain s where s: "pool_run_events ?es (pool_sys_init p 1) = Some s" "ps_owner s = O_stopped" "ps_executed s = [(0, 5)]"
    by (simp add: pool_sys_init_def p_def ThreadPool_new_def choice_ok_def worker_init_def client_run_def ThreadPool_run_waits_def
        ThreadPool_run_inline_def ThreadPool_isFull_def ThreadPool_run_def wake_worker_def worker_test_def ThreadPool_runInThread_test_def
        worker_take_def ThreadPool_take_waits_def ThreadPool_take_def owner_stop_def ThreadPool_stop_def worker_exec_def owner_join_def)
  have r: "pool_reach (pool_sys_init p 1) s" by (rule pool_run_reach[OF s(1) pool_reach.start])
  have "tp_queue (ThreadPool_new ''p'' :: nat thread_pool) = []" by (simp add: ThreadPool_new_def)
  from ThreadPool_workers[OF start zero_less_one this r] s(2)
  have "nobody_asleep s" "mset (map snd (ps_executed s)) = mset (ps_taken s)" "ps_accepted s = ps_taken s @ tp_queue (ps_pool s)"
    by simp_all
  with start r s(2,3) show ?thesis by blast
qed

text \<open>The \<open>join\<close> calls of \<open>stop\<close>. A second \<open>stop\<close> of a pool with threads fails the assertion of \<open>Thread::join\<close>.\<close>

definition ThreadPool_stop_join :: "thread_obj list \<Rightarrow> thread_obj list outcome" where
  "ThreadPool_stop_join threads = those (map Thread_join threads)"

lemma ThreadPool_stop_twice:
  assumes "threads \<noteq> []" "ThreadPool_stop_join threads = Some threads'"
  shows "ThreadPool_stop_join threads' = None"
proof -
  from assms obtain t ts where "threads = t # ts" by (cases threads) auto
  with assms(2) obtain t' ts' where "threads' = t' # ts'" "Thread_join t = Some t'"
    by (auto simp: ThreadPool_stop_join_def split: option.splits)
  moreover from this(2) have "Thread_join t' = None" by (auto simp: Thread_join_def)
  ultimately show ?thesis by (simp add: ThreadPool_stop_join_def)
qed

end
