(* ===== verification/ServerProps.thy ===== *)
theory ServerProps
  imports Server
begin

text \<open>
  Properties of the server: in every interleaving of accepted connections, queued functors, closing
  peers and users, no assertion of \<open>TcpServer\<close> or \<open>TcpConnection\<close> fails, every connection has its own
  name and the loop that is its turn, and the map holds the connections that are not closed.
\<close>

subsection \<open>The server among its threads\<close>

datatype server_event =
    Ev_accept int
  | Ev_run loop_ref
  | Ev_peerClose nat
  | Ev_shutdown int nat
  | Ev_forceClose int nat

text \<open>
  A user calls \<open>shutdown\<close> and \<open>forceClose\<close> on the thread \<open>tid\<close> of the loop of the connection, where
  all its callbacks run.
\<close>

fun server_enabled :: "server_event \<Rightarrow> tcp_server \<Rightarrow> bool" where
  "server_enabled (Ev_accept fd) s = (sv_listening s \<and> length (sv_conns s) < 2 ^ 31 - 2)"
| "server_enabled (Ev_run l) s = (sv_queues s l \<noteq> [])"
| "server_enabled (Ev_peerClose c) s = (c < length (sv_conns s) \<and> lf_interested (sc_life (sv_conns s ! c)))"
| "server_enabled (Ev_shutdown tid c) s =
     (c < length (sv_conns s) \<and> in_loop_thread tid (sc_loop (sv_conns s ! c)))"
| "server_enabled (Ev_forceClose tid c) s =
     (c < length (sv_conns s) \<and> in_loop_thread tid (sc_loop (sv_conns s ! c)))"

fun server_apply :: "server_event \<Rightarrow> tcp_server \<Rightarrow> tcp_server outcome" where
  "server_apply (Ev_accept fd) s = TcpServer_newConnection (loop_threadId (sv_loop s)) fd s"
| "server_apply (Ev_run l) s = server_exec (loop_threadId l) (hd (sv_queues s l))
     (s\<lparr>sv_queues := (sv_queues s)(l := tl (sv_queues s l))\<rparr>)"
| "server_apply (Ev_peerClose c) s = server_handleClose (loop_threadId (sc_loop (sv_conns s ! c))) c s"
| "server_apply (Ev_shutdown tid c) s = Some (server_shutdown c s)"
| "server_apply (Ev_forceClose tid c) s = Some (server_forceClose c s)"

definition server_up :: "(nat \<Rightarrow> loop_ref) \<Rightarrow> bool \<Rightarrow> int \<Rightarrow> loop_ref \<Rightarrow> string \<Rightarrow> string \<Rightarrow> tcp_server outcome" where
  "server_up spawn cb numThreads loop ipPort nameArg =
     TcpServer_setThreadNum numThreads (TcpServer_new loop ipPort nameArg)
       \<bind> TcpServer_start spawn cb (loop_threadId loop)"

inductive server_reach :: "tcp_server \<Rightarrow> tcp_server \<Rightarrow> bool" for s0 where
  start: "server_reach s0 s0"
| step: "server_reach s0 s \<Longrightarrow> server_enabled ev s \<Longrightarrow> server_apply ev s = Some s' \<Longrightarrow> server_reach s0 s'"

subsection \<open>The invariant\<close>

definition pool_ok :: "loop_ref \<Rightarrow> loop_pool \<Rightarrow> bool" where
  "pool_ok base p = (lp_started p \<and> lp_baseLoop p = base
     \<and> (lp_loops p \<noteq> [] \<longrightarrow> 0 \<le> lp_next p \<and> nat (lp_next p) < length (lp_loops p)))"

definition turn_loop :: "loop_pool \<Rightarrow> nat \<Rightarrow> loop_ref" where
  "turn_loop p i = (if lp_loops p = [] then lp_baseLoop p else lp_loops p ! (i mod length (lp_loops p)))"

definition all_loops :: "tcp_server \<Rightarrow> loop_ref set" where
  "all_loops s = insert (sv_loop s) (set (lp_loops (sv_threadPool s)))"

definition conn_name :: "tcp_server \<Rightarrow> nat \<Rightarrow> string" where
  "conn_name s c = sv_name s @ ''-'' @ sv_ipPort s @ dec_nat (Suc c)"

text \<open>The places of the tasks about a connection, and the phases of its life.\<close>

definition task_home :: "tcp_server \<Rightarrow> loop_ref \<Rightarrow> server_task \<Rightarrow> bool" where
  "task_home s l t = (case t of Task_listen \<Rightarrow> False
     | Task_removeConnectionInLoop c \<Rightarrow> c < length (sv_conns s) \<and> l = sv_loop s
     | Task_connectEstablished c \<Rightarrow> c < length (sv_conns s) \<and> l = sc_loop (sv_conns s ! c)
     | Task_connectDestroyed c \<Rightarrow> c < length (sv_conns s) \<and> l = sc_loop (sv_conns s ! c)
     | Task_forceCloseInLoop c \<Rightarrow> c < length (sv_conns s) \<and> l = sc_loop (sv_conns s ! c))"

definition life_closed :: conn_life where
  "life_closed = \<lparr>lf_state = kDisconnected, lf_interested = False, lf_registered = True\<rparr>"

definition life_gone :: conn_life where
  "life_gone = \<lparr>lf_state = kDisconnected, lf_interested = False, lf_registered = False\<rparr>"

definition life_live :: "conn_life \<Rightarrow> bool" where
  "life_live l = (life_open l \<and> lf_interested l \<and> lf_registered l)"

definition phase_ok :: "nat \<Rightarrow> nat \<Rightarrow> nat \<Rightarrow> bool \<Rightarrow> conn_life \<Rightarrow> bool" where
  "phase_ok est rem des mapped l =
     (est = 1 \<and> rem = 0 \<and> des = 0 \<and> mapped \<and> l = life_new
    \<or> est = 0 \<and> rem = 0 \<and> des = 0 \<and> mapped \<and> life_live l
    \<or> est = 0 \<and> rem = 1 \<and> des = 0 \<and> mapped \<and> l = life_closed
    \<or> est = 0 \<and> rem = 0 \<and> des = 1 \<and> \<not> mapped \<and> l = life_closed
    \<or> est = 0 \<and> rem = 0 \<and> des = 0 \<and> \<not> mapped \<and> l = life_gone)"

definition conn_phase :: "tcp_server \<Rightarrow> nat \<Rightarrow> bool" where
  "conn_phase s c = (let k = sv_conns s ! c in
     phase_ok (count_list (sv_queues s (sc_loop k)) (Task_connectEstablished c))
       (count_list (sv_queues s (sv_loop s)) (Task_removeConnectionInLoop c))
       (count_list (sv_queues s (sc_loop k)) (Task_connectDestroyed c))
       (sv_connections s (sc_name k) = Some c) (sc_life k))"

definition server_inv :: "tcp_server \<Rightarrow> bool" where
  "server_inv s =
     (pool_ok (sv_loop s) (sv_threadPool s) \<and> inj_on loop_threadId (all_loops s) \<and> length (sv_ipPort s) \<le> 52
    \<and> sv_nextConnId s = int (length (sv_conns s)) + 1 \<and> length (sv_conns s) \<le> 2 ^ 31 - 2
    \<and> (lp_loops (sv_threadPool s) \<noteq> [] \<longrightarrow>
         nat (lp_next (sv_threadPool s)) = length (sv_conns s) mod length (lp_loops (sv_threadPool s)))
    \<and> (\<forall>c < length (sv_conns s). sc_name (sv_conns s ! c) = conn_name s c
          \<and> sc_loop (sv_conns s ! c) = turn_loop (sv_threadPool s) c)
    \<and> (\<forall>l t. t \<in> set (sv_queues s l) \<longrightarrow> task_home s l t)
    \<and> (\<forall>n c. sv_connections s n = Some c \<longrightarrow> c < length (sv_conns s) \<and> sc_name (sv_conns s ! c) = n)
    \<and> (\<forall>c < length (sv_conns s). conn_phase s c))"

lemma conn_name_inject [simp]: "conn_name s c = conn_name s d \<longleftrightarrow> c = d"
  by (simp add: conn_name_def)

lemma turn_loop_in: "pool_ok (sv_loop s) (sv_threadPool s) \<Longrightarrow> turn_loop (sv_threadPool s) i \<in> all_loops s"
  by (auto simp: turn_loop_def all_loops_def pool_ok_def)

text \<open>The name buffer is large enough.\<close>

lemma conn_name_fits:
  assumes "length ipPort \<le> 52" "n < 2 ^ 31 - 1"
  shows "snprintf_buf 64 (''-'' @ ipPort @ dec_int (int n)) = ''-'' @ ipPort @ dec_nat n"
proof -
  have "n < 10 ^ 10" using assms(2) by (rule less_trans) simp
  then have "length (dec_nat n) \<le> 10" by (rule length_dec_nat_le) simp
  with assms(1) show ?thesis by (simp add: snprintf_buf_def dec_int_def)
qed

subsection \<open>Changing one connection\<close>

definition task_conn :: "server_task \<Rightarrow> nat option" where
  "task_conn t = (case t of Task_listen \<Rightarrow> None | Task_connectEstablished c \<Rightarrow> Some c
     | Task_removeConnectionInLoop c \<Rightarrow> Some c | Task_connectDestroyed c \<Rightarrow> Some c | Task_forceCloseInLoop c \<Rightarrow> Some c)"

lemma count_list_in: "x \<in> set xs \<longleftrightarrow> count_list xs x \<noteq> 0"
  by (simp add: count_list_0_iff)

lemma inv_conn_facts:
  assumes "server_inv s" "c < length (sv_conns s)"
  shows "sc_name (sv_conns s ! c) = conn_name s c" "sc_loop (sv_conns s ! c) \<in> all_loops s" "conn_phase s c"
    "sv_loop s \<in> all_loops s" "sc_loop (sv_conns s ! c) = turn_loop (sv_threadPool s) c"
  using assms turn_loop_in[of s c] by (simp_all add: server_inv_def all_loops_def)

lemma in_loop_self [simp]: "in_loop_thread (loop_threadId l) l"
  by (simp add: in_loop_thread_def)

lemma inv_same_thread:
  assumes "server_inv s" "l \<in> all_loops s" "l' \<in> all_loops s"
  shows "in_loop_thread (loop_threadId l) l' \<longleftrightarrow> l = l'"
  using assms inj_onD[of loop_threadId "all_loops s" l l'] by (auto simp: server_inv_def in_loop_thread_def)

lemma inv_touch:
  assumes inv: "server_inv s" and c: "c < length (sv_conns s)"
    and other: "\<And>l t. task_conn t \<noteq> Some c \<Longrightarrow> count_list (q l) t = count_list (sv_queues s l) t"
    and home: "\<And>l t. t \<in> set (q l) \<Longrightarrow> task_conn t = Some c \<Longrightarrow> task_home s l t"
    and map: "\<And>n. n \<noteq> conn_name s c \<Longrightarrow> m n = sv_connections s n"
      "m (conn_name s c) = None \<or> m (conn_name s c) = Some c"
    and phase: "phase_ok (count_list (q (sc_loop (sv_conns s ! c))) (Task_connectEstablished c))
       (count_list (q (sv_loop s)) (Task_removeConnectionInLoop c))
       (count_list (q (sc_loop (sv_conns s ! c))) (Task_connectDestroyed c)) (m (conn_name s c) = Some c) lf"
  shows "server_inv (s\<lparr>sv_conns := (sv_conns s)[c := (sv_conns s ! c)\<lparr>sc_life := lf\<rparr>], sv_queues := q,
    sv_connections := m\<rparr>)" (is "server_inv ?s")
proof -
  have nth: "sc_name ((sv_conns s)[c := (sv_conns s ! c)\<lparr>sc_life := lf\<rparr>] ! d) = sc_name (sv_conns s ! d)"
    "sc_loop ((sv_conns s)[c := (sv_conns s ! c)\<lparr>sc_life := lf\<rparr>] ! d) = sc_loop (sv_conns s ! d)" for d
    using c by (cases "d = c"; simp)+
  have names: "conn_name ?s = conn_name s" by (simp add: conn_name_def fun_eq_iff)
  have th: "task_home ?s l t = task_home s l t" for l t
    by (cases t) (simp_all add: task_home_def nth)
  have "task_home s l t" if "t \<in> set (q l)" for l t
  proof (cases "task_conn t = Some c")
    case True
    then show ?thesis using home that by simp
  next
    case False
    then have "t \<in> set (sv_queues s l)" using that other[of t l] by (simp add: count_list_in)
    then show ?thesis using inv by (simp add: server_inv_def)
  qed
  then have 1: "\<forall>l t. t \<in> set (sv_queues ?s l) \<longrightarrow> task_home ?s l t" by (simp add: th)
  have 2: "conn_phase ?s d" if d: "d < length (sv_conns s)" for d
  proof (cases "d = c")
    case True
    then show ?thesis using phase inv_conn_facts(1)[OF inv c] c by (simp add: conn_phase_def Let_def)
  next
    case False
    then have "m (sc_name (sv_conns s ! d)) = sv_connections s (sc_name (sv_conns s ! d))"
      using inv_conn_facts(1)[OF inv d] map(1) by simp
    with False inv_conn_facts(3)[OF inv d] show ?thesis
      by (simp add: conn_phase_def Let_def other task_conn_def)
  qed
  have 3: "d < length (sv_conns s) \<and> sc_name (sv_conns ?s ! d) = n" if "m n = Some d" for n d
  proof (cases "n = conn_name s c")
    case True
    then show ?thesis using that map(2) c inv_conn_facts(1)[OF inv c] by (simp add: nth)
  next
    case False
    then have "sv_connections s n = Some d" using that map(1) by simp
    then have "d < length (sv_conns s) \<and> sc_name (sv_conns s ! d) = n" using inv unfolding server_inv_def by blast
    then show ?thesis by (simp add: nth)
  qed
  have 4: "d < length (sv_conns s) \<and> conn_name s d = n" if "m n = Some d" for n d
    using 3[OF that] inv_conn_facts(1)[OF inv, of d] by (simp add: nth)
  show ?thesis
    using inv 1 2 4 unfolding server_inv_def names by (simp add: all_loops_def nth)
qed

text \<open>The forms of \<open>q\<close> that occur: a task added to or taken from a queue.\<close>

lemma count_push [simp]:
  "count_list ((q(l := q l @ [t])) l') u = count_list (q l') u + (if l' = l \<and> u = t then 1 else 0)"
  by simp

lemma count_pop:
  "sv_queues s l = t # ts \<Longrightarrow> count_list (((sv_queues s)(l := ts)) l') u
     = count_list (sv_queues s l') u - (if l' = l \<and> u = t then 1 else 0)"
  by simp

lemma inv_home: "server_inv s \<Longrightarrow> t \<in> set (sv_queues s l) \<Longrightarrow> task_home s l t"
  by (simp add: server_inv_def)

lemma inv_map_own:
  assumes inv: "server_inv s" and c: "c < length (sv_conns s)"
  shows "sv_connections s (conn_name s c) = None \<or> sv_connections s (conn_name s c) = Some c"
proof (cases "sv_connections s (conn_name s c)")
  case (Some d)
  then have "d < length (sv_conns s)" "sc_name (sv_conns s ! d) = conn_name s c" using inv unfolding server_inv_def by blast+
  then show ?thesis using inv_conn_facts(1)[OF inv] Some by simp
qed simp

text \<open>What the phase says of a connection with a given life.\<close>

lemma phase_live:
  assumes inv: "server_inv s" and c: "c < length (sv_conns s)" and live: "life_live (sc_life (sv_conns s ! c))"
  shows "count_list (sv_queues s (sc_loop (sv_conns s ! c))) (Task_connectEstablished c) = 0"
    "count_list (sv_queues s (sv_loop s)) (Task_removeConnectionInLoop c) = 0"
    "count_list (sv_queues s (sc_loop (sv_conns s ! c))) (Task_connectDestroyed c) = 0"
    "sv_connections s (conn_name s c) = Some c"
  using inv_conn_facts(1,3)[OF inv c] live
  by (auto simp: conn_phase_def Let_def phase_ok_def life_live_def life_new_def life_closed_def life_gone_def life_open_def)

subsection \<open>The operations keep the invariant\<close>

lemma server_upd_order:
  "s\<lparr>sv_queues := q, sv_conns := ks\<rparr> = s\<lparr>sv_conns := ks, sv_queues := q\<rparr>"
  "s\<lparr>sv_connections := m, sv_queues := q\<rparr> = s\<lparr>sv_queues := q, sv_connections := m\<rparr>"
  by simp_all

lemma conn_call_run:
  assumes "c < length (sv_conns s)" "f (sc_life (sv_conns s ! c)) = Some l"
  shows "conn_call f (loop_threadId (sc_loop (sv_conns s ! c))) c s
    = Some (s\<lparr>sv_conns := (sv_conns s)[c := (sv_conns s ! c)\<lparr>sc_life := l\<rparr>]\<rparr>)"
  using assms by (simp add: conn_call_def in_loop_thread_def)

text \<open>
  \<open>handleClose\<close> of a live connection whose removal and destruction are not yet queued: the removal is
  done at once on the loop of the server and is queued there from another loop.
\<close>

definition close_queues :: "tcp_server \<Rightarrow> nat \<Rightarrow> loop_ref \<Rightarrow> server_task list" where
  "close_queues s c = (if sc_loop (sv_conns s ! c) = sv_loop s
     then (sv_queues s)(sv_loop s := sv_queues s (sv_loop s) @ [Task_connectDestroyed c])
     else (sv_queues s)(sv_loop s := sv_queues s (sv_loop s) @ [Task_removeConnectionInLoop c]))"

definition close_map :: "tcp_server \<Rightarrow> nat \<Rightarrow> string \<rightharpoonup> nat" where
  "close_map s c = (if sc_loop (sv_conns s ! c) = sv_loop s
     then (sv_connections s)(conn_name s c := None) else sv_connections s)"

lemma handleClose_run:
  assumes inv: "server_inv s" and c: "c < length (sv_conns s)" and live: "life_live (sc_life (sv_conns s ! c))"
  shows "server_handleClose (loop_threadId (sc_loop (sv_conns s ! c))) c s
    = Some (s\<lparr>sv_conns := (sv_conns s)[c := (sv_conns s ! c)\<lparr>sc_life := life_closed\<rparr>],
        sv_queues := close_queues s c, sv_connections := close_map s c\<rparr>)"
proof -
  let ?k = "sv_conns s ! c"
  let ?t = "s\<lparr>sv_conns := (sv_conns s)[c := ?k\<lparr>sc_life := life_closed\<rparr>]\<rparr>"
  note f = inv_conn_facts[OF inv c]
  have "life_handleClose (sc_life ?k) = Some life_closed"
    using live by (simp add: life_live_def life_handleClose_def life_closed_def)
  then have call: "conn_call life_handleClose (loop_threadId (sc_loop ?k)) c s = Some ?t"
    by (rule conn_call_run[OF c])
  note m = phase_live(4)[OF inv c live]
  show ?thesis
    using c f(1) m inv_same_thread[OF inv f(2) f(4)]
    by (simp add: server_handleClose_def call TcpServer_removeConnection_def loop_run_def
        TcpServer_removeConnectionInLoop_def loop_queue_def close_queues_def close_map_def)
qed

lemma handleClose_inv:
  assumes inv: "server_inv s" and c: "c < length (sv_conns s)" and live: "life_live (sc_life (sv_conns s ! c))"
  shows "server_inv (s\<lparr>sv_conns := (sv_conns s)[c := (sv_conns s ! c)\<lparr>sc_life := life_closed\<rparr>],
        sv_queues := close_queues s c, sv_connections := close_map s c\<rparr>)"
proof (rule inv_touch[OF inv c])
  note p = phase_live[OF inv c live]
  show "phase_ok (count_list (close_queues s c (sc_loop (sv_conns s ! c))) (Task_connectEstablished c))
     (count_list (close_queues s c (sv_loop s)) (Task_removeConnectionInLoop c))
     (count_list (close_queues s c (sc_loop (sv_conns s ! c))) (Task_connectDestroyed c))
     (close_map s c (conn_name s c) = Some c) life_closed"
    using p by (auto simp: close_queues_def close_map_def phase_ok_def)
  show "close_map s c (conn_name s c) = None \<or> close_map s c (conn_name s c) = Some c"
    using p(4) by (simp add: close_map_def)
  show "count_list (close_queues s c l) t = count_list (sv_queues s l) t" if "task_conn t \<noteq> Some c" for l t
    using that by (auto simp: close_queues_def task_conn_def)
  show "task_home s l t" if "t \<in> set (close_queues s c l)" for l t
    using that inv c by (auto simp: close_queues_def server_inv_def task_home_def split: if_splits)
qed (simp add: close_map_def)


text \<open>Only the life of an open connection, or one more request to close it.\<close>

lemma life_inv:
  assumes inv: "server_inv s" and c: "c < length (sv_conns s)" and live: "life_live (sc_life (sv_conns s ! c))" "life_live l"
  shows "server_inv (s\<lparr>sv_conns := (sv_conns s)[c := (sv_conns s ! c)\<lparr>sc_life := l\<rparr>], sv_queues := sv_queues s,
       sv_connections := sv_connections s\<rparr>)"
    "server_inv (s\<lparr>sv_conns := (sv_conns s)[c := (sv_conns s ! c)\<lparr>sc_life := l\<rparr>],
       sv_queues := (sv_queues s)(sc_loop (sv_conns s ! c) := sv_queues s (sc_loop (sv_conns s ! c)) @ [Task_forceCloseInLoop c]),
       sv_connections := sv_connections s\<rparr>)"
proof -
  note p = phase_live[OF inv c live(1)]
  show "server_inv (s\<lparr>sv_conns := (sv_conns s)[c := (sv_conns s ! c)\<lparr>sc_life := l\<rparr>], sv_queues := sv_queues s,
       sv_connections := sv_connections s\<rparr>)"
    by (rule inv_touch[OF inv c]) (use p live(2) inv_home[OF inv] in \<open>auto simp: phase_ok_def\<close>)
  let ?q = "(sv_queues s)(sc_loop (sv_conns s ! c) := sv_queues s (sc_loop (sv_conns s ! c)) @ [Task_forceCloseInLoop c])"
  show "server_inv (s\<lparr>sv_conns := (sv_conns s)[c := (sv_conns s ! c)\<lparr>sc_life := l\<rparr>], sv_queues := ?q, sv_connections := sv_connections s\<rparr>)"
  proof (rule inv_touch[OF inv c])
    show "task_home s l' t" if "t \<in> set (?q l')" for l' t
      using that inv_home[OF inv] c by (auto simp: task_home_def split: if_splits)
    show "count_list (?q l') t = count_list (sv_queues s l') t" if "task_conn t \<noteq> Some c" for l' t
      using that by (auto simp: task_conn_def)
  qed (use p live(2) in \<open>auto simp: phase_ok_def\<close>)
qed

text \<open>A task about \<open>c\<close> is taken from the head of a queue.\<close>

lemma head_home:
  assumes "server_inv s" "sv_queues s l = t # ts"
  shows "task_home s l t"
  using inv_home[OF assms(1)] assms(2) by (metis list.set_intros(1))

lemma pop_inv:
  assumes inv: "server_inv s" and q: "sv_queues s l = t # ts" and t: "task_conn t = Some c" and c: "c < length (sv_conns s)"
    and phase: "phase_ok (count_list (((sv_queues s)(l := ts)) (sc_loop (sv_conns s ! c))) (Task_connectEstablished c))
       (count_list (((sv_queues s)(l := ts)) (sv_loop s)) (Task_removeConnectionInLoop c))
       (count_list (((sv_queues s)(l := ts)) (sc_loop (sv_conns s ! c))) (Task_connectDestroyed c))
       (sv_connections s (conn_name s c) = Some c) lf"
  shows "server_inv (s\<lparr>sv_conns := (sv_conns s)[c := (sv_conns s ! c)\<lparr>sc_life := lf\<rparr>],
      sv_queues := (sv_queues s)(l := ts), sv_connections := sv_connections s\<rparr>)"
proof (rule inv_touch[OF inv c])
  show "count_list (((sv_queues s)(l := ts)) l') u = count_list (sv_queues s l') u" if "task_conn u \<noteq> Some c" for l' u
    using that t count_pop[OF q, of l' u] by auto
  show "task_home s l' u" if "u \<in> set (((sv_queues s)(l := ts)) l')" for l' u
    using that inv_home[OF inv, of u] q by (auto split: if_splits)
qed (use phase inv_map_own[OF inv c] in simp_all)

lemma exec_forceClose:
  assumes inv: "server_inv s" and q: "sv_queues s l = Task_forceCloseInLoop c # ts"
  shows "\<exists>s'. server_exec (loop_threadId l) (Task_forceCloseInLoop c) (s\<lparr>sv_queues := (sv_queues s)(l := ts)\<rparr>) = Some s'
    \<and> server_inv s'"
proof -
  let ?p = "s\<lparr>sv_queues := (sv_queues s)(l := ts)\<rparr>" and ?k = "sv_conns s ! c"
  have c: "c < length (sv_conns s)" and l: "l = sc_loop ?k"
    using head_home[OF inv q] by (simp_all add: task_home_def)
  have "phase_ok (count_list (((sv_queues s)(l := ts)) (sc_loop ?k)) (Task_connectEstablished c))
       (count_list (((sv_queues s)(l := ts)) (sv_loop s)) (Task_removeConnectionInLoop c))
       (count_list (((sv_queues s)(l := ts)) (sc_loop ?k)) (Task_connectDestroyed c))
       (sv_connections s (conn_name s c) = Some c) (sc_life ?k)"
    using inv_conn_facts(1,3)[OF inv c] unfolding count_pop[OF q] by (simp add: conn_phase_def Let_def)
  from pop_inv[OF inv q _ c this] have inv': "server_inv ?p" by (simp add: task_conn_def)
  show ?thesis
  proof (cases "life_open (sc_life ?k)")
    case False
    then show ?thesis using inv' c l by (simp add: server_exec_def server_forceCloseInLoop_def)
  next
    case True
    then have "life_live (sc_life ?k)"
      using inv_conn_facts(3)[OF inv c]
      by (auto simp: conn_phase_def Let_def phase_ok_def life_new_def life_closed_def life_gone_def life_open_def)
    then have "life_live (sc_life (sv_conns ?p ! c))" "c < length (sv_conns ?p)" using c by simp_all
    from handleClose_run[OF inv' this(2,1)] handleClose_inv[OF inv' this(2,1)]
    show ?thesis using c l True by (simp add: server_exec_def server_forceCloseInLoop_def)
  qed
qed

lemma exec_established:
  assumes inv: "server_inv s" and q: "sv_queues s l = Task_connectEstablished c # ts"
  shows "\<exists>s'. server_exec (loop_threadId l) (Task_connectEstablished c) (s\<lparr>sv_queues := (sv_queues s)(l := ts)\<rparr>) = Some s'
    \<and> server_inv s'"
proof -
  let ?k = "sv_conns s ! c" and ?l = "\<lparr>lf_state = kConnected, lf_interested = True, lf_registered = True\<rparr>"
  have c: "c < length (sv_conns s)" and l: "l = sc_loop ?k"
    using head_home[OF inv q] by (simp_all add: task_home_def)
  have "count_list (sv_queues s l) (Task_connectEstablished c) \<noteq> 0" using q by simp
  then have p: "count_list (sv_queues s l) (Task_connectEstablished c) = 1"
    "count_list (sv_queues s (sv_loop s)) (Task_removeConnectionInLoop c) = 0"
    "count_list (sv_queues s l) (Task_connectDestroyed c) = 0" "sv_connections s (conn_name s c) = Some c" "sc_life ?k = life_new"
    using inv_conn_facts(1,3)[OF inv c] by (auto simp: conn_phase_def Let_def phase_ok_def l)
  have "phase_ok (count_list (((sv_queues s)(l := ts)) (sc_loop ?k)) (Task_connectEstablished c))
       (count_list (((sv_queues s)(l := ts)) (sv_loop s)) (Task_removeConnectionInLoop c))
       (count_list (((sv_queues s)(l := ts)) (sc_loop ?k)) (Task_connectDestroyed c))
       (sv_connections s (conn_name s c) = Some c) ?l"
    using p unfolding count_pop[OF q] by (simp add: l[symmetric] phase_ok_def life_live_def life_open_def)
  from pop_inv[OF inv q _ c this] show ?thesis
    using c l p(5) by (simp add: task_conn_def server_exec_def conn_call_def life_established_def life_new_def Let_def server_upd_order)
qed

lemma exec_destroyed:
  assumes inv: "server_inv s" and q: "sv_queues s l = Task_connectDestroyed c # ts"
  shows "\<exists>s'. server_exec (loop_threadId l) (Task_connectDestroyed c) (s\<lparr>sv_queues := (sv_queues s)(l := ts)\<rparr>) = Some s'
    \<and> server_inv s'"
proof -
  let ?k = "sv_conns s ! c"
  have c: "c < length (sv_conns s)" and l: "l = sc_loop ?k"
    using head_home[OF inv q] by (simp_all add: task_home_def)
  have "count_list (sv_queues s l) (Task_connectDestroyed c) \<noteq> 0" using q by simp
  then have p: "count_list (sv_queues s l) (Task_connectEstablished c) = 0"
    "count_list (sv_queues s (sv_loop s)) (Task_removeConnectionInLoop c) = 0"
    "count_list (sv_queues s l) (Task_connectDestroyed c) = 1" "sv_connections s (conn_name s c) \<noteq> Some c" "sc_life ?k = life_closed"
    using inv_conn_facts(1,3)[OF inv c] by (auto simp: conn_phase_def Let_def phase_ok_def l)
  have "phase_ok (count_list (((sv_queues s)(l := ts)) (sc_loop ?k)) (Task_connectEstablished c))
       (count_list (((sv_queues s)(l := ts)) (sv_loop s)) (Task_removeConnectionInLoop c))
       (count_list (((sv_queues s)(l := ts)) (sc_loop ?k)) (Task_connectDestroyed c))
       (sv_connections s (conn_name s c) = Some c) life_gone"
    using p unfolding count_pop[OF q] by (simp add: l[symmetric] phase_ok_def)
  from pop_inv[OF inv q _ c this] show ?thesis
    using c l p(5) by (simp add: task_conn_def server_exec_def conn_call_def life_destroyed_def life_closed_def life_gone_def Let_def server_upd_order)
qed


lemma exec_remove:
  assumes inv: "server_inv s" and q: "sv_queues s l = Task_removeConnectionInLoop c # ts"
  shows "\<exists>s'. server_exec (loop_threadId l) (Task_removeConnectionInLoop c) (s\<lparr>sv_queues := (sv_queues s)(l := ts)\<rparr>) = Some s'
    \<and> server_inv s'"
proof -
  let ?k = "sv_conns s ! c" and ?q = "(sv_queues s)(l := ts)"
  let ?q' = "?q(sc_loop ?k := ?q (sc_loop ?k) @ [Task_connectDestroyed c])"
  let ?m = "(sv_connections s)(conn_name s c := None)"
  have c: "c < length (sv_conns s)" and l: "l = sv_loop s"
    using head_home[OF inv q] by (simp_all add: task_home_def)
  have "count_list (sv_queues s l) (Task_removeConnectionInLoop c) \<noteq> 0" using q by simp
  then have p: "count_list (sv_queues s (sc_loop ?k)) (Task_connectEstablished c) = 0"
    "count_list (sv_queues s l) (Task_removeConnectionInLoop c) = 1"
    "count_list (sv_queues s (sc_loop ?k)) (Task_connectDestroyed c) = 0"
    "sv_connections s (conn_name s c) = Some c" "sc_life ?k = life_closed"
    using inv_conn_facts(1,3)[OF inv c] by (auto simp: conn_phase_def Let_def phase_ok_def l)
  have cnt: "count_list (?q' l') u = count_list (sv_queues s l') u - (if l' = l \<and> u = Task_removeConnectionInLoop c then 1 else 0)
      + (if l' = sc_loop ?k \<and> u = Task_connectDestroyed c then 1 else 0)" for l' u
    unfolding count_push count_pop[OF q] ..
  have "server_inv (s\<lparr>sv_conns := (sv_conns s)[c := ?k\<lparr>sc_life := life_closed\<rparr>], sv_queues := ?q', sv_connections := ?m\<rparr>)"
  proof (rule inv_touch[OF inv c])
    show "count_list (?q' l') u = count_list (sv_queues s l') u" if "task_conn u \<noteq> Some c" for l' u
      unfolding cnt using that by (auto simp: task_conn_def)
    show "task_home s l' u" if "u \<in> set (?q' l')" for l' u
      using that inv_home[OF inv, of u] q c by (auto simp: task_home_def split: if_splits)
    show "phase_ok (count_list (?q' (sc_loop ?k)) (Task_connectEstablished c))
     (count_list (?q' (sv_loop s)) (Task_removeConnectionInLoop c))
     (count_list (?q' (sc_loop ?k)) (Task_connectDestroyed c)) (?m (conn_name s c) = Some c) life_closed"
      unfolding cnt using p by (simp add: phase_ok_def l)
  qed simp_all
  moreover have "?k\<lparr>sc_life := life_closed\<rparr> = ?k" by (rule server_conn.equality) (simp_all add: p(5))
  then have "(sv_conns s)[c := ?k\<lparr>sc_life := life_closed\<rparr>] = sv_conns s" by (simp only: list_update_id)
  ultimately show ?thesis
    using c l p(4) inv_conn_facts(1)[OF inv c]
    by (simp add: server_exec_def TcpServer_removeConnectionInLoop_def loop_queue_def Let_def server_upd_order)
qed


subsection \<open>Accepting a connection\<close>

lemma getNextLoop_turn:
  assumes pool: "pool_ok base p" "lp_loops p \<noteq> [] \<longrightarrow> nat (lp_next p) = n mod length (lp_loops p)"
  obtains p' where "EventLoopThreadPool_getNextLoop (loop_threadId base) p = Some (turn_loop p n, p')"
    "pool_ok base p'" "lp_loops p' = lp_loops p" "turn_loop p' = turn_loop p"
    "lp_loops p' \<noteq> [] \<longrightarrow> nat (lp_next p') = Suc n mod length (lp_loops p')"
proof (cases "lp_loops p = []")
  case True
  then show ?thesis
    using pool by (intro that[of p]) (simp_all add: EventLoopThreadPool_getNextLoop_def pool_ok_def turn_loop_def)
next
  case False
  let ?n = "length (lp_loops p)"
  let ?next = "if int ?n \<le> lp_next p + 1 then 0 else lp_next p + 1"
  have nx: "0 \<le> lp_next p" "nat (lp_next p) = n mod ?n" "nat (lp_next p) < ?n"
    using pool False by (simp_all add: pool_ok_def)
  have "nat ?next = Suc n mod ?n"
  proof (cases "Suc (n mod ?n) = ?n")
    case True
    then have "int ?n \<le> lp_next p + 1" using nx by linarith
    with True show ?thesis by (simp add: mod_Suc)
  next
    case neq: False
    then have "\<not> int ?n \<le> lp_next p + 1" using nx by linarith
    with neq nx show ?thesis by (simp add: mod_Suc nat_add_distrib)
  qed
  moreover have "0 \<le> ?next" "nat ?next < ?n" using nx False by auto
  ultimately show ?thesis
    using False pool nx
    by (intro that[of "p\<lparr>lp_next := ?next\<rparr>"])
      (simp_all add: EventLoopThreadPool_getNextLoop_def pool_ok_def turn_loop_def fun_eq_iff)
qed

text \<open>A new connection in its first phase, with its establishment queued, or in its second.\<close>

lemma accept_inv:
  assumes inv: "server_inv s" and room: "length (sv_conns s) < 2 ^ 31 - 2"
    and pool: "pool_ok (sv_loop s) p" "lp_loops p = lp_loops (sv_threadPool s)" "turn_loop p = turn_loop (sv_threadPool s)"
      "lp_loops p \<noteq> [] \<longrightarrow> nat (lp_next p) = Suc (length (sv_conns s)) mod length (lp_loops p)"
    and k: "sc_name k = conn_name s (length (sv_conns s))" "sc_loop k = turn_loop (sv_threadPool s) (length (sv_conns s))"
    and q: "q = (sv_queues s)(sc_loop k := sv_queues s (sc_loop k) @ [Task_connectEstablished (length (sv_conns s))])
          \<and> sc_life k = life_new \<or> q = sv_queues s \<and> life_live (sc_life k)"
  shows "server_inv (s\<lparr>sv_threadPool := p, sv_nextConnId := sv_nextConnId s + 1, sv_conns := sv_conns s @ [k],
      sv_connections := (sv_connections s)(sc_name k \<mapsto> length (sv_conns s)), sv_queues := q\<rparr>)" (is "server_inv ?s")
proof -
  let ?n = "length (sv_conns s)"
  have names: "conn_name ?s = conn_name s" by (simp add: conn_name_def fun_eq_iff)
  have none: "count_list (sv_queues s l) t = 0" if "task_conn t = Some ?n" for l t
    using inv_home[OF inv, of t l] that by (cases t) (auto simp: task_home_def task_conn_def count_list_0_iff)
  have old: "count_list (q l) t = count_list (sv_queues s l) t" if "task_conn t \<noteq> Some ?n" for l t
    using q that by (auto simp: task_conn_def)
  have home: "task_home ?s l t" if "t \<in> set (q l)" for l t
  proof (cases "t \<in> set (sv_queues s l)")
    case True
    from inv_home[OF inv this] show ?thesis by (cases t) (auto simp: task_home_def nth_append)
  next
    case False
    with q that have "t = Task_connectEstablished ?n" "l = sc_loop k" by (auto split: if_splits)
    then show ?thesis by (simp add: task_home_def)
  qed
  have phase: "conn_phase ?s c" if c: "c < Suc ?n" for c
  proof (cases "c = ?n")
    case True
    have z: "count_list (sv_queues s l) (Task_connectEstablished ?n) = 0" "count_list (sv_queues s l) (Task_connectDestroyed ?n) = 0"
      "count_list (sv_queues s l) (Task_removeConnectionInLoop ?n) = 0" for l
      by (simp_all add: none task_conn_def)
    from q show ?thesis by (elim disjE conjE) (simp_all add: True conn_phase_def Let_def phase_ok_def z)
  next
    case False
    then have c: "c < ?n" using c by simp
    then have "sc_name (sv_conns s ! c) \<noteq> sc_name k" using inv_conn_facts(1)[OF inv c] k(1) by simp
    with c inv_conn_facts(3)[OF inv c] show ?thesis
      by (simp add: conn_phase_def Let_def nth_append old task_conn_def)
  qed
  have conns: "sc_name (sv_conns ?s ! c) = conn_name s c \<and> sc_loop (sv_conns ?s ! c) = turn_loop p c" if "c < Suc ?n" for c
    using that k pool(3) inv_conn_facts(1,5)[OF inv, of c] by (auto simp: nth_append less_Suc_eq)
  have map: "c < Suc ?n \<and> sc_name (sv_conns ?s ! c) = n" if "sv_connections ?s n = Some c" for n c
  proof (cases "n = sc_name k")
    case False
    then have "sv_connections s n = Some c" using that by simp
    then have "c < ?n \<and> sc_name (sv_conns s ! c) = n" using inv unfolding server_inv_def by blast
    then show ?thesis by (simp add: nth_append)
  qed (use that in \<open>auto simp: nth_append\<close>)
  have map': "c < Suc ?n \<and> conn_name s c = n" if "sv_connections ?s n = Some c" for n c
    using map[OF that] conns[of c] by simp
  have loops: "all_loops ?s = all_loops s" by (simp add: all_loops_def pool(2))
  define t where "t = ?s"
  have t: "sv_loop t = sv_loop s" "sv_threadPool t = p" "sv_ipPort t = sv_ipPort s" "sv_queues t = q"
    "sv_nextConnId t = sv_nextConnId s + 1" "length (sv_conns t) = Suc ?n"
    by (simp_all add: t_def)
  show ?thesis
    using inv room pool(1,4) conns map' phase home loops names
    unfolding server_inv_def t_def[symmetric] t by simp
qed

lemma newConnection_inv:
  assumes inv: "server_inv s" and room: "length (sv_conns s) < 2 ^ 31 - 2"
  shows "\<exists>s'. TcpServer_newConnection (loop_threadId (sv_loop s)) fd s = Some s' \<and> server_inv s'"
proof -
  let ?n = "length (sv_conns s)" and ?base = "sv_loop s"
  let ?loop = "turn_loop (sv_threadPool s) ?n"
  obtain p where p: "EventLoopThreadPool_getNextLoop (loop_threadId ?base) (sv_threadPool s) = Some (?loop, p)"
    "pool_ok ?base p" "lp_loops p = lp_loops (sv_threadPool s)" "turn_loop p = turn_loop (sv_threadPool s)"
    "lp_loops p \<noteq> [] \<longrightarrow> nat (lp_next p) = Suc ?n mod length (lp_loops p)"
    by (rule getNextLoop_turn[of ?base "sv_threadPool s" ?n]) (use inv in \<open>auto simp: server_inv_def\<close>)
  have id: "sv_nextConnId s = int (Suc ?n)" "length (sv_ipPort s) \<le> 52" using inv by (simp_all add: server_inv_def)
  have lt: "sv_nextConnId s < 2 ^ 31 - 1" unfolding id(1) using room by simp
  have nm: "sv_name s @ snprintf_buf 64 (CHR ''-'' # sv_ipPort s @ dec_int (sv_nextConnId s)) = conn_name s ?n"
    unfolding id(1) using conn_name_fits[OF id(2), of "Suc ?n"] room by (simp add: conn_name_def)
  let ?k = "\<lambda>lf. \<lparr>sc_name = conn_name s ?n, sc_loop = ?loop, sc_fd = fd, sc_life = lf\<rparr>"
  let ?up = "\<lparr>lf_state = kConnected, lf_interested = True, lf_registered = True\<rparr>"
  let ?s1 = "s\<lparr>sv_threadPool := p, sv_nextConnId := sv_nextConnId s + 1, sv_conns := sv_conns s @ [?k life_new],
      sv_connections := (sv_connections s)(conn_name s ?n \<mapsto> ?n)\<rparr>"
  have run: "TcpServer_newConnection (loop_threadId ?base) fd s = loop_run (conn_call life_established (loop_threadId ?base) ?n)
      (loop_threadId ?base) ?loop (Task_connectEstablished ?n) ?s1"
    using lt by (simp add: TcpServer_newConnection_def p(1) nm Let_def)
  note new = accept_inv[OF inv room p(2-5)]
  have thread: "in_loop_thread (loop_threadId ?base) ?loop \<longleftrightarrow> ?base = ?loop"
  proof (rule inv_same_thread[OF inv])
    show "?base \<in> all_loops s" by (simp add: all_loops_def)
    show "?loop \<in> all_loops s" by (rule turn_loop_in) (use inv in \<open>simp add: server_inv_def\<close>)
  qed
  show ?thesis
  proof (cases "?base = ?loop")
    case True
    have "server_inv (s\<lparr>sv_threadPool := p, sv_nextConnId := sv_nextConnId s + 1, sv_conns := sv_conns s @ [?k ?up],
      sv_connections := (sv_connections s)(sc_name (?k ?up) \<mapsto> ?n), sv_queues := sv_queues s\<rparr>)"
      by (rule new) (simp_all add: life_live_def life_open_def)
    moreover have "conn_call life_established (loop_threadId ?loop) ?n ?s1 = Some (s\<lparr>sv_threadPool := p,
        sv_nextConnId := sv_nextConnId s + 1, sv_conns := sv_conns s @ [?k ?up],
        sv_connections := (sv_connections s)(conn_name s ?n \<mapsto> ?n)\<rparr>)"
      by (simp add: conn_call_def life_established_def life_new_def Let_def)
    ultimately show ?thesis
      unfolding run by (simp add: loop_run_def True[symmetric])
  next
    case False
    have "server_inv (s\<lparr>sv_threadPool := p, sv_nextConnId := sv_nextConnId s + 1, sv_conns := sv_conns s @ [?k life_new],
      sv_connections := (sv_connections s)(sc_name (?k life_new) \<mapsto> ?n),
      sv_queues := (sv_queues s)(?loop := sv_queues s ?loop @ [Task_connectEstablished ?n])\<rparr>)"
      by (rule new) simp_all
    then show ?thesis
      unfolding run using thread False by (simp add: loop_run_def loop_queue_def)
  qed
qed


subsection \<open>Every step\<close>

lemma server_exec_inv:
  assumes inv: "server_inv s" and q: "sv_queues s l = t # ts"
  shows "\<exists>s'. server_exec (loop_threadId l) t (s\<lparr>sv_queues := (sv_queues s)(l := ts)\<rparr>) = Some s' \<and> server_inv s'"
proof (cases t)
  case Task_listen
  then show ?thesis using head_home[OF inv q] by (simp add: task_home_def)
next
  case (Task_connectEstablished c)
  then show ?thesis using exec_established[OF inv, of l c ts] q by simp
next
  case (Task_removeConnectionInLoop c)
  then show ?thesis using exec_remove[OF inv, of l c ts] q by simp
next
  case (Task_connectDestroyed c)
  then show ?thesis using exec_destroyed[OF inv, of l c ts] q by simp
next
  case (Task_forceCloseInLoop c)
  then show ?thesis using exec_forceClose[OF inv, of l c ts] q by simp
qed

text \<open>A connection that the loop watches, or whose state is open, is established and not yet closed.\<close>

lemma open_live:
  assumes "server_inv s" "c < length (sv_conns s)"
    and "lf_interested (sc_life (sv_conns s ! c)) \<or> lf_state (sc_life (sv_conns s ! c)) = kConnected \<or> life_open (sc_life (sv_conns s ! c))"
  shows "life_live (sc_life (sv_conns s ! c))"
  using inv_conn_facts(3)[OF assms(1,2)] assms(3)
  by (auto simp: conn_phase_def Let_def phase_ok_def life_new_def life_closed_def life_gone_def life_open_def)

lemma server_shutdown_inv:
  assumes inv: "server_inv s" and c: "c < length (sv_conns s)"
  shows "server_inv (server_shutdown c s)"
proof (cases "lf_state (sc_life (sv_conns s ! c)) = kConnected")
  case True
  then have live: "life_live (sc_life (sv_conns s ! c))" using open_live[OF inv c] by simp
  then have "life_live (life_shutdown (sc_life (sv_conns s ! c)))"
    by (auto simp: life_live_def life_shutdown_def life_open_def)
  from life_inv(1)[OF inv c live this] show ?thesis by (simp add: server_shutdown_def Let_def)
next
  case False
  have "(sv_conns s ! c)\<lparr>sc_life := sc_life (sv_conns s ! c)\<rparr> = sv_conns s ! c" by simp
  with False inv show ?thesis by (simp add: server_shutdown_def Let_def life_shutdown_def)
qed

lemma server_forceClose_inv:
  assumes inv: "server_inv s" and c: "c < length (sv_conns s)"
  shows "server_inv (server_forceClose c s)"
proof (cases "life_open (sc_life (sv_conns s ! c))")
  case True
  then have live: "life_live (sc_life (sv_conns s ! c))" using open_live[OF inv c] by simp
  then have "life_live (life_forceClose (sc_life (sv_conns s ! c)))"
    by (auto simp: life_live_def life_forceClose_def life_open_def)
  from life_inv(2)[OF inv c live this] True show ?thesis
    by (simp add: server_forceClose_def Let_def loop_queue_def)
next
  case False
  then show ?thesis using inv by (simp add: server_forceClose_def Let_def)
qed

lemma server_step_inv:
  assumes inv: "server_inv s" and en: "server_enabled ev s"
  shows "\<exists>s'. server_apply ev s = Some s' \<and> server_inv s'"
proof (cases ev)
  case (Ev_accept fd)
  then show ?thesis using newConnection_inv[OF inv] en by simp
next
  case (Ev_run l)
  with en obtain t ts where q: "sv_queues s l = t # ts" by (cases "sv_queues s l") auto
  then show ?thesis using server_exec_inv[OF inv q] by (simp add: Ev_run)
next
  case (Ev_peerClose c)
  with en have c: "c < length (sv_conns s)" and live: "life_live (sc_life (sv_conns s ! c))" using open_live[OF inv] by simp_all
  show ?thesis using handleClose_run[OF inv c live] handleClose_inv[OF inv c live] by (simp add: Ev_peerClose)
next
  case (Ev_shutdown tid c)
  then show ?thesis using server_shutdown_inv[OF inv] en by simp
next
  case (Ev_forceClose tid c)
  then show ?thesis using server_forceClose_inv[OF inv] en by simp
qed

text \<open>A server that has been started.\<close>

lemma pool_spawn_fold:
  "lp_loops (fold (pool_spawn spawn cb) is p) = lp_loops p @ map spawn is
  \<and> lp_started (fold (pool_spawn spawn cb) is p) = lp_started p \<and> lp_baseLoop (fold (pool_spawn spawn cb) is p) = lp_baseLoop p
  \<and> lp_next (fold (pool_spawn spawn cb) is p) = lp_next p \<and> lp_numThreads (fold (pool_spawn spawn cb) is p) = lp_numThreads p"
  by (induction "is" arbitrary: p) (auto simp: pool_spawn_def Let_def)

lemma server_up_inv:
  assumes n: "0 \<le> n" and loops: "inj_on loop_threadId (insert loop (spawn ` {..<nat n}))" and ip: "length ipPort \<le> 52"
  shows "\<exists>s0. server_up spawn cb n loop ipPort nameArg = Some s0 \<and> server_inv s0 \<and> sv_listening s0
    \<and> sv_loop s0 = loop \<and> lp_loops (sv_threadPool s0) = map spawn [0 ..< nat n]"
  using assms pool_spawn_fold[of spawn cb "[0 ..< nat n]"]
  by (simp add: server_up_def TcpServer_setThreadNum_def TcpServer_new_def TcpServer_start_def Atomic_getAndSet_def
      EventLoopThreadPool_start_def EventLoopThreadPool_new_def EventLoopThreadPool_setThreadNum_def loop_run_def
      server_listen_def server_inv_def pool_ok_def all_loops_def atLeast0LessThan Let_def)

lemma server_reach_inv:
  assumes "server_reach s0 s" "server_inv s0"
  shows "server_inv s"
  using assms
proof induction
  case (step s ev s')
  then show ?case using server_step_inv[of s ev] by auto
qed simp

lemma server_step_loops:
  assumes "server_apply ev s = Some s'"
  shows "lp_loops (sv_threadPool s') = lp_loops (sv_threadPool s) \<and> sv_loop s' = sv_loop s
    \<and> lp_baseLoop (sv_threadPool s') = lp_baseLoop (sv_threadPool s)"
proof -
  note defs = TcpServer_newConnection_def EventLoopThreadPool_getNextLoop_def loop_run_def loop_queue_def conn_call_def
    server_exec_def server_listen_def TcpServer_removeConnectionInLoop_def server_forceCloseInLoop_def
    server_handleClose_def TcpServer_removeConnection_def server_shutdown_def server_forceClose_def Let_def
  show ?thesis
    using assms
    by (cases ev) (auto simp: defs split: if_splits server_task.splits bind_splits)
qed


lemma server_reach_loops:
  assumes "server_reach s0 s"
  shows "lp_loops (sv_threadPool s) = lp_loops (sv_threadPool s0) \<and> sv_loop s = sv_loop s0
    \<and> lp_baseLoop (sv_threadPool s) = lp_baseLoop (sv_threadPool s0)"
  using assms by induction (auto dest: server_step_loops)

text \<open>The queues can be emptied: a task queues at most one other, of less weight.\<close>

definition task_weight :: "server_task \<Rightarrow> nat" where
  "task_weight t = (case t of Task_forceCloseInLoop _ \<Rightarrow> 3 | Task_removeConnectionInLoop _ \<Rightarrow> 2 | _ \<Rightarrow> 1)"

definition pushes_at_most :: "nat \<Rightarrow> (loop_ref \<Rightarrow> server_task list) \<Rightarrow> (loop_ref \<Rightarrow> server_task list) \<Rightarrow> bool" where
  "pushes_at_most w q q' = (q' = q \<or> (\<exists>l u. q' = q(l := q l @ [u]) \<and> task_weight u < w))"

lemma pushes_intros [simp, intro]:
  "pushes_at_most w q q" "task_weight u < w \<Longrightarrow> pushes_at_most w q (q(l := q l @ [u]))"
  by (auto simp: pushes_at_most_def)

lemma exec_queues: "server_exec tid t s = Some s' \<Longrightarrow> pushes_at_most (task_weight t) (sv_queues s) (sv_queues s')"
  by (cases t) (auto simp: loop_run_def loop_queue_def conn_call_def server_exec_def server_listen_def
    TcpServer_removeConnectionInLoop_def server_forceCloseInLoop_def server_handleClose_def
    TcpServer_removeConnection_def task_weight_def Let_def split: if_splits bind_splits)

definition queue_sum :: "loop_ref set \<Rightarrow> (loop_ref \<Rightarrow> server_task list) \<Rightarrow> nat" where
  "queue_sum A q = (\<Sum>l \<in> A. sum_list (map task_weight (q l)))"

lemma queue_sum_update:
  assumes "finite A" "l \<in> A"
  shows "queue_sum A (q(l := ts)) + sum_list (map task_weight (q l)) = queue_sum A q + sum_list (map task_weight ts)"
proof -
  have "(\<Sum>x \<in> A - {l}. sum_list (map task_weight ((q(l := ts)) x))) = (\<Sum>x \<in> A - {l}. sum_list (map task_weight (q x)))"
    by (rule sum.cong) auto
  then show ?thesis unfolding queue_sum_def sum.remove[OF assms] by simp
qed

lemma queue_sum_push:
  assumes "finite A" "pushes_at_most w q q'" "0 < w"
  shows "queue_sum A q' < queue_sum A q + w"
  using assms(2) unfolding pushes_at_most_def
proof
  assume "q' = q"
  then show ?thesis using assms(3) by simp
next
  assume "\<exists>l u. q' = q(l := q l @ [u]) \<and> task_weight u < w"
  then obtain l u where q': "q' = q(l := q l @ [u])" "task_weight u < w" by blast
  show ?thesis
  proof (cases "l \<in> A")
    case True
    show ?thesis using queue_sum_update[OF assms(1) True, of q "q l @ [u]"] q' by simp
  next
    case False
    then have "queue_sum A q' = queue_sum A q" unfolding queue_sum_def q'(1) by (intro sum.cong) auto
    with assms(3) show ?thesis by simp
  qed
qed

lemma run_work:
  assumes inv: "server_inv s" and q: "sv_queues s l \<noteq> []" and run: "server_apply (Ev_run l) s = Some s'"
  shows "queue_sum (all_loops s') (sv_queues s') < queue_sum (all_loops s) (sv_queues s)"
proof -
  from q obtain t ts where q: "sv_queues s l = t # ts" by (cases "sv_queues s l") auto
  let ?q = "(sv_queues s)(l := ts)"
  have fin: "finite (all_loops s)" by (simp add: all_loops_def)
  have l: "l \<in> all_loops s"
    using head_home[OF inv q] inv_conn_facts(2,4)[OF inv]
    by (cases t) (auto simp: task_home_def all_loops_def)
  have A: "all_loops s' = all_loops s" using server_step_loops[OF run] by (simp add: all_loops_def)
  have w: "0 < task_weight t" by (cases t) (simp_all add: task_weight_def)
  have "pushes_at_most (task_weight t) ?q (sv_queues s')"
    using exec_queues[of "loop_threadId l" t "s\<lparr>sv_queues := ?q\<rparr>" s'] run by (simp add: q)
  from queue_sum_push[OF fin this w] queue_sum_update[OF fin l, of "sv_queues s" ts] show ?thesis
    by (simp add: A q)
qed

lemma server_reach_trans: "server_reach b c \<Longrightarrow> server_reach a b \<Longrightarrow> server_reach a c"
  by (induction rule: server_reach.induct) (auto intro: server_reach.intros)

lemma server_drains: "server_inv s \<Longrightarrow> \<exists>s'. server_reach s s' \<and> (\<forall>l. sv_queues s' l = [])"
proof (induction "queue_sum (all_loops s) (sv_queues s)" arbitrary: s rule: less_induct)
  case less
  show ?case
  proof (cases "\<forall>l. sv_queues s l = []")
    case True
    then show ?thesis by (blast intro: server_reach.start)
  next
    case False
    then obtain l where l: "sv_queues s l \<noteq> []" by blast
    then obtain t where t: "server_apply (Ev_run l) s = Some t" "server_inv t"
      using server_step_inv[OF less.prems, of "Ev_run l"] by auto
    from less.hyps[OF run_work[OF less.prems l t(1)] t(2)] obtain s' where
      "server_reach t s'" "\<forall>l. sv_queues s' l = []" by blast
    moreover have "server_reach s t"
      by (rule server_reach.step[OF server_reach.start _ t(1)]) (use l in simp)
    ultimately show ?thesis using server_reach_trans by blast
  qed
qed

text \<open>With nothing left in the queues, every connection is live and in the map, or gone.\<close>

lemma quiet_phase:
  assumes inv: "server_inv s" and quiet: "\<forall>l. sv_queues s l = []" and c: "c < length (sv_conns s)"
  shows "sv_connections s (conn_name s c) = Some c \<and> life_live (sc_life (sv_conns s ! c))
    \<or> sv_connections s (conn_name s c) \<noteq> Some c \<and> sc_life (sv_conns s ! c) = life_gone"
  using inv_conn_facts(1,3)[OF inv c] quiet by (auto simp: conn_phase_def Let_def phase_ok_def)

text \<open>C5: The server and its connections. Start a server with \<open>n \<ge> 0\<close> threads whose loops run on threads
  of their own, and let accepted descriptors, queued functors of the loops, closing peers and calls of
  \<open>shutdown\<close> and \<open>forceClose\<close> on the thread of the connection's loop happen in any order. Then no assertion of the server or
  of a connection ever fails (the next event always succeeds); every connection has a name of its own
  and was given the loop whose turn it was; and the queues can always be emptied, and then the map of the server
  holds exactly the connections that are open, and every other connection has been closed and its
  channel removed, so that its destructor passes.\<close>

theorem TcpServer_connections:
  assumes n: "0 \<le> n" and loops: "inj_on loop_threadId (insert loop (spawn ` {..<nat n}))" and ip: "length ipPort \<le> 52"
  shows "\<exists>s0. server_up spawn cb n loop ipPort nameArg = Some s0 \<and> sv_listening s0
    \<and> (\<forall>s. server_reach s0 s \<longrightarrow>
         (\<forall>ev. server_enabled ev s \<longrightarrow> server_apply ev s \<noteq> None)
       \<and> distinct (map sc_name (sv_conns s))
       \<and> (\<forall>c < length (sv_conns s). sc_loop (sv_conns s ! c) = (if n = 0 then loop else spawn (c mod nat n)))
       \<and> (\<exists>s'. server_reach s s' \<and> (\<forall>l. sv_queues s' l = []))
       \<and> ((\<forall>l. sv_queues s l = []) \<longrightarrow>
            (\<forall>nm c. sv_connections s nm = Some c \<longleftrightarrow>
               c < length (sv_conns s) \<and> sc_name (sv_conns s ! c) = nm \<and> life_open (sc_life (sv_conns s ! c)))
          \<and> (\<forall>c < length (sv_conns s). life_open (sc_life (sv_conns s ! c)) \<or> sc_life (sv_conns s ! c) = life_gone)))"
proof -
  obtain s0 where s0: "server_up spawn cb n loop ipPort nameArg = Some s0" "server_inv s0" "sv_listening s0"
    "sv_loop s0 = loop" "lp_loops (sv_threadPool s0) = map spawn [0 ..< nat n]"
    using server_up_inv[OF assms] by blast
  have "(\<forall>ev. server_enabled ev s \<longrightarrow> server_apply ev s \<noteq> None)
       \<and> distinct (map sc_name (sv_conns s))
       \<and> (\<forall>c < length (sv_conns s). sc_loop (sv_conns s ! c) = (if n = 0 then loop else spawn (c mod nat n)))
       \<and> (\<exists>s'. server_reach s s' \<and> (\<forall>l. sv_queues s' l = []))
       \<and> ((\<forall>l. sv_queues s l = []) \<longrightarrow>
            (\<forall>nm c. sv_connections s nm = Some c \<longleftrightarrow>
               c < length (sv_conns s) \<and> sc_name (sv_conns s ! c) = nm \<and> life_open (sc_life (sv_conns s ! c)))
          \<and> (\<forall>c < length (sv_conns s). life_open (sc_life (sv_conns s ! c)) \<or> sc_life (sv_conns s ! c) = life_gone))"
    if reach: "server_reach s0 s" for s
  proof (intro conjI impI)
    have inv: "server_inv s" by (rule server_reach_inv[OF reach s0(2)])
    note lp = server_reach_loops[OF reach]
    show "\<forall>ev. server_enabled ev s \<longrightarrow> server_apply ev s \<noteq> None"
      using server_step_inv[OF inv] by auto
    show "distinct (map sc_name (sv_conns s))"
      by (simp add: distinct_conv_nth inv_conn_facts(1)[OF inv])
    show "\<forall>c < length (sv_conns s). sc_loop (sv_conns s ! c) = (if n = 0 then loop else spawn (c mod nat n))"
      using inv lp s0(4,5) n by (simp add: inv_conn_facts(5)[OF inv] turn_loop_def server_inv_def pool_ok_def)
    show "\<exists>s'. server_reach s s' \<and> (\<forall>l. sv_queues s' l = [])" by (rule server_drains[OF inv])
    assume quiet: "\<forall>l. sv_queues s l = []"
    note q = quiet_phase[OF inv quiet]
    have closed: "\<not> life_open life_gone" by (simp add: life_gone_def life_open_def)
    show "\<forall>c < length (sv_conns s). life_open (sc_life (sv_conns s ! c)) \<or> sc_life (sv_conns s ! c) = life_gone"
      using q by (auto simp: life_live_def)
    show "\<forall>nm c. sv_connections s nm = Some c \<longleftrightarrow>
               c < length (sv_conns s) \<and> sc_name (sv_conns s ! c) = nm \<and> life_open (sc_life (sv_conns s ! c))"
    proof (intro allI iffI)
      fix nm c
      assume m: "sv_connections s nm = Some c"
      then have c: "c < length (sv_conns s)" "sc_name (sv_conns s ! c) = nm" using inv unfolding server_inv_def by blast+
      with q[OF c(1)] m inv_conn_facts(1)[OF inv c(1)]
      show "c < length (sv_conns s) \<and> sc_name (sv_conns s ! c) = nm \<and> life_open (sc_life (sv_conns s ! c))"
        by (auto simp: life_live_def)
    next
      fix nm c
      assume a: "c < length (sv_conns s) \<and> sc_name (sv_conns s ! c) = nm \<and> life_open (sc_life (sv_conns s ! c))"
      then show "sv_connections s nm = Some c" using q[of c] inv_conn_facts(1)[OF inv, of c] closed by auto
    qed
  qed
  with s0 show ?thesis by blast
qed


definition demo_spawn :: "nat \<Rightarrow> loop_ref" where
  "demo_spawn i = \<lparr>loop_addr = i + 2, loop_threadId = int i + 2\<rparr>"

theorem TcpServer_connections_witness:
  "\<exists>s0. server_up demo_spawn True 2 \<lparr>loop_addr = 1, loop_threadId = 1\<rparr> ''1.2.3.4:80'' ''srv'' = Some s0 \<and> sv_listening s0
    \<and> (\<forall>s. server_reach s0 s \<longrightarrow>
         (\<forall>ev. server_enabled ev s \<longrightarrow> server_apply ev s \<noteq> None)
       \<and> distinct (map sc_name (sv_conns s))
       \<and> (\<forall>c < length (sv_conns s). sc_loop (sv_conns s ! c) = demo_spawn (c mod 2))
       \<and> (\<exists>s'. server_reach s s' \<and> (\<forall>l. sv_queues s' l = [])))"
proof -
  have "inj_on loop_threadId (insert \<lparr>loop_addr = 1, loop_threadId = 1\<rparr> (demo_spawn ` {..<nat 2}))"
    by (auto simp: inj_on_def demo_spawn_def)
  from TcpServer_connections[OF _ this, of "''1.2.3.4:80''" True "''srv''"] show ?thesis by auto
qed

end
