(* ===== verification/Client.thy ===== *)
theory Client
  imports ServerProps
begin

text \<open>
  \<open>dc::net::TcpClient\<close> (\<open>net/tcpClient.h\<close>, \<open>net/tcpClient.cc\<close>): one connection at a time, on one loop.
  The calls it makes on its \<open>Connector\<close> are recorded in order; its connection objects are those of the
  server's model, with their abstract life. The loop calls the queued functors one by one.
\<close>

subsection \<open>State\<close>

datatype connector_call = Call_start | Call_stop | Call_restart | Call_stopAfter rat

datatype client_task = Client_connectDestroyed nat | Client_forceCloseInLoop nat | Client_setCloseCallback nat

record tcp_client =
  cl_loop :: loop_ref
  cl_connector :: "connector_call list"
  cl_name :: string
  cl_retry :: bool
  cl_connect :: bool
  cl_nextConnId :: int
  cl_connection :: "nat option"
  cl_conns :: "server_conn list"
  cl_detached :: "nat set"
  cl_queue :: "client_task list"

definition TcpClient_new :: "loop_ref \<Rightarrow> string \<Rightarrow> tcp_client" where
  "TcpClient_new loop nameArg = \<lparr>cl_loop = loop, cl_connector = [], cl_name = nameArg, cl_retry = False, cl_connect = True,
     cl_nextConnId = 1, cl_connection = None, cl_conns = [], cl_detached = {}, cl_queue = []\<rparr>"

definition TcpClient_enableRetry :: "tcp_client \<Rightarrow> tcp_client" where
  "TcpClient_enableRetry s = s\<lparr>cl_retry := True\<rparr>"

definition client_queue :: "client_task \<Rightarrow> tcp_client \<Rightarrow> tcp_client" where
  "client_queue t s = s\<lparr>cl_queue := cl_queue s @ [t]\<rparr>"

definition client_call :: "connector_call \<Rightarrow> tcp_client \<Rightarrow> tcp_client" where
  "client_call k s = s\<lparr>cl_connector := cl_connector s @ [k]\<rparr>"

text \<open>A call on the connection at address \<open>c\<close>, on the thread of its loop.\<close>

definition client_conn :: "(conn_life \<Rightarrow> conn_life outcome) \<Rightarrow> int \<Rightarrow> nat \<Rightarrow> tcp_client \<Rightarrow> tcp_client outcome" where
  "client_conn f tid c s = do {
     assert_that (c < length (cl_conns s));
     let k = cl_conns s ! c;
     assert_that (in_loop_thread tid (sc_loop k));
     l \<leftarrow> f (sc_life k);
     Some (s\<lparr>cl_conns := (cl_conns s)[c := k\<lparr>sc_life := l\<rparr>]\<rparr>)
   }"

subsection \<open>Operations\<close>

definition TcpClient_connect :: "tcp_client \<Rightarrow> tcp_client" where
  "TcpClient_connect s = client_call Call_start (s\<lparr>cl_connect := True\<rparr>)"

definition client_life_upd :: "(conn_life \<Rightarrow> conn_life) \<Rightarrow> nat \<Rightarrow> tcp_client \<Rightarrow> tcp_client" where
  "client_life_upd f c s = s\<lparr>cl_conns := (cl_conns s)[c := (cl_conns s ! c)\<lparr>sc_life := f (sc_life (cl_conns s ! c))\<rparr>]\<rparr>"

definition TcpClient_disconnect :: "tcp_client \<Rightarrow> tcp_client" where
  "TcpClient_disconnect s = (let s = s\<lparr>cl_connect := False\<rparr> in
     case cl_connection s of None \<Rightarrow> s | Some c \<Rightarrow> client_life_upd life_shutdown c s)"

definition TcpClient_stop :: "tcp_client \<Rightarrow> tcp_client" where
  "TcpClient_stop s = client_call Call_stop (s\<lparr>cl_connect := False\<rparr>)"

text \<open>\<open>peer\<close> is the text of the peer's address.\<close>

definition TcpClient_newConnection :: "int \<Rightarrow> int \<Rightarrow> string \<Rightarrow> tcp_client \<Rightarrow> tcp_client outcome" where
  "TcpClient_newConnection tid sockfd peer s = do {
     assert_that (in_loop_thread tid (cl_loop s));
     let buf = snprintf_buf 32 (CHR '':'' # peer @ CHR ''#'' # dec_int (cl_nextConnId s));
     assert_that (cl_nextConnId s < 2 ^ 31 - 1);
     let connName = cl_name s @ buf;
     let conn = length (cl_conns s);
     let s = s\<lparr>cl_nextConnId := cl_nextConnId s + 1,
               cl_conns := cl_conns s @ [\<lparr>sc_name = connName, sc_loop = cl_loop s, sc_fd = sockfd, sc_life = life_new\<rparr>],
               cl_connection := Some conn\<rparr>;
     client_conn life_established tid conn s
   }"

definition TcpClient_removeConnection :: "int \<Rightarrow> nat \<Rightarrow> tcp_client \<Rightarrow> tcp_client outcome" where
  "TcpClient_removeConnection tid conn s = do {
     assert_that (in_loop_thread tid (cl_loop s));
     assert_that (cl_loop s = sc_loop (cl_conns s ! conn));
     assert_that (cl_connection s = Some conn);
     let s = client_queue (Client_connectDestroyed conn) (s\<lparr>cl_connection := None\<rparr>);
     Some (if cl_retry s \<and> cl_connect s then client_call Call_restart s else s)
   }"

text \<open>\<open>detail::removeConnection\<close>, the close callback a connection has once the client is gone.\<close>

definition detail_removeConnection :: "nat \<Rightarrow> tcp_client \<Rightarrow> tcp_client" where
  "detail_removeConnection conn s = client_queue (Client_connectDestroyed conn) s"

definition client_handleClose :: "int \<Rightarrow> nat \<Rightarrow> tcp_client \<Rightarrow> tcp_client outcome" where
  "client_handleClose tid conn s = do {
     s \<leftarrow> client_conn life_handleClose tid conn s;
     if conn \<in> cl_detached s then Some (detail_removeConnection conn s)
     else TcpClient_removeConnection tid conn s
   }"

definition client_forceClose :: "nat \<Rightarrow> tcp_client \<Rightarrow> tcp_client" where
  "client_forceClose c s = (if life_open (sc_life (cl_conns s ! c))
     then client_queue (Client_forceCloseInLoop c) (client_life_upd life_forceClose c s) else s)"

text \<open>
  The destructor; \<open>unique\<close> says whether the client holds the only reference to its connection. On the
  loop thread the close callback is replaced at once.
\<close>

definition TcpClient_destroy :: "int \<Rightarrow> bool \<Rightarrow> tcp_client \<Rightarrow> tcp_client outcome" where
  "TcpClient_destroy tid unique s = (case cl_connection s of
     Some conn \<Rightarrow> do {
       assert_that (cl_loop s = sc_loop (cl_conns s ! conn));
       let s = (if in_loop_thread tid (cl_loop s) then s\<lparr>cl_detached := insert conn (cl_detached s)\<rparr>
                else client_queue (Client_setCloseCallback conn) s);
       Some (if unique then client_forceClose conn s else s)
     }
   | None \<Rightarrow> Some (client_call (Call_stopAfter 1) (client_call Call_stop s)))"

definition client_exec :: "int \<Rightarrow> client_task \<Rightarrow> tcp_client \<Rightarrow> tcp_client outcome" where
  "client_exec tid t s = (case t of
     Client_connectDestroyed c \<Rightarrow> client_conn life_destroyed tid c s
   | Client_setCloseCallback c \<Rightarrow> Some (s\<lparr>cl_detached := insert c (cl_detached s)\<rparr>)
   | Client_forceCloseInLoop c \<Rightarrow> do {
       assert_that (c < length (cl_conns s));
       if life_open (sc_life (cl_conns s ! c)) then client_handleClose tid c s else Some s
     })"

subsection \<open>Names\<close>

text \<open>
  The name buffer has room for 31 characters: with a peer whose text has 30 characters or more, as IPv6
  addresses can have, the number of the connection is cut off and all connections have one name.
\<close>

lemma TcpClient_name_truncated:
  assumes "30 \<le> length peer"
  shows "snprintf_buf 32 (CHR '':'' # peer @ CHR ''#'' # dec_int i) = CHR '':'' # take 30 peer"
  using assms by (simp add: snprintf_buf_def)

subsection \<open>The life of a client before its destructor\<close>

datatype client_event =
    Cl_newConnection int string
  | Cl_functor
  | Cl_peerClose nat
  | Cl_connect | Cl_disconnect | Cl_stop | Cl_enableRetry
  | Cl_forceClose nat

text \<open>The connector hands a descriptor over only when it was started again after the last connection.\<close>

fun client_enabled :: "client_event \<Rightarrow> tcp_client \<Rightarrow> bool" where
  "client_enabled (Cl_newConnection fd peer) s = (cl_connection s = None \<and> length (cl_conns s) < 2 ^ 31 - 2)"
| "client_enabled Cl_functor s = (cl_queue s \<noteq> [])"
| "client_enabled (Cl_peerClose c) s = (c < length (cl_conns s) \<and> lf_interested (sc_life (cl_conns s ! c)))"
| "client_enabled (Cl_forceClose c) s = (c < length (cl_conns s))"
| "client_enabled _ s = True"

fun client_apply :: "client_event \<Rightarrow> tcp_client \<Rightarrow> tcp_client outcome" where
  "client_apply (Cl_newConnection fd peer) s = TcpClient_newConnection (loop_threadId (cl_loop s)) fd peer s"
| "client_apply Cl_functor s = client_exec (loop_threadId (cl_loop s)) (hd (cl_queue s)) (s\<lparr>cl_queue := tl (cl_queue s)\<rparr>)"
| "client_apply (Cl_peerClose c) s = client_handleClose (loop_threadId (cl_loop s)) c s"
| "client_apply Cl_connect s = Some (TcpClient_connect s)"
| "client_apply Cl_disconnect s = Some (TcpClient_disconnect s)"
| "client_apply Cl_stop s = Some (TcpClient_stop s)"
| "client_apply Cl_enableRetry s = Some (TcpClient_enableRetry s)"
| "client_apply (Cl_forceClose c) s = Some (client_forceClose c s)"

inductive client_reach :: "tcp_client \<Rightarrow> tcp_client \<Rightarrow> bool" for s0 where
  start: "client_reach s0 s0"
| step: "client_reach s0 s \<Longrightarrow> client_enabled ev s \<Longrightarrow> client_apply ev s = Some s' \<Longrightarrow> client_reach s0 s'"

text \<open>A connection is the current one and live, closed with its destruction queued, or gone.\<close>

definition client_phase :: "tcp_client \<Rightarrow> nat \<Rightarrow> bool" where
  "client_phase s c = (let l = sc_life (cl_conns s ! c); d = count_list (cl_queue s) (Client_connectDestroyed c) in
     cl_connection s = Some c \<and> life_live l \<and> d = 0
   \<or> cl_connection s \<noteq> Some c \<and> l = life_closed \<and> d = 1
   \<or> cl_connection s \<noteq> Some c \<and> l = life_gone \<and> d = 0)"

definition client_task_ok :: "nat \<Rightarrow> client_task \<Rightarrow> bool" where
  "client_task_ok n t = (case t of Client_connectDestroyed c \<Rightarrow> c < n | Client_forceCloseInLoop c \<Rightarrow> c < n
     | Client_setCloseCallback c \<Rightarrow> False)"

definition client_inv :: "tcp_client \<Rightarrow> bool" where
  "client_inv s =
     (cl_nextConnId s = int (length (cl_conns s)) + 1 \<and> length (cl_conns s) \<le> 2 ^ 31 - 2 \<and> cl_detached s = {}
    \<and> (\<forall>c. cl_connection s = Some c \<longrightarrow> c < length (cl_conns s))
    \<and> (\<forall>c < length (cl_conns s). sc_loop (cl_conns s ! c) = cl_loop s \<and> client_phase s c)
    \<and> (\<forall>t \<in> set (cl_queue s). client_task_ok (length (cl_conns s)) t))"

text \<open>Changing the life of \<open>c\<close> with the rest of the invariant kept.\<close>

lemma client_touch:
  assumes inv: "client_inv s" and c: "c < length (cl_conns s)"
    and other: "\<And>d. d \<noteq> c \<Longrightarrow> count_list q (Client_connectDestroyed d) = count_list (cl_queue s) (Client_connectDestroyed d)"
    and cur: "\<And>d. d \<noteq> c \<Longrightarrow> (cur = Some d) = (cl_connection s = Some d)"
    and home: "\<And>t. t \<in> set q \<Longrightarrow> t \<in> set (cl_queue s) \<or> t = Client_connectDestroyed c \<or> t = Client_forceCloseInLoop c"
    and phase: "cur = Some c \<and> life_live l \<and> count_list q (Client_connectDestroyed c) = 0
      \<or> cur \<noteq> Some c \<and> l = life_closed \<and> count_list q (Client_connectDestroyed c) = 1
      \<or> cur \<noteq> Some c \<and> l = life_gone \<and> count_list q (Client_connectDestroyed c) = 0"
  shows "client_inv (s\<lparr>cl_conns := (cl_conns s)[c := (cl_conns s ! c)\<lparr>sc_life := l\<rparr>], cl_queue := q, cl_connection := cur\<rparr>)"
    (is "client_inv ?s")
proof -
  have nth: "sc_loop ((cl_conns s)[c := (cl_conns s ! c)\<lparr>sc_life := l\<rparr>] ! d) = sc_loop (cl_conns s ! d)" for d
    using c by (cases "d = c") simp_all
  have "client_phase ?s d" if d: "d < length (cl_conns s)" for d
  proof (cases "d = c")
    case True
    then show ?thesis using phase c by (simp add: client_phase_def Let_def)
  next
    case False
    have "client_phase s d" using inv d by (simp add: client_inv_def)
    then show ?thesis using False cur other by (simp add: client_phase_def Let_def)
  qed
  moreover have "client_task_ok (length (cl_conns s)) t" if "t \<in> set q" for t
    using home[OF that] inv c by (auto simp: client_inv_def client_task_ok_def)
  moreover have "d < length (cl_conns s)" if "cur = Some d" for d
    using that cur c inv by (cases "d = c") (auto simp: client_inv_def)
  ultimately show ?thesis using inv by (simp add: client_inv_def nth)
qed

subsection \<open>Every event keeps the invariant\<close>

lemma client_inv_ignores [simp]:
  "client_inv (s\<lparr>cl_connector := k\<rparr>) = client_inv s" "client_inv (s\<lparr>cl_connect := b\<rparr>) = client_inv s"
  "client_inv (s\<lparr>cl_retry := b\<rparr>) = client_inv s"
  by (simp_all add: client_inv_def client_phase_def)

lemma client_facts:
  assumes "client_inv s" "c < length (cl_conns s)"
  shows "sc_loop (cl_conns s ! c) = cl_loop s" "client_phase s c"
  using assms by (simp_all add: client_inv_def)

lemma client_open_live:
  assumes "client_inv s" "c < length (cl_conns s)" "life_open (sc_life (cl_conns s ! c)) \<or> lf_interested (sc_life (cl_conns s ! c))"
  shows "life_live (sc_life (cl_conns s ! c))" "cl_connection s = Some c" "count_list (cl_queue s) (Client_connectDestroyed c) = 0"
  using client_facts(2)[OF assms(1,2)] assms(3)
  by (auto simp: client_phase_def Let_def life_closed_def life_gone_def life_open_def)

lemma client_upd_order:
  "s\<lparr>cl_queue := q, cl_conns := ks\<rparr> = s\<lparr>cl_conns := ks, cl_queue := q\<rparr>"
  "s\<lparr>cl_connection := m, cl_queue := q\<rparr> = s\<lparr>cl_queue := q, cl_connection := m\<rparr>"
  by simp_all

lemma client_handleClose_inv:
  assumes inv: "client_inv s" and c: "c < length (cl_conns s)" and live: "life_live (sc_life (cl_conns s ! c))"
  shows "\<exists>s'. client_handleClose (loop_threadId (cl_loop s)) c s = Some s' \<and> client_inv s' \<and> cl_connection s' = None
    \<and> cl_connector s' = cl_connector s @ (if cl_retry s \<and> cl_connect s then [Call_restart] else [])"
proof -
  have o: "life_open (sc_life (cl_conns s ! c))" using live by (simp add: life_live_def)
  note l = client_open_live[OF inv c disjI1[OF o]]
  let ?k = "cl_conns s ! c"
  let ?s = "s\<lparr>cl_conns := (cl_conns s)[c := ?k\<lparr>sc_life := life_closed\<rparr>],
      cl_queue := cl_queue s @ [Client_connectDestroyed c], cl_connection := None\<rparr>"
  have inv': "client_inv ?s"
    by (rule client_touch[OF inv c]) (use l in auto)
  have "life_handleClose (sc_life ?k) = Some life_closed" using o by (simp add: life_handleClose_def life_closed_def)
  then have "client_handleClose (loop_threadId (cl_loop s)) c s
      = Some (if cl_retry s \<and> cl_connect s then client_call Call_restart ?s else ?s)"
    using c l(2) client_facts(1)[OF inv c] inv
    by (simp add: client_handleClose_def client_conn_def Let_def TcpClient_removeConnection_def client_queue_def client_call_def
        client_inv_def client_upd_order)
  with inv' show ?thesis by (simp add: client_call_def)
qed

lemma client_pop:
  assumes inv: "client_inv s" and q: "cl_queue s = t # ts" and t: "\<And>d. t \<noteq> Client_connectDestroyed d"
  shows "client_inv (s\<lparr>cl_queue := ts\<rparr>)"
  using inv q t by (auto simp: client_inv_def client_phase_def Let_def)

lemma client_functor_inv:
  assumes inv: "client_inv s" and q: "cl_queue s = t # ts"
  shows "\<exists>s'. client_exec (loop_threadId (cl_loop s)) t (s\<lparr>cl_queue := ts\<rparr>) = Some s' \<and> client_inv s'"
proof (cases t)
  case (Client_connectDestroyed c)
  let ?k = "cl_conns s ! c"
  have c: "c < length (cl_conns s)" using inv q Client_connectDestroyed by (simp add: client_inv_def client_task_ok_def)
  have n: "count_list ts (Client_connectDestroyed c) = 0" "sc_life ?k = life_closed" "cl_connection s \<noteq> Some c"
    using client_facts(2)[OF inv c] q by (auto simp: client_phase_def Let_def Client_connectDestroyed)
  have "client_inv (s\<lparr>cl_conns := (cl_conns s)[c := ?k\<lparr>sc_life := life_gone\<rparr>], cl_queue := ts, cl_connection := cl_connection s\<rparr>)"
    by (rule client_touch[OF inv c]) (use n q in \<open>auto simp: Client_connectDestroyed\<close>)
  then show ?thesis
    using c n(2) client_facts(1)[OF inv c]
    by (simp add: Client_connectDestroyed client_exec_def client_conn_def Let_def life_destroyed_def life_closed_def life_gone_def
        client_upd_order)
next
  case (Client_forceCloseInLoop c)
  let ?s = "s\<lparr>cl_queue := ts\<rparr>"
  have c: "c < length (cl_conns s)" using inv q Client_forceCloseInLoop by (simp add: client_inv_def client_task_ok_def)
  have inv': "client_inv ?s" by (rule client_pop[OF inv q]) (simp add: Client_forceCloseInLoop)
  show ?thesis
  proof (cases "life_open (sc_life (cl_conns s ! c))")
    case True
    then have "life_live (sc_life (cl_conns ?s ! c))" using client_open_live(1)[OF inv c] by simp
    from client_handleClose_inv[OF inv' _ this] c True show ?thesis
      by (auto simp: Client_forceCloseInLoop client_exec_def)
  next
    case False
    then show ?thesis using c inv' by (simp add: Client_forceCloseInLoop client_exec_def)
  qed
next
  case (Client_setCloseCallback c)
  then show ?thesis using inv q by (simp add: client_inv_def client_task_ok_def)
qed

lemma client_life_inv:
  assumes inv: "client_inv s" and c: "c < length (cl_conns s)" and live: "life_live (sc_life (cl_conns s ! c))" "life_live l"
    and q: "q = cl_queue s \<or> q = cl_queue s @ [Client_forceCloseInLoop c]"
  shows "client_inv (s\<lparr>cl_conns := (cl_conns s)[c := (cl_conns s ! c)\<lparr>sc_life := l\<rparr>], cl_queue := q,
    cl_connection := cl_connection s\<rparr>)"
proof -
  have "life_open (sc_life (cl_conns s ! c))" using live(1) by (simp add: life_live_def)
  note l = client_open_live[OF inv c disjI1[OF this]]
  show ?thesis by (rule client_touch[OF inv c]) (use l live(2) q in auto)
qed

lemma client_newConnection_inv:
  assumes inv: "client_inv s" and none: "cl_connection s = None" and room: "length (cl_conns s) < 2 ^ 31 - 2"
  shows "\<exists>s'. TcpClient_newConnection (loop_threadId (cl_loop s)) fd peer s = Some s' \<and> client_inv s'"
proof -
  let ?n = "length (cl_conns s)"
  define k where "k = \<lparr>sc_name = cl_name s @ snprintf_buf 32 (CHR '':'' # peer @ CHR ''#'' # dec_int (cl_nextConnId s)),
      sc_loop = cl_loop s, sc_fd = fd, sc_life = \<lparr>lf_state = kConnected, lf_interested = True, lf_registered = True\<rparr>\<rparr>"
  let ?s = "s\<lparr>cl_nextConnId := cl_nextConnId s + 1, cl_conns := cl_conns s @ [k], cl_connection := Some ?n\<rparr>"
  have lt: "cl_nextConnId s < 2 ^ 31 - 1" using inv room by (simp add: client_inv_def)
  have run: "TcpClient_newConnection (loop_threadId (cl_loop s)) fd peer s = Some ?s"
    using lt by (simp add: TcpClient_newConnection_def Let_def client_conn_def life_established_def life_new_def k_def)
  have zero: "count_list (cl_queue s) (Client_connectDestroyed ?n) = 0"
    using inv by (auto simp: count_list_0_iff client_inv_def client_task_ok_def)
  have "client_phase ?s c" if "c < Suc ?n" for c
  proof (cases "c = ?n")
    case True
    then show ?thesis using zero by (simp add: client_phase_def Let_def k_def life_live_def life_open_def)
  next
    case False
    then have c: "c < ?n" using that by simp
    then show ?thesis using client_facts(2)[OF inv c] none by (auto simp: client_phase_def Let_def nth_append)
  qed
  moreover have "sc_loop (cl_conns ?s ! c) = cl_loop s" if "c < Suc ?n" for c
    using that client_facts(1)[OF inv, of c] by (auto simp: nth_append k_def less_Suc_eq)
  moreover have "client_task_ok (Suc ?n) t" if "t \<in> set (cl_queue s)" for t
    using inv that by (fastforce simp: client_inv_def client_task_ok_def split: client_task.splits)
  moreover have "cl_nextConnId s = int ?n + 1" "cl_detached s = {}" using inv by (simp_all add: client_inv_def)
  ultimately have "client_inv ?s" using room unfolding client_inv_def by simp
  then show ?thesis using run by simp
qed

lemma client_step_inv:
  assumes inv: "client_inv s" and en: "client_enabled ev s"
  shows "\<exists>s'. client_apply ev s = Some s' \<and> client_inv s'"
proof (cases ev)
  case (Cl_newConnection fd peer)
  then show ?thesis using client_newConnection_inv[OF inv] en by simp
next
  case Cl_functor
  with en obtain t ts where "cl_queue s = t # ts" by (cases "cl_queue s") auto
  then show ?thesis using client_functor_inv[OF inv] by (simp add: Cl_functor)
next
  case (Cl_peerClose c)
  with en have c: "c < length (cl_conns s)" "lf_interested (sc_life (cl_conns s ! c))" by simp_all
  from client_handleClose_inv[OF inv c(1) client_open_live(1)[OF inv c(1) disjI2[OF c(2)]]] show ?thesis
    by (auto simp: Cl_peerClose)
next
  case Cl_disconnect
  show ?thesis
  proof (cases "cl_connection s")
    case None
    then show ?thesis using inv by (simp add: Cl_disconnect TcpClient_disconnect_def)
  next
    case (Some c)
    then have c: "c < length (cl_conns s)" using inv by (simp add: client_inv_def)
    have live: "life_live (sc_life (cl_conns s ! c))"
      using client_facts(2)[OF inv c] Some by (auto simp: client_phase_def Let_def)
    then have "life_live (life_shutdown (sc_life (cl_conns s ! c)))" by (auto simp: life_live_def life_shutdown_def life_open_def)
    with client_life_inv[of "s\<lparr>cl_connect := False\<rparr>" c _ "cl_queue s"] inv c live
    have "client_inv (client_life_upd life_shutdown c (s\<lparr>cl_connect := False\<rparr>))" by (simp add: client_life_upd_def)
    then show ?thesis using Some by (simp add: Cl_disconnect TcpClient_disconnect_def)
  qed
next
  case (Cl_forceClose c)
  with en have c: "c < length (cl_conns s)" by simp
  show ?thesis
  proof (cases "life_open (sc_life (cl_conns s ! c))")
    case True
    note live = client_open_live(1)[OF inv c disjI1[OF True]]
    then have "life_live (life_forceClose (sc_life (cl_conns s ! c)))" by (auto simp: life_live_def life_forceClose_def life_open_def)
    from client_life_inv[OF inv c live this disjI2[OF refl]] True show ?thesis
      by (simp add: Cl_forceClose client_forceClose_def client_life_upd_def client_queue_def)
  next
    case False
    then show ?thesis using inv by (simp add: Cl_forceClose client_forceClose_def)
  qed
qed (use inv in \<open>simp_all add: TcpClient_connect_def TcpClient_stop_def TcpClient_enableRetry_def client_call_def\<close>)

lemma client_reach_inv:
  assumes "client_reach (TcpClient_new loop nameArg) s"
  shows "client_inv s"
  using assms
proof induction
  case start
  then show ?case by (simp add: TcpClient_new_def client_inv_def)
next
  case (step s ev s')
  then show ?case using client_step_inv[of s ev] by auto
qed

text \<open>C12: The client and its connection. Along every sequence of descriptors handed over by the connector
  (one at a time), queued functors, a closing peer, and the calls of a user (\<open>connect\<close>, \<open>disconnect\<close>,
  \<open>stop\<close>, \<open>enableRetry\<close>, \<open>forceClose\<close>) no assertion of the client or its connections fails; the only
  connection that is open is the current one; closing it makes the client ask the connector to start
  again exactly when retrying is enabled and the client has not been told to disconnect or stop; and
  once the queue is empty every other connection has been destroyed.\<close>

theorem TcpClient_connection:
  assumes reach: "client_reach (TcpClient_new loop nameArg) s"
  shows "(\<forall>ev. client_enabled ev s \<longrightarrow> client_apply ev s \<noteq> None)
    \<and> (\<forall>c < length (cl_conns s). life_open (sc_life (cl_conns s ! c)) \<longleftrightarrow> cl_connection s = Some c)
    \<and> (\<forall>c s'. cl_connection s = Some c \<and> client_apply (Cl_peerClose c) s = Some s' \<longrightarrow> cl_connection s' = None
         \<and> cl_connector s' = cl_connector s @ (if cl_retry s \<and> cl_connect s then [Call_restart] else []))
    \<and> (cl_queue s = [] \<longrightarrow> (\<forall>c < length (cl_conns s). cl_connection s = Some c \<or> sc_life (cl_conns s ! c) = life_gone))"
proof -
  have inv: "client_inv s" by (rule client_reach_inv[OF reach])
  have phase: "client_phase s c" if "c < length (cl_conns s)" for c using client_facts(2)[OF inv that] .
  have "\<forall>c < length (cl_conns s). life_open (sc_life (cl_conns s ! c)) \<longleftrightarrow> cl_connection s = Some c"
    using phase by (fastforce simp: client_phase_def Let_def life_live_def life_closed_def life_gone_def life_open_def)
  moreover have "cl_connection s' = None
      \<and> cl_connector s' = cl_connector s @ (if cl_retry s \<and> cl_connect s then [Call_restart] else [])"
    if c: "cl_connection s = Some c" and run: "client_apply (Cl_peerClose c) s = Some s'" for c s'
  proof -
    have "c < length (cl_conns s)" using inv c by (simp add: client_inv_def)
    moreover from this have "life_live (sc_life (cl_conns s ! c))" using phase[of c] c by (auto simp: client_phase_def Let_def)
    ultimately show ?thesis using client_handleClose_inv[OF inv, of c] run by auto
  qed
  moreover have "cl_connection s = Some c \<or> sc_life (cl_conns s ! c) = life_gone" if "cl_queue s = []" "c < length (cl_conns s)" for c
    using phase[of c] that by (auto simp: client_phase_def Let_def)
  moreover have "client_apply ev s \<noteq> None" if "client_enabled ev s" for ev using client_step_inv[OF inv that] by auto
  ultimately show ?thesis by blast
qed

lemma client_example_reach:
  fixes L defines "L \<equiv> \<lparr>loop_addr = 0, loop_threadId = 7\<rparr>"
  shows "client_reach (TcpClient_new L ''c'')
    (TcpClient_new L ''c''\<lparr>cl_retry := True, cl_nextConnId := 2, cl_connection := Some 0,
       cl_conns := [\<lparr>sc_name = ''c:10.0.0.1:80#1'', sc_loop = L, sc_fd = 5,
         sc_life = \<lparr>lf_state = kConnected, lf_interested = True, lf_registered = True\<rparr>\<rparr>]\<rparr>)"
  (is "client_reach ?s ?t")
proof -
  have "client_reach ?s (TcpClient_enableRetry ?s)"
    by (rule client_reach.step[where ev = Cl_enableRetry, OF client_reach.start]) simp_all
  moreover have "client_enabled (Cl_newConnection 5 ''10.0.0.1:80'') (TcpClient_enableRetry ?s)"
    by (simp add: TcpClient_enableRetry_def TcpClient_new_def)
  moreover have "client_apply (Cl_newConnection 5 ''10.0.0.1:80'') (TcpClient_enableRetry ?s) = Some ?t"
    unfolding L_def by code_simp
  ultimately show ?thesis by (rule client_reach.step)
qed

theorem TcpClient_connection_witness:
  "\<exists>s s'. client_reach (TcpClient_new \<lparr>loop_addr = 0, loop_threadId = 7\<rparr> ''c'') s \<and> cl_connection s = Some 0
    \<and> client_apply (Cl_peerClose 0) s = Some s' \<and> cl_connection s' = None \<and> cl_connector s' = [Call_restart]"
proof -
  note reach = client_example_reach
  note all = TcpClient_connection[OF reach]
  let ?s = "TcpClient_new \<lparr>loop_addr = 0, loop_threadId = 7\<rparr> ''c''\<lparr>cl_retry := True, cl_nextConnId := 2, cl_connection := Some 0,
       cl_conns := [\<lparr>sc_name = ''c:10.0.0.1:80#1'', sc_loop = \<lparr>loop_addr = 0, loop_threadId = 7\<rparr>, sc_fd = 5,
         sc_life = \<lparr>lf_state = kConnected, lf_interested = True, lf_registered = True\<rparr>\<rparr>]\<rparr>"
  have cur: "cl_connection ?s = Some 0" "cl_connector ?s = []" "cl_retry ?s" "cl_connect ?s" by (simp_all add: TcpClient_new_def)
  have "client_enabled (Cl_peerClose 0) ?s" by simp
  then obtain s' where run: "client_apply (Cl_peerClose 0) ?s = Some s'" using all by blast
  then have "cl_connection s' = None \<and> cl_connector s' = [Call_restart]" using all cur by simp
  with run cur(1) reach show ?thesis by blast
qed

end
