(* ===== verification/Mutex.thy ===== *)
theory Mutex
  imports Prelude
begin

text \<open>
  \<open>dc::MutexLock\<close>, \<open>dc::MutexLockGuard\<close> (\<open>base/mutex.h\<close>) and \<open>dc::Condition\<close> (\<open>base/condition.h\<close>, \<open>base/condition.cc\<close>) over the
  mutexes and condition variables of POSIX threads. A method is the list of the atomic actions it
  performs; threads interleave between any two of them. The monitors of the other theories take a
  critical section as one step; the property of this theory is what allows that.
\<close>

subsection \<open>The lock\<close>

text \<open>\<open>mx_holder\<close> is the thread that holds the POSIX mutex, \<open>mx_tid\<close> the field \<open>m_tid\<close>.\<close>

record mutex_lock =
  mx_holder :: "nat option"
  mx_tid :: int

definition MutexLock_new :: mutex_lock where
  "MutexLock_new = \<lparr>mx_holder = None, mx_tid = 0\<rparr>"

definition MutexLock_destroy :: "mutex_lock \<Rightarrow> unit outcome" where
  "MutexLock_destroy m = do { assert_that (mx_tid m = 0); assert_that (mx_holder m = None) }"

definition MutexLock_isLockedByThisThread :: "int \<Rightarrow> mutex_lock \<Rightarrow> bool" where
  "MutexLock_isLockedByThisThread tid m \<longleftrightarrow> mx_tid m = tid"

definition MutexLock_assertLocked :: "int \<Rightarrow> mutex_lock \<Rightarrow> unit outcome" where
  "MutexLock_assertLocked tid m = assert_that (MutexLock_isLockedByThisThread tid m)"

definition MutexLock_assignTid :: "int \<Rightarrow> mutex_lock \<Rightarrow> mutex_lock" where
  "MutexLock_assignTid tid m = m\<lparr>mx_tid := tid\<rparr>"

definition MutexLock_unassignTid :: "mutex_lock \<Rightarrow> mutex_lock" where
  "MutexLock_unassignTid m = m\<lparr>mx_tid := 0\<rparr>"

subsection \<open>Methods as sequences of atomic actions\<close>

text \<open>
  \<open>A_cond_wait\<close> is the first half of \<open>pthread_cond_wait\<close>, which releases the mutex and blocks at once;
  the thread is then at \<open>A_cond_block\<close> until it is woken and acquires the mutex again.
  \<open>A_timedwait_einval\<close> is a \<open>pthread_cond_timedwait\<close> that fails with \<open>EINVAL\<close>. \<open>A_write f\<close> is a change of
  the data the mutex guards.
\<close>

datatype 'd mutex_action =
    A_mutex_lock | A_mutex_unlock | A_assignTid | A_unassignTid
  | A_cond_wait nat | A_timedwait_einval nat | A_cond_block nat | A_cond_signal nat | A_cond_broadcast nat
  | A_assertLocked | A_write "'d \<Rightarrow> 'd"

definition MutexLock_lock :: "'d mutex_action list" where
  "MutexLock_lock = [A_mutex_lock, A_assignTid]"

definition MutexLock_unlock :: "'d mutex_action list" where
  "MutexLock_unlock = [A_unassignTid, A_mutex_unlock]"

definition UnassignGuard_new :: "'d mutex_action list" where
  "UnassignGuard_new = [A_unassignTid]"

definition UnassignGuard_destroy :: "'d mutex_action list" where
  "UnassignGuard_destroy = [A_assignTid]"

definition MutexLockGuard_new :: "'d mutex_action list" where
  "MutexLockGuard_new = MutexLock_lock"

definition MutexLockGuard_destroy :: "'d mutex_action list" where
  "MutexLockGuard_destroy = MutexLock_unlock"

definition Condition_wait :: "nat \<Rightarrow> 'd mutex_action list" where
  "Condition_wait c = UnassignGuard_new @ [A_cond_wait c] @ UnassignGuard_destroy"

text \<open>
  \<open>waitForSeconds\<close>: \<open>rnd\<close> rounds to the nearest \<open>double\<close>, the conversion to \<open>int64_t\<close> truncates. The
  deadline counts from \<open>now\<close>, the seconds and nanoseconds \<open>clock_gettime\<close> answers.
  \<open>pthread_cond_timedwait\<close> answers \<open>EINVAL\<close> at once, keeping the mutex, when the nanoseconds of the
  deadline are out of range; otherwise it waits as \<open>pthread_cond_wait\<close> does and the deadline can wake it.
\<close>

definition double_to_int64 :: "real \<Rightarrow> int" where
  "double_to_int64 x = (if 0 \<le> x then \<lfloor>x\<rfloor> else \<lceil>x\<rceil>)"

definition waitForSeconds_abstime :: "(real \<Rightarrow> real) \<Rightarrow> int \<times> int \<Rightarrow> real \<Rightarrow> int \<times> int" where
  "waitForSeconds_abstime rnd now seconds = (case now of (tv_sec, tv_nsec) \<Rightarrow>
     let kNanoSecondsPerSecond = 1000000000;
         nanoseconds = double_to_int64 (rnd (seconds * of_int kNanoSecondsPerSecond)) in
     (tv_sec + (tv_nsec + nanoseconds) sdiv kNanoSecondsPerSecond, (tv_nsec + nanoseconds) smod kNanoSecondsPerSecond))"

definition timespec_valid :: "int \<times> int \<Rightarrow> bool" where
  "timespec_valid ts \<longleftrightarrow> 0 \<le> snd ts \<and> snd ts < 1000000000"

definition Condition_waitForSeconds :: "(real \<Rightarrow> real) \<Rightarrow> int \<times> int \<Rightarrow> nat \<Rightarrow> real \<Rightarrow> 'd mutex_action list" where
  "Condition_waitForSeconds rnd now c seconds = UnassignGuard_new
     @ (if timespec_valid (waitForSeconds_abstime rnd now seconds) then [A_cond_wait c] else [A_timedwait_einval c])
     @ UnassignGuard_destroy"

text \<open>
  The conversion to \<open>int64_t\<close> and the sums are defined: within \<open>2 ^ 63\<close> nanoseconds, about 292 years.
\<close>

definition duration_fits :: "(real \<Rightarrow> real) \<Rightarrow> int \<times> int \<Rightarrow> real \<Rightarrow> bool" where
  "duration_fits rnd now seconds \<longleftrightarrow>
     (let nanoseconds = double_to_int64 (rnd (seconds * 1000000000)) in
      - (2 ^ 63) \<le> nanoseconds \<and> nanoseconds < 2 ^ 63 \<and> snd now + nanoseconds < 2 ^ 63
      \<and> fst (waitForSeconds_abstime rnd now seconds) < 2 ^ 63)"

definition Condition_notify :: "nat \<Rightarrow> 'd mutex_action list" where
  "Condition_notify c = [A_cond_signal c]"

definition Condition_notifyAll :: "nat \<Rightarrow> 'd mutex_action list" where
  "Condition_notifyAll c = [A_cond_broadcast c]"

text \<open>
  The deadline is \<open>seconds\<close> after \<open>now\<close>, up to the rounding to nanoseconds, and well formed; with a
  negative duration longer than the running second it is not, unless it is a whole number of seconds,
  and the call returns \<open>false\<close> as if it had been notified, without giving the mutex back.
\<close>

lemma waitForSeconds_total:
  "waitForSeconds_abstime rnd now seconds = (sec, nsec)
    \<Longrightarrow> sec * 1000000000 + nsec = fst now * 1000000000 + snd now + double_to_int64 (rnd (seconds * 1000000000))"
  using sdiv_mult_smod_eq[of "snd now + double_to_int64 (rnd (seconds * 1000000000))" 1000000000]
  by (cases now) (auto simp: waitForSeconds_abstime_def Let_def algebra_simps)

lemma waitForSeconds_deadline:
  assumes "timespec_valid now" "0 \<le> seconds" "\<And>x. 0 \<le> x \<Longrightarrow> 0 \<le> rnd x"
  shows "timespec_valid (waitForSeconds_abstime rnd now seconds)"
proof -
  have "0 \<le> snd now + double_to_int64 (rnd (seconds * 1000000000))"
    using assms by (simp add: timespec_valid_def double_to_int64_def)
  then show ?thesis
    by (cases now) (simp add: waitForSeconds_abstime_def timespec_valid_def signed_modulo_int_def sgn_if Let_def)
qed

lemma waitForSeconds_negative:
  assumes "snd now + double_to_int64 (rnd (seconds * 1000000000)) < 0"
    "\<not> 1000000000 dvd snd now + double_to_int64 (rnd (seconds * 1000000000))"
  shows "Condition_waitForSeconds rnd now c seconds = UnassignGuard_new @ [A_timedwait_einval c] @ UnassignGuard_destroy"
proof -
  let ?n = "snd now + double_to_int64 (rnd (seconds * 1000000000))"
  have "\<bar>?n\<bar> mod 1000000000 \<noteq> 0" using assms(2) by (metis dvd_abs_iff dvd_eq_mod_eq_0)
  then have "0 < \<bar>?n\<bar> mod 1000000000" using pos_mod_sign[of 1000000000 "\<bar>?n\<bar>"] by linarith
  then have "?n smod 1000000000 < 0" using assms(1) by (simp add: signed_modulo_int_def)
  then show ?thesis
    by (cases now) (simp add: Condition_waitForSeconds_def timespec_valid_def waitForSeconds_abstime_def Let_def)
qed

subsection \<open>Threads that share the lock\<close>

text \<open>
  \<open>th_guard\<close> says that the thread is in the scope of a \<open>MutexLockGuard\<close>, \<open>th_pending\<close> is the rest of the
  method it is in, \<open>th_section\<close> the changes it made since it last acquired the mutex. \<open>ms_sections\<close>
  lists the finished sections of all threads in the order in which they gave the mutex back, and
  \<open>ms_einval\<close> the threads whose timed wait failed.
\<close>

record 'd mutex_thread =
  th_guard :: bool
  th_pending :: "'d mutex_action list"
  th_section :: "('d \<Rightarrow> 'd) list"

record 'd mutex_sys =
  ms_mutex :: mutex_lock
  ms_threads :: "'d mutex_thread list"
  ms_data :: 'd
  ms_sections :: "(nat \<times> ('d \<Rightarrow> 'd) list) list"
  ms_einval :: "nat list"

definition mutex_sys_init :: "nat \<Rightarrow> 'd \<Rightarrow> 'd mutex_sys" where
  "mutex_sys_init n d = \<lparr>ms_mutex = MutexLock_new, ms_threads = replicate n \<lparr>th_guard = False, th_pending = [], th_section = []\<rparr>,
     ms_data = d, ms_sections = [], ms_einval = []\<rparr>"

datatype 'd section_call = Call_wait nat | Call_waitForSeconds "real \<Rightarrow> real" "int \<times> int" nat real | Call_notify nat | Call_notifyAll nat | Call_assertLocked | Call_write "'d \<Rightarrow> 'd"

fun call_actions :: "'d section_call \<Rightarrow> 'd mutex_action list" where
  "call_actions (Call_wait c) = Condition_wait c"
| "call_actions (Call_waitForSeconds rnd now c seconds) = Condition_waitForSeconds rnd now c seconds"
| "call_actions (Call_notify c) = Condition_notify c"
| "call_actions (Call_notifyAll c) = Condition_notifyAll c"
| "call_actions Call_assertLocked = [A_assertLocked]"
| "call_actions (Call_write f) = [A_write f]"

fun call_defined :: "'d section_call \<Rightarrow> bool" where
  "call_defined (Call_waitForSeconds rnd now c seconds) = duration_fits rnd now seconds"
| "call_defined _ = True"

definition blocked_on :: "nat \<Rightarrow> 'd mutex_thread \<Rightarrow> bool" where
  "blocked_on c t = (case th_pending t of A_cond_block c' # _ \<Rightarrow> c' = c | _ \<Rightarrow> False)"

text \<open>A woken thread competes for the mutex.\<close>

definition wake_from :: "nat \<Rightarrow> 'd mutex_thread \<Rightarrow> 'd mutex_thread" where
  "wake_from c t = (if blocked_on c t then t\<lparr>th_pending := A_mutex_lock # tl (th_pending t)\<rparr> else t)"

definition upd_thread :: "nat \<Rightarrow> 'd mutex_thread \<Rightarrow> 'd mutex_sys \<Rightarrow> 'd mutex_sys" where
  "upd_thread i t s = s\<lparr>ms_threads := (ms_threads s)[i := t]\<rparr>"

text \<open>Giving the mutex back: only its holder may, and the section of the thread ends.\<close>

definition release_mutex :: "nat \<Rightarrow> 'd mutex_action list \<Rightarrow> 'd mutex_sys \<Rightarrow> 'd mutex_sys outcome" where
  "release_mutex i rest s = do {
     assert_that (mx_holder (ms_mutex s) = Some i);
     let t = ms_threads s ! i;
     Some (upd_thread i (t\<lparr>th_pending := rest, th_section := []\<rparr>)
       (s\<lparr>ms_mutex := (ms_mutex s)\<lparr>mx_holder := None\<rparr>, ms_sections := ms_sections s @ [(i, th_section t)]\<rparr>))
   }"

text \<open>
  One action of thread \<open>i\<close>, whose thread id is \<open>tid\<close>; \<open>rest\<close> is what its method does afterwards and
  \<open>choice\<close> the waiter that a \<open>pthread_cond_signal\<close> wakes.
\<close>

fun mutex_act :: "int \<Rightarrow> nat \<Rightarrow> nat option \<Rightarrow> 'd mutex_action \<Rightarrow> 'd mutex_action list \<Rightarrow> 'd mutex_sys \<Rightarrow> 'd mutex_sys outcome" where
  "mutex_act tid i choice A_mutex_lock rest s =
     Some (upd_thread i ((ms_threads s ! i)\<lparr>th_pending := rest\<rparr>) (s\<lparr>ms_mutex := (ms_mutex s)\<lparr>mx_holder := Some i\<rparr>\<rparr>))"
| "mutex_act tid i choice A_mutex_unlock rest s = release_mutex i rest s"
| "mutex_act tid i choice A_assignTid rest s =
     Some (upd_thread i ((ms_threads s ! i)\<lparr>th_pending := rest\<rparr>) (s\<lparr>ms_mutex := MutexLock_assignTid tid (ms_mutex s)\<rparr>))"
| "mutex_act tid i choice A_unassignTid rest s =
     Some (upd_thread i ((ms_threads s ! i)\<lparr>th_pending := rest\<rparr>) (s\<lparr>ms_mutex := MutexLock_unassignTid (ms_mutex s)\<rparr>))"
| "mutex_act tid i choice (A_cond_wait c) rest s = release_mutex i (A_cond_block c # rest) s"
| "mutex_act tid i choice (A_timedwait_einval c) rest s =
     Some (upd_thread i ((ms_threads s ! i)\<lparr>th_pending := rest\<rparr>) (s\<lparr>ms_einval := ms_einval s @ [i]\<rparr>))"
| "mutex_act tid i choice (A_cond_block c) rest s = Some (upd_thread i ((ms_threads s ! i)\<lparr>th_pending := A_mutex_lock # rest\<rparr>) s)"
| "mutex_act tid i choice (A_cond_signal c) rest s =
     (let s = upd_thread i ((ms_threads s ! i)\<lparr>th_pending := rest\<rparr>) s in
      Some (case choice of None \<Rightarrow> s | Some j \<Rightarrow> upd_thread j (wake_from c (ms_threads s ! j)) s))"
| "mutex_act tid i choice (A_cond_broadcast c) rest s =
     (let s = upd_thread i ((ms_threads s ! i)\<lparr>th_pending := rest\<rparr>) s in
      Some (s\<lparr>ms_threads := map (wake_from c) (ms_threads s)\<rparr>))"
| "mutex_act tid i choice A_assertLocked rest s = do {
     MutexLock_assertLocked tid (ms_mutex s);
     Some (upd_thread i ((ms_threads s ! i)\<lparr>th_pending := rest\<rparr>) s)
   }"
| "mutex_act tid i choice (A_write f) rest s =
     (let t = ms_threads s ! i in
      Some (upd_thread i (t\<lparr>th_pending := rest, th_section := th_section t @ [f]\<rparr>) (s\<lparr>ms_data := f (ms_data s)\<rparr>)))"

text \<open>Acquiring the mutex blocks while it is held; a signal wakes a waiter if there is one.\<close>

fun mutex_ready :: "nat option \<Rightarrow> 'd mutex_action \<Rightarrow> 'd mutex_sys \<Rightarrow> bool" where
  "mutex_ready choice A_mutex_lock s = (mx_holder (ms_mutex s) = None)"
| "mutex_ready choice (A_cond_signal c) s = (case choice of
     None \<Rightarrow> \<not> list_ex (blocked_on c) (ms_threads s)
   | Some j \<Rightarrow> j < length (ms_threads s) \<and> blocked_on c (ms_threads s ! j))"
| "mutex_ready choice _ s = True"

text \<open>
  A thread enters a section, calls something in it, leaves it, or performs the next action of the
  method it is in; at \<open>A_cond_block\<close> that is a spurious wake-up or the deadline.
\<close>

inductive mutex_step :: "int list \<Rightarrow> 'd mutex_sys \<Rightarrow> 'd mutex_sys \<Rightarrow> bool" for tids where
  enter: "i < length (ms_threads s) \<Longrightarrow> th_pending (ms_threads s ! i) = [] \<Longrightarrow> \<not> th_guard (ms_threads s ! i)
    \<Longrightarrow> mutex_step tids s (upd_thread i ((ms_threads s ! i)\<lparr>th_guard := True, th_pending := MutexLockGuard_new\<rparr>) s)"
| call: "i < length (ms_threads s) \<Longrightarrow> th_pending (ms_threads s ! i) = [] \<Longrightarrow> th_guard (ms_threads s ! i)
    \<Longrightarrow> call_defined c \<Longrightarrow> mutex_step tids s (upd_thread i ((ms_threads s ! i)\<lparr>th_pending := call_actions c\<rparr>) s)"
| leave: "i < length (ms_threads s) \<Longrightarrow> th_pending (ms_threads s ! i) = [] \<Longrightarrow> th_guard (ms_threads s ! i)
    \<Longrightarrow> mutex_step tids s (upd_thread i ((ms_threads s ! i)\<lparr>th_guard := False, th_pending := MutexLockGuard_destroy\<rparr>) s)"
| act: "i < length (ms_threads s) \<Longrightarrow> th_pending (ms_threads s ! i) = a # rest \<Longrightarrow> mutex_ready choice a s
    \<Longrightarrow> mutex_act (tids ! i) i choice a rest s = Some s' \<Longrightarrow> mutex_step tids s s'"

inductive mutex_reach :: "int list \<Rightarrow> 'd mutex_sys \<Rightarrow> 'd mutex_sys \<Rightarrow> bool" for tids s0 where
  start: "mutex_reach tids s0 s0"
| step: "mutex_reach tids s0 s \<Longrightarrow> mutex_step tids s s' \<Longrightarrow> mutex_reach tids s0 s'"

subsection \<open>The invariant\<close>

text \<open>Where a thread can be, whether it holds the mutex there, and whether \<open>m_tid\<close> names it.\<close>

definition thread_form :: "'d mutex_thread \<Rightarrow> bool" where
  "thread_form t = (if th_guard t
     then th_pending t \<in> {[], [A_mutex_lock, A_assignTid], [A_assignTid], [A_assertLocked]}
       \<or> (\<exists>c. th_pending t \<in> {[A_unassignTid, A_cond_wait c, A_assignTid], [A_cond_wait c, A_assignTid], [A_cond_block c, A_assignTid],
            [A_unassignTid, A_timedwait_einval c, A_assignTid], [A_timedwait_einval c, A_assignTid], [A_cond_signal c], [A_cond_broadcast c]})
       \<or> (\<exists>f. th_pending t = [A_write f])
     else th_pending t \<in> {[], [A_unassignTid, A_mutex_unlock], [A_mutex_unlock]})"

definition thread_holds :: "'d mutex_thread \<Rightarrow> bool" where
  "thread_holds t = (case th_pending t of [] \<Rightarrow> th_guard t | A_mutex_lock # _ \<Rightarrow> False | A_cond_block _ # _ \<Rightarrow> False | _ \<Rightarrow> True)"

definition thread_named :: "'d mutex_thread \<Rightarrow> bool" where
  "thread_named t = (case th_pending t of [] \<Rightarrow> th_guard t | A_mutex_lock # _ \<Rightarrow> False | A_cond_block _ # _ \<Rightarrow> False
     | A_assignTid # _ \<Rightarrow> False | A_cond_wait _ # _ \<Rightarrow> False | A_timedwait_einval _ # _ \<Rightarrow> False | A_mutex_unlock # _ \<Rightarrow> False | _ \<Rightarrow> True)"

definition run_section :: "('d \<Rightarrow> 'd) list \<Rightarrow> 'd \<Rightarrow> 'd" where
  "run_section fs d = fold (\<lambda>f. f) fs d"

definition run_sections :: "(nat \<times> ('d \<Rightarrow> 'd) list) list \<Rightarrow> 'd \<Rightarrow> 'd" where
  "run_sections ss d = fold (\<lambda>(i, fs). run_section fs) ss d"

definition current_section :: "'d mutex_sys \<Rightarrow> ('d \<Rightarrow> 'd) list" where
  "current_section s = (case mx_holder (ms_mutex s) of None \<Rightarrow> [] | Some i \<Rightarrow> th_section (ms_threads s ! i))"

definition mutex_inv :: "int list \<Rightarrow> 'd \<Rightarrow> 'd mutex_sys \<Rightarrow> bool" where
  "mutex_inv tids d s =
     ((\<forall>i < length (ms_threads s). thread_form (ms_threads s ! i)
         \<and> (thread_holds (ms_threads s ! i) \<longleftrightarrow> mx_holder (ms_mutex s) = Some i)
         \<and> (mx_holder (ms_mutex s) \<noteq> Some i \<longrightarrow> th_section (ms_threads s ! i) = []))
    \<and> (\<forall>i. mx_holder (ms_mutex s) = Some i \<longrightarrow> i < length (ms_threads s))
    \<and> mx_tid (ms_mutex s) = (case mx_holder (ms_mutex s) of None \<Rightarrow> 0
         | Some i \<Rightarrow> if thread_named (ms_threads s ! i) then tids ! i else 0)
    \<and> ms_data s = run_section (current_section s) (run_sections (ms_sections s) d))"

lemma mutex_inv_einval [simp]: "mutex_inv tids d (s\<lparr>ms_einval := e\<rparr>) = mutex_inv tids d s"
  by (simp add: mutex_inv_def current_section_def cong: option.case_cong)

lemma named_holds: "thread_named t \<Longrightarrow> thread_holds t"
  by (auto simp: thread_named_def thread_holds_def split: list.splits mutex_action.splits)

text \<open>One thread moves and the mutex passes accordingly.\<close>

lemma mutex_inv_thread:
  assumes inv: "mutex_inv tids d s" and i: "i < length (ms_threads s)" and form: "thread_form t"
    and holder: "mx_holder m = (if thread_holds t then Some i else if mx_holder (ms_mutex s) = Some i then None else mx_holder (ms_mutex s))"
    and free: "thread_holds t \<Longrightarrow> mx_holder (ms_mutex s) \<in> {None, Some i}"
    and name: "mx_tid m = (if thread_named t then tids ! i else if mx_holder (ms_mutex s) = Some i then 0 else mx_tid (ms_mutex s))"
    and sec: "\<not> thread_holds t \<Longrightarrow> th_section t = []"
    and data: "e = run_section (if thread_holds t then th_section t
        else if mx_holder (ms_mutex s) = Some i then [] else current_section s) (run_sections ss d)"
  shows "mutex_inv tids d (s\<lparr>ms_mutex := m, ms_threads := (ms_threads s)[i := t], ms_data := e, ms_sections := ss\<rparr>)"
proof -
  let ?ts = "(ms_threads s)[i := t]"
  have each: "thread_form (?ts ! j) \<and> (thread_holds (?ts ! j) \<longleftrightarrow> mx_holder m = Some j)
      \<and> (mx_holder m \<noteq> Some j \<longrightarrow> th_section (?ts ! j) = [])" if "j < length (ms_threads s)" for j
  proof (cases "j = i")
    case True
    then show ?thesis using i form holder sec by auto
  next
    case False
    have "thread_form (ms_threads s ! j)" "thread_holds (ms_threads s ! j) \<longleftrightarrow> mx_holder (ms_mutex s) = Some j"
      "mx_holder (ms_mutex s) \<noteq> Some j \<longrightarrow> th_section (ms_threads s ! j) = []"
      using inv that by (simp_all add: mutex_inv_def)
    then show ?thesis using False holder free by auto
  qed
  have old: "\<forall>j. mx_holder (ms_mutex s) = Some j \<longrightarrow> j < length (ms_threads s)"
    "mx_tid (ms_mutex s) = (case mx_holder (ms_mutex s) of None \<Rightarrow> 0 | Some i \<Rightarrow> if thread_named (ms_threads s ! i) then tids ! i else 0)"
    using inv by (simp_all add: mutex_inv_def)
  have "mx_tid m = (case mx_holder m of None \<Rightarrow> 0 | Some j \<Rightarrow> if thread_named (?ts ! j) then tids ! j else 0)"
    using holder name old free i named_holds[of t] by (auto split: option.splits)
  moreover have "e = run_section (case mx_holder m of None \<Rightarrow> [] | Some j \<Rightarrow> th_section (?ts ! j)) (run_sections ss d)"
    using holder data i by (auto simp: current_section_def split: option.splits)
  moreover have "\<forall>j. mx_holder m = Some j \<longrightarrow> j < length (ms_threads s)" using holder old(1) i by auto
  ultimately show ?thesis using each by (simp add: mutex_inv_def current_section_def cong: option.case_cong)
qed

subsection \<open>Every action keeps it\<close>

lemma wake_from_same:
  assumes "thread_form t"
  shows "thread_form (wake_from c t) \<and> thread_holds (wake_from c t) = thread_holds t \<and> thread_named (wake_from c t) = thread_named t
    \<and> th_section (wake_from c t) = th_section t"
proof (cases "blocked_on c t")
  case True
  then have "th_guard t" "th_pending t = [A_cond_block c, A_assignTid]"
    using assms by (auto simp: blocked_on_def thread_form_def split: list.splits mutex_action.splits if_splits)
  then show ?thesis using True by (simp add: wake_from_def thread_form_def thread_holds_def thread_named_def)
qed (use assms in \<open>simp add: wake_from_def\<close>)

lemma mutex_inv_wake:
  assumes inv: "mutex_inv tids d s" and len: "length ts = length (ms_threads s)"
    and each: "\<And>j. j < length ts \<Longrightarrow> ts ! j = ms_threads s ! j \<or> ts ! j = wake_from c (ms_threads s ! j)"
  shows "mutex_inv tids d (s\<lparr>ms_threads := ts\<rparr>)"
proof -
  have "thread_form (ts ! j)" "thread_holds (ts ! j) = thread_holds (ms_threads s ! j)"
    "thread_named (ts ! j) = thread_named (ms_threads s ! j)" "th_section (ts ! j) = th_section (ms_threads s ! j)"
    if "j < length (ms_threads s)" for j
    using each[of j] wake_from_same[of "ms_threads s ! j" c] inv that len by (auto simp: mutex_inv_def)
  then show ?thesis using inv len
    by (auto simp: mutex_inv_def current_section_def split: option.splits)
qed

lemma run_sections_snoc: "run_sections (ss @ [(i, fs)]) d = run_section fs (run_sections ss d)"
  by (simp add: run_sections_def)

lemma run_section_snoc: "run_section (fs @ [f]) d = f (run_section fs d)"
  by (simp add: run_section_def)

lemma run_section_Nil [simp]: "run_section [] d = d"
  by (simp add: run_section_def)

lemma mutex_inv_facts:
  assumes "mutex_inv tids d s" "i < length (ms_threads s)"
  shows "thread_form (ms_threads s ! i)" "thread_holds (ms_threads s ! i) \<longleftrightarrow> mx_holder (ms_mutex s) = Some i"
    "mx_holder (ms_mutex s) \<noteq> Some i \<Longrightarrow> th_section (ms_threads s ! i) = []"
    "ms_data s = run_section (current_section s) (run_sections (ms_sections s) d)"
    "mx_tid (ms_mutex s) = (case mx_holder (ms_mutex s) of None \<Rightarrow> 0 | Some i \<Rightarrow> if thread_named (ms_threads s ! i) then tids ! i else 0)"
  using assms by (simp_all add: mutex_inv_def)

lemma mutex_upd_order:
  "s\<lparr>ms_sections := a, ms_threads := ts\<rparr> = s\<lparr>ms_threads := ts, ms_sections := a\<rparr>"
  "s\<lparr>ms_data := e, ms_threads := ts\<rparr> = s\<lparr>ms_threads := ts, ms_data := e\<rparr>"
  "s\<lparr>ms_einval := es, ms_threads := ts\<rparr> = s\<lparr>ms_threads := ts, ms_einval := es\<rparr>"
  by simp_all

text \<open>The shape of a thread's pending actions decides what it may do next.\<close>

lemma mutex_release_inv:
  assumes inv: "mutex_inv tids d s" and i: "i < length (ms_threads s)" and h: "thread_holds (ms_threads s ! i)"
    and unnamed: "\<not> thread_named (ms_threads s ! i)"
    and t: "thread_form ((ms_threads s ! i)\<lparr>th_pending := rest, th_section := []\<rparr>)"
      "\<not> thread_holds ((ms_threads s ! i)\<lparr>th_pending := rest, th_section := []\<rparr>)"
  shows "\<exists>s'. release_mutex i rest s = Some s' \<and> mutex_inv tids d s'"
proof -
  note f = mutex_inv_facts[OF inv i]
  have hold: "mx_holder (ms_mutex s) = Some i" using f(2) h by simp
  have "\<not> thread_named ((ms_threads s ! i)\<lparr>th_pending := rest, th_section := []\<rparr>)" using named_holds t(2) by blast
  then have "mutex_inv tids d (s\<lparr>ms_mutex := (ms_mutex s)\<lparr>mx_holder := None\<rparr>,
      ms_threads := (ms_threads s)[i := (ms_threads s ! i)\<lparr>th_pending := rest, th_section := []\<rparr>],
      ms_data := ms_data s, ms_sections := ms_sections s @ [(i, th_section (ms_threads s ! i))]\<rparr>)"
    using t hold unnamed f(4,5)
    by (intro mutex_inv_thread[OF inv i]) (simp_all add: run_sections_snoc current_section_def)
  then show ?thesis using hold by (simp add: release_mutex_def upd_thread_def Let_def mutex_upd_order)
qed

lemma mutex_simple_inv:
  assumes inv: "mutex_inv tids d s" and i: "i < length (ms_threads s)"
    and t: "thread_form t" "thread_holds t = thread_holds (ms_threads s ! i)" "th_section t = th_section (ms_threads s ! i)"
    and name: "mx_holder m = mx_holder (ms_mutex s)"
      "mx_tid m = (if thread_named t then tids ! i else if thread_holds t then 0 else mx_tid (ms_mutex s))"
  shows "mutex_inv tids d (s\<lparr>ms_mutex := m, ms_threads := (ms_threads s)[i := t]\<rparr>)"
proof -
  note f = mutex_inv_facts[OF inv i]
  have "mutex_inv tids d (s\<lparr>ms_mutex := m, ms_threads := (ms_threads s)[i := t], ms_data := ms_data s, ms_sections := ms_sections s\<rparr>)"
    using t name f named_holds[of t]
    by (intro mutex_inv_thread[OF inv i]) (auto simp: current_section_def split: if_splits)
  then show ?thesis by simp
qed

lemmas thread_shape = thread_form_def thread_holds_def thread_named_def

text \<open>An action that leaves the mutex with its holder.\<close>

lemma mutex_quiet_inv:
  assumes inv: "mutex_inv tids d s" and i: "i < length (ms_threads s)" and pend: "th_pending (ms_threads s ! i) = a # rest"
    and t: "thread_form ((ms_threads s ! i)\<lparr>th_pending := q\<rparr>)"
      "thread_holds ((ms_threads s ! i)\<lparr>th_pending := q\<rparr>) = thread_holds (ms_threads s ! i)"
      "thread_named ((ms_threads s ! i)\<lparr>th_pending := q\<rparr>) = thread_named (ms_threads s ! i)"
  shows "mutex_inv tids d (upd_thread i ((ms_threads s ! i)\<lparr>th_pending := q\<rparr>) s)"
proof -
  note f = mutex_inv_facts[OF inv i]
  have "mx_tid (ms_mutex s) = (if thread_named (ms_threads s ! i) then tids ! i
      else if thread_holds (ms_threads s ! i) then 0 else mx_tid (ms_mutex s))"
    using f(2,5) named_holds[of "ms_threads s ! i"] by (auto split: option.splits)
  then have "mutex_inv tids d (s\<lparr>ms_mutex := ms_mutex s, ms_threads := (ms_threads s)[i := (ms_threads s ! i)\<lparr>th_pending := q\<rparr>]\<rparr>)"
    using t by (intro mutex_simple_inv[OF inv i]) (auto split: if_splits)
  then show ?thesis by (simp add: upd_thread_def)
qed

lemma mutex_act_inv:
  assumes inv: "mutex_inv tids d s" and i: "i < length (ms_threads s)" and pend: "th_pending (ms_threads s ! i) = a # rest"
    and ready: "mutex_ready choice a s"
  shows "\<exists>s'. mutex_act (tids ! i) i choice a rest s = Some s' \<and> mutex_inv tids d s'"
proof -
  note f = mutex_inv_facts[OF inv i]
  note form = f(1)[unfolded thread_form_def pend]
  let ?t = "ms_threads s ! i"
  note upd = upd_thread_def MutexLock_assignTid_def MutexLock_unassignTid_def
  show ?thesis
  proof (cases a)
    case A_mutex_lock
    then have free: "mx_holder (ms_mutex s) = None" and rest: "rest = [A_assignTid]" "th_guard ?t"
      using ready form by (auto split: if_splits)
    have "mutex_inv tids d (s\<lparr>ms_mutex := (ms_mutex s)\<lparr>mx_holder := Some i\<rparr>, ms_threads := (ms_threads s)[i := ?t\<lparr>th_pending := rest\<rparr>],
        ms_data := ms_data s, ms_sections := ms_sections s\<rparr>)"
      by (rule mutex_inv_thread[OF inv i]) (use free rest f in \<open>simp_all add: thread_shape current_section_def\<close>)
    then show ?thesis by (simp add: A_mutex_lock upd)
  next
    case A_mutex_unlock
    then have "rest = []" "\<not> th_guard ?t" using form by (auto split: if_splits)
    then show ?thesis using mutex_release_inv[OF inv i, of rest] by (simp add: A_mutex_unlock pend thread_shape)
  next
    case A_assignTid
    then have rest: "rest = []" "th_guard ?t" using form by (auto split: if_splits)
    have "mutex_inv tids d (s\<lparr>ms_mutex := MutexLock_assignTid (tids ! i) (ms_mutex s), ms_threads := (ms_threads s)[i := ?t\<lparr>th_pending := rest\<rparr>]\<rparr>)"
      by (rule mutex_simple_inv[OF inv i]) (use rest in \<open>simp_all add: thread_shape pend A_assignTid MutexLock_assignTid_def\<close>)
    then show ?thesis by (simp add: A_assignTid upd)
  next
    case A_unassignTid
    then have rest: "th_guard ?t \<and> (\<exists>c. rest = [A_cond_wait c, A_assignTid])
        \<or> th_guard ?t \<and> (\<exists>c. rest = [A_timedwait_einval c, A_assignTid]) \<or> \<not> th_guard ?t \<and> rest = [A_mutex_unlock]"
      using form by (auto split: if_splits)
    have "mutex_inv tids d (s\<lparr>ms_mutex := MutexLock_unassignTid (ms_mutex s), ms_threads := (ms_threads s)[i := ?t\<lparr>th_pending := rest\<rparr>]\<rparr>)"
      by (rule mutex_simple_inv[OF inv i]) (use rest in \<open>auto simp: thread_shape pend A_unassignTid MutexLock_unassignTid_def\<close>)
    then show ?thesis by (simp add: A_unassignTid upd)
  next
    case (A_cond_wait c)
    then have "rest = [A_assignTid]" "th_guard ?t" using form by (auto split: if_splits)
    then show ?thesis using mutex_release_inv[OF inv i, of "A_cond_block c # rest"] by (simp add: A_cond_wait pend thread_shape)
  next
    case (A_timedwait_einval c)
    then have rest: "rest = [A_assignTid]" "th_guard ?t" using form by (auto split: if_splits)
    have "mutex_inv tids d (upd_thread i (?t\<lparr>th_pending := rest\<rparr>) s)"
      by (rule mutex_quiet_inv[OF inv i pend]) (use rest in \<open>simp_all add: A_timedwait_einval pend thread_shape\<close>)
    then show ?thesis by (simp add: A_timedwait_einval upd_thread_def mutex_upd_order)
  next
    case (A_cond_block c)
    then have "rest = [A_assignTid]" "th_guard ?t" using form by (auto split: if_splits)
    then show ?thesis using mutex_quiet_inv[OF inv i pend, of "A_mutex_lock # rest"] by (simp add: A_cond_block pend thread_shape)
  next
    case (A_cond_signal c)
    then have rest: "rest = []" "th_guard ?t" using form by (auto split: if_splits)
    let ?s = "upd_thread i (?t\<lparr>th_pending := rest\<rparr>) s"
    have inv': "mutex_inv tids d ?s"
      by (rule mutex_quiet_inv[OF inv i pend]) (use rest in \<open>simp_all add: A_cond_signal pend thread_shape\<close>)
    have "mutex_inv tids d (?s\<lparr>ms_threads := (ms_threads ?s)[j := wake_from c (ms_threads ?s ! j)]\<rparr>)" for j
      by (rule mutex_inv_wake[OF inv', of _ c]) (simp, metis length_list_update nth_list_update_eq nth_list_update_neq)
    with inv' show ?thesis by (cases choice) (simp_all add: A_cond_signal upd_thread_def Let_def)
  next
    case (A_cond_broadcast c)
    then have rest: "rest = []" "th_guard ?t" using form by (auto split: if_splits)
    let ?s = "upd_thread i (?t\<lparr>th_pending := rest\<rparr>) s"
    have inv': "mutex_inv tids d ?s"
      by (rule mutex_quiet_inv[OF inv i pend]) (use rest in \<open>simp_all add: A_cond_broadcast pend thread_shape\<close>)
    have "mutex_inv tids d (?s\<lparr>ms_threads := map (wake_from c) (ms_threads ?s)\<rparr>)"
      by (rule mutex_inv_wake[OF inv', of _ c]) simp_all
    then show ?thesis by (simp add: A_cond_broadcast Let_def)
  next
    case A_assertLocked
    then have rest: "rest = []" "th_guard ?t" using form by (auto split: if_splits)
    have "mx_holder (ms_mutex s) = Some i" using f(2) by (simp add: thread_holds_def pend A_assertLocked)
    then have "mx_tid (ms_mutex s) = tids ! i" using f(5) by (simp add: thread_named_def pend A_assertLocked)
    moreover have "mutex_inv tids d (upd_thread i (?t\<lparr>th_pending := rest\<rparr>) s)"
      by (rule mutex_quiet_inv[OF inv i pend]) (use rest in \<open>simp_all add: A_assertLocked pend thread_shape\<close>)
    ultimately show ?thesis by (simp add: A_assertLocked MutexLock_assertLocked_def MutexLock_isLockedByThisThread_def)
  next
    case (A_write g)
    then have rest: "rest = []" "th_guard ?t" using form by (auto split: if_splits)
    have hold: "mx_holder (ms_mutex s) = Some i" using f(2) by (simp add: thread_holds_def pend A_write)
    have "mutex_inv tids d (s\<lparr>ms_mutex := ms_mutex s, ms_threads := (ms_threads s)[i := ?t\<lparr>th_pending := rest, th_section := th_section ?t @ [g]\<rparr>],
        ms_data := g (ms_data s), ms_sections := ms_sections s\<rparr>)"
      by (rule mutex_inv_thread[OF inv i])
        (use hold rest f(4,5) in \<open>simp_all add: thread_shape current_section_def run_section_snoc pend A_write\<close>)
    then show ?thesis by (simp add: A_write upd_thread_def Let_def mutex_upd_order)
  qed
qed

lemma mutex_step_inv:
  assumes "mutex_step tids s s'" "mutex_inv tids d s"
  shows "mutex_inv tids d s'"
  using assms(1)
proof cases
  case (enter i)
  have "mutex_inv tids d (s\<lparr>ms_mutex := ms_mutex s,
      ms_threads := (ms_threads s)[i := (ms_threads s ! i)\<lparr>th_guard := True, th_pending := MutexLockGuard_new\<rparr>]\<rparr>)"
    by (rule mutex_simple_inv[OF assms(2) enter(2)])
      (use enter(3,4) in \<open>simp_all add: thread_shape MutexLockGuard_new_def MutexLock_lock_def\<close>)
  then show ?thesis by (simp add: enter(1) upd_thread_def)
next
  case (call i c)
  note f = mutex_inv_facts[OF assms(2) call(2)]
  have hold: "mx_holder (ms_mutex s) = Some i" using f(2) call(3,4) by (simp add: thread_holds_def)
  have "mutex_inv tids d (s\<lparr>ms_mutex := ms_mutex s, ms_threads := (ms_threads s)[i := (ms_threads s ! i)\<lparr>th_pending := call_actions c\<rparr>]\<rparr>)"
    by (rule mutex_simple_inv[OF assms(2) call(2)]; cases c)
      (use call(3,4) f(5) hold in \<open>simp_all add: thread_shape Condition_wait_def Condition_waitForSeconds_def Condition_notify_def Condition_notifyAll_def
        UnassignGuard_new_def UnassignGuard_destroy_def\<close>)
  then show ?thesis by (simp add: call(1) upd_thread_def)
next
  case (leave i)
  note f = mutex_inv_facts[OF assms(2) leave(2)]
  have hold: "mx_holder (ms_mutex s) = Some i" using f(2) leave(3,4) by (simp add: thread_holds_def)
  have "mutex_inv tids d (s\<lparr>ms_mutex := ms_mutex s,
      ms_threads := (ms_threads s)[i := (ms_threads s ! i)\<lparr>th_guard := False, th_pending := MutexLockGuard_destroy\<rparr>]\<rparr>)"
    by (rule mutex_simple_inv[OF assms(2) leave(2)])
      (use leave(3,4) f(5) hold in \<open>simp_all add: thread_shape MutexLockGuard_destroy_def MutexLock_unlock_def\<close>)
  then show ?thesis by (simp add: leave(1) upd_thread_def)
next
  case (act i a rest choice)
  then show ?thesis using mutex_act_inv[OF assms(2) act(1,2,3)] by auto
qed

lemma mutex_act_threads: "mutex_act tid i choice a rest s = Some s' \<Longrightarrow> length (ms_threads s') = length (ms_threads s)"
  by (cases a) (auto simp: upd_thread_def release_mutex_def MutexLock_assertLocked_def Let_def split: option.splits)

lemma mutex_step_threads: "mutex_step tids s s' \<Longrightarrow> length (ms_threads s') = length (ms_threads s)"
  by (induction rule: mutex_step.induct) (auto simp: upd_thread_def dest: mutex_act_threads)

lemma mutex_reach_inv:
  assumes "mutex_reach tids (mutex_sys_init n d) s"
  shows "mutex_inv tids d s \<and> length (ms_threads s) = n"
  using assms
proof induction
  case start
  then show ?case by (simp add: mutex_sys_init_def mutex_inv_def MutexLock_new_def thread_shape current_section_def run_sections_def)
next
  case (step s s')
  then show ?case using mutex_step_inv mutex_step_threads by metis
qed

subsection \<open>Property\<close>

text \<open>C23: Critical sections are atomic. However the threads interleave, between any two actions of
  \<open>lock\<close>, \<open>unlock\<close>, \<open>wait\<close>, \<open>waitForSeconds\<close>, \<open>notify\<close> and \<open>notifyAll\<close> and with spurious wake-ups, the guarded data is what the
  finished sections give one after the other, followed by the section of the thread that holds the
  mutex: no section sees or overwrites a part of another. \<open>isLockedByThisThread\<close> is true only in the
  thread that holds the mutex, and always inside a guard, so no assertion fails and none of the calls
  under \<open>MCHECK\<close> (lock, unlock, wait, signal, broadcast) returns an error; the holder never blocks; and a
  lock nobody uses can be destroyed. The one POSIX call that can fail is the timed wait of
  \<open>waitForSeconds\<close>, for a negative duration that makes the nanoseconds of the deadline negative: it
  answers \<open>EINVAL\<close> at once, the thread keeps the mutex and the data is untouched. Durations are within
  the range of \<open>int64_t\<close> nanoseconds.\<close>

theorem MutexLock_sections_serial:
  assumes tids: "length tids = n" "distinct tids" "\<forall>t \<in> set tids. 0 < t"
    and reach: "mutex_reach tids (mutex_sys_init n d) s"
  shows "ms_data s = run_section (current_section s) (run_sections (ms_sections s) d)
    \<and> (\<forall>i < n. MutexLock_isLockedByThisThread (tids ! i) (ms_mutex s) \<longrightarrow> mx_holder (ms_mutex s) = Some i)
    \<and> (\<forall>i < n. th_guard (ms_threads s ! i) \<and> th_pending (ms_threads s ! i) = []
         \<longrightarrow> MutexLock_isLockedByThisThread (tids ! i) (ms_mutex s))
    \<and> (\<forall>i < n. \<forall>a rest choice. th_pending (ms_threads s ! i) = a # rest \<and> mutex_ready choice a s
         \<longrightarrow> mutex_act (tids ! i) i choice a rest s \<noteq> None)
    \<and> (\<forall>i < n. \<forall>c rest. th_pending (ms_threads s ! i) = A_timedwait_einval c # rest \<longrightarrow>
         (\<exists>s'. mutex_act (tids ! i) i None (A_timedwait_einval c) rest s = Some s' \<and> ms_einval s' = ms_einval s @ [i]
            \<and> mx_holder (ms_mutex s) = Some i \<and> mx_holder (ms_mutex s') = Some i \<and> ms_data s' = ms_data s))
    \<and> (\<forall>i a rest. mx_holder (ms_mutex s) = Some i \<and> th_pending (ms_threads s ! i) = a # rest \<longrightarrow> (\<exists>choice. mutex_ready choice a s))
    \<and> ((\<forall>i < n. th_pending (ms_threads s ! i) = [] \<and> \<not> th_guard (ms_threads s ! i)) \<longrightarrow> MutexLock_destroy (ms_mutex s) = Some ())"
proof -
  have inv: "mutex_inv tids d s" and n: "length (ms_threads s) = n" using mutex_reach_inv[OF reach] by simp_all
  note f = mutex_inv_facts[OF inv, unfolded n]
  have bound: "i < n" if "mx_holder (ms_mutex s) = Some i" for i using inv n that by (simp add: mutex_inv_def)
  have pos: "0 < tids ! i" if "i < n" for i using tids(1,3) that by simp
  have tid: "mx_tid (ms_mutex s) = (case mx_holder (ms_mutex s) of None \<Rightarrow> 0 | Some i \<Rightarrow> if thread_named (ms_threads s ! i) then tids ! i else 0)"
    using inv by (simp add: mutex_inv_def)
  have "mx_holder (ms_mutex s) = Some i" if i: "i < n" and own: "MutexLock_isLockedByThisThread (tids ! i) (ms_mutex s)" for i
    using own tid pos[OF i] bound nth_eq_iff_index_eq[OF tids(2)] i tids(1)
    by (auto simp: MutexLock_isLockedByThisThread_def split: option.splits if_splits)
  moreover have "MutexLock_isLockedByThisThread (tids ! i) (ms_mutex s)"
    if "i < n" "th_guard (ms_threads s ! i)" "th_pending (ms_threads s ! i) = []" for i
    using f(2)[of i] tid that by (simp add: thread_holds_def thread_named_def MutexLock_isLockedByThisThread_def)
  moreover have "mutex_act (tids ! i) i choice a rest s \<noteq> None"
    if "i < n" "th_pending (ms_threads s ! i) = a # rest" "mutex_ready choice a s" for i a rest choice
    using mutex_act_inv[OF inv, of i a rest choice] that n by auto
  moreover have "\<exists>s'. mutex_act (tids ! i) i None (A_timedwait_einval c) rest s = Some s' \<and> ms_einval s' = ms_einval s @ [i]
      \<and> mx_holder (ms_mutex s) = Some i \<and> mx_holder (ms_mutex s') = Some i \<and> ms_data s' = ms_data s"
    if "i < n" "th_pending (ms_threads s ! i) = A_timedwait_einval c # rest" for i c rest
    using f(2)[OF that(1)] that(2) by (simp add: thread_holds_def upd_thread_def)
  moreover have "\<exists>choice. mutex_ready choice a s" if h: "mx_holder (ms_mutex s) = Some i" and p: "th_pending (ms_threads s ! i) = a # rest" for i a rest
  proof (cases a)
    case A_mutex_lock
    then show ?thesis using f(2)[OF bound[OF h]] h p by (simp add: thread_holds_def)
  next
    case (A_cond_signal c)
    then show ?thesis
      by (cases "list_ex (blocked_on c) (ms_threads s)")
        (auto simp: list_ex_length intro: exI[of _ None] exI[of _ "Some j" for j])
  qed (auto intro: exI[of _ None])
  moreover have "MutexLock_destroy (ms_mutex s) = Some ()"
    if "\<forall>i < n. th_pending (ms_threads s ! i) = [] \<and> \<not> th_guard (ms_threads s ! i)"
  proof -
    have "mx_holder (ms_mutex s) = None" using that f(2) bound by (cases "mx_holder (ms_mutex s)") (auto simp: thread_holds_def)
    then show ?thesis using tid by (simp add: MutexLock_destroy_def)
  qed
  moreover have "ms_data s = run_section (current_section s) (run_sections (ms_sections s) d)" using inv by (simp add: mutex_inv_def)
  ultimately show ?thesis by blast
qed

text \<open>One of two threads has entered its section and changed the data; the other one waits for the mutex.\<close>

definition mutex_demo :: "int mutex_sys" where
  "mutex_demo = \<lparr>ms_mutex = \<lparr>mx_holder = Some 0, mx_tid = 7\<rparr>,
     ms_threads = [\<lparr>th_guard = True, th_pending = [], th_section = [\<lambda>x. x + 1]\<rparr>,
       \<lparr>th_guard = True, th_pending = [A_mutex_lock, A_assignTid], th_section = []\<rparr>],
     ms_data = 6, ms_sections = [], ms_einval = []\<rparr>"

lemma mutex_demo_reach: "mutex_reach [7, 8] (mutex_sys_init 2 5) mutex_demo"
proof -
  let ?t0 = "\<lparr>th_guard = False, th_pending = [], th_section = []\<rparr> :: int mutex_thread"
  let ?s = "\<lambda>m t0 t1 d. \<lparr>ms_mutex = m, ms_threads = [t0, t1], ms_data = d, ms_sections = [], ms_einval = []\<rparr> :: int mutex_sys"
  let ?p = "\<lambda>q fs. \<lparr>th_guard = True, th_pending = q, th_section = fs\<rparr> :: int mutex_thread"
  let ?free = "\<lparr>mx_holder = None, mx_tid = 0\<rparr>" let ?held = "\<lparr>mx_holder = Some 0, mx_tid = 7\<rparr>"
  let ?q = "[A_mutex_lock, A_assignTid] :: int mutex_action list"
  note defs = upd_thread_def MutexLockGuard_new_def MutexLock_lock_def MutexLock_assignTid_def
  have "mutex_reach [7, 8] (mutex_sys_init 2 5) (?s ?free ?t0 ?t0 5)"
    using mutex_reach.start[of "[7, 8]" "mutex_sys_init 2 5"] by (simp add: mutex_sys_init_def MutexLock_new_def numeral_2_eq_2)
  then have "mutex_reach [7, 8] (mutex_sys_init 2 5) (?s ?free (?p ?q []) ?t0 5)"
    by (rule mutex_reach.step) (use mutex_step.enter[of 0 "?s ?free ?t0 ?t0 5" "[7, 8]"] in \<open>simp add: defs\<close>)
  then have "mutex_reach [7, 8] (mutex_sys_init 2 5) (?s ?free (?p ?q []) (?p ?q []) 5)"
    by (rule mutex_reach.step) (use mutex_step.enter[of 1 "?s ?free (?p ?q []) ?t0 5" "[7, 8]"] in \<open>simp add: defs\<close>)
  then have "mutex_reach [7, 8] (mutex_sys_init 2 5) (?s \<lparr>mx_holder = Some 0, mx_tid = 0\<rparr> (?p [A_assignTid] []) (?p ?q []) 5)"
    by (rule mutex_reach.step) (rule mutex_step.act[of 0 _ A_mutex_lock "[A_assignTid]" None]; simp add: defs)
  then have "mutex_reach [7, 8] (mutex_sys_init 2 5) (?s ?held (?p [] []) (?p ?q []) 5)"
    by (rule mutex_reach.step) (rule mutex_step.act[of 0 _ A_assignTid "[]" None]; simp add: defs)
  then have "mutex_reach [7, 8] (mutex_sys_init 2 5) (?s ?held (?p [A_write (\<lambda>x. x + 1)] []) (?p ?q []) 5)"
    by (rule mutex_reach.step)
      (use mutex_step.call[of 0 "?s ?held (?p [] []) (?p ?q []) 5" "Call_write (\<lambda>x. x + 1)" "[7, 8]"] in \<open>simp add: defs\<close>)
  then have "mutex_reach [7, 8] (mutex_sys_init 2 5) (?s ?held (?p [] [\<lambda>x. x + 1]) (?p ?q []) 6)"
    by (rule mutex_reach.step) (rule mutex_step.act[of 0 _ "A_write (\<lambda>x. x + 1)" "[]" None]; simp add: defs Let_def)
  then show ?thesis by (simp add: mutex_demo_def)
qed

theorem MutexLock_sections_serial_witness:
  "mutex_reach [7, 8] (mutex_sys_init 2 5) mutex_demo
    \<and> ms_data mutex_demo = run_section [\<lambda>x. x + 1] 5
    \<and> MutexLock_isLockedByThisThread 7 (ms_mutex mutex_demo) \<and> \<not> MutexLock_isLockedByThisThread 8 (ms_mutex mutex_demo)"
proof -
  have all: "ms_data mutex_demo = run_section (current_section mutex_demo) (run_sections (ms_sections mutex_demo) 5)
    \<and> (\<forall>i < 2. MutexLock_isLockedByThisThread ([7, 8] ! i) (ms_mutex mutex_demo) \<longrightarrow> mx_holder (ms_mutex mutex_demo) = Some i)
    \<and> (\<forall>i < 2. th_guard (ms_threads mutex_demo ! i) \<and> th_pending (ms_threads mutex_demo ! i) = []
         \<longrightarrow> MutexLock_isLockedByThisThread ([7, 8] ! i) (ms_mutex mutex_demo))"
    using MutexLock_sections_serial[of "[7, 8]" 2 5 mutex_demo] mutex_demo_reach by simp
  then have "MutexLock_isLockedByThisThread 7 (ms_mutex mutex_demo)"
    by (auto simp: mutex_demo_def dest!: spec[of _ "0 :: nat"])
  moreover have "\<not> MutexLock_isLockedByThisThread 8 (ms_mutex mutex_demo)"
    using all by (auto simp: mutex_demo_def dest!: spec[of _ "Suc 0"])
  moreover have "current_section mutex_demo = [\<lambda>x. x + 1]" "ms_sections mutex_demo = []"
    by (simp_all add: mutex_demo_def current_section_def)
  ultimately show ?thesis using all mutex_demo_reach by (simp add: run_sections_def)
qed

end
