(* ===== verification/Logging.thy ===== *)
theory Logging
  imports LogStreamProps TimeZoneProps Timestamp Threads
begin

text \<open>
  \<open>dc::Logger\<close> (\<open>base/logging.h\<close>, \<open>base/logging.cc\<close>): a log statement makes a \<open>Logger\<close>, whose constructor
  writes time, thread id and level into a \<open>LogStream\<close>; the user inserts into it; the destructor adds
  file and line and hands the text to the output function. What the system answers is in the
  arguments: the time \<open>now\<close>, \<open>errno\<close>, and in \<open>log_env\<close> the id of the thread, the texts of \<open>strerror_r\<close> and the
  uninitialised memory of the stream.
\<close>

subsection \<open>Levels\<close>

datatype log_level = TRACE | DEBUG | INFO | WARN | ERROR | FATAL

fun level_index :: "log_level \<Rightarrow> nat" where
  "level_index TRACE = 0" | "level_index DEBUG = 1" | "level_index INFO = 2" | "level_index WARN = 3" | "level_index ERROR = 4"
| "level_index FATAL = 5"

lemma level_index_inject: "level_index k = level_index l \<longleftrightarrow> k = l"
  by (cases k; cases l) simp_all

instantiation log_level :: linorder
begin
definition less_eq_log_level :: "log_level \<Rightarrow> log_level \<Rightarrow> bool" where
  "less_eq_log_level k l = (level_index k \<le> level_index l)"
definition less_log_level :: "log_level \<Rightarrow> log_level \<Rightarrow> bool" where
  "less_log_level k l = (level_index k < level_index l)"
instance
  by standard (auto simp: less_eq_log_level_def less_log_level_def level_index_inject)
end

definition initLogLevel :: "(string \<Rightarrow> string option) \<Rightarrow> log_level" where
  "initLogLevel getenv = (if getenv ''DC_LOG_TRACE'' \<noteq> None then TRACE else if getenv ''DC_LOG_DEBUG'' \<noteq> None then DEBUG else INFO)"

definition LogLevelName :: "log_level \<Rightarrow> string" where
  "LogLevelName l = [''TRACE '', ''DEBUG '', ''INFO  '', ''WARN  '', ''ERROR '', ''FATAL ''] ! level_index l"

subsection \<open>\<open>SourceFile\<close>\<close>

text \<open>The offset of the last \<open>c\<close>.\<close>

fun strrchr :: "string \<Rightarrow> char \<Rightarrow> nat option" where
  "strrchr [] c = None"
| "strrchr (x # xs) c = (case strrchr xs c of Some i \<Rightarrow> Some (i + 1) | None \<Rightarrow> if x = c then Some 0 else None)"

record source_file =
  sf_data :: string
  sf_size :: int

text \<open>From an array of \<open>N\<close> characters with its NUL, and from a pointer.\<close>

definition SourceFile_of_array :: "string \<Rightarrow> source_file" where
  "SourceFile_of_array arr = (case strrchr arr (CHR ''/'') of
     None \<Rightarrow> \<lparr>sf_data = arr, sf_size = int (length arr)\<rparr>
   | Some slash \<Rightarrow> \<lparr>sf_data = drop (slash + 1) arr, sf_size = int (length arr) - int (slash + 1)\<rparr>)"

definition SourceFile_of_name :: "string \<Rightarrow> source_file" where
  "SourceFile_of_name filename =
     (let data = (case strrchr filename (CHR ''/'') of None \<Rightarrow> filename | Some slash \<Rightarrow> drop (slash + 1) filename)
      in \<lparr>sf_data = data, sf_size = int (length data)\<rparr>)"

text \<open>The part after the last slash.\<close>

definition basename :: "string \<Rightarrow> string" where
  "basename s = rev (takeWhile (\<lambda>c. c \<noteq> CHR ''/'') (rev s))"

lemma strrchr_none: "c \<notin> set s \<Longrightarrow> strrchr s c = None"
  by (induction s) auto

lemma strrchr_last: "c \<notin> set zs \<Longrightarrow> strrchr (ys @ c # zs) c = Some (length ys)"
  by (induction ys) (simp_all add: strrchr_none)

lemma basename_last: "CHR ''/'' \<notin> set zs \<Longrightarrow> basename (ys @ CHR ''/'' # zs) = zs"
proof -
  assume "CHR ''/'' \<notin> set zs"
  then have "takeWhile (\<lambda>c. c \<noteq> CHR ''/'') (rev zs @ CHR ''/'' # rev ys) = rev zs"
    by (subst takeWhile_append2) auto
  then show ?thesis by (simp add: basename_def)
qed

lemma SourceFile_basename:
  "SourceFile_of_array s = \<lparr>sf_data = basename s, sf_size = int (length (basename s))\<rparr>"
  "SourceFile_of_name s = \<lparr>sf_data = basename s, sf_size = int (length (basename s))\<rparr>"
proof -
  have "SourceFile_of_array s = \<lparr>sf_data = basename s, sf_size = int (length (basename s))\<rparr>
    \<and> SourceFile_of_name s = \<lparr>sf_data = basename s, sf_size = int (length (basename s))\<rparr>"
  proof (cases "CHR ''/'' \<in> set s")
    case True
    then obtain ys zs where "s = ys @ CHR ''/'' # zs" "CHR ''/'' \<notin> set zs" by (meson split_list_last)
    then show ?thesis
      by (simp add: SourceFile_of_array_def SourceFile_of_name_def strrchr_last basename_last)
  next
    case False
    then have "basename s = s" unfolding basename_def by (subst takeWhile_eq_all_conv[THEN iffD2]) auto
    then show ?thesis using False by (simp add: SourceFile_of_array_def SourceFile_of_name_def strrchr_none)
  qed
  then show "SourceFile_of_array s = \<lparr>sf_data = basename s, sf_size = int (length (basename s))\<rparr>"
    "SourceFile_of_name s = \<lparr>sf_data = basename s, sf_size = int (length (basename s))\<rparr>" by simp_all
qed

subsection \<open>State\<close>

text \<open>Calls of the output function, of the flush function and of \<open>printf\<close>, with the function's identity.\<close>

datatype log_call = Output nat string | Flush nat | Printed string

record log_env =
  en_tid :: int
  en_strerror :: "int \<Rightarrow> string"
  en_mem :: string

text \<open>
  The variables of the thread (\<open>t_time\<close> without its NUL, \<open>t_lastSecond\<close>, those of \<open>CurrentThread\<close>) and of the
  process; \<open>lg_aborted\<close> says that \<open>abort()\<close> was called.
\<close>

record log_state =
  lg_time :: string
  lg_lastSecond :: int
  lg_locals :: thread_locals
  lg_level :: log_level
  lg_output :: nat
  lg_flush :: nat
  lg_zone :: time_zone
  lg_calls :: "log_call list"
  lg_aborted :: bool

definition log_state_init :: "log_level \<Rightarrow> log_state" where
  "log_state_init level = \<lparr>lg_time = [], lg_lastSecond = 0, lg_locals = thread_locals_init, lg_level = level, lg_output = 0,
     lg_flush = 0, lg_zone = TimeZone_invalid, lg_calls = [], lg_aborted = False\<rparr>"

definition Logger_setLogLevel :: "log_level \<Rightarrow> log_state \<Rightarrow> log_state" where
  "Logger_setLogLevel level s = s\<lparr>lg_level := level\<rparr>"

definition Logger_setOutput :: "nat \<Rightarrow> log_state \<Rightarrow> log_state" where
  "Logger_setOutput out s = s\<lparr>lg_output := out\<rparr>"

definition Logger_setFlush :: "nat \<Rightarrow> log_state \<Rightarrow> log_state" where
  "Logger_setFlush flush s = s\<lparr>lg_flush := flush\<rparr>"

definition Logger_setTimeZone :: "time_zone \<Rightarrow> log_state \<Rightarrow> log_state" where
  "Logger_setTimeZone tz s = s\<lparr>lg_zone := tz\<rparr>"

record log_impl =
  im_time :: timestamp
  im_stream :: log_stream
  im_level :: log_level
  im_line :: int
  im_basename :: source_file

subsection \<open>Writing a line\<close>

text \<open>The helper \<open>T\<close>: a text whose length must be the one given.\<close>

definition LogStream_T :: "string \<Rightarrow> int \<Rightarrow> log_stream \<Rightarrow> log_stream outcome" where
  "LogStream_T str len b = do {
     assert_that (int (length str) = len);
     LogStream_append (c_string str) len b
   }"

definition LogStream_sourceFile :: "source_file \<Rightarrow> log_stream \<Rightarrow> log_stream outcome" where
  "LogStream_sourceFile v b = LogStream_append (c_string (sf_data v)) (sf_size v) b"

definition log_time_text :: "date_time \<Rightarrow> string" where
  "log_time_text dt = fmt_blank 4 (dt_year dt) @ fmt_zero 2 (dt_month dt) @ fmt_zero 2 (dt_day dt) @ '' '' @
     fmt_zero 2 (dt_hour dt) @ '':'' @ fmt_zero 2 (dt_minute dt) @ '':'' @ fmt_zero 2 (dt_second dt)"

definition Impl_formatTime :: "log_impl \<Rightarrow> log_state \<Rightarrow> (log_impl \<times> log_state) outcome" where
  "Impl_formatTime im s = do {
     let seconds = microSecondsSinceEpoch (im_time im) sdiv kMicroSecondsPerSecond;
     let microseconds = to_int32 (microSecondsSinceEpoch (im_time im) smod kMicroSecondsPerSecond);
     s \<leftarrow> (if seconds \<noteq> lg_lastSecond s then do {
         dt \<leftarrow> (if TimeZone_valid (lg_zone s) then map_option fst (TimeZone_toLocalTime (lg_zone s) seconds None)
               else Some (TimeZone_toUtcTime seconds));
         assert_that (length (log_time_text dt) = 17);
         Some (s\<lparr>lg_lastSecond := seconds, lg_time := snprintf_buf 64 (log_time_text dt)\<rparr>)
       } else Some s);
     if TimeZone_valid (lg_zone s) then do {
       us \<leftarrow> Fmt_new (''.'' @ fmt_zero 6 microseconds @ '' '');
       assert_that (fmt_length us = 8);
       b \<leftarrow> LogStream_T (lg_time s) 17 (im_stream im);
       b \<leftarrow> LogStream_T (take (fmt_length us) (fmt_text us)) 8 b;
       Some (im\<lparr>im_stream := b\<rparr>, s)
     } else do {
       us \<leftarrow> Fmt_new (''.'' @ fmt_zero 6 microseconds @ ''z '');
       assert_that (fmt_length us = 9);
       b \<leftarrow> LogStream_T (lg_time s) 17 (im_stream im);
       b \<leftarrow> LogStream_T (take (fmt_length us) (fmt_text us)) 9 b;
       Some (im\<lparr>im_stream := b\<rparr>, s)
     }
   }"

definition Impl_new :: "log_env \<Rightarrow> timestamp \<Rightarrow> log_level \<Rightarrow> int \<Rightarrow> source_file \<Rightarrow> int \<Rightarrow> log_state \<Rightarrow> (log_impl \<times> log_state) outcome" where
  "Impl_new env now level savedErrno file line s = do {
     let im = \<lparr>im_time = now, im_stream = FixedBuffer_new (en_mem env), im_level = level, im_line = line, im_basename = file\<rparr>;
     (im, s) \<leftarrow> Impl_formatTime im s;
     let s = s\<lparr>lg_locals := snd (CurrentThread_tid (en_tid env) (lg_locals s))\<rparr>;
     b \<leftarrow> LogStream_T (CurrentThread_tidString (lg_locals s)) (CurrentThread_tidStringLength (lg_locals s)) (im_stream im);
     let b = LogStream_char (CHR '' '') b;
     b \<leftarrow> LogStream_T (LogLevelName level) 6 b;
     b \<leftarrow> (if savedErrno \<noteq> 0 then do {
         b \<leftarrow> LogStream_cstr (c_string (en_strerror env savedErrno)) b;
         b \<leftarrow> LogStream_cstr (c_string '' (errno ='') b;
         b \<leftarrow> LogStream_int savedErrno b;
         LogStream_cstr (c_string '') '') b
       } else Some b);
     Some (im\<lparr>im_stream := b\<rparr>, s)
   }"

definition Impl_finish :: "log_impl \<Rightarrow> log_impl outcome" where
  "Impl_finish im = do {
     b \<leftarrow> LogStream_cstr (c_string '' - '') (im_stream im);
     b \<leftarrow> LogStream_sourceFile (im_basename im) b;
     let b = LogStream_char (CHR '':'') b;
     b \<leftarrow> LogStream_int (im_line im) b;
     Some (im\<lparr>im_stream := LogStream_char (CHR 0x0A) b\<rparr>)
   }"

text \<open>The four constructors.\<close>

definition Logger_new :: "log_env \<Rightarrow> timestamp \<Rightarrow> source_file \<Rightarrow> int \<Rightarrow> log_state \<Rightarrow> (log_impl \<times> log_state) outcome" where
  "Logger_new env now file line = Impl_new env now INFO 0 file line"

definition Logger_new_func ::
    "log_env \<Rightarrow> timestamp \<Rightarrow> source_file \<Rightarrow> int \<Rightarrow> log_level \<Rightarrow> string \<Rightarrow> log_state \<Rightarrow> (log_impl \<times> log_state) outcome" where
  "Logger_new_func env now file line level func s = do {
     (im, s) \<leftarrow> Impl_new env now level 0 file line s;
     b \<leftarrow> LogStream_cstr (c_string func) (im_stream im);
     Some (im\<lparr>im_stream := LogStream_char (CHR '' '') b\<rparr>, s)
   }"

definition Logger_new_level ::
    "log_env \<Rightarrow> timestamp \<Rightarrow> source_file \<Rightarrow> int \<Rightarrow> log_level \<Rightarrow> log_state \<Rightarrow> (log_impl \<times> log_state) outcome" where
  "Logger_new_level env now file line level = Impl_new env now level 0 file line"

definition Logger_new_errno ::
    "log_env \<Rightarrow> timestamp \<Rightarrow> source_file \<Rightarrow> int \<Rightarrow> bool \<Rightarrow> int \<Rightarrow> log_state \<Rightarrow> (log_impl \<times> log_state) outcome" where
  "Logger_new_errno env now file line toAbort errno = Impl_new env now (if toAbort then FATAL else ERROR) errno file line"

definition Logger_destroy :: "log_env \<Rightarrow> int \<Rightarrow> log_impl \<Rightarrow> log_state \<Rightarrow> log_state outcome" where
  "Logger_destroy env errno im s = do {
     im \<leftarrow> Impl_finish im;
     let s = s\<lparr>lg_calls := lg_calls s @ [Output (lg_output s) (FixedBuffer_toString (im_stream im))]\<rparr>;
     Some (if im_level im = FATAL
       then s\<lparr>lg_calls := lg_calls s @ [Printed (''fatal error'' @ [CHR 0x0A] @ en_strerror env errno @ [CHR 0x0A]), Flush (lg_flush s)],
              lg_aborted := True\<rparr>
       else s)
   }"

subsection \<open>Log statements\<close>

text \<open>The macros; \<open>errno\<close> is its value when the statement starts. Only the first three look at the level.\<close>

datatype log_macro = LOG_TRACE string | LOG_DEBUG string | LOG_INFO | LOG_WARN | LOG_ERROR | LOG_FATAL | LOG_SYSERR | LOG_SYSFATAL

fun macro_enabled :: "log_level \<Rightarrow> log_macro \<Rightarrow> bool" where
  "macro_enabled l (LOG_TRACE func) = (l \<le> TRACE)"
| "macro_enabled l (LOG_DEBUG func) = (l \<le> DEBUG)"
| "macro_enabled l LOG_INFO = (l \<le> INFO)"
| "macro_enabled l _ = True"

fun macro_new :: "log_env \<Rightarrow> timestamp \<Rightarrow> int \<Rightarrow> log_macro \<Rightarrow> source_file \<Rightarrow> int \<Rightarrow> log_state \<Rightarrow> (log_impl \<times> log_state) outcome" where
  "macro_new env now errno (LOG_TRACE func) file line = Logger_new_func env now file line TRACE func"
| "macro_new env now errno (LOG_DEBUG func) file line = Logger_new_func env now file line DEBUG func"
| "macro_new env now errno LOG_INFO file line = Logger_new env now file line"
| "macro_new env now errno LOG_WARN file line = Logger_new_level env now file line WARN"
| "macro_new env now errno LOG_ERROR file line = Logger_new_level env now file line ERROR"
| "macro_new env now errno LOG_FATAL file line = Logger_new_level env now file line FATAL"
| "macro_new env now errno LOG_SYSERR file line = Logger_new_errno env now file line False errno"
| "macro_new env now errno LOG_SYSFATAL file line = Logger_new_errno env now file line True errno"

text \<open>\<open>st_errno_end\<close> is the value of \<open>errno\<close> when the \<open>Logger\<close> is destroyed.\<close>

record 'd log_statement =
  st_macro :: log_macro
  st_now :: timestamp
  st_errno :: int
  st_errno_end :: int
  st_file :: string
  st_line :: int
  st_items :: "'d log_item list"

definition log_execute :: "log_env \<Rightarrow> ('d \<Rightarrow> string) \<Rightarrow> 'd log_statement \<Rightarrow> log_state \<Rightarrow> log_state outcome" where
  "log_execute env g st s = (if macro_enabled (lg_level s) (st_macro st) then do {
     (im, s) \<leftarrow> macro_new env (st_now st) (st_errno st) (st_macro st) (SourceFile_of_array (st_file st)) (st_line st) s;
     b \<leftarrow> for_each (LogStream_insert g) (st_items st) (im_stream im);
     Logger_destroy env (st_errno_end st) (im\<lparr>im_stream := b\<rparr>) s
   } else Some s)"

text \<open>The statements of one thread in their order, until one of them aborts the process.\<close>

fun log_run :: "log_env \<Rightarrow> ('d \<Rightarrow> string) \<Rightarrow> 'd log_statement list \<Rightarrow> log_state \<Rightarrow> log_state outcome" where
  "log_run env g [] s = Some s"
| "log_run env g (st # sts) s = (if lg_aborted s then Some s else log_execute env g st s \<bind> log_run env g sts)"

text \<open>\<open>CheckNotNull\<close>: the text is logged at level \<open>FATAL\<close> when the pointer is null.\<close>

definition CheckNotNull :: "log_env \<Rightarrow> timestamp \<Rightarrow> int \<Rightarrow> source_file \<Rightarrow> int \<Rightarrow> string \<Rightarrow> 'p option \<Rightarrow> log_state \<Rightarrow> ('p option \<times> log_state) outcome" where
  "CheckNotNull env now errno file line names ptr s = (if ptr = None then do {
     (im, s) \<leftarrow> Logger_new_level env now file line FATAL s;
     b \<leftarrow> LogStream_cstr (c_string names) (im_stream im);
     s \<leftarrow> Logger_destroy env errno (im\<lparr>im_stream := b\<rparr>) s;
     Some (ptr, s)
   } else Some (ptr, s))"

end
