(* ===== verification/LoggingProps.thy ===== *)
theory LoggingProps
  imports Logging
begin

text \<open>
  The text of a log line. Every insertion that fits appends its text; a log statement is a sequence of
  them; the time text comes from a one-second cache of the thread, whose invariant ties it to the zone.
\<close>

subsection \<open>Operations that append a text\<close>

text \<open>\<open>f\<close> appends \<open>t\<close> when the buffer keeps at least 48 bytes free.\<close>

definition adds :: "(log_stream \<Rightarrow> log_stream outcome) \<Rightarrow> string \<Rightarrow> bool" where
  "adds f t \<longleftrightarrow> (\<forall>b. fb_ok b \<and> fb_cur b + length t + 48 \<le> length (fb_data b) \<longrightarrow>
     (\<exists>b'. f b = Some b' \<and> fb_ok b' \<and> length (fb_data b') = length (fb_data b)
        \<and> FixedBuffer_toString b' = FixedBuffer_toString b @ t))"

lemma addsD:
  assumes "adds f t" "fb_ok b" "fb_cur b + length t + 48 \<le> length (fb_data b)"
  obtains b' where "f b = Some b'" "fb_ok b'" "length (fb_data b') = length (fb_data b)"
    "FixedBuffer_toString b' = FixedBuffer_toString b @ t"
  using assms unfolding adds_def by blast

lemma adds_bind [intro]:
  assumes f: "adds f t" and h: "adds h u"
  shows "adds (\<lambda>b. f b \<bind> h) (t @ u)"
  unfolding adds_def
proof (intro allI impI)
  fix b assume b: "fb_ok b \<and> fb_cur b + length (t @ u) + 48 \<le> length (fb_data b)"
  obtain b1 where b1: "f b = Some b1" "fb_ok b1" "length (fb_data b1) = length (fb_data b)"
    "FixedBuffer_toString b1 = FixedBuffer_toString b @ t"
    by (rule addsD[OF f, of b]) (use b in auto)
  have "fb_cur b1 = fb_cur b + length t" using b1 b by (metis length_append toString_length)
  then obtain b2 where "h b1 = Some b2" "fb_ok b2" "length (fb_data b2) = length (fb_data b1)"
    "FixedBuffer_toString b2 = FixedBuffer_toString b1 @ u"
    using addsD[OF h b1(2)] b b1(3) by (metis add.assoc length_append)
  then show "\<exists>b'. (f b \<bind> h) = Some b' \<and> fb_ok b' \<and> length (fb_data b') = length (fb_data b)
      \<and> FixedBuffer_toString b' = FixedBuffer_toString b @ t @ u"
    using b1 by auto
qed

lemma adds_insert:
  assumes "item_ok g x" "item_text g x = t"
  shows "adds (LogStream_insert g x) t"
  unfolding adds_def
proof (intro allI impI)
  fix b assume b: "fb_ok b \<and> fb_cur b + length t + 48 \<le> length (fb_data b)"
  then obtain b' where "LogStream_insert g x b = Some b'" "inserted g x b b'"
    using LogStream_insert_ok[of b g x] assms(1) by auto
  moreover have "item_room g x \<le> length (fb_data b) - fb_cur b" using b assms(2) by (auto simp: item_room_def)
  ultimately show "\<exists>b'. LogStream_insert g x b = Some b' \<and> fb_ok b' \<and> length (fb_data b') = length (fb_data b)
      \<and> FixedBuffer_toString b' = FixedBuffer_toString b @ t"
    using b assms(2) by (simp add: inserted_def log_put_def)
qed

lemma adds_items:
  assumes "\<forall>x \<in> set xs. item_ok g x"
  shows "adds (for_each (LogStream_insert g) xs) (concat (map (item_text g) xs))"
  using assms
proof (induction xs)
  case Nil
  then show ?case by (auto simp: adds_def)
next
  case (Cons x xs)
  then show ?case using adds_bind[OF adds_insert[of g x] Cons.IH] by (simp add: for_each_fun)
qed

text \<open>The insertions of the logger.\<close>

definition no_nul :: "string \<Rightarrow> bool" where
  "no_nul s \<longleftrightarrow> NUL \<notin> set s"

lemma adds_char: "adds (\<lambda>b. Some (LogStream_char c b)) [c]"
  using adds_insert[of "\<lambda>_ :: nat. []" "Put_chr c" "[c]"] by (simp add: adds_def)

lemma adds_cstr: "no_nul s \<Longrightarrow> adds (LogStream_cstr (c_string s)) s"
proof -
  assume "no_nul s"
  then have "take (std_find NUL (s @ [NUL])) (s @ [NUL]) = s"
    by (simp add: no_nul_def std_find_append_notin)
  then have "adds (LogStream_insert (\<lambda>_ :: nat. []) (Put_cstr (c_string s))) s"
    by (intro adds_insert) (simp_all add: c_string_def)
  then show ?thesis by (simp add: adds_def)
qed

lemma adds_int: "in_64 v \<Longrightarrow> adds (LogStream_int v) (dec_int v)"
  using adds_insert[of "\<lambda>_ :: nat. []" "Put_int v" "dec_int v"] by (simp add: adds_def)

lemma adds_append: "adds (LogStream_append (c_string s) (int (length s))) s"
  unfolding adds_def
proof (intro allI impI)
  fix b assume b: "fb_ok b \<and> fb_cur b + length s + 48 \<le> length (fb_data b)"
  have "c_range (c_string s) (length s) = Some s" by (simp add: c_range_def c_string_def)
  then show "\<exists>b'. LogStream_append (c_string s) (int (length s)) b = Some b' \<and> fb_ok b' \<and> length (fb_data b') = length (fb_data b)
      \<and> FixedBuffer_toString b' = FixedBuffer_toString b @ s"
    using FixedBuffer_append_put[of b s] b by (auto simp: LogStream_append_def FixedBuffer_avail_def log_put_def)
qed

lemma adds_T: "int (length s) = n \<Longrightarrow> adds (LogStream_T s n) s"
  using adds_append[of s] by (auto simp: LogStream_T_def fun_eq_iff adds_def)

lemma adds_sourceFile: "adds (LogStream_sourceFile (SourceFile_of_array s)) (basename s)"
  using adds_append[of "basename s"] by (simp add: LogStream_sourceFile_def SourceFile_basename adds_def)

subsection \<open>The time\<close>

definition zone_offset :: "time_zone \<Rightarrow> int \<Rightarrow> int" where
  "zone_offset tz t = (case m_data tz of None \<Rightarrow> 0 | Some d \<Rightarrow> utcOffset (type_in_force d t))"

definition zone_ok :: "time_zone \<Rightarrow> bool" where
  "zone_ok tz \<longleftrightarrow> (case m_data tz of None \<Rightarrow> True | Some d \<Rightarrow> zone_indices_ok d \<and> zone_sorted d)"

definition second_text :: "time_zone \<Rightarrow> int \<Rightarrow> string" where
  "second_text tz t = log_time_text (TimeZone_toUtcTime (t + zone_offset tz t))"

definition time_text :: "time_zone \<Rightarrow> timestamp \<Rightarrow> string" where
  "time_text tz now = second_text tz (microSecondsSinceEpoch now div 1000000) @ ''.'' @ fmt_zero 6 (microSecondsSinceEpoch now mod 1000000)
     @ (if TimeZone_valid tz then '' '' else ''z '')"

text \<open>A time from one second after the epoch on, in a year of at most four digits.\<close>

definition loggable :: "time_zone \<Rightarrow> timestamp \<Rightarrow> bool" where
  "loggable tz now \<longleftrightarrow> (let t = microSecondsSinceEpoch now div 1000000; u = t + zone_offset tz t in
     1 \<le> t \<and> calendar_seconds u \<and> -999 \<le> dt_year (TimeZone_toUtcTime u) \<and> dt_year (TimeZone_toUtcTime u) \<le> 9999)"

definition time_cache_ok :: "log_state \<Rightarrow> bool" where
  "time_cache_ok s \<longleftrightarrow> lg_lastSecond s = 0
     \<or> lg_time s = second_text (lg_zone s) (lg_lastSecond s) \<and> length (lg_time s) = 17"

lemma length_fmt_zero2: "0 \<le> i \<Longrightarrow> i < 100 \<Longrightarrow> length (fmt_zero 2 i) = 2"
  by (rule length_fmt_zero) simp_all

lemma length_fmt_blank4: "-999 \<le> y \<Longrightarrow> y \<le> 9999 \<Longrightarrow> length (fmt_blank 4 y) = 4"
proof -
  assume y: "-999 \<le> y" "y \<le> 9999"
  have "length (dec_int y) \<le> 4"
  proof (cases "y < 0")
    case True
    have "length (dec_nat (nat (- y))) \<le> 3" by (rule length_dec_nat_le) (use y in simp_all)
    then show ?thesis using True by (simp add: dec_int_def)
  next
    case False
    then show ?thesis using length_dec_small[of y 4] y by simp
  qed
  then show ?thesis by (simp add: fmt_blank_def)
qed

lemma second_text_length:
  assumes "loggable tz now"
  shows "length (second_text tz (microSecondsSinceEpoch now div 1000000)) = 17"
proof -
  let ?t = "microSecondsSinceEpoch now div 1000000" let ?dt = "TimeZone_toUtcTime (?t + zone_offset tz ?t)"
  have cal: "calendar_seconds (?t + zone_offset tz ?t)" and y: "-999 \<le> dt_year ?dt" "dt_year ?dt \<le> 9999"
    using assms by (simp_all add: loggable_def Let_def)
  have "valid_date_time ?dt" using toUtcTime_fromUtcTime[OF cal] by simp
  then have v: "0 \<le> dt_month ?dt" "dt_month ?dt < 100" "0 \<le> dt_day ?dt" "dt_day ?dt < 100" "0 \<le> dt_hour ?dt" "dt_hour ?dt < 100"
    "0 \<le> dt_minute ?dt" "dt_minute ?dt < 100" "0 \<le> dt_second ?dt" "dt_second ?dt < 100"
    by (auto simp: valid_date_time_def valid_ymd_def valid_hms_def days_in_month_def split: if_splits)
  show ?thesis unfolding second_text_def log_time_text_def
    by (simp add: length_fmt_zero2[OF v(1,2)] length_fmt_zero2[OF v(3,4)] length_fmt_zero2[OF v(5,6)] length_fmt_zero2[OF v(7,8)]
        length_fmt_zero2[OF v(9,10)] length_fmt_blank4[OF y])
qed

lemma zone_lookup:
  assumes "zone_ok tz"
  shows "(if TimeZone_valid tz then map_option fst (TimeZone_toLocalTime tz t None) else Some (TimeZone_toUtcTime t))
    = Some (TimeZone_toUtcTime (t + zone_offset tz t))"
  using assms
  by (auto simp: TimeZone_valid_def TimeZone_toLocalTime_def zone_offset_def zone_ok_def findLocalTime_utc_in_force
      TimeZone_toUtcTime_def split: option.splits)

lemma sdiv_million: "1 \<le> t div 1000000 \<Longrightarrow> t sdiv 1000000 = t div 1000000 \<and> t smod 1000000 = t mod 1000000"
  for t :: int
proof -
  assume "1 \<le> t div 1000000"
  then have "0 \<le> t" by presburger
  then show ?thesis by (simp add: sdiv_nonneg smod_nonneg)
qed

definition cached_second :: "timestamp \<Rightarrow> log_state \<Rightarrow> log_state" where
  "cached_second now s = (let t = microSecondsSinceEpoch now div 1000000 in s\<lparr>lg_lastSecond := t, lg_time := second_text (lg_zone s) t\<rparr>)"

lemma formatTime_ok:
  assumes log: "loggable (lg_zone s) (im_time im)" and zone: "zone_ok (lg_zone s)" and cache: "time_cache_ok s"
  shows "\<exists>f. adds f (time_text (lg_zone s) (im_time im))
    \<and> Impl_formatTime im s = f (im_stream im) \<bind> (\<lambda>b. Some (im\<lparr>im_stream := b\<rparr>, cached_second (im_time im) s))"
proof -
  let ?us = "microSecondsSinceEpoch (im_time im)" let ?t = "?us div 1000000" let ?m = "?us mod 1000000"
  let ?tail = "''.'' @ fmt_zero 6 ?m @ (if TimeZone_valid (lg_zone s) then '' '' else ''z '')"
  let ?n = "if TimeZone_valid (lg_zone s) then 8 else 9 :: int"
  have t: "1 \<le> ?t" using log by (simp add: loggable_def Let_def)
  have text17: "length (second_text (lg_zone s) ?t) = 17" by (rule second_text_length[OF log])
  have m: "0 \<le> ?m" "?m < 10 ^ 6" by simp_all
  have six: "length (fmt_zero 6 ?m) = 6" by (rule length_fmt_zero[OF m]) simp
  have m32: "to_int32 ?m = ?m" using m by (intro to_int32_small) (simp add: in_int32_def; linarith)
  have s': "(if ?t \<noteq> lg_lastSecond s then do {
         dt \<leftarrow> (if TimeZone_valid (lg_zone s) then map_option fst (TimeZone_toLocalTime (lg_zone s) ?t None) else Some (TimeZone_toUtcTime ?t));
         assert_that (length (log_time_text dt) = 17);
         Some (s\<lparr>lg_lastSecond := ?t, lg_time := snprintf_buf 64 (log_time_text dt)\<rparr>)
       } else Some s) = Some (cached_second (im_time im) s)"
  proof (cases "?t = lg_lastSecond s")
    case True
    then have "lg_time s = second_text (lg_zone s) ?t" using cache t by (simp add: time_cache_ok_def)
    then show ?thesis using True by (simp add: cached_second_def)
  next
    case False
    then show ?thesis unfolding zone_lookup[OF zone]
      using text17 by (simp add: cached_second_def Let_def snprintf_buf_def second_text_def)
  qed
  have "Fmt_new ?tail = Some \<lparr>fmt_text = ?tail @ [NUL], fmt_length = nat ?n\<rparr>"
    using six by (simp add: Fmt_new_def snprintf_buf_def)
  then have "Impl_formatTime im s = (LogStream_T (second_text (lg_zone s) ?t) 17 (im_stream im) \<bind> LogStream_T ?tail ?n)
      \<bind> (\<lambda>b. Some (im\<lparr>im_stream := b\<rparr>, cached_second (im_time im) s))"
    using six sdiv_million[OF t] m32 s'
    by (simp add: Impl_formatTime_def Let_def kMicroSecondsPerSecond_def cached_second_def split: if_splits)
  moreover have "adds (\<lambda>b. LogStream_T (second_text (lg_zone s) ?t) 17 b \<bind> LogStream_T ?tail ?n) (second_text (lg_zone s) ?t @ ?tail)"
    using text17 six by (intro adds_bind adds_T) simp_all
  ultimately show ?thesis unfolding time_text_def by blast
qed

subsection \<open>Lines\<close>

definition env_ok :: "log_env \<Rightarrow> bool" where
  "env_ok env \<longleftrightarrow> 0 < en_tid env \<and> en_tid env < 2 ^ 31 \<and> length (en_mem env) = kSmallBuffer \<and> (\<forall>e. no_nul (en_strerror env e))"

definition log_state_ok :: "log_env \<Rightarrow> log_state \<Rightarrow> bool" where
  "log_state_ok env s \<longleftrightarrow> time_cache_ok s \<and> tid_cache_ok (en_tid env) (lg_locals s) \<and> zone_ok (lg_zone s)"

definition errno_text :: "log_env \<Rightarrow> int \<Rightarrow> string" where
  "errno_text env e = (if e = 0 then [] else en_strerror env e @ '' (errno ='' @ dec_int e @ '') '')"

definition head_text :: "log_env \<Rightarrow> time_zone \<Rightarrow> timestamp \<Rightarrow> log_level \<Rightarrow> int \<Rightarrow> string" where
  "head_text env tz now level e = time_text tz now @ fmt_blank 5 (en_tid env) @ '' '' @ LogLevelName level @ errno_text env e"

definition after_head :: "log_env \<Rightarrow> timestamp \<Rightarrow> log_state \<Rightarrow> log_state" where
  "after_head env now s = (cached_second now s)\<lparr>lg_locals := snd (CurrentThread_tid (en_tid env) (lg_locals s))\<rparr>"

definition new_impl :: "timestamp \<Rightarrow> log_level \<Rightarrow> source_file \<Rightarrow> int \<Rightarrow> log_stream \<Rightarrow> log_impl" where
  "new_impl now level file line b = \<lparr>im_time = now, im_stream = b, im_level = level, im_line = line, im_basename = file\<rparr>"

text \<open>An operation on the stream that appends \<open>t\<close>, leaves the state \<open>s'\<close> and the object \<open>im\<close> around the stream.\<close>

definition makes :: "(log_impl \<times> log_state) outcome \<Rightarrow> log_env \<Rightarrow> string \<Rightarrow> (log_stream \<Rightarrow> log_impl) \<Rightarrow> log_state \<Rightarrow> bool" where
  "makes r env t im s' \<longleftrightarrow> (\<exists>f. adds f t \<and> r = f (FixedBuffer_new (en_mem env)) \<bind> (\<lambda>b. Some (im b, s')))"

lemma adds_errno:
  assumes "env_ok env" "in_64 e"
  shows "adds (\<lambda>b. if e \<noteq> 0 then do {
      b \<leftarrow> LogStream_cstr (c_string (en_strerror env e)) b;
      b \<leftarrow> LogStream_cstr (c_string '' (errno ='') b;
      b \<leftarrow> LogStream_int e b;
      LogStream_cstr (c_string '') '') b } else Some b) (errno_text env e)"
proof (cases "e = 0")
  case True
  then show ?thesis by (auto simp: adds_def errno_text_def)
next
  case False
  have "adds (\<lambda>b. LogStream_cstr (c_string (en_strerror env e)) b \<bind> (\<lambda>b. LogStream_cstr (c_string '' (errno ='') b
      \<bind> (\<lambda>b. LogStream_int e b \<bind> LogStream_cstr (c_string '') '')))) (en_strerror env e @ '' (errno ='' @ dec_int e @ '') '')"
    using assms by (intro adds_bind adds_cstr adds_int) (simp_all add: env_ok_def no_nul_def)
  then show ?thesis using False by (simp add: errno_text_def)
qed

lemma Impl_new_ok:
  assumes env: "env_ok env" and s: "log_state_ok env s" and now: "loggable (lg_zone s) now" and e: "in_64 e"
  shows "makes (Impl_new env now level e file line s) env (head_text env (lg_zone s) now level e) (new_impl now level file line)
    (after_head env now s)"
proof -
  let ?im = "new_impl now level file line (FixedBuffer_new (en_mem env))"
  obtain f where f: "adds f (time_text (lg_zone s) now)"
    and run: "Impl_formatTime ?im s = f (im_stream ?im) \<bind> (\<lambda>b. Some (?im\<lparr>im_stream := b\<rparr>, cached_second now s))"
    using formatTime_ok[of s ?im] now s by (auto simp: new_impl_def log_state_ok_def)
  note tid = CurrentThread_tid_ok[of "en_tid env" "lg_locals s"]
  have loc: "CurrentThread_tidString (snd (CurrentThread_tid (en_tid env) (lg_locals s))) = fmt_blank 5 (en_tid env)"
    "CurrentThread_tidStringLength (snd (CurrentThread_tid (en_tid env) (lg_locals s))) = int (length (fmt_blank 5 (en_tid env)))"
    using tid s env by (simp_all add: log_state_ok_def env_ok_def CurrentThread_tidString_def CurrentThread_tidStringLength_def)
  let ?g = "\<lambda>b. f b \<bind> (\<lambda>b. LogStream_T (fmt_blank 5 (en_tid env)) (int (length (fmt_blank 5 (en_tid env)))) b
    \<bind> (\<lambda>b. Some (LogStream_char (CHR '' '') b) \<bind> (\<lambda>b. LogStream_T (LogLevelName level) 6 b \<bind> (\<lambda>b. if e \<noteq> 0 then do {
      b \<leftarrow> LogStream_cstr (c_string (en_strerror env e)) b;
      b \<leftarrow> LogStream_cstr (c_string '' (errno ='') b;
      b \<leftarrow> LogStream_int e b;
      LogStream_cstr (c_string '') '') b } else Some b))))"
  have "int (length (LogLevelName level)) = 6" by (cases level) (simp_all add: LogLevelName_def)
  then have "adds ?g (time_text (lg_zone s) now @ fmt_blank 5 (en_tid env) @ [CHR '' ''] @ LogLevelName level @ errno_text env e)"
    using env e by (intro adds_bind adds_T adds_char adds_errno f) simp_all
  moreover have "Impl_new env now level e file line s
      = ?g (FixedBuffer_new (en_mem env)) \<bind> (\<lambda>b. Some (new_impl now level file line b, after_head env now s))"
    using run[unfolded new_impl_def]
    by (simp add: Impl_new_def Let_def after_head_def loc cached_second_def new_impl_def split_beta if_distrib)
  ultimately show ?thesis unfolding makes_def head_text_def by auto
qed

text \<open>The level of a statement, the error number and the function name it prints.\<close>

fun macro_level :: "log_macro \<Rightarrow> log_level" where
  "macro_level (LOG_TRACE func) = TRACE" | "macro_level (LOG_DEBUG func) = DEBUG" | "macro_level LOG_INFO = INFO"
| "macro_level LOG_WARN = WARN" | "macro_level LOG_ERROR = ERROR" | "macro_level LOG_FATAL = FATAL" | "macro_level LOG_SYSERR = ERROR"
| "macro_level LOG_SYSFATAL = FATAL"

definition macro_errno :: "int \<Rightarrow> log_macro \<Rightarrow> int" where
  "macro_errno e m = (if m = LOG_SYSERR \<or> m = LOG_SYSFATAL then e else 0)"

fun macro_func :: "log_macro \<Rightarrow> string" where
  "macro_func (LOG_TRACE func) = func @ '' ''" | "macro_func (LOG_DEBUG func) = func @ '' ''" | "macro_func _ = []"

definition log_line :: "log_env \<Rightarrow> time_zone \<Rightarrow> ('d \<Rightarrow> string) \<Rightarrow> 'd log_statement \<Rightarrow> string" where
  "log_line env tz g st = head_text env tz (st_now st) (macro_level (st_macro st)) (macro_errno (st_errno st) (st_macro st))
     @ macro_func (st_macro st) @ concat (map (item_text g) (st_items st))
     @ '' - '' @ basename (st_file st) @ '':'' @ dec_int (st_line st) @ [CHR 0x0A]"

definition statement_ok :: "log_env \<Rightarrow> time_zone \<Rightarrow> ('d \<Rightarrow> string) \<Rightarrow> 'd log_statement \<Rightarrow> bool" where
  "statement_ok env tz g st \<longleftrightarrow> loggable tz (st_now st) \<and> in_64 (st_errno st) \<and> in_64 (st_line st) \<and> (\<forall>x \<in> set (st_items st). item_ok g x)
     \<and> no_nul (macro_func (st_macro st)) \<and> length (log_line env tz g st) + 48 \<le> kSmallBuffer"

lemma macro_new_ok:
  assumes env: "env_ok env" and s: "log_state_ok env s" and now: "loggable (lg_zone s) now" and e: "in_64 e" and func: "no_nul (macro_func m)"
  shows "makes (macro_new env now e m file line s) env (head_text env (lg_zone s) now (macro_level m) (macro_errno e m) @ macro_func m)
    (new_impl now (macro_level m) file line) (after_head env now s)"
proof -
  have zero: "in_64 0" by (simp add: in_64_def)
  have with_func: "makes (Logger_new_func env now file line level f s) env (head_text env (lg_zone s) now level 0 @ f @ '' '')
      (new_impl now level file line) (after_head env now s)" if f: "no_nul f" for level f
  proof -
    from Impl_new_ok[OF env s now zero, of level "file" "line"] obtain h where h: "adds h (head_text env (lg_zone s) now level 0)"
      and run: "Impl_new env now level 0 file line s = h (FixedBuffer_new (en_mem env))
        \<bind> (\<lambda>b. Some (new_impl now level file line b, after_head env now s))"
      by (auto simp: makes_def)
    let ?h = "\<lambda>b. h b \<bind> (\<lambda>b. LogStream_cstr (c_string f) b \<bind> (\<lambda>b. Some (LogStream_char (CHR '' '') b)))"
    have "adds ?h (head_text env (lg_zone s) now level 0 @ f @ [CHR '' ''])"
      by (intro adds_bind h adds_cstr f adds_char)
    moreover have "Logger_new_func env now file line level f s
        = ?h (FixedBuffer_new (en_mem env)) \<bind> (\<lambda>b. Some (new_impl now level file line b, after_head env now s))"
      by (simp add: Logger_new_func_def run new_impl_def)
    ultimately show ?thesis unfolding makes_def by auto
  qed
  show ?thesis
    using with_func Impl_new_ok[OF env s now zero] Impl_new_ok[OF env s now e] func
    by (cases m) (auto simp: macro_errno_def Logger_new_def Logger_new_level_def Logger_new_errno_def no_nul_def)
qed

lemma adds_finish:
  assumes "in_64 line"
  shows "\<exists>h. adds h ('' - '' @ basename file @ '':'' @ dec_int line @ [CHR 0x0A])
    \<and> (\<forall>b. Impl_finish (new_impl now level (SourceFile_of_array file) line b) = h b \<bind> (\<lambda>b. Some (new_impl now level (SourceFile_of_array file) line b)))"
proof -
  let ?h = "\<lambda>b. LogStream_cstr (c_string '' - '') b \<bind> (\<lambda>b. LogStream_sourceFile (SourceFile_of_array file) b
    \<bind> (\<lambda>b. Some (LogStream_char (CHR '':'') b) \<bind> (\<lambda>b. LogStream_int line b \<bind> (\<lambda>b. Some (LogStream_char (CHR 0x0A) b)))))"
  have "adds ?h ('' - '' @ basename file @ [CHR '':''] @ dec_int line @ [CHR 0x0A])"
    using assms by (intro adds_bind adds_cstr adds_sourceFile adds_char adds_int) (simp_all add: no_nul_def)
  moreover have "Impl_finish (new_impl now level (SourceFile_of_array file) line b)
      = ?h b \<bind> (\<lambda>b. Some (new_impl now level (SourceFile_of_array file) line b))" for b
    by (simp add: Impl_finish_def new_impl_def)
  ultimately show ?thesis by (intro exI[of _ ?h]) simp
qed

text \<open>What a statement does to the state.\<close>

definition fatal_calls :: "log_env \<Rightarrow> int \<Rightarrow> log_state \<Rightarrow> log_call list" where
  "fatal_calls env e s = [Printed (''fatal error'' @ [CHR 0x0A] @ en_strerror env e @ [CHR 0x0A]), Flush (lg_flush s)]"

lemma log_execute_ok:
  assumes env: "env_ok env" and s: "log_state_ok env s" and st: "statement_ok env (lg_zone s) g st"
    and on: "macro_enabled (lg_level s) (st_macro st)"
  shows "log_execute env g st s = Some ((after_head env (st_now st) s)\<lparr>
     lg_calls := lg_calls s @ Output (lg_output s) (log_line env (lg_zone s) g st)
       # (if macro_level (st_macro st) = FATAL then fatal_calls env (st_errno_end st) s else []),
     lg_aborted := lg_aborted s \<or> macro_level (st_macro st) = FATAL\<rparr>)"
proof -
  let ?m = "st_macro st" let ?file = "SourceFile_of_array (st_file st)"
  let ?head = "head_text env (lg_zone s) (st_now st) (macro_level ?m) (macro_errno (st_errno st) ?m) @ macro_func ?m"
  let ?body = "concat (map (item_text g) (st_items st))" let ?mem = "FixedBuffer_new (en_mem env)"
  obtain f where f: "adds f ?head" and new: "macro_new env (st_now st) (st_errno st) ?m ?file (st_line st) s
      = f ?mem \<bind> (\<lambda>b. Some (new_impl (st_now st) (macro_level ?m) ?file (st_line st) b, after_head env (st_now st) s))"
    using macro_new_ok[OF env s, of "st_now st" "st_errno st" ?m ?file "st_line st"] st unfolding makes_def statement_ok_def by blast
  obtain h where h: "adds h ('' - '' @ basename (st_file st) @ '':'' @ dec_int (st_line st) @ [CHR 0x0A])"
    and fin: "\<And>b. Impl_finish (new_impl (st_now st) (macro_level ?m) ?file (st_line st) b)
        = h b \<bind> (\<lambda>b. Some (new_impl (st_now st) (macro_level ?m) ?file (st_line st) b))"
    using adds_finish[of "st_line st" "st_file st" "st_now st" "macro_level ?m"] st unfolding statement_ok_def by blast
  let ?all = "\<lambda>b. f b \<bind> (\<lambda>b. for_each (LogStream_insert g) (st_items st) b \<bind> h)"
  have "adds ?all (?head @ ?body @ '' - '' @ basename (st_file st) @ '':'' @ dec_int (st_line st) @ [CHR 0x0A])"
    using st by (intro adds_bind f h adds_items) (simp add: statement_ok_def)
  then have "adds ?all (log_line env (lg_zone s) g st)" by (simp add: log_line_def)
  moreover have "fb_ok ?mem" "FixedBuffer_toString ?mem = []" "fb_cur ?mem = 0" "length (fb_data ?mem) = kSmallBuffer"
  proof -
    have "en_mem env \<noteq> []" using env by (auto simp: env_ok_def kSmallBuffer_def)
    then show "fb_ok ?mem" "FixedBuffer_toString ?mem = []" "fb_cur ?mem = 0" "length (fb_data ?mem) = kSmallBuffer"
      using env new_ok[of "en_mem env"] by (simp_all add: env_ok_def FixedBuffer_new_def)
  qed
  ultimately obtain b where b: "?all ?mem = Some b" "FixedBuffer_toString b = log_line env (lg_zone s) g st"
    using addsD[of ?all "log_line env (lg_zone s) g st" ?mem] st by (auto simp: statement_ok_def)
  then obtain b1 b2 where "f ?mem = Some b1" "for_each (LogStream_insert g) (st_items st) b1 = Some b2" "h b2 = Some b"
    by (auto simp: bind_eq_Some_conv)
  then show ?thesis using on b(2) fin[of b2]
    by (simp add: log_execute_def new Logger_destroy_def new_impl_def fatal_calls_def after_head_def cached_second_def Let_def)
qed

lemma after_head_ok:
  assumes env: "env_ok env" and s: "log_state_ok env s" and now: "loggable (lg_zone s) now"
  shows "log_state_ok env (after_head env now s)"
proof -
  have "time_cache_ok (after_head env now s)"
    using second_text_length[OF now] by (simp add: after_head_def cached_second_def time_cache_ok_def Let_def)
  moreover have "tid_cache_ok (en_tid env) (lg_locals (after_head env now s))"
    using CurrentThread_tid_ok[of "en_tid env" "lg_locals s"] env s by (simp add: after_head_def env_ok_def log_state_ok_def)
  ultimately show ?thesis using s by (simp add: log_state_ok_def after_head_def cached_second_def Let_def)
qed

lemma log_state_ok_ignores [simp]:
  "log_state_ok env (s\<lparr>lg_calls := c\<rparr>) = log_state_ok env s" "log_state_ok env (s\<lparr>lg_aborted := a\<rparr>) = log_state_ok env s"
  by (simp_all add: log_state_ok_def time_cache_ok_def)

subsection \<open>Properties\<close>

text \<open>The calls that a list of statements makes: a line each, and after a fatal one the end.\<close>

fun expected_calls :: "log_env \<Rightarrow> log_state \<Rightarrow> ('d \<Rightarrow> string) \<Rightarrow> 'd log_statement list \<Rightarrow> log_call list" where
  "expected_calls env s g [] = []"
| "expected_calls env s g (st # sts) =
     (if \<not> macro_enabled (lg_level s) (st_macro st) then expected_calls env s g sts
      else Output (lg_output s) (log_line env (lg_zone s) g st)
        # (if macro_level (st_macro st) = FATAL then fatal_calls env (st_errno_end st) s else expected_calls env s g sts))"

lemma expected_calls_cong:
  "lg_level s' = lg_level s \<Longrightarrow> lg_output s' = lg_output s \<Longrightarrow> lg_flush s' = lg_flush s \<Longrightarrow> lg_zone s' = lg_zone s
    \<Longrightarrow> expected_calls env s' g sts = expected_calls env s g sts"
  by (induction sts) (simp_all add: fatal_calls_def)

lemma log_run_aborted: "lg_aborted s \<Longrightarrow> log_run env g sts s = Some s"
  by (cases sts) simp_all

lemma log_run_ok:
  assumes "env_ok env" "log_state_ok env s" "\<forall>st \<in> set sts. statement_ok env (lg_zone s) g st" "\<not> lg_aborted s"
  shows "\<exists>s'. log_run env g sts s = Some s' \<and> lg_calls s' = lg_calls s @ expected_calls env s g sts
    \<and> lg_aborted s' = list_ex (\<lambda>st. macro_level (st_macro st) = FATAL) sts"
  using assms
proof (induction sts arbitrary: s)
  case Nil
  then show ?case by simp
next
  case (Cons st sts)
  show ?case
  proof (cases "macro_enabled (lg_level s) (st_macro st)")
    case False
    then have "macro_level (st_macro st) \<noteq> FATAL" by (cases "st_macro st") auto
    then show ?thesis using Cons.IH[of s] Cons.prems False by (simp add: log_execute_def)
  next
    case True
    let ?s = "(after_head env (st_now st) s)\<lparr>lg_calls := lg_calls s @ Output (lg_output s) (log_line env (lg_zone s) g st)
        # (if macro_level (st_macro st) = FATAL then fatal_calls env (st_errno_end st) s else []),
        lg_aborted := lg_aborted s \<or> macro_level (st_macro st) = FATAL\<rparr>"
    have run: "log_execute env g st s = Some ?s"
      by (rule log_execute_ok) (use Cons.prems True in auto)
    have ok: "log_state_ok env ?s" using after_head_ok[of env s "st_now st"] Cons.prems by (simp add: statement_ok_def)
    have same: "lg_zone ?s = lg_zone s" "lg_level ?s = lg_level s" "lg_output ?s = lg_output s" "lg_flush ?s = lg_flush s"
      by (simp_all add: after_head_def cached_second_def Let_def)
    show ?thesis
    proof (cases "macro_level (st_macro st) = FATAL")
      case True
      then show ?thesis using run \<open>macro_enabled (lg_level s) (st_macro st)\<close> Cons.prems(4) by (simp add: log_run_aborted)
    next
      case False
      then have "\<not> lg_aborted ?s" using Cons.prems by simp
      from Cons.IH[OF Cons.prems(1) ok _ this] Cons.prems same obtain s' where
        "log_run env g sts ?s = Some s'" "lg_calls s' = lg_calls ?s @ expected_calls env ?s g sts"
        "lg_aborted s' = list_ex (\<lambda>st. macro_level (st_macro st) = FATAL) sts" by auto
      then show ?thesis using run True False Cons.prems(4) expected_calls_cong[OF same(2,3,4,1)] by simp
    qed
  qed
qed

text \<open>C26: Log lines. A thread that executes log statements, from a state in which its caches are good
  (as they are at the start), delivers for every statement whose level is enabled, in order, exactly one
  line to the output function: date and time of the statement in the zone of the logger (from the
  one-second cache), microseconds, thread id, level, error text for the \<open>SYS\<close> statements, function name
  for \<open>TRACE\<close> and \<open>DEBUG\<close>, the texts of the inserted values, the file name without its directories, the line
  number and a newline. A \<open>FATAL\<close> statement delivers its line, flushes and aborts; nothing is logged after it.
  The assumptions are that times are from 1970-01-01 00:00:01 on in years of at most four digits and that a
  line leaves 48 bytes of the buffer free.\<close>

theorem Logger_lines_exact:
  assumes "env_ok env" "log_state_ok env s" "\<forall>st \<in> set sts. statement_ok env (lg_zone s) g st" "\<not> lg_aborted s"
  shows "\<exists>s'. log_run env g sts s = Some s' \<and> lg_calls s' = lg_calls s @ expected_calls env s g sts
    \<and> lg_aborted s' = list_ex (\<lambda>st. macro_level (st_macro st) = FATAL) sts"
  using assms by (rule log_run_ok)

lemma log_state_init_ok: "log_state_ok env (log_state_init level)"
  by (simp add: log_state_ok_def log_state_init_def time_cache_ok_def tid_cache_ok_def thread_locals_init_def zone_ok_def TimeZone_invalid_def)

text \<open>A thread of id 7 logs at 2024-02-29 12:34:56.000007 UTC.\<close>

definition demo_env :: log_env where
  "demo_env = \<lparr>en_tid = 7, en_strerror = \<lambda>e. ''error'', en_mem = replicate kSmallBuffer NUL\<rparr>"

definition demo_statement :: "nat log_statement" where
  "demo_statement = \<lparr>st_macro = LOG_INFO, st_now = Timestamp 1709210096000007, st_errno = 0, st_errno_end = 0, st_file = ''dc/net/a.cc'', st_line = 42,
     st_items = [Put_str ''up'']\<rparr>"

lemma demo_utc: "TimeZone_toUtcTime 1709210096
    = \<lparr>dt_year = 2024, dt_month = 2, dt_day = 29, dt_hour = 12, dt_minute = 34, dt_second = 56\<rparr>"
  by (simp add: TimeZone_toUtcTime_def BreakTime_floor calendar_seconds_def julian_1970 getYearMonthDay_def sdiv_nonneg Let_def)

lemma demo_loggable: "loggable TimeZone_invalid (Timestamp 1709210096000007)"
  by (simp add: loggable_def Let_def zone_offset_def TimeZone_invalid_def calendar_seconds_def demo_utc)

lemma demo_digits:
  "dec_nat 2024 = ''2024''" "dec_nat 2 = ''2''" "dec_nat 29 = ''29''" "dec_nat 12 = ''12''" "dec_nat 34 = ''34''" "dec_nat 56 = ''56''"
  "dec_nat 7 = ''7''" "dec_nat 42 = ''42''"
  by (simp_all add: dec_nat.simps digit_char_def char_of_def bit_0)

lemma demo_line: "log_line demo_env TimeZone_invalid dec_nat demo_statement
    = ''20240229 12:34:56.000007z     7 INFO  up - a.cc:42'' @ [CHR 0x0A]"
  by (simp add: log_line_def head_text_def time_text_def second_text_def zone_offset_def TimeZone_invalid_def TimeZone_valid_def
      demo_statement_def demo_env_def demo_utc log_time_text_def fmt_zero_def fmt_blank_def dec_int_def demo_digits Let_def
      errno_text_def macro_errno_def LogLevelName_def basename_def)
    (simp add: numeral_eq_Suc)

theorem Logger_lines_exact_witness:
  "\<exists>s'. log_run demo_env dec_nat [demo_statement] (log_state_init INFO) = Some s'
    \<and> lg_calls s' = [Output 0 (''20240229 12:34:56.000007z     7 INFO  up - a.cc:42'' @ [CHR 0x0A])] \<and> \<not> lg_aborted s'"
proof -
  have env: "env_ok demo_env" by (simp add: env_ok_def demo_env_def no_nul_def)
  have zone: "lg_zone (log_state_init INFO) = TimeZone_invalid" "lg_level (log_state_init INFO) = INFO"
    "lg_calls (log_state_init INFO) = []" "lg_output (log_state_init INFO) = 0" "\<not> lg_aborted (log_state_init INFO)"
    by (simp_all add: log_state_init_def)
  have "statement_ok demo_env TimeZone_invalid dec_nat demo_statement"
    unfolding statement_ok_def demo_line using demo_loggable by (simp add: demo_statement_def in_64_def no_nul_def kSmallBuffer_def)
  moreover have "st_macro demo_statement = LOG_INFO" by (simp add: demo_statement_def)
  ultimately show ?thesis
    using Logger_lines_exact[OF env log_state_init_ok, of "[demo_statement]" INFO dec_nat] by (simp add: zone demo_line)
qed

subsection \<open>Where the time cache goes wrong\<close>

text \<open>\<open>setTimeZone\<close> does not clear the cache: within the second of the last line the old text is printed.\<close>

lemma Logger_setTimeZone_stale:
  assumes "Impl_formatTime im (Logger_setTimeZone tz s) = Some (im', s')"
    and "microSecondsSinceEpoch (im_time im) sdiv 1000000 = lg_lastSecond s"
  shows "lg_time s' = lg_time s"
  using assms by (auto simp: Impl_formatTime_def Logger_setTimeZone_def kMicroSecondsPerSecond_def Let_def bind_eq_Some_conv split: if_splits)

text \<open>The empty cache stands for second 0: a first line in it fails the assertion on the length of the time.\<close>

lemma Logger_epoch_aborts:
  assumes "0 \<le> microSecondsSinceEpoch (im_time im)" "microSecondsSinceEpoch (im_time im) < 1000000"
  shows "Impl_formatTime im (log_state_init level) = None"
  using assms
  by (auto simp: Impl_formatTime_def log_state_init_def kMicroSecondsPerSecond_def sdiv_nonneg Let_def LogStream_T_def bind_eq_None_conv
      TimeZone_valid_def TimeZone_invalid_def)

end
