(* ===== verification/InetAddress.thy ===== *)
theory InetAddress
  imports Buffer
begin

text \<open>
  Addresses and sockets: \<open>dc::net::InetAddress\<close> (\<open>net/inetAddress.h\<close>, \<open>net/inetAddress.cc\<close>), the functions of
  \<open>net/socketsOps.cc\<close> on addresses, and \<open>dc::net::Socket\<close> (\<open>net/socket.h\<close>, \<open>net/socket.cc\<close>). What the kernel and
  the resolver answer are arguments. \<open>inet_ntop\<close> and \<open>inet_pton\<close> are modelled for IPv4; the text form of IPv6
  addresses is the argument \<open>t6\<close>.
\<close>

subsection \<open>Socket addresses\<close>

text \<open>
  The union of \<open>sockaddr_in\<close> and \<open>sockaddr_in6\<close>, by its bytes: family and port are shared, \<open>sa_word\<close> is
  \<open>sin_addr\<close> or \<open>sin6_flowinfo\<close>, \<open>sa_addr6\<close> the 16 bytes of \<open>sin6_addr\<close> (the first eight are \<open>sin_zero\<close>).
  Ports and addresses are in network order.
\<close>

record sockaddr =
  sa_family :: nat
  sa_port :: "16 word"
  sa_word :: "32 word"
  sa_addr6 :: "char list"
  sa_scope :: "32 word"

definition AF_INET :: nat where
  "AF_INET = 2"

definition AF_INET6 :: nat where
  "AF_INET6 = 10"

text \<open>\<open>memZero\<close> of the whole union and of its \<open>sockaddr_in\<close>.\<close>

definition sockaddr_zero :: sockaddr where
  "sockaddr_zero = \<lparr>sa_family = 0, sa_port = 0, sa_word = 0, sa_addr6 = replicate 16 (CHR 0x00), sa_scope = 0\<rparr>"

definition sockaddr_zero4 :: "sockaddr \<Rightarrow> sockaddr" where
  "sockaddr_zero4 raw = raw\<lparr>sa_family := 0, sa_port := 0, sa_word := 0, sa_addr6 := replicate 8 (CHR 0x00) @ drop 8 (sa_addr6 raw)\<rparr>"

subsection \<open>\<open>inet_ntop\<close> and \<open>inet_pton\<close> for IPv4\<close>

fun join_dots :: "string list \<Rightarrow> string" where
  "join_dots [] = []"
| "join_dots [p] = p"
| "join_dots (p # q # ps) = p @ CHR ''.'' # join_dots (q # ps)"

fun split_dots :: "string \<Rightarrow> string list" where
  "split_dots [] = [[]]"
| "split_dots (c # cs) = (if c = CHR ''.'' then [] # split_dots cs
     else case split_dots cs of p # ps \<Rightarrow> (c # p) # ps | [] \<Rightarrow> [[c]])"

definition inet_ntop4 :: "32 word \<Rightarrow> string" where
  "inet_ntop4 addr = join_dots (map (\<lambda>c. dec_nat (of_char c)) (le_bytes 4 (unat addr)))"

text \<open>Four decimal numbers up to 255 without leading zeros.\<close>

definition is_digit :: "char \<Rightarrow> bool" where
  "is_digit c \<longleftrightarrow> c \<in> set ''0123456789''"

definition octet_of :: "string \<Rightarrow> nat option" where
  "octet_of p = (if p \<noteq> [] \<and> list_all is_digit p \<and> (hd p = CHR ''0'' \<longrightarrow> length p = 1) \<and> dec_value p 0 \<le> 255
     then Some (dec_value p 0) else None)"

definition inet_pton4 :: "string \<Rightarrow> 32 word option" where
  "inet_pton4 s = (case split_dots s of
     [p, q, r, t] \<Rightarrow> do {
       a \<leftarrow> octet_of p; b \<leftarrow> octet_of q; c \<leftarrow> octet_of r; d \<leftarrow> octet_of t;
       Some (word_of_nat (le_value [char_of a, char_of b, char_of c, char_of d]))
     }
   | _ \<Rightarrow> None)"

record inet6_text =
  inet_ntop6 :: "char list \<Rightarrow> string"
  inet_pton6 :: "string \<Rightarrow> char list option"

subsection \<open>\<open>sockets\<close>\<close>

text \<open>\<open>toIp\<close> leaves the buffer as it is for other families; \<open>buf\<close> is its text before.\<close>

definition sockets_toIp :: "inet6_text \<Rightarrow> string \<Rightarrow> nat \<Rightarrow> sockaddr \<Rightarrow> string outcome" where
  "sockets_toIp t6 buf sz addr = (if sa_family addr = AF_INET6 then do {
       assert_that (sz \<ge> 46);
       Some (inet_ntop6 t6 (sa_addr6 addr))
     } else if sa_family addr = AF_INET then do {
       assert_that (sz \<ge> 16);
       Some (inet_ntop4 (sa_word addr))
     } else Some buf)"

definition sockets_toIpPort :: "inet6_text \<Rightarrow> string \<Rightarrow> nat \<Rightarrow> sockaddr \<Rightarrow> string outcome" where
  "sockets_toIpPort t6 buf sz addr = (if sa_family addr = AF_INET6 then do {
       ip \<leftarrow> sockets_toIp t6 (tl buf) (sz - 1) addr;
       let buf = CHR ''['' # ip;
       let port = networkToHost16 (sa_port addr);
       assert_that (sz > length buf);
       Some (buf @ snprintf_buf (sz - length buf) ('']:'' @ dec_nat (unat port)))
     } else do {
       buf \<leftarrow> sockets_toIp t6 buf sz addr;
       let port = networkToHost16 (sa_port addr);
       assert_that (sz > length buf);
       Some (buf @ snprintf_buf (sz - length buf) ('':'' @ dec_nat (unat port)))
     })"

text \<open>The second component says whether \<open>LOG_SYSERR\<close> was executed.\<close>

definition sockets_fromIpPort4 :: "string \<Rightarrow> 16 word \<Rightarrow> sockaddr \<Rightarrow> sockaddr \<times> bool" where
  "sockets_fromIpPort4 ip port addr = (let addr = addr\<lparr>sa_family := AF_INET, sa_port := hostToNetwork16 port\<rparr> in
     case inet_pton4 ip of Some a \<Rightarrow> (addr\<lparr>sa_word := a\<rparr>, False) | None \<Rightarrow> (addr, True))"

definition sockets_fromIpPort6 :: "inet6_text \<Rightarrow> string \<Rightarrow> 16 word \<Rightarrow> sockaddr \<Rightarrow> sockaddr \<times> bool" where
  "sockets_fromIpPort6 t6 ip port addr = (let addr = addr\<lparr>sa_family := AF_INET6, sa_port := hostToNetwork16 port\<rparr> in
     case inet_pton6 t6 ip of Some a \<Rightarrow> (addr\<lparr>sa_addr6 := a\<rparr>, False) | None \<Rightarrow> (addr, True))"

text \<open>\<open>getsockopt(SO_ERROR)\<close>: an error number when it fails, else the value.\<close>

definition sockets_getSocketError :: "int + int \<Rightarrow> int" where
  "sockets_getSocketError r = (case r of Inl errno \<Rightarrow> errno | Inr optval \<Rightarrow> optval)"

definition sockets_getLocalAddr :: "sockaddr option \<Rightarrow> sockaddr \<times> bool" where
  "sockets_getLocalAddr r = (case r of Some addr \<Rightarrow> (addr, False) | None \<Rightarrow> (sockaddr_zero, True))"

definition sockets_getPeerAddr :: "sockaddr option \<Rightarrow> sockaddr \<times> bool" where
  "sockets_getPeerAddr r = (case r of Some addr \<Rightarrow> (addr, False) | None \<Rightarrow> (sockaddr_zero, True))"

definition sockets_isSelfConnect :: "sockaddr option \<Rightarrow> sockaddr option \<Rightarrow> bool" where
  "sockets_isSelfConnect sockname peername =
     (let localaddr = fst (sockets_getLocalAddr sockname); peeraddr = fst (sockets_getPeerAddr peername) in
      if sa_family localaddr = AF_INET
      then sa_port localaddr = sa_port peeraddr \<and> sa_word localaddr = sa_word peeraddr
      else if sa_family localaddr = AF_INET6
      then sa_port localaddr = sa_port peeraddr \<and> sa_addr6 localaddr = sa_addr6 peeraddr
      else False)"

text \<open>The result of the system call; the wrapper logs when it is negative.\<close>

definition sockets_close :: "int \<Rightarrow> bool" where
  "sockets_close ret = (ret < 0)"

definition sockets_shutdownWrite :: "int \<Rightarrow> bool" where
  "sockets_shutdownWrite ret = (ret < 0)"

subsection \<open>\<open>InetAddress\<close>\<close>

text \<open>\<open>raw\<close> is the uninitialised memory of the object.\<close>

definition InetAddress_any :: "16 word \<Rightarrow> bool \<Rightarrow> bool \<Rightarrow> sockaddr \<Rightarrow> sockaddr" where
  "InetAddress_any portArg loopbackOnly ipv6 raw = (if ipv6
     then sockaddr_zero\<lparr>sa_family := AF_INET6, sa_port := hostToNetwork16 portArg,
       sa_addr6 := (if loopbackOnly then replicate 15 (CHR 0x00) @ [CHR 0x01] else replicate 16 (CHR 0x00))\<rparr>
     else (sockaddr_zero4 raw)\<lparr>sa_family := AF_INET, sa_port := hostToNetwork16 portArg,
       sa_word := hostToNetwork32 (if loopbackOnly then 0x7F000001 else 0)\<rparr>)"

text \<open>The address text \<open>ip\<close> is a C string: it has no NUL character, which would end it.\<close>

definition InetAddress_of_ip :: "inet6_text \<Rightarrow> string \<Rightarrow> 16 word \<Rightarrow> bool \<Rightarrow> sockaddr \<Rightarrow> sockaddr \<times> bool" where
  "InetAddress_of_ip t6 ip portArg ipv6 raw = (if ipv6 \<or> CHR '':'' \<in> set ip
     then sockets_fromIpPort6 t6 ip portArg sockaddr_zero
     else sockets_fromIpPort4 ip portArg (sockaddr_zero4 raw))"

definition InetAddress_of_in :: "sockaddr \<Rightarrow> sockaddr \<Rightarrow> sockaddr" where
  "InetAddress_of_in addr raw = raw\<lparr>sa_family := sa_family addr, sa_port := sa_port addr, sa_word := sa_word addr,
     sa_addr6 := take 8 (sa_addr6 addr) @ drop 8 (sa_addr6 raw)\<rparr>"

definition InetAddress_of_in6 :: "sockaddr \<Rightarrow> sockaddr" where
  "InetAddress_of_in6 addr6 = addr6"

definition InetAddress_family :: "sockaddr \<Rightarrow> nat" where
  "InetAddress_family a = sa_family a"

definition InetAddress_setSockAddrInet6 :: "sockaddr \<Rightarrow> sockaddr \<Rightarrow> sockaddr" where
  "InetAddress_setSockAddrInet6 addr6 a = addr6"

definition InetAddress_portNetEndian :: "sockaddr \<Rightarrow> 16 word" where
  "InetAddress_portNetEndian a = sa_port a"

definition InetAddress_toIpPort :: "inet6_text \<Rightarrow> sockaddr \<Rightarrow> string outcome" where
  "InetAddress_toIpPort t6 a = sockets_toIpPort t6 [] 64 a"

definition InetAddress_toIp :: "inet6_text \<Rightarrow> sockaddr \<Rightarrow> string outcome" where
  "InetAddress_toIp t6 a = sockets_toIp t6 [] 64 a"

definition InetAddress_port :: "sockaddr \<Rightarrow> 16 word" where
  "InetAddress_port a = networkToHost16 (InetAddress_portNetEndian a)"

definition InetAddress_ipv4NetEndian :: "sockaddr \<Rightarrow> (32 word) outcome" where
  "InetAddress_ipv4NetEndian a = do { assert_that (InetAddress_family a = AF_INET); Some (sa_word a) }"

text \<open>What \<open>gethostbyname_r\<close> returns: its result and the entry, with address type, length and first address.\<close>

record host_entry =
  h_addrtype :: nat
  h_length :: nat
  h_addr :: "32 word"

definition InetAddress_resolve :: "int \<Rightarrow> host_entry option \<Rightarrow> sockaddr \<Rightarrow> (bool \<times> sockaddr \<times> bool) outcome" where
  "InetAddress_resolve ret he result = (case he of
     Some h \<Rightarrow> if ret = 0 then do {
         assert_that (h_addrtype h = AF_INET \<and> h_length h = 4);
         Some (True, result\<lparr>sa_word := h_addr h\<rparr>, False)
       } else Some (False, result, True)
   | None \<Rightarrow> Some (False, result, ret \<noteq> 0))"

definition InetAddress_setScopeId :: "32 word \<Rightarrow> sockaddr \<Rightarrow> sockaddr" where
  "InetAddress_setScopeId scope_id a = (if InetAddress_family a = AF_INET6 then a\<lparr>sa_scope := scope_id\<rparr> else a)"

subsection \<open>\<open>Socket\<close>\<close>

text \<open>The options set on the descriptor, in order, and whether it has been closed.\<close>

datatype sockopt = TCP_NODELAY int | SO_REUSEADDR int | SO_REUSEPORT int | SO_KEEPALIVE int

record socket =
  sk_fd :: int
  sk_options :: "sockopt list"
  sk_closed :: bool

definition Socket_new :: "int \<Rightarrow> socket" where
  "Socket_new sockfd = \<lparr>sk_fd = sockfd, sk_options = [], sk_closed = False\<rparr>"

definition Socket_destroy :: "socket \<Rightarrow> socket" where
  "Socket_destroy s = s\<lparr>sk_closed := True\<rparr>"

text \<open>\<open>accept4\<close> with the address it stores: \<open>connfd\<close> is its result after the error handling of \<open>sockets::accept\<close>.\<close>

definition Socket_accept :: "int \<Rightarrow> sockaddr \<Rightarrow> sockaddr \<Rightarrow> int \<times> sockaddr" where
  "Socket_accept connfd addr peeraddr = (connfd, if connfd \<ge> 0 then InetAddress_setSockAddrInet6 addr peeraddr else peeraddr)"

definition socket_option :: "sockopt \<Rightarrow> socket \<Rightarrow> socket" where
  "socket_option opt s = s\<lparr>sk_options := sk_options s @ [opt]\<rparr>"

definition Socket_setTcpNoDelay :: "bool \<Rightarrow> socket \<Rightarrow> socket" where
  "Socket_setTcpNoDelay on s = socket_option (TCP_NODELAY (if on then 1 else 0)) s"

definition Socket_setReuseAddr :: "bool \<Rightarrow> socket \<Rightarrow> socket" where
  "Socket_setReuseAddr on s = socket_option (SO_REUSEADDR (if on then 1 else 0)) s"

text \<open>\<open>ret\<close> is the result of \<open>setsockopt\<close>; the second component says whether an error is logged.\<close>

definition Socket_setReusePort :: "int \<Rightarrow> bool \<Rightarrow> socket \<Rightarrow> socket \<times> bool" where
  "Socket_setReusePort ret on s = (socket_option (SO_REUSEPORT (if on then 1 else 0)) s, ret < 0 \<and> on)"

definition Socket_setKeepAlive :: "bool \<Rightarrow> socket \<Rightarrow> socket" where
  "Socket_setKeepAlive on s = socket_option (SO_KEEPALIVE (if on then 1 else 0)) s"

record tcp_info =
  tcpi_retransmits :: nat
  tcpi_rto :: nat
  tcpi_ato :: nat
  tcpi_snd_mss :: nat
  tcpi_rcv_mss :: nat
  tcpi_lost :: nat
  tcpi_retrans :: nat
  tcpi_rtt :: nat
  tcpi_rttvar :: nat
  tcpi_snd_ssthresh :: nat
  tcpi_snd_cwnd :: nat
  tcpi_total_retrans :: nat

definition Socket_getTcpInfo :: "tcp_info option \<Rightarrow> bool" where
  "Socket_getTcpInfo r = (r \<noteq> None)"

definition Socket_getTcpInfoString :: "tcp_info option \<Rightarrow> string \<Rightarrow> nat \<Rightarrow> string \<times> bool" where
  "Socket_getTcpInfoString r buf len = (case r of
     None \<Rightarrow> (buf, False)
   | Some t \<Rightarrow> (snprintf_buf len (''unrecovered='' @ dec_nat (tcpi_retransmits t) @ ''rot='' @ dec_nat (tcpi_rto t)
       @ '' ato='' @ dec_nat (tcpi_ato t) @ '' snd_mss='' @ dec_nat (tcpi_snd_mss t) @ '' rcv_mss='' @ dec_nat (tcpi_rcv_mss t)
       @ '' lost='' @ dec_nat (tcpi_lost t) @ '' retrans='' @ dec_nat (tcpi_retrans t) @ '' rtt='' @ dec_nat (tcpi_rtt t)
       @ '' rttvar='' @ dec_nat (tcpi_rttvar t) @ '' sshthresh='' @ dec_nat (tcpi_snd_ssthresh t) @ '' cwnd='' @ dec_nat (tcpi_snd_cwnd t)
       @ '' total_retrans='' @ dec_nat (tcpi_total_retrans t)), True))"

subsection \<open>Text and addresses\<close>

lemma split_dots_not_Nil [simp]: "split_dots s \<noteq> []"
  by (induction s) (auto split: list.splits)

lemma join_split: "join_dots (split_dots s) = s"
proof (induction s)
  case (Cons c cs)
  obtain p ps where "split_dots cs = p # ps" by (cases "split_dots cs") simp_all
  then show ?case using Cons by (cases ps) auto
qed simp

lemma split_dots_plain: "CHR ''.'' \<notin> set p \<Longrightarrow> split_dots p = [p]"
  by (induction p) auto

lemma split_dots_cons: "CHR ''.'' \<notin> set p \<Longrightarrow> split_dots (p @ CHR ''.'' # s) = p # split_dots s"
  by (induction p) auto

lemma split_join: "ps \<noteq> [] \<Longrightarrow> \<forall>p \<in> set ps. CHR ''.'' \<notin> set p \<Longrightarrow> split_dots (join_dots ps) = ps"
  by (induction ps rule: join_dots.induct) (simp_all add: split_dots_plain split_dots_cons)

lemma digit_char_chars: "d < 10 \<Longrightarrow> is_digit (digit_char d) \<and> (digit_char d = CHR ''0'' \<longleftrightarrow> d = 0)"
proof -
  assume "d < 10"
  then have "d \<in> {0, 1, 2, 3, 4, 5, 6, 7, 8, 9}" by auto
  then show ?thesis by (elim insertE emptyE) (simp_all add: is_digit_def digit_char_def char_of_def bit_0)
qed

lemma is_digit_char: "is_digit c \<Longrightarrow> \<exists>d < 10. c = digit_char d"
proof -
  assume "is_digit c"
  moreover have "''0123456789'' = map digit_char [0 ..< 10]" by (simp add: upt_rec digit_char_def char_of_def bit_0)
  ultimately show ?thesis unfolding is_digit_def by auto
qed

lemma dec_nat_is_digit: "c \<in> set (dec_nat n) \<Longrightarrow> is_digit c"
  using dec_nat_digits[of c n] digit_char_chars by auto

lemma dec_nat_head: "hd (dec_nat n) = CHR ''0'' \<longleftrightarrow> n = 0"
proof (induction n rule: dec_nat.induct)
  case (1 n)
  show ?case
  proof (cases "n < 10")
    case True
    then show ?thesis by (subst dec_nat.simps) (simp add: digit_char_chars)
  next
    case False
    then show ?thesis using 1 by (subst dec_nat.simps) (auto simp: div_eq_0_iff)
  qed
qed

text \<open>A number without leading zeros is the one printed for its value.\<close>

lemma dec_nat_dec_value:
  assumes "p \<noteq> []" "list_all is_digit p" "hd p = CHR ''0'' \<longrightarrow> length p = 1"
  shows "dec_nat (dec_value p 0) = p"
  using assms
proof (induction p rule: rev_induct)
  case (snoc c q)
  obtain d where d: "d < 10" "c = digit_char d" using snoc.prems(2) is_digit_char by auto
  show ?case
  proof (cases "q = []")
    case True
    then show ?thesis using d by (simp add: dec_nat.simps)
  next
    case False
    then have h: "hd q \<noteq> CHR ''0''" using snoc.prems(3) by auto
    have q: "dec_nat (dec_value q 0) = q" using snoc False h by simp
    then have "dec_value q 0 \<noteq> 0" using h dec_nat_head[of "dec_value q 0"] by metis
    then show ?thesis using d q by (subst dec_nat.simps) (simp add: dec_value_append)
  qed
qed simp

lemma octet_of_dec_nat: "n \<le> 255 \<Longrightarrow> octet_of (dec_nat n) = Some n"
proof -
  assume n: "n \<le> 255"
  have "list_all is_digit (dec_nat n)" by (simp add: list_all_iff dec_nat_is_digit)
  moreover have "hd (dec_nat n) = CHR ''0'' \<longrightarrow> length (dec_nat n) = 1" 
    using dec_nat.simps[of 0] by (simp add: dec_nat_head)
  ultimately show ?thesis using n by (simp add: octet_of_def)
qed

lemma octet_of_Some: "octet_of p = Some n \<Longrightarrow> dec_nat n = p \<and> n \<le> 255"
  by (auto simp: octet_of_def dec_nat_dec_value split: if_splits)

lemma dec_nat_no_dot: "CHR ''.'' \<notin> set (dec_nat n)" "CHR '':'' \<notin> set (dec_nat n)"
proof -
  have "\<not> is_digit (CHR ''.'')" "\<not> is_digit (CHR '':'')" by (simp_all add: is_digit_def)
  then show "CHR ''.'' \<notin> set (dec_nat n)" "CHR '':'' \<notin> set (dec_nat n)" using dec_nat_is_digit by blast+
qed

lemma le_bytes_4: "\<exists>a b c d. le_bytes 4 v = [a, b, c, d]"
proof -
  have "length (le_bytes 4 v) = Suc (Suc (Suc (Suc 0)))" by simp
  then show ?thesis unfolding length_Suc_conv by auto
qed

lemma unat_word32: "n < 2 ^ 32 \<Longrightarrow> unat (word_of_nat n :: 32 word) = n"
  by (simp add: unat_of_nat take_bit_nat_eq_self)

lemma word_le_bytes: "word_of_nat (le_value (le_bytes 4 (unat w))) = (w :: 32 word)"
proof -
  have "unat w < 2 ^ 32" using unsigned_less[of w] by simp
  then show ?thesis by (simp add: le_value_le_bytes)
qed

lemma inet_pton_ntop: "inet_pton4 (inet_ntop4 w) = Some w"
proof -
  obtain a b c d where bytes: "le_bytes 4 (unat w) = [a, b, c, d]" using le_bytes_4 by blast
  have oct: "octet_of (dec_nat (of_char x)) = Some (of_char x)" for x :: char
    using octet_of_dec_nat[of "of_char x"] of_char_less_256[of x] by simp
  have "split_dots (inet_ntop4 w) = map (\<lambda>c. dec_nat (of_char c)) [a, b, c, d]"
    unfolding inet_ntop4_def bytes by (rule split_join) (auto simp: dec_nat_no_dot)
  then show ?thesis using word_le_bytes[of w] by (simp add: inet_pton4_def oct bytes)
qed

lemma inet_ntop_pton: "inet_pton4 s = Some w \<Longrightarrow> inet_ntop4 w = s"
proof -
  assume a: "inet_pton4 s = Some w"
  then obtain p q r t a b c d where parts: "split_dots s = [p, q, r, t]"
    and oct: "octet_of p = Some a" "octet_of q = Some b" "octet_of r = Some c" "octet_of t = Some d"
    and w: "w = word_of_nat (le_value [char_of a, char_of b, char_of c, char_of d])"
    by (auto simp: inet_pton4_def bind_eq_Some_conv split: list.splits)
  note o = octet_of_Some[OF oct(1)] octet_of_Some[OF oct(2)] octet_of_Some[OF oct(3)] octet_of_Some[OF oct(4)]
  define cs :: "char list" where "cs = [char_of a, char_of b, char_of c, char_of d]"
  have len: "length cs = 4" and oct: "map of_char cs = [a, b, c, d]" using o by (simp_all add: cs_def)
  have "le_value cs < 2 ^ 32" using le_value_bound[of cs] len by simp
  then have "unat w = le_value cs" unfolding w cs_def by (rule unat_word32)
  then have "le_bytes 4 (unat w) = cs" using le_bytes_le_value[of cs] len by simp
  then have "inet_ntop4 w = join_dots (map dec_nat (map of_char cs))" by (simp add: inet_ntop4_def comp_def)
  then have "inet_ntop4 w = join_dots [p, q, r, t]" unfolding oct using o by simp
  then show ?thesis using join_split[of s] parts by simp
qed

lemma port_swap: "networkToHost16 (hostToNetwork16 p) = p" "hostToNetwork16 (networkToHost16 p) = p"
proof -
  have w: "unat (word_of_nat (byte_swap 2 (unat p)) :: 16 word) = byte_swap 2 (unat p)"
    using byte_swap_bound[of 2 "unat p"] by (simp add: unat_of_nat take_bit_nat_eq_self)
  have "unat p < 2 ^ 16" using unsigned_less[of p] by simp
  then have "byte_swap 2 (byte_swap 2 (unat p)) = unat p" by (simp add: byte_swap_twice)
  then show "networkToHost16 (hostToNetwork16 p) = p" "hostToNetwork16 (networkToHost16 p) = p"
    by (simp_all add: networkToHost16_def hostToNetwork16_def w)
qed

lemma length_port: "length (dec_nat (unat (p :: 16 word))) \<le> 5"
proof (rule length_dec_nat_le)
  have "unat p < 2 ^ 16" using unsigned_less[of p] by simp
  then show "unat p < 10 ^ 5" by simp
qed simp

lemma length_inet_ntop4: "length (inet_ntop4 w) \<le> 15"
proof -
  obtain a b c d where bytes: "le_bytes 4 (unat w) = [a, b, c, d]" using le_bytes_4 by blast
  have "length (dec_nat (of_char x)) \<le> 3" for x :: char
  proof (rule length_dec_nat_le)
    show "of_char x < (10 ^ 3 :: nat)" by (rule less_le_trans[OF of_char_less_256]) simp
  qed simp
  from this[of a] this[of b] this[of c] this[of d] show ?thesis by (simp add: inet_ntop4_def bytes)
qed

lemma inet_ntop4_chars: "c \<in> set (inet_ntop4 w) \<Longrightarrow> is_digit c \<or> c = CHR ''.''"
proof -
  obtain a b c' d where bytes: "le_bytes 4 (unat w) = [a, b, c', d]" using le_bytes_4 by blast
  show "c \<in> set (inet_ntop4 w) \<Longrightarrow> is_digit c \<or> c = CHR ''.''"
    by (auto simp: inet_ntop4_def bytes dest: dec_nat_is_digit)
qed

lemma inet_ntop4_no_colon: "CHR '':'' \<notin> set (inet_ntop4 w)"
  using inet_ntop4_chars[of "CHR '':''" w] by (auto simp: is_digit_def)

lemma toIpPort4:
  assumes "sa_family a = AF_INET"
  shows "InetAddress_toIpPort t6 a = Some (inet_ntop4 (sa_word a) @ '':'' @ dec_nat (unat (InetAddress_port a)))"
  using assms length_inet_ntop4[of "sa_word a"] length_port[of "networkToHost16 (sa_port a)"]
  by (simp add: InetAddress_toIpPort_def sockets_toIpPort_def sockets_toIp_def AF_INET_def AF_INET6_def snprintf_buf_def
      InetAddress_port_def InetAddress_portNetEndian_def)

lemma toIpPort6:
  assumes "sa_family a = AF_INET6" "length (inet_ntop6 t6 (sa_addr6 a)) \<le> 45"
  shows "InetAddress_toIpPort t6 a = Some (''['' @ inet_ntop6 t6 (sa_addr6 a) @ '']:'' @ dec_nat (unat (InetAddress_port a)))"
  using assms length_port[of "networkToHost16 (sa_port a)"]
  by (simp add: InetAddress_toIpPort_def sockets_toIpPort_def sockets_toIp_def AF_INET_def AF_INET6_def snprintf_buf_def
      InetAddress_port_def InetAddress_portNetEndian_def)

text \<open>What is documented of the text of the IPv6 address \<open>x\<close>: at most 45 characters, with a colon, and read back.\<close>

definition text6_ok :: "inet6_text \<Rightarrow> char list \<Rightarrow> bool" where
  "text6_ok t6 x \<longleftrightarrow> length (inet_ntop6 t6 x) \<le> 45 \<and> CHR '':'' \<in> set (inet_ntop6 t6 x) \<and> inet_pton6 t6 (inet_ntop6 t6 x) = Some x"

text \<open>C34: Addresses and their texts. An IPv4 address prints as its dotted text and, with its port, without
  truncation; the constructor reads the dotted text back to the same family, port and address, logging
  nothing; and every text it accepts as IPv4 is the one the resulting address prints. A text that is not
  an address leaves the port and the address 0.0.0.0, and is logged. An IPv6 address prints in brackets
  before its port and is recognised and read back by its colons, given what is documented of \<open>inet_ntop\<close> and
  \<open>inet_pton\<close> for it.\<close>

theorem InetAddress_text_roundtrip:
  assumes t6: "text6_ok t6 (sa_addr6 b)" and fam: "sa_family a = AF_INET" "sa_family b = AF_INET6"
  shows "InetAddress_toIpPort t6 a = Some (inet_ntop4 (sa_word a) @ '':'' @ dec_nat (unat (InetAddress_port a)))
    \<and> InetAddress_toIp t6 a = Some (inet_ntop4 (sa_word a))
    \<and> (case InetAddress_of_ip t6 (inet_ntop4 (sa_word a)) (InetAddress_port a) False raw of (a', logged) \<Rightarrow>
         sa_family a' = AF_INET \<and> sa_port a' = sa_port a \<and> sa_word a' = sa_word a \<and> \<not> logged)
    \<and> (case InetAddress_of_ip t6 ip port False raw of (a', logged) \<Rightarrow> CHR '':'' \<notin> set ip \<longrightarrow>
         InetAddress_port a' = port
         \<and> (if inet_pton4 ip \<noteq> None then InetAddress_toIp t6 a' = Some ip \<and> \<not> logged
            else InetAddress_toIp t6 a' = Some ''0.0.0.0'' \<and> logged))
    \<and> InetAddress_toIpPort t6 b = Some (''['' @ inet_ntop6 t6 (sa_addr6 b) @ '']:'' @ dec_nat (unat (InetAddress_port b)))
    \<and> (case InetAddress_of_ip t6 (inet_ntop6 t6 (sa_addr6 b)) (InetAddress_port b) v6 raw of (b', logged) \<Rightarrow>
         sa_family b' = AF_INET6 \<and> sa_port b' = sa_port b \<and> sa_addr6 b' = sa_addr6 b \<and> \<not> logged)"
proof -
  note defs = InetAddress_of_ip_def sockets_fromIpPort4_def sockets_fromIpPort6_def InetAddress_toIp_def sockets_toIp_def
    InetAddress_port_def InetAddress_portNetEndian_def AF_INET_def AF_INET6_def port_swap Let_def
  have zero: "inet_ntop4 0 = ''0.0.0.0''" by code_simp
  have "InetAddress_toIp t6 a = Some (inet_ntop4 (sa_word a))" using fam by (simp add: defs)
  moreover have "case InetAddress_of_ip t6 (inet_ntop4 (sa_word a)) (InetAddress_port a) False raw of (a', logged) \<Rightarrow>
         sa_family a' = AF_INET \<and> sa_port a' = sa_port a \<and> sa_word a' = sa_word a \<and> \<not> logged"
    by (simp add: defs inet_ntop4_no_colon inet_pton_ntop)
  moreover have "case InetAddress_of_ip t6 ip port False raw of (a', logged) \<Rightarrow> CHR '':'' \<notin> set ip \<longrightarrow>
         InetAddress_port a' = port
         \<and> (if inet_pton4 ip \<noteq> None then InetAddress_toIp t6 a' = Some ip \<and> \<not> logged
            else InetAddress_toIp t6 a' = Some ''0.0.0.0'' \<and> logged)"
    by (auto simp: defs inet_ntop_pton sockaddr_zero4_def zero split: option.splits)
  moreover have "case InetAddress_of_ip t6 (inet_ntop6 t6 (sa_addr6 b)) (InetAddress_port b) v6 raw of (b', logged) \<Rightarrow>
         sa_family b' = AF_INET6 \<and> sa_port b' = sa_port b \<and> sa_addr6 b' = sa_addr6 b \<and> \<not> logged"
    using t6 by (simp add: defs text6_ok_def)
  ultimately show ?thesis using toIpPort4[OF fam(1)] toIpPort6[OF fam(2), of t6] t6 by (simp add: text6_ok_def)
qed

lemma le_bytes_four: "le_bytes 4 v = [char_of (v mod 256), char_of (v div 256 mod 256), char_of (v div 256 div 256 mod 256),
    char_of (v div 256 div 256 div 256 mod 256)]"
proof -
  have "4 = Suc (Suc (Suc (Suc 0)))" by simp
  then show ?thesis by (simp only: le_bytes.simps)
qed

lemma le_bytes_hostToNetwork32: "le_bytes 4 (unat (hostToNetwork32 w)) = rev (le_bytes 4 (unat w))"
  using byte_swap_bound[of 4 "unat w"] by (simp add: hostToNetwork32_def unat_word32 byte_swap_bytes)

theorem InetAddress_text_roundtrip_witness:
  "InetAddress_toIpPort \<lparr>inet_ntop6 = \<lambda>_. ''::1'', inet_pton6 = \<lambda>_. Some (replicate 15 (CHR 0x00) @ [CHR 0x01])\<rparr>
      (InetAddress_any 80 True False sockaddr_zero) = Some ''127.0.0.1:80''
   \<and> InetAddress_toIpPort \<lparr>inet_ntop6 = \<lambda>_. ''::1'', inet_pton6 = \<lambda>_. Some (replicate 15 (CHR 0x00) @ [CHR 0x01])\<rparr>
      (InetAddress_any 80 True True sockaddr_zero) = Some ''[::1]:80''"
proof -
  let ?t6 = "\<lparr>inet_ntop6 = \<lambda>_. ''::1'', inet_pton6 = \<lambda>_. Some (replicate 15 (CHR 0x00) @ [CHR 0x01])\<rparr>"
  let ?a = "InetAddress_any 80 True False sockaddr_zero" let ?b = "InetAddress_any 80 True True sockaddr_zero"
  have ok: "text6_ok ?t6 (sa_addr6 ?b)" "sa_family ?a = AF_INET" "sa_family ?b = AF_INET6"
    by (simp_all add: text6_ok_def InetAddress_any_def)
  have digits: "dec_nat 127 = ''127''" "dec_nat 0 = ''0''" "dec_nat 1 = ''1''" "dec_nat 80 = ''80''"
    by (simp_all add: dec_nat.simps digit_char_def char_of_def bit_0)
  have "le_bytes 4 (unat (sa_word ?a)) = rev (le_bytes 4 2130706433)"
    by (simp add: InetAddress_any_def le_bytes_hostToNetwork32)
  then have "inet_ntop4 (sa_word ?a) = ''127.0.0.1''" using digits by (simp add: inet_ntop4_def le_bytes_four)
  moreover have "InetAddress_port ?a = 80" "InetAddress_port ?b = 80"
    by (simp_all add: InetAddress_port_def InetAddress_portNetEndian_def InetAddress_any_def port_swap)
  ultimately show ?thesis
    using InetAddress_text_roundtrip[OF ok, of sockaddr_zero "[]" 0 False] digits by simp
qed

text \<open>
  A connection to oneself is one whose two ends print the same text: the check of the connector compares
  ports and addresses, and for two addresses of one family that is the comparison of the texts.
\<close>

theorem isSelfConnect_same_text:
  assumes "sa_family l = AF_INET" "sa_family p = AF_INET"
  shows "sockets_isSelfConnect (Some l) (Some p) \<longleftrightarrow> InetAddress_toIpPort t6 l = InetAddress_toIpPort t6 p"
proof
  assume "sockets_isSelfConnect (Some l) (Some p)"
  then show "InetAddress_toIpPort t6 l = InetAddress_toIpPort t6 p"
    using assms by (simp add: sockets_isSelfConnect_def sockets_getLocalAddr_def sockets_getPeerAddr_def toIpPort4
        InetAddress_port_def InetAddress_portNetEndian_def)
next
  assume "InetAddress_toIpPort t6 l = InetAddress_toIpPort t6 p"
  then have eq: "inet_ntop4 (sa_word l) @ CHR '':'' # dec_nat (unat (InetAddress_port l))
      = inet_ntop4 (sa_word p) @ CHR '':'' # dec_nat (unat (InetAddress_port p))"
    using assms by (simp add: toIpPort4)
  have cut: "takeWhile (\<lambda>c. c \<noteq> CHR '':'') (inet_ntop4 w @ CHR '':'' # s) = inet_ntop4 w" for w s
    using inet_ntop4_no_colon[of w] by (subst takeWhile_append2) auto
  have ip: "inet_ntop4 (sa_word l) = inet_ntop4 (sa_word p)" using arg_cong[OF eq, of "takeWhile (\<lambda>c. c \<noteq> CHR '':'')"] by (simp only: cut)
  then have word: "sa_word l = sa_word p" using inet_pton_ntop by (metis option.inject)
  have "unat (InetAddress_port l) = unat (InetAddress_port p)" using eq ip by simp
  then have "InetAddress_port l = InetAddress_port p" by (metis word_eq_iff_unsigned of_nat_eq_iff unsigned_of_nat)
  then have "networkToHost16 (sa_port l) = networkToHost16 (sa_port p)" by (simp add: InetAddress_port_def InetAddress_portNetEndian_def)
  then have "sa_port l = sa_port p" using port_swap(2) by metis
  with word show "sockets_isSelfConnect (Some l) (Some p)"
    using assms by (simp add: sockets_isSelfConnect_def sockets_getLocalAddr_def sockets_getPeerAddr_def)
qed

end
