(* ===== verification/Connector.thy ===== *)
theory Connector
  imports TcpConnectionProps
begin

text \<open>
  \<open>dc::net::Connector\<close> (\<open>net/connector.h\<close>, \<open>net/connector.cc\<close>): the active side of a connection. The
  state extends that of its loop with the members of the connector, the retries it asked
  \<open>EventLoop::runAfter\<close> for (in seconds) and the descriptors it created, closed and handed to
  \<open>m_newConnectionCallback\<close>, in order. The answers of the kernel (the descriptor of \<open>socket\<close>, the
  \<open>errno\<close> of \<open>connect\<close>, \<open>SO_ERROR\<close>, whether a socket is connected to itself) are arguments, as is the
  address of a new \<open>Channel\<close>.
\<close>

subsection \<open>State\<close>

datatype connector_state = Connector_kDisconnected | Connector_kConnecting | Connector_kConnected

datatype connector_cb = Ct_wakeup | Ct_startInLoop | Ct_stopInLoop | Ct_resetChannel | Ct_handleWrite | Ct_handleError

record connector = "connector_cb reactor" +
  ct_connect :: bool
  ct_state :: connector_state
  ct_channel :: "nat option"
  ct_retryDelayMs :: int
  ct_timers :: "rat list"
  ct_created :: "int list"
  ct_closed :: "int list"
  ct_handed :: "int list"

record connect_answer =
  ca_sockfd :: int
  ca_errno :: int
  ca_channel :: nat

definition kMaxRetryDelayMs :: int where "kMaxRetryDelayMs = 30 * 1000"
definition kInitRetryDelayMs :: int where "kInitRetryDelayMs = 500"

text \<open>The values of \<open>errno\<close> that \<open>connect\<close> distinguishes: in progress, to be retried, given up.\<close>

definition errno_connecting :: "int list" where
  "errno_connecting = [0, 115, 4, 106]"

definition errno_retry :: "int list" where
  "errno_retry = [11, 98, 111, 101]"

definition Connector_new :: "connector_cb reactor \<Rightarrow> connector" where
  "Connector_new r = reactor.extend r
     \<lparr>ct_connect = False, ct_state = Connector_kDisconnected, ct_channel = None,
      ct_retryDelayMs = kInitRetryDelayMs, ct_timers = [], ct_created = [], ct_closed = [], ct_handed = []\<rparr>"

definition Connector_destroy :: "connector \<Rightarrow> unit outcome" where
  "Connector_destroy s = assert_that (ct_channel s = None)"

definition Connector_setState :: "connector_state \<Rightarrow> connector \<Rightarrow> connector" where
  "Connector_setState st s = s\<lparr>ct_state := st\<rparr>"

subsection \<open>Operations\<close>

text \<open>\<open>sockets::close\<close> and the call of \<open>m_newConnectionCallback\<close>, recorded.\<close>

definition connector_close :: "int \<Rightarrow> connector \<Rightarrow> connector" where
  "connector_close sockfd s = s\<lparr>ct_closed := ct_closed s @ [sockfd]\<rparr>"

definition connector_hand_over :: "int \<Rightarrow> connector \<Rightarrow> connector" where
  "connector_hand_over sockfd s = s\<lparr>ct_handed := ct_handed s @ [sockfd]\<rparr>"

definition Connector_retry :: "int \<Rightarrow> connector \<Rightarrow> connector" where
  "Connector_retry sockfd s =
     (let s = Connector_setState Connector_kDisconnected (connector_close sockfd s) in
      if ct_connect s
      then s\<lparr>ct_timers := ct_timers s @ [of_int (ct_retryDelayMs s) / 1000],
             ct_retryDelayMs := min (ct_retryDelayMs s * 2) kMaxRetryDelayMs\<rparr>
      else s)"

definition Connector_connecting :: "int \<Rightarrow> int \<Rightarrow> nat \<Rightarrow> connector \<Rightarrow> connector outcome" where
  "Connector_connecting tid sockfd c s = do {
     let s = Connector_setState Connector_kConnecting s;
     assert_that (ct_channel s = None);
     let ch = Channel_setErrorCallback Ct_handleError (Channel_setWriteCallback Ct_handleWrite
                (Channel_new (r_loop s) sockfd));
     let s = (chan_upd c (\<lambda>_. ch) s)\<lparr>ct_channel := Some c\<rparr>;
     Channel_enableWriting tid c s
   }"

text \<open>\<open>sockets::createNonblockingOrDie\<close> for the descriptor \<open>socket\<close> returned.\<close>

definition createNonblockingOrDie :: "int \<Rightarrow> int outcome" where
  "createNonblockingOrDie sockfd = (if sockfd < 0 then None else Some sockfd)"

definition Connector_connect :: "int \<Rightarrow> connect_answer \<Rightarrow> connector \<Rightarrow> connector outcome" where
  "Connector_connect tid a s = do {
     sockfd \<leftarrow> createNonblockingOrDie (ca_sockfd a);
     let s = s\<lparr>ct_created := ct_created s @ [sockfd]\<rparr>;
     let saveErrno = ca_errno a;
     if saveErrno \<in> set errno_connecting then Connector_connecting tid sockfd (ca_channel a) s
     else if saveErrno \<in> set errno_retry then Some (Connector_retry sockfd s)
     else Some (connector_close sockfd s)
   }"

definition Connector_startInLoop :: "int \<Rightarrow> connect_answer \<Rightarrow> connector \<Rightarrow> connector outcome" where
  "Connector_startInLoop tid a s = do {
     EventLoop_assertInLoopThread tid s;
     assert_that (ct_state s = Connector_kDisconnected);
     if ct_connect s then Connector_connect tid a s else Some s
   }"

definition Connector_start :: "int \<Rightarrow> connect_answer \<Rightarrow> connector \<Rightarrow> connector outcome" where
  "Connector_start tid a s =
     EventLoop_runInLoop (\<lambda>_. Connector_startInLoop tid a) tid Ct_startInLoop (s\<lparr>ct_connect := True\<rparr>)"

definition Connector_removeAndResetChannel :: "int \<Rightarrow> connector \<Rightarrow> (int \<times> connector) outcome" where
  "Connector_removeAndResetChannel tid s = do {
     c \<leftarrow> ct_channel s;
     s \<leftarrow> Channel_disableAll tid c s;
     s \<leftarrow> Channel_remove tid c s;
     let sockfd = ch_fd (r_chans s c);
     Some (sockfd, EventLoop_queueInLoop tid Ct_resetChannel s)
   }"

text \<open>Resetting the pointer runs the destructor of the channel.\<close>

definition Connector_resetChannel :: "int \<Rightarrow> connector \<Rightarrow> connector outcome" where
  "Connector_resetChannel tid s = (case ct_channel s of
     None \<Rightarrow> Some s
   | Some c \<Rightarrow> do { Channel_destroy tid c s; Some (s\<lparr>ct_channel := None\<rparr>) })"

definition Connector_stopInLoop :: "int \<Rightarrow> connector \<Rightarrow> connector outcome" where
  "Connector_stopInLoop tid s = do {
     EventLoop_assertInLoopThread tid s;
     if ct_state s = Connector_kConnecting
     then do {
       (sockfd, s) \<leftarrow> Connector_removeAndResetChannel tid (Connector_setState Connector_kDisconnected s);
       Some (Connector_retry sockfd s)
     }
     else Some s
   }"

definition Connector_stop :: "int \<Rightarrow> connector \<Rightarrow> connector" where
  "Connector_stop tid s = EventLoop_queueInLoop tid Ct_stopInLoop (s\<lparr>ct_connect := False\<rparr>)"

definition Connector_restart :: "int \<Rightarrow> connect_answer \<Rightarrow> connector \<Rightarrow> connector outcome" where
  "Connector_restart tid a s = do {
     EventLoop_assertInLoopThread tid s;
     let s = (Connector_setState Connector_kDisconnected s)\<lparr>ct_retryDelayMs := kInitRetryDelayMs, ct_connect := True\<rparr>;
     Connector_startInLoop tid a s
   }"

text \<open>\<open>err\<close> is what \<open>getSocketError\<close> and \<open>self\<close> what \<open>isSelfConnect\<close> say of the descriptor.\<close>

definition Connector_handleWrite :: "int \<Rightarrow> (int \<Rightarrow> int) \<Rightarrow> (int \<Rightarrow> bool) \<Rightarrow> connector \<Rightarrow> connector outcome" where
  "Connector_handleWrite tid err self s =
     (if ct_state s = Connector_kConnecting
      then do {
        (sockfd, s) \<leftarrow> Connector_removeAndResetChannel tid s;
        if err sockfd \<noteq> 0 then Some (Connector_retry sockfd s)
        else if self sockfd then Some (Connector_retry sockfd s)
        else do {
          let s = Connector_setState Connector_kConnected s;
          Some (if ct_connect s then connector_hand_over sockfd s else connector_close sockfd s)
        }
      }
      else do { assert_that (ct_state s = Connector_kDisconnected); Some s })"

definition Connector_handleError :: "int \<Rightarrow> connector \<Rightarrow> connector outcome" where
  "Connector_handleError tid s =
     (if ct_state s = Connector_kConnecting
      then do {
        (sockfd, s) \<leftarrow> Connector_removeAndResetChannel tid s;
        Some (Connector_retry sockfd s)
      }
      else Some s)"

text \<open>The functors and callbacks the connector binds.\<close>

definition connector_run :: "int \<Rightarrow> connect_answer \<Rightarrow> (int \<Rightarrow> int) \<Rightarrow> (int \<Rightarrow> bool) \<Rightarrow>
    connector_cb \<Rightarrow> timestamp option \<Rightarrow> connector \<Rightarrow> connector outcome" where
  "connector_run tid a err self cb t s = (case cb of
     Ct_wakeup \<Rightarrow> Some (EventLoop_handleRead s)
   | Ct_startInLoop \<Rightarrow> Connector_startInLoop tid a s
   | Ct_stopInLoop \<Rightarrow> Connector_stopInLoop tid s
   | Ct_resetChannel \<Rightarrow> Connector_resetChannel tid s
   | Ct_handleWrite \<Rightarrow> Connector_handleWrite tid err self s
   | Ct_handleError \<Rightarrow> Connector_handleError tid s)"

end
