(* ===== verification/ConnectorProps.thy ===== *)
theory ConnectorProps
  imports Connector "HOL-Library.Multiset"
begin

text \<open>
  Properties of the connector: along every sequence of calls, timers and events of its channel that
  its interface allows, no assertion fails and no descriptor is lost or closed twice.
\<close>

subsection \<open>The connector on its loop\<close>

datatype connector_event =
    Cv_start int connect_answer
  | Cv_stop int
  | Cv_functor connect_answer
  | Cv_timer connect_answer
  | Cv_channel "32 word" "int \<Rightarrow> int" "int \<Rightarrow> bool"
  | Cv_restart connect_answer

text \<open>
  What the kernel and the allocator promise of a new descriptor and a new channel: neither is in use
  by the poller.
\<close>

definition fresh_answer :: "connect_answer \<Rightarrow> connector \<Rightarrow> bool" where
  "fresh_answer a s = (0 \<le> ca_sockfd a \<and> Poller_channels (m_poller s) (ca_sockfd a) = None
     \<and> ca_channel a \<notin> ran (Poller_channels (m_poller s)))"

text \<open>
  The rules of use. \<open>start\<close> is for a connector at rest: not connecting or connected, no retry or start
  outstanding, the channel of the last attempt gone. \<open>restart\<close> is for a connector whose connection
  was handed over and is lost. A retry comes in a later turn of the loop than the one that asked for
  it, so after the functors of that turn. The channel has events only while it asks for them.
\<close>

definition no_start_due :: "connector \<Rightarrow> bool" where
  "no_start_due s = (ct_timers s = [] \<and> ct_channel s = None \<and> Ct_startInLoop \<notin> set (m_pendingFunctors s))"

fun connector_enabled :: "connector_event \<Rightarrow> connector \<Rightarrow> bool" where
  "connector_enabled (Cv_start tid' a) s = (ct_state s = Connector_kDisconnected \<and> no_start_due s \<and> fresh_answer a s)"
| "connector_enabled (Cv_stop tid') s = True"
| "connector_enabled (Cv_functor a) s = (m_pendingFunctors s \<noteq> [] \<and> fresh_answer a s)"
| "connector_enabled (Cv_timer a) s =
     (ct_timers s \<noteq> [] \<and> Ct_resetChannel \<notin> set (m_pendingFunctors s) \<and> fresh_answer a s)"
| "connector_enabled (Cv_channel revents err self) s =
     (case ct_channel s of None \<Rightarrow> False | Some c \<Rightarrow> ch_events (r_chans s c) \<noteq> 0)"
| "connector_enabled (Cv_restart a) s = (ct_state s = Connector_kConnected \<and> no_start_due s \<and> fresh_answer a s)"

text \<open>An event of the channel, the way \<open>EventLoop::loop\<close> and \<open>Channel::handleEvent\<close> deliver it.\<close>

definition connector_dispatch :: "int \<Rightarrow> 32 word \<Rightarrow> (int \<Rightarrow> int) \<Rightarrow> (int \<Rightarrow> bool) \<Rightarrow> connector \<Rightarrow> connector outcome" where
  "connector_dispatch tid revents err self s = do {
     c \<leftarrow> ct_channel s;
     let s = (chan_upd c (Channel_set_revents revents) s)
               \<lparr>el_eventHandling := True, m_activeChannels := [c], m_currentActiveChannel := Some c\<rparr>;
     s \<leftarrow> Channel_handleEvent (\<lambda>_ _. True)
            (connector_run tid \<lparr>ca_sockfd = 0, ca_errno = 0, ca_channel = 0\<rparr> err self) Timestamp_invalid c s;
     Some (s\<lparr>m_currentActiveChannel := None, el_eventHandling := False\<rparr>)
   }"

definition connector_functor :: "int \<Rightarrow> connect_answer \<Rightarrow> connector_cb \<Rightarrow> connector \<Rightarrow> connector outcome" where
  "connector_functor tid a f s = connector_run tid a (\<lambda>_. 0) (\<lambda>_. False) f None s"

fun connector_apply :: "int \<Rightarrow> connector_event \<Rightarrow> connector \<Rightarrow> connector outcome" where
  "connector_apply tid (Cv_start tid' a) s = Connector_start tid' a s"
| "connector_apply tid (Cv_stop tid') s = Some (Connector_stop tid' s)"
| "connector_apply tid (Cv_functor a) s =
     connector_functor tid a (hd (m_pendingFunctors s)) (s\<lparr>m_pendingFunctors := tl (m_pendingFunctors s)\<rparr>)"
| "connector_apply tid (Cv_timer a) s =
     connector_functor tid a Ct_startInLoop (s\<lparr>ct_timers := tl (ct_timers s)\<rparr>)"
| "connector_apply tid (Cv_channel revents err self) s = connector_dispatch tid revents err self s"
| "connector_apply tid (Cv_restart a) s = Connector_restart tid a s"

inductive connector_reach :: "int \<Rightarrow> connector \<Rightarrow> connector \<Rightarrow> bool" for tid s0 where
  start: "connector_reach tid s0 s0"
| step: "connector_reach tid s0 s \<Longrightarrow> connector_enabled ev s \<Longrightarrow> connector_apply tid ev s = Some s'
    \<Longrightarrow> connector_reach tid s0 s'"

subsection \<open>The invariant\<close>

text \<open>The descriptor being connected.\<close>

definition connecting_fds :: "connector \<Rightarrow> int multiset" where
  "connecting_fds s = (case ct_channel s of
     Some c \<Rightarrow> if ct_state s = Connector_kConnecting then {#ch_fd (r_chans s c)#} else {#}
   | None \<Rightarrow> {#})"

definition fds_balance :: "connector \<Rightarrow> bool" where
  "fds_balance s = (mset (ct_created s) = mset (ct_closed s) + mset (ct_handed s) + connecting_fds s)"

definition channel_ok :: "nat \<Rightarrow> connector \<Rightarrow> bool" where
  "channel_ok c s = (let ch = r_chans s c in
     chan_of_loop c s \<and> \<not> is_tied ch
   \<and> (if ct_state s = Connector_kConnecting
      then chan_registered c s \<and> ch_events ch = kWriteEvent \<and> count_list (m_pendingFunctors s) Ct_resetChannel = 0
         \<and> m_writeCallback ch = Some Ct_handleWrite \<and> m_errorCallback ch = Some Ct_handleError \<and> m_closeCallback ch = None
      else \<not> chan_registered c s \<and> ch_events ch = 0 \<and> \<not> is_addedToLoop ch
         \<and> count_list (m_pendingFunctors s) Ct_resetChannel = 1))"

definition connector_core :: "int \<Rightarrow> connector \<Rightarrow> bool" where
  "connector_core tid s =
     (reactor_ok tid s
    \<and> (case ct_channel s of
         None \<Rightarrow> ct_state s \<noteq> Connector_kConnecting \<and> count_list (m_pendingFunctors s) Ct_resetChannel = 0
       | Some c \<Rightarrow> channel_ok c s)
    \<and> count_list (m_pendingFunctors s) Ct_startInLoop + length (ct_timers s) \<le> 1
    \<and> (ct_timers s \<noteq> [] \<longrightarrow> ct_state s = Connector_kDisconnected)
    \<and> (Ct_startInLoop \<in> set (m_pendingFunctors s) \<longrightarrow> ct_state s = Connector_kDisconnected \<and> ct_channel s = None)
    \<and> set (m_pendingFunctors s) \<subseteq> {Ct_startInLoop, Ct_stopInLoop, Ct_resetChannel}
    \<and> fds_balance s \<and> kInitRetryDelayMs \<le> ct_retryDelayMs s \<and> ct_retryDelayMs s \<le> kMaxRetryDelayMs)"

text \<open>Between the turns of the loop no event is being handled.\<close>

definition connector_inv :: "int \<Rightarrow> connector \<Rightarrow> bool" where
  "connector_inv tid s = (connector_core tid s \<and> \<not> el_eventHandling s
     \<and> (\<forall>c. ct_channel s = Some c \<longrightarrow> \<not> ch_eventHandling (r_chans s c)))"

subsection \<open>Changing parts of the state the invariant does not read\<close>

lemma chan_upd_view:
  fixes r :: "('cb, 'z) reactor_scheme"
  assumes "reactor_ok tid r" and f: "\<And>ch. ch_loop (f ch) = ch_loop ch \<and> ch_fd (f ch) = ch_fd ch
      \<and> ch_index (f ch) = ch_index ch \<and> ch_events (f ch) = ch_events ch"
  shows "reactor_ok tid (chan_upd c f r)" "chan_of_loop d (chan_upd c f r) = chan_of_loop d r"
    "chan_registered d (chan_upd c f r) = chan_registered d r"
proof -
  have "same_place (r_chans r) ((r_chans r)(c := f (r_chans r c)))" using f by (simp add: same_place_def)
  then show "reactor_ok tid (chan_upd c f r)"
    using assms(1) any_p.inv_place f by (auto simp: reactor_ok_def)
  show "chan_of_loop d (chan_upd c f r) = chan_of_loop d r" "chan_registered d (chan_upd c f r) = chan_registered d r"
    using f by (simp_all add: chan_of_loop_def chan_registered_def)
qed

subsection \<open>The two operations on the channel\<close>

lemma connecting_run:
  assumes ok: "reactor_ok tid s" and none: "ct_channel s = None"
    and fresh: "0 \<le> fd" "Poller_channels (m_poller s) fd = None" "c \<notin> ran (Poller_channels (m_poller s))"
  shows "\<exists>chs p. let s' = s\<lparr>r_chans := chs, m_poller := p, ct_state := Connector_kConnecting, ct_channel := Some c\<rparr> in
    Connector_connecting tid fd c s = Some s' \<and> reactor_ok tid s' \<and> chan_of_loop c s' \<and> chan_registered c s'
    \<and> ch_fd (chs c) = fd \<and> ch_events (chs c) = kWriteEvent \<and> \<not> is_tied (chs c) \<and> \<not> ch_eventHandling (chs c)
    \<and> m_writeCallback (chs c) = Some Ct_handleWrite \<and> m_errorCallback (chs c) = Some Ct_handleError
    \<and> m_closeCallback (chs c) = None"
proof -
  define ch where "ch = Channel_setErrorCallback Ct_handleError (Channel_setWriteCallback Ct_handleWrite
      (Channel_new (r_loop s) fd))"
  have ch: "ch_loop ch = r_loop s" "ch_fd ch = fd" "ch_events ch = 0" "ch_index ch = -1" "\<not> is_tied ch"
    "\<not> ch_eventHandling ch" "m_writeCallback ch = Some Ct_handleWrite" "m_errorCallback ch = Some Ct_handleError"
    "m_closeCallback ch = None"
    by (simp_all add: ch_def Channel_setErrorCallback_def Channel_setWriteCallback_def Channel_new_def)
  define t where "t = (chan_upd c (\<lambda>_. ch) (s\<lparr>ct_state := Connector_kConnecting\<rparr>))\<lparr>ct_channel := Some c\<rparr>"
  have t: "r_chans t = (r_chans s)(c := ch)" "m_poller t = m_poller s" "r_loop t = r_loop s"
    "t = s\<lparr>r_chans := (r_chans s)(c := ch), ct_state := Connector_kConnecting, ct_channel := Some c\<rparr>"
    by (simp_all add: t_def chan_upd_def)
  note new = chan_new_ok[OF ok fresh(3,2,1) ch(1-4)]
  have parts: "reactor_ok tid t" "chan_of_loop c t" "chan_fresh c t"
    using new reactor_view_cong[of t "chan_upd c (\<lambda>_. ch) s"] t by (simp_all add: chan_fresh_def)
  have ev: "events_enableWriting (ch_events (r_chans t c)) = kWriteEvent" using ch(3) by (simp add: t events_enableWriting_def)
  have nz: "kWriteEvent \<noteq> 0" "interest_mask kWriteEvent" by (simp_all add: event_masks interest_mask_def)
  from Channel_update_events[where f = events_enableWriting, OF parts(1,2)] parts(3) obtain i chs p where
    u: "Channel_enableWriting tid c t = Some (t\<lparr>r_chans := chs, m_poller := p\<rparr>)"
    "reactor_ok tid (t\<lparr>r_chans := chs, m_poller := p\<rparr>)" "chan_registered c (t\<lparr>r_chans := chs, m_poller := p\<rparr>)"
    "chan_of_loop c (t\<lparr>r_chans := chs, m_poller := p\<rparr>)"
    "chs c = (r_chans t c)\<lparr>ch_events := kWriteEvent, ch_index := i, is_addedToLoop := True\<rparr>"
    unfolding Channel_enableWriting_def ev using nz by auto
  have s': "t\<lparr>r_chans := chs, m_poller := p\<rparr>
      = s\<lparr>r_chans := chs, m_poller := p, ct_state := Connector_kConnecting, ct_channel := Some c\<rparr>"
    by (simp add: t(4))
  have "Connector_connecting tid fd c s = Channel_enableWriting tid c t"
    using none by (simp add: Connector_connecting_def Connector_setState_def ch_def[symmetric] t_def)
  then show ?thesis
    using u(1-4) ch unfolding s' Let_def by (intro exI[of _ chs] exI[of _ p]) (simp add: u(5) t(1))
qed

lemma removeAndReset_run:
  assumes ok: "reactor_ok tid s" and c: "ct_channel s = Some c" "chan_of_loop c s" "chan_registered c s"
    and idle: "el_eventHandling s \<Longrightarrow> m_currentActiveChannel s = Some c"
  shows "\<exists>chs p. let s' = s\<lparr>r_chans := chs, m_poller := p\<rparr> in
    Connector_removeAndResetChannel tid s = Some (ch_fd (r_chans s c), EventLoop_queueInLoop tid Ct_resetChannel s')
    \<and> reactor_ok tid s' \<and> chan_of_loop c s' \<and> \<not> chan_registered c s' \<and> ch_events (chs c) = 0
    \<and> \<not> is_addedToLoop (chs c) \<and> is_tied (chs c) = is_tied (r_chans s c)
    \<and> ch_eventHandling (chs c) = ch_eventHandling (r_chans s c)"
proof -
  have m: "interest_mask kNoneEvent" by simp
  from Channel_update_events[where f = "\<lambda>_. kNoneEvent", OF ok c(2) m disjI1[OF c(3)]] obtain i chs p where
    u: "Channel_disableAll tid c s = Some (s\<lparr>r_chans := chs, m_poller := p\<rparr>)"
    "reactor_ok tid (s\<lparr>r_chans := chs, m_poller := p\<rparr>)" "chan_registered c (s\<lparr>r_chans := chs, m_poller := p\<rparr>)"
    "chan_of_loop c (s\<lparr>r_chans := chs, m_poller := p\<rparr>)"
    "chs c = (r_chans s c)\<lparr>ch_events := kNoneEvent, ch_index := i, is_addedToLoop := True\<rparr>"
    unfolding Channel_disableAll_def by blast
  let ?t = "s\<lparr>r_chans := chs, m_poller := p\<rparr>"
  have ev: "ch_events (r_chans ?t c) = 0" by (simp add: u(5) kNoneEvent_def)
  from Channel_remove_effect[OF u(2,4,3) ev] idle obtain chs' p' where
    r: "Channel_remove tid c ?t = Some (s\<lparr>r_chans := chs', m_poller := p'\<rparr>)"
    "reactor_ok tid (s\<lparr>r_chans := chs', m_poller := p'\<rparr>)"
    "Poller_channels p' = (Poller_channels p)(ch_fd (chs c) := None)"
    "only_index (chs(c := (chs c)\<lparr>is_addedToLoop := False\<rparr>)) chs'"
    by auto
  obtain j where "chs' c = (chs c)\<lparr>is_addedToLoop := False, ch_index := j\<rparr>"
    using r(4) unfolding only_index_def by (metis fun_upd_same)
  then have c': "chs' c = (r_chans s c)\<lparr>ch_events := 0, ch_index := j, is_addedToLoop := False\<rparr>"
    by (simp add: u(5) kNoneEvent_def)
  have f: "ch_fd (chs' c) = ch_fd (r_chans s c)" "ch_fd (chs c) = ch_fd (r_chans s c)" "ch_loop (chs' c) = ch_loop (r_chans s c)"
    "ch_events (chs' c) = 0" "\<not> is_addedToLoop (chs' c)" "is_tied (chs' c) = is_tied (r_chans s c)"
    "ch_eventHandling (chs' c) = ch_eventHandling (r_chans s c)"
    by (simp_all add: c' u(5))
  have view: "chan_of_loop c (s\<lparr>r_chans := chs', m_poller := p'\<rparr>)" "\<not> chan_registered c (s\<lparr>r_chans := chs', m_poller := p'\<rparr>)"
    using c(2) by (simp_all add: chan_of_loop_def chan_registered_def f r(3))
  have "Connector_removeAndResetChannel tid s
      = Some (ch_fd (r_chans s c), EventLoop_queueInLoop tid Ct_resetChannel (s\<lparr>r_chans := chs', m_poller := p'\<rparr>))"
    by (simp add: Connector_removeAndResetChannel_def c(1) u(1) r(1) f(1))
  with r(2) view f show ?thesis unfolding Let_def by (intro exI[of _ chs'] exI[of _ p']) simp
qed

subsection \<open>The end of an attempt\<close>

lemma queue_form:
  fixes s :: "('cb, 'z) reactor_scheme"
  obtains w where "EventLoop_queueInLoop tid f s
    = s\<lparr>m_pendingFunctors := m_pendingFunctors s @ [f], wakeup_count := w\<rparr>"
proof -
  have "\<exists>w. EventLoop_queueInLoop tid f s = s\<lparr>m_pendingFunctors := m_pendingFunctors s @ [f], wakeup_count := w\<rparr>"
    by (auto simp: EventLoop_queueInLoop_def EventLoop_wakeup_def queue_push_def Let_def
        intro: exI[of _ "wakeup_count s"])
  with that show ?thesis by blast
qed

text \<open>What becomes of a connector when the channel of its attempt was removed.\<close>

definition attempt_over :: "connector \<Rightarrow> connector \<Rightarrow> bool" where
  "attempt_over s t = (el_eventHandling t = el_eventHandling s \<and> ct_channel t = ct_channel s \<and> ct_state t \<noteq> Connector_kConnecting
    \<and> (\<forall>c. ct_channel s = Some c \<longrightarrow> ch_events (r_chans t c) = 0 \<and> ch_eventHandling (r_chans t c) = ch_eventHandling (r_chans s c)))"

lemma core_connecting:
  assumes "connector_core tid s" "ct_state s = Connector_kConnecting"
  obtains c where "ct_channel s = Some c" "channel_ok c s" "chan_of_loop c s" "chan_registered c s" "ct_timers s = []"
    "Ct_startInLoop \<notin> set (m_pendingFunctors s)" "count_list (m_pendingFunctors s) Ct_resetChannel = 0"
    "connecting_fds s = {#ch_fd (r_chans s c)#}" "ch_events (r_chans s c) = kWriteEvent" "\<not> is_tied (r_chans s c)"
  using assms by (cases "ct_channel s") (auto simp: connector_core_def channel_ok_def Let_def connecting_fds_def)

lemma attempt_over_core:
  assumes core: "connector_core tid s" and st: "ct_state s = Connector_kConnecting" and c: "ct_channel s = Some c"
    and u: "reactor_ok tid (s\<lparr>r_chans := chs, m_poller := p\<rparr>)" "chan_of_loop c (s\<lparr>r_chans := chs, m_poller := p\<rparr>)"
      "\<not> chan_registered c (s\<lparr>r_chans := chs, m_poller := p\<rparr>)" "ch_events (chs c) = 0" "\<not> is_addedToLoop (chs c)"
      "\<not> is_tied (chs c)"
    and new: "st' \<noteq> Connector_kConnecting" "tm = [] \<or> length tm = 1 \<and> st' = Connector_kDisconnected"
      "mset cl + mset h = mset (ct_closed s) + mset (ct_handed s) + {#ch_fd (r_chans s c)#}"
      "kInitRetryDelayMs \<le> d" "d \<le> kMaxRetryDelayMs"
  shows "connector_core tid (s\<lparr>r_chans := chs, m_poller := p, m_pendingFunctors := m_pendingFunctors s @ [Ct_resetChannel],
    wakeup_count := w, ct_state := st', ct_timers := tm, ct_retryDelayMs := d, ct_closed := cl, ct_handed := h\<rparr>)"
    (is "connector_core tid ?t")
proof -
  obtain c' where s: "ct_channel s = Some c'" "ct_timers s = []" "Ct_startInLoop \<notin> set (m_pendingFunctors s)"
    "count_list (m_pendingFunctors s) Ct_resetChannel = 0" "connecting_fds s = {#ch_fd (r_chans s c')#}"
    by (rule core_connecting[OF core st])
  have [simp]: "c' = c" using s(1) c by simp
  have view: "reactor_ok tid ?t" "chan_of_loop c ?t" "\<not> chan_registered c ?t"
    using u(1-3) reactor_view_cong[of ?t "s\<lparr>r_chans := chs, m_poller := p\<rparr>"] by simp_all
  have ch: "channel_ok c ?t"
    using view u(4-6) new(1) s(4) by (simp add: channel_ok_def Let_def)
  have "mset (ct_created s) = mset cl + mset h"
    using core new(3) s(5) by (simp add: connector_core_def fds_balance_def)
  then have bal: "fds_balance ?t" using new(1) c by (simp add: fds_balance_def connecting_fds_def)
  have pend: "set (m_pendingFunctors s) \<subseteq> {Ct_startInLoop, Ct_stopInLoop, Ct_resetChannel}"
    using core by (simp add: connector_core_def)
  have none: "count_list (m_pendingFunctors s) Ct_startInLoop = 0" using s(3) by (simp add: count_list_0_iff)
  show ?thesis
    unfolding connector_core_def using view(1) ch bal pend none s(3) new c by auto
qed

lemma attempt_retry:
  assumes core: "connector_core tid s" and st: "ct_state s = Connector_kConnecting" and c: "ct_channel s = Some c"
    and idle: "el_eventHandling s \<Longrightarrow> m_currentActiveChannel s = Some c"
  obtains s1 where "Connector_removeAndResetChannel tid s = Some (ch_fd (r_chans s c), s1)"
    "connector_core tid (Connector_retry (ch_fd (r_chans s c)) s1)" "attempt_over s (Connector_retry (ch_fd (r_chans s c)) s1)"
    "connector_core tid (connector_hand_over (ch_fd (r_chans s c)) (Connector_setState Connector_kConnected s1))"
    "attempt_over s (connector_hand_over (ch_fd (r_chans s c)) (Connector_setState Connector_kConnected s1))"
    "connector_core tid (connector_close (ch_fd (r_chans s c)) (Connector_setState Connector_kConnected s1))"
    "attempt_over s (connector_close (ch_fd (r_chans s c)) (Connector_setState Connector_kConnected s1))"
    "ct_connect s1 = ct_connect s"
proof -
  let ?fd = "ch_fd (r_chans s c)"
  obtain c' where s: "ct_channel s = Some c'" "chan_of_loop c' s" "chan_registered c' s" "ct_timers s = []" "\<not> is_tied (r_chans s c')"
    by (rule core_connecting[OF core st])
  have ok: "reactor_ok tid s" and cs: "chan_of_loop c s" "chan_registered c s" "\<not> is_tied (r_chans s c)"
    using core s c by (simp_all add: connector_core_def)
  obtain chs p where r: "Connector_removeAndResetChannel tid s = Some (?fd, EventLoop_queueInLoop tid Ct_resetChannel (s\<lparr>r_chans := chs, m_poller := p\<rparr>))"
    and u: "reactor_ok tid (s\<lparr>r_chans := chs, m_poller := p\<rparr>)" "chan_of_loop c (s\<lparr>r_chans := chs, m_poller := p\<rparr>)"
      "\<not> chan_registered c (s\<lparr>r_chans := chs, m_poller := p\<rparr>)" "ch_events (chs c) = 0" "\<not> is_addedToLoop (chs c)"
      "\<not> is_tied (chs c)" and eh: "ch_eventHandling (chs c) = ch_eventHandling (r_chans s c)"
    using removeAndReset_run[OF ok c cs(1,2) idle] cs(3) unfolding Let_def by auto
  obtain w where q: "EventLoop_queueInLoop tid Ct_resetChannel (s\<lparr>r_chans := chs, m_poller := p\<rparr>)
      = s\<lparr>r_chans := chs, m_poller := p, m_pendingFunctors := m_pendingFunctors s @ [Ct_resetChannel], wakeup_count := w\<rparr>"
    by (rule queue_form[of tid Ct_resetChannel "s\<lparr>r_chans := chs, m_poller := p\<rparr>"]) simp
  let ?s1 = "s\<lparr>r_chans := chs, m_poller := p, m_pendingFunctors := m_pendingFunctors s @ [Ct_resetChannel], wakeup_count := w\<rparr>"
  note over = attempt_over_core[OF core st c u]
  have d: "kInitRetryDelayMs \<le> ct_retryDelayMs s" "ct_retryDelayMs s \<le> kMaxRetryDelayMs"
    "kInitRetryDelayMs \<le> min (ct_retryDelayMs s * 2) kMaxRetryDelayMs" "min (ct_retryDelayMs s * 2) kMaxRetryDelayMs \<le> kMaxRetryDelayMs"
    using core by (auto simp: connector_core_def kInitRetryDelayMs_def kMaxRetryDelayMs_def)
  show ?thesis
  proof (rule that)
    show "Connector_removeAndResetChannel tid s = Some (?fd, ?s1)" using r q by simp
    show "ct_connect ?s1 = ct_connect s" by simp
    show "connector_core tid (Connector_retry ?fd ?s1)"
    proof (cases "ct_connect s")
      case True
      have "Connector_retry ?fd ?s1 = s\<lparr>r_chans := chs, m_poller := p, m_pendingFunctors := m_pendingFunctors s @ [Ct_resetChannel],
          wakeup_count := w, ct_state := Connector_kDisconnected, ct_timers := [of_int (ct_retryDelayMs s) / 1000],
          ct_retryDelayMs := min (ct_retryDelayMs s * 2) kMaxRetryDelayMs, ct_closed := ct_closed s @ [?fd], ct_handed := ct_handed s\<rparr>"
        using True s(4) by (simp add: Connector_retry_def Connector_setState_def connector_close_def Let_def)
      then show ?thesis by (simp only:) (rule over, use d in simp_all)
    next
      case False
      have "Connector_retry ?fd ?s1 = s\<lparr>r_chans := chs, m_poller := p, m_pendingFunctors := m_pendingFunctors s @ [Ct_resetChannel],
          wakeup_count := w, ct_state := Connector_kDisconnected, ct_timers := [],
          ct_retryDelayMs := ct_retryDelayMs s, ct_closed := ct_closed s @ [?fd], ct_handed := ct_handed s\<rparr>"
        using False s(4) by (simp add: Connector_retry_def Connector_setState_def connector_close_def Let_def)
      then show ?thesis by (simp only:) (rule over, use d in simp_all)
    qed
    have "connector_hand_over ?fd (Connector_setState Connector_kConnected ?s1)
        = s\<lparr>r_chans := chs, m_poller := p, m_pendingFunctors := m_pendingFunctors s @ [Ct_resetChannel],
          wakeup_count := w, ct_state := Connector_kConnected, ct_timers := [],
          ct_retryDelayMs := ct_retryDelayMs s, ct_closed := ct_closed s, ct_handed := ct_handed s @ [?fd]\<rparr>"
      using s(4) by (simp add: connector_hand_over_def Connector_setState_def)
    then show "connector_core tid (connector_hand_over ?fd (Connector_setState Connector_kConnected ?s1))"
      by (simp only:) (rule over, use d in simp_all)
    have "connector_close ?fd (Connector_setState Connector_kConnected ?s1)
        = s\<lparr>r_chans := chs, m_poller := p, m_pendingFunctors := m_pendingFunctors s @ [Ct_resetChannel],
          wakeup_count := w, ct_state := Connector_kConnected, ct_timers := [],
          ct_retryDelayMs := ct_retryDelayMs s, ct_closed := ct_closed s @ [?fd], ct_handed := ct_handed s\<rparr>"
      using s(4) by (simp add: connector_close_def Connector_setState_def)
    then show "connector_core tid (connector_close ?fd (Connector_setState Connector_kConnected ?s1))"
      by (simp only:) (rule over, use d in simp_all)
  qed (use c u(4) eh in \<open>simp_all add: attempt_over_def Connector_retry_def connector_hand_over_def connector_close_def Connector_setState_def Let_def\<close>)
qed

subsection \<open>The handlers\<close>

lemma handleWrite_core:
  assumes core: "connector_core tid s" and st: "ct_state s = Connector_kConnecting"
    and idle: "el_eventHandling s \<Longrightarrow> m_currentActiveChannel s = ct_channel s"
  shows "\<exists>t. Connector_handleWrite tid err self s = Some t \<and> connector_core tid t \<and> attempt_over s t"
proof -
  obtain c where c: "ct_channel s = Some c" by (rule core_connecting[OF core st])
  have i: "el_eventHandling s \<Longrightarrow> m_currentActiveChannel s = Some c" using idle c by simp
  show ?thesis
    by (rule attempt_retry[OF core st c i]) (auto simp: Connector_handleWrite_def st Connector_setState_def Let_def)
qed

lemma handleError_core:
  assumes core: "connector_core tid s" and st: "ct_state s = Connector_kConnecting"
    and idle: "el_eventHandling s \<Longrightarrow> m_currentActiveChannel s = ct_channel s"
  shows "\<exists>t. Connector_handleError tid s = Some t \<and> connector_core tid t \<and> attempt_over s t"
proof -
  obtain c where c: "ct_channel s = Some c" by (rule core_connecting[OF core st])
  have i: "el_eventHandling s \<Longrightarrow> m_currentActiveChannel s = Some c" using idle c by simp
  show ?thesis
    by (rule attempt_retry[OF core st c i]) (auto simp: Connector_handleError_def st)
qed

text \<open>Setting the state first, as \<open>stopInLoop\<close> does, makes no difference.\<close>

lemma chan_ops_state:
  "Channel_disableAll tid c (s\<lparr>ct_state := st\<rparr>) = map_option (ct_state_update (\<lambda>_. st)) (Channel_disableAll tid c s)"
  "Channel_remove tid c (s\<lparr>ct_state := st\<rparr>) = map_option (ct_state_update (\<lambda>_. st)) (Channel_remove tid c s)"
proof -
  show "Channel_disableAll tid c (s\<lparr>ct_state := st\<rparr>) = map_option (ct_state_update (\<lambda>_. st)) (Channel_disableAll tid c s)"
    by (simp add: Channel_disableAll_def Channel_update_def EventLoop_updateChannel_def chan_upd_def
        EventLoop_assertInLoopThread_def EventLoop_isInLoopThread_def map_option_bind case_prod_beta' comp_def
        split: bind_split)
  show "Channel_remove tid c (s\<lparr>ct_state := st\<rparr>) = map_option (ct_state_update (\<lambda>_. st)) (Channel_remove tid c s)"
    by (simp add: Channel_remove_def EventLoop_removeChannel_def chan_upd_def
        EventLoop_assertInLoopThread_def EventLoop_isInLoopThread_def map_option_bind case_prod_beta' comp_def
        split: bind_split)
qed

lemma removeAndReset_state:
  "Connector_removeAndResetChannel tid (s\<lparr>ct_state := st\<rparr>)
   = map_option (map_prod id (ct_state_update (\<lambda>_. st))) (Connector_removeAndResetChannel tid s)"
  by (simp add: Connector_removeAndResetChannel_def chan_ops_state map_option_bind comp_def EventLoop_queueInLoop_def
      EventLoop_wakeup_def queue_push_def EventLoop_isInLoopThread_def Let_def bind_map_option split: bind_split)

lemma core_thread: "connector_core tid s \<Longrightarrow> EventLoop_assertInLoopThread tid s = Some ()"
  by (simp add: connector_core_def reactor_ok_def EventLoop_assertInLoopThread_def EventLoop_isInLoopThread_def)

lemma stopInLoop_core:
  assumes core: "connector_core tid s" and idle: "\<not> el_eventHandling s"
  shows "\<exists>t. Connector_stopInLoop tid s = Some t \<and> connector_core tid t \<and> (t = s \<or> attempt_over s t)"
proof (cases "ct_state s = Connector_kConnecting")
  case True
  obtain c where c: "ct_channel s = Some c" by (rule core_connecting[OF core True])
  have i: "el_eventHandling s \<Longrightarrow> m_currentActiveChannel s = Some c" using idle by simp
  have again: "Connector_retry fd (s1\<lparr>ct_state := Connector_kDisconnected\<rparr>) = Connector_retry fd s1" for fd s1
    by (simp add: Connector_retry_def connector_close_def Connector_setState_def Let_def)
  show ?thesis
    by (rule attempt_retry[OF core True c i])
      (simp_all add: Connector_stopInLoop_def core_thread[OF core] True Connector_setState_def removeAndReset_state again)
next
  case False
  then show ?thesis using core by (simp add: Connector_stopInLoop_def core_thread[OF core])
qed

text \<open>Running a \<open>startInLoop\<close> that is due: no other one is, and the channel is gone.\<close>

lemma connecting_core:
  assumes core: "connector_core tid s" and st: "ct_state s = Connector_kDisconnected" and due: "no_start_due s"
    and fresh: "fresh_answer a s"
  shows "\<exists>t. Connector_connecting tid (ca_sockfd a) (ca_channel a) (s\<lparr>ct_created := ct_created s @ [ca_sockfd a]\<rparr>) = Some t
    \<and> connector_core tid t \<and> el_eventHandling t = el_eventHandling s
    \<and> (\<forall>c. ct_channel t = Some c \<longrightarrow> \<not> ch_eventHandling (r_chans t c))"
proof -
  let ?s = "s\<lparr>ct_created := ct_created s @ [ca_sockfd a]\<rparr>" and ?c = "ca_channel a" and ?fd = "ca_sockfd a"
  have ok: "reactor_ok tid ?s" using core reactor_view_cong[of ?s s] by (simp add: connector_core_def)
  have none: "ct_channel ?s = None" using due by (simp add: no_start_due_def)
  obtain chs p where u: "Connector_connecting tid ?fd ?c ?s
        = Some (?s\<lparr>r_chans := chs, m_poller := p, ct_state := Connector_kConnecting, ct_channel := Some ?c\<rparr>)"
    "reactor_ok tid (?s\<lparr>r_chans := chs, m_poller := p, ct_state := Connector_kConnecting, ct_channel := Some ?c\<rparr>)"
    "chan_of_loop ?c (?s\<lparr>r_chans := chs, m_poller := p, ct_state := Connector_kConnecting, ct_channel := Some ?c\<rparr>)"
    "chan_registered ?c (?s\<lparr>r_chans := chs, m_poller := p, ct_state := Connector_kConnecting, ct_channel := Some ?c\<rparr>)"
    "ch_fd (chs ?c) = ?fd" "ch_events (chs ?c) = kWriteEvent" "\<not> is_tied (chs ?c)" "\<not> ch_eventHandling (chs ?c)"
    "m_writeCallback (chs ?c) = Some Ct_handleWrite" "m_errorCallback (chs ?c) = Some Ct_handleError" "m_closeCallback (chs ?c) = None"
    using connecting_run[OF ok none, of ?fd ?c] fresh unfolding Let_def fresh_answer_def by auto
  let ?t = "?s\<lparr>r_chans := chs, m_poller := p, ct_state := Connector_kConnecting, ct_channel := Some ?c\<rparr>"
  have s: "ct_timers s = []" "ct_channel s = None" "Ct_startInLoop \<notin> set (m_pendingFunctors s)"
    "count_list (m_pendingFunctors s) Ct_resetChannel = 0" "connecting_fds s = {#}"
    using core due by (simp_all add: no_start_due_def connector_core_def connecting_fds_def)
  have "channel_ok ?c ?t" using u s(4) by (simp add: channel_ok_def Let_def)
  moreover have "fds_balance ?t" using core s(5) u(5) by (simp add: connector_core_def fds_balance_def connecting_fds_def)
  moreover have "count_list (m_pendingFunctors s) Ct_startInLoop = 0" using s(3) by (simp add: count_list_0_iff)
  ultimately have "connector_core tid ?t"
    unfolding connector_core_def using u(2) core s by (simp add: connector_core_def)
  then show ?thesis using u(1,8) by simp
qed

lemma startInLoop_core:
  assumes core: "connector_core tid s" and st: "ct_state s = Connector_kDisconnected" and due: "no_start_due s"
    and fresh: "fresh_answer a s" and idle: "\<not> el_eventHandling s"
  shows "\<exists>t. Connector_startInLoop tid a s = Some t \<and> connector_inv tid t"
proof -
  let ?s = "s\<lparr>ct_created := ct_created s @ [ca_sockfd a]\<rparr>" and ?fd = "ca_sockfd a"
  have chan: "ct_channel s = None" and tm: "ct_timers s = []" and pend: "Ct_startInLoop \<notin> set (m_pendingFunctors s)"
    using due by (simp_all add: no_start_due_def)
  have sock: "createNonblockingOrDie ?fd = Some ?fd" using fresh by (simp add: fresh_answer_def createNonblockingOrDie_def)
  have zero: "count_list (m_pendingFunctors s) Ct_startInLoop = 0" using pend by (simp add: count_list_0_iff)
  have closed: "connector_core tid (connector_close ?fd ?s)"
    "connector_core tid (Connector_retry ?fd ?s)"
  proof -
    have d: "kInitRetryDelayMs \<le> min (ct_retryDelayMs s * 2) kMaxRetryDelayMs"
      using core by (auto simp: connector_core_def kInitRetryDelayMs_def kMaxRetryDelayMs_def)
    have view: "reactor_ok tid (connector_close ?fd ?s)" "reactor_ok tid (Connector_retry ?fd ?s)"
      using core reactor_view_cong[of "connector_close ?fd ?s" s] reactor_view_cong[of "Connector_retry ?fd ?s" s]
      by (simp_all add: connector_core_def connector_close_def Connector_retry_def Connector_setState_def Let_def)
    show "connector_core tid (connector_close ?fd ?s)"
      using core chan view(1) by (simp add: connector_core_def connector_close_def fds_balance_def connecting_fds_def)
    show "connector_core tid (Connector_retry ?fd ?s)"
      using core chan tm zero pend d view(2)
      by (simp add: connector_core_def Connector_retry_def connector_close_def Connector_setState_def
          fds_balance_def connecting_fds_def Let_def)
  qed
  have quiet: "connector_inv tid t" if "connector_core tid t" "el_eventHandling t = el_eventHandling s" "ct_channel t = None" for t
    using that idle by (simp add: connector_inv_def)
  show ?thesis
  proof (cases "ct_connect s")
    case False
    then show ?thesis using core idle st chan by (simp add: Connector_startInLoop_def core_thread[OF core] connector_inv_def)
  next
    case True
    have run: "Connector_startInLoop tid a s = Connector_connect tid a s"
      using True st by (simp add: Connector_startInLoop_def core_thread[OF core])
    obtain t where t: "Connector_connecting tid ?fd (ca_channel a) ?s = Some t" "connector_inv tid t"
      using connecting_core[OF core st due fresh] idle by (auto simp: connector_inv_def)
    have "connector_inv tid (connector_close ?fd ?s)" "connector_inv tid (Connector_retry ?fd ?s)"
      by (rule quiet; use closed chan in \<open>simp add: connector_close_def Connector_retry_def Connector_setState_def Let_def\<close>)+
    with t show ?thesis unfolding run by (simp add: Connector_connect_def sock Let_def)
  qed
qed

subsection \<open>Events of the channel\<close>

lemma core_cong:
  assumes "reactor_ok tid t = reactor_ok tid s" "\<And>c. chan_of_loop c t = chan_of_loop c s" "\<And>c. chan_registered c t = chan_registered c s"
    "\<And>c. ch_fd (r_chans t c) = ch_fd (r_chans s c)" "\<And>c. ch_events (r_chans t c) = ch_events (r_chans s c)"
    "\<And>c. is_tied (r_chans t c) = is_tied (r_chans s c)" "\<And>c. is_addedToLoop (r_chans t c) = is_addedToLoop (r_chans s c)"
    "\<And>c. m_writeCallback (r_chans t c) = m_writeCallback (r_chans s c)"
    "\<And>c. m_errorCallback (r_chans t c) = m_errorCallback (r_chans s c)"
    "\<And>c. m_closeCallback (r_chans t c) = m_closeCallback (r_chans s c)"
    "m_pendingFunctors t = m_pendingFunctors s" "ct_state t = ct_state s" "ct_channel t = ct_channel s" "ct_timers t = ct_timers s"
    "ct_retryDelayMs t = ct_retryDelayMs s" "ct_created t = ct_created s" "ct_closed t = ct_closed s" "ct_handed t = ct_handed s"
  shows "connector_core tid t = connector_core tid s"
  unfolding connector_core_def channel_ok_def fds_balance_def connecting_fds_def Let_def assms by (simp split: option.split)

lemma core_loop_flags [simp]:
  "connector_core tid (s\<lparr>el_eventHandling := b, m_activeChannels := l, m_currentActiveChannel := x\<rparr>) = connector_core tid s"
  "connector_core tid (s\<lparr>m_currentActiveChannel := x, el_eventHandling := b\<rparr>) = connector_core tid s"
  by (rule core_cong; simp add: reactor_ok_def chan_of_loop_def chan_registered_def)+

lemma core_chan_upd:
  assumes core: "connector_core tid s" and f: "\<And>ch. \<exists>x y. f ch = ch\<lparr>ch_revents := x, ch_eventHandling := y\<rparr>"
  shows "connector_core tid (chan_upd c f s)"
proof -
  have keep: "ch_loop (f ch) = ch_loop ch \<and> ch_fd (f ch) = ch_fd ch \<and> ch_index (f ch) = ch_index ch \<and> ch_events (f ch) = ch_events ch
      \<and> is_tied (f ch) = is_tied ch \<and> is_addedToLoop (f ch) = is_addedToLoop ch \<and> m_writeCallback (f ch) = m_writeCallback ch
      \<and> m_errorCallback (f ch) = m_errorCallback ch \<and> m_closeCallback (f ch) = m_closeCallback ch" for ch
    using f[of ch] by auto
  have ok: "reactor_ok tid s" using core by (simp add: connector_core_def)
  have view: "reactor_ok tid (chan_upd c f s)" "chan_of_loop d (chan_upd c f s) = chan_of_loop d s"
    "chan_registered d (chan_upd c f s) = chan_registered d s" for d
    by (rule chan_upd_view[OF ok], simp add: keep)+
  have ct: "ct_state (chan_upd c f s) = ct_state s" "ct_channel (chan_upd c f s) = ct_channel s" "ct_timers (chan_upd c f s) = ct_timers s"
    "ct_retryDelayMs (chan_upd c f s) = ct_retryDelayMs s" "ct_created (chan_upd c f s) = ct_created s"
    "ct_closed (chan_upd c f s) = ct_closed s" "ct_handed (chan_upd c f s) = ct_handed s"
    by (simp_all add: chan_upd_def)
  have "connector_core tid (chan_upd c f s) = connector_core tid s"
    by (rule core_cong) (simp_all add: view ok ct keep)
  with core show ?thesis by simp
qed

lemma dispatch_forms:
  "\<exists>x y. Channel_set_revents r ch = ch\<lparr>ch_revents := x, ch_eventHandling := y\<rparr>"
  "\<exists>x y. ch_eventHandling_update (\<lambda>_. b) ch = ch\<lparr>ch_revents := x, ch_eventHandling := y\<rparr>"
  by (rule exI[of _ r], rule exI[of _ "ch_eventHandling ch"], simp add: Channel_set_revents_def)
    (rule exI[of _ "ch_revents ch"], rule exI[of _ b], simp)

lemma dispatch_inv:
  assumes inv: "connector_inv tid s" and en: "connector_enabled (Cv_channel revents err self) s"
  shows "\<exists>t. connector_dispatch tid revents err self s = Some t \<and> connector_inv tid t"
proof -
  from en obtain c where c: "ct_channel s = Some c" and ev: "ch_events (r_chans s c) \<noteq> 0" by (auto split: option.splits)
  have core: "connector_core tid s" using inv by (simp add: connector_inv_def)
  then have ok: "channel_ok c s" using c by (simp add: connector_core_def)
  then have st: "ct_state s = Connector_kConnecting" using ev by (auto simp: channel_ok_def Let_def split: if_splits)
  let ?run = "connector_run tid \<lparr>ca_sockfd = 0, ca_errno = 0, ca_channel = 0\<rparr> err self"
  define s1 where "s1 = (chan_upd c (Channel_set_revents revents) s)
      \<lparr>el_eventHandling := True, m_activeChannels := [c], m_currentActiveChannel := Some c\<rparr>"
  define s2 where "s2 = chan_upd c (ch_eventHandling_update (\<lambda>_. True)) s1"
  have "connector_core tid (chan_upd c (Channel_set_revents revents) s)"
    by (rule core_chan_upd[OF core dispatch_forms(1)])
  then have "connector_core tid s1" by (simp add: s1_def)
  then have core2: "connector_core tid s2"
    unfolding s2_def by (rule core_chan_upd[OF _ dispatch_forms(2)])
  have f2: "ct_state s2 = Connector_kConnecting" "ct_channel s2 = Some c" "m_currentActiveChannel s2 = Some c" "el_eventHandling s2"
    by (simp_all add: s2_def s1_def chan_upd_def st c)
  have ch2: "ch_events (r_chans s2 c) = kWriteEvent" "m_writeCallback (r_chans s2 c) = Some Ct_handleWrite"
    "m_errorCallback (r_chans s2 c) = Some Ct_handleError" "m_closeCallback (r_chans s2 c) = None"
    using ok st by (simp_all add: s2_def s1_def channel_ok_def Let_def Channel_set_revents_def)
  have tied: "\<not> is_tied (r_chans s1 c)" using ok by (simp add: s1_def channel_ok_def Let_def Channel_set_revents_def)
  have none: "\<not> has_event 0 m" "\<not> has_event kWriteEvent (POLLIN OR POLLPRI OR POLLRDHUP)" "has_event kWriteEvent POLLOUT" for m
    by (simp_all add: has_event_def event_masks)
  have "\<exists>t. (if has_event (ch_revents (r_chans s2 c)) (POLLERR OR POLLNVAL)
      then Connector_handleError tid s2 else Connector_handleWrite tid err self s2) = Some t
      \<and> connector_core tid t \<and> attempt_over s2 t"
    using handleError_core[OF core2 f2(1)] handleWrite_core[OF core2 f2(1), of err self] f2(2,3) by simp
  then obtain t where t: "(if has_event (ch_revents (r_chans s2 c)) (POLLERR OR POLLNVAL)
      then Connector_handleError tid s2 else Connector_handleWrite tid err self s2) = Some t"
    "connector_core tid t" "attempt_over s2 t" by blast
  have t0: "ch_events (r_chans t c) = 0" "ct_channel t = Some c" using t(3) f2(2) by (simp_all add: attempt_over_def)
  have "Channel_handleEventWithGuard ?run Timestamp_invalid c s1 = Some (chan_upd c (ch_eventHandling_update (\<lambda>_. False)) t)"
    using t(1) t0(1) ch2 none
    by (auto simp: Channel_handleEventWithGuard_def s2_def[symmetric] Let_def call_if_set_def connector_run_def split: if_splits)
  then have "Channel_handleEvent (\<lambda>_ _. True) ?run Timestamp_invalid c s1 = Some (chan_upd c (ch_eventHandling_update (\<lambda>_. False)) t)"
    unfolding Channel_handleEvent_def using tied by simp
  then have run: "connector_dispatch tid revents err self s
      = Some ((chan_upd c (ch_eventHandling_update (\<lambda>_. False)) t)\<lparr>m_currentActiveChannel := None, el_eventHandling := False\<rparr>)"
    by (simp add: connector_dispatch_def c s1_def[symmetric])
  have "connector_core tid (chan_upd c (ch_eventHandling_update (\<lambda>_. False)) t)"
    by (rule core_chan_upd[OF t(2) dispatch_forms(2)])
  then show ?thesis unfolding run using t0(2) by (simp add: connector_inv_def chan_upd_def)
qed

subsection \<open>Every event\<close>

lemma pop_core:
  assumes core: "connector_core tid s" and q: "m_pendingFunctors s = f # fs" and f: "f \<noteq> Ct_resetChannel"
  shows "connector_core tid (s\<lparr>m_pendingFunctors := fs\<rparr>)"
  using core q f reactor_view_cong[of "s\<lparr>m_pendingFunctors := fs\<rparr>" s]
  by (auto simp: connector_core_def channel_ok_def Let_def fds_balance_def connecting_fds_def chan_of_loop_def chan_registered_def
      split: option.splits if_splits)

lemma reset_inv:
  assumes inv: "connector_inv tid s" and q: "m_pendingFunctors s = Ct_resetChannel # fs"
  shows "\<exists>t. Connector_resetChannel tid (s\<lparr>m_pendingFunctors := fs\<rparr>) = Some t \<and> connector_inv tid t"
proof -
  let ?s = "s\<lparr>m_pendingFunctors := fs\<rparr>"
  have core: "connector_core tid s" using inv by (simp add: connector_inv_def)
  with q obtain c where c: "ct_channel s = Some c" by (cases "ct_channel s") (auto simp: connector_core_def)
  then have ok: "channel_ok c s" using core by (simp add: connector_core_def)
  then have ch: "ct_state s \<noteq> Connector_kConnecting" "\<not> chan_registered c s" "\<not> is_addedToLoop (r_chans s c)" "chan_of_loop c s"
    "count_list fs Ct_resetChannel = 0"
    using q by (auto simp: channel_ok_def Let_def split: if_splits)
  have "Channel_destroy tid c ?s = Some ()"
    using inv c ch core
    by (simp add: Channel_destroy_def connector_inv_def connector_core_def reactor_ok_def EventLoop_isInLoopThread_def
        EventLoop_hasChannel_def EventLoop_assertInLoopThread_def chan_of_loop_def Poller_hasChannel_def in_loop_thread_def
        chan_registered_def)
  then have run: "Connector_resetChannel tid ?s = Some (?s\<lparr>ct_channel := None\<rparr>)"
    by (simp add: Connector_resetChannel_def c)
  have "reactor_ok tid (?s\<lparr>ct_channel := None\<rparr>)"
    using core reactor_view_cong[of "?s\<lparr>ct_channel := None\<rparr>" s] by (simp add: connector_core_def)
  then have "connector_core tid (?s\<lparr>ct_channel := None\<rparr>)"
    using core c ch q by (simp add: connector_core_def fds_balance_def connecting_fds_def)
  then show ?thesis unfolding run using inv by (simp add: connector_inv_def)
qed

text \<open>A functor queued by any thread.\<close>

lemma queue_core:
  assumes inv: "connector_inv tid s" and f: "f = Ct_stopInLoop \<or> f = Ct_startInLoop \<and> ct_state s = Connector_kDisconnected \<and> no_start_due s"
  shows "connector_inv tid (EventLoop_queueInLoop tid' f (s\<lparr>ct_connect := b\<rparr>))"
proof -
  obtain w where q: "EventLoop_queueInLoop tid' f (s\<lparr>ct_connect := b\<rparr>)
      = s\<lparr>ct_connect := b, m_pendingFunctors := m_pendingFunctors s @ [f], wakeup_count := w\<rparr>"
    by (rule queue_form[of tid' f "s\<lparr>ct_connect := b\<rparr>"]) simp
  let ?t = "s\<lparr>ct_connect := b, m_pendingFunctors := m_pendingFunctors s @ [f], wakeup_count := w\<rparr>"
  have view: "reactor_ok tid ?t = reactor_ok tid s" "chan_of_loop c ?t = chan_of_loop c s"
    "chan_registered c ?t = chan_registered c s" for c
    by (rule reactor_view_cong; simp)+
  have "count_list (m_pendingFunctors s) Ct_startInLoop = 0" if "no_start_due s"
    using that by (simp add: no_start_due_def count_list_0_iff)
  then have "connector_core tid ?t"
    using inv f by (auto simp: connector_inv_def connector_core_def channel_ok_def Let_def view fds_balance_def connecting_fds_def
        no_start_due_def split: option.splits if_splits)
  then show ?thesis unfolding q using inv by (simp add: connector_inv_def)
qed

lemma start_due_inv:
  assumes inv: "connector_inv tid s" and st: "ct_state s = Connector_kDisconnected" and due: "no_start_due s"
    and fresh: "fresh_answer a s"
  shows "\<exists>t. Connector_startInLoop tid a s = Some t \<and> connector_inv tid t"
  using inv startInLoop_core[OF _ st due fresh] by (simp add: connector_inv_def)

lemma inv_connect [simp]: "connector_inv tid (s\<lparr>ct_connect := b\<rparr>) = connector_inv tid s"
proof -
  have "connector_core tid (s\<lparr>ct_connect := b\<rparr>) = connector_core tid s"
    by (rule core_cong; simp add: reactor_ok_def chan_of_loop_def chan_registered_def)
  then show ?thesis by (simp add: connector_inv_def)
qed

lemma start_inv:
  assumes inv: "connector_inv tid s" and en: "connector_enabled (Cv_start tid' a) s"
  shows "\<exists>t. Connector_start tid' a s = Some t \<and> connector_inv tid t"
proof (cases "tid' = tid")
  case True
  have "loop_threadId (r_loop s) = tid" using inv by (simp add: connector_inv_def connector_core_def reactor_ok_def)
  with True en start_due_inv[of tid "s\<lparr>ct_connect := True\<rparr>" a] inv show ?thesis
    by (simp add: Connector_start_def EventLoop_runInLoop_def EventLoop_isInLoopThread_def no_start_due_def fresh_answer_def)
next
  case False
  then have "loop_threadId (r_loop s) \<noteq> tid'" using inv by (auto simp: connector_inv_def connector_core_def reactor_ok_def)
  with en queue_core[OF inv, of Ct_startInLoop tid' True] show ?thesis
    by (simp add: Connector_start_def EventLoop_runInLoop_def EventLoop_isInLoopThread_def)
qed

lemma functor_inv:
  assumes inv: "connector_inv tid s" and q: "m_pendingFunctors s = f # fs" and fresh: "fresh_answer a s"
  shows "\<exists>t. connector_functor tid a f (s\<lparr>m_pendingFunctors := fs\<rparr>) = Some t \<and> connector_inv tid t"
proof -
  let ?s = "s\<lparr>m_pendingFunctors := fs\<rparr>"
  have core: "connector_core tid s" using inv by (simp add: connector_inv_def)
  then consider "f = Ct_startInLoop" | "f = Ct_stopInLoop" | "f = Ct_resetChannel"
    using q by (auto simp: connector_core_def)
  then show ?thesis
  proof cases
    case 1
    have pop: "connector_inv tid ?s" using pop_core[OF core q] 1 inv by (simp add: connector_inv_def)
    have "count_list fs Ct_startInLoop + length (ct_timers s) \<le> 0" "ct_state s = Connector_kDisconnected" "ct_channel s = None"
      using core q 1 by (simp_all add: connector_core_def)
    then have "no_start_due ?s" "ct_state ?s = Connector_kDisconnected" by (simp_all add: no_start_due_def count_list_0_iff)
    with start_due_inv[OF pop] fresh 1 show ?thesis
      by (simp add: connector_functor_def connector_run_def fresh_answer_def)
  next
    case 2
    have pop: "connector_core tid ?s" using pop_core[OF core q] 2 by simp
    have idle: "\<not> el_eventHandling ?s" using inv by (simp add: connector_inv_def)
    obtain t where t: "Connector_stopInLoop tid ?s = Some t" "connector_core tid t" "t = ?s \<or> attempt_over ?s t"
      using stopInLoop_core[OF pop idle] by blast
    from t(2,3) have "connector_inv tid t" using inv by (auto simp: connector_inv_def attempt_over_def)
    with t(1) 2 show ?thesis by (simp add: connector_functor_def connector_run_def)
  next
    case 3
    then show ?thesis using reset_inv[OF inv, of fs] q by (simp add: connector_functor_def connector_run_def)
  qed
qed

lemma timer_inv:
  assumes inv: "connector_inv tid s" and en: "connector_enabled (Cv_timer a) s"
  shows "\<exists>t. connector_apply tid (Cv_timer a) s = Some t \<and> connector_inv tid t"
proof -
  let ?s = "s\<lparr>ct_timers := tl (ct_timers s)\<rparr>"
  have core: "connector_core tid s" using inv by (simp add: connector_inv_def)
  have tm: "ct_timers s \<noteq> []" "count_list (m_pendingFunctors s) Ct_resetChannel = 0" using en by (simp_all add: count_list_0_iff)
  have st: "ct_state s = Connector_kDisconnected" using core tm by (simp add: connector_core_def)
  have len: "count_list (m_pendingFunctors s) Ct_startInLoop + length (ct_timers s) \<le> 1" using core by (simp add: connector_core_def)
  have len1: "length (ct_timers s) = 1" "count_list (m_pendingFunctors s) Ct_startInLoop = 0"
    using len tm(1) by (cases "ct_timers s"; simp)+
  have chan: "ct_channel s = None"
    using core tm st by (auto simp: connector_core_def channel_ok_def Let_def split: option.splits)
  have "connector_core tid ?s"
    using core chan len1 st reactor_view_cong[of ?s s] by (simp add: connector_core_def fds_balance_def connecting_fds_def)
  then have "connector_inv tid ?s" using inv by (simp add: connector_inv_def)
  moreover have "no_start_due ?s" using chan len1 by (cases "ct_timers s") (simp_all add: no_start_due_def count_list_0_iff)
  ultimately show ?thesis
    using start_due_inv[of tid ?s a] en st by (simp add: connector_functor_def connector_run_def fresh_answer_def)
qed

lemma restart_inv:
  assumes inv: "connector_inv tid s" and en: "connector_enabled (Cv_restart a) s"
  shows "\<exists>t. Connector_restart tid a s = Some t \<and> connector_inv tid t"
proof -
  let ?s = "s\<lparr>ct_state := Connector_kDisconnected, ct_retryDelayMs := kInitRetryDelayMs, ct_connect := True\<rparr>"
  have core: "connector_core tid s" using inv by (simp add: connector_inv_def)
  have due: "ct_timers s = []" "ct_channel s = None" "Ct_startInLoop \<notin> set (m_pendingFunctors s)"
    using en by (simp_all add: no_start_due_def)
  have "connector_core tid ?s"
    using core due reactor_view_cong[of ?s s]
    by (simp add: connector_core_def fds_balance_def connecting_fds_def kInitRetryDelayMs_def kMaxRetryDelayMs_def)
  then have "connector_inv tid ?s" using inv by (simp add: connector_inv_def)
  with start_due_inv[of tid ?s a] en due show ?thesis
    by (simp add: Connector_restart_def Connector_setState_def core_thread[OF core] no_start_due_def fresh_answer_def)
qed

lemma connector_step_inv:
  assumes inv: "connector_inv tid s" and en: "connector_enabled ev s"
  shows "\<exists>t. connector_apply tid ev s = Some t \<and> connector_inv tid t"
proof (cases ev)
  case (Cv_start tid' a)
  then show ?thesis using start_inv[OF inv] en by simp
next
  case (Cv_stop tid')
  then show ?thesis using queue_core[OF inv, of Ct_stopInLoop tid' False] by (simp add: Connector_stop_def)
next
  case (Cv_functor a)
  with en obtain f fs where "m_pendingFunctors s = f # fs" "fresh_answer a s" by (cases "m_pendingFunctors s") auto
  then show ?thesis using functor_inv[OF inv] by (simp add: Cv_functor)
next
  case (Cv_timer a)
  then show ?thesis using timer_inv[OF inv] en by simp
next
  case (Cv_channel revents err self)
  then show ?thesis using dispatch_inv[OF inv, of revents err self] en by simp
next
  case (Cv_restart a)
  then show ?thesis using restart_inv[OF inv] en by simp
qed

lemma connector_new_inv:
  assumes "reactor_ok tid r" "\<not> el_eventHandling r" "m_pendingFunctors r = []"
  shows "connector_inv tid (Connector_new r)"
proof -
  have f: "r_chans (Connector_new r) = r_chans r" "m_poller (Connector_new r) = m_poller r" "r_loop (Connector_new r) = r_loop r"
    "el_eventHandling (Connector_new r) = el_eventHandling r" "m_pendingFunctors (Connector_new r) = m_pendingFunctors r"
    "ct_channel (Connector_new r) = None" "ct_state (Connector_new r) = Connector_kDisconnected" "ct_timers (Connector_new r) = []"
    "ct_created (Connector_new r) = []" "ct_closed (Connector_new r) = []" "ct_handed (Connector_new r) = []"
    "ct_retryDelayMs (Connector_new r) = kInitRetryDelayMs"
    by (simp_all add: Connector_new_def reactor.extend_def)
  show ?thesis
    using assms reactor_view_cong[OF f(1-3)]
    by (simp add: connector_inv_def connector_core_def f fds_balance_def connecting_fds_def kInitRetryDelayMs_def kMaxRetryDelayMs_def)
qed

lemma connector_reach_inv:
  assumes "connector_reach tid s0 s" "connector_inv tid s0"
  shows "connector_inv tid s"
  using assms
proof induction
  case (step s ev s')
  then show ?case using connector_step_inv[of tid s ev] by auto
qed simp

text \<open>C10: The connector owns its descriptors. Take a new connector on a consistent loop and any sequence of
  \<open>start\<close> and \<open>stop\<close> from any thread, queued functors, retry timers, events of its channel (with
  any outcome of \<open>connect\<close>, \<open>SO_ERROR\<close> and the self-connect test) and \<open>restart\<close>, within the rules of
  use above. Then no assertion fails in any of them; every descriptor the connector created has been
  closed exactly once or handed to the callback exactly once, except the one it is connecting; and
  the delay of the next retry stays between 500 ms and 30 s.\<close>

theorem Connector_owns_descriptors:
  assumes "reactor_ok tid r" "\<not> el_eventHandling r" "m_pendingFunctors r = []"
    and reach: "connector_reach tid (Connector_new r) s"
  shows "(\<forall>ev. connector_enabled ev s \<longrightarrow> connector_apply tid ev s \<noteq> None)
    \<and> mset (ct_created s) = mset (ct_closed s) + mset (ct_handed s)
        + (if ct_state s = Connector_kConnecting then {#ch_fd (r_chans s (the (ct_channel s)))#} else {#})
    \<and> (ct_state s = Connector_kConnecting \<longrightarrow> ct_channel s \<noteq> None)
    \<and> 500 \<le> ct_retryDelayMs s \<and> ct_retryDelayMs s \<le> 30000"
proof -
  have inv: "connector_inv tid s"
    by (rule connector_reach_inv[OF reach connector_new_inv[OF assms(1-3)]])
  then have core: "connector_core tid s" by (simp add: connector_inv_def)
  have "ct_state s = Connector_kConnecting \<Longrightarrow> ct_channel s \<noteq> None"
    using core by (auto simp: connector_core_def split: option.splits)
  moreover have "mset (ct_created s) = mset (ct_closed s) + mset (ct_handed s) + connecting_fds s"
    using core by (simp add: connector_core_def fds_balance_def)
  ultimately show ?thesis
    using connector_step_inv[OF inv] core
    by (auto simp: connecting_fds_def connector_core_def kInitRetryDelayMs_def kMaxRetryDelayMs_def split: option.splits)
qed


text \<open>A connector that is refused once, retries and connects.\<close>

definition demo_reactor_c :: "connector_cb reactor" where
  "demo_reactor_c = the (EventLoop_new None True 5 6 0 Ct_wakeup (\<lambda>c. Channel_new \<lparr>loop_addr = 1, loop_threadId = 7\<rparr> (int c + 20))
     \<lparr>loop_addr = 1, loop_threadId = 7\<rparr>)"

lemma demo_reactor_c_ok:
  "reactor_ok 7 demo_reactor_c" "m_pendingFunctors demo_reactor_c = []" "\<not> el_eventHandling demo_reactor_c"
  "Poller_channels (m_poller demo_reactor_c) = [6 \<mapsto> 0]"
proof -
  show "reactor_ok 7 demo_reactor_c" "m_pendingFunctors demo_reactor_c = []"
    using EventLoop_new_ok[of 5 6 True 0 Ct_wakeup "\<lambda>c. Channel_new \<lparr>loop_addr = 1, loop_threadId = 7\<rparr> (int c + 20)"
      "\<lparr>loop_addr = 1, loop_threadId = 7\<rparr>"]
    by (auto simp: demo_reactor_c_def)
  show "\<not> el_eventHandling demo_reactor_c" "Poller_channels (m_poller demo_reactor_c) = [6 \<mapsto> 0]"
    by (simp_all add: demo_reactor_c_def EventLoop_new_def Poller_newDefaultPoller_def PollPoller_new_def createEventfd_def
        Channel_setReadCallback_def Channel_new_def Channel_enableReading_def Channel_update_def chan_upd_def
        EventLoop_updateChannel_def EventLoop_assertInLoopThread_def EventLoop_isInLoopThread_def
        Poller_updateChannel_def PollPoller_updateChannel_def in_loop_thread_def Poller_channels_def Let_def)
qed

definition demo_refused :: connect_answer where
  "demo_refused = \<lparr>ca_sockfd = 9, ca_errno = 111, ca_channel = 2\<rparr>"

definition demo_connector :: connector where
  "demo_connector = the (connector_apply 7 (Cv_start 7 demo_refused) (Connector_new demo_reactor_c))"

lemma demo_connector_reach: "connector_reach 7 (Connector_new demo_reactor_c) demo_connector"
proof -
  have en: "connector_enabled (Cv_start 7 demo_refused) (Connector_new demo_reactor_c)"
    by (simp add: no_start_due_def fresh_answer_def demo_refused_def Connector_new_def reactor.extend_def demo_reactor_c_ok)
  obtain t where "connector_apply 7 (Cv_start 7 demo_refused) (Connector_new demo_reactor_c) = Some t"
    using connector_step_inv[OF connector_new_inv[OF demo_reactor_c_ok(1,3,2)] en] by blast
  then show ?thesis
    using connector_reach.step[OF connector_reach.start en] by (simp add: demo_connector_def)
qed

lemma demo_connector_value:
  "ct_created demo_connector = [9]" "ct_closed demo_connector = [9]" "ct_timers demo_connector = [1 / 2]"
  "ct_retryDelayMs demo_connector = 1000" "ct_state demo_connector = Connector_kDisconnected"
  "connector_enabled (Cv_timer demo_refused) demo_connector"
proof -
  have th: "loop_threadId (r_loop demo_reactor_c) = 7" using demo_reactor_c_ok(1) by (simp add: reactor_ok_def)
  have v: "demo_connector = Connector_retry 9 ((Connector_new demo_reactor_c)\<lparr>ct_connect := True, ct_created := [9]\<rparr>)"
    using th by (simp add: demo_connector_def Connector_start_def EventLoop_runInLoop_def EventLoop_isInLoopThread_def
        Connector_startInLoop_def EventLoop_assertInLoopThread_def Connector_connect_def createNonblockingOrDie_def
        demo_refused_def errno_connecting_def errno_retry_def Connector_new_def reactor.extend_def)
  show "ct_created demo_connector = [9]" "ct_closed demo_connector = [9]" "ct_timers demo_connector = [1 / 2]"
    "ct_retryDelayMs demo_connector = 1000" "ct_state demo_connector = Connector_kDisconnected"
    "connector_enabled (Cv_timer demo_refused) demo_connector"
    by (simp_all add: v Connector_retry_def Connector_setState_def connector_close_def Connector_new_def reactor.extend_def
        kInitRetryDelayMs_def kMaxRetryDelayMs_def demo_reactor_c_ok fresh_answer_def demo_refused_def)
qed

theorem Connector_owns_descriptors_witness:
  "connector_apply 7 (Cv_timer demo_refused) demo_connector \<noteq> None
    \<and> mset (ct_created demo_connector) = mset (ct_closed demo_connector) + mset (ct_handed demo_connector)
    \<and> 500 \<le> ct_retryDelayMs demo_connector \<and> ct_retryDelayMs demo_connector \<le> 30000"
proof -
  note w = Connector_owns_descriptors[OF demo_reactor_c_ok(1,3,2) demo_connector_reach]
  have "connector_apply 7 (Cv_timer demo_refused) demo_connector \<noteq> None" using w demo_connector_value(6) by blast
  then show ?thesis using w demo_connector_value(5) by simp
qed

end
