(* ===== verification/Acceptor.thy ===== *)
theory Acceptor
  imports ConnectorProps
begin

text \<open>
  \<open>dc::net::Acceptor\<close> (\<open>net/acceptor.h\<close>, \<open>net/acceptor.cc\<close>) with \<open>sockets::accept\<close>, \<open>bindOrDie\<close> and
  \<open>listenOrDie\<close> of \<open>net/socketsOps.cc\<close>: the listening socket of a server. The state extends that of the
  loop with the members of the acceptor and with the descriptors it opened, closed and handed to
  \<open>m_newConnectionCallback\<close>. What \<open>accept\<close>, \<open>open\<close>, \<open>bind\<close> and \<open>listen\<close> return is an argument.
\<close>

subsection \<open>\<open>sockets::accept\<close>\<close>

datatype accept_result = Accepted int | Accept_error int

definition EMFILE :: int where "EMFILE = 24"

text \<open>\<open>EAGAIN\<close>, \<open>ECONNABORTED\<close>, \<open>EINTR\<close>, \<open>EPROTO\<close>, \<open>EPERM\<close>, \<open>EMFILE\<close>: the others are fatal.\<close>

definition accept_transient :: "int list" where
  "accept_transient = [11, 103, 4, 71, 1, EMFILE]"

text \<open>The descriptor (-1 on failure) with \<open>errno\<close>; \<open>LOG_FATAL\<close> aborts.\<close>

definition sockets_accept :: "accept_result \<Rightarrow> (int \<times> int) outcome" where
  "sockets_accept res = (case res of
     Accepted connfd \<Rightarrow> Some (connfd, 0)
   | Accept_error saveErrno \<Rightarrow> if saveErrno \<in> set accept_transient then Some (-1, saveErrno) else None)"

definition bindOrDie :: "bool \<Rightarrow> unit outcome" where
  "bindOrDie ok = assert_that ok"

definition listenOrDie :: "bool \<Rightarrow> unit outcome" where
  "listenOrDie ok = assert_that ok"

subsection \<open>\<open>Acceptor\<close>\<close>

datatype acceptor_cb = Ac_wakeup | Ac_handleRead

record acceptor = "acceptor_cb reactor" +
  ac_socket :: int
  ac_channel :: nat
  ac_hasCallback :: bool
  ac_idleFd :: int
  ac_listening :: bool
  ac_opened :: "int list"
  ac_closed :: "int list"
  ac_handed :: "int list"

definition acceptor_close :: "int \<Rightarrow> acceptor \<Rightarrow> acceptor" where
  "acceptor_close fd s = (if 0 \<le> fd then s\<lparr>ac_closed := ac_closed s @ [fd]\<rparr> else s)"

definition acceptor_opened :: "int \<Rightarrow> acceptor \<Rightarrow> acceptor" where
  "acceptor_opened fd s = (if 0 \<le> fd then s\<lparr>ac_opened := ac_opened s @ [fd]\<rparr> else s)"

text \<open>
  The constructor: \<open>sockfd\<close> and \<open>idleFd\<close> are the results of \<open>socket\<close> and \<open>open\<close>, \<open>bound\<close> whether \<open>bind\<close>
  succeeds, \<open>c\<close> the address of the channel. The socket options have no effect on the model.
\<close>

definition Acceptor_new :: "int \<Rightarrow> int \<Rightarrow> bool \<Rightarrow> nat \<Rightarrow> acceptor_cb reactor \<Rightarrow> acceptor outcome" where
  "Acceptor_new sockfd idleFd bound c r = do {
     acceptSocket \<leftarrow> createNonblockingOrDie sockfd;
     assert_that (0 \<le> idleFd);
     bindOrDie bound;
     let ch = Channel_setReadCallback Ac_handleRead (Channel_new (r_loop r) acceptSocket);
     Some (reactor.extend (chan_upd c (\<lambda>_. ch) r)
        \<lparr>ac_socket = acceptSocket, ac_channel = c, ac_hasCallback = False, ac_idleFd = idleFd, ac_listening = False,
         ac_opened = [acceptSocket, idleFd], ac_closed = [], ac_handed = []\<rparr>)
   }"

definition Acceptor_setNewConnectionCallback :: "acceptor \<Rightarrow> acceptor" where
  "Acceptor_setNewConnectionCallback s = s\<lparr>ac_hasCallback := True\<rparr>"

definition Acceptor_listen :: "bool \<Rightarrow> int \<Rightarrow> acceptor \<Rightarrow> acceptor outcome" where
  "Acceptor_listen ok tid s = do {
     EventLoop_assertInLoopThread tid s;
     let s = s\<lparr>ac_listening := True\<rparr>;
     listenOrDie ok;
     Channel_enableReading tid (ac_channel s) s
   }"

text \<open>\<open>again\<close> is the result of the second \<open>accept\<close> and \<open>idle\<close> that of \<open>open\<close> (-1 on failure).\<close>

definition Acceptor_handleRead :: "accept_result \<Rightarrow> int \<Rightarrow> int \<Rightarrow> int \<Rightarrow> acceptor \<Rightarrow> acceptor outcome" where
  "Acceptor_handleRead res again idle tid s = do {
     EventLoop_assertInLoopThread tid s;
     (connfd, err) \<leftarrow> sockets_accept res;
     let s = acceptor_opened connfd s;
     if 0 \<le> connfd
     then Some (if ac_hasCallback s then s\<lparr>ac_handed := ac_handed s @ [connfd]\<rparr> else acceptor_close connfd s)
     else if err = EMFILE
     then do {
       let s = acceptor_close (ac_idleFd s) s;
       let s = acceptor_opened again (s\<lparr>ac_idleFd := again\<rparr>);
       let s = acceptor_close (ac_idleFd s) s;
       Some (acceptor_opened idle (s\<lparr>ac_idleFd := idle\<rparr>))
     }
     else Some s
   }"

text \<open>The destructor, with those of the channel and the socket it contains.\<close>

definition Acceptor_destroy :: "int \<Rightarrow> acceptor \<Rightarrow> acceptor outcome" where
  "Acceptor_destroy tid s = do {
     s \<leftarrow> Channel_disableAll tid (ac_channel s) s;
     s \<leftarrow> Channel_remove tid (ac_channel s) s;
     let s = acceptor_close (ac_idleFd s) s;
     Channel_destroy tid (ac_channel s) s;
     Some (acceptor_close (ac_socket s) s)
   }"

subsection \<open>Descriptors\<close>

definition acceptor_fds :: "acceptor \<Rightarrow> int multiset" where
  "acceptor_fds s = {#ac_socket s#} + (if 0 \<le> ac_idleFd s then {#ac_idleFd s#} else {#})"

definition acceptor_balance :: "acceptor \<Rightarrow> bool" where
  "acceptor_balance s = (mset (ac_opened s) = mset (ac_closed s) + mset (ac_handed s) + acceptor_fds s)"

lemma acceptor_frame [simp]:
  "ac_socket (acceptor_close fd s) = ac_socket s" "ac_idleFd (acceptor_close fd s) = ac_idleFd s"
  "ac_handed (acceptor_close fd s) = ac_handed s" "ac_opened (acceptor_close fd s) = ac_opened s"
  "ac_hasCallback (acceptor_close fd s) = ac_hasCallback s"
  "ac_socket (acceptor_opened fd s) = ac_socket s" "ac_idleFd (acceptor_opened fd s) = ac_idleFd s"
  "ac_handed (acceptor_opened fd s) = ac_handed s" "ac_closed (acceptor_opened fd s) = ac_closed s"
  "ac_hasCallback (acceptor_opened fd s) = ac_hasCallback s"
  "r_loop (acceptor_close fd s) = r_loop s" "r_loop (acceptor_opened fd s) = r_loop s"
  by (simp_all add: acceptor_close_def acceptor_opened_def)

lemma acceptor_ledger [simp]:
  "mset (ac_closed (acceptor_close fd s)) = mset (ac_closed s) + (if 0 \<le> fd then {#fd#} else {#})"
  "mset (ac_opened (acceptor_opened fd s)) = mset (ac_opened s) + (if 0 \<le> fd then {#fd#} else {#})"
  by (simp_all add: acceptor_close_def acceptor_opened_def)

lemma handleRead_balance:
  assumes bal: "acceptor_balance s" and run: "Acceptor_handleRead res again idle tid s = Some s'"
  shows "acceptor_balance s' \<and> r_loop s' = r_loop s \<and> ac_hasCallback s' = ac_hasCallback s \<and> ac_socket s' = ac_socket s
    \<and> ac_handed s' = ac_handed s @ (case res of Accepted fd \<Rightarrow> if 0 \<le> fd \<and> ac_hasCallback s then [fd] else [] | _ \<Rightarrow> [])"
proof (cases res)
  case (Accepted connfd)
  then show ?thesis
    using run bal by (auto simp: Acceptor_handleRead_def sockets_accept_def EMFILE_def acceptor_balance_def acceptor_fds_def
        acceptor_opened_def acceptor_close_def Let_def split: bind_splits if_splits)
next
  case (Accept_error e)
  then show ?thesis
    using run bal
    by (cases "e = EMFILE") (auto simp: Acceptor_handleRead_def sockets_accept_def acceptor_balance_def acceptor_fds_def
        acceptor_opened_def acceptor_close_def Let_def split: bind_splits if_splits)
qed

type_synonym accept_event = "accept_result \<times> int \<times> int"

definition accept_event_ok :: "accept_event \<Rightarrow> bool" where
  "accept_event_ok e = (case e of (Accepted fd, _) \<Rightarrow> 0 \<le> fd | (Accept_error err, _) \<Rightarrow> err \<in> set accept_transient)"

definition acceptor_event :: "int \<Rightarrow> accept_event \<Rightarrow> acceptor \<Rightarrow> acceptor outcome" where
  "acceptor_event tid e s = (case e of (res, again, idle) \<Rightarrow> Acceptor_handleRead res again idle tid s)"

definition accepted_fds :: "accept_event list \<Rightarrow> int list" where
  "accepted_fds es = concat (map (\<lambda>(res, _). case res of Accepted fd \<Rightarrow> [fd] | _ \<Rightarrow> []) es)"

lemma handleRead_total:
  assumes "loop_threadId (r_loop s) = tid" "accept_event_ok e"
  shows "\<exists>s'. acceptor_event tid e s = Some s'"
  using assms
  by (auto simp: acceptor_event_def accept_event_ok_def Acceptor_handleRead_def sockets_accept_def Let_def
      EventLoop_assertInLoopThread_def EventLoop_isInLoopThread_def split: prod.splits accept_result.splits)

lemma acceptor_run:
  assumes "acceptor_balance s" "loop_threadId (r_loop s) = tid" "ac_hasCallback s" "list_all accept_event_ok es"
  shows "\<exists>s'. for_each (acceptor_event tid) es s = Some s' \<and> acceptor_balance s' \<and> ac_socket s' = ac_socket s
    \<and> ac_handed s' = ac_handed s @ accepted_fds es"
  using assms
proof (induction es arbitrary: s)
  case (Cons e es)
  obtain res again idle where e: "e = (res, again, idle)" by (cases e)
  obtain t where t: "acceptor_event tid e s = Some t" using handleRead_total[of s tid e] Cons.prems by auto
  note b = handleRead_balance[OF Cons.prems(1), of res again idle tid t]
  have ok: "accept_event_ok e" using Cons.prems by simp
  from t b e have t': "acceptor_balance t" "r_loop t = r_loop s" "ac_hasCallback t = ac_hasCallback s" "ac_socket t = ac_socket s"
    "ac_handed t = ac_handed s @ accepted_fds [e]"
    using ok Cons.prems(3) by (auto simp: acceptor_event_def accepted_fds_def accept_event_ok_def split: accept_result.splits)
  with Cons.IH[of t] Cons.prems t show ?case by (auto simp: accepted_fds_def)
qed (simp add: accepted_fds_def)

text \<open>C28: The acceptor keeps no descriptor it should not. A new acceptor with a callback that listens on a
  consistent loop handles every sequence of readiness events, each with a descriptor accepted or any of
  the transient errors of \<open>accept\<close> (running out of descriptors included, whatever the second \<open>accept\<close>
  and the reopening of \<open>/dev/null\<close> give): every descriptor accepted is handed over once and in order,
  and all others it ever opened are closed, except the listening socket and the idle descriptor.\<close>

theorem Acceptor_keeps_no_descriptor:
  assumes ok: "reactor_ok tid r" and c: "c \<notin> ran (Poller_channels (m_poller r))"
    and fd: "Poller_channels (m_poller r) sockfd = None" "0 \<le> sockfd" "0 \<le> idleFd"
    and es: "list_all accept_event_ok es"
  shows "\<exists>s0 s1 s. Acceptor_new sockfd idleFd True c r = Some s0
    \<and> Acceptor_listen True tid (Acceptor_setNewConnectionCallback s0) = Some s1
    \<and> wants (ch_events (r_chans s1 c)) = (True, False)
    \<and> for_each (acceptor_event tid) es s1 = Some s \<and> ac_handed s = accepted_fds es
    \<and> mset (ac_opened s) = mset (ac_closed s) + mset (accepted_fds es)
        + {#sockfd#} + (if 0 \<le> ac_idleFd s then {#ac_idleFd s#} else {#})"
proof -
  define ch where "ch = Channel_setReadCallback Ac_handleRead (Channel_new (r_loop r) sockfd)"
  define s0 where "s0 = reactor.extend (chan_upd c (\<lambda>_. ch) r)
        \<lparr>ac_socket = sockfd, ac_channel = c, ac_hasCallback = False, ac_idleFd = idleFd, ac_listening = False,
         ac_opened = [sockfd, idleFd], ac_closed = [], ac_handed = []\<rparr>"
  have new: "Acceptor_new sockfd idleFd True c r = Some s0"
    using fd by (simp add: Acceptor_new_def createNonblockingOrDie_def bindOrDie_def s0_def ch_def)
  have ch: "ch_loop ch = r_loop r" "ch_fd ch = sockfd" "ch_events ch = 0" "ch_index ch = -1"
    by (simp_all add: ch_def Channel_setReadCallback_def Channel_new_def)
  define t where "t = s0\<lparr>ac_hasCallback := True, ac_listening := True\<rparr>"
  have t: "r_chans t = (r_chans r)(c := ch)" "m_poller t = m_poller r" "r_loop t = r_loop r" "ac_channel t = c" "ac_hasCallback t"
    "ac_socket t = sockfd" "ac_idleFd t = idleFd" "ac_opened t = [sockfd, idleFd]" "ac_closed t = []" "ac_handed t = []"
    by (simp_all add: t_def s0_def reactor.extend_def chan_upd_def)
  note nw = chan_new_ok[OF ok c fd(1,2) ch]
  have parts: "reactor_ok tid t" "chan_of_loop c t" "chan_fresh c t"
    using nw reactor_view_cong[of t "chan_upd c (\<lambda>_. ch) r"] t by (simp_all add: chan_fresh_def)
  have ev: "events_enableReading (ch_events (r_chans t c)) = kReadEvent" using ch(3) t(1) by (simp add: events_enableReading_def)
  have nz: "kReadEvent \<noteq> 0" "interest_mask kReadEvent" by (simp_all add: event_masks interest_mask_def)
  from Channel_update_events[where f = events_enableReading, OF parts(1,2)] parts(3) obtain i chs p where
    u: "Channel_enableReading tid c t = Some (t\<lparr>r_chans := chs, m_poller := p\<rparr>)"
    "chs c = (r_chans t c)\<lparr>ch_events := kReadEvent, ch_index := i, is_addedToLoop := True\<rparr>"
    unfolding Channel_enableReading_def ev using nz by auto
  let ?s1 = "t\<lparr>r_chans := chs, m_poller := p\<rparr>"
  have th: "loop_threadId (r_loop r) = tid" using ok by (simp add: reactor_ok_def)
  have listen: "Acceptor_listen True tid (Acceptor_setNewConnectionCallback s0) = Some ?s1"
    using u(1) th t(3,4)
    by (simp add: Acceptor_listen_def Acceptor_setNewConnectionCallback_def t_def[symmetric] listenOrDie_def
        EventLoop_assertInLoopThread_def EventLoop_isInLoopThread_def) (simp add: t_def)
  have w: "wants (ch_events (r_chans ?s1 c)) = (True, False)" using u(2) by (simp add: wants_def has_event_def event_masks)
  have bal: "acceptor_balance ?s1" using t fd by (simp add: acceptor_balance_def acceptor_fds_def)
  from acceptor_run[OF bal _ _ es, of tid] obtain s where
    s: "for_each (acceptor_event tid) es ?s1 = Some s" "acceptor_balance s" "ac_socket s = sockfd" "ac_handed s = accepted_fds es"
    using t th by auto
  show ?thesis
    by (intro exI[of _ s0] exI[of _ ?s1] exI[of _ s]) (use new listen w s in \<open>auto simp: acceptor_balance_def acceptor_fds_def\<close>)
qed

theorem Acceptor_keeps_no_descriptor_witness:
  "\<exists>s0 s1 s. Acceptor_new 9 8 True 2 (the (EventLoop_new None True 5 6 0 Ac_wakeup (\<lambda>c. Channel_new \<lparr>loop_addr = 1, loop_threadId = 7\<rparr> (int c + 20))
     \<lparr>loop_addr = 1, loop_threadId = 7\<rparr>)) = Some s0
    \<and> Acceptor_listen True 7 (Acceptor_setNewConnectionCallback s0) = Some s1
    \<and> for_each (acceptor_event 7) [(Accepted 10, 0, 0), (Accept_error EMFILE, 11, 8), (Accepted 11, 0, 0)] s1 = Some s
    \<and> ac_handed s = [10, 11]"
proof -
  let ?r = "the (EventLoop_new None True 5 6 0 Ac_wakeup (\<lambda>c. Channel_new \<lparr>loop_addr = 1, loop_threadId = 7\<rparr> (int c + 20))
     \<lparr>loop_addr = 1, loop_threadId = 7\<rparr>)"
  have ok: "reactor_ok 7 ?r"
    using EventLoop_new_ok[of 5 6 True 0 Ac_wakeup "\<lambda>c. Channel_new \<lparr>loop_addr = 1, loop_threadId = 7\<rparr> (int c + 20)"
      "\<lparr>loop_addr = 1, loop_threadId = 7\<rparr>"] by auto
  have chans: "Poller_channels (m_poller ?r) = [6 \<mapsto> 0]"
    by (simp add: EventLoop_new_def Poller_newDefaultPoller_def PollPoller_new_def createEventfd_def
        Channel_setReadCallback_def Channel_new_def Channel_enableReading_def Channel_update_def chan_upd_def
        EventLoop_updateChannel_def EventLoop_assertInLoopThread_def EventLoop_isInLoopThread_def
        Poller_updateChannel_def PollPoller_updateChannel_def in_loop_thread_def Poller_channels_def Let_def)
  have es: "list_all accept_event_ok [(Accepted 10, 0, 0), (Accept_error EMFILE, 11, 8), (Accepted 11, 0, 0)]"
    by (simp add: accept_event_ok_def accept_transient_def)
  show ?thesis
    using Acceptor_keeps_no_descriptor[OF ok, of 2 9 8, OF _ _ _ _ es] chans by (auto simp: accepted_fds_def)
qed

text \<open>
  An acceptor that never listened cannot be destroyed under \<open>PollPoller\<close>: \<open>disableAll\<close> registers its
  channel with an entry that is not parked, and \<open>removeChannel\<close> asserts that it is.
\<close>

lemma Acceptor_destroy_unstarted:
  assumes p: "m_poller r = Is_poll p" "pp_channels p sockfd = None" and fd: "0 \<le> sockfd"
    and new: "Acceptor_new sockfd idleFd True c r = Some s"
  shows "Acceptor_destroy tid s = None"
proof -
  have s: "m_poller s = Is_poll p" "ac_channel s = c" "ch_fd (r_chans s c) = sockfd" "ch_index (r_chans s c) = -1"
    using new fd p(1) by (auto simp: Acceptor_new_def createNonblockingOrDie_def bindOrDie_def Channel_setReadCallback_def Channel_new_def
        reactor.extend_def chan_upd_def split: if_splits)
  have "Channel_remove tid (ac_channel s') s' = None" if "Channel_disableAll tid c s = Some s'" for s'
  proof -
    let ?pfd = "\<lparr>pfd_fd = sockfd, pfd_events = scast (kNoneEvent :: 32 word), pfd_revents = 0\<rparr>"
    from that s p(2) have s': "m_poller s' = Is_poll (p\<lparr>m_pollfds := m_pollfds p @ [?pfd], pp_channels := (pp_channels p)(sockfd \<mapsto> c)\<rparr>)"
      "ch_fd (r_chans s' c) = sockfd" "ch_index (r_chans s' c) = int (length (m_pollfds p))" "ac_channel s' = c"
      by (auto simp: Channel_disableAll_def Channel_update_def EventLoop_updateChannel_def chan_upd_def Poller_updateChannel_def
          PollPoller_updateChannel_def Channel_set_index_def Let_def split: bind_splits)
    show ?thesis
      using s' fd by (auto simp: Channel_remove_def EventLoop_removeChannel_def chan_upd_def Poller_removeChannel_def
          PollPoller_removeChannel_def Let_def split: bind_splits)
  qed
  then show ?thesis by (auto simp: Acceptor_destroy_def s(2) split: bind_splits)
qed

end
