(* ===== verification/WeakCallback.thy ===== *)
theory WeakCallback
  imports TcpConnectionProps InetAddress Acceptor
begin

text \<open>
  \<open>dc::WeakCallback\<close> (\<open>base/weakCallback.h\<close>), on a store of objects with their reference counts, its use
  in \<open>TcpConnection::forceCloseWithDelay\<close>, and the calls of a connection that go straight to its socket.
\<close>

subsection \<open>Shared and weak pointers\<close>

text \<open>Objects by address, the number of shared pointers to each, and the objects destroyed, in order.\<close>

record 'a shared_store =
  sp_object :: "nat \<Rightarrow> 'a"
  sp_count :: "nat \<Rightarrow> nat"
  sp_dead :: "nat list"

definition shared_release :: "nat \<Rightarrow> 'a shared_store \<Rightarrow> 'a shared_store" where
  "shared_release p st = st\<lparr>sp_count := (sp_count st)(p := sp_count st p - 1),
     sp_dead := sp_dead st @ (if sp_count st p = 1 then [p] else [])\<rparr>"

definition weak_lock :: "nat \<Rightarrow> 'a shared_store \<Rightarrow> 'a shared_store option" where
  "weak_lock p st = (if sp_count st p = 0 then None else Some (st\<lparr>sp_count := (sp_count st)(p := sp_count st p + 1)\<rparr>))"

record ('a, 'b) weak_callback =
  wc_object :: nat
  wc_function :: "nat \<Rightarrow> 'b \<Rightarrow> 'a shared_store \<Rightarrow> 'a shared_store outcome"

definition makeWeakCallback :: "nat \<Rightarrow> (nat \<Rightarrow> 'b \<Rightarrow> 'a shared_store \<Rightarrow> 'a shared_store outcome) \<Rightarrow> ('a, 'b) weak_callback" where
  "makeWeakCallback object function = \<lparr>wc_object = object, wc_function = function\<rparr>"

definition WeakCallback_call :: "('a, 'b) weak_callback \<Rightarrow> 'b \<Rightarrow> 'a shared_store \<Rightarrow> 'a shared_store outcome" where
  "WeakCallback_call wc args st = (case weak_lock (wc_object wc) st of
     Some st1 \<Rightarrow> do { st2 \<leftarrow> wc_function wc (wc_object wc) args st1; Some (shared_release (wc_object wc) st2) }
   | None \<Rightarrow> Some st)"

text \<open>The callback of an object that is gone does nothing; it never touches a destroyed object.\<close>

lemma WeakCallback_expired: "sp_count st p = 0 \<Longrightarrow> WeakCallback_call (makeWeakCallback p f) args st = Some st"
  by (simp add: WeakCallback_call_def makeWeakCallback_def weak_lock_def)

lemma shared_release_iter:
  "n < sp_count st p \<Longrightarrow> sp_dead ((shared_release p ^^ n) st) = sp_dead st \<and> sp_count ((shared_release p ^^ n) st) p = sp_count st p - n"
  by (induction n) (auto simp: shared_release_def)

text \<open>
  The object outlives its owners until the call returns: when the function itself drops every other
  reference, the object is destroyed once, after the function.
\<close>

lemma WeakCallback_outlives_owners:
  assumes n: "sp_count st p = n" "0 < n" and f: "\<And>st1. f p args st1 = Some ((shared_release p ^^ n) st1)"
  shows "\<exists>st1 st2. weak_lock p st = Some st1 \<and> f p args st1 = Some st2 \<and> sp_dead st2 = sp_dead st
    \<and> WeakCallback_call (makeWeakCallback p f) args st = Some (shared_release p st2) \<and> sp_dead (shared_release p st2) = sp_dead st @ [p]"
proof -
  define st1 where "st1 = st\<lparr>sp_count := (sp_count st)(p := n + 1)\<rparr>"
  define st2 where "st2 = (shared_release p ^^ n) st1"
  have it: "sp_dead st2 = sp_dead st" "sp_count st2 p = 1"
    using shared_release_iter[of n st1 p] by (simp_all add: st1_def st2_def)
  have lock: "weak_lock p st = Some st1" using n by (simp add: weak_lock_def st1_def)
  have run: "f p args st1 = Some st2" by (simp add: f st2_def)
  have call: "WeakCallback_call (makeWeakCallback p f) args st = Some (shared_release p st2)"
    by (simp add: WeakCallback_call_def makeWeakCallback_def lock run)
  have dead: "sp_dead (shared_release p st2) = sp_dead st @ [p]" by (simp add: shared_release_def it)
  show ?thesis using lock run it(1) call dead by blast
qed

subsection \<open>The delayed close of a connection\<close>

text \<open>What the timer of \<open>forceCloseWithDelay\<close> runs on the loop thread \<open>tid\<close>.\<close>

definition delayed_close :: "int \<Rightarrow> nat \<Rightarrow> (conn, unit) weak_callback" where
  "delayed_close tid p = makeWeakCallback p (\<lambda>p _ st. Some (st\<lparr>sp_object := (sp_object st)(p := TcpConnection_forceClose tid (sp_object st p))\<rparr>))"

lemma delayed_close_fires:
  "WeakCallback_call (delayed_close tid p) () st
    = Some (if sp_count st p = 0 then st else st\<lparr>sp_object := (sp_object st)(p := TcpConnection_forceClose tid (sp_object st p))\<rparr>)"
  by (cases st) (auto simp: WeakCallback_call_def delayed_close_def makeWeakCallback_def weak_lock_def shared_release_def)

text \<open>
  A connection asked to close with a delay keeps its channel and its output until the timer fires; if it
  is still referenced and not closed then, the close is queued, and running it closes the connection.
\<close>

lemma TcpConnection_delayed_close:
  assumes st: "cn_state c = kConnected \<or> cn_state c = kDisconnecting" and alive: "sp_count sto p \<noteq> 0"
    and obj: "sp_object sto p = TcpConnection_forceCloseWithDelay d c"
  shows "conn_stream (sp_object sto p) = conn_stream c \<and> r_chans (sp_object sto p) = r_chans c
    \<and> (\<exists>sto'. WeakCallback_call (delayed_close tid p) () sto = Some sto' \<and> cn_state (sp_object sto' p) = kDisconnecting
        \<and> m_pendingFunctors (sp_object sto' p) = m_pendingFunctors c @ [Cb_forceCloseInLoop])"
  using assms unfolding delayed_close_fires
  by (auto simp: TcpConnection_forceCloseWithDelay_def TcpConnection_forceClose_def TcpConnection_setState_def conn_stream_def
      EventLoop_queueInLoop_def EventLoop_wakeup_def queue_push_def Let_def)

subsection \<open>Calls on the socket\<close>

definition TcpConnection_getTcpInfo :: "tcp_info option \<Rightarrow> bool" where
  "TcpConnection_getTcpInfo r = Socket_getTcpInfo r"

definition TcpConnection_getTcpInfoString :: "tcp_info option \<Rightarrow> string" where
  "TcpConnection_getTcpInfoString r = fst (Socket_getTcpInfoString r [] 1024)"

definition TcpConnection_setTcpNoDelay :: "bool \<Rightarrow> socket \<Rightarrow> socket" where
  "TcpConnection_setTcpNoDelay on s = Socket_setTcpNoDelay on s"

text \<open>Without an answer of the kernel the text is empty: the buffer was terminated before the call.\<close>

lemma TcpConnection_getTcpInfoString_failed:
  "\<not> TcpConnection_getTcpInfo r \<Longrightarrow> TcpConnection_getTcpInfoString r = []"
  by (cases r) (simp_all add: TcpConnection_getTcpInfo_def Socket_getTcpInfo_def TcpConnection_getTcpInfoString_def Socket_getTcpInfoString_def)

text \<open>\<open>bindAddress\<close> and \<open>listen\<close> end the process when the system call fails, \<open>shutdownWrite\<close> logs the error.\<close>

definition Socket_bindAddress :: "bool \<Rightarrow> unit outcome" where
  "Socket_bindAddress ok = bindOrDie ok"

definition Socket_listen :: "bool \<Rightarrow> unit outcome" where
  "Socket_listen ok = listenOrDie ok"

definition Socket_shutdownWrite :: "int \<Rightarrow> bool" where
  "Socket_shutdownWrite ret = sockets_shutdownWrite ret"

text \<open>The line that \<open>defaultConnectionCallback\<close> traces.\<close>

definition defaultConnectionCallback :: "inet6_text \<Rightarrow> sockaddr \<Rightarrow> sockaddr \<Rightarrow> conn \<Rightarrow> string outcome" where
  "defaultConnectionCallback t6 localAddr peerAddr s = do {
     l \<leftarrow> InetAddress_toIpPort t6 localAddr;
     p \<leftarrow> InetAddress_toIpPort t6 peerAddr;
     Some (l @ '' -> '' @ p @ '' is '' @ (if TcpConnection_connected s then ''UP'' else ''DOWN''))
   }"

end
