(* ===== verification/ProcessInfo.thy ===== *)
theory ProcessInfo
  imports LogFile Threads
begin

text \<open>
  \<open>dc::ProcessInfo\<close> (\<open>base/processInfo.h\<close>, \<open>base/processInfo.cc\<close>): facts about the running process, read
  from the system calls and from the files and directories below \<open>/proc\<close>. The answers of the system are
  arguments; \<open>fs\<close> gives for each path what opening and reading it does, \<open>dir\<close> the names in a directory.
\<close>

subsection \<open>The C library\<close>

definition c_isdigit :: "char \<Rightarrow> bool" where
  "c_isdigit c \<longleftrightarrow> c \<in> set ''0123456789''"

definition c_isspace :: "char \<Rightarrow> bool" where
  "c_isspace c \<longleftrightarrow> c = CHR '' '' \<or> (9 \<le> (of_char c :: nat) \<and> (of_char c :: nat) \<le> 13)"

text \<open>\<open>atoi\<close> of a text whose number fits into an \<open>int\<close>.\<close>

definition c_atoi :: "string \<Rightarrow> int" where
  "c_atoi s = (let t = dropWhile c_isspace s in case t of
     [] \<Rightarrow> 0
   | c # u \<Rightarrow> if c = CHR ''-'' then - int (dec_value (takeWhile c_isdigit u) 0)
       else if c = CHR ''+'' then int (dec_value (takeWhile c_isdigit u) 0)
       else int (dec_value (takeWhile c_isdigit t) 0))"

lemma c_isdigit_digit_char: "d < 10 \<Longrightarrow> c_isdigit (digit_char d) \<and> \<not> c_isspace (digit_char d)"
proof -
  assume "d < 10"
  then have "d \<in> {0, 1, 2, 3, 4, 5, 6, 7, 8, 9}" by auto
  then show ?thesis by (elim insertE emptyE) (simp_all add: c_isdigit_def c_isspace_def digit_char_def char_of_def bit_0)
qed

lemma dec_nat_c_digit: "c \<in> set (dec_nat n) \<Longrightarrow> c_isdigit c \<and> \<not> c_isspace c"
  using dec_nat_digits[of c n] c_isdigit_digit_char by auto

lemma c_atoi_dec_nat:
  assumes "\<forall>c \<in> set w. c_isspace c" and "s = [] \<or> \<not> c_isdigit (hd s)"
  shows "c_atoi (w @ dec_nat n @ s) = int n"
proof -
  obtain c cs where d: "dec_nat n = c # cs" by (cases "dec_nat n") simp_all
  then have c: "c_isdigit c" "\<not> c_isspace c" using dec_nat_c_digit[of c n] by simp_all
  have "dropWhile c_isspace (w @ dec_nat n @ s) = dropWhile c_isspace (dec_nat n @ s)"
    using assms(1) by (intro dropWhile_append2) blast
  then have drop: "dropWhile c_isspace (w @ dec_nat n @ s) = c # cs @ s" using c(2) by (simp add: d)
  have "takeWhile c_isdigit s = []" using assms(2) by (cases s) simp_all
  moreover have "takeWhile c_isdigit (dec_nat n @ s) = dec_nat n @ takeWhile c_isdigit s"
    using dec_nat_c_digit by (intro takeWhile_append2) blast
  ultimately have take: "takeWhile c_isdigit (c # cs @ s) = dec_nat n" by (simp add: d)
  have "c \<noteq> CHR ''-''" "c \<noteq> CHR ''+''" using c by (auto simp: c_isdigit_def)
  then show ?thesis unfolding c_atoi_def drop Let_def list.case take by (simp only: if_False dec_value_dec_nat)
qed

subsection \<open>Directories\<close>

text \<open>The filters of \<open>scandir\<close> return 0, so that nothing is collected, and work on a thread-local variable.\<close>

definition fdDirFilter :: "string \<Rightarrow> nat \<Rightarrow> nat" where
  "fdDirFilter d_name t_numOpenedFiles = (if d_name \<noteq> [] \<and> c_isdigit (hd d_name) then t_numOpenedFiles + 1 else t_numOpenedFiles)"

definition taskDirFilter :: "string \<Rightarrow> int list \<Rightarrow> int list" where
  "taskDirFilter d_name t_pids = (if d_name \<noteq> [] \<and> c_isdigit (hd d_name) then t_pids @ [c_atoi d_name] else t_pids)"

definition scanDir :: "(string \<Rightarrow> string list option) \<Rightarrow> string \<Rightarrow> (string \<Rightarrow> 'v \<Rightarrow> 'v) \<Rightarrow> 'v \<Rightarrow> int \<times> 'v" where
  "scanDir dir dirpath flt v = (case dir dirpath of None \<Rightarrow> (-1, v) | Some names \<Rightarrow> (0, fold flt names v))"

subsection \<open>Facts about the process\<close>

definition ProcessInfo_pidString :: "int \<Rightarrow> string" where
  "ProcessInfo_pidString pid = snprintf_buf 32 (dec_int pid)"

definition ProcessInfo_username :: "string option \<Rightarrow> string" where
  "ProcessInfo_username pw_name = (case pw_name of Some name \<Rightarrow> name | None \<Rightarrow> ''unknownuser'')"

definition ProcessInfo_hostname :: "string option \<Rightarrow> string" where
  "ProcessInfo_hostname r = (case r of Some name \<Rightarrow> take 255 name | None \<Rightarrow> ''unknownhost'')"

text \<open>The name between the parentheses of \<open>/proc/self/stat\<close>, as the code cuts it out of the text.\<close>

definition ProcessInfo_procname_of :: "string \<Rightarrow> string_piece" where
  "ProcessInfo_procname_of stat =
     (let name = StringPiece_of_range None 0; lp = std_find (CHR ''('') stat; rp = std_find (CHR '')'') stat in
      if lp < length stat \<and> rp < length stat \<and> lp < rp
      then StringPiece_set_range (Some (drop (lp + 1) (stat @ [NUL]))) (int (rp - lp + 1)) name else name)"

text \<open>Opening a file: descriptor or \<open>errno\<close>, what \<open>fstat\<close> says and the results of \<open>read\<close>.\<close>

record proc_file =
  pf_fd :: int
  pf_errno :: int
  pf_stat :: "int + stat_buf"
  pf_reads :: "read_outcome list"

definition read_whole :: "(string \<Rightarrow> proc_file) \<Rightarrow> string \<Rightarrow> string outcome" where
  "read_whole fs path = (let p = fs path in
     map_option (\<lambda>(err, content, info). content)
       (readFile (pf_fd p) (pf_errno p) (pf_stat p) (pf_reads p) 65536 [] \<lparr>fi_size = None, fi_modifyTime = None, fi_createTime = None\<rparr>))"

definition ProcessInfo_procStatus :: "(string \<Rightarrow> proc_file) \<Rightarrow> string outcome" where
  "ProcessInfo_procStatus fs = read_whole fs ''/proc/self/status''"

definition ProcessInfo_procStat :: "(string \<Rightarrow> proc_file) \<Rightarrow> string outcome" where
  "ProcessInfo_procStat fs = read_whole fs ''/proc/self/stat''"

definition ProcessInfo_procname :: "(string \<Rightarrow> proc_file) \<Rightarrow> string outcome" where
  "ProcessInfo_procname fs = do { stat \<leftarrow> ProcessInfo_procStat fs; StringPiece_as_string (ProcessInfo_procname_of stat) }"

definition ProcessInfo_threadStat :: "(string \<Rightarrow> proc_file) \<Rightarrow> int \<Rightarrow> thread_locals \<Rightarrow> (string \<times> thread_locals) outcome" where
  "ProcessInfo_threadStat fs gettid t = (let (tid, t) = CurrentThread_tid gettid t in
     map_option (\<lambda>s. (s, t)) (read_whole fs (snprintf_buf 64 (''proc/self/task/'' @ dec_int tid @ ''/stat''))))"

text \<open>\<open>readlink\<close> returns a text or fails; at most 1024 characters of it.\<close>

definition ProcessInfo_exePath :: "string option \<Rightarrow> string" where
  "ProcessInfo_exePath r = (case r of Some path \<Rightarrow> take 1024 path | None \<Rightarrow> [])"

definition ProcessInfo_openedFiles :: "(string \<Rightarrow> string list option) \<Rightarrow> nat" where
  "ProcessInfo_openedFiles dir = snd (scanDir dir ''/proc/self/fd'' fdDirFilter 0)"

definition ProcessInfo_maxOpenFiles :: "(string \<Rightarrow> string list option) \<Rightarrow> nat option \<Rightarrow> int" where
  "ProcessInfo_maxOpenFiles dir rlim_cur = (case rlim_cur of
     None \<Rightarrow> int (ProcessInfo_openedFiles dir) | Some n \<Rightarrow> signed_take_bit 31 (int n))"

text \<open>Clock ticks as rational seconds; \<open>times\<close> may fail.\<close>

record cpu_time =
  userSeconds :: rat
  systemSeconds :: rat

definition CpuTime_new :: cpu_time where
  "CpuTime_new = \<lparr>userSeconds = 0, systemSeconds = 0\<rparr>"

definition CpuTime_total :: "cpu_time \<Rightarrow> rat" where
  "CpuTime_total t = userSeconds t + systemSeconds t"

definition ProcessInfo_cpuTime :: "int \<Rightarrow> (int \<times> int) option \<Rightarrow> cpu_time" where
  "ProcessInfo_cpuTime clockTicks tms = (case tms of
     Some (utime, stime) \<Rightarrow> \<lparr>userSeconds = of_int utime / of_int clockTicks, systemSeconds = of_int stime / of_int clockTicks\<rparr>
   | None \<Rightarrow> CpuTime_new)"

definition ProcessInfo_numThreads :: "(string \<Rightarrow> proc_file) \<Rightarrow> int outcome" where
  "ProcessInfo_numThreads fs = do {
     status \<leftarrow> ProcessInfo_procStatus fs;
     let pos = std_search ''Threads:'' status;
     Some (if pos < length status then c_atoi (drop (pos + 8) status) else 0)
   }"

definition ProcessInfo_threads :: "(string \<Rightarrow> string list option) \<Rightarrow> int list" where
  "ProcessInfo_threads dir = sort (snd (scanDir dir ''/proc/self/tack'' taskDirFilter []))"

subsection \<open>Correctness\<close>

text \<open>A readable file of at most 64 KiB that is read in one piece.\<close>

definition proc_text :: "(string \<Rightarrow> proc_file) \<Rightarrow> string \<Rightarrow> string \<Rightarrow> bool" where
  "proc_text fs path s \<longleftrightarrow> pf_fd (fs path) \<ge> 0 \<and> pf_reads (fs path) = [Got s, Got []] \<and> s \<noteq> [] \<and> length s < 65536"

lemma read_whole_text: "proc_text fs path s \<Longrightarrow> read_whole fs path = Some s"
  by (simp add: proc_text_def read_whole_def readFile_def ReadSmallFile_readToString_def ReadSmallFile_new_def read_loop.simps
      kBufferSize_def Let_def)

text \<open>The descriptors are the names that begin with a digit.\<close>

lemma openedFiles_counts:
  assumes "dir ''/proc/self/fd'' = Some names"
  shows "ProcessInfo_openedFiles dir = length (filter (\<lambda>n. n \<noteq> [] \<and> c_isdigit (hd n)) names)"
proof -
  have "fold fdDirFilter names k = k + length (filter (\<lambda>n. n \<noteq> [] \<and> c_isdigit (hd n)) names)" for k
    by (induction names arbitrary: k) (auto simp: fdDirFilter_def)
  then show ?thesis using assms by (simp add: ProcessInfo_openedFiles_def scanDir_def)
qed

text \<open>The number after \<open>Threads:\<close> in the status file.\<close>

theorem ProcessInfo_numThreads_correct:
  assumes "proc_text fs ''/proc/self/status'' (before @ ''Threads:'' @ [CHR 0x09] @ dec_nat n @ CHR 0x0A # after)"
    and "std_search ''Threads:'' (before @ ''Threads:'' @ [CHR 0x09] @ dec_nat n @ CHR 0x0A # after) = length before"
  shows "ProcessInfo_numThreads fs = Some (int n)"
proof -
  let ?s = "before @ ''Threads:'' @ [CHR 0x09] @ dec_nat n @ CHR 0x0A # after"
  have "drop (length before + 8) ?s = [CHR 0x09] @ dec_nat n @ CHR 0x0A # after" by simp
  moreover have "c_atoi ([CHR 0x09] @ dec_nat n @ CHR 0x0A # after) = int n"
    by (rule c_atoi_dec_nat) (simp_all add: c_isspace_def c_isdigit_def)
  ultimately show ?thesis using read_whole_text[OF assms(1)] assms(2)
    by (simp add: ProcessInfo_numThreads_def ProcessInfo_procStatus_def)
qed

text \<open>
  The name is cut two characters too long: it ends with the closing parenthesis and what follows.
\<close>

theorem ProcessInfo_procname_too_long:
  assumes "CHR ''('' \<notin> set before" "CHR '')'' \<notin> set before" "CHR '')'' \<notin> set name"
    and "proc_text fs ''/proc/self/stat'' (before @ CHR ''('' # name @ CHR '')'' # c # after)"
  shows "ProcessInfo_procname fs = Some (name @ [CHR '')'', c])"
proof -
  let ?s = "before @ CHR ''('' # name @ CHR '')'' # c # after"
  have lp: "std_find (CHR ''('') ?s = length before" using assms(1) by (simp add: std_find_append_notin)
  have rp: "std_find (CHR '')'') ?s = length before + 1 + length name"
    using assms(2,3) std_find_append_notin[of "CHR '')''" "before @ CHR ''('' # name" "c # after"] by simp
  have "c_range (Some (drop (length before + 1) (?s @ [NUL]))) (length name + 2) = Some (name @ [CHR '')'', c])"
    by (simp add: c_range_def)
  moreover have "nat (2 + int (length name)) = Suc (Suc (length name))" by simp
  ultimately show ?thesis using read_whole_text[OF assms(4)]
    by (simp add: ProcessInfo_procname_def ProcessInfo_procStat_def ProcessInfo_procname_of_def lp rp StringPiece_set_range_def
        StringPiece_as_string_def StringPiece_of_range_def Let_def)
qed

text \<open>Without a directory \<open>/proc/self/tack\<close>, which no system has, no thread is found.\<close>

lemma ProcessInfo_threads_none: "dir ''/proc/self/tack'' = None \<Longrightarrow> ProcessInfo_threads dir = []"
  by (simp add: ProcessInfo_threads_def scanDir_def)

end
