(* ===== verification/Singletons.thy ===== *)
theory Singletons
  imports Prelude
begin

text \<open>
  Objects made on first use: \<open>dc::ThreadLocal\<close> (\<open>base/threadLocal.h\<close>), \<open>dc::ThreadLocalSingleton\<close>
  (\<open>base/threadLocalSingleton.h\<close>) and \<open>dc::detail::Singleton\<close> (\<open>base/singleton.h\<close>). Objects are numbered as they are
  allocated and \<open>live\<close> until deleted; deleting one that is not live is undefined. When a thread ends, a value
  it has under a key of POSIX is set to null and given to the destructor of the key.
\<close>

subsection \<open>The contract of a value per thread\<close>

text \<open>
  \<open>get\<close> is the access by a thread, \<open>leave\<close> the end of one, \<open>obj\<close> the object of each thread.
\<close>

datatype thread_event = Access nat | Thread_ends nat

locale per_thread =
  fixes get :: "nat \<Rightarrow> 's \<Rightarrow> (nat \<times> 's) outcome" and leave :: "nat \<Rightarrow> 's \<Rightarrow> 's outcome"
    and obj :: "'s \<Rightarrow> nat \<Rightarrow> nat option" and live :: "'s \<Rightarrow> nat set" and ok :: "'s \<Rightarrow> bool"
  assumes get_old: "ok s \<Longrightarrow> obj s t = Some p \<Longrightarrow> get t s = Some (p, s)"
    and get_new: "ok s \<Longrightarrow> obj s t = None \<Longrightarrow> \<exists>p s'. get t s = Some (p, s') \<and> ok s' \<and> p \<notin> live s
      \<and> obj s' = (obj s)(t \<mapsto> p) \<and> live s' = insert p (live s)"
    and leave_law: "ok s \<Longrightarrow> \<exists>s'. leave t s = Some s' \<and> ok s' \<and> obj s' = (obj s)(t := None) \<and> live s' = live s - set_option (obj s t)"
    and owned: "ok s \<Longrightarrow> live s = ran (obj s)"
    and unshared: "ok s \<Longrightarrow> obj s t = Some p \<Longrightarrow> obj s u = Some p \<Longrightarrow> t = u"
begin

text \<open>A run of accesses and thread ends; the result lists what each access returned.\<close>

fun run :: "thread_event list \<Rightarrow> 's \<Rightarrow> ((nat \<times> nat) list \<times> 's) outcome" where
  "run [] s = Some ([], s)"
| "run (Access t # es) s = do { (p, s) \<leftarrow> get t s; (as, s) \<leftarrow> run es s; Some ((t, p) # as, s) }"
| "run (Thread_ends t # es) s = do { s \<leftarrow> leave t s; run es s }"

lemma run_total:
  assumes "ok s"
  shows "\<exists>as s'. run es s = Some (as, s') \<and> ok s' \<and> map fst as = concat (map (\<lambda>e. case e of Access t \<Rightarrow> [t] | _ \<Rightarrow> []) es)"
  using assms
proof (induction es arbitrary: s)
  case Nil
  then show ?case by simp
next
  case (Cons e es)
  show ?case
  proof (cases e)
    case (Access t)
    obtain p s1 where get: "get t s = Some (p, s1)" "ok s1" using get_old[OF Cons.prems, of t] get_new[OF Cons.prems, of t] Cons.prems
      by (cases "obj s t") auto
    then show ?thesis using Cons.IH[of s1] by (auto simp: Access)
  next
    case (Thread_ends t)
    then show ?thesis using leave_law[OF Cons.prems, of t] Cons.IH by fastforce
  qed
qed

text \<open>As long as a thread does not end, all its accesses give one object, which stays alive.\<close>

lemma run_keeps:
  assumes "ok s" "obj s t = Some p" "Thread_ends t \<notin> set es" "run es s = Some (as, s')"
  shows "obj s' t = Some p \<and> (\<forall>q. (t, q) \<in> set as \<longrightarrow> q = p)"
  using assms
proof (induction es arbitrary: s as)
  case Nil
  then show ?case by simp
next
  case (Cons e es)
  show ?case
  proof (cases e)
    case (Access u)
    from Cons.prems(4) obtain q s1 as1 where get: "get u s = Some (q, s1)" and rest: "run es s1 = Some (as1, s')" and as: "as = (u, q) # as1"
      by (auto simp: Access bind_eq_Some_conv)
    have "ok s1 \<and> obj s1 t = Some p \<and> (u = t \<longrightarrow> q = p)"
    proof (cases "obj s u")
      case None
      then show ?thesis using get_new[OF Cons.prems(1) None] get Cons.prems(2) by auto
    next
      case (Some x)
      then show ?thesis using get_old[OF Cons.prems(1) Some] get Cons.prems(1,2) by auto
    qed
    then show ?thesis using Cons.IH[of s1 as1] Cons.prems(3) rest as by auto
  next
    case (Thread_ends u)
    then have "u \<noteq> t" using Cons.prems(3) by auto
    then show ?thesis using leave_law[OF Cons.prems(1), of u] Cons.IH Cons.prems by (auto simp: Thread_ends)
  qed
qed

text \<open>Threads never share an object, and what no thread has is deleted.\<close>

lemma run_separates:
  assumes "ok s" "run es s = Some (as, s')"
  shows "ok s' \<and> live s' = ran (obj s') \<and> (\<forall>t u p. obj s' t = Some p \<and> obj s' u = Some p \<longrightarrow> t = u)"
  using run_total[OF assms(1), of es] assms(2) owned[of s'] unshared[of s'] by auto

end

text \<open>The shape of a state that keeps the contract: \<open>n\<close> is the next object.\<close>

definition own_ok :: "(nat \<Rightarrow> nat option) \<Rightarrow> nat set \<Rightarrow> nat \<Rightarrow> bool" where
  "own_ok obj live n \<longleftrightarrow> live = ran obj \<and> (\<forall>p \<in> live. p < n) \<and> (\<forall>t u p. obj t = Some p \<and> obj u = Some p \<longrightarrow> t = u)"

lemma own_ok_add:
  assumes "own_ok obj live n" "obj t = None"
  shows "n \<notin> live" "own_ok (obj(t \<mapsto> n)) (insert n live) (Suc n)"
proof -
  show fresh: "n \<notin> live" using assms(1) by (auto simp: own_ok_def)
  then have "\<forall>u. obj u \<noteq> Some n" using assms(1) by (auto simp: own_ok_def ran_def)
  then show "own_ok (obj(t \<mapsto> n)) (insert n live) (Suc n)"
    using assms by (auto simp: own_ok_def less_Suc_eq)
qed

lemma own_ok_drop:
  assumes "own_ok obj live n"
  shows "own_ok (obj(t := None)) (live - set_option (obj t)) n"
proof -
  have "ran (obj(t := None)) = ran obj - set_option (obj t)"
    using assms by (auto simp: own_ok_def ran_def)
  then show ?thesis using assms by (auto simp: own_ok_def)
qed

lemma own_ok_live: "own_ok obj live n \<Longrightarrow> obj t = Some p \<Longrightarrow> p \<in> live"
  by (auto simp: own_ok_def ran_def)

subsection \<open>\<open>ThreadLocal\<close>\<close>

record thread_local =
  tl_key :: "nat \<Rightarrow> nat option"
  tl_next :: nat
  tl_live :: "nat set"

definition ThreadLocal_new :: thread_local where
  "ThreadLocal_new = \<lparr>tl_key = \<lambda>_. None, tl_next = 0, tl_live = {}\<rparr>"

definition ThreadLocal_value :: "nat \<Rightarrow> thread_local \<Rightarrow> (nat \<times> thread_local) outcome" where
  "ThreadLocal_value t s = (case tl_key s t of
     Some perThreadValue \<Rightarrow> Some (perThreadValue, s)
   | None \<Rightarrow> (let newobj = tl_next s in
       Some (newobj, s\<lparr>tl_next := newobj + 1, tl_live := insert newobj (tl_live s), tl_key := (tl_key s)(t \<mapsto> newobj)\<rparr>)))"

definition ThreadLocal_destructor :: "nat \<Rightarrow> thread_local \<Rightarrow> thread_local outcome" where
  "ThreadLocal_destructor x s = do { assert_that (x \<in> tl_live s); Some (s\<lparr>tl_live := tl_live s - {x}\<rparr>) }"

definition thread_local_leave :: "nat \<Rightarrow> thread_local \<Rightarrow> thread_local outcome" where
  "thread_local_leave t s = (case tl_key s t of
     None \<Rightarrow> Some s | Some x \<Rightarrow> ThreadLocal_destructor x (s\<lparr>tl_key := (tl_key s)(t := None)\<rparr>))"

definition thread_local_ok :: "thread_local \<Rightarrow> bool" where
  "thread_local_ok s \<longleftrightarrow> own_ok (tl_key s) (tl_live s) (tl_next s)"

interpretation tl: per_thread ThreadLocal_value thread_local_leave tl_key tl_live thread_local_ok
proof
  fix s t assume ok: "thread_local_ok s"
  note own = ok[unfolded thread_local_ok_def]
  show "\<exists>p s'. ThreadLocal_value t s = Some (p, s') \<and> thread_local_ok s' \<and> p \<notin> tl_live s \<and> tl_key s' = (tl_key s)(t \<mapsto> p)
      \<and> tl_live s' = insert p (tl_live s)" if "tl_key s t = None"
    using own_ok_add[OF own that] that by (simp add: ThreadLocal_value_def thread_local_ok_def Let_def)
  show "\<exists>s'. thread_local_leave t s = Some s' \<and> thread_local_ok s' \<and> tl_key s' = (tl_key s)(t := None)
      \<and> tl_live s' = tl_live s - set_option (tl_key s t)"
    using own own_ok_drop[OF own, of t] own_ok_live[OF own, of t]
    by (cases "tl_key s t") (auto simp: thread_local_leave_def ThreadLocal_destructor_def thread_local_ok_def)
qed (auto simp: ThreadLocal_value_def thread_local_ok_def own_ok_def)

subsection \<open>\<open>ThreadLocalSingleton\<close>\<close>

text \<open>The object is stored in \<open>t_value\<close> and, for its deletion, under the key of \<open>t_deletor\<close>.\<close>

record thread_local_singleton =
  tsg_value :: "nat \<Rightarrow> nat option"
  tsg_key :: "nat \<Rightarrow> nat option"
  tsg_next :: nat
  tsg_live :: "nat set"

definition ThreadLocalSingleton_init :: thread_local_singleton where
  "ThreadLocalSingleton_init = \<lparr>tsg_value = \<lambda>_. None, tsg_key = \<lambda>_. None, tsg_next = 0, tsg_live = {}\<rparr>"

definition Deletor_set :: "nat \<Rightarrow> nat \<Rightarrow> thread_local_singleton \<Rightarrow> thread_local_singleton outcome" where
  "Deletor_set t newObj s = do { assert_that (tsg_key s t = None); Some (s\<lparr>tsg_key := (tsg_key s)(t \<mapsto> newObj)\<rparr>) }"

definition ThreadLocalSingleton_instance :: "nat \<Rightarrow> thread_local_singleton \<Rightarrow> (nat \<times> thread_local_singleton) outcome" where
  "ThreadLocalSingleton_instance t s = (case tsg_value s t of
     Some p \<Rightarrow> Some (p, s)
   | None \<Rightarrow> do {
       let p = tsg_next s;
       s \<leftarrow> Deletor_set t p (s\<lparr>tsg_next := p + 1, tsg_live := insert p (tsg_live s), tsg_value := (tsg_value s)(t \<mapsto> p)\<rparr>);
       Some (p, s)
     })"

definition ThreadLocalSingleton_pointer :: "nat \<Rightarrow> thread_local_singleton \<Rightarrow> nat option" where
  "ThreadLocalSingleton_pointer t s = tsg_value s t"

definition ThreadLocalSingleton_destructor :: "nat \<Rightarrow> nat \<Rightarrow> thread_local_singleton \<Rightarrow> thread_local_singleton outcome" where
  "ThreadLocalSingleton_destructor t p s = do {
     assert_that (tsg_value s t = Some p);
     assert_that (p \<in> tsg_live s);
     Some (s\<lparr>tsg_live := tsg_live s - {p}, tsg_value := (tsg_value s)(t := None)\<rparr>)
   }"

definition thread_local_singleton_leave :: "nat \<Rightarrow> thread_local_singleton \<Rightarrow> thread_local_singleton outcome" where
  "thread_local_singleton_leave t s = (case tsg_key s t of
     None \<Rightarrow> Some s | Some p \<Rightarrow> ThreadLocalSingleton_destructor t p (s\<lparr>tsg_key := (tsg_key s)(t := None)\<rparr>))"

definition thread_local_singleton_ok :: "thread_local_singleton \<Rightarrow> bool" where
  "thread_local_singleton_ok s \<longleftrightarrow> own_ok (tsg_value s) (tsg_live s) (tsg_next s) \<and> tsg_key s = tsg_value s"

interpretation tsg: per_thread ThreadLocalSingleton_instance thread_local_singleton_leave tsg_value tsg_live thread_local_singleton_ok
proof
  fix s t assume ok: "thread_local_singleton_ok s"
  then have own: "own_ok (tsg_value s) (tsg_live s) (tsg_next s)" and key: "tsg_key s = tsg_value s"
    by (simp_all add: thread_local_singleton_ok_def)
  show "\<exists>p s'. ThreadLocalSingleton_instance t s = Some (p, s') \<and> thread_local_singleton_ok s' \<and> p \<notin> tsg_live s
      \<and> tsg_value s' = (tsg_value s)(t \<mapsto> p) \<and> tsg_live s' = insert p (tsg_live s)" if "tsg_value s t = None"
    using own_ok_add[OF own that] that key
    by (simp add: ThreadLocalSingleton_instance_def Deletor_set_def thread_local_singleton_ok_def Let_def)
  show "\<exists>s'. thread_local_singleton_leave t s = Some s' \<and> thread_local_singleton_ok s' \<and> tsg_value s' = (tsg_value s)(t := None)
      \<and> tsg_live s' = tsg_live s - set_option (tsg_value s t)"
    using own key own_ok_drop[OF own, of t] own_ok_live[OF own, of t]
    by (cases "tsg_value s t") (auto simp: thread_local_singleton_leave_def ThreadLocalSingleton_destructor_def thread_local_singleton_ok_def)
qed (auto simp: ThreadLocalSingleton_instance_def thread_local_singleton_ok_def own_ok_def)

text \<open>
  For both classes: in any run of accesses and thread ends no assertion fails and no object is deleted
  twice; threads do not share objects, and the live objects are those of the threads that have not ended.
\<close>

theorem ThreadLocal_objects:
  "\<exists>as s. tl.run es ThreadLocal_new = Some (as, s) \<and> tl_live s = ran (tl_key s)
    \<and> (\<forall>t u p. tl_key s t = Some p \<and> tl_key s u = Some p \<longrightarrow> t = u)"
proof -
  have ok: "thread_local_ok ThreadLocal_new" by (simp add: thread_local_ok_def own_ok_def ThreadLocal_new_def)
  from tl.run_total[OF ok, of es] obtain as s where run: "tl.run es ThreadLocal_new = Some (as, s)" by blast
  from tl.run_separates[OF ok run] run show ?thesis by blast
qed

theorem ThreadLocalSingleton_objects:
  "\<exists>as s. tsg.run es ThreadLocalSingleton_init = Some (as, s) \<and> tsg_live s = ran (tsg_value s)
    \<and> (\<forall>t u p. tsg_value s t = Some p \<and> tsg_value s u = Some p \<longrightarrow> t = u)"
proof -
  have ok: "thread_local_singleton_ok ThreadLocalSingleton_init"
    by (simp add: thread_local_singleton_ok_def own_ok_def ThreadLocalSingleton_init_def)
  from tsg.run_total[OF ok, of es] obtain as s where run: "tsg.run es ThreadLocalSingleton_init = Some (as, s)" by blast
  from tsg.run_separates[OF ok run] run show ?thesis by blast
qed

subsection \<open>\<open>Singleton\<close>\<close>

text \<open>\<open>no_destroy\<close> says that the class has a member of that name; \<open>atexit\<close> registers \<open>destroy\<close>.\<close>

record singleton =
  sg_once :: bool
  sg_value :: "nat option"
  sg_atexit :: bool
  sg_created :: nat
  sg_live :: "nat set"

definition Singleton_start :: singleton where
  "Singleton_start = \<lparr>sg_once = False, sg_value = None, sg_atexit = False, sg_created = 0, sg_live = {}\<rparr>"

definition Singleton_init :: "bool \<Rightarrow> singleton \<Rightarrow> singleton" where
  "Singleton_init no_destroy s = (let s = s\<lparr>sg_value := Some (sg_created s), sg_live := insert (sg_created s) (sg_live s),
      sg_created := sg_created s + 1\<rparr> in if \<not> no_destroy then s\<lparr>sg_atexit := True\<rparr> else s)"

definition Singleton_instance :: "bool \<Rightarrow> singleton \<Rightarrow> (nat \<times> singleton) outcome" where
  "Singleton_instance no_destroy s = do {
     let s = (if sg_once s then s else (Singleton_init no_destroy s)\<lparr>sg_once := True\<rparr>);
     v \<leftarrow> sg_value s;
     Some (v, s)
   }"

definition Singleton_destroy :: "singleton \<Rightarrow> singleton outcome" where
  "Singleton_destroy s = do {
     assert_that (case sg_value s of None \<Rightarrow> True | Some v \<Rightarrow> v \<in> sg_live s);
     Some (s\<lparr>sg_live := sg_live s - set_option (sg_value s), sg_value := None\<rparr>)
   }"

text \<open>The end of the process runs the registered function.\<close>

definition singleton_exit :: "singleton \<Rightarrow> singleton outcome" where
  "singleton_exit s = (if sg_atexit s then Singleton_destroy s else Some s)"

fun instances :: "nat \<Rightarrow> bool \<Rightarrow> singleton \<Rightarrow> (nat list \<times> singleton) outcome" where
  "instances 0 nd s = Some ([], s)"
| "instances (Suc n) nd s = do { (v, s) \<leftarrow> Singleton_instance nd s; (vs, s) \<leftarrow> instances n nd s; Some (v # vs, s) }"

text \<open>
  However often it is asked for, one object is made and every call returns it; at exit it is deleted,
  unless its class has \<open>no_destroy\<close>; a call after that fails the assertion.
\<close>

theorem Singleton_one_object:
  "\<exists>s. instances (Suc n) nd Singleton_start = Some (replicate (Suc n) 0, s) \<and> sg_created s = 1 \<and> sg_live s = {0}
    \<and> (\<exists>s'. singleton_exit s = Some s' \<and> sg_live s' = (if nd then {0} else {}) \<and> (Singleton_instance nd s' = None \<longleftrightarrow> \<not> nd))"
proof -
  define s where "s = \<lparr>sg_once = True, sg_value = Some 0, sg_atexit = \<not> nd, sg_created = 1, sg_live = {0}\<rparr>"
  have again: "Singleton_instance nd s = Some (0, s)" by (simp add: s_def Singleton_instance_def)
  have "instances k nd s = Some (replicate k 0, s)" for k by (induction k) (simp_all add: again)
  moreover have "Singleton_instance nd Singleton_start = Some (0, s)"
    by (simp add: s_def Singleton_instance_def Singleton_start_def Singleton_init_def Let_def)
  ultimately have "instances (Suc n) nd Singleton_start = Some (replicate (Suc n) 0, s)" by simp
  then show ?thesis
    by (intro exI[of _ s]) (simp add: s_def singleton_exit_def Singleton_destroy_def Singleton_instance_def)
qed

end
