(* ===== verification/Spec2Isabelle.thy ===== *)
theory Spec2Isabelle
  imports HttpSession LoopLife TimeZoneProps LogFile AsyncLogging PoolWorkers Client Mutex LoggingProps WeakCallback ProcessInfo Singletons
begin

text \<open>
  \<^bold>\<open>A verification of the network library under\<close> \<^verbatim>\<open>src/dc\<close>

  The library is a reactor for TCP servers and clients (\<^verbatim>\<open>src/dc/net\<close>) on a base of threads, queues, dates and
  logging (\<^verbatim>\<open>src/dc/base\<close>). This header says which theory models which source, how state and operations
  correspond, what is proved, and what is left out.

  \<^bold>\<open>The program and its parts.\<close>
  An \<open>EventLoop\<close> belongs to one thread. It asks a \<open>Poller\<close> (\<open>EpollPoller\<close> or \<open>PollPoller\<close>) which descriptors are
  ready, calls the callbacks of their \<open>Channel\<close>s, and then the functors other threads have queued; an eventfd
  wakes it up. A \<open>TimerQueue\<close> is one of its channels. An \<open>Acceptor\<close> turns connections of a listening
  descriptor into descriptors, a \<open>Connector\<close> does the same for the active side, with retries. \<open>TcpServer\<close> and
  \<open>TcpClient\<close> make a \<open>TcpConnection\<close> of each descriptor and keep it until it is closed; the server spreads
  connections over the loops of an \<open>EventLoopThreadPool\<close>, whose \<open>EventLoopThread\<close>s are \<open>Thread\<close>s that run a loop. A
  connection reads into and writes from a \<open>Buffer\<close>. The HTTP server is a set of callbacks of a \<open>TcpServer\<close>
  around the incremental parser \<open>HttpContext\<close>. A log statement is a \<open>Logger\<close> that fills a \<open>LogStream\<close> with the time of
  a \<open>TimeZone\<close> and hands it to an output function, for instance that of \<open>AsyncLogging\<close>, which writes to a \<open>LogFile\<close> in
  a thread of its own. Threads share data under \<open>MutexLock\<close> and \<open>Condition\<close>.

  \<^bold>\<open>Conventions.\<close>
  An operation that can stop the process returns an \<open>outcome\<close> (theory \<open>Prelude\<close>): \<open>None\<close> is a failed assertion,
  \<open>LOG_FATAL\<close>, an uncaught exception or undefined behaviour such as a read outside an array, \<open>Some s\<close> the new
  state. A class is a record, an enumeration a datatype, an object reached through pointers is an index into
  a list or a function from addresses. What the kernel, the clock or another library answers is an
  argument: results of \<open>read\<close>, \<open>write\<close>, \<open>accept\<close>, \<open>connect\<close>, the time, the thread id, rounding to \<open>double\<close>, the text of
  IPv6 addresses, the operations of \<open>boost::circular_buffer\<close>. Sequential code is translated call by call;
  concurrent code is a step relation whose steps are single atomic actions (\<open>Mutex\<close>), critical sections (\<open>Monitor\<close>,
  \<open>Queues\<close>, \<open>AsyncLogging\<close>), or calls on a loop's thread (\<open>EventLoop\<close>, \<open>Server\<close>, \<open>Client\<close>). \<open>MutexLock_sections_serial\<close> is
  the property that allows to take a critical section as one step.

  \<^bold>\<open>Theories, in the order of their dependence.\<close>

  \<^item> \<open>Prelude\<close>: outcomes, the algorithms of \<open>std::\<close> the code calls, bytes of integers, decimal text, and the locale
    \<open>outcome_refinement\<close> (a step function with assertions implements a specification; runs of it do, too).
  \<^item> \<open>Buffer\<close> (\<open>net/buffer.h\<close>, \<open>net/buffer.cc\<close>, \<open>net/endian.h\<close>): the vector with its two indices. Locale \<open>byte_queue\<close> is the
    contract of a queue of bytes, interpreted on the buffer. Appending, reading from a descriptor and integers in
    network order are exact, any sequence of operations refines the queue, and one peek reads too far. Lengths of data in
    memory are numbers; the length of a reservation, which the caller may choose freely, is a \<open>size_t\<close> of 64 bits
    with the wrap-around of the code, which \<open>Buffer_ensureWritableBytes_wraps\<close> exhibits. The length of a \<open>StringPiece\<close> is
    cut to an \<open>int\<close> (\<open>Buffer_append_piece\<close>), so the texts of an HTTP response are kept below \<open>2 ^ 31\<close> bytes.
  \<^item> \<open>Timestamp\<close>, \<open>Date\<close>, \<open>TimeZone\<close>, \<open>TimeZoneProps\<close> (\<open>base/timeStamp\<close>, \<open>base/date\<close>, \<open>base/timeZone\<close>): the calendar and
    its Julian day numbers are inverse to each other, UTC time round-trips, both in versions that check every \<open>int\<close> for
    overflow (\<open>getJulianDayNumber_int\<close>, \<open>getYearMonthDay_int\<close>, \<open>BreakTime_int\<close>; day numbers -32044 to 536838867), the offset in force is found, a zone file
    is read back from a writer of the format; two faults of the class are shown.
  \<^item> \<open>Channel\<close>, \<open>Poller\<close>, \<open>PollerContract\<close>, \<open>Pollers\<close> (\<open>net/channel\<close>, \<open>net/poller\<close>, \<open>net/poller/*\<close>): the two pollers with their maps,
    index marks and swapped vector entries. Locale \<open>poller_contract\<close> is what the loop relies on; both pollers
    are interpretations, and so watch the same events for the same calls.
  \<^item> \<open>EventLoop\<close>, \<open>EventLoopProps\<close> (\<open>net/eventLoop\<close>): one iteration of the loop, functors and wake-ups. The relation
    \<open>loop_step\<close> interleaves the loop thread, which enters \<open>loop()\<close>, goes through its turns and leaves it on \<open>is_quit\<close>, with threads that
    queue functors and call \<open>quit\<close>. The interest of a channel is what is watched; no wake-up of another thread or of a
    functor is lost, while a functor queued by the loop thread outside \<open>loop()\<close> waits for the timeout (\<open>early_functor_waits\<close>);
    functors run once, in order, as long as the loop is not told to quit.
  \<^item> \<open>TimerQueue\<close>, \<open>TimerQueueProps\<close> (\<open>net/timer\<close>, \<open>net/timerId.h\<close>, \<open>net/timerQueue\<close>): the two sorted sets stay in step; exactly
    the due timers run, repeating ones are set again; adding and cancelling are inverse.
  \<^item> \<open>TimerHistory\<close>: all histories of a timer queue, with callbacks that add and cancel timers and functors on their way to the
    loop. The state stays well formed, every timer is owned by one place, and no deleted timer is touched by the
    loop. \<open>addTimer\<close> is two steps, the handing over of the timer and the reading of its sequence number: on another
    thread the loop may delete the timer in between (\<open>TimerQueue_addTimer_races\<close>).
  \<^item> \<open>LoopLife\<close>: construction and destruction of a loop together with its poller, timer queue and wake-up channel.
  \<^item> \<open>TcpConnection\<close>, \<open>TcpConnectionProps\<close>, \<open>ConnectionLife\<close> (\<open>net/tcpConnection\<close>): sending, reading, half-closing and the
    life cycle. The bytes on the wire are those sent, in order; a half-close waits for them. \<open>ConnectionLife\<close> gives the
    abstract life of a connection and shows that the detailed operations refine it; server and client rest on it.
  \<^item> \<open>Connector\<close>, \<open>ConnectorProps\<close>, \<open>Acceptor\<close> (\<open>net/connector\<close>, \<open>net/acceptor\<close>): no descriptor is lost or closed twice.
  \<^item> \<open>Atomics\<close>, \<open>Server\<close>, \<open>ServerProps\<close> (\<open>base/atomic.h\<close>, \<open>net/eventLoopThreadPool\<close>, \<open>net/tcpServer\<close>): in every interleaving of the
    loops, with \<open>shutdown\<close> and \<open>forceClose\<close> called on the loop of the connection, no assertion fails, names are distinct, loops are assigned in turn, and quiet queues mean that the map holds
    exactly the open connections.
  \<^item> \<open>Client\<close> (\<open>net/tcpClient\<close>): the current connection is the only open one, and reconnecting is asked for when wanted.
  \<^item> \<open>Http\<close>, \<open>HttpProps\<close> (\<open>net/http/*\<close>): the parser reads back printed requests and returns in every state that expects
    input; the server answers a request on its connection and half-closes on a bad one.
  \<^item> \<open>HttpSession\<close> (\<open>net/http/httpServer\<close>): the server object, and a connection whose input arrives in fragments. The parser
    on the buffer refines a function on texts; more bytes never change what was parsed, so a session of requests is
    answered exactly, whatever the fragments.
  \<^item> \<open>InetAddress\<close> (\<open>net/inetAddress\<close>, \<open>net/socketsOps\<close>, \<open>net/socket\<close>): addresses by their bytes, their text and back,
    and the test for a connection to oneself.
  \<^item> \<open>WeakCallback\<close> (\<open>base/weakCallback.h\<close>): a call through a weak pointer on a store with reference counts, its use in the
    delayed close of a connection, and the calls of a connection that go straight to its socket.
  \<^item> \<open>Mutex\<close> (\<open>base/mutex.h\<close>, \<open>base/condition\<close>), \<open>Monitor\<close>, \<open>Queues\<close> (\<open>base/blockingQueue.h\<close>, \<open>base/boundedBlockingQueue.h\<close>,
    \<open>base/threadpool\<close>, \<open>base/countDownLatch\<close>): critical sections are atomic, also when a timed
    wait answers \<open>EINVAL\<close>; locale \<open>queue_monitor\<close> is the contract of a queue between
    threads, interpreted on the queues and the pool: first in first out, bounded, and no lost wake-up.
  \<^item> \<open>PoolWorkers\<close> (\<open>base/threadpool\<close>): the workers with their initial callback and tasks, the clients and \<open>stop\<close> with its
    joins, as a step function that refines the monitor of the pool. Tasks are executed once each, and \<open>stop\<close> returns.
  \<^item> \<open>Threads\<close> (\<open>base/currentThread\<close>, \<open>base/thread\<close>, \<open>base/exception\<close>, \<open>net/eventLoopThread\<close>): starting a loop thread returns its loop; two ways
    to wait forever are shown; stack traces, and how a thread and a worker of a pool end.
  \<^item> \<open>Singletons\<close> (\<open>base/threadLocal.h\<close>, \<open>base/threadLocalSingleton.h\<close>, \<open>base/singleton.h\<close>): locale \<open>per_thread\<close> is the contract of
    a value per thread, interpreted on both classes.
  \<^item> \<open>StringPiece\<close>, \<open>LogStream\<close>, \<open>LogStreamProps\<close>, \<open>Logging\<close>, \<open>LoggingProps\<close>, \<open>LogFile\<close>, \<open>AsyncLogging\<close> (\<open>base/stringPieces.h\<close>, \<open>base/logStream\<close>,
    \<open>base/logging\<close>, \<open>base/fileUtil\<close>, \<open>base/logFile\<close>, \<open>base/asyncLogging\<close>): insertions are whole or dropped, a line is exactly the
    documented text, the bytes a log file accepted stay in it in order whatever the clock, \<open>fwrite\<close> and \<open>fopen\<close> answer, and every line given to the asynchronous logger is written or reported as dropped.
  \<^item> \<open>ProcessInfo\<close> (\<open>base/processInfo\<close>): files and directories below \<open>/proc\<close>; the faults of three functions.

  \<^bold>\<open>Loops and bounds.\<close>
  There is no fuel in the model. Loops over lists are structural recursion or \<open>for_each\<close>; those on numbers and files
  are functions with a termination proof, and so is the parser on texts; the loop of the parser, which does not end in two states, is a
  \<open>partial_function\<close> and \<open>HttpContext_parse_termination\<close> says when it returns. The endless loops of \<open>EventLoop::loop\<close>, of the
  workers of a pool and of the logging thread are step relations, so their properties are invariants of all
  reachable states, and progress is stated with measures (\<open>EventLoopThread_startLoop_returns\<close>, \<open>TcpServer_connections\<close>,
  \<open>ThreadPool_workers\<close>).
  Counters of connections are kept below \<open>2 ^ 31 - 1\<close>, where the code's \<open>int\<close> would overflow; words have their
  width where wrap-around matters (reservations and integers in a buffer, atomics, ports and addresses, event masks).
  Durations of \<open>waitForSeconds\<close> are within the range of \<open>int64_t\<close> nanoseconds, and sums of seconds and zone offsets within \<open>int64_t\<close>. A \<open>double\<close> is the
  number it denotes, with rounding as an argument.

  \<^bold>\<open>Not modelled.\<close>
  Addresses of objects beyond identity, reference counts beyond the places where the code tests them, and memory
  ordering weaker than interleaving. Single accesses of plain fields that race, such as the unlocked read of \<open>m_loop\<close> in
  \<open>~EventLoopThread\<close>, are single steps here. The test and the setting of \<open>m_state\<close> in \<open>shutdown\<close> and \<open>forceClose\<close> are one step
  only on the thread of the loop; \<open>state_race_breaks_destructor\<close> shows what happens between them on another.
  A failing \<open>epoll_ctl\<close> is a branch of \<open>EpollPoller_update\<close>; the properties of the pollers and of the loop are about calls that succeed. The user data of a loop or a connection (\<open>std::any\<close>) is stored and
  returned only; that of an HTTP connection is its parser context. The variants for \<open>VALGRIND\<close> and \<open>NO_ACCEPT4\<close> of
  \<open>net/socketsOps.cc\<close> do not compile. System calls behind thin wrappers are arguments of their callers. \<open>GzipFile\<close> does not compile and is included nowhere; \<open>base/eventLoop.h\<close> is an unused copy. Tests and
  the files \<open>cmake\<close> generated are not part of the program.
\<close>

end
